(* ===== verification/Prelude.thy ===== *)
theory Prelude
  imports Main "HOL-Library.Word" "HOL-Library.Char_ord" "HOL-Library.List_Lexorder"
    "HOL-Library.Product_Lexorder" "HOL-Library.Multiset"
begin

text \<open>
  Shared vocabulary of the development: Rust results as sums, stateful fallible operations as
  functions from a state to an outcome and a state, machine integers as words, and the
  big-endian byte representation used by every encoder of the program.

  \<^item> A \<open>Result<T, E>\<close> is a value of type \<open>'e + 'a\<close>, with \<open>Inl\<close> for \<open>Err\<close>;
    the question-mark operator is \<open>bindE\<close>.
  \<^item> A method on \<open>&mut self\<close> that may fail is an action \<open>'s \<Rightarrow> ('e + 'a) \<times> 's\<close>: the state
    is returned on the error path too, because an operation made of several transactions keeps
    the ones that were committed before the error.
  \<^item> \<open>[u8; 32]\<close> is the 256-bit word of its big-endian bytes. Lexicographic order on byte arrays
    of one length is the numeric order of these words (lemma \<open>be_nat_less_iff\<close>).
\<close>

named_theorems result_simps \<open>rewriting with results and actions\<close>
named_theorems codec_simps \<open>lengths and shapes of encodings\<close>

type_synonym byte = "8 word"
type_synonym u32 = "32 word"
type_synonym u64 = "64 word"
type_synonym i64 = "64 word"
type_synonym bytes32 = "256 word"
type_synonym bytes64 = "512 word"

section \<open>Results\<close>

definition bindE :: "'e + 'a \<Rightarrow> ('a \<Rightarrow> 'e + 'b) \<Rightarrow> 'e + 'b" where
  "bindE m f = (case m of Inl e \<Rightarrow> Inl e | Inr a \<Rightarrow> f a)"

definition mapErr :: "('e \<Rightarrow> 'f) \<Rightarrow> 'e + 'a \<Rightarrow> 'f + 'a" where
  "mapErr g m = (case m of Inl e \<Rightarrow> Inl (g e) | Inr a \<Rightarrow> Inr a)"

definition guardE :: "bool \<Rightarrow> 'e \<Rightarrow> 'e + unit" where
  "guardE b e = (if b then Inr () else Inl e)"

definition ok_or :: "'e \<Rightarrow> 'a option \<Rightarrow> 'e + 'a" where
  "ok_or e m = (case m of None \<Rightarrow> Inl e | Some a \<Rightarrow> Inr a)"

definition is_ok :: "'e + 'a \<Rightarrow> bool" where
  "is_ok m = (case m of Inl _ \<Rightarrow> False | Inr _ \<Rightarrow> True)"

text \<open>
  \<open>expect\<close> is Rust's: the value of an \<open>Ok\<close>, a panic on an \<open>Err\<close>. The panicking branch is
  left unspecified, so nothing can be derived from it; each use comes with a lemma that its
  argument is an \<open>Ok\<close> on the values the program can build.
\<close>

definition expect :: "'e + 'a \<Rightarrow> 'a" where
  "expect m = (case m of Inl _ \<Rightarrow> undefined | Inr a \<Rightarrow> a)"

lemma bindE_simps [simp, result_simps]:
  "bindE (Inl e) f = Inl e" "bindE (Inr a) f = f a"
  by (simp_all add: bindE_def)

lemma bindE_eq_Inr [result_simps]:
  "bindE m f = Inr b \<longleftrightarrow> (\<exists>a. m = Inr a \<and> f a = Inr b)"
  by (cases m) simp_all

lemma mapErr_simps [simp]:
  "mapErr g (Inl e) = Inl (g e)" "mapErr g (Inr a) = Inr a"
  by (simp_all add: mapErr_def)

lemma mapErr_eq_Inr [simp]: "mapErr g m = Inr a \<longleftrightarrow> m = Inr a"
  by (cases m) simp_all

lemma guardE_eq_Inr [simp]: "guardE b e = Inr u \<longleftrightarrow> b"
  by (simp add: guardE_def)

lemma guardE_True [simp]: "guardE True e = Inr ()"
  by (simp add: guardE_def)

lemma guardE_False [simp]: "guardE False e = Inl e"
  by (simp add: guardE_def)

lemma ok_or_simps [simp]: "ok_or e None = Inl e" "ok_or e (Some a) = Inr a"
  by (simp_all add: ok_or_def)

lemma ok_or_eq_Inr [simp]: "ok_or e m = Inr a \<longleftrightarrow> m = Some a"
  by (cases m) simp_all

lemma is_ok_simps [simp]: "is_ok (Inl e) = False" "is_ok (Inr a) = True"
  by (simp_all add: is_ok_def)

lemma is_ok_iff: "is_ok m \<longleftrightarrow> (\<exists>a. m = Inr a)"
  by (cases m) simp_all

lemma expect_Inr [simp]: "expect (Inr a) = a"
  by (simp add: expect_def)

text \<open>A loop that runs a fallible check on every element and stops at the first error.\<close>

primrec for_each :: "('x \<Rightarrow> 'e + unit) \<Rightarrow> 'x list \<Rightarrow> 'e + unit" where
  "for_each f [] = Inr ()"
| "for_each f (x # xs) = bindE (f x) (\<lambda>_. for_each f xs)"

text \<open>\<open>iter().map(f).collect::<Result<Vec<_>, _>>()\<close>.\<close>

primrec map_result :: "('x \<Rightarrow> 'e + 'y) \<Rightarrow> 'x list \<Rightarrow> 'e + 'y list" where
  "map_result f [] = Inr []"
| "map_result f (x # xs) = bindE (f x) (\<lambda>y. bindE (map_result f xs) (\<lambda>ys. Inr (y # ys)))"

lemma for_each_eq_Inr: "for_each f xs = Inr u \<longleftrightarrow> (\<forall>x \<in> set xs. f x = Inr ())"
  by (induction xs) (auto simp: bindE_eq_Inr)

lemma map_result_eq_Inr:
  "map_result f xs = Inr ys \<longleftrightarrow> list_all2 (\<lambda>x y. f x = Inr y) xs ys"
proof (induction xs arbitrary: ys)
  case Nil
  then show ?case by (cases ys) auto
next
  case (Cons x xs)
  then show ?case by (cases ys) (auto simp: bindE_eq_Inr)
qed

lemma map_result_Inr: "(\<And>x. x \<in> set xs \<Longrightarrow> f x = Inr (g x)) \<Longrightarrow> map_result f xs = Inr (map g xs)"
  by (induction xs) auto

lemma map_result_append:
  "map_result f (xs @ ys) = bindE (map_result f xs) (\<lambda>us. bindE (map_result f ys) (\<lambda>vs. Inr (us @ vs)))"
proof (induction xs)
  case Nil
  then show ?case by (cases "map_result f ys") simp_all
next
  case (Cons x xs)
  then show ?case by (cases "f x"; cases "map_result f xs"; cases "map_result f ys") simp_all
qed

lemma map_result_drop: "map_result f xs = Inr ys \<Longrightarrow> map_result f (drop n xs) = Inr (drop n ys)"
  by (simp add: map_result_eq_Inr list_all2_dropI)

lemma map_result_take: "map_result f xs = Inr ys \<Longrightarrow> map_result f (take n xs) = Inr (take n ys)"
  by (simp add: map_result_eq_Inr list_all2_takeI)

lemma map_result_filter:
  assumes "map_result f xs = Inr ys" and "\<And>x y. f x = Inr y \<Longrightarrow> Q y = P x"
  shows "map_result f (filter P xs) = Inr (filter Q ys)"
  using assms(1)
proof (induction xs arbitrary: ys)
  case Nil
  then show ?case by simp
next
  case (Cons x xs)
  then obtain z zs where "f x = Inr z" "map_result f xs = Inr zs" "ys = z # zs"
    by (auto simp: bindE_eq_Inr)
  with Cons.IH assms(2) [of x z] show ?case by simp
qed

lemma map_result_length: "map_result f xs = Inr ys \<Longrightarrow> length xs = length ys"
  by (auto simp: map_result_eq_Inr dest: list_all2_lengthD)

section \<open>Stateful fallible operations\<close>

type_synonym ('s, 'e, 'a) action = "'s \<Rightarrow> ('e + 'a) \<times> 's"

definition returnS :: "'a \<Rightarrow> ('s, 'e, 'a) action" where
  "returnS a s = (Inr a, s)"

definition throwS :: "'e \<Rightarrow> ('s, 'e, 'a) action" where
  "throwS e s = (Inl e, s)"

definition liftS :: "'e + 'a \<Rightarrow> ('s, 'e, 'a) action" where
  "liftS r s = (r, s)"

definition bindS :: "('s, 'e, 'a) action \<Rightarrow> ('a \<Rightarrow> ('s, 'e, 'b) action) \<Rightarrow> ('s, 'e, 'b) action" where
  "bindS m f s = (case m s of (Inl e, s') \<Rightarrow> (Inl e, s') | (Inr a, s') \<Rightarrow> f a s')"

definition queryS :: "('s \<Rightarrow> 'e + 'a) \<Rightarrow> ('s, 'e, 'a) action" where
  "queryS q s = (q s, s)"

definition mapErrS :: "('e \<Rightarrow> 'f) \<Rightarrow> ('s, 'e, 'a) action \<Rightarrow> ('s, 'f, 'a) action" where
  "mapErrS g m s = (case m s of (r, s') \<Rightarrow> (mapErr g r, s'))"

text \<open>
  \<open>transactionS\<close> is a transaction that is dropped, hence rolled back, when its body returns
  early with an error, and committed at the end otherwise.
\<close>

definition transactionS :: "('s \<Rightarrow> 'e + ('a \<times> 's)) \<Rightarrow> ('s, 'e, 'a) action" where
  "transactionS body s = (case body s of Inl e \<Rightarrow> (Inl e, s) | Inr (a, s') \<Rightarrow> (Inr a, s'))"

primrec forS :: "('x \<Rightarrow> ('s, 'e, unit) action) \<Rightarrow> 'x list \<Rightarrow> ('s, 'e, unit) action" where
  "forS f [] s = (Inr (), s)"
| "forS f (x # xs) s = bindS (f x) (\<lambda>_. forS f xs) s"

lemma returnS_apply [simp]: "returnS a s = (Inr a, s)"
  by (simp add: returnS_def)

lemma throwS_apply [simp]: "throwS e s = (Inl e, s)"
  by (simp add: throwS_def)

lemma liftS_apply [simp]: "liftS r s = (r, s)"
  by (simp add: liftS_def)

lemma queryS_apply [simp]: "queryS q s = (q s, s)"
  by (simp add: queryS_def)

lemma bindS_Inl: "m s = (Inl e, s') \<Longrightarrow> bindS m f s = (Inl e, s')"
  by (simp add: bindS_def)

lemma bindS_Inr: "m s = (Inr a, s') \<Longrightarrow> bindS m f s = f a s'"
  by (simp add: bindS_def)

lemma bindS_eq_Inr [result_simps]:
  "bindS m f s = (Inr b, s'') \<longleftrightarrow> (\<exists>a s'. m s = (Inr a, s') \<and> f a s' = (Inr b, s''))"
  by (auto simp: bindS_def split: prod.splits sum.splits)

lemma transactionS_eq_Inr [result_simps]:
  "transactionS body s = (Inr a, s') \<longleftrightarrow> body s = Inr (a, s')"
  by (auto simp: transactionS_def split: sum.splits)

lemma transactionS_rollback:
  "transactionS body s = (Inl e, s') \<Longrightarrow> s' = s"
  by (auto simp: transactionS_def split: sum.splits)

text \<open>
  Preservation: the rule by which an invariant of a store is carried through a composed
  operation, on the success path and on every error path alike.
\<close>

definition preserves :: "('s \<Rightarrow> bool) \<Rightarrow> ('s, 'e, 'a) action \<Rightarrow> bool" where
  "preserves I m \<longleftrightarrow> (\<forall>s. I s \<longrightarrow> I (snd (m s)))"

named_theorems preserves_intros \<open>rules that carry an invariant through an action\<close>

lemma preservesD: "preserves I m \<Longrightarrow> I s \<Longrightarrow> m s = (r, s') \<Longrightarrow> I s'"
  by (auto simp: preserves_def dest!: spec [of _ s])

lemma preserves_pure [preserves_intros]:
  "preserves I (returnS a)" "preserves I (throwS e)" "preserves I (liftS r)" "preserves I (queryS q)"
  by (simp_all add: preserves_def)

lemma preserves_bindS [preserves_intros]:
  assumes "preserves I m" and "\<And>a. preserves I (f a)"
  shows "preserves I (bindS m f)"
  using assms by (auto simp: preserves_def bindS_def split: prod.splits sum.splits)

lemma preserves_mapErrS [preserves_intros]: "preserves I m \<Longrightarrow> preserves I (mapErrS g m)"
  by (auto simp: preserves_def mapErrS_def split: prod.splits)

lemma preserves_forS [preserves_intros]:
  assumes "\<And>x. x \<in> set xs \<Longrightarrow> preserves I (f x)"
  shows "preserves I (forS f xs)"
  using assms
proof (induction xs)
  case Nil
  then show ?case by (simp add: preserves_def)
next
  case (Cons x xs)
  then have "preserves I (bindS (f x) (\<lambda>_. forS f xs))"
    by (intro preserves_bindS) simp_all
  then show ?case by (simp add: preserves_def)
qed

lemma preserves_transactionS:
  assumes "\<And>s a s'. I s \<Longrightarrow> body s = Inr (a, s') \<Longrightarrow> I s'"
  shows "preserves I (transactionS body)"
  using assms by (auto simp: preserves_def transactionS_def split: sum.splits)

lemma preserves_if [preserves_intros]:
  "preserves I m \<Longrightarrow> preserves I n \<Longrightarrow> preserves I (if b then m else n)"
  by simp

section \<open>Machine integers\<close>

definition u32_try_from :: "nat \<Rightarrow> u32 option" where
  "u32_try_from n = (if n < 2 ^ 32 then Some (of_nat n) else None)"

definition u64_checked_add :: "u64 \<Rightarrow> u64 \<Rightarrow> u64 option" where
  "u64_checked_add a b = (if unat a + unat b < 2 ^ 64 then Some (a + b) else None)"

definition usize_checked_add :: "nat \<Rightarrow> nat \<Rightarrow> nat option" where
  "usize_checked_add a b = (if a + b < 2 ^ 64 then Some (a + b) else None)"

text \<open>\<open>i64::try_from(u64)\<close>: the value must not exceed \<open>i64::MAX\<close>.\<close>

definition i64_try_from_u64 :: "u64 \<Rightarrow> i64 option" where
  "i64_try_from_u64 n = (if unat n < 2 ^ 63 then Some n else None)"

definition i64_saturating :: "int \<Rightarrow> i64" where
  "i64_saturating n = word_of_int (max (- (2 ^ 63)) (min (2 ^ 63 - 1) n))"

definition i64_saturating_add :: "i64 \<Rightarrow> i64 \<Rightarrow> i64" where
  "i64_saturating_add a b = i64_saturating (sint a + sint b)"

lemma u32_try_from_Some: "u32_try_from n = Some w \<longleftrightarrow> n < 2 ^ 32 \<and> w = of_nat n"
  by (auto simp: u32_try_from_def)

lemma u32_try_from_None: "u32_try_from n = None \<longleftrightarrow> 2 ^ 32 \<le> n"
  by (simp add: u32_try_from_def)

lemma unat_of_nat_u32: "n < 2 ^ 32 \<Longrightarrow> unat (of_nat n :: u32) = n"
  by (simp add: unat_of_nat take_bit_nat_eq_self)

lemma u64_checked_add_Some:
  "u64_checked_add a b = Some c \<longleftrightarrow> unat a + unat b < 2 ^ 64 \<and> c = a + b"
  by (auto simp: u64_checked_add_def)

lemma u64_checked_add_unat:
  "u64_checked_add a b = Some c \<Longrightarrow> unat c = unat a + unat b"
  by (auto simp: u64_checked_add_def unat_word_ariths split: if_splits)

lemma sint_i64_saturating:
  "sint (i64_saturating n) = max (- (2 ^ 63)) (min (2 ^ 63 - 1) n)"
proof -
  let ?m = "max (- (2 ^ 63)) (min (2 ^ 63 - 1) n)"
  have "- (2 ^ 63) \<le> ?m" "?m < 2 ^ 63" by auto
  then have "signed_take_bit 63 ?m = ?m"
    by (intro signed_take_bit_int_eq_self) auto
  then show ?thesis
    unfolding i64_saturating_def by (simp add: signed_of_int)
qed

lemma sint_u64_nonneg:
  assumes "unat (n :: 64 word) < 2 ^ 63"
  shows "sint n = int (unat n)"
proof -
  have up: "uint n < 2 ^ 63"
  proof -
    have "int (unat n) < int (2 ^ 63)" using assms by (simp only: of_nat_less_iff)
    then show ?thesis by simp
  qed
  have "- (2 ^ 63) \<le> uint n"
    by (rule order_trans [of _ 0]) simp_all
  with up have "signed_take_bit 63 (uint n) = uint n"
    by (intro signed_take_bit_int_eq_self) simp_all
  then show ?thesis by (simp add: sint_uint)
qed

section \<open>Orderings\<close>

text \<open>\<open>std::cmp::Ordering\<close>, \<open>cmp\<close> and \<open>then_with\<close>.\<close>

datatype ordering = Less | Equal | Greater

definition cmp :: "'a::linorder \<Rightarrow> 'a \<Rightarrow> ordering" where
  "cmp a b = (if a < b then Less else if a = b then Equal else Greater)"

definition then_with :: "ordering \<Rightarrow> ordering \<Rightarrow> ordering" where
  "then_with a b = (case a of Equal \<Rightarrow> b | _ \<Rightarrow> a)"

definition reverse_ordering :: "ordering \<Rightarrow> ordering" where
  "reverse_ordering a = (case a of Less \<Rightarrow> Greater | Equal \<Rightarrow> Equal | Greater \<Rightarrow> Less)"

lemma cmp_eq [simp]:
  "cmp a b = Less \<longleftrightarrow> a < b" "cmp a b = Equal \<longleftrightarrow> a = b" "cmp a b = Greater \<longleftrightarrow> b < a"
  by (auto simp: cmp_def)

lemma cmp_reverse: "reverse_ordering (cmp a b) = cmp b a"
  by (auto simp: cmp_def reverse_ordering_def)

lemma then_with_cmp: "then_with (cmp a b) (cmp c d) = cmp (a, c) (b, d)"
  by (auto simp: then_with_def cmp_def less_prod_def)

section \<open>Big-endian bytes\<close>

fun nat_be :: "nat \<Rightarrow> nat \<Rightarrow> byte list" where
  "nat_be 0 x = []"
| "nat_be (Suc n) x = nat_be n (x div 256) @ [of_nat x]"

definition be_nat :: "byte list \<Rightarrow> nat" where
  "be_nat bs = foldl (\<lambda>a b. a * 256 + unat b) 0 bs"

definition to_be_bytes :: "'a::len word \<Rightarrow> byte list" where
  "to_be_bytes w = nat_be (LENGTH('a) div 8) (unat w)"

definition from_be_bytes :: "byte list \<Rightarrow> 'a::len word" where
  "from_be_bytes bs = of_nat (be_nat bs)"

lemma length_nat_be [simp]: "length (nat_be n x) = n"
  by (induction n arbitrary: x) auto

lemma be_nat_Nil [simp]: "be_nat [] = 0"
  by (simp add: be_nat_def)

lemma be_nat_snoc [simp]: "be_nat (bs @ [b]) = be_nat bs * 256 + unat b"
  by (simp add: be_nat_def)

lemma unat_byte_less: "unat (b :: byte) < 256"
  using unsigned_less [of b, where ?'a = nat] by simp

lemma unat_of_nat_byte: "unat (of_nat x :: byte) = x mod 256"
  by (simp add: unat_of_nat take_bit_eq_mod)

lemma be_nat_nat_be: "be_nat (nat_be n x) = x mod 256 ^ n"
proof (induction n arbitrary: x)
  case 0
  then show ?case by simp
next
  case (Suc n)
  have "x mod 256 ^ Suc n = x mod (256 * 256 ^ n)" by simp
  also have "\<dots> = 256 * (x div 256 mod 256 ^ n) + x mod 256"
    by (rule mod_mult2_eq)
  finally show ?case using Suc by (simp add: unat_of_nat_byte)
qed

lemma be_nat_less: "be_nat bs < 256 ^ length bs"
proof (induction bs rule: rev_induct)
  case Nil
  then show ?case by simp
next
  case (snoc b bs)
  have "be_nat bs * 256 + unat b < (be_nat bs + 1) * 256"
    using unat_byte_less [of b] by simp
  also have "\<dots> \<le> 256 ^ length bs * 256"
    using snoc by (intro mult_le_mono1) simp
  finally show ?case by simp
qed

lemma nat_be_be_nat: "nat_be (length bs) (be_nat bs) = bs"
proof (induction bs rule: rev_induct)
  case Nil
  then show ?case by simp
next
  case (snoc b bs)
  have "(be_nat bs * 256 + unat b) div 256 = be_nat bs"
    using unat_byte_less [of b] by simp
  moreover have "(of_nat (be_nat bs * 256 + unat b) :: byte) = b"
  proof -
    have "unat (of_nat (be_nat bs * 256 + unat b) :: byte) = unat b"
      using unat_byte_less [of b] by (simp only: unat_of_nat_byte) simp
    then show ?thesis by (simp only: word_unat_eq_iff)
  qed
  ultimately show ?case using snoc by simp
qed

lemma length_to_be_bytes [simp]:
  "length (to_be_bytes (w :: 'a::len word)) = LENGTH('a) div 8"
  by (simp add: to_be_bytes_def)

lemma from_to_be_bytes:
  assumes "8 dvd LENGTH('a)"
  shows "from_be_bytes (to_be_bytes (w :: 'a::len word)) = w"
proof -
  from assms obtain k where k: "LENGTH('a) = 8 * k" by (elim dvdE)
  then have "(256 :: nat) ^ (LENGTH('a) div 8) = 2 ^ LENGTH('a)"
    by (simp add: power_mult)
  then have "be_nat (to_be_bytes w) = unat w"
    by (simp only: to_be_bytes_def be_nat_nat_be) simp
  then show ?thesis by (simp add: from_be_bytes_def)
qed

lemma to_from_be_bytes:
  assumes "8 dvd LENGTH('a)" and "length bs = LENGTH('a) div 8"
  shows "to_be_bytes (from_be_bytes bs :: 'a::len word) = bs"
proof -
  from assms(1) obtain k where k: "LENGTH('a) = 8 * k" by (elim dvdE)
  have "be_nat bs < 2 ^ LENGTH('a)"
    using be_nat_less [of bs] assms(2) k by (simp add: power_mult)
  then have "unat (of_nat (be_nat bs) :: 'a word) = be_nat bs"
    by (simp add: unat_of_nat take_bit_nat_eq_self)
  then show ?thesis
    using nat_be_be_nat [of bs] assms(2) by (simp add: to_be_bytes_def from_be_bytes_def)
qed

lemma to_be_bytes_inj:
  assumes "8 dvd LENGTH('a)"
  shows "to_be_bytes (v :: 'a::len word) = to_be_bytes w \<longleftrightarrow> v = w"
  using from_to_be_bytes [OF assms] by metis

text \<open>The order of two byte arrays of one length is the order of the numbers they encode.\<close>

lemma be_nat_append: "be_nat (xs @ ys) = be_nat xs * 256 ^ length ys + be_nat ys"
proof (induction ys rule: rev_induct)
  case Nil
  then show ?case by simp
next
  case (snoc y ys)
  then show ?case
    by (simp add: append_assoc [symmetric] algebra_simps del: append_assoc)
qed

lemma be_nat_Cons: "be_nat (b # bs) = unat b * 256 ^ length bs + be_nat bs"
  using be_nat_append [of "[b]" bs] by (simp add: be_nat_def)

lemma be_nat_less_iff:
  "length xs = length ys \<Longrightarrow> be_nat xs < be_nat ys \<longleftrightarrow> xs < ys"
proof (induction xs ys rule: list_induct2)
  case Nil
  then show ?case by simp
next
  case (Cons x xs y ys)
  let ?m = "256 ^ length ys :: nat"
  have bx: "be_nat xs < ?m" using be_nat_less [of xs] Cons.hyps by simp
  have by_less: "be_nat ys < ?m" by (rule be_nat_less)
  have lt: "unat a * ?m + u < unat b * ?m + v"
    if "unat a < unat b" "u < ?m" for a b :: byte and u v :: nat
  proof -
    have "unat a * ?m + u < (unat a + 1) * ?m" using that(2) by simp
    also have "\<dots> \<le> unat b * ?m" using that(1) by (intro mult_le_mono1) simp
    finally show ?thesis by simp
  qed
  consider "unat x < unat y" | "unat y < unat x" | "x = y"
    by (metis linorder_neqE_nat word_unat_eq_iff)
  then show ?case
  proof cases
    case 1
    then show ?thesis
      using lt [OF 1 bx, of "be_nat ys"] Cons.hyps by (simp add: be_nat_Cons word_less_nat_alt)
  next
    case 2
    then show ?thesis
      using lt [OF 2 by_less, of "be_nat xs"] Cons.hyps
      by (auto simp add: be_nat_Cons word_less_nat_alt)
  next
    case 3
    then show ?thesis using Cons by (simp add: be_nat_Cons)
  qed
qed

lemma to_be_bytes_less_iff:
  assumes "8 dvd LENGTH('a)"
  shows "to_be_bytes (v :: 'a::len word) < to_be_bytes w \<longleftrightarrow> v < w"
proof -
  from assms obtain k where k: "LENGTH('a) = 8 * k" by (elim dvdE)
  then have "(256 :: nat) ^ (LENGTH('a) div 8) = 2 ^ LENGTH('a)"
    by (simp add: power_mult)
  then have "be_nat (to_be_bytes u) = unat u" for u :: "'a word"
    by (simp only: to_be_bytes_def be_nat_nat_be) simp
  then show ?thesis
    using be_nat_less_iff [of "to_be_bytes v" "to_be_bytes w"] by (simp add: word_less_nat_alt)
qed

end
