(* ===== verification/Byte_Cursor.thy ===== *)
theory Byte_Cursor
  imports Prelude
begin

text \<open>
  A position in a byte slice, the shape of both readers of the program (\<open>canonical::Decoder\<close> and
  \<open>protocol::WireReader\<close>), and the contract between the writer and the reader of one field, as
  the locale \<open>field_codec\<close>. \<open>reads c v c'\<close> says that the cursor moves over exactly the bytes
  \<open>v\<close>; a codec reads back what it wrote, and accepts nothing else. The law for counted
  sequences of fields is proved once from the contract.
\<close>

record cursor =
  cur_bytes :: "byte list"
  cur_pos :: nat

definition rest :: "cursor \<Rightarrow> byte list" where
  "rest c = drop (cur_pos c) (cur_bytes c)"

definition advance :: "nat \<Rightarrow> cursor \<Rightarrow> cursor" where
  "advance n c = c\<lparr>cur_pos := cur_pos c + n\<rparr>"

text \<open>A Rust slice is no longer than \<open>isize::MAX\<close> bytes; \<open>2 ^ 64\<close> is what the arithmetic needs.\<close>

definition cur_ok :: "cursor \<Rightarrow> bool" where
  "cur_ok c \<longleftrightarrow> cur_pos c \<le> length (cur_bytes c) \<and> length (cur_bytes c) < 2 ^ 64"

definition reads :: "cursor \<Rightarrow> byte list \<Rightarrow> cursor \<Rightarrow> bool" where
  "reads c v c' \<longleftrightarrow> cur_ok c \<and> cur_ok c' \<and> c' = advance (length v) c \<and> rest c = v @ rest c'"

text \<open>\<open>slice.get(i..j)\<close>\<close>

definition slice_get :: "'a list \<Rightarrow> nat \<Rightarrow> nat \<Rightarrow> 'a list option" where
  "slice_get xs i j = (if i \<le> j \<and> j \<le> length xs then Some (take (j - i) (drop i xs)) else None)"

definition cursor_done :: "cursor \<Rightarrow> bool" where
  "cursor_done c \<longleftrightarrow> cur_pos c = length (cur_bytes c)"

lemma reads_cur_ok: "reads c v c' \<Longrightarrow> cur_ok c" "reads c v c' \<Longrightarrow> cur_ok c'"
  unfolding reads_def by blast+

lemma reads_Nil [simp]: "reads c [] c' \<longleftrightarrow> cur_ok c \<and> c' = c"
  by (auto simp: reads_def advance_def)

lemma rest_advance: "rest c = v @ r \<Longrightarrow> rest (advance (length v) c) = r"
  using drop_drop [of "length v" "cur_pos c" "cur_bytes c"]
  by (simp add: rest_def advance_def add.commute)

lemma readsI:
  assumes "cur_ok c" and "rest c = v @ r"
  shows "reads c v (advance (length v) c)"
proof -
  have "length (rest c) = length v + length r" using assms(2) by simp
  then have "cur_ok (advance (length v) c)"
    using assms(1) by (auto simp: rest_def cur_ok_def advance_def)
  with assms show ?thesis by (simp add: reads_def rest_advance)
qed

lemma reads_append:
  "reads c (v @ w) c'' \<longleftrightarrow> (\<exists>c'. reads c v c' \<and> reads c' w c'')"
proof
  assume r: "reads c (v @ w) c''"
  then have "reads c v (advance (length v) c)"
    by (intro readsI) (simp_all add: reads_def)
  moreover from this r have "reads (advance (length v) c) w c''"
    by (auto simp: reads_def advance_def)
  ultimately show "\<exists>c'. reads c v c' \<and> reads c' w c''" by blast
next
  assume "\<exists>c'. reads c v c' \<and> reads c' w c''"
  then show "reads c (v @ w) c''"
    by (auto simp: reads_def advance_def)
qed

lemma reads_trans: "reads c v c' \<Longrightarrow> reads c' w c'' \<Longrightarrow> reads c (v @ w) c''"
  by (auto simp: reads_append)

lemma reads_det: "reads c v c' \<Longrightarrow> reads c v c'' \<Longrightarrow> c' = c''"
  by (simp add: reads_def)

lemma reads_done:
  assumes "reads c v c'" and "cur_pos c = length p" and "cur_bytes c = p @ b"
  shows "cursor_done c' \<longleftrightarrow> b = v"
proof -
  from assms have "b = v @ rest c'" by (simp add: reads_def rest_def)
  moreover have "cur_bytes c' = p @ b" "cur_pos c' = length p + length v"
    using assms by (simp_all add: reads_def advance_def)
  ultimately show ?thesis by (auto simp: cursor_done_def)
qed

lemma reads_whole:
  assumes "length (p @ b) < 2 ^ 64"
  shows "reads \<lparr>cur_bytes = p @ b, cur_pos = length p\<rparr> b
           \<lparr>cur_bytes = p @ b, cur_pos = length p + length b\<rparr>"
  using assms by (simp add: reads_def cur_ok_def advance_def rest_def)

section \<open>The contract of a field\<close>

locale field_codec =
  fixes enc :: "'a \<Rightarrow> byte list"
    and dec :: "cursor \<Rightarrow> 'e + ('a \<times> cursor)"
    and ok :: "'a \<Rightarrow> bool"
  assumes dec_enc: "reads c (enc x) c' \<Longrightarrow> ok x \<Longrightarrow> dec c = Inr (x, c')"
    and enc_dec: "cur_ok c \<Longrightarrow> dec c = Inr (x, c') \<Longrightarrow> ok x \<and> reads c (enc x) c'"

text \<open>\<open>for _ in 0..count { items.push(read()?) }\<close>\<close>

primrec read_many :: "(cursor \<Rightarrow> 'e + ('a \<times> cursor)) \<Rightarrow> nat \<Rightarrow> cursor \<Rightarrow> 'e + ('a list \<times> cursor)" where
  "read_many dec 0 c = Inr ([], c)"
| "read_many dec (Suc n) c =
    bindE (dec c) (\<lambda>(x, c'). bindE (read_many dec n c') (\<lambda>(xs, c''). Inr (x # xs, c'')))"

context field_codec
begin

lemma dec_eq_iff: "cur_ok c \<Longrightarrow> dec c = Inr (x, c') \<longleftrightarrow> ok x \<and> reads c (enc x) c'"
  using dec_enc enc_dec by blast

lemma read_many_enc:
  "(\<And>x. x \<in> set xs \<Longrightarrow> ok x) \<Longrightarrow> reads c (concat (map enc xs)) c' \<Longrightarrow>
   read_many dec (length xs) c = Inr (xs, c')"
proof (induction xs arbitrary: c)
  case Nil
  then show ?case by simp
next
  case (Cons x xs)
  then obtain c1 where c1: "reads c (enc x) c1" "reads c1 (concat (map enc xs)) c'"
    by (auto simp: reads_append)
  then have "dec c = Inr (x, c1)" using Cons.prems by (intro dec_enc) simp_all
  moreover have "read_many dec (length xs) c1 = Inr (xs, c')"
    using Cons c1 by simp
  ultimately show ?case by simp
qed

lemma read_many_dec:
  "cur_ok c \<Longrightarrow> read_many dec n c = Inr (xs, c') \<Longrightarrow>
   length xs = n \<and> (\<forall>x \<in> set xs. ok x) \<and> reads c (concat (map enc xs)) c'"
proof (induction n arbitrary: c xs)
  case 0
  then show ?case by simp
next
  case (Suc n)
  from Suc.prems(2) obtain x c1 ys where s: "dec c = Inr (x, c1)" "xs = x # ys"
      "read_many dec n c1 = Inr (ys, c')"
    by (auto simp: bindE_eq_Inr)
  have x: "ok x" "reads c (enc x) c1" using enc_dec Suc.prems(1) s(1) by simp_all
  have "cur_ok c1" using x(2) by (rule reads_cur_ok)
  with Suc.IH [OF _ s(3)] have "length ys = n" "\<forall>y \<in> set ys. ok y"
      "reads c1 (concat (map enc ys)) c'"
    by simp_all
  with x s(2) show ?case by (auto intro: reads_trans)
qed

lemma read_many_iff:
  "cur_ok c \<Longrightarrow> read_many dec n c = Inr (xs, c') \<longleftrightarrow>
     length xs = n \<and> (\<forall>x \<in> set xs. ok x) \<and> reads c (concat (map enc xs)) c'"
  using read_many_enc [of xs c c'] read_many_dec [of c n xs c'] by blast

lemma bind_dec_iff:
  "cur_ok c \<Longrightarrow> bindE (dec c) f = Inr y \<longleftrightarrow> (\<exists>x c'. ok x \<and> reads c (enc x) c' \<and> f (x, c') = Inr y)"
  by (auto simp: bindE_eq_Inr dec_eq_iff)

end

end
