(* ===== verification/Rust_Text.thy ===== *)
theory Rust_Text
  imports Prelude
begin

text \<open>
  Rust's \<open>str\<close>: a sequence of UTF-8 bytes. A string is a HOL \<open>string\<close> whose characters are the
  bytes, so \<open>length\<close> is Rust's \<open>len()\<close> and the lexicographic order is Rust's byte-wise order.
  The values of the type are the strings for which \<open>is_str\<close> holds. The decoder follows the
  table of well-formed byte sequences that \<open>core::str::from_utf8\<close> implements.
\<close>

section \<open>Bytes and characters\<close>

definition byte_of_char :: "char \<Rightarrow> byte" where
  "byte_of_char c = of_nat (of_char c)"

definition char_of_byte :: "byte \<Rightarrow> char" where
  "char_of_byte b = char_of (unat b)"

definition as_bytes :: "string \<Rightarrow> byte list" where
  "as_bytes s = map byte_of_char s"

lemma unat_byte_of_char: "unat (byte_of_char c) = of_char c"
  by (simp add: byte_of_char_def unat_of_nat_byte)

lemma char_of_byte_of_char [simp]: "char_of_byte (byte_of_char c) = c"
  by (simp add: char_of_byte_def unat_byte_of_char)

lemma byte_of_char_of_byte [simp]: "byte_of_char (char_of_byte b) = b"
  using unat_byte_less [of b] by (simp add: char_of_byte_def byte_of_char_def)

lemma length_as_bytes [simp, codec_simps]: "length (as_bytes s) = length s"
  by (simp add: as_bytes_def)

lemma as_bytes_inj [simp]: "as_bytes s = as_bytes t \<longleftrightarrow> s = t"
  by (metis (no_types, lifting) as_bytes_def char_of_byte_of_char list.inj_map_strong)

lemma as_bytes_map_char [simp]: "as_bytes (map char_of_byte bs) = bs"
  by (simp add: as_bytes_def comp_def)

lemma map_char_as_bytes [simp]: "map char_of_byte (as_bytes s) = s"
  by (simp add: as_bytes_def comp_def)

section \<open>UTF-8\<close>

definition utf8_cont :: "byte \<Rightarrow> bool" where
  "utf8_cont b \<longleftrightarrow> 128 \<le> unat b \<and> unat b < 192"

fun decode_utf8 :: "byte list \<Rightarrow> nat list option" where
  "decode_utf8 [] = Some []"
| "decode_utf8 (a # bs) =
    (let x = unat a in
     if x < 128 then map_option ((#) x) (decode_utf8 bs)
     else if 194 \<le> x \<and> x \<le> 223 then
       (case bs of
          b # cs \<Rightarrow>
            if utf8_cont b
            then map_option ((#) ((x - 192) * 64 + (unat b - 128))) (decode_utf8 cs)
            else None
        | _ \<Rightarrow> None)
     else if 224 \<le> x \<and> x \<le> 239 then
       (case bs of
          b # c # ds \<Rightarrow>
            if utf8_cont b \<and> utf8_cont c \<and> (x = 224 \<longrightarrow> 160 \<le> unat b) \<and> (x = 237 \<longrightarrow> unat b < 160)
            then map_option ((#) ((x - 224) * 4096 + (unat b - 128) * 64 + (unat c - 128)))
                   (decode_utf8 ds)
            else None
        | _ \<Rightarrow> None)
     else if 240 \<le> x \<and> x \<le> 244 then
       (case bs of
          b # c # d # es \<Rightarrow>
            if utf8_cont b \<and> utf8_cont c \<and> utf8_cont d
              \<and> (x = 240 \<longrightarrow> 144 \<le> unat b) \<and> (x = 244 \<longrightarrow> unat b < 144)
            then map_option ((#) ((x - 240) * 262144 + (unat b - 128) * 4096
                                   + (unat c - 128) * 64 + (unat d - 128)))
                   (decode_utf8 es)
            else None
        | _ \<Rightarrow> None)
     else None)"

definition is_str :: "string \<Rightarrow> bool" where
  "is_str s \<longleftrightarrow> decode_utf8 (as_bytes s) \<noteq> None"

definition from_utf8 :: "byte list \<Rightarrow> string option" where
  "from_utf8 bs = (if decode_utf8 bs \<noteq> None then Some (map char_of_byte bs) else None)"

definition chars :: "string \<Rightarrow> nat list" where
  "chars s = (case decode_utf8 (as_bytes s) of None \<Rightarrow> [] | Some cs \<Rightarrow> cs)"

lemma from_utf8_as_bytes [simp]: "is_str s \<Longrightarrow> from_utf8 (as_bytes s) = Some s"
  by (simp add: from_utf8_def is_str_def)

lemma from_utf8_Some: "from_utf8 bs = Some s \<longleftrightarrow> is_str s \<and> as_bytes s = bs"
  by (auto simp: from_utf8_def is_str_def split: if_splits)

text \<open>ASCII strings are strings, so the literals of the program are.\<close>

lemma decode_utf8_ascii: "(\<And>b. b \<in> set bs \<Longrightarrow> unat b < 128) \<Longrightarrow> decode_utf8 bs = Some (map unat bs)"
  by (induction bs) auto

lemma is_str_ascii: "list_all (\<lambda>c. of_char c < (128 :: nat)) s \<Longrightarrow> is_str s"
  unfolding is_str_def
  by (subst decode_utf8_ascii) (auto simp: as_bytes_def unat_byte_of_char list_all_iff)

lemma is_str_Nil [simp]: "is_str []"
  by (simp add: is_str_def as_bytes_def)

text \<open>Collecting characters into a \<open>String\<close>.\<close>

definition encode_utf8_char :: "nat \<Rightarrow> byte list" where
  "encode_utf8_char c =
    (if c < 128 then [of_nat c]
     else if c < 2048 then [of_nat (192 + c div 64), of_nat (128 + c mod 64)]
     else if c < 65536 then
       [of_nat (224 + c div 4096), of_nat (128 + c div 64 mod 64), of_nat (128 + c mod 64)]
     else [of_nat (240 + c div 262144), of_nat (128 + c div 4096 mod 64),
           of_nat (128 + c div 64 mod 64), of_nat (128 + c mod 64)])"

definition collect_chars :: "nat list \<Rightarrow> string" where
  "collect_chars cs = map char_of_byte (concat (map encode_utf8_char cs))"

section \<open>White space and trimming\<close>

text \<open>\<open>char::is_whitespace\<close>: the code points of the Unicode property \<open>White_Space\<close>.\<close>

definition is_whitespace :: "nat \<Rightarrow> bool" where
  "is_whitespace c \<longleftrightarrow> (9 \<le> c \<and> c \<le> 13) \<or> c = 32 \<or> c = 133 \<or> c = 160 \<or> c = 5760
     \<or> (8192 \<le> c \<and> c \<le> 8202) \<or> c = 8232 \<or> c = 8233 \<or> c = 8239 \<or> c = 8287 \<or> c = 12288"

text \<open>\<open>value.trim().is_empty()\<close>: trimming leaves nothing exactly when every character is white space.\<close>

definition trim_is_empty :: "string \<Rightarrow> bool" where
  "trim_is_empty s = list_all is_whitespace (chars s)"

section \<open>Splitting\<close>

fun split_on :: "char \<Rightarrow> string \<Rightarrow> string list" where
  "split_on c [] = [[]]"
| "split_on c (x # xs) =
    (if x = c then [] # split_on c xs
     else (case split_on c xs of [] \<Rightarrow> [[x]] | y # ys \<Rightarrow> (x # y) # ys))"

fun join_with :: "char \<Rightarrow> string list \<Rightarrow> string" where
  "join_with c [] = []"
| "join_with c [s] = s"
| "join_with c (s # t # ss) = s @ c # join_with c (t # ss)"

lemma split_on_ne [simp]: "split_on c s \<noteq> []"
  by (induction s) (auto split: list.splits)

lemma join_with_Cons_char: "join_with c ((x # y) # ys) = x # join_with c (y # ys)"
  by (cases ys) auto

lemma join_split [simp]: "join_with c (split_on c s) = s"
proof (induction s)
  case Nil
  then show ?case by simp
next
  case (Cons x xs)
  obtain y ys where "split_on c xs = y # ys" by (cases "split_on c xs") auto
  with Cons show ?case by (auto simp: join_with_Cons_char)
qed

lemma split_on_no_sep: "part \<in> set (split_on c s) \<Longrightarrow> c \<notin> set part"
proof (induction s arbitrary: part)
  case Nil
  then show ?case by simp
next
  case (Cons x xs)
  obtain y ys where "split_on c xs = y # ys" by (cases "split_on c xs") auto
  with Cons show ?case by (auto split: if_splits)
qed

lemma split_on_no_occ: "c \<notin> set s \<Longrightarrow> split_on c s = [s]"
  by (induction s) auto

lemma set_split_on: "part \<in> set (split_on c s) \<Longrightarrow> set part \<subseteq> set s"
proof (induction s arbitrary: part)
  case Nil
  then show ?case by simp
next
  case (Cons x xs)
  obtain y ys where "split_on c xs = y # ys" by (cases "split_on c xs") auto
  with Cons show ?case by (auto split: if_splits) blast+
qed

lemma split_join:
  "ss \<noteq> [] \<Longrightarrow> (\<And>s. s \<in> set ss \<Longrightarrow> c \<notin> set s) \<Longrightarrow> split_on c (join_with c ss) = ss"
proof (induction c ss rule: join_with.induct)
  case (1 c)
  then show ?case by simp
next
  case (2 c s)
  then show ?case by (simp add: split_on_no_occ)
next
  case (3 c s t ss)
  have rest: "split_on c (join_with c (t # ss)) = t # ss" using 3 by simp
  have "c \<notin> set s \<Longrightarrow> split_on c (s @ c # r) = s # split_on c r" for r
    by (induction s) auto
  with 3 rest show ?case by simp
qed

text \<open>\<open>str::starts_with\<close> and \<open>str::strip_prefix\<close>.\<close>

fun strip_prefix :: "'a list \<Rightarrow> 'a list \<Rightarrow> 'a list option" where
  "strip_prefix [] s = Some s"
| "strip_prefix (p # ps) [] = None"
| "strip_prefix (p # ps) (x # xs) = (if p = x then strip_prefix ps xs else None)"

definition starts_with :: "'a list \<Rightarrow> 'a list \<Rightarrow> bool" where
  "starts_with s p \<longleftrightarrow> take (length p) s = p"

lemma strip_prefix_Some: "strip_prefix p s = Some r \<longleftrightarrow> s = p @ r"
  by (induction p s rule: strip_prefix.induct) auto

lemma starts_with_append [simp]: "starts_with (p @ s) p"
  by (simp add: starts_with_def)

lemma starts_with_iff: "starts_with s p \<longleftrightarrow> (\<exists>r. s = p @ r)"
  by (metis append_eq_conv_conj append_take_drop_id starts_with_def)

end
