(* ===== verification/Canonical.thy ===== *)
theory Canonical
  imports Byte_Cursor Rust_Text
begin

text \<open>
  \<open>canonical.rs\<close>: the deterministic encoder and decoder behind every signed or hashed value. The
  encoder is the byte vector it has written so far; the decoder is a cursor. Each field of the
  format is an instance of \<open>field_codec\<close>.
\<close>

datatype CanonicalError =
    Truncated
  | TrailingBytes
  | InvalidUtf8
  | LengthOverflow
  | UnknownTag
  | UnorderedKeys
  | Invalid string

section \<open>Encoder\<close>

type_synonym encoder = "byte list"

definition encoder_new :: "byte list \<Rightarrow> encoder" where
  "encoder_new domain = domain"

definition enc_u8 :: "byte \<Rightarrow> encoder \<Rightarrow> encoder" where
  "enc_u8 v e = e @ [v]"

definition enc_u32 :: "u32 \<Rightarrow> encoder \<Rightarrow> encoder" where
  "enc_u32 v e = e @ to_be_bytes v"

definition enc_u64 :: "u64 \<Rightarrow> encoder \<Rightarrow> encoder" where
  "enc_u64 v e = e @ to_be_bytes v"

definition enc_i64 :: "i64 \<Rightarrow> encoder \<Rightarrow> encoder" where
  "enc_i64 v e = e @ to_be_bytes v"

definition enc_fixed :: "byte list \<Rightarrow> encoder \<Rightarrow> encoder" where
  "enc_fixed v e = e @ v"

definition enc_string :: "string \<Rightarrow> encoder \<Rightarrow> CanonicalError + encoder" where
  "enc_string v e = bindE (ok_or LengthOverflow (u32_try_from (length v)))
     (\<lambda>len. Inr (enc_fixed (as_bytes v) (enc_u32 len e)))"

definition enc_sized_bytes :: "byte list \<Rightarrow> encoder \<Rightarrow> CanonicalError + encoder" where
  "enc_sized_bytes v e = bindE (ok_or LengthOverflow (u32_try_from (length v)))
     (\<lambda>len. Inr (enc_fixed v (enc_u32 len e)))"

section \<open>Decoder\<close>

definition decoder_new :: "byte list \<Rightarrow> byte list \<Rightarrow> CanonicalError + cursor" where
  "decoder_new bs domain =
    (if \<not> starts_with bs domain then Inl (Invalid ''wrong domain or version'')
     else Inr \<lparr>cur_bytes = bs, cur_pos = length domain\<rparr>)"

definition dec_take :: "nat \<Rightarrow> cursor \<Rightarrow> CanonicalError + (byte list \<times> cursor)" where
  "dec_take n d =
    bindE (ok_or Truncated (usize_checked_add (cur_pos d) n)) (\<lambda>end_pos.
    bindE (ok_or Truncated (slice_get (cur_bytes d) (cur_pos d) end_pos)) (\<lambda>v.
    Inr (v, d\<lparr>cur_pos := end_pos\<rparr>)))"

definition dec_array :: "cursor \<Rightarrow> CanonicalError + ('a::len word \<times> cursor)" where
  "dec_array d = bindE (dec_take (LENGTH('a) div 8) d) (\<lambda>(v, d').
     if length v = LENGTH('a) div 8 then Inr (from_be_bytes v, d') else Inl Truncated)"

definition dec_u8 :: "cursor \<Rightarrow> CanonicalError + (byte \<times> cursor)" where
  "dec_u8 d = bindE (dec_take 1 d) (\<lambda>(v, d'). Inr (v ! 0, d'))"

definition dec_u32 :: "cursor \<Rightarrow> CanonicalError + (u32 \<times> cursor)" where
  "dec_u32 d = dec_array d"

definition dec_u64 :: "cursor \<Rightarrow> CanonicalError + (u64 \<times> cursor)" where
  "dec_u64 d = dec_array d"

definition dec_i64 :: "cursor \<Rightarrow> CanonicalError + (i64 \<times> cursor)" where
  "dec_i64 d = dec_array d"

definition dec_fixed :: "cursor \<Rightarrow> CanonicalError + ('a::len word \<times> cursor)" where
  "dec_fixed d = dec_array d"

text \<open>On a 64-bit target the conversion of the 32-bit length to \<open>usize\<close> cannot fail.\<close>

definition dec_sized_bytes :: "cursor \<Rightarrow> CanonicalError + (byte list \<times> cursor)" where
  "dec_sized_bytes d = bindE (dec_u32 d) (\<lambda>(len, d'). dec_take (unat len) d')"

definition dec_string :: "cursor \<Rightarrow> CanonicalError + (string \<times> cursor)" where
  "dec_string d = bindE (dec_sized_bytes d) (\<lambda>(v, d').
     bindE (ok_or InvalidUtf8 (from_utf8 v)) (\<lambda>s. Inr (s, d')))"

definition dec_finish :: "cursor \<Rightarrow> CanonicalError + unit" where
  "dec_finish d = (if cur_pos d = length (cur_bytes d) then Inr () else Inl TrailingBytes)"

section \<open>Fields\<close>

text \<open>The bytes of a length-prefixed field.\<close>

definition sized :: "byte list \<Rightarrow> byte list" where
  "sized v = to_be_bytes (of_nat (length v) :: u32) @ v"

lemma length_sized [simp, codec_simps]: "length (sized v) = 4 + length v"
  by (simp add: sized_def)

lemma enc_string_ok [simp]:
  "length s < 2 ^ 32 \<Longrightarrow> enc_string s e = Inr (e @ sized (as_bytes s))"
  by (simp add: enc_string_def u32_try_from_def enc_fixed_def enc_u32_def sized_def)

lemma enc_sized_bytes_ok [simp]:
  "length v < 2 ^ 32 \<Longrightarrow> enc_sized_bytes v e = Inr (e @ sized v)"
  by (simp add: enc_sized_bytes_def u32_try_from_def enc_fixed_def enc_u32_def sized_def)

lemma enc_string_overflow: "2 ^ 32 \<le> length s \<Longrightarrow> enc_string s e = Inl LengthOverflow"
  by (simp add: enc_string_def u32_try_from_def)

lemma dec_take_reads: "reads d v d' \<Longrightarrow> dec_take (length v) d = Inr (v, d')"
proof -
  assume r: "reads d v d'"
  then have "cur_pos d + length v \<le> length (cur_bytes d)" "length (cur_bytes d) < 2 ^ 64"
    by (auto simp: reads_def cur_ok_def advance_def)
  moreover from r have "take (length v) (drop (cur_pos d) (cur_bytes d)) = v"
    by (simp add: reads_def rest_def)
  moreover from r have "d' = d\<lparr>cur_pos := cur_pos d + length v\<rparr>"
    by (simp add: reads_def advance_def)
  ultimately show ?thesis
    by (simp add: dec_take_def usize_checked_add_def slice_get_def)
qed

lemma dec_take_inv:
  assumes "cur_ok d" and "dec_take n d = Inr (v, d')"
  shows "length v = n \<and> reads d v d'"
proof -
  from assms(2) have d': "d' = d\<lparr>cur_pos := cur_pos d + n\<rparr>"
      and v: "v = take n (drop (cur_pos d) (cur_bytes d))"
      and le: "cur_pos d + n \<le> length (cur_bytes d)"
    by (auto simp: dec_take_def usize_checked_add_def slice_get_def bindE_eq_Inr split: if_splits)
  then have len: "length v = n" by simp
  have "rest d = v @ drop n (rest d)"
    unfolding v rest_def by (simp only: append_take_drop_id)
  then have "reads d v (advance (length v) d)"
    by (rule readsI [OF assms(1)])
  with len d' show ?thesis by (simp add: advance_def)
qed

lemma dec_array_codec:
  assumes "8 dvd LENGTH('a)"
  shows "field_codec (to_be_bytes :: 'a::len word \<Rightarrow> byte list) dec_array (\<lambda>_. True)"
proof
  fix x :: "'a word" and c c'
  assume "reads c (to_be_bytes x) c'"
  then show "dec_array c = Inr (x, c')"
    using dec_take_reads [of c "to_be_bytes x" c'] assms
    by (simp add: dec_array_def from_to_be_bytes)
next
  fix c c' and x :: "'a word"
  assume ok: "cur_ok c" and "dec_array c = Inr (x, c')"
  then obtain v where v: "dec_take (LENGTH('a) div 8) c = Inr (v, c')"
      "length v = LENGTH('a) div 8" "x = from_be_bytes v"
    by (auto simp: dec_array_def bindE_eq_Inr split: if_splits)
  then show "True \<and> reads c (to_be_bytes x) c'"
    using dec_take_inv [OF ok v(1)] assms by (simp add: to_from_be_bytes)
qed

interpretation u32_field: field_codec to_be_bytes dec_u32 "\<lambda>_. True"
  using dec_array_codec [where ?'a = 32] by (simp add: dec_u32_def [abs_def])

interpretation u64_field: field_codec to_be_bytes dec_u64 "\<lambda>_. True"
  using dec_array_codec [where ?'a = 64] by (simp add: dec_u64_def [abs_def])

interpretation i64_field: field_codec to_be_bytes dec_i64 "\<lambda>_. True"
  using dec_array_codec [where ?'a = 64] by (simp add: dec_i64_def [abs_def])

interpretation fixed32_field: field_codec "to_be_bytes :: bytes32 \<Rightarrow> byte list" dec_fixed "\<lambda>_. True"
  using dec_array_codec [where ?'a = 256] by (simp add: dec_fixed_def [abs_def])

interpretation fixed64_field: field_codec "to_be_bytes :: bytes64 \<Rightarrow> byte list" dec_fixed "\<lambda>_. True"
  using dec_array_codec [where ?'a = 512] by (simp add: dec_fixed_def [abs_def])

interpretation u8_field: field_codec "\<lambda>v. [v]" dec_u8 "\<lambda>_. True"
proof
  fix x c c' assume "reads c [x] c'"
  then show "dec_u8 c = Inr (x, c')"
    using dec_take_reads [of c "[x]" c'] by (simp add: dec_u8_def)
next
  fix c x c' assume ok: "cur_ok c" and "dec_u8 c = Inr (x, c')"
  then obtain v where v: "dec_take 1 c = Inr (v, c')" "x = v ! 0"
    by (auto simp: dec_u8_def bindE_eq_Inr)
  then show "True \<and> reads c [x] c'"
    using dec_take_inv [OF ok v(1)] by (cases v) auto
qed

interpretation sized_field: field_codec sized dec_sized_bytes "\<lambda>v. length v < 2 ^ 32"
proof
  fix c v c' assume "reads c (sized v) c'" and len: "length v < 2 ^ 32"
  then obtain c1 where c1: "reads c (to_be_bytes (of_nat (length v) :: u32)) c1" "reads c1 v c'"
    by (auto simp: sized_def reads_append)
  with len show "dec_sized_bytes c = Inr (v, c')"
    by (simp add: dec_sized_bytes_def u32_field.dec_enc dec_take_reads unat_of_nat_u32)
next
  fix c v c' assume ok: "cur_ok c" and "dec_sized_bytes c = Inr (v, c')"
  then obtain len c1 where s: "dec_u32 c = Inr (len, c1)" "dec_take (unat len) c1 = Inr (v, c')"
    by (auto simp: dec_sized_bytes_def bindE_eq_Inr)
  have r1: "reads c (to_be_bytes len) c1" using u32_field.enc_dec ok s(1) by simp
  then have "length v = unat len" "reads c1 v c'"
    using dec_take_inv [OF _ s(2)] by (simp_all add: reads_cur_ok)
  with r1 show "length v < 2 ^ 32 \<and> reads c (sized v) c'"
    using unsigned_less [of len, where ?'a = nat] by (auto simp: sized_def intro: reads_trans)
qed

abbreviation string_ok :: "string \<Rightarrow> bool" where
  "string_ok s \<equiv> is_str s \<and> length s < 2 ^ 32"

interpretation string_field: field_codec "\<lambda>s. sized (as_bytes s)" dec_string string_ok
proof
  fix c s c' assume "reads c (sized (as_bytes s)) c'" "string_ok s"
  then show "dec_string c = Inr (s, c')"
    using sized_field.dec_enc [of c "as_bytes s" c'] by (simp add: dec_string_def)
next
  fix c s c' assume ok: "cur_ok c" and "dec_string c = Inr (s, c')"
  then obtain v where v: "dec_sized_bytes c = Inr (v, c')" "from_utf8 v = Some s"
    by (auto simp: dec_string_def bindE_eq_Inr)
  then have "is_str s" "as_bytes s = v" by (simp_all add: from_utf8_Some)
  moreover have "length v < 2 ^ 32" "reads c (sized v) c'"
    using sized_field.enc_dec [OF ok v(1)] by simp_all
  ultimately show "string_ok s \<and> reads c (sized (as_bytes s)) c'" by auto
qed

lemmas field_enc = u8_field.dec_enc u32_field.dec_enc u64_field.dec_enc i64_field.dec_enc
  fixed32_field.dec_enc fixed64_field.dec_enc string_field.dec_enc sized_field.dec_enc

lemmas encoder_defs = encoder_new_def enc_u8_def enc_u32_def enc_u64_def enc_i64_def enc_fixed_def

lemma decoder_new_Inr:
  "decoder_new bs domain = Inr d \<longleftrightarrow>
    (\<exists>b. bs = domain @ b \<and> d = \<lparr>cur_bytes = bs, cur_pos = length domain\<rparr>)"
  by (auto simp: decoder_new_def starts_with_iff)

lemma decoder_new_ok: "decoder_new bs domain = Inr d \<Longrightarrow> length bs < 2 ^ 64 \<Longrightarrow> cur_ok d"
  by (auto simp: decoder_new_Inr cur_ok_def)

lemma dec_finish_Inr: "dec_finish d = Inr u \<longleftrightarrow> cursor_done d"
  by (simp add: dec_finish_def cursor_done_def)

text \<open>A whole value: a domain, a body and nothing after it.\<close>

lemma decode_whole:
  assumes "length (domain @ body) < 2 ^ 64"
  obtains d d' where "decoder_new (domain @ body) domain = Inr d" "reads d body d'"
    "dec_finish d' = Inr ()"
  using reads_whole [OF assms]
  by (auto simp: decoder_new_def dec_finish_def)

lemma decoded_whole:
  assumes "decoder_new bs domain = Inr d" and "reads d body d'" and "dec_finish d' = Inr ()"
  shows "bs = domain @ body"
proof -
  from assms(1) obtain b where b: "bs = domain @ b" "d = \<lparr>cur_bytes = bs, cur_pos = length domain\<rparr>"
    by (auto simp: decoder_new_Inr)
  then have "b = body"
    using reads_done [OF assms(2), of domain b] assms(3) by (simp add: dec_finish_Inr)
  with b show ?thesis by simp
qed

end
