(* ===== verification/Ordered_Map.thy ===== *)
theory Ordered_Map
  imports Prelude
begin

text \<open>
  \<open>std::collections::BTreeMap\<close>, and the SQL tables with a primary key: an association list kept in
  strictly increasing order of its keys. Iteration is in key order, which the encoders and the
  \<open>ORDER BY\<close> clauses rely on. The interface its clients use is the locale \<open>keyed_table\<close>.
\<close>

type_synonym ('k, 'v) omap = "('k \<times> 'v) list"

definition om_wf :: "('k::linorder, 'v) omap \<Rightarrow> bool" where
  "om_wf m \<longleftrightarrow> sorted_wrt (<) (map fst m)"

definition om_get :: "('k, 'v) omap \<Rightarrow> 'k \<Rightarrow> 'v option" where
  "om_get m k = map_of m k"

definition om_contains :: "('k, 'v) omap \<Rightarrow> 'k \<Rightarrow> bool" where
  "om_contains m k \<longleftrightarrow> om_get m k \<noteq> None"

fun om_insert :: "'k::linorder \<Rightarrow> 'v \<Rightarrow> ('k, 'v) omap \<Rightarrow> ('k, 'v) omap" where
  "om_insert k v [] = [(k, v)]"
| "om_insert k v ((k', v') # m) =
    (if k < k' then (k, v) # (k', v') # m
     else if k = k' then (k, v) # m
     else (k', v') # om_insert k v m)"

definition om_remove :: "'k \<Rightarrow> ('k, 'v) omap \<Rightarrow> ('k, 'v) omap" where
  "om_remove k m = filter (\<lambda>(k', v). k' \<noteq> k) m"

text \<open>\<open>UPDATE ... SET ... WHERE\<close>: rewrite the rows that match, leave the others.\<close>

definition om_update_where :: "('k \<Rightarrow> 'v \<Rightarrow> bool) \<Rightarrow> ('v \<Rightarrow> 'v) \<Rightarrow> ('k, 'v) omap \<Rightarrow> ('k, 'v) omap" where
  "om_update_where P f m = map (\<lambda>(k, v). (k, if P k v then f v else v)) m"

section \<open>The interface\<close>

locale keyed_table =
  fixes empty :: "'m"
    and get :: "'m \<Rightarrow> 'k \<Rightarrow> 'v option"
    and insert :: "'k \<Rightarrow> 'v \<Rightarrow> 'm \<Rightarrow> 'm"
    and remove :: "'k \<Rightarrow> 'm \<Rightarrow> 'm"
    and wf :: "'m \<Rightarrow> bool"
  assumes wf_empty: "wf empty"
    and wf_insert: "wf m \<Longrightarrow> wf (insert k v m)"
    and wf_remove: "wf m \<Longrightarrow> wf (remove k m)"
    and get_empty: "get empty k = None"
    and get_insert: "wf m \<Longrightarrow> get (insert k v m) k' = (if k' = k then Some v else get m k')"
    and get_remove: "wf m \<Longrightarrow> get (remove k m) k' = (if k' = k then None else get m k')"
    and ext: "wf m \<Longrightarrow> wf n \<Longrightarrow> (\<And>k. get m k = get n k) \<Longrightarrow> m = n"
begin

lemma insert_twice: "wf m \<Longrightarrow> insert k v (insert k w m) = insert k v m"
  by (rule ext) (simp_all add: wf_insert get_insert)

lemma insert_commute:
  assumes "wf m" and "k \<noteq> l"
  shows "insert k v (insert l w m) = insert l w (insert k v m)"
  using assms by (intro ext) (simp_all add: wf_insert get_insert)

lemma insert_same: "wf m \<Longrightarrow> get m k = Some v \<Longrightarrow> insert k v m = m"
  by (rule ext) (simp_all add: wf_insert get_insert)

lemma remove_absent: "wf m \<Longrightarrow> get m k = None \<Longrightarrow> remove k m = m"
  by (rule ext) (simp_all add: wf_remove get_remove)

lemma remove_insert: "wf m \<Longrightarrow> get m k = None \<Longrightarrow> remove k (insert k v m) = m"
  by (rule ext) (simp_all add: wf_remove wf_insert get_remove get_insert)

lemma wf_fold_insert: "wf m \<Longrightarrow> wf (fold (\<lambda>(k, v). insert k v) kvs m)"
  by (induction kvs arbitrary: m) (auto simp: wf_insert)

lemma get_fold_insert:
  "wf m \<Longrightarrow> distinct (map fst kvs) \<Longrightarrow>
   get (fold (\<lambda>(k, v). insert k v) kvs m) k
     = (case map_of kvs k of Some v \<Rightarrow> Some v | None \<Rightarrow> get m k)"
proof (induction kvs arbitrary: m)
  case Nil
  then show ?case by simp
next
  case (Cons kv kvs)
  then have "fst kv \<notin> set (map fst kvs)" by simp
  then have "map_of kvs (fst kv) = None" by (simp add: map_of_eq_None_iff)
  with Cons show ?case by (cases kv) (auto simp: wf_insert get_insert split: option.splits)
qed

lemma fold_insert_permutation:
  assumes "wf m" and "distinct (map fst kvs)" and "mset kvs = mset kvs'"
  shows "fold (\<lambda>(k, v). insert k v) kvs m = fold (\<lambda>(k, v). insert k v) kvs' m"
proof (rule ext)
  have d': "distinct (map fst kvs')"
    using assms(2,3) by (metis distinct_map mset_eq_imp_distinct_iff mset_map)
  have "map_of kvs k = map_of kvs' k" for k
    using assms(2,3) d' by (metis map_of_inject_set set_mset_mset)
  then show "get (fold (\<lambda>(k, v). insert k v) kvs m) k
      = get (fold (\<lambda>(k, v). insert k v) kvs' m) k" for k
    using assms d' by (simp add: get_fold_insert)
qed (use assms in \<open>simp_all add: wf_fold_insert\<close>)

end

section \<open>The sorted association list provides it\<close>

lemma om_get_simps [simp]: "om_get [] k = None"
  "om_get ((k', v) # m) k = (if k = k' then Some v else om_get m k)"
  by (simp_all add: om_get_def)

lemma om_wf_Nil [simp]: "om_wf []"
  by (simp add: om_wf_def)

lemma om_wf_Cons [simp]:
  "om_wf ((k, v) # m) \<longleftrightarrow> (\<forall>k' \<in> fst ` set m. k < k') \<and> om_wf m"
  by (auto simp: om_wf_def)

lemma om_get_in_set: "om_get m k = Some v \<Longrightarrow> (k, v) \<in> set m"
  by (simp add: om_get_def map_of_SomeD)

lemma om_wf_distinct: "om_wf m \<Longrightarrow> distinct (map fst m)"
  by (simp add: om_wf_def strict_sorted_iff)

lemma om_get_Some_iff: "om_wf m \<Longrightarrow> om_get m k = Some v \<longleftrightarrow> (k, v) \<in> set m"
  by (simp add: om_get_def om_wf_distinct map_of_eq_Some_iff)

lemma om_get_None_iff: "om_get m k = None \<longleftrightarrow> k \<notin> fst ` set m"
  by (simp add: om_get_def map_of_eq_None_iff)

lemma om_contains_iff: "om_contains m k \<longleftrightarrow> k \<in> fst ` set m"
  by (simp add: om_contains_def om_get_None_iff)

lemma fst_set_om_insert: "fst ` set (om_insert k v m) = insert k (fst ` set m)"
  by (induction k v m rule: om_insert.induct) auto

lemma om_wf_insert: "om_wf m \<Longrightarrow> om_wf (om_insert k v m)"
  by (induction k v m rule: om_insert.induct) (auto simp: fst_set_om_insert)

lemma om_wf_remove: "om_wf m \<Longrightarrow> om_wf (om_remove k m)"
  by (induction m) (auto simp: om_remove_def)

lemma om_get_insert: "om_wf m \<Longrightarrow> om_get (om_insert k v m) k' = (if k' = k then Some v else om_get m k')"
  by (induction k v m rule: om_insert.induct) auto

lemma om_get_remove: "om_wf m \<Longrightarrow> om_get (om_remove k m) k' = (if k' = k then None else om_get m k')"
  by (induction m) (auto simp: om_remove_def)

lemma om_ext:
  assumes "om_wf m" and "om_wf n" and "\<And>k. om_get m k = om_get n k"
  shows "m = n"
proof -
  have "set m = set n"
    using assms by (metis (no_types, opaque_lifting) om_get_Some_iff subsetI subset_antisym surj_pair)
  moreover have "map fst m = map fst n"
    using assms(1,2) calculation unfolding om_wf_def
    by (intro strict_sorted_equal) simp_all
  moreover have "inj_on fst (set m \<union> set n)"
    using assms(1) calculation(1) om_wf_distinct [of m] by (simp add: distinct_map)
  ultimately show ?thesis by (metis map_inj_on)
qed

interpretation om: keyed_table "[]" om_get om_insert om_remove om_wf
proof unfold_locales
  show "om_wf m \<Longrightarrow> om_wf n \<Longrightarrow> (\<And>k. om_get m k = om_get n k) \<Longrightarrow> m = n" for m n :: "('k::linorder, 'v) omap"
    by (rule om_ext)
qed (simp_all add: om_wf_insert om_wf_remove om_get_insert om_get_remove)

lemma fst_om_update_where: "map fst (om_update_where P f m) = map fst m"
  by (induction m) (auto simp: om_update_where_def)

lemma om_wf_update_where [simp]: "om_wf (om_update_where P f m) = om_wf m"
  by (simp add: om_wf_def fst_om_update_where)

lemma om_get_update_where [simp]:
  "om_get (om_update_where P f m) k = map_option (\<lambda>v. if P k v then f v else v) (om_get m k)"
  by (induction m) (auto simp: om_update_where_def)

lemma length_om_insert: "om_get m k = None \<Longrightarrow> length (om_insert k v m) = Suc (length m)"
  by (induction k v m rule: om_insert.induct) (auto split: if_splits)

lemma set_om_insert:
  "om_wf m \<Longrightarrow> set (om_insert k v m) = insert (k, v) {kv \<in> set m. fst kv \<noteq> k}"
  by (induction k v m rule: om_insert.induct) force+

text \<open>Building a map from rows in any order: a later row with the same key replaces the earlier.\<close>

definition om_of_list :: "('k::linorder \<times> 'v) list \<Rightarrow> ('k, 'v) omap" where
  "om_of_list kvs = fold (\<lambda>(k, v). om_insert k v) kvs []"

lemma om_of_list_wf [simp]: "om_wf (om_of_list kvs)"
  by (simp add: om_of_list_def om.wf_fold_insert)

lemma om_of_list_permutation:
  "distinct (map fst kvs) \<Longrightarrow> mset kvs = mset kvs' \<Longrightarrow> om_of_list kvs = om_of_list kvs'"
  unfolding om_of_list_def by (rule om.fold_insert_permutation) simp_all

lemma om_of_list_get:
  "distinct (map fst kvs) \<Longrightarrow> om_get (om_of_list kvs) k = map_of kvs k"
  by (simp add: om_of_list_def om.get_fold_insert split: option.splits)

end
