(* ===== verification/Protocol_Path.thy ===== *)
theory Protocol_Path
  imports Rust_Text Ordered_Map
begin

text \<open>
  \<open>path.rs\<close>: validated relative paths, their placement under a collection root, and the index
  that detects two paths a case- or normalization-insensitive filesystem would confuse. The
  Unicode tables (\<open>str::to_lowercase\<close>, \<open>char::to_lowercase\<close> and the decomposition of the crate
  \<open>unicode_normalization\<close>) are the parameter \<open>unicode\<close>.
\<close>

datatype ProtocolPath = ProtocolPath (as_str: string)

instantiation ProtocolPath :: linorder
begin

definition less_eq_ProtocolPath :: "ProtocolPath \<Rightarrow> ProtocolPath \<Rightarrow> bool" where
  "less_eq_ProtocolPath p q \<longleftrightarrow> as_str p \<le> as_str q"

definition less_ProtocolPath :: "ProtocolPath \<Rightarrow> ProtocolPath \<Rightarrow> bool" where
  "less_ProtocolPath p q \<longleftrightarrow> as_str p < as_str q"

instance
  by standard (auto simp: less_eq_ProtocolPath_def less_ProtocolPath_def ProtocolPath.expand)

end

datatype PathError =
    InvalidUtf8
  | Empty
  | Absolute
  | Nul
  | EmptyComponent
  | DotComponent
  | DotDotComponent
  | Collision ProtocolPath ProtocolPath

definition validate_component :: "string \<Rightarrow> PathError + unit" where
  "validate_component c =
    (if c = '''' then Inl EmptyComponent
     else if c = ''.'' then Inl DotComponent
     else if c = ''..'' then Inl DotDotComponent
     else Inr ())"

definition validate :: "string \<Rightarrow> PathError + unit" where
  "validate v =
    (if v = [] then Inl Empty
     else if starts_with v ''/'' then Inl Absolute
     else if CHR 0x00 \<in> set v then Inl Nul
     else for_each validate_component (split_on (CHR ''/'') v))"

definition parse :: "string \<Rightarrow> PathError + ProtocolPath" where
  "parse v = bindE (validate v) (\<lambda>_. Inr (ProtocolPath v))"

definition path_from_utf8 :: "byte list \<Rightarrow> PathError + ProtocolPath" where
  "path_from_utf8 bs = bindE (ok_or InvalidUtf8 (from_utf8 bs)) parse"

text \<open>\<open>PathBuf::push\<close> on Unix: an absolute argument replaces the path.\<close>

definition path_push :: "string \<Rightarrow> string \<Rightarrow> string" where
  "path_push p c =
    (if starts_with c ''/'' then c
     else if p = [] \<or> last p = CHR ''/'' then p @ c
     else p @ ''/'' @ c)"

definition under :: "ProtocolPath \<Rightarrow> string \<Rightarrow> string" where
  "under p root = foldl path_push root (split_on (CHR ''/'') (as_str p))"

section \<open>Local collisions\<close>

datatype FilenameComparison =
    CaseSensitive
  | CaseInsensitive
  | NormalizationInsensitive
  | CaseAndNormalizationInsensitive

record unicode =
  str_lowercase :: "string \<Rightarrow> string"
  char_lowercase :: "nat \<Rightarrow> nat list"
  nfd :: "nat list \<Rightarrow> nat list"

definition comparison_key :: "unicode \<Rightarrow> string \<Rightarrow> FilenameComparison \<Rightarrow> string" where
  "comparison_key U v k = (case k of
      CaseSensitive \<Rightarrow> v
    | CaseInsensitive \<Rightarrow> str_lowercase U v
    | NormalizationInsensitive \<Rightarrow> collect_chars (nfd U (chars v))
    | CaseAndNormalizationInsensitive \<Rightarrow>
        collect_chars (concat (map (char_lowercase U) (nfd U (chars v)))))"

record LocalPathIndex =
  lpi_comparison :: FilenameComparison
  lpi_paths :: "(string, ProtocolPath) omap"

definition local_path_index_new :: "FilenameComparison \<Rightarrow> LocalPathIndex" where
  "local_path_index_new k = \<lparr>lpi_comparison = k, lpi_paths = []\<rparr>"

definition local_path_index_insert :: "unicode \<Rightarrow> ProtocolPath \<Rightarrow> LocalPathIndex \<Rightarrow> PathError + LocalPathIndex" where
  "local_path_index_insert U p idx =
    (let key = comparison_key U (as_str p) (lpi_comparison idx);
         stored = idx\<lparr>lpi_paths := om_insert key p (lpi_paths idx)\<rparr>
     in case om_get (lpi_paths idx) key of
          Some existing \<Rightarrow> if existing \<noteq> p then Inl (Collision existing p) else Inr stored
        | None \<Rightarrow> Inr stored)"

section \<open>Validation\<close>

lemma validate_component_Inr:
  "validate_component c = Inr u \<longleftrightarrow> c \<noteq> '''' \<and> c \<noteq> ''.'' \<and> c \<noteq> ''..''"
  by (auto simp: validate_component_def)

text \<open>The reference reading of validation: every component is an ordinary name.\<close>

definition ordinary_component :: "string \<Rightarrow> bool" where
  "ordinary_component c \<longleftrightarrow> c \<noteq> '''' \<and> c \<noteq> ''.'' \<and> c \<noteq> ''..'' \<and> CHR ''/'' \<notin> set c \<and> CHR 0x00 \<notin> set c"

lemma starts_with_slash: "starts_with v ''/'' \<longleftrightarrow> (\<exists>r. v = CHR ''/'' # r)"
  by (simp add: starts_with_iff)

lemma in_set_join_with: "x \<in> set (join_with c ss) \<Longrightarrow> x = c \<or> (\<exists>s \<in> set ss. x \<in> set s)"
  by (induction c ss rule: join_with.induct) auto

lemma validate_Inr:
  "validate v = Inr u \<longleftrightarrow> (\<forall>c \<in> set (split_on (CHR ''/'') v). ordinary_component c)"
  (is "?ok \<longleftrightarrow> ?ord")
proof
  assume ?ok
  then have nul: "CHR 0x00 \<notin> set v"
      and comps: "\<forall>c \<in> set (split_on (CHR ''/'') v). c \<noteq> '''' \<and> c \<noteq> ''.'' \<and> c \<noteq> ''..''"
    by (auto simp: validate_def for_each_eq_Inr validate_component_Inr split: if_splits)
  show ?ord
  proof
    fix c assume c: "c \<in> set (split_on (CHR ''/'') v)"
    then have "CHR ''/'' \<notin> set c" "set c \<subseteq> set v"
      using split_on_no_sep set_split_on by metis+
    with nul comps c show "ordinary_component c" by (auto simp: ordinary_component_def)
  qed
next
  assume ord: ?ord
  have "v \<noteq> []"
  proof
    assume "v = []"
    with ord show False by (simp add: ordinary_component_def)
  qed
  moreover have "\<not> starts_with v ''/''"
  proof
    assume "starts_with v ''/''"
    then have "[] \<in> set (split_on (CHR ''/'') v)" by (auto simp: starts_with_slash)
    with ord show False by (auto simp: ordinary_component_def)
  qed
  moreover have "CHR 0x00 \<notin> set v"
  proof
    assume "CHR 0x00 \<in> set v"
    then have "CHR 0x00 \<in> set (join_with (CHR ''/'') (split_on (CHR ''/'') v))" by simp
    from in_set_join_with [OF this] obtain c
      where "c \<in> set (split_on (CHR ''/'') v)" "CHR 0x00 \<in> set c" by auto
    with ord show False by (auto simp: ordinary_component_def)
  qed
  ultimately show ?ok
    using ord by (simp add: validate_def for_each_eq_Inr validate_component_Inr ordinary_component_def)
qed

definition path_ok :: "ProtocolPath \<Rightarrow> bool" where
  "path_ok p \<longleftrightarrow> is_str (as_str p) \<and> validate (as_str p) = Inr ()"

lemma parse_Inr: "parse v = Inr p \<longleftrightarrow> validate v = Inr () \<and> p = ProtocolPath v"
  by (auto simp: parse_def bindE_eq_Inr)

lemma parse_path_ok [simp]: "path_ok p \<Longrightarrow> parse (as_str p) = Inr p"
  by (simp add: path_ok_def parse_Inr)

section \<open>Placement under a root\<close>

text \<open>
  The lexical meaning of a path: its components resolved against a stack of directory names, as
  a filesystem without symbolic links resolves them.
\<close>

fun resolve :: "string list \<Rightarrow> string list \<Rightarrow> string list" where
  "resolve dirs [] = dirs"
| "resolve dirs (c # cs) =
    (if c = '''' \<or> c = ''.'' then resolve dirs cs
     else if c = ''..'' then resolve (butlast dirs) cs
     else resolve (dirs @ [c]) cs)"

lemma resolve_ordinary:
  "(\<And>c. c \<in> set cs \<Longrightarrow> ordinary_component c) \<Longrightarrow> resolve dirs cs = dirs @ cs"
  by (induction cs arbitrary: dirs) (auto simp: ordinary_component_def)

lemma resolve_append: "resolve dirs (xs @ ys) = resolve (resolve dirs xs) ys"
  by (induction dirs xs rule: resolve.induct) auto

lemma split_on_append_sep: "split_on c (xs @ c # ys) = split_on c xs @ split_on c ys"
  by (induction xs) (auto split: list.splits)

lemma foldl_push_ordinary:
  assumes "root \<noteq> []" and "last root \<noteq> CHR ''/''"
    and "\<And>c. c \<in> set cs \<Longrightarrow> ordinary_component c"
  shows "foldl path_push root cs = join_with (CHR ''/'') (root # cs)"
  using assms
proof (induction cs arbitrary: root)
  case Nil
  then show ?case by simp
next
  case (Cons c cs)
  then have c: "c \<noteq> []" "CHR ''/'' \<notin> set c" by (auto simp: ordinary_component_def)
  then have "\<not> starts_with c ''/''" by (auto simp: starts_with_slash)
  then have push: "path_push root c = root @ ''/'' @ c"
    using Cons.prems by (simp add: path_push_def)
  have "last (root @ ''/'' @ c) \<noteq> CHR ''/''"
    using c last_in_set [of c] by (auto simp del: last_in_set)
  then have "foldl path_push (root @ ''/'' @ c) cs = join_with (CHR ''/'') ((root @ ''/'' @ c) # cs)"
    using Cons by (intro Cons.IH) auto
  with push show ?case by (cases cs) auto
qed

lemma under_eq:
  assumes "path_ok p" and "root \<noteq> []" and "last root \<noteq> CHR ''/''"
  shows "under p root = root @ ''/'' @ as_str p"
proof -
  let ?cs = "split_on (CHR ''/'') (as_str p)"
  have "under p root = join_with (CHR ''/'') (root # ?cs)"
    unfolding under_def using assms
    by (intro foldl_push_ordinary) (auto simp: path_ok_def validate_Inr)
  moreover obtain y ys where "?cs = y # ys" by (cases ?cs) auto
  ultimately show ?thesis
    using join_split [of "CHR ''/''" "as_str p"] by simp
qed

text \<open>
  C39. A path accepted by \<open>ProtocolPath::parse\<close>, joined under a root, resolves to a proper
  descendant of what the root resolves to: the components of the path are appended, none is
  dropped and none climbs out. (Security invariant 9 of the architecture: every materialized path
  stays beneath its collection root.)
\<close>

theorem under_beneath_root:
  assumes "parse v = Inr p" and "root \<noteq> []" and "last root \<noteq> CHR ''/''"
  shows "resolve dirs (split_on (CHR ''/'') (under p root))
           = resolve dirs (split_on (CHR ''/'') root) @ split_on (CHR ''/'') v
         \<and> split_on (CHR ''/'') v \<noteq> []"
proof -
  let ?cs = "split_on (CHR ''/'') v"
  have v: "validate v = Inr ()" and p: "p = ProtocolPath v"
    using assms(1) by (simp_all add: parse_Inr)
  have "under p root = root @ ''/'' @ v"
  proof -
    have "under p root = join_with (CHR ''/'') (root # ?cs)"
      unfolding under_def p using assms v
      by (simp, intro foldl_push_ordinary) (auto simp: validate_Inr)
    moreover obtain y ys where "?cs = y # ys" by (cases ?cs) auto
    ultimately show ?thesis using join_split [of "CHR ''/''" v] by simp
  qed
  then have "split_on (CHR ''/'') (under p root) = split_on (CHR ''/'') root @ ?cs"
    by (simp add: split_on_append_sep)
  then show ?thesis
    using v by (simp add: resolve_append resolve_ordinary validate_Inr)
qed

theorem under_beneath_root_witness:
  "resolve [] (split_on (CHR ''/'') (under (ProtocolPath ''a/b'') ''/tmp/root''))
     = resolve [] (split_on (CHR ''/'') ''/tmp/root'') @ split_on (CHR ''/'') ''a/b''
   \<and> split_on (CHR ''/'') ''a/b'' \<noteq> []"
proof -
  have "parse ''a/b'' = Inr (ProtocolPath ''a/b'')" by code_simp
  then show ?thesis by (rule under_beneath_root) simp_all
qed

section \<open>The path index\<close>

definition lpi_ok :: "unicode \<Rightarrow> LocalPathIndex \<Rightarrow> bool" where
  "lpi_ok U idx \<longleftrightarrow> om_wf (lpi_paths idx) \<and>
     (\<forall>k p. om_get (lpi_paths idx) k = Some p \<longrightarrow> k = comparison_key U (as_str p) (lpi_comparison idx))"

definition lpi_members :: "LocalPathIndex \<Rightarrow> ProtocolPath set" where
  "lpi_members idx = {p. \<exists>k. om_get (lpi_paths idx) k = Some p}"

lemma lpi_new_ok: "lpi_ok U (local_path_index_new k)"
  by (simp add: lpi_ok_def local_path_index_new_def)

lemma lpi_insert_ok:
  assumes "lpi_ok U idx" and "local_path_index_insert U p idx = Inr idx'"
  shows "lpi_ok U idx'" "lpi_comparison idx' = lpi_comparison idx"
    "lpi_members idx' = insert p (lpi_members idx)"
proof -
  let ?k = "comparison_key U (as_str p) (lpi_comparison idx)"
  have idx': "idx' = idx\<lparr>lpi_paths := om_insert ?k p (lpi_paths idx)\<rparr>"
      and old: "om_get (lpi_paths idx) ?k = None \<or> om_get (lpi_paths idx) ?k = Some p"
    using assms(2) by (auto simp: local_path_index_insert_def Let_def split: option.splits if_splits)
  have wf: "om_wf (lpi_paths idx)" using assms(1) by (simp add: lpi_ok_def)
  show "lpi_ok U idx'" "lpi_comparison idx' = lpi_comparison idx"
    using assms(1) wf by (auto simp: idx' lpi_ok_def om_wf_insert om_get_insert split: if_splits)
  show "lpi_members idx' = insert p (lpi_members idx)"
  proof (rule set_eqI)
    fix q
    have "(\<exists>k. om_get (lpi_paths idx') k = Some q)
        \<longleftrightarrow> p = q \<or> (\<exists>k. k \<noteq> ?k \<and> om_get (lpi_paths idx) k = Some q)"
      using wf by (auto simp: idx' om_get_insert)
    with old show "q \<in> lpi_members idx' \<longleftrightarrow> q \<in> insert p (lpi_members idx)"
      by (auto simp: lpi_members_def) (metis option.distinct(1) option.inject)+
  qed
qed

text \<open>The loop of a scan: insert a list of paths, stopping at the first collision.\<close>

primrec lpi_insert_all :: "unicode \<Rightarrow> ProtocolPath list \<Rightarrow> LocalPathIndex \<Rightarrow> PathError + LocalPathIndex" where
  "lpi_insert_all U [] idx = Inr idx"
| "lpi_insert_all U (p # ps) idx = bindE (local_path_index_insert U p idx) (lpi_insert_all U ps)"

lemma lpi_insert_all_ok:
  "lpi_ok U idx \<Longrightarrow> lpi_insert_all U ps idx = Inr idx' \<Longrightarrow>
   lpi_ok U idx' \<and> lpi_comparison idx' = lpi_comparison idx \<and> lpi_members idx' = set ps \<union> lpi_members idx"
proof (induction ps arbitrary: idx)
  case Nil
  then show ?case by simp
next
  case (Cons p ps)
  then obtain idx1 where "local_path_index_insert U p idx = Inr idx1"
      "lpi_insert_all U ps idx1 = Inr idx'"
    by (auto simp: bindE_eq_Inr)
  with Cons lpi_insert_ok [of U idx p idx1] show ?case by auto
qed

text \<open>
  If a list of paths enters a fresh index without an error, no two different paths of the
  list have the same comparison key: every pair the local filesystem would confuse is reported.
\<close>

theorem index_detects_collisions:
  assumes "lpi_insert_all U ps (local_path_index_new k) = Inr idx"
  shows "inj_on (\<lambda>p. comparison_key U (as_str p) k) (set ps)"
proof -
  have "lpi_ok U idx" "lpi_comparison idx = k" "lpi_members idx = set ps"
    using lpi_insert_all_ok [OF lpi_new_ok assms]
    by (simp_all add: local_path_index_new_def lpi_members_def)
  note idx = this
  show ?thesis
  proof (rule inj_onI)
    have stored: "om_get (lpi_paths idx) (comparison_key U (as_str p) k) = Some p"
      if "p \<in> set ps" for p
    proof -
      from that idx(3) have "p \<in> lpi_members idx" by simp
      then obtain j where j: "om_get (lpi_paths idx) j = Some p" by (auto simp: lpi_members_def)
      then have "j = comparison_key U (as_str p) k"
        using idx(1,2) unfolding lpi_ok_def by blast
      with j show ?thesis by simp
    qed
    fix p q assume "p \<in> set ps" "q \<in> set ps"
      and "comparison_key U (as_str p) k = comparison_key U (as_str q) k"
    with stored [of p] stored [of q] show "p = q" by (metis option.inject)
  qed
qed

theorem index_detects_collisions_witness:
  "inj_on (\<lambda>p. comparison_key \<lparr>str_lowercase = id, char_lowercase = (\<lambda>c. [c]), nfd = id\<rparr> (as_str p)
      CaseSensitive) {ProtocolPath ''a'', ProtocolPath ''b''}"
proof -
  let ?U = "\<lparr>str_lowercase = id, char_lowercase = (\<lambda>c. [c]), nfd = id\<rparr>"
  have "lpi_insert_all ?U [ProtocolPath ''a'', ProtocolPath ''b''] (local_path_index_new CaseSensitive)
      = Inr \<lparr>lpi_comparison = CaseSensitive,
             lpi_paths = [(''a'', ProtocolPath ''a''), (''b'', ProtocolPath ''b'')]\<rparr>"
    by (simp add: local_path_index_insert_def local_path_index_new_def comparison_key_def Let_def)
  then show ?thesis
    using index_detects_collisions [of ?U "[ProtocolPath ''a'', ProtocolPath ''b'']"] by simp
qed

end
