(* ===== verification/Identity.thy ===== *)
theory Identity
  imports Rust_Text
begin

text \<open>
  \<open>identity.rs\<close>: EndpointIDs and group identifiers, their hexadecimal text, and the device key pair.
  Ed25519 (crate \<open>ed25519_dalek\<close>) and BLAKE3 are the fields of the parameter record \<open>crypto\<close>. What the
  program relies on of a signature scheme is \<open>sig_correct\<close>: a public key derived from a secret is a valid
  key, and the signatures made with the secret verify under it.
\<close>

unbundle bit_operations_syntax

type_synonym EndpointId = bytes32
type_synonym GroupId = bytes32

record crypto =
  c_blake3 :: "byte list \<Rightarrow> bytes32"
  ed_public :: "bytes32 \<Rightarrow> bytes32"
  ed_sign :: "bytes32 \<Rightarrow> byte list \<Rightarrow> bytes64"
  ed_valid_key :: "bytes32 \<Rightarrow> bool"
  ed_verify_strict :: "bytes32 \<Rightarrow> byte list \<Rightarrow> bytes64 \<Rightarrow> bool"

definition sig_correct :: "crypto \<Rightarrow> bool" where
  "sig_correct C \<longleftrightarrow> (\<forall>sk. ed_valid_key C (ed_public C sk))
     \<and> (\<forall>sk msg. ed_verify_strict C (ed_public C sk) msg (ed_sign C sk msg))"

datatype IdentityError =
    Random
  | Io
  | KeyringUnavailable
  | InvalidReference
  | InvalidSecret
  | UnsafePermissions
  | InvalidEndpointId

section \<open>Hexadecimal text\<close>

definition hex_digit :: "nat \<Rightarrow> char" where
  "hex_digit n = (if n < 10 then char_of (48 + n) else char_of (87 + n))"

definition hex_byte :: "byte \<Rightarrow> string" where
  "hex_byte b = [hex_digit (unat b div 16), hex_digit (unat b mod 16)]"

definition endpoint_to_string :: "EndpointId \<Rightarrow> string" where
  "endpoint_to_string e = concat (map hex_byte (to_be_bytes e))"

definition hex_nibble :: "byte \<Rightarrow> IdentityError + byte" where
  "hex_nibble b =
    (let n = unat b in
     if 48 \<le> n \<and> n \<le> 57 then Inr (b - 48)
     else if 97 \<le> n \<and> n \<le> 102 then Inr (b - 97 + 10)
     else if 65 \<le> n \<and> n \<le> 70 then Inr (b - 65 + 10)
     else Inl InvalidEndpointId)"

fun hex_pairs :: "byte list \<Rightarrow> IdentityError + byte list" where
  "hex_pairs (a # b # bs) =
    bindE (hex_nibble a) (\<lambda>high.
    bindE (hex_nibble b) (\<lambda>low.
    bindE (hex_pairs bs) (\<lambda>out. Inr ((push_bit 4 high OR low) # out))))"
| "hex_pairs bs = Inr []"

definition endpoint_from_str :: "string \<Rightarrow> IdentityError + EndpointId" where
  "endpoint_from_str v =
    (if length v \<noteq> 64 then Inl InvalidEndpointId
     else bindE (hex_pairs (as_bytes v)) (\<lambda>bs. Inr (from_be_bytes bs)))"

section \<open>Device identities\<close>

record DeviceIdentity =
  signing_key :: bytes32
  endpoint_id :: EndpointId

definition identity_from_secret :: "crypto \<Rightarrow> bytes32 \<Rightarrow> DeviceIdentity" where
  "identity_from_secret C secret = \<lparr>signing_key = secret, endpoint_id = ed_public C secret\<rparr>"

definition identity_sign :: "crypto \<Rightarrow> DeviceIdentity \<Rightarrow> byte list \<Rightarrow> bytes64" where
  "identity_sign C d msg = ed_sign C (signing_key d) msg"

definition identity_from_slice :: "crypto \<Rightarrow> byte list \<Rightarrow> IdentityError + DeviceIdentity" where
  "identity_from_slice C secret =
    (if length secret = 32 then Inr (identity_from_secret C (from_be_bytes secret)) else Inl InvalidSecret)"

text \<open>The invariant of the type: its fields are private and set by \<open>from_secret\<close> only.\<close>

definition identity_ok :: "crypto \<Rightarrow> DeviceIdentity \<Rightarrow> bool" where
  "identity_ok C d \<longleftrightarrow> endpoint_id d = ed_public C (signing_key d)"

lemma identity_from_secret_ok: "identity_ok C (identity_from_secret C s)"
  by (simp add: identity_ok_def identity_from_secret_def)

lemma identity_signature_verifies:
  "sig_correct C \<Longrightarrow> identity_ok C d \<Longrightarrow>
   ed_valid_key C (endpoint_id d) \<and> ed_verify_strict C (endpoint_id d) msg (identity_sign C d msg)"
  by (simp add: sig_correct_def identity_ok_def identity_sign_def)

section \<open>The text of an EndpointID\<close>

lemma unat_hex_digit: "n < 16 \<Longrightarrow> unat (byte_of_char (hex_digit n)) = (if n < 10 then 48 + n else 87 + n)"
  by (simp add: unat_byte_of_char hex_digit_def)

lemma of_nat_unat_eq: "unat w = n \<Longrightarrow> w = of_nat n"
  by auto

lemma hex_nibble_digit:
  assumes "n < 16"
  shows "hex_nibble (byte_of_char (hex_digit n)) = Inr (of_nat n)"
proof -
  have "byte_of_char (hex_digit n) = of_nat (if n < 10 then 48 + n else 87 + n)"
    using unat_hex_digit [OF assms] by (metis of_nat_unat_eq)
  then show ?thesis
    using unat_hex_digit [OF assms] assms by (auto simp: hex_nibble_def Let_def)
qed

lemma hex_combine: "push_bit 4 (of_nat (unat b div 16)) OR of_nat (unat b mod 16) = (b :: byte)"
proof -
  have "unat (drop_bit 4 b) = unat b div 16"
    by (simp add: drop_bit_eq_div unat_div)
  then have high: "of_nat (unat b div 16) = drop_bit 4 b" by (rule of_nat_unat_eq [symmetric])
  have "unat (take_bit 4 b) = unat b mod 16"
    by (simp add: take_bit_eq_mod unat_mod)
  then have low: "of_nat (unat b mod 16) = take_bit 4 b" by (rule of_nat_unat_eq [symmetric])
  show ?thesis
    unfolding high low by (rule bit_eqI) (auto simp: bit_simps)
qed

lemma hex_pairs_hex: "hex_pairs (as_bytes (concat (map hex_byte bs))) = Inr bs"
proof (induction bs)
  case Nil
  then show ?case by (simp add: as_bytes_def)
next
  case (Cons b bs)
  have "unat b div 16 < 16" using unat_byte_less [of b] by simp
  with Cons show ?case
    by (simp add: as_bytes_def hex_byte_def hex_nibble_digit hex_combine)
qed

lemma length_endpoint_to_string: "length (endpoint_to_string e) = 64"
proof -
  have "length (concat (map hex_byte bs)) = 2 * length bs" for bs
    by (induction bs) (simp_all add: hex_byte_def)
  then show ?thesis by (simp add: endpoint_to_string_def)
qed

text \<open>
  The text of an EndpointID is 64 characters long and parses back to that EndpointID, so the
  identifier both people compare during a join denotes one key.
\<close>

theorem endpoint_text_roundtrip:
  "length (endpoint_to_string e) = 64 \<and> endpoint_from_str (endpoint_to_string e) = Inr e"
proof -
  have "hex_pairs (as_bytes (endpoint_to_string e)) = Inr (to_be_bytes e)"
    unfolding endpoint_to_string_def by (rule hex_pairs_hex)
  then show ?thesis
    by (simp add: endpoint_from_str_def length_endpoint_to_string from_to_be_bytes)
qed

end
