(* ===== verification/Records.thy ===== *)
theory Records
  imports Canonical Protocol_Path Identity
begin

text \<open>
  \<open>record.rs\<close>: one record per collection path, its canonical encoding, the last-write-wins order
  on records and the manifest. BLAKE3 is a parameter \<open>blake3\<close> of the definitions that hash.
  EndpointIDs and hashes are \<open>[u8; 32]\<close>, hence 256-bit words.
\<close>

type_synonym RecordHash = bytes32

definition RECORD_DOMAIN :: "byte list" where
  "RECORD_DOMAIN = as_bytes (''skillsync-record-v1'' @ [CHR 0x00])"

definition MANIFEST_DOMAIN :: "byte list" where
  "MANIFEST_DOMAIN = as_bytes (''skillsync-manifest-v1'' @ [CHR 0x00])"

datatype RecordKind = File (file_size: u64) (content_hash: bytes32) | Tombstone

record Record =
  r_collection :: string
  r_path :: ProtocolPath
  r_modified_ns :: i64
  r_author :: EndpointId
  r_kind :: RecordKind

datatype RecordError =
    EmptyCollection
  | LengthOverflow
  | FileTooLarge
  | DuplicatePath
  | ManifestLimit
  | Canonical CanonicalError
  | Path PathError

definition ensure_u32_length :: "nat \<Rightarrow> RecordError + unit" where
  "ensure_u32_length n = bindE (ok_or LengthOverflow (u32_try_from n)) (\<lambda>_. Inr ())"

definition record_new ::
  "string \<Rightarrow> ProtocolPath \<Rightarrow> i64 \<Rightarrow> EndpointId \<Rightarrow> RecordKind \<Rightarrow> RecordError + Record" where
  "record_new collection path modified_ns author kind =
    (if collection = [] then Inl EmptyCollection
     else
       bindE (ensure_u32_length (length collection)) (\<lambda>_.
       bindE (ensure_u32_length (length (as_str path))) (\<lambda>_.
       bindE (case kind of
                File len h \<Rightarrow> bindE (ok_or FileTooLarge (i64_try_from_u64 len)) (\<lambda>_. Inr ())
              | Tombstone \<Rightarrow> Inr ()) (\<lambda>_.
       Inr \<lparr>r_collection = collection, r_path = path, r_modified_ns = modified_ns,
            r_author = author, r_kind = kind\<rparr>))))"

definition record_file ::
  "string \<Rightarrow> ProtocolPath \<Rightarrow> i64 \<Rightarrow> EndpointId \<Rightarrow> u64 \<Rightarrow> bytes32 \<Rightarrow> RecordError + Record" where
  "record_file collection path modified_ns author len h =
    record_new collection path modified_ns author (File len h)"

definition record_tombstone ::
  "string \<Rightarrow> ProtocolPath \<Rightarrow> i64 \<Rightarrow> EndpointId \<Rightarrow> RecordError + Record" where
  "record_tombstone collection path modified_ns author =
    record_new collection path modified_ns author Tombstone"

definition encode_kind :: "RecordKind \<Rightarrow> encoder \<Rightarrow> encoder" where
  "encode_kind k e = (case k of
      Tombstone \<Rightarrow> enc_u8 0 e
    | File len h \<Rightarrow> enc_fixed (to_be_bytes h) (enc_u64 len (enc_u8 1 e)))"

definition record_encode :: "Record \<Rightarrow> CanonicalError + byte list" where
  "record_encode r =
    bindE (enc_string (r_collection r) (encoder_new RECORD_DOMAIN)) (\<lambda>e.
    bindE (enc_string (as_str (r_path r)) e) (\<lambda>e.
    Inr (encode_kind (r_kind r)
          (enc_fixed (to_be_bytes (r_author r)) (enc_i64 (r_modified_ns r) e)))))"

definition record_canonical_bytes :: "Record \<Rightarrow> byte list" where
  "record_canonical_bytes r = expect (record_encode r)"

definition decode_kind :: "cursor \<Rightarrow> CanonicalError + (RecordKind \<times> cursor)" where
  "decode_kind d =
    bindE (dec_u8 d) (\<lambda>(tag, d).
      if tag = 0 then Inr (Tombstone, d)
      else if tag = 1 then
        bindE (dec_u64 d) (\<lambda>(len, d).
        bindE (dec_fixed d) (\<lambda>(h, d). Inr (File len h, d)))
      else Inl UnknownTag)"

definition record_from_canonical :: "byte list \<Rightarrow> RecordError + Record" where
  "record_from_canonical bs =
    bindE (mapErr Canonical (decoder_new bs RECORD_DOMAIN)) (\<lambda>d.
    bindE (mapErr Canonical (dec_string d)) (\<lambda>(collection, d).
    bindE (mapErr Canonical (dec_string d)) (\<lambda>(text, d).
    bindE (mapErr Path (parse text)) (\<lambda>path.
    bindE (mapErr Canonical (dec_i64 d)) (\<lambda>(modified_ns, d).
    bindE (mapErr Canonical (dec_fixed d)) (\<lambda>(author, d).
    bindE (mapErr Canonical (decode_kind d)) (\<lambda>(kind, d).
    bindE (mapErr Canonical (dec_finish d)) (\<lambda>_.
    record_new collection path modified_ns author kind))))))))"

definition record_canonical_hash :: "(byte list \<Rightarrow> bytes32) \<Rightarrow> Record \<Rightarrow> RecordHash" where
  "record_canonical_hash blake3 r = blake3 (record_canonical_bytes r)"

definition compare_winner :: "(byte list \<Rightarrow> bytes32) \<Rightarrow> Record \<Rightarrow> Record \<Rightarrow> ordering" where
  "compare_winner blake3 a b =
    then_with (then_with
      (cmp (sint (r_modified_ns a)) (sint (r_modified_ns b)))
      (cmp (r_author a) (r_author b)))
      (cmp (record_canonical_hash blake3 a) (record_canonical_hash blake3 b))"

section \<open>Manifests\<close>

record Manifest =
  m_records :: "Record list"

definition record_key :: "Record \<Rightarrow> string \<times> ProtocolPath" where
  "record_key r = (r_collection r, r_path r)"

definition manifest_new :: "Record list \<Rightarrow> RecordError + Manifest" where
  "manifest_new rs =
    (let records = sort_key record_key rs in
     if distinct (map record_key records) then Inr \<lparr>m_records = records\<rparr> else Inl DuplicatePath)"

primrec encode_records :: "Record list \<Rightarrow> encoder \<Rightarrow> CanonicalError + encoder" where
  "encode_records [] e = Inr e"
| "encode_records (r # rs) e =
    bindE (enc_sized_bytes (record_canonical_bytes r) e) (encode_records rs)"

definition manifest_encode :: "Manifest \<Rightarrow> CanonicalError + byte list" where
  "manifest_encode m =
    bindE (ok_or CanonicalError.LengthOverflow (u32_try_from (length (m_records m)))) (\<lambda>n.
    encode_records (m_records m) (enc_u32 n (encoder_new MANIFEST_DOMAIN)))"

definition manifest_canonical_bytes :: "Manifest \<Rightarrow> byte list" where
  "manifest_canonical_bytes m = expect (manifest_encode m)"

definition decode_record_field :: "cursor \<Rightarrow> RecordError + (Record \<times> cursor)" where
  "decode_record_field d =
    bindE (mapErr Canonical (dec_sized_bytes d)) (\<lambda>(v, d).
    bindE (record_from_canonical v) (\<lambda>r. Inr (r, d)))"

definition manifest_from_canonical_with_limit :: "byte list \<Rightarrow> nat \<Rightarrow> RecordError + Manifest" where
  "manifest_from_canonical_with_limit bs max_records =
    bindE (mapErr Canonical (decoder_new bs MANIFEST_DOMAIN)) (\<lambda>d.
    bindE (mapErr Canonical (dec_u32 d)) (\<lambda>(count, d).
    if unat count > max_records then Inl ManifestLimit
    else
      bindE (read_many decode_record_field (unat count) d) (\<lambda>(records, d).
      bindE (mapErr Canonical (dec_finish d)) (\<lambda>_.
      bindE (manifest_new records) (\<lambda>manifest.
      if manifest_canonical_bytes manifest \<noteq> bs then Inl (Canonical UnorderedKeys)
      else Inr manifest)))))"

definition manifest_from_canonical :: "byte list \<Rightarrow> RecordError + Manifest" where
  "manifest_from_canonical bs = manifest_from_canonical_with_limit bs (2 ^ 64 - 1)"

section \<open>Well-formed records\<close>

text \<open>What the constructors of the type guarantee: its fields are private and every value comes from
  \<open>Record::new\<close>, \<open>ProtocolPath::parse\<close> and Rust strings.\<close>

definition kind_wf :: "RecordKind \<Rightarrow> bool" where
  "kind_wf k = (case k of File len h \<Rightarrow> unat len < 2 ^ 63 | Tombstone \<Rightarrow> True)"

definition record_wf :: "Record \<Rightarrow> bool" where
  "record_wf r \<longleftrightarrow> r_collection r \<noteq> [] \<and> string_ok (r_collection r) \<and>
     path_ok (r_path r) \<and> length (as_str (r_path r)) < 2 ^ 32 \<and> kind_wf (r_kind r)"

lemma record_new_Inr:
  "record_new c p t a k = Inr r \<longleftrightarrow>
     c \<noteq> [] \<and> length c < 2 ^ 32 \<and> length (as_str p) < 2 ^ 32 \<and> kind_wf k \<and>
     r = \<lparr>r_collection = c, r_path = p, r_modified_ns = t, r_author = a, r_kind = k\<rparr>"
  by (auto simp: record_new_def ensure_u32_length_def bindE_eq_Inr u32_try_from_Some
      i64_try_from_u64_def kind_wf_def split: RecordKind.splits if_splits)

lemma record_new_wf:
  "record_new c p t a k = Inr r \<Longrightarrow> is_str c \<Longrightarrow> path_ok p \<Longrightarrow> record_wf r"
  by (auto simp: record_new_Inr record_wf_def)

lemma record_new_self:
  "record_wf r \<Longrightarrow> record_new (r_collection r) (r_path r) (r_modified_ns r) (r_author r) (r_kind r) = Inr r"
  by (simp add: record_new_Inr record_wf_def)

section \<open>The canonical encoding of a record\<close>

definition kind_bytes :: "RecordKind \<Rightarrow> byte list" where
  "kind_bytes k = (case k of Tombstone \<Rightarrow> [0] | File len h \<Rightarrow> [1] @ to_be_bytes len @ to_be_bytes h)"

definition record_body :: "Record \<Rightarrow> byte list" where
  "record_body r = sized (as_bytes (r_collection r)) @ sized (as_bytes (as_str (r_path r)))
     @ to_be_bytes (r_modified_ns r) @ to_be_bytes (r_author r) @ kind_bytes (r_kind r)"

lemma length_kind_bytes: "length (kind_bytes k) \<le> 41"
  by (simp add: kind_bytes_def split: RecordKind.splits)

lemma length_RECORD_DOMAIN [codec_simps]: "length RECORD_DOMAIN = 20"
  by (simp add: RECORD_DOMAIN_def)

lemma record_encode_ok:
  "record_wf r \<Longrightarrow> record_encode r = Inr (RECORD_DOMAIN @ record_body r)"
  by (simp add: record_wf_def record_encode_def encoder_defs encode_kind_def record_body_def
      kind_bytes_def split: RecordKind.splits)

lemma record_canonical_bytes_eq:
  "record_wf r \<Longrightarrow> record_canonical_bytes r = RECORD_DOMAIN @ record_body r"
  by (simp add: record_canonical_bytes_def record_encode_ok)

lemma record_bytes_bound:
  assumes "record_wf r"
  shows "length (RECORD_DOMAIN @ record_body r) < 2 ^ 64"
proof -
  have "length (record_body r) \<le> length (r_collection r) + length (as_str (r_path r)) + 100"
    using length_kind_bytes [of "r_kind r"] by (simp add: record_body_def)
  then show ?thesis using assms by (simp add: record_wf_def length_RECORD_DOMAIN)
qed

interpretation kind_field: field_codec kind_bytes decode_kind "\<lambda>_. True"
proof
  fix c k c' assume "reads c (kind_bytes k) c'"
  then show "decode_kind c = Inr (k, c')"
  proof (cases k)
    case (File len h)
    then have "reads c ([1] @ to_be_bytes len @ to_be_bytes h) c'"
      using \<open>reads c (kind_bytes k) c'\<close> by (simp add: kind_bytes_def)
    then obtain c1 c2 where "reads c [1] c1" "reads c1 (to_be_bytes len) c2" "reads c2 (to_be_bytes h) c'"
      unfolding reads_append by blast
    with File show ?thesis by (simp add: decode_kind_def field_enc)
  qed (simp add: kind_bytes_def decode_kind_def field_enc)
next
  fix c k c' assume ok: "cur_ok c" and "decode_kind c = Inr (k, c')"
  then obtain tag c1 where tag: "dec_u8 c = Inr (tag, c1)" and
      k: "(if tag = 0 then Inr (Tombstone, c1)
          else if tag = 1 then bindE (dec_u64 c1) (\<lambda>(len, d).
            bindE (dec_fixed d) (\<lambda>(h, d). Inr (File len h, d)))
          else Inl UnknownTag) = Inr (k, c')"
    by (auto simp: decode_kind_def bindE_eq_Inr)
  have r: "reads c [tag] c1" using u8_field.enc_dec [OF ok tag] by simp
  then have ok1: "cur_ok c1" by (rule reads_cur_ok)
  show "True \<and> reads c (kind_bytes k) c'"
  proof (cases "tag = 0")
    case True
    with k r show ?thesis by (simp add: kind_bytes_def)
  next
    case False
    with k obtain len c2 h where t: "tag = 1" and f: "dec_u64 c1 = Inr (len, c2)"
        "dec_fixed c2 = Inr (h, c')" "k = File len h"
      by (auto simp: bindE_eq_Inr split: if_splits)
    have "reads c1 (to_be_bytes len) c2" using u64_field.enc_dec [OF ok1 f(1)] by simp
    moreover from this have "reads c2 (to_be_bytes h) c'"
      using fixed32_field.enc_dec f(2) by (blast dest: reads_cur_ok)
    ultimately have "reads c ([tag] @ to_be_bytes len @ to_be_bytes h) c'"
      using r by (blast intro: reads_trans)
    with t f(3) show ?thesis by (simp add: kind_bytes_def)
  qed
qed

lemma record_roundtrip:
  assumes wf: "record_wf r"
  shows "record_from_canonical (record_canonical_bytes r) = Inr r"
proof -
  obtain d d' where d: "decoder_new (RECORD_DOMAIN @ record_body r) RECORD_DOMAIN = Inr d"
      and body: "reads d (record_body r) d'" and fin: "dec_finish d' = Inr ()"
    using decode_whole [OF record_bytes_bound [OF wf]] .
  from body obtain d1 d2 d3 d4 where
      "reads d (sized (as_bytes (r_collection r))) d1"
      "reads d1 (sized (as_bytes (as_str (r_path r)))) d2"
      "reads d2 (to_be_bytes (r_modified_ns r)) d3"
      "reads d3 (to_be_bytes (r_author r)) d4"
      "reads d4 (kind_bytes (r_kind r)) d'"
    by (auto simp: record_body_def reads_append)
  moreover have "string_ok (r_collection r)" "string_ok (as_str (r_path r))"
    using wf by (simp_all add: record_wf_def path_ok_def)
  ultimately have
      "dec_string d = Inr (r_collection r, d1)" "dec_string d1 = Inr (as_str (r_path r), d2)"
      "dec_i64 d2 = Inr (r_modified_ns r, d3)" "dec_fixed d3 = Inr (r_author r, d4)"
      "decode_kind d4 = Inr (r_kind r, d')"
    by (simp_all add: field_enc kind_field.dec_enc)
  then show ?thesis
    using d fin wf
    by (simp add: record_from_canonical_def record_canonical_bytes_eq record_new_self record_wf_def)
qed

lemma record_decoded:
  assumes dec: "record_from_canonical bs = Inr r" and len: "length bs < 2 ^ 64"
  shows "record_wf r \<and> record_canonical_bytes r = bs"
proof -
  from dec obtain d c d1 t d2 p m d3 a d4 k d5 where
      d: "decoder_new bs RECORD_DOMAIN = Inr d" and c: "dec_string d = Inr (c, d1)" and
      t: "dec_string d1 = Inr (t, d2)" and p: "parse t = Inr p" and
      m: "dec_i64 d2 = Inr (m, d3)" and a: "dec_fixed d3 = Inr (a, d4)" and
      k: "decode_kind d4 = Inr (k, d5)" and fin: "dec_finish d5 = Inr ()" and
      new: "record_new c p m a k = Inr r"
    by (auto simp: record_from_canonical_def bindE_eq_Inr)
  have ok: "cur_ok d" using d len by (rule decoder_new_ok)
  have c': "string_ok c" "reads d (sized (as_bytes c)) d1"
    using string_field.enc_dec [OF ok c] by simp_all
  have t': "string_ok t" "reads d1 (sized (as_bytes t)) d2"
    using string_field.enc_dec [OF reads_cur_ok(2) [OF c'(2)] t] by simp_all
  have m': "reads d2 (to_be_bytes m) d3"
    using i64_field.enc_dec [OF reads_cur_ok(2) [OF t'(2)] m] by simp
  have a': "reads d3 (to_be_bytes a) d4"
    using fixed32_field.enc_dec [OF reads_cur_ok(2) [OF m'] a] by simp
  have k': "reads d4 (kind_bytes k) d5"
    using kind_field.enc_dec [OF reads_cur_ok(2) [OF a'] k] by simp
  have r: "r = \<lparr>r_collection = c, r_path = p, r_modified_ns = m, r_author = a, r_kind = k\<rparr>"
    using new by (simp add: record_new_Inr)
  have pt: "p = ProtocolPath t" "path_ok p"
    using p t'(1) by (auto simp: parse_Inr path_ok_def)
  have wf: "record_wf r" using new c'(1) pt(2) by (blast intro: record_new_wf)
  have "reads d (record_body r) d5"
    using c'(2) t'(2) m' a' k' pt(1) by (simp add: r record_body_def) (blast intro: reads_trans)
  then have "bs = RECORD_DOMAIN @ record_body r"
    using d fin decoded_whole by blast
  with wf show ?thesis by (simp add: record_canonical_bytes_eq)
qed

text \<open>
  C37. The canonical encoding of a record is lossless and unambiguous: a record the program can build
  is encoded without a panic and decodes to itself, and a byte string decodes to a record only if it
  is that record's encoding, so trailing bytes, unknown tags, wrong domains and alternative spellings
  are all rejected and no two records share an encoding (hence a signature or a hash input).
\<close>

theorem record_encoding_bijective:
  assumes "length bs < 2 ^ 64"
  shows "record_from_canonical bs = Inr r \<longleftrightarrow> record_wf r \<and> record_encode r = Inr bs"
proof
  assume "record_from_canonical bs = Inr r"
  then have "record_wf r" "record_canonical_bytes r = bs" using record_decoded assms by simp_all
  then show "record_wf r \<and> record_encode r = Inr bs"
    by (simp add: record_canonical_bytes_eq record_encode_ok)
next
  assume "record_wf r \<and> record_encode r = Inr bs"
  then show "record_from_canonical bs = Inr r"
    using record_roundtrip [of r] by (simp add: record_canonical_bytes_def)
qed

definition sample_tombstone :: Record where
  "sample_tombstone = \<lparr>r_collection = ''c'', r_path = ProtocolPath ''a/b'', r_modified_ns = 7,
     r_author = 3, r_kind = Tombstone\<rparr>"

lemma sample_tombstone_wf: "record_wf sample_tombstone"
proof -
  have "is_str ''c''" "is_str ''a/b''" by (rule is_str_ascii, simp)+
  moreover have "validate ''a/b'' = Inr ()" by code_simp
  ultimately show ?thesis by (simp add: record_wf_def sample_tombstone_def path_ok_def kind_wf_def)
qed

theorem record_encoding_bijective_witness:
  "record_from_canonical (record_canonical_bytes sample_tombstone) = Inr sample_tombstone"
proof -
  have "length (record_canonical_bytes sample_tombstone) < 2 ^ 64"
    using record_bytes_bound sample_tombstone_wf record_canonical_bytes_eq by presburger
  then show ?thesis
    using record_encoding_bijective [of "record_canonical_bytes sample_tombstone" sample_tombstone]
      sample_tombstone_wf by (simp add: record_canonical_bytes_eq record_encode_ok)
qed

lemma record_canonical_bytes_inj:
  "record_wf r \<Longrightarrow> record_wf s \<Longrightarrow> record_canonical_bytes r = record_canonical_bytes s \<Longrightarrow> r = s"
  using record_roundtrip by (metis sum.inject(2))

section \<open>Last write wins\<close>

definition winner_key :: "(byte list \<Rightarrow> bytes32) \<Rightarrow> Record \<Rightarrow> (int \<times> EndpointId) \<times> RecordHash" where
  "winner_key blake3 r = ((sint (r_modified_ns r), r_author r), record_canonical_hash blake3 r)"

lemma compare_winner_key:
  "compare_winner blake3 a b = cmp (winner_key blake3 a) (winner_key blake3 b)"
  by (simp add: compare_winner_def winner_key_def then_with_cmp)

text \<open>Collision resistance on the encodings at hand: the hypothesis under which the last tie-breaker
  separates different records.\<close>

definition hash_separates :: "(byte list \<Rightarrow> bytes32) \<Rightarrow> Record set \<Rightarrow> bool" where
  "hash_separates blake3 R \<longleftrightarrow> inj_on blake3 (record_canonical_bytes ` R)"

lemma winner_key_inj:
  assumes "hash_separates blake3 R" and "\<And>r. r \<in> R \<Longrightarrow> record_wf r"
  shows "inj_on (winner_key blake3) R"
proof (rule inj_onI)
  fix r s assume rs: "r \<in> R" "s \<in> R" "winner_key blake3 r = winner_key blake3 s"
  then have "blake3 (record_canonical_bytes r) = blake3 (record_canonical_bytes s)"
    by (simp add: winner_key_def record_canonical_hash_def)
  then have "record_canonical_bytes r = record_canonical_bytes s"
    using assms(1) rs(1,2) by (auto simp: hash_separates_def dest: inj_onD)
  then show "r = s" using record_canonical_bytes_inj assms(2) rs(1,2) by blast
qed

text \<open>
  C33. \<open>compare_winner\<close> is a total order on the records of any set whose encodings BLAKE3 separates:
  it is antisymmetric, transitive, and \<open>Equal\<close> only on the same record. Two peers that compare the
  same two records therefore always name the same winner, whichever side each record is on.
\<close>

theorem compare_winner_total_order:
  assumes "hash_separates blake3 R" and "\<And>r. r \<in> R \<Longrightarrow> record_wf r"
    and "a \<in> R" and "b \<in> R" and "c \<in> R"
  shows "compare_winner blake3 b a = reverse_ordering (compare_winner blake3 a b)
    \<and> (compare_winner blake3 a b = Equal \<longleftrightarrow> a = b)
    \<and> (compare_winner blake3 a b = Greater \<longrightarrow> compare_winner blake3 b c = Greater
         \<longrightarrow> compare_winner blake3 a c = Greater)"
proof -
  have "inj_on (winner_key blake3) R" using assms(1,2) by (rule winner_key_inj)
  then have "winner_key blake3 a = winner_key blake3 b \<longleftrightarrow> a = b"
    using assms(3,4) by (auto dest: inj_onD)
  then show ?thesis
    by (simp only: compare_winner_key cmp_reverse cmp_eq) auto
qed

definition sample_file :: Record where
  "sample_file = \<lparr>r_collection = ''c'', r_path = ProtocolPath ''a/b'', r_modified_ns = 7,
     r_author = 3, r_kind = File 5 9\<rparr>"

lemma sample_file_wf: "record_wf sample_file"
  using sample_tombstone_wf
  by (simp add: record_wf_def sample_file_def sample_tombstone_def kind_wf_def)

lemma sample_lengths:
  "length (record_canonical_bytes sample_tombstone) = 73"
  "length (record_canonical_bytes sample_file) = 113"
  using sample_tombstone_wf sample_file_wf
  by (simp_all add: record_canonical_bytes_eq record_body_def length_RECORD_DOMAIN kind_bytes_def
      sample_tombstone_def sample_file_def)

lemma sample_hash_separates:
  "hash_separates (\<lambda>bs. of_nat (length bs)) {sample_tombstone, sample_file}"
  by (simp add: hash_separates_def inj_on_def sample_lengths)

theorem compare_winner_total_order_witness:
  "compare_winner (\<lambda>bs. of_nat (length bs)) sample_file sample_tombstone
    = reverse_ordering (compare_winner (\<lambda>bs. of_nat (length bs)) sample_tombstone sample_file)"
  using compare_winner_total_order [OF sample_hash_separates, of sample_tombstone sample_file sample_file]
    sample_tombstone_wf sample_file_wf by blast

section \<open>Manifests\<close>

definition manifest_ok :: "Manifest \<Rightarrow> bool" where
  "manifest_ok m \<longleftrightarrow> sorted (map record_key (m_records m)) \<and> distinct (map record_key (m_records m))
     \<and> length (m_records m) < 2 ^ 32
     \<and> (\<forall>r \<in> set (m_records m). record_wf r \<and> length (record_canonical_bytes r) < 2 ^ 32)"

lemma mset_sort_key_eq:
  assumes "mset xs = mset ys" and "distinct (map f xs)"
  shows "sort_key f xs = sort_key f ys"
proof (rule sort_key_inj_key_eq)
  show "mset xs = mset (sort_key f ys)" using assms(1) by simp
  show "inj_on f (set xs)" using assms(2) by (simp add: distinct_map)
  show "sorted (map f (sort_key f ys))" by simp
qed

lemma manifest_new_Inr:
  "manifest_new rs = Inr m \<longleftrightarrow> distinct (map record_key rs) \<and> m = \<lparr>m_records = sort_key record_key rs\<rparr>"
proof -
  have "distinct (map record_key (sort_key record_key rs)) \<longleftrightarrow> distinct (map record_key rs)"
    by (rule mset_eq_imp_distinct_iff) simp
  then show ?thesis by (auto simp: manifest_new_def Let_def)
qed

lemma manifest_new_sorted:
  "sorted (map record_key rs) \<Longrightarrow> distinct (map record_key rs) \<Longrightarrow> manifest_new rs = Inr \<lparr>m_records = rs\<rparr>"
  by (simp add: manifest_new_Inr sort_key_id_if_sorted)

text \<open>
  \<open>Manifest::new\<close> does not depend on the order in which the records are given: it fails exactly on
  a repeated collection path, and otherwise gives the same manifest, hence the same canonical bytes,
  for every permutation of its input.
\<close>

theorem manifest_order_independent:
  assumes "mset rs = mset rs'"
  shows "manifest_new rs = manifest_new rs'
    \<and> (manifest_new rs = Inl DuplicatePath \<longleftrightarrow> \<not> distinct (map record_key rs))"
proof -
  have d: "distinct (map record_key rs) \<longleftrightarrow> distinct (map record_key rs')"
    using assms by (intro mset_eq_imp_distinct_iff) simp
  have e: "distinct (map record_key (sort_key record_key xs)) \<longleftrightarrow> distinct (map record_key xs)" for xs
    by (rule mset_eq_imp_distinct_iff) simp
  show ?thesis
    using d e mset_sort_key_eq [OF assms] by (auto simp: manifest_new_def Let_def)
qed

theorem manifest_order_independent_witness:
  "manifest_new [sample_file, sample_tombstone\<lparr>r_collection := ''d''\<rparr>]
     = manifest_new [sample_tombstone\<lparr>r_collection := ''d''\<rparr>, sample_file]"
  using manifest_order_independent [of "[sample_file, sample_tombstone\<lparr>r_collection := ''d''\<rparr>]"
      "[sample_tombstone\<lparr>r_collection := ''d''\<rparr>, sample_file]"] by simp

abbreviation record_field_bytes :: "Record \<Rightarrow> byte list" where
  "record_field_bytes r \<equiv> sized (record_canonical_bytes r)"

interpretation record_field: field_codec record_field_bytes decode_record_field
  "\<lambda>r. record_wf r \<and> length (record_canonical_bytes r) < 2 ^ 32"
proof
  fix c r c' assume "reads c (record_field_bytes r) c'"
    and "record_wf r \<and> length (record_canonical_bytes r) < 2 ^ 32"
  then show "decode_record_field c = Inr (r, c')"
    using sized_field.dec_enc [of c "record_canonical_bytes r" c']
    by (simp add: decode_record_field_def record_roundtrip)
next
  fix c r c' assume ok: "cur_ok c" and "decode_record_field c = Inr (r, c')"
  then obtain v where v: "dec_sized_bytes c = Inr (v, c')" "record_from_canonical v = Inr r"
    by (auto simp: decode_record_field_def bindE_eq_Inr)
  have s: "length v < 2 ^ 32" "reads c (sized v) c'"
    using sized_field.enc_dec [OF ok v(1)] by simp_all
  then have "length v < 2 ^ 64" by simp
  with v(2) have "record_wf r" "record_canonical_bytes r = v" by (simp_all add: record_decoded)
  with s show "(record_wf r \<and> length (record_canonical_bytes r) < 2 ^ 32)
      \<and> reads c (record_field_bytes r) c'" by simp
qed

lemma encode_records_ok:
  "(\<And>r. r \<in> set rs \<Longrightarrow> length (record_canonical_bytes r) < 2 ^ 32) \<Longrightarrow>
   encode_records rs e = Inr (e @ concat (map record_field_bytes rs))"
  by (induction rs arbitrary: e) simp_all

definition manifest_body :: "Manifest \<Rightarrow> byte list" where
  "manifest_body m = to_be_bytes (of_nat (length (m_records m)) :: u32)
     @ concat (map record_field_bytes (m_records m))"

lemma manifest_encode_ok:
  "manifest_ok m \<Longrightarrow> manifest_encode m = Inr (MANIFEST_DOMAIN @ manifest_body m)"
  by (simp add: manifest_ok_def manifest_encode_def u32_try_from_def encode_records_ok
      manifest_body_def encoder_defs)

lemma manifest_canonical_bytes_eq:
  "manifest_ok m \<Longrightarrow> manifest_canonical_bytes m = MANIFEST_DOMAIN @ manifest_body m"
  by (simp add: manifest_canonical_bytes_def manifest_encode_ok)

lemma manifest_roundtrip:
  assumes ok: "manifest_ok m" and len: "length (manifest_canonical_bytes m) < 2 ^ 64"
    and limit: "length (m_records m) \<le> max_records"
  shows "manifest_from_canonical_with_limit (manifest_canonical_bytes m) max_records = Inr m"
proof -
  let ?n = "length (m_records m)"
  have bs: "manifest_canonical_bytes m = MANIFEST_DOMAIN @ manifest_body m"
    using ok by (rule manifest_canonical_bytes_eq)
  with len have "length (MANIFEST_DOMAIN @ manifest_body m) < 2 ^ 64" by simp
  then obtain d d' where d: "decoder_new (MANIFEST_DOMAIN @ manifest_body m) MANIFEST_DOMAIN = Inr d"
      and body: "reads d (manifest_body m) d'" and fin: "dec_finish d' = Inr ()"
    using decode_whole by blast
  from body obtain d1 where d1: "reads d (to_be_bytes (of_nat ?n :: u32)) d1"
      "reads d1 (concat (map record_field_bytes (m_records m))) d'"
    by (auto simp: manifest_body_def reads_append)
  have n: "unat (of_nat ?n :: u32) = ?n" using ok by (simp add: manifest_ok_def unat_of_nat_u32)
  have many: "read_many decode_record_field ?n d1 = Inr (m_records m, d')"
    using ok d1(2) by (intro record_field.read_many_enc) (simp_all add: manifest_ok_def)
  have "manifest_new (m_records m) = Inr m"
    using ok by (simp add: manifest_ok_def manifest_new_sorted)
  then show ?thesis
    using d d1(1) fin many n limit bs
    by (simp add: manifest_from_canonical_with_limit_def u32_field.dec_enc)
qed

lemma manifest_decoded:
  assumes dec: "manifest_from_canonical_with_limit bs max_records = Inr m" and len: "length bs < 2 ^ 64"
  shows "manifest_ok m \<and> length (m_records m) \<le> max_records \<and> manifest_canonical_bytes m = bs"
proof -
  from dec obtain d n d1 rs d2 where d: "decoder_new bs MANIFEST_DOMAIN = Inr d"
      and n: "dec_u32 d = Inr (n, d1)" and limit: "unat n \<le> max_records"
      and rs: "read_many decode_record_field (unat n) d1 = Inr (rs, d2)"
      and new: "manifest_new rs = Inr m" and bytes: "manifest_canonical_bytes m = bs"
    by (auto simp: manifest_from_canonical_with_limit_def bindE_eq_Inr split: if_splits)
  have "reads d (to_be_bytes n) d1"
    using u32_field.enc_dec [OF decoder_new_ok [OF d len] n] by simp
  then have "length rs = unat n" "\<forall>r \<in> set rs. record_wf r \<and> length (record_canonical_bytes r) < 2 ^ 32"
    using record_field.read_many_dec [OF reads_cur_ok(2) rs] by blast+
  moreover have "unat n < 2 ^ 32" using unsigned_less [of n, where ?'a = nat] by simp
  moreover have "m = \<lparr>m_records = sort_key record_key rs\<rparr>" "distinct (map record_key rs)"
    using new by (simp_all add: manifest_new_Inr)
  moreover have "distinct (map record_key (sort_key record_key rs))"
    using new by (auto simp: manifest_new_def Let_def split: if_splits)
  ultimately show ?thesis using limit bytes by (simp add: manifest_ok_def)
qed

text \<open>
  A manifest's canonical bytes decode to that manifest under every record limit that admits it, and
  a byte string is accepted only if it is the canonical encoding of the manifest returned, with no more
  records than the limit: unsorted, duplicated or over-long manifests are all rejected.
\<close>

theorem manifest_encoding_bijective:
  assumes "length bs < 2 ^ 64"
  shows "manifest_from_canonical_with_limit bs max_records = Inr m
    \<longleftrightarrow> manifest_ok m \<and> length (m_records m) \<le> max_records \<and> manifest_encode m = Inr bs"
proof
  assume "manifest_from_canonical_with_limit bs max_records = Inr m"
  then show "manifest_ok m \<and> length (m_records m) \<le> max_records \<and> manifest_encode m = Inr bs"
    using manifest_decoded assms by (metis manifest_canonical_bytes_eq manifest_encode_ok)
next
  assume "manifest_ok m \<and> length (m_records m) \<le> max_records \<and> manifest_encode m = Inr bs"
  then show "manifest_from_canonical_with_limit bs max_records = Inr m"
    using manifest_roundtrip [of m max_records] assms by (simp add: manifest_canonical_bytes_def)
qed

theorem manifest_encoding_bijective_witness:
  "manifest_from_canonical_with_limit (manifest_canonical_bytes \<lparr>m_records = [sample_file]\<rparr>) 1
     = Inr \<lparr>m_records = [sample_file]\<rparr>"
proof -
  let ?m = "\<lparr>m_records = [sample_file]\<rparr>"
  have ok: "manifest_ok ?m" by (simp add: manifest_ok_def sample_file_wf sample_lengths)
  then have "length (manifest_canonical_bytes ?m) < 2 ^ 64"
    by (simp add: manifest_canonical_bytes_eq manifest_body_def MANIFEST_DOMAIN_def sample_lengths)
  then show ?thesis
    using manifest_encoding_bijective [of "manifest_canonical_bytes ?m" 1 ?m] ok
    by (simp add: manifest_canonical_bytes_eq manifest_encode_ok)
qed

end
