(* ===== verification/Roster.thy ===== *)
theory Roster
  imports Canonical Identity Ordered_Map
begin

text \<open>
  \<open>roster.rs\<close>: the signed, hash-linked roster revisions, their canonical encoding, the validation of a
  genesis and of a child revision, and the deterministic selection of one chain among competing revisions.
  Hashing and signatures are the parameter \<open>C :: crypto\<close>. A roster's members are an ordered map.
\<close>

type_synonym RosterHash = bytes32

definition ROSTER_DOMAIN :: "byte list" where
  "ROSTER_DOMAIN = as_bytes (''skillsync-roster-v1'' @ [CHR 0x00])"

record RosterMember =
  mem_endpoint_id :: EndpointId
  mem_device_name :: string

datatype RosterChange = Initialize RosterMember | Admit RosterMember | Remove EndpointId

record RosterRevision =
  rr_group_id :: GroupId
  rr_number :: u64
  rr_parent_hash :: "RosterHash option"
  rr_members :: "(EndpointId, string) omap"
  rr_change :: RosterChange
  rr_author :: EndpointId
  rr_signature :: bytes64

datatype RosterError =
    InvalidGenesis
  | WrongParent
  | AuthorNotActive
  | WrongMembers
  | InvalidChange
  | AlreadyActive
  | NotActive
  | InvalidDeviceName
  | MemberLimit
  | RevisionOverflow
  | InvalidSigner
  | InvalidSignature
  | Canonical CanonicalError

definition selection_priority :: "RosterChange \<Rightarrow> byte" where
  "selection_priority c = (case c of Remove _ \<Rightarrow> 1 | Admit _ \<Rightarrow> 0 | Initialize _ \<Rightarrow> 0)"

definition validate_device_name :: "string \<Rightarrow> RosterError + unit" where
  "validate_device_name name =
    (if trim_is_empty name then Inl InvalidDeviceName
     else bindE (ok_or InvalidDeviceName (u32_try_from (length name))) (\<lambda>_. Inr ()))"

definition roster_member_new :: "EndpointId \<Rightarrow> string \<Rightarrow> RosterError + RosterMember" where
  "roster_member_new e name =
    bindE (validate_device_name name) (\<lambda>_. Inr \<lparr>mem_endpoint_id = e, mem_device_name = name\<rparr>)"

section \<open>Encoding\<close>

definition encode_member :: "RosterMember \<Rightarrow> encoder \<Rightarrow> CanonicalError + encoder" where
  "encode_member m e =
    enc_string (mem_device_name m) (enc_fixed (to_be_bytes (mem_endpoint_id m)) e)"

definition encode_change :: "RosterChange \<Rightarrow> encoder \<Rightarrow> CanonicalError + encoder" where
  "encode_change c e = (case c of
      Initialize m \<Rightarrow> encode_member m (enc_u8 0 e)
    | Admit m \<Rightarrow> encode_member m (enc_u8 1 e)
    | Remove x \<Rightarrow> Inr (enc_fixed (to_be_bytes x) (enc_u8 2 e)))"

primrec encode_members :: "(EndpointId \<times> string) list \<Rightarrow> encoder \<Rightarrow> CanonicalError + encoder" where
  "encode_members [] e = Inr e"
| "encode_members (m # ms) e =
    bindE (enc_string (snd m) (enc_fixed (to_be_bytes (fst m)) e)) (encode_members ms)"

definition unsigned_encode :: "RosterRevision \<Rightarrow> CanonicalError + byte list" where
  "unsigned_encode r =
    (let e = enc_u64 (rr_number r) (enc_fixed (to_be_bytes (rr_group_id r)) (encoder_new ROSTER_DOMAIN));
         e = (case rr_parent_hash r of
                None \<Rightarrow> enc_u8 0 e
              | Some h \<Rightarrow> enc_fixed (to_be_bytes h) (enc_u8 1 e))
     in bindE (ok_or LengthOverflow (u32_try_from (length (rr_members r)))) (\<lambda>n.
        bindE (encode_members (rr_members r) (enc_u32 n e)) (\<lambda>e.
        bindE (encode_change (rr_change r) e) (\<lambda>e.
        Inr (enc_fixed (to_be_bytes (rr_author r)) e)))))"

definition unsigned_canonical_bytes :: "RosterRevision \<Rightarrow> byte list" where
  "unsigned_canonical_bytes r = expect (unsigned_encode r)"

definition roster_canonical_bytes :: "RosterRevision \<Rightarrow> byte list" where
  "roster_canonical_bytes r = unsigned_canonical_bytes r @ to_be_bytes (rr_signature r)"

definition roster_canonical_hash :: "crypto \<Rightarrow> RosterRevision \<Rightarrow> RosterHash" where
  "roster_canonical_hash C r = c_blake3 C (roster_canonical_bytes r)"

definition decode_member :: "cursor \<Rightarrow> RosterError + (RosterMember \<times> cursor)" where
  "decode_member d =
    bindE (mapErr Canonical (dec_fixed d)) (\<lambda>(x, d).
    bindE (mapErr Canonical (dec_string d)) (\<lambda>(name, d).
    bindE (roster_member_new x name) (\<lambda>m. Inr (m, d))))"

definition decode_change :: "cursor \<Rightarrow> RosterError + (RosterChange \<times> cursor)" where
  "decode_change d =
    bindE (mapErr Canonical (dec_u8 d)) (\<lambda>(tag, d).
      if tag = 0 then bindE (decode_member d) (\<lambda>(m, d). Inr (Initialize m, d))
      else if tag = 1 then bindE (decode_member d) (\<lambda>(m, d). Inr (Admit m, d))
      else if tag = 2 then bindE (mapErr Canonical (dec_fixed d)) (\<lambda>(x, d). Inr (Remove x, d))
      else Inl (Canonical UnknownTag))"

primrec decode_members ::
  "nat \<Rightarrow> EndpointId option \<Rightarrow> (EndpointId, string) omap \<Rightarrow> cursor
     \<Rightarrow> RosterError + ((EndpointId, string) omap \<times> cursor)" where
  "decode_members 0 previous members d = Inr (members, d)"
| "decode_members (Suc n) previous members d =
    bindE (mapErr Canonical (dec_fixed d)) (\<lambda>(x, d).
    if (case previous of None \<Rightarrow> False | Some p \<Rightarrow> p \<ge> x) then Inl (Canonical UnorderedKeys)
    else
      bindE (mapErr Canonical (dec_string d)) (\<lambda>(name, d).
      bindE (validate_device_name name) (\<lambda>_.
      decode_members n (Some x) (om_insert x name members) d)))"

definition decode_parent_hash :: "cursor \<Rightarrow> RosterError + (RosterHash option \<times> cursor)" where
  "decode_parent_hash d =
    bindE (mapErr Canonical (dec_u8 d)) (\<lambda>(tag, d).
      if tag = 0 then Inr (None, d)
      else if tag = 1 then bindE (mapErr Canonical (dec_fixed d)) (\<lambda>(h, d). Inr (Some h, d))
      else Inl (Canonical UnknownTag))"

definition roster_from_canonical_with_member_limit :: "byte list \<Rightarrow> nat \<Rightarrow> RosterError + RosterRevision" where
  "roster_from_canonical_with_member_limit bs max_members =
    bindE (mapErr Canonical (decoder_new bs ROSTER_DOMAIN)) (\<lambda>d.
    bindE (mapErr Canonical (dec_fixed d)) (\<lambda>(group_id, d).
    bindE (mapErr Canonical (dec_u64 d)) (\<lambda>(number, d).
    bindE (decode_parent_hash d) (\<lambda>(parent_hash, d).
    bindE (mapErr Canonical (dec_u32 d)) (\<lambda>(member_count, d).
    if unat member_count > max_members then Inl MemberLimit
    else
      bindE (decode_members (unat member_count) None [] d) (\<lambda>(members, d).
      bindE (decode_change d) (\<lambda>(change, d).
      bindE (mapErr Canonical (dec_fixed d)) (\<lambda>(author, d).
      bindE (mapErr Canonical (dec_fixed d)) (\<lambda>(signature, d).
      bindE (mapErr Canonical (dec_finish d)) (\<lambda>_.
      let revision = \<lparr>rr_group_id = group_id, rr_number = number, rr_parent_hash = parent_hash,
            rr_members = members, rr_change = change, rr_author = author, rr_signature = signature\<rparr>
      in if roster_canonical_bytes revision \<noteq> bs
         then Inl (Canonical (Invalid ''non-canonical roster revision''))
         else Inr revision))))))))))"

definition roster_from_canonical :: "byte list \<Rightarrow> RosterError + RosterRevision" where
  "roster_from_canonical bs = roster_from_canonical_with_member_limit bs (2 ^ 64 - 1)"

section \<open>Validation and construction\<close>

definition verify_signature :: "crypto \<Rightarrow> RosterRevision \<Rightarrow> EndpointId \<Rightarrow> RosterError + unit" where
  "verify_signature C r signer =
    (if \<not> ed_valid_key C signer then Inl InvalidSigner
     else if \<not> ed_verify_strict C signer (unsigned_canonical_bytes r) (rr_signature r)
     then Inl InvalidSignature else Inr ())"

definition apply_change ::
  "(EndpointId, string) omap \<Rightarrow> RosterChange \<Rightarrow> RosterError + (EndpointId, string) omap" where
  "apply_change members c = (case c of
      Initialize _ \<Rightarrow> Inl InvalidChange
    | Admit m \<Rightarrow>
        bindE (validate_device_name (mem_device_name m)) (\<lambda>_.
        if om_contains members (mem_endpoint_id m) then Inl AlreadyActive
        else Inr (om_insert (mem_endpoint_id m) (mem_device_name m) members))
    | Remove x \<Rightarrow>
        if om_get members x = None then Inl NotActive else Inr (om_remove x members))"

definition is_initialize :: "RosterChange \<Rightarrow> bool" where
  "is_initialize c = (case c of Initialize _ \<Rightarrow> True | _ \<Rightarrow> False)"

definition validate_genesis :: "crypto \<Rightarrow> RosterRevision \<Rightarrow> RosterError + unit" where
  "validate_genesis C r =
    (if rr_number r \<noteq> 0 \<or> rr_parent_hash r \<noteq> None then Inl InvalidGenesis
     else case rr_change r of
       Initialize creator \<Rightarrow>
         if rr_author r \<noteq> mem_endpoint_id creator \<or> length (rr_members r) \<noteq> 1
            \<or> om_get (rr_members r) (mem_endpoint_id creator) \<noteq> Some (mem_device_name creator)
         then Inl InvalidGenesis
         else verify_signature C r (rr_author r)
     | _ \<Rightarrow> Inl InvalidGenesis)"

definition validate_child :: "crypto \<Rightarrow> RosterRevision \<Rightarrow> RosterRevision \<Rightarrow> RosterError + unit" where
  "validate_child C r parent =
    (if rr_group_id r \<noteq> rr_group_id parent then Inl WrongParent
     else
       bindE (ok_or RevisionOverflow (u64_checked_add (rr_number parent) 1)) (\<lambda>next_number.
       if rr_number r \<noteq> next_number \<or> rr_parent_hash r \<noteq> Some (roster_canonical_hash C parent)
       then Inl WrongParent
       else if \<not> om_contains (rr_members parent) (rr_author r) then Inl AuthorNotActive
       else if is_initialize (rr_change r) then Inl InvalidChange
       else
         bindE (apply_change (rr_members parent) (rr_change r)) (\<lambda>expected_members.
         if expected_members \<noteq> rr_members r then Inl WrongMembers
         else verify_signature C r (rr_author r))))"

definition genesis :: "crypto \<Rightarrow> GroupId \<Rightarrow> string \<Rightarrow> DeviceIdentity \<Rightarrow> RosterError + RosterRevision" where
  "genesis C group_id creator_name creator =
    bindE (roster_member_new (endpoint_id creator) creator_name) (\<lambda>member.
    let revision = \<lparr>rr_group_id = group_id, rr_number = 0, rr_parent_hash = None,
          rr_members = [(mem_endpoint_id member, mem_device_name member)],
          rr_change = Initialize member, rr_author = endpoint_id creator, rr_signature = 0\<rparr>;
        revision = revision\<lparr>rr_signature := identity_sign C creator (unsigned_canonical_bytes revision)\<rparr>
    in bindE (validate_genesis C revision) (\<lambda>_. Inr revision))"

definition child ::
  "crypto \<Rightarrow> RosterRevision \<Rightarrow> RosterChange \<Rightarrow> DeviceIdentity \<Rightarrow> RosterError + RosterRevision" where
  "child C parent change author =
    (if \<not> om_contains (rr_members parent) (endpoint_id author) then Inl AuthorNotActive
     else if is_initialize change then Inl InvalidChange
     else
       bindE (apply_change (rr_members parent) change) (\<lambda>members.
       bindE (ok_or RevisionOverflow (u64_checked_add (rr_number parent) 1)) (\<lambda>number.
       let revision = \<lparr>rr_group_id = rr_group_id parent, rr_number = number,
             rr_parent_hash = Some (roster_canonical_hash C parent), rr_members = members,
             rr_change = change, rr_author = endpoint_id author, rr_signature = 0\<rparr>;
           revision = revision\<lparr>rr_signature := identity_sign C author (unsigned_canonical_bytes revision)\<rparr>
       in bindE (validate_child C revision parent) (\<lambda>_. Inr revision))))"

section \<open>Selection\<close>

text \<open>\<open>Iterator::max_by_key\<close>: among equal keys the last element is kept.\<close>

definition max_by_key :: "('a \<Rightarrow> 'k::linorder) \<Rightarrow> 'a list \<Rightarrow> 'a option" where
  "max_by_key key xs = fold (\<lambda>x best. case best of
      None \<Rightarrow> Some x
    | Some y \<Rightarrow> if key y \<le> key x then Some x else Some y) xs None"

definition selection_key :: "crypto \<Rightarrow> RosterRevision \<Rightarrow> byte \<times> RosterHash" where
  "selection_key C r = (selection_priority (rr_change r), roster_canonical_hash C r)"

definition select_child :: "crypto \<Rightarrow> RosterRevision \<Rightarrow> RosterRevision list \<Rightarrow> RosterRevision option" where
  "select_child C parent candidates =
    max_by_key (selection_key C) (filter (\<lambda>c. is_ok (validate_child C c parent)) candidates)"

lemma max_by_key_Nil [simp]: "max_by_key key [] = None"
  by (simp add: max_by_key_def)

lemma max_by_key_snoc:
  "max_by_key key (xs @ [x]) = (case max_by_key key xs of
      None \<Rightarrow> Some x | Some y \<Rightarrow> if key y \<le> key x then Some x else Some y)"
  by (simp add: max_by_key_def)

lemma max_by_key_single [simp]: "max_by_key key [x] = Some x"
  by (simp add: max_by_key_def)

lemma max_by_key_None [simp]: "max_by_key key xs = None \<longleftrightarrow> xs = []"
proof (cases xs rule: rev_cases)
  case (snoc ys y)
  then show ?thesis by (simp add: max_by_key_snoc split: option.splits)
qed simp

lemma max_by_key_SomeD:
  assumes "max_by_key key xs = Some m"
  shows "m \<in> set xs \<and> (\<forall>x \<in> set xs. key x \<le> key m)"
  using assms
proof (induction xs arbitrary: m rule: rev_induct)
  case Nil
  then show ?case by simp
next
  case (snoc x xs)
  show ?case
  proof (cases "max_by_key key xs")
    case None
    with snoc.prems show ?thesis by simp
  next
    case (Some y)
    with snoc.IH have y: "y \<in> set xs" "\<forall>z \<in> set xs. key z \<le> key y" by simp_all
    show ?thesis
    proof (cases "key y \<le> key x")
      case True
      with Some snoc.prems have "m = x" by (simp add: max_by_key_snoc)
      with True y show ?thesis by (auto intro: order_trans)
    next
      case False
      with Some snoc.prems have "m = y" by (simp add: max_by_key_snoc)
      with False y show ?thesis by auto
    qed
  qed
qed

lemma max_by_key_in: "max_by_key key xs = Some m \<Longrightarrow> m \<in> set xs"
  by (simp add: max_by_key_SomeD)

lemma max_by_key_ge: "max_by_key key xs = Some m \<Longrightarrow> x \<in> set xs \<Longrightarrow> key x \<le> key m"
  by (simp add: max_by_key_SomeD)

lemma max_by_key_cong_set:
  assumes eq: "set xs = set ys" and inj: "inj_on key (set xs)"
  shows "max_by_key key xs = max_by_key key ys"
proof (cases "max_by_key key xs")
  case None
  then have "xs = []" by simp
  with eq show ?thesis by simp
next
  case (Some m)
  then have m: "m \<in> set xs" by (rule max_by_key_in)
  with eq have "ys \<noteq> []" by auto
  then obtain n where n: "max_by_key key ys = Some n" by (cases "max_by_key key ys") auto
  have n_in: "n \<in> set xs" using max_by_key_in [OF n] eq by simp
  have "key n \<le> key m" using Some n_in by (rule max_by_key_ge)
  moreover have "key m \<le> key n" using n m eq by (intro max_by_key_ge [of key ys]) simp_all
  ultimately have "m = n" using inj m n_in by (simp add: inj_on_eq_iff)
  with Some n show ?thesis by simp
qed

lemma validate_child_number:
  assumes "validate_child C r parent = Inr u"
  shows "unat (rr_number r) = unat (rr_number parent) + 1 \<and> unat (rr_number parent) + 1 < 2 ^ 64"
proof -
  from assms have n: "u64_checked_add (rr_number parent) 1 = Some (rr_number r)"
    by (auto simp: validate_child_def bindE_eq_Inr simp del: One_nat_def split: if_splits)
  show ?thesis
    using u64_checked_add_unat [OF n] n by (simp add: u64_checked_add_Some)
qed

lemma select_child_Some:
  assumes "select_child C parent cs = Some c"
  shows "c \<in> set cs" "validate_child C c parent = Inr ()"
  using max_by_key_in [OF assms [unfolded select_child_def]] by (auto simp: is_ok_iff)

function select_chain_from :: "crypto \<Rightarrow> RosterRevision \<Rightarrow> RosterRevision list \<Rightarrow> RosterRevision list" where
  "select_chain_from C parent candidates =
    (case select_child C parent candidates of
       None \<Rightarrow> []
     | Some c \<Rightarrow> c # select_chain_from C c candidates)"
  by pat_completeness auto
termination
proof (relation "measure (\<lambda>(C, parent, cs). 2 ^ 64 - unat (rr_number parent))", goal_cases)
  case 1
  show ?case by simp
next
  case (2 C parent cs c)
  then have "validate_child C c parent = Inr ()" by (rule select_child_Some)
  then have "unat (rr_number c) = unat (rr_number parent) + 1" "unat (rr_number parent) + 1 < 2 ^ 64"
    using validate_child_number by blast+
  then show ?case by (simp only: in_measure case_prod_conv)
qed

declare select_chain_from.simps [simp del]

definition select_chain :: "crypto \<Rightarrow> RosterRevision \<Rightarrow> RosterRevision list \<Rightarrow> RosterError + RosterRevision list" where
  "select_chain C g candidates =
    bindE (validate_genesis C g) (\<lambda>_. Inr (select_chain_from C g candidates))"

end
