(* ===== verification/Roster_Encoding.thy ===== *)
theory Roster_Encoding
  imports Roster
begin

text \<open>
  The canonical encoding of roster revisions is a bijection between the revisions the program can build
  and the byte strings it accepts, so a signature and a hash each stand for one revision.
\<close>

definition name_ok :: "string \<Rightarrow> bool" where
  "name_ok n \<longleftrightarrow> is_str n \<and> validate_device_name n = Inr ()"

definition change_ok :: "RosterChange \<Rightarrow> bool" where
  "change_ok c = (case c of Initialize m \<Rightarrow> name_ok (mem_device_name m)
     | Admit m \<Rightarrow> name_ok (mem_device_name m) | Remove _ \<Rightarrow> True)"

definition members_ok :: "(EndpointId, string) omap \<Rightarrow> bool" where
  "members_ok ms \<longleftrightarrow> om_wf ms \<and> (\<forall>m \<in> set ms. name_ok (snd m))"

definition roster_wf :: "RosterRevision \<Rightarrow> bool" where
  "roster_wf r \<longleftrightarrow> members_ok (rr_members r) \<and> length (rr_members r) < 2 ^ 32 \<and> change_ok (rr_change r)"

lemma validate_device_name_Inr:
  "validate_device_name n = Inr u \<longleftrightarrow> \<not> trim_is_empty n \<and> length n < 2 ^ 32"
  by (auto simp: validate_device_name_def bindE_eq_Inr u32_try_from_Some)

lemma name_ok_string_ok: "name_ok n \<Longrightarrow> string_ok n"
  by (simp add: name_ok_def validate_device_name_Inr)

definition member_bytes :: "EndpointId \<times> string \<Rightarrow> byte list" where
  "member_bytes m = to_be_bytes (fst m) @ sized (as_bytes (snd m))"

definition change_bytes :: "RosterChange \<Rightarrow> byte list" where
  "change_bytes c = (case c of
      Initialize m \<Rightarrow> [0] @ member_bytes (mem_endpoint_id m, mem_device_name m)
    | Admit m \<Rightarrow> [1] @ member_bytes (mem_endpoint_id m, mem_device_name m)
    | Remove x \<Rightarrow> [2] @ to_be_bytes x)"

definition parent_bytes :: "RosterHash option \<Rightarrow> byte list" where
  "parent_bytes p = (case p of None \<Rightarrow> [0] | Some h \<Rightarrow> [1] @ to_be_bytes h)"

definition unsigned_body :: "RosterRevision \<Rightarrow> byte list" where
  "unsigned_body r = to_be_bytes (rr_group_id r) @ to_be_bytes (rr_number r)
     @ parent_bytes (rr_parent_hash r) @ to_be_bytes (of_nat (length (rr_members r)) :: u32)
     @ concat (map member_bytes (rr_members r)) @ change_bytes (rr_change r) @ to_be_bytes (rr_author r)"

lemma encode_members_ok:
  "(\<And>m. m \<in> set ms \<Longrightarrow> name_ok (snd m)) \<Longrightarrow>
   encode_members ms e = Inr (e @ concat (map member_bytes ms))"
proof (induction ms arbitrary: e)
  case Nil
  then show ?case by simp
next
  case (Cons m ms)
  have "length (snd m) < 2 ^ 32" using Cons.prems name_ok_string_ok by simp
  with Cons show ?case by (simp add: enc_fixed_def member_bytes_def)
qed

lemma encode_change_ok: "change_ok c \<Longrightarrow> encode_change c e = Inr (e @ change_bytes c)"
  by (auto simp: change_ok_def encode_change_def encode_member_def change_bytes_def member_bytes_def
      enc_fixed_def enc_u8_def dest!: name_ok_string_ok split: RosterChange.splits)

lemma unsigned_encode_ok:
  "roster_wf r \<Longrightarrow> unsigned_encode r = Inr (ROSTER_DOMAIN @ unsigned_body r)"
  by (auto simp: roster_wf_def members_ok_def unsigned_encode_def u32_try_from_def encode_members_ok
      encode_change_ok encoder_defs unsigned_body_def parent_bytes_def split: option.splits)

lemma unsigned_canonical_bytes_eq:
  "roster_wf r \<Longrightarrow> unsigned_canonical_bytes r = ROSTER_DOMAIN @ unsigned_body r"
  by (simp add: unsigned_canonical_bytes_def unsigned_encode_ok)

lemma unsigned_bytes_signature [simp]:
  "unsigned_canonical_bytes (r\<lparr>rr_signature := x\<rparr>) = unsigned_canonical_bytes r"
  by (simp add: unsigned_canonical_bytes_def unsigned_encode_def)

interpretation parent_field: field_codec parent_bytes decode_parent_hash "\<lambda>_. True"
proof
  fix c p c' assume r: "reads c (parent_bytes p) c'"
  show "decode_parent_hash c = Inr (p, c')"
  proof (cases p)
    case None
    with r show ?thesis by (simp add: parent_bytes_def decode_parent_hash_def field_enc)
  next
    case (Some h)
    with r have "reads c ([1] @ to_be_bytes h) c'" by (simp add: parent_bytes_def)
    then obtain c1 where "reads c [1] c1" "reads c1 (to_be_bytes h) c'"
      unfolding reads_append by blast
    with Some show ?thesis by (simp add: decode_parent_hash_def field_enc)
  qed
next
  fix c p c' assume ok: "cur_ok c" and "decode_parent_hash c = Inr (p, c')"
  then obtain tag c1 where tag: "dec_u8 c = Inr (tag, c1)" and
      p: "tag = 0 \<and> p = None \<and> c' = c1 \<or> tag = 1 \<and> (\<exists>h. dec_fixed c1 = Inr (h, c') \<and> p = Some h)"
    by (auto simp: decode_parent_hash_def bindE_eq_Inr split: if_splits)
  have r: "reads c [tag] c1" using u8_field.enc_dec [OF ok tag] by simp
  from p show "True \<and> reads c (parent_bytes p) c'"
  proof
    assume "tag = 1 \<and> (\<exists>h. dec_fixed c1 = Inr (h, c') \<and> p = Some h)"
    then obtain h where h: "tag = 1" "dec_fixed c1 = Inr (h, c')" "p = Some h" by blast
    have "reads c1 (to_be_bytes h) c'"
      using fixed32_field.enc_dec [OF reads_cur_ok(2) [OF r] h(2)] by simp
    with r h show ?thesis using reads_trans [of c "[tag]"] by (simp add: parent_bytes_def)
  qed (use r in \<open>simp add: parent_bytes_def\<close>)
qed

interpretation member_field: field_codec
  "\<lambda>m :: RosterMember. member_bytes (mem_endpoint_id m, mem_device_name m)" decode_member
  "\<lambda>m. name_ok (mem_device_name m)"
proof
  fix c c' and m :: RosterMember assume "reads c (member_bytes (mem_endpoint_id m, mem_device_name m)) c'"
    and ok: "name_ok (mem_device_name m)"
  then obtain c1 where "reads c (to_be_bytes (mem_endpoint_id m)) c1"
      "reads c1 (sized (as_bytes (mem_device_name m))) c'"
    by (auto simp: member_bytes_def reads_append)
  then have "dec_fixed c = Inr (mem_endpoint_id m, c1)" "dec_string c1 = Inr (mem_device_name m, c')"
    using name_ok_string_ok [OF ok] by (simp_all add: field_enc)
  with ok show "decode_member c = Inr (m, c')"
    by (simp add: decode_member_def roster_member_new_def name_ok_def)
next
  fix c m c' assume ok: "cur_ok c" and "decode_member c = Inr (m, c')"
  then obtain x c1 name where x: "dec_fixed c = Inr (x, c1)" and n: "dec_string c1 = Inr (name, c')"
      and v: "validate_device_name name = Inr ()"
      and m: "m = \<lparr>mem_endpoint_id = x, mem_device_name = name\<rparr>"
    by (auto simp: decode_member_def roster_member_new_def bindE_eq_Inr)
  have r: "reads c (to_be_bytes x) c1" using fixed32_field.enc_dec [OF ok x] by simp
  have "is_str name" "reads c1 (sized (as_bytes name)) c'"
    using string_field.enc_dec [OF reads_cur_ok(2) [OF r] n] by simp_all
  with r v m show "name_ok (mem_device_name m)
      \<and> reads c (member_bytes (mem_endpoint_id m, mem_device_name m)) c'"
    by (auto simp: member_bytes_def name_ok_def intro: reads_trans)
qed

interpretation change_field: field_codec change_bytes decode_change change_ok
proof
  fix c k c' assume r: "reads c (change_bytes k) c'" and ok: "change_ok k"
  obtain tag body where tb: "change_bytes k = [tag] @ body" by (cases k) (auto simp: change_bytes_def)
  with r obtain c1 where c1: "reads c [tag] c1" "reads c1 body c'"
    unfolding tb reads_append by blast
  show "decode_change c = Inr (k, c')"
    using tb c1 ok
    by (cases k) (auto simp: change_bytes_def change_ok_def decode_change_def field_enc
        member_field.dec_enc)
next
  fix c k c' assume ok: "cur_ok c" and "decode_change c = Inr (k, c')"
  then obtain tag c1 where tag: "dec_u8 c = Inr (tag, c1)" and
      k: "(tag = 0 \<and> (\<exists>m. decode_member c1 = Inr (m, c') \<and> k = Initialize m))
        \<or> (tag = 1 \<and> (\<exists>m. decode_member c1 = Inr (m, c') \<and> k = Admit m))
        \<or> (tag = 2 \<and> (\<exists>x. dec_fixed c1 = Inr (x, c') \<and> k = Remove x))"
    by (auto simp: decode_change_def bindE_eq_Inr split: if_splits)
  have r: "reads c [tag] c1" using u8_field.enc_dec [OF ok tag] by simp
  note ok1 = reads_cur_ok(2) [OF r]
  from k show "change_ok k \<and> reads c (change_bytes k) c'"
    using r member_field.enc_dec [OF ok1] fixed32_field.enc_dec [OF ok1] reads_trans [OF r, of _ c']
    by (auto simp: change_ok_def change_bytes_def)
qed

text \<open>Members arrive in strictly increasing order, so inserting one appends it.\<close>

lemma om_insert_append: "(\<And>k. k \<in> fst ` set m \<Longrightarrow> k < x) \<Longrightarrow> om_insert x v m = m @ [(x, v)]"
proof (induction m)
  case Nil
  then show ?case by simp
next
  case (Cons a m)
  have "fst a < x" using Cons.prems by simp
  moreover have "om_insert x v m = m @ [(x, v)]" using Cons by simp
  ultimately show ?case by (cases a) auto
qed

definition prev_ok :: "EndpointId option \<Rightarrow> (EndpointId, string) omap \<Rightarrow> bool" where
  "prev_ok prev acc \<longleftrightarrow> om_wf acc \<and> (case prev of None \<Rightarrow> acc = []
     | Some p \<Rightarrow> p \<in> fst ` set acc \<and> (\<forall>k \<in> fst ` set acc. k \<le> p))"

lemma prev_ok_less:
  assumes "prev_ok prev acc"
  shows "(case prev of None \<Rightarrow> False | Some p \<Rightarrow> p \<ge> x) \<longleftrightarrow> \<not> (\<forall>k \<in> fst ` set acc. k < x)"
  using assms by (cases prev) (auto simp: prev_ok_def not_less intro: order_trans dest: bspec)

lemma om_wf_snoc: "om_wf (m @ [(x, v)]) \<longleftrightarrow> om_wf m \<and> (\<forall>k \<in> fst ` set m. k < x)"
  by (auto simp: om_wf_def sorted_wrt_append)

lemma prev_ok_snoc:
  "prev_ok prev acc \<Longrightarrow> \<forall>k \<in> fst ` set acc. k < x \<Longrightarrow> prev_ok (Some x) (acc @ [(x, v)])"
  by (auto simp: prev_ok_def om_wf_snoc order_less_imp_le)

lemma decode_members_enc:
  "prev_ok prev acc \<Longrightarrow> om_wf (acc @ ms) \<Longrightarrow> (\<And>m. m \<in> set ms \<Longrightarrow> name_ok (snd m)) \<Longrightarrow>
   reads c (concat (map member_bytes ms)) c' \<Longrightarrow>
   decode_members (length ms) prev acc c = Inr (acc @ ms, c')"
proof (induction ms arbitrary: prev acc c)
  case Nil
  then show ?case by simp
next
  case (Cons m ms)
  obtain x v where m: "m = (x, v)" by (cases m)
  from Cons.prems(4) m obtain c1 c2 where r: "reads c (to_be_bytes x) c1"
      "reads c1 (sized (as_bytes v)) c2" "reads c2 (concat (map member_bytes ms)) c'"
    by (auto simp: member_bytes_def [of "(x, v)"] reads_append)
  have nm: "name_ok v" using Cons.prems(3) m by force
  then have d: "dec_fixed c = Inr (x, c1)" "dec_string c1 = Inr (v, c2)" "validate_device_name v = Inr ()"
    using r name_ok_string_ok [OF nm] by (simp_all add: field_enc name_ok_def)
  have less: "\<forall>k \<in> fst ` set acc. k < x"
    using Cons.prems(2) m by (auto simp: om_wf_def sorted_wrt_append)
  have "decode_members (length ms) (Some x) (acc @ [(x, v)]) c2 = Inr ((acc @ [(x, v)]) @ ms, c')"
    using Cons.prems less r(3) m
    by (intro Cons.IH) (simp_all add: prev_ok_snoc)
  moreover have "om_insert x v acc = acc @ [(x, v)]" using less by (intro om_insert_append) blast
  moreover have "\<not> (case prev of None \<Rightarrow> False | Some p \<Rightarrow> p \<ge> x)"
    using prev_ok_less [OF Cons.prems(1), of x] less by simp
  ultimately show ?case using d m by simp
qed

lemma decode_members_dec:
  "prev_ok prev acc \<Longrightarrow> cur_ok c \<Longrightarrow> decode_members n prev acc c = Inr (out, c') \<Longrightarrow>
   \<exists>ms. out = acc @ ms \<and> length ms = n \<and> om_wf out \<and> (\<forall>m \<in> set ms. name_ok (snd m))
      \<and> reads c (concat (map member_bytes ms)) c'"
proof (induction n arbitrary: prev acc c)
  case 0
  then show ?case by (auto simp: prev_ok_def)
next
  case (Suc n)
  let ?bad = "\<lambda>x. case prev of None \<Rightarrow> False | Some p \<Rightarrow> p \<ge> x"
  from Suc.prems(3) obtain x c1 v c2 where x: "dec_fixed c = Inr (x, c1)" and o: "\<not> ?bad x"
      and v: "dec_string c1 = Inr (v, c2)" and nm: "validate_device_name v = Inr ()"
      and rec: "decode_members n (Some x) (om_insert x v acc) c2 = Inr (out, c')"
    by (auto simp: bindE_eq_Inr split: if_splits)
  have r1: "reads c (to_be_bytes x) c1" using fixed32_field.enc_dec [OF Suc.prems(2) x] by simp
  have r2: "is_str v" "reads c1 (sized (as_bytes v)) c2"
    using string_field.enc_dec [OF reads_cur_ok(2) [OF r1] v] by simp_all
  have less: "\<forall>k \<in> fst ` set acc. k < x" using prev_ok_less [OF Suc.prems(1), of x] o by simp
  then have ins: "om_insert x v acc = acc @ [(x, v)]" by (intro om_insert_append) blast
  obtain ms where ms: "out = (acc @ [(x, v)]) @ ms" "length ms = n" "om_wf out"
      "\<forall>m \<in> set ms. name_ok (snd m)" "reads c2 (concat (map member_bytes ms)) c'"
    using Suc.IH [OF prev_ok_snoc [OF Suc.prems(1) less] reads_cur_ok(2) [OF r2(2)] rec [unfolded ins]]
    by blast
  have "reads c (concat (map member_bytes ((x, v) # ms))) c'"
    using reads_trans [OF reads_trans [OF r1 r2(2)] ms(5)] by (simp add: member_bytes_def)
  with ms nm r2(1) show ?case
    by (intro exI [of _ "(x, v) # ms"]) (auto simp: name_ok_def)
qed

lemma roster_canonical_bytes_eq:
  "roster_wf r \<Longrightarrow>
   roster_canonical_bytes r = ROSTER_DOMAIN @ unsigned_body r @ to_be_bytes (rr_signature r)"
  by (simp add: roster_canonical_bytes_def unsigned_canonical_bytes_eq)

lemma roster_revision_self:
  "\<lparr>rr_group_id = rr_group_id r, rr_number = rr_number r, rr_parent_hash = rr_parent_hash r,
    rr_members = rr_members r, rr_change = rr_change r, rr_author = rr_author r,
    rr_signature = rr_signature r\<rparr> = (r :: RosterRevision)"
  by simp

lemma roster_roundtrip:
  assumes wf: "roster_wf r" and len: "length (roster_canonical_bytes r) < 2 ^ 64"
    and limit: "length (rr_members r) \<le> max_members"
  shows "roster_from_canonical_with_member_limit (roster_canonical_bytes r) max_members = Inr r"
proof -
  let ?body = "unsigned_body r @ to_be_bytes (rr_signature r)"
  have bs: "roster_canonical_bytes r = ROSTER_DOMAIN @ ?body"
    using wf by (rule roster_canonical_bytes_eq)
  with len obtain d d' where d: "decoder_new (ROSTER_DOMAIN @ ?body) ROSTER_DOMAIN = Inr d"
      and body: "reads d ?body d'" and fin: "dec_finish d' = Inr ()"
    using decode_whole [of ROSTER_DOMAIN ?body] by auto
  from body obtain d1 d2 d3 d4 d5 d6 d7 where
      r: "reads d (to_be_bytes (rr_group_id r)) d1" "reads d1 (to_be_bytes (rr_number r)) d2"
        "reads d2 (parent_bytes (rr_parent_hash r)) d3"
        "reads d3 (to_be_bytes (of_nat (length (rr_members r)) :: u32)) d4"
        "reads d4 (concat (map member_bytes (rr_members r))) d5"
        "reads d5 (change_bytes (rr_change r)) d6" "reads d6 (to_be_bytes (rr_author r)) d7"
        "reads d7 (to_be_bytes (rr_signature r)) d'"
    unfolding unsigned_body_def reads_append by blast
  have n: "unat (of_nat (length (rr_members r)) :: u32) = length (rr_members r)"
    using wf by (simp add: roster_wf_def unat_of_nat_u32)
  have "decode_members (length (rr_members r)) None [] d4 = Inr ([] @ rr_members r, d5)"
    using wf r(5) by (intro decode_members_enc) (simp_all add: prev_ok_def roster_wf_def members_ok_def)
  moreover have "decode_change d5 = Inr (rr_change r, d6)"
    using wf r(6) by (intro change_field.dec_enc) (simp_all add: roster_wf_def)
  moreover have "dec_fixed d = Inr (rr_group_id r, d1)" "dec_u64 d1 = Inr (rr_number r, d2)"
      "decode_parent_hash d2 = Inr (rr_parent_hash r, d3)"
      "dec_u32 d3 = Inr (of_nat (length (rr_members r)), d4)"
      "dec_fixed d6 = Inr (rr_author r, d7)" "dec_fixed d7 = Inr (rr_signature r, d')"
    using r by (simp_all add: field_enc parent_field.dec_enc)
  ultimately show ?thesis
    using d fin n limit bs
    by (simp add: roster_from_canonical_with_member_limit_def Let_def roster_revision_self
        del: RosterRevision.surjective)
qed

lemma roster_decoded:
  assumes dec: "roster_from_canonical_with_member_limit bs max_members = Inr r" and len: "length bs < 2 ^ 64"
  shows "roster_wf r \<and> length (rr_members r) \<le> max_members \<and> roster_canonical_bytes r = bs"
proof -
  from dec obtain d g d1 n d2 p d3 k d4 ms d5 ch d6 a d7 sg d8 where
      d: "decoder_new bs ROSTER_DOMAIN = Inr d" and g: "dec_fixed d = Inr (g, d1)" and
      n: "dec_u64 d1 = Inr (n, d2)" and p: "decode_parent_hash d2 = Inr (p, d3)" and
      k: "dec_u32 d3 = Inr (k, d4)" and lim: "unat k \<le> max_members" and
      ms: "decode_members (unat k) None [] d4 = Inr (ms, d5)" and
      ch: "decode_change d5 = Inr (ch, d6)" and
      r: "r = \<lparr>rr_group_id = g, rr_number = n, rr_parent_hash = p, rr_members = ms, rr_change = ch,
            rr_author = a, rr_signature = sg\<rparr>" and bytes: "roster_canonical_bytes r = bs"
    by (auto simp: roster_from_canonical_with_member_limit_def bindE_eq_Inr Let_def split: if_splits)
  have ok1: "cur_ok d1"
    using fixed32_field.enc_dec [OF decoder_new_ok [OF d len] g] by (blast dest: reads_cur_ok)
  have ok2: "cur_ok d2" using u64_field.enc_dec [OF ok1 n] by (blast dest: reads_cur_ok)
  have ok3: "cur_ok d3" using parent_field.enc_dec [OF ok2 p] by (blast dest: reads_cur_ok)
  have ok4: "cur_ok d4" using u32_field.enc_dec [OF ok3 k] by (blast dest: reads_cur_ok)
  obtain xs where xs: "ms = [] @ xs" "length xs = unat k" "om_wf ms" "\<forall>m \<in> set xs. name_ok (snd m)"
      "reads d4 (concat (map member_bytes xs)) d5"
    using decode_members_dec [OF _ ok4 ms] by (auto simp: prev_ok_def)
  have "change_ok ch"
    using change_field.enc_dec [OF reads_cur_ok(2) [OF xs(5)] ch] by simp
  moreover have "unat k < 2 ^ 32" using unsigned_less [of k, where ?'a = nat] by simp
  ultimately show ?thesis
    using xs lim bytes by (simp add: r roster_wf_def members_ok_def)
qed

text \<open>
  C36. The canonical encoding of a roster revision is lossless and unambiguous: a byte string is accepted,
  under a member limit, exactly when it is the encoding of the revision returned and that revision is
  well-formed and within the limit. A signature over the encoding therefore covers one revision, and a
  non-canonical re-encoding (unordered members, trailing bytes, other tags) is refused.
\<close>

theorem roster_encoding_bijective:
  assumes "length bs < 2 ^ 64"
  shows "roster_from_canonical_with_member_limit bs max_members = Inr r
    \<longleftrightarrow> roster_wf r \<and> length (rr_members r) \<le> max_members \<and> roster_canonical_bytes r = bs"
  using roster_decoded [OF _ assms] roster_roundtrip [of r max_members] assms by auto

definition sample_crypto :: crypto where
  "sample_crypto = \<lparr>c_blake3 = (\<lambda>bs. of_nat (length bs)), ed_public = (\<lambda>sk. sk),
     ed_sign = (\<lambda>sk msg. ucast sk), ed_valid_key = (\<lambda>pk. True),
     ed_verify_strict = (\<lambda>pk msg sig. sig = ucast pk)\<rparr>"

definition sample_identity :: DeviceIdentity where
  "sample_identity = identity_from_secret sample_crypto 5"

definition sample_genesis :: RosterRevision where
  "sample_genesis = \<lparr>rr_group_id = 9, rr_number = 0, rr_parent_hash = None, rr_members = [(5, ''a'')],
     rr_change = Initialize \<lparr>mem_endpoint_id = 5, mem_device_name = ''a''\<rparr>, rr_author = 5, rr_signature = 5\<rparr>"

lemma sample_sig_correct: "sig_correct sample_crypto"
  by (simp add: sig_correct_def sample_crypto_def)

lemma name_ok_a: "name_ok ''a''"
proof -
  have "is_str ''a''" by (rule is_str_ascii) simp
  moreover have "\<not> trim_is_empty ''a''" by code_simp
  ultimately show ?thesis by (simp add: name_ok_def validate_device_name_Inr)
qed

lemma sample_genesis_wf: "roster_wf sample_genesis"
  by (simp add: roster_wf_def members_ok_def sample_genesis_def name_ok_a change_ok_def)

lemma sample_genesis_length: "length (roster_canonical_bytes sample_genesis) < 2 ^ 64"
  by (simp add: roster_canonical_bytes_eq sample_genesis_wf unsigned_body_def ROSTER_DOMAIN_def)
     (simp add: sample_genesis_def parent_bytes_def member_bytes_def change_bytes_def)

theorem roster_encoding_bijective_witness:
  "roster_from_canonical_with_member_limit (roster_canonical_bytes sample_genesis) 1024 = Inr sample_genesis"
  using roster_encoding_bijective [OF sample_genesis_length, of 1024 sample_genesis] sample_genesis_wf
  by (simp add: sample_genesis_def)

end
