(* ===== verification/Sql_Table.thy ===== *)
theory Sql_Table
  imports Ordered_Map
begin

text \<open>
  The SQL statements the state store issues, on tables with a primary key. A table is an ordered map from
  the key columns to the remaining columns. \<open>check\<close> is the conjunction of the table's \<open>CHECK\<close> and foreign
  key constraints for one row; a statement that would break one of them, or the primary key, fails as a
  whole and leaves the table as it was. Constraint failures are the only engine errors that occur in
  the model: a busy or failing disk is outside it.
\<close>

datatype SqliteError = ConstraintViolation | DatabaseFull | SchemaError

definition sql_insert ::
  "('k::linorder \<Rightarrow> 'v \<Rightarrow> bool) \<Rightarrow> 'k \<Rightarrow> 'v \<Rightarrow> ('k, 'v) omap \<Rightarrow> SqliteError + ('k, 'v) omap" where
  "sql_insert check k v t =
    (if check k v \<and> \<not> om_contains t k then Inr (om_insert k v t) else Inl ConstraintViolation)"

definition sql_upsert ::
  "('k::linorder \<Rightarrow> 'v \<Rightarrow> bool) \<Rightarrow> 'k \<Rightarrow> 'v \<Rightarrow> ('k, 'v) omap \<Rightarrow> SqliteError + ('k, 'v) omap" where
  "sql_upsert check k v t = (if check k v then Inr (om_insert k v t) else Inl ConstraintViolation)"

definition sql_update ::
  "('k \<Rightarrow> 'v \<Rightarrow> bool) \<Rightarrow> ('k \<Rightarrow> 'v \<Rightarrow> bool) \<Rightarrow> ('v \<Rightarrow> 'v) \<Rightarrow> ('k, 'v) omap
     \<Rightarrow> SqliteError + (nat \<times> ('k, 'v) omap)" where
  "sql_update check P f t =
    (if \<forall>(k, v) \<in> set t. P k v \<longrightarrow> check k (f v)
     then Inr (length (filter (\<lambda>(k, v). P k v) t), om_update_where P f t)
     else Inl ConstraintViolation)"

definition sql_delete :: "('k \<Rightarrow> bool) \<Rightarrow> ('k, 'v) omap \<Rightarrow> nat \<times> ('k, 'v) omap" where
  "sql_delete P t = (length (filter (\<lambda>(k, v). P k) t), filter (\<lambda>(k, v). \<not> P k) t)"

text \<open>The rows of a table satisfy a predicate, and the keys are unique and in order.\<close>

definition rows_ok :: "('k::linorder \<Rightarrow> 'v \<Rightarrow> bool) \<Rightarrow> ('k, 'v) omap \<Rightarrow> bool" where
  "rows_ok R t \<longleftrightarrow> om_wf t \<and> (\<forall>k v. om_get t k = Some v \<longrightarrow> R k v)"

lemma rows_ok_Nil [simp]: "rows_ok R []"
  by (simp add: rows_ok_def)

lemma rows_ok_wf: "rows_ok R t \<Longrightarrow> om_wf t"
  by (simp add: rows_ok_def)

lemma rows_okD: "rows_ok R t \<Longrightarrow> om_get t k = Some v \<Longrightarrow> R k v"
  by (simp add: rows_ok_def)

lemma rows_ok_in_set: "rows_ok R t \<Longrightarrow> (k, v) \<in> set t \<Longrightarrow> R k v"
  by (simp add: rows_ok_def om_get_Some_iff)

lemma rows_ok_mono:
  "rows_ok R t \<Longrightarrow> (\<And>k v. R k v \<Longrightarrow> S k v) \<Longrightarrow> rows_ok S t"
  by (auto simp: rows_ok_def)

lemma rows_ok_om_insert: "rows_ok R t \<Longrightarrow> R k v \<Longrightarrow> rows_ok R (om_insert k v t)"
  by (auto simp: rows_ok_def om_wf_insert om_get_insert)

lemma rows_ok_update_where:
  assumes "rows_ok R t" and "\<And>k v. R k v \<Longrightarrow> P k v \<Longrightarrow> R k (f v)"
  shows "rows_ok R (om_update_where P f t)"
  using assms by (auto simp: rows_ok_def)

lemma om_wf_filter: "om_wf t \<Longrightarrow> om_wf (filter (\<lambda>(k, v). P k) t)"
  by (induction t) auto

lemma om_get_filter: "om_get (filter (\<lambda>(k, v). P k) t) k = (if P k then om_get t k else None)"
  by (induction t) auto

lemma rows_ok_filter: "rows_ok R t \<Longrightarrow> rows_ok R (filter (\<lambda>(k, v). P k) t)"
  by (auto simp: rows_ok_def om_wf_filter om_get_filter split: if_splits)

lemma sql_insert_eq_Inr:
  "sql_insert check k v t = Inr t' \<longleftrightarrow> check k v \<and> om_get t k = None \<and> t' = om_insert k v t"
  by (auto simp: sql_insert_def om_contains_def)

lemma sql_upsert_eq_Inr: "sql_upsert check k v t = Inr t' \<longleftrightarrow> check k v \<and> t' = om_insert k v t"
  by (auto simp: sql_upsert_def)

lemma sql_update_eq_Inr:
  "sql_update check P f t = Inr (n, t') \<longleftrightarrow>
     (\<forall>(k, v) \<in> set t. P k v \<longrightarrow> check k (f v))
     \<and> n = length (filter (\<lambda>(k, v). P k v) t) \<and> t' = om_update_where P f t"
  by (auto simp: sql_update_def)

lemma sql_update_succeeds:
  assumes "rows_ok R t" and "\<And>k v. R k v \<Longrightarrow> P k v \<Longrightarrow> check k (f v)"
  shows "sql_update check P f t = Inr (length (filter (\<lambda>(k, v). P k v) t), om_update_where P f t)"
  using assms by (auto simp: sql_update_def dest: rows_ok_in_set)

text \<open>An update restricted to one primary key touches one row or none.\<close>

lemma filter_key_length:
  assumes "om_wf t"
  shows "length (filter (\<lambda>(k', v). k' = k \<and> Q v) t)
    = (case om_get t k of None \<Rightarrow> 0 | Some v \<Rightarrow> if Q v then 1 else 0)"
  using assms
proof (induction t)
  case Nil
  then show ?case by simp
next
  case (Cons kv t)
  obtain k' v where kv: "kv = (k', v)" by (cases kv)
  show ?case
  proof (cases "k' = k")
    case True
    with Cons.prems kv have "om_get t k = None" by (force simp: om_get_None_iff)
    with Cons True kv show ?thesis by simp
  next
    case False
    with Cons kv show ?thesis by simp
  qed
qed

lemmas sql_eq_Inr = sql_insert_eq_Inr sql_upsert_eq_Inr sql_update_eq_Inr

end
