(* ===== verification/State_Store.thy ===== *)
theory State_Store
  imports Records Roster_Encoding Sql_Table
begin

text \<open>
  \<open>state.rs\<close>: the SQLite state of a device. The connection is the record \<open>StateStore\<close> of its pragmas, its
  schema and its six tables with the columns of the source; every SQL statement of the source is a call of a
  statement of \<open>Sql_Table\<close> under the \<open>CHECK\<close>, \<open>UNIQUE\<close> and foreign key constraints of the schema. A method
  that opens a transaction is a \<open>transactionS\<close>. This theory holds the store, its schema, collections, peers
  and the operational log; \<open>State_Roster\<close> and \<open>State_Records\<close> hold the roster and record operations.
  The JSON text of an event (crate \<open>serde_json\<close>) is the parameter \<open>J :: json\<close>.
\<close>

type_synonym os_path = "byte list"

definition SCHEMA_VERSION :: int where
  "SCHEMA_VERSION = 1"

definition MAX_PEER_HINT_BYTES :: nat where
  "MAX_PEER_HINT_BYTES = 16 * 1024"

definition MAX_ROSTER_RETRY_DEPTH :: nat where
  "MAX_ROSTER_RETRY_DEPTH = 1024"

definition MAX_OPERATIONAL_EVENT_BYTES :: nat where
  "MAX_OPERATIONAL_EVENT_BYTES = 16 * 1024"

definition SCHEMA_APPLICATION_ID :: int where
  "SCHEMA_APPLICATION_ID = 1397445465"

definition SCHEMA_TABLES :: "(string \<times> string list) list" where
  "SCHEMA_TABLES =
    [(''collections'', [''name'', ''local_path'', ''resolved_root'', ''scan_status'', ''watch_status'']),
     (''operational_logs'', [''id'', ''created_ns'', ''payload'']),
     (''path_records'', [''collection'', ''path'', ''record_hash'', ''kind'', ''canonical'', ''materialized'',
        ''materialized_modified_ns'', ''materialized_size'', ''materialized_hash'']),
     (''peer_health'', [''endpoint_id'', ''reachable'']),
     (''peer_hints'', [''endpoint_id'', ''hint'']),
     (''roster_revisions'', [''hash'', ''canonical''])]"

datatype StateError =
    Io
  | Sqlite SqliteError
  | UnsupportedSchema int
  | InvalidStoredState string
  | MissingCollection
  | MissingPathRecord
  | RosterTopology string
  | NumberOverflow
  | PeerHintLimit
  | RosterRetryLimit
  | Record RecordError
  | Roster RosterError
  | Path PathError

section \<open>The store\<close>

record collection_row =
  row_local_path :: os_path
  row_resolved_root :: "os_path option"
  row_scan_status :: string
  row_watch_status :: string

record path_record_row =
  row_record_hash :: "byte list"
  row_kind :: int
  row_canonical :: "byte list"
  row_materialized :: int
  row_materialized_modified_ns :: "i64 option"
  row_materialized_size :: "i64 option"
  row_materialized_hash :: "byte list option"

record log_row =
  row_id :: int
  row_created_ns :: i64
  row_payload :: "byte list"

record StateStore =
  user_version :: int
  application_id :: int
  sqlite_schema :: "(string, string list) omap"
  roster_revisions :: "(byte list, byte list) omap"
  t_collections :: "(string, collection_row) omap"
  path_records :: "(string \<times> string, path_record_row) omap"
  peer_hints :: "(byte list, string) omap"
  operational_logs :: "log_row list"
  log_sequence :: int
  peer_health :: "(byte list, int) omap"

section \<open>Constraints of the schema\<close>

definition check_roster_row :: "StateStore \<Rightarrow> byte list \<Rightarrow> byte list \<Rightarrow> bool" where
  "check_roster_row s hash canonical \<longleftrightarrow>
     length hash = 32 \<and> length canonical > 0 \<and> canonical \<notin> snd ` set (roster_revisions s)"

definition check_collection_row :: "string \<Rightarrow> collection_row \<Rightarrow> bool" where
  "check_collection_row name c \<longleftrightarrow>
     name \<noteq> [] \<and> length (row_local_path c) > 0
     \<and> row_scan_status c \<in> {''pending'', ''active'', ''missing'', ''not_directory'', ''error''}
     \<and> row_watch_status c \<in> {''pending'', ''active'', ''root_unavailable'', ''backend_error''}"

text \<open>
  A \<open>CHECK\<close> constraint is violated when it evaluates to false; a comparison with NULL evaluates to NULL,
  which is not a violation. \<open>materialized_size >= 0\<close> and \<open>length(materialized_hash) = 32\<close> are such comparisons.
\<close>

definition check_path_record_row :: "StateStore \<Rightarrow> string \<times> string \<Rightarrow> path_record_row \<Rightarrow> bool" where
  "check_path_record_row s key r \<longleftrightarrow>
     om_contains (t_collections s) (fst key) \<and> snd key \<noteq> [] \<and> length (row_record_hash r) = 32
     \<and> row_kind r \<in> {0, 1} \<and> length (row_canonical r) > 0 \<and> row_materialized r \<in> {0, 1}
     \<and> (row_kind r = 0 \<and> row_materialized_modified_ns r = None
           \<and> row_materialized_size r = None \<and> row_materialized_hash r = None
        \<or> row_kind r = 1 \<and> row_materialized r = 0 \<and> row_materialized_modified_ns r = None
           \<and> row_materialized_size r = None \<and> row_materialized_hash r = None
        \<or> row_kind r = 1 \<and> row_materialized r = 1 \<and> row_materialized_modified_ns r \<noteq> None
           \<and> (case row_materialized_size r of None \<Rightarrow> True | Some n \<Rightarrow> sint n \<ge> 0)
           \<and> (case row_materialized_hash r of None \<Rightarrow> True | Some h \<Rightarrow> length h = 32))"

definition check_peer_hint :: "byte list \<Rightarrow> string \<Rightarrow> bool" where
  "check_peer_hint e hint \<longleftrightarrow> length e = 32 \<and> 1 \<le> length hint \<and> length hint \<le> 16384"

definition check_peer_health :: "byte list \<Rightarrow> int \<Rightarrow> bool" where
  "check_peer_health e reachable \<longleftrightarrow> length e = 32 \<and> reachable \<in> {0, 1}"

definition check_log_row :: "byte list \<Rightarrow> bool" where
  "check_log_row payload \<longleftrightarrow> 1 \<le> length payload \<and> length payload \<le> 16384"

section \<open>Opening a store\<close>

text \<open>A database file that does not exist yet.\<close>

definition fresh_database :: StateStore where
  "fresh_database = \<lparr>user_version = 0, application_id = 0, sqlite_schema = [], roster_revisions = [],
     t_collections = [], path_records = [], peer_hints = [], operational_logs = [], log_sequence = 0,
     peer_health = []\<rparr>"

text \<open>\<open>name LIKE 'sqlite_%'\<close>: ASCII letters compare without case, the underscore is one character.\<close>

definition ascii_lower :: "char \<Rightarrow> char" where
  "ascii_lower c = (let n = of_char c :: nat in if 65 \<le> n \<and> n \<le> 90 then char_of (n + 32) else c)"

definition like_sqlite :: "string \<Rightarrow> bool" where
  "like_sqlite name \<longleftrightarrow> length name \<ge> 7 \<and> map ascii_lower (take 6 name) = ''sqlite''"

definition validate_current_schema :: "StateStore \<Rightarrow> StateError + unit" where
  "validate_current_schema s =
    (if application_id s \<noteq> SCHEMA_APPLICATION_ID
     then Inl (InvalidStoredState ''database schema identity is not recognized'')
     else if map fst (filter (\<lambda>(name, columns). \<not> like_sqlite name) (sqlite_schema s)) \<noteq> map fst SCHEMA_TABLES
     then Inl (InvalidStoredState ''database table shape is not recognized'')
     else for_each (\<lambda>(table, expected_columns).
       if om_get (sqlite_schema s) table \<noteq> Some expected_columns
       then Inl (InvalidStoredState ''database column shape is not recognized'') else Inr ()) SCHEMA_TABLES)"

text \<open>\<open>CREATE TABLE\<close> fails when the table exists.\<close>

definition create_tables :: "StateStore \<Rightarrow> StateError + StateStore" where
  "create_tables s =
    (if \<exists>(table, columns) \<in> set SCHEMA_TABLES. om_contains (sqlite_schema s) table
     then Inl (Sqlite SchemaError)
     else Inr (s\<lparr>sqlite_schema := fold (\<lambda>(table, columns). om_insert table columns) SCHEMA_TABLES (sqlite_schema s),
       application_id := SCHEMA_APPLICATION_ID, user_version := 1\<rparr>))"

definition migrate :: "(StateStore, StateError, unit) action" where
  "migrate =
    bindS (queryS (\<lambda>s. Inr (user_version s))) (\<lambda>version.
    if version > SCHEMA_VERSION then throwS (UnsupportedSchema version)
    else
      bindS (if version = 0
             then transactionS (\<lambda>s. bindE (create_tables s) (\<lambda>s'. Inr ((), s')))
             else returnS ()) (\<lambda>_.
      queryS validate_current_schema))"

section \<open>Collections\<close>

datatype CollectionScanStatus = Pending | Active | Missing | NotDirectory | Error

datatype CollectionWatchStatus = Pending | Active | RootUnavailable | BackendError

definition scan_status_as_str :: "CollectionScanStatus \<Rightarrow> string" where
  "scan_status_as_str v = (case v of
      CollectionScanStatus.Pending \<Rightarrow> ''pending'' | CollectionScanStatus.Active \<Rightarrow> ''active''
    | Missing \<Rightarrow> ''missing'' | NotDirectory \<Rightarrow> ''not_directory'' | Error \<Rightarrow> ''error'')"

definition scan_status_from_str :: "string \<Rightarrow> StateError + CollectionScanStatus" where
  "scan_status_from_str v =
    (if v = ''pending'' then Inr CollectionScanStatus.Pending
     else if v = ''active'' then Inr CollectionScanStatus.Active
     else if v = ''missing'' then Inr Missing
     else if v = ''not_directory'' then Inr NotDirectory
     else if v = ''error'' then Inr Error
     else Inl (InvalidStoredState ''collection scan status is unknown''))"

definition watch_status_as_str :: "CollectionWatchStatus \<Rightarrow> string" where
  "watch_status_as_str v = (case v of
      CollectionWatchStatus.Pending \<Rightarrow> ''pending'' | CollectionWatchStatus.Active \<Rightarrow> ''active''
    | RootUnavailable \<Rightarrow> ''root_unavailable'' | BackendError \<Rightarrow> ''backend_error'')"

definition watch_status_from_str :: "string \<Rightarrow> StateError + CollectionWatchStatus" where
  "watch_status_from_str v =
    (if v = ''pending'' then Inr CollectionWatchStatus.Pending
     else if v = ''active'' then Inr CollectionWatchStatus.Active
     else if v = ''root_unavailable'' then Inr RootUnavailable
     else if v = ''backend_error'' then Inr BackendError
     else Inl (InvalidStoredState ''collection watch status is unknown''))"

record CollectionState =
  cs_name :: string
  cs_local_path :: os_path
  cs_resolved_root :: "os_path option"
  cs_scan_status :: CollectionScanStatus
  cs_watch_status :: CollectionWatchStatus

definition decode_collection :: "string \<times> collection_row \<Rightarrow> StateError + CollectionState" where
  "decode_collection stored = (case stored of (name, c) \<Rightarrow>
    bindE (scan_status_from_str (row_scan_status c)) (\<lambda>scan_status.
    bindE (watch_status_from_str (row_watch_status c)) (\<lambda>watch_status.
    Inr \<lparr>cs_name = name, cs_local_path = row_local_path c, cs_resolved_root = row_resolved_root c,
         cs_scan_status = scan_status, cs_watch_status = watch_status\<rparr>)))"

text \<open>The two statements several operations share: an update of one table's rows under its constraints.\<close>

definition update_collections ::
  "(string \<Rightarrow> bool) \<Rightarrow> (collection_row \<Rightarrow> collection_row) \<Rightarrow> StateStore \<Rightarrow> StateError + (nat \<times> StateStore)" where
  "update_collections P f s =
    bindE (mapErr Sqlite (sql_update check_collection_row (\<lambda>name c. P name) f (t_collections s))) (\<lambda>(n, t).
    Inr (n, s\<lparr>t_collections := t\<rparr>))"

definition update_path_records ::
  "(string \<times> string \<Rightarrow> path_record_row \<Rightarrow> bool) \<Rightarrow> (path_record_row \<Rightarrow> path_record_row)
     \<Rightarrow> StateStore \<Rightarrow> StateError + (nat \<times> StateStore)" where
  "update_path_records P f s =
    bindE (mapErr Sqlite (sql_update (check_path_record_row s) P f (path_records s))) (\<lambda>(n, t).
    Inr (n, s\<lparr>path_records := t\<rparr>))"

text \<open>\<open>SET materialized = 0\<close> and the three fingerprint columns to NULL.\<close>

definition clear_materialized :: "path_record_row \<Rightarrow> path_record_row" where
  "clear_materialized r = r\<lparr>row_materialized := 0, row_materialized_modified_ns := None,
     row_materialized_size := None, row_materialized_hash := None\<rparr>"

definition add_collection ::
  "string \<Rightarrow> os_path \<Rightarrow> os_path option \<Rightarrow> (StateStore, StateError, unit) action" where
  "add_collection name local_path resolved_root = transactionS (\<lambda>s.
    bindE (mapErr Sqlite (sql_insert check_collection_row name
      \<lparr>row_local_path = local_path, row_resolved_root = resolved_root,
       row_scan_status = ''pending'', row_watch_status = ''pending''\<rparr> (t_collections s))) (\<lambda>t.
    Inr ((), s\<lparr>t_collections := t\<rparr>)))"

definition replace_collection_path :: "string \<Rightarrow> os_path \<Rightarrow> (StateStore, StateError, unit) action" where
  "replace_collection_path name local_path = transactionS (\<lambda>s.
    bindE (update_collections (\<lambda>n. n = name) (\<lambda>c. c\<lparr>row_local_path := local_path, row_resolved_root := None,
      row_scan_status := ''pending'', row_watch_status := ''pending''\<rparr>) s) (\<lambda>(_, s).
    bindE (update_path_records (\<lambda>k r. fst k = name \<and> row_kind r = 1) clear_materialized s) (\<lambda>(_, s).
    Inr ((), s))))"

definition complete_collection_scan ::
  "string \<Rightarrow> os_path \<Rightarrow> os_path \<Rightarrow> (StateStore, StateError, bool) action" where
  "complete_collection_scan name local_path resolved_root = transactionS (\<lambda>s.
    bindE (ok_or MissingCollection (map_option row_resolved_root (om_get (t_collections s) name))) (\<lambda>previous.
    let changed = (previous \<noteq> Some resolved_root) in
    bindE (update_collections (\<lambda>n. n = name) (\<lambda>c. c\<lparr>row_local_path := local_path,
      row_resolved_root := Some resolved_root, row_scan_status := ''active''\<rparr>) s) (\<lambda>(_, s).
    bindE (if changed
           then update_path_records (\<lambda>k r. fst k = name \<and> row_kind r = 1) clear_materialized s
           else Inr (0, s)) (\<lambda>(_, s).
    Inr (changed, s)))))"

definition set_collection_scan_status ::
  "string \<Rightarrow> CollectionScanStatus \<Rightarrow> (StateStore, StateError, unit) action" where
  "set_collection_scan_status name status = transactionS (\<lambda>s.
    bindE (update_collections (\<lambda>n. n = name) (\<lambda>c. c\<lparr>row_scan_status := scan_status_as_str status\<rparr>) s) (\<lambda>(_, s).
    Inr ((), s)))"

definition set_collection_watch_status ::
  "string \<Rightarrow> CollectionWatchStatus \<Rightarrow> (StateStore, StateError, unit) action" where
  "set_collection_watch_status name status = transactionS (\<lambda>s.
    bindE (update_collections (\<lambda>n. n = name) (\<lambda>c. c\<lparr>row_watch_status := watch_status_as_str status\<rparr>) s) (\<lambda>(_, s).
    Inr ((), s)))"

text \<open>The foreign key of \<open>path_records\<close> cascades the deletion.\<close>

definition remove_collection :: "string \<Rightarrow> (StateStore, StateError, bool) action" where
  "remove_collection name = transactionS (\<lambda>s.
    let (n, t) = sql_delete (\<lambda>k. k = name) (t_collections s);
        (_, records) = sql_delete (\<lambda>k. fst k = name \<and> om_contains (t_collections s) name) (path_records s)
    in Inr (n \<noteq> 0, s\<lparr>t_collections := t, path_records := records\<rparr>))"

definition collections :: "StateStore \<Rightarrow> StateError + CollectionState list" where
  "collections s = map_result decode_collection (t_collections s)"

definition collection_named :: "string \<Rightarrow> StateStore \<Rightarrow> StateError + CollectionState option" where
  "collection_named name s = (case om_get (t_collections s) name of
      None \<Rightarrow> Inr None
    | Some c \<Rightarrow> bindE (decode_collection (name, c)) (\<lambda>c. Inr (Some c)))"

end
