(* ===== verification/State_Log.thy ===== *)
theory State_Log
  imports State_Store
begin

text \<open>
  \<open>state.rs\<close>, operational events, the bounded log, and the peer tables. An event is validated, encoded as
  JSON, appended under the next \<open>AUTOINCREMENT\<close> id, and the log is cut to its newest \<open>max_logs\<close> rows, all in
  the transaction of the operation that logs it.
\<close>

datatype LogLevel = Debug | Info | Warn

datatype CollectionIssue = SymlinkEscape | SymlinkCycle | PathRejected | TimestampRejected

datatype OperationalEvent =
    DaemonStarted
  | DaemonStopped
  | CollectionAttached string
  | CollectionDetached string
  | CollectionPaused string
  | CollectionScanned string
  | CollectionWarning string "ProtocolPath option" CollectionIssue
  | RecordAccepted string ProtocolPath "EndpointId option"
  | RecordRejected string ProtocolPath "EndpointId option" i64 EndpointId i64 EndpointId
  | FileInstalled string ProtocolPath
  | FileApplyRejected string ProtocolPath
  | RepairRequired string ProtocolPath
  | PeerUnreachable EndpointId
  | PeerAttempted EndpointId
  | PeerSynchronized EndpointId
  | PeerRejected EndpointId
  | PeerSessionFailed EndpointId
  | FileSent string ProtocolPath EndpointId
  | FileReceived string ProtocolPath EndpointId
  | TransferRejected string ProtocolPath EndpointId

definition level :: "OperationalEvent \<Rightarrow> LogLevel" where
  "level event = (case event of
      CollectionScanned _ \<Rightarrow> Debug
    | DaemonStarted \<Rightarrow> Info | DaemonStopped \<Rightarrow> Info
    | CollectionAttached _ \<Rightarrow> Info | CollectionDetached _ \<Rightarrow> Info
    | RecordAccepted _ _ _ \<Rightarrow> Info | FileInstalled _ _ \<Rightarrow> Info
    | PeerAttempted _ \<Rightarrow> Info | PeerSynchronized _ \<Rightarrow> Info
    | FileSent _ _ _ \<Rightarrow> Info | FileReceived _ _ _ \<Rightarrow> Info
    | CollectionPaused _ \<Rightarrow> Warn | CollectionWarning _ _ _ \<Rightarrow> Warn
    | RecordRejected _ _ _ _ _ _ _ \<Rightarrow> Warn | FileApplyRejected _ _ \<Rightarrow> Warn
    | RepairRequired _ _ \<Rightarrow> Warn | PeerUnreachable _ \<Rightarrow> Warn | PeerRejected _ \<Rightarrow> Warn
    | PeerSessionFailed _ \<Rightarrow> Warn | TransferRejected _ _ _ \<Rightarrow> Warn)"

record json =
  to_vec :: "OperationalEvent \<Rightarrow> byte list option"
  from_slice :: "byte list \<Rightarrow> OperationalEvent option"

text \<open>The collection and the path an event names.\<close>

definition event_subject :: "OperationalEvent \<Rightarrow> string option \<times> ProtocolPath option" where
  "event_subject event = (case event of
      DaemonStarted \<Rightarrow> (None, None) | DaemonStopped \<Rightarrow> (None, None)
    | PeerUnreachable _ \<Rightarrow> (None, None) | PeerAttempted _ \<Rightarrow> (None, None)
    | PeerSynchronized _ \<Rightarrow> (None, None) | PeerRejected _ \<Rightarrow> (None, None)
    | PeerSessionFailed _ \<Rightarrow> (None, None)
    | CollectionAttached c \<Rightarrow> (Some c, None) | CollectionDetached c \<Rightarrow> (Some c, None)
    | CollectionPaused c \<Rightarrow> (Some c, None) | CollectionScanned c \<Rightarrow> (Some c, None)
    | CollectionWarning c p _ \<Rightarrow> (Some c, p)
    | RecordAccepted c p _ \<Rightarrow> (Some c, Some p)
    | RecordRejected c p _ _ _ _ _ \<Rightarrow> (Some c, Some p)
    | FileInstalled c p \<Rightarrow> (Some c, Some p) | FileApplyRejected c p \<Rightarrow> (Some c, Some p)
    | RepairRequired c p \<Rightarrow> (Some c, Some p)
    | FileSent c p _ \<Rightarrow> (Some c, Some p) | FileReceived c p _ \<Rightarrow> (Some c, Some p)
    | TransferRejected c p _ \<Rightarrow> (Some c, Some p))"

definition validate_operational_event :: "OperationalEvent \<Rightarrow> StateError + unit" where
  "validate_operational_event event = (case event_subject event of (c, p) \<Rightarrow>
    if (case c of None \<Rightarrow> False | Some v \<Rightarrow> v = [] \<or> length v > 255)
    then Inl (InvalidStoredState ''operational event collection has an invalid size'')
    else if (case p of None \<Rightarrow> False | Some v \<Rightarrow> length (as_str v) > 4096)
    then Inl (InvalidStoredState ''operational event path exceeds its size limit'')
    else Inr ())"

text \<open>
  An \<open>AUTOINCREMENT\<close> id is one more than the largest ever used; the insertion fails when that is no longer
  an \<open>i64\<close>. The deletion keeps the rows with the \<open>max_logs\<close> largest ids, which are the last ones.
\<close>

definition insert_log :: "json \<Rightarrow> i64 \<Rightarrow> OperationalEvent \<Rightarrow> nat \<Rightarrow> StateStore \<Rightarrow> StateError + StateStore" where
  "insert_log J created_ns event max_logs s =
    bindE (validate_operational_event event) (\<lambda>_.
    bindE (ok_or (InvalidStoredState ''operational event cannot be encoded'') (to_vec J event)) (\<lambda>payload.
    if length payload > MAX_OPERATIONAL_EVENT_BYTES
    then Inl (InvalidStoredState ''operational event exceeds its encoded size limit'')
    else if \<not> check_log_row payload then Inl (Sqlite ConstraintViolation)
    else if log_sequence s \<ge> 2 ^ 63 - 1 then Inl (Sqlite DatabaseFull)
    else if max_logs \<ge> 2 ^ 63 then Inl NumberOverflow
    else
      let id = log_sequence s + 1;
          rows = operational_logs s @ [\<lparr>row_id = id, row_created_ns = created_ns, row_payload = payload\<rparr>]
      in Inr (s\<lparr>operational_logs := drop (length rows - max_logs) rows, log_sequence := id\<rparr>)))"

definition append_log :: "json \<Rightarrow> i64 \<Rightarrow> OperationalEvent \<Rightarrow> nat \<Rightarrow> (StateStore, StateError, unit) action" where
  "append_log J created_ns event max_logs = transactionS (\<lambda>s.
    bindE (insert_log J created_ns event max_logs s) (\<lambda>s. Inr ((), s)))"

record OperationalLog =
  ol_id :: int
  ol_created_ns :: i64
  ol_event :: OperationalEvent

record OperationalLogPage =
  page_logs :: "OperationalLog list"
  next_after_id :: int
  has_more :: bool

definition decode_operational_event :: "json \<Rightarrow> byte list \<Rightarrow> StateError + OperationalEvent" where
  "decode_operational_event J payload =
    (if payload = [] \<or> length payload > MAX_OPERATIONAL_EVENT_BYTES
     then Inl (InvalidStoredState ''operational event payload has an invalid size'')
     else
       bindE (ok_or (InvalidStoredState ''operational event payload is invalid'') (from_slice J payload)) (\<lambda>event.
       bindE (validate_operational_event event) (\<lambda>_.
       bindE (ok_or (InvalidStoredState ''operational event payload is invalid'') (to_vec J event)) (\<lambda>canonical.
       if canonical \<noteq> payload then Inl (InvalidStoredState ''operational event payload is invalid'')
       else Inr event))))"

text \<open>The query yields NULL for a payload outside its size range.\<close>

definition decode_operational_log_row :: "json \<Rightarrow> log_row \<Rightarrow> StateError + OperationalLog" where
  "decode_operational_log_row J row =
    bindE (ok_or (InvalidStoredState ''operational event payload has invalid storage'')
      (if 1 \<le> length (row_payload row) \<and> length (row_payload row) \<le> 16384
       then Some (row_payload row) else None)) (\<lambda>payload.
    bindE (decode_operational_event J payload) (\<lambda>event.
    Inr \<lparr>ol_id = row_id row, ol_created_ns = row_created_ns row, ol_event = event\<rparr>))"

definition logs :: "json \<Rightarrow> StateStore \<Rightarrow> StateError + OperationalLog list" where
  "logs J s = map_result (decode_operational_log_row J) (operational_logs s)"

definition logs_page :: "json \<Rightarrow> int \<Rightarrow> nat \<Rightarrow> StateStore \<Rightarrow> StateError + OperationalLogPage" where
  "logs_page J after_id lim s =
    (let n = max 1 (min 64 lim) in
     bindE (map_result (decode_operational_log_row J)
       (take (n + 1) (filter (\<lambda>row. row_id row > after_id) (operational_logs s)))) (\<lambda>found.
     let shown = take n found in
     Inr \<lparr>page_logs = shown,
          next_after_id = (if shown = [] then after_id else ol_id (last shown)),
          has_more = length found > n\<rparr>))"

section \<open>Peers\<close>

definition validate_peer_hint :: "string \<Rightarrow> StateError + unit" where
  "validate_peer_hint hint =
    (if hint = [] \<or> length hint > MAX_PEER_HINT_BYTES then Inl PeerHintLimit else Inr ())"

definition replace_peer_hint_in :: "EndpointId \<Rightarrow> string \<Rightarrow> StateStore \<Rightarrow> StateError + StateStore" where
  "replace_peer_hint_in e hint s =
    bindE (mapErr Sqlite (sql_upsert check_peer_hint (to_be_bytes e) hint (peer_hints s))) (\<lambda>t.
    Inr (s\<lparr>peer_hints := t\<rparr>))"

definition replace_peer_hint :: "EndpointId \<Rightarrow> string \<Rightarrow> (StateStore, StateError, unit) action" where
  "replace_peer_hint e hint =
    bindS (liftS (validate_peer_hint hint)) (\<lambda>_.
    transactionS (\<lambda>s. bindE (replace_peer_hint_in e hint s) (\<lambda>s. Inr ((), s))))"

definition peer_hint :: "EndpointId \<Rightarrow> StateStore \<Rightarrow> StateError + string option" where
  "peer_hint e s = Inr (case om_get (peer_hints s) (to_be_bytes e) of
      None \<Rightarrow> None
    | Some hint \<Rightarrow> if 1 \<le> length hint \<and> length hint \<le> 16384 then Some hint else None)"

definition record_peer_health ::
  "json \<Rightarrow> EndpointId \<Rightarrow> bool \<Rightarrow> i64 \<Rightarrow> OperationalEvent \<Rightarrow> nat \<Rightarrow> (StateStore, StateError, unit) action" where
  "record_peer_health J e reachable observed_ns event max_logs = transactionS (\<lambda>s.
    bindE (mapErr Sqlite (sql_upsert check_peer_health (to_be_bytes e) (of_bool reachable) (peer_health s))) (\<lambda>t.
    bindE (insert_log J observed_ns event max_logs (s\<lparr>peer_health := t\<rparr>)) (\<lambda>s.
    Inr ((), s))))"

definition peer_reachable :: "EndpointId \<Rightarrow> StateStore \<Rightarrow> StateError + bool" where
  "peer_reachable e s = Inr (case om_get (peer_health s) (to_be_bytes e) of
      None \<Rightarrow> False | Some v \<Rightarrow> v \<noteq> 0)"

section \<open>The log invariant\<close>

definition log_ok :: "StateStore \<Rightarrow> bool" where
  "log_ok s \<longleftrightarrow> sorted_wrt (<) (map row_id (operational_logs s)) \<and> 0 \<le> log_sequence s
     \<and> (\<forall>row \<in> set (operational_logs s). 0 < row_id row \<and> row_id row \<le> log_sequence s
          \<and> check_log_row (row_payload row))"

text \<open>
  What the log relies on of \<open>serde_json\<close> for the events it is given: the JSON text of an event is not
  empty and reads back as that event.
\<close>

definition json_faithful :: "json \<Rightarrow> OperationalEvent set \<Rightarrow> bool" where
  "json_faithful J E \<longleftrightarrow>
     (\<forall>e \<in> E. \<exists>bs. to_vec J e = Some bs \<and> bs \<noteq> [] \<and> length bs \<le> 16384 \<and> from_slice J bs = Some e)"

lemma MAX_EVENT_eq: "MAX_OPERATIONAL_EVENT_BYTES = 16384"
  by (simp add: MAX_OPERATIONAL_EVENT_BYTES_def)

lemma insert_log_Inr:
  "insert_log J t e n s = Inr s' \<longleftrightarrow>
     validate_operational_event e = Inr () \<and> log_sequence s < 2 ^ 63 - 1 \<and> n < 2 ^ 63
     \<and> (\<exists>bs. to_vec J e = Some bs \<and> check_log_row bs \<and>
          s' = s\<lparr>operational_logs := drop (Suc (length (operational_logs s)) - n)
                 (operational_logs s @ [\<lparr>row_id = log_sequence s + 1, row_created_ns = t, row_payload = bs\<rparr>]),
               log_sequence := log_sequence s + 1\<rparr>)"
proof (cases "to_vec J e")
  case None
  then show ?thesis by (cases "validate_operational_event e") (simp_all add: insert_log_def)
next
  case (Some bs)
  show ?thesis
  proof (cases "validate_operational_event e")
    case (Inl x)
    then show ?thesis by (simp add: insert_log_def)
  next
    case (Inr u)
    show ?thesis
      unfolding insert_log_def Let_def Inr Some MAX_EVENT_eq check_log_row_def
      by (simp add: not_le [symmetric] del: drop_append) blast
  qed
qed

lemma log_ok_append:
  assumes "log_ok s" and "check_log_row bs"
  shows "log_ok (s\<lparr>operational_logs := drop k
      (operational_logs s @ [\<lparr>row_id = log_sequence s + 1, row_created_ns = t, row_payload = bs\<rparr>]),
      log_sequence := log_sequence s + 1\<rparr>)"
proof -
  let ?rows = "operational_logs s @ [\<lparr>row_id = log_sequence s + 1, row_created_ns = t, row_payload = bs\<rparr>]"
  have rows: "\<forall>row \<in> set ?rows. 0 < row_id row \<and> row_id row \<le> log_sequence s + 1
      \<and> check_log_row (row_payload row)"
    using assms by (force simp: log_ok_def)
  have "sorted_wrt (<) (map row_id ?rows)"
    using assms(1) by (force simp: log_ok_def sorted_wrt_append)
  then have "sorted_wrt (<) (map row_id (drop k ?rows))"
    unfolding drop_map [symmetric] by (rule sorted_wrt_drop)
  moreover have "\<forall>row \<in> set (drop k ?rows). 0 < row_id row \<and> row_id row \<le> log_sequence s + 1
      \<and> check_log_row (row_payload row)"
    using rows set_drop_subset [of k ?rows] by blast
  ultimately show ?thesis using assms(1) unfolding log_ok_def by simp
qed

lemma insert_log_ok: "insert_log J t e n s = Inr s' \<Longrightarrow> log_ok s \<Longrightarrow> log_ok s'"
  unfolding insert_log_Inr by (elim conjE exE) (simp only: log_ok_append)

lemma insert_log_bound: "insert_log J t e n s = Inr s' \<Longrightarrow> length (operational_logs s') \<le> n"
  by (auto simp: insert_log_Inr)

text \<open>Writing to the log touches the log only.\<close>

lemma insert_log_frame:
  assumes "insert_log J t e n s = Inr s'"
  shows "t_collections s' = t_collections s" "path_records s' = path_records s"
    "roster_revisions s' = roster_revisions s" "peer_hints s' = peer_hints s"
    "peer_health s' = peer_health s" "user_version s' = user_version s"
    "application_id s' = application_id s" "sqlite_schema s' = sqlite_schema s"
  using assms by (auto simp: insert_log_Inr)

lemma insert_log_succeeds:
  assumes "json_faithful J {e}" and "validate_operational_event e = Inr ()"
    and "log_sequence s < 2 ^ 63 - 1" and "n < 2 ^ 63"
  obtains s' where "insert_log J t e n s = Inr s'"
proof -
  from assms(1) obtain bs where "to_vec J e = Some bs" "check_log_row bs"
    by (auto simp: json_faithful_def check_log_row_def Suc_le_eq)
  with assms(2-4) show ?thesis using that by (auto simp: insert_log_Inr)
qed

lemma decode_log_row_faithful:
  assumes "json_faithful J {e}" and "validate_operational_event e = Inr ()" and "to_vec J e = Some bs"
  shows "decode_operational_log_row J \<lparr>row_id = i, row_created_ns = t, row_payload = bs\<rparr>
    = Inr \<lparr>ol_id = i, ol_created_ns = t, ol_event = e\<rparr>"
  using assms
  by (auto simp: json_faithful_def decode_operational_log_row_def decode_operational_event_def
      MAX_EVENT_eq Suc_le_eq)

lemma insert_log_logs:
  assumes ins: "insert_log J t e n s = Inr s'" and j: "json_faithful J {e}" and old: "logs J s = Inr old"
  shows "logs J s' = Inr (drop (Suc (length old) - n)
     (old @ [\<lparr>ol_id = log_sequence s + 1, ol_created_ns = t, ol_event = e\<rparr>]))"
proof -
  let ?row = "\<lambda>bs. \<lparr>row_id = log_sequence s + 1, row_created_ns = t, row_payload = bs\<rparr>"
  from ins obtain bs where v: "validate_operational_event e = Inr ()" and bs: "to_vec J e = Some bs"
      and rows: "operational_logs s' = drop (Suc (length (operational_logs s)) - n)
         (operational_logs s @ [?row bs])"
    by (auto simp: insert_log_Inr)
  have "map_result (decode_operational_log_row J) (operational_logs s @ [?row bs])
      = Inr (old @ [\<lparr>ol_id = log_sequence s + 1, ol_created_ns = t, ol_event = e\<rparr>])"
    using old decode_log_row_faithful [OF j v bs] by (simp add: logs_def map_result_append)
  from map_result_drop [OF this] show ?thesis
    unfolding logs_def rows map_result_length [OF old [unfolded logs_def]] .
qed

text \<open>
  Appending an event that is within the size limits always succeeds while ids remain, and what a reader
  sees afterwards is the previous log followed by that event under the next id, cut to the newest
  \<open>max_logs\<close> entries. The log never holds more than \<open>max_logs\<close> rows, and its ids stay strictly increasing.
\<close>

theorem append_log_then_logs:
  assumes "log_ok s" and "logs J s = Inr old" and "json_faithful J {e}"
    and "validate_operational_event e = Inr ()" and "log_sequence s < 2 ^ 63 - 1" and "n < 2 ^ 63"
  shows "\<exists>s'. append_log J t e n s = (Inr (), s') \<and> log_ok s' \<and> length (operational_logs s') \<le> n
    \<and> logs J s' = Inr (drop (Suc (length old) - n)
        (old @ [\<lparr>ol_id = log_sequence s + 1, ol_created_ns = t, ol_event = e\<rparr>]))"
proof -
  obtain s' where s': "insert_log J t e n s = Inr s'" using assms(3-6) by (rule insert_log_succeeds)
  then have "append_log J t e n s = (Inr (), s')" by (simp add: append_log_def transactionS_def)
  with s' show ?thesis
    using insert_log_ok [OF s' assms(1)] insert_log_bound [OF s'] insert_log_logs [OF s' assms(3,2)] by blast
qed

definition sample_json :: json where
  "sample_json = \<lparr>to_vec = (\<lambda>e. Some [1]), from_slice = (\<lambda>bs. Some DaemonStarted)\<rparr>"

lemma sample_json_faithful: "json_faithful sample_json {DaemonStarted}"
  by (simp add: json_faithful_def sample_json_def)

lemma fresh_log: "log_ok fresh_database" "logs J fresh_database = Inr []"
  by (simp_all add: log_ok_def fresh_database_def logs_def)

theorem append_log_then_logs_witness:
  "\<exists>s'. append_log sample_json 7 DaemonStarted 10 fresh_database = (Inr (), s')
     \<and> logs sample_json s' = Inr [\<lparr>ol_id = 1, ol_created_ns = 7, ol_event = DaemonStarted\<rparr>]"
  using append_log_then_logs [OF fresh_log sample_json_faithful, of 10 7]
  by (auto simp: validate_operational_event_def event_subject_def fresh_database_def)

section \<open>Paging through the log\<close>

lemma decode_log_row_id: "decode_operational_log_row J row = Inr l \<Longrightarrow> ol_id l = row_id row"
  by (auto simp: decode_operational_log_row_def bindE_eq_Inr)

lemma logs_ids: "logs J s = Inr ls \<Longrightarrow> map ol_id ls = map row_id (operational_logs s)"
proof -
  assume "logs J s = Inr ls"
  then have "list_all2 (\<lambda>row l. decode_operational_log_row J row = Inr l) (operational_logs s) ls"
    by (simp add: logs_def map_result_eq_Inr)
  then show ?thesis by (induction rule: list_all2_induct) (simp_all add: decode_log_row_id)
qed

lemma logs_page_eq:
  assumes "logs J s = Inr ls"
  shows "logs_page J a lim s =
    (let n = max 1 (min 64 lim); rest_logs = filter (\<lambda>l. ol_id l > a) ls; shown = take n rest_logs
     in Inr \<lparr>page_logs = shown, next_after_id = (if shown = [] then a else ol_id (last shown)),
             has_more = length rest_logs > n\<rparr>)"
proof -
  define n where "n = max 1 (min 64 lim)"
  define r where "r = filter (\<lambda>l. ol_id l > a) ls"
  have "map_result (decode_operational_log_row J)
      (take (n + 1) (filter (\<lambda>row. row_id row > a) (operational_logs s))) = Inr (take (n + 1) r)"
    unfolding r_def using assms
    by (intro map_result_take map_result_filter) (simp_all add: logs_def decode_log_row_id)
  moreover have "take n (take (n + 1) r) = take n r" "(n < length (take (n + 1) r)) = (n < length r)"
    by (simp_all add: min_def)
  ultimately show ?thesis
    unfolding logs_page_def Let_def n_def [symmetric] r_def [symmetric] by simp
qed

lemma sorted_filter_after_take:
  fixes f :: "'a \<Rightarrow> int"
  assumes "sorted_wrt (<) (map f xs)" and "0 < n" and "xs \<noteq> []"
  shows "filter (\<lambda>x. f x > f (last (take n xs))) xs = drop n xs"
proof -
  let ?u = "take n xs"
  have u: "?u \<noteq> []" using assms(2,3) by simp
  have srt: "sorted_wrt (<) (map f ?u @ map f (drop n xs))"
    using assms(1) by (simp add: map_append [symmetric] del: map_append)
  then have "\<forall>x \<in> set (drop n xs). f (last ?u) < f x"
    using u by (auto simp: sorted_wrt_append simp del: set_drop_subset)
  then have d: "filter (\<lambda>x. f x > f (last ?u)) (drop n xs) = drop n xs" by simp
  have "\<not> f (last ?u) < f x" if "x \<in> set ?u" for x
  proof (cases "x = last ?u")
    case False
    obtain v where v: "?u = v @ [last ?u]" using u by (metis append_butlast_last_id)
    have "sorted_wrt (<) (map f (v @ [last ?u]))" using srt v by (simp add: sorted_wrt_append)
    moreover have "x \<in> set v" using that False v by (metis Un_iff empty_iff insert_iff list.set(1,2) set_append)
    ultimately show ?thesis by (force simp: sorted_wrt_append)
  qed simp
  then have t: "filter (\<lambda>x. f x > f (last ?u)) ?u = []" by (simp add: filter_empty_conv)
  have "filter (\<lambda>x. f x > f (last ?u)) (?u @ drop n xs) = drop n xs"
    unfolding filter_append t d by simp
  then show ?thesis by simp
qed

text \<open>
  Paging neither skips nor repeats an entry: a page holds the first entries after the given id, the
  entries after the page's own cursor are exactly the remaining ones, \<open>has_more\<close> says whether there are
  any, and a page with more to come moves the cursor forward, so a reader who follows the cursor reaches
  the end of the log.
\<close>

theorem logs_page_complete:
  assumes "log_ok s" and "logs J s = Inr ls"
  shows "\<exists>page. logs_page J a lim s = Inr page
    \<and> filter (\<lambda>l. ol_id l > a) ls = page_logs page @ filter (\<lambda>l. ol_id l > next_after_id page) ls
    \<and> (has_more page \<longleftrightarrow> filter (\<lambda>l. ol_id l > next_after_id page) ls \<noteq> [])
    \<and> (has_more page \<longrightarrow> a < next_after_id page) \<and> length (page_logs page) \<le> 64"
proof -
  define n where "n = max 1 (min 64 lim)"
  define r where "r = filter (\<lambda>l. ol_id l > a) ls"
  have n: "0 < n" "n \<le> 64" by (simp_all add: n_def)
  have "sorted_wrt (<) (map ol_id ls)" using assms logs_ids [OF assms(2)] by (simp add: log_ok_def)
  then have srt: "sorted_wrt (<) (map ol_id r)" unfolding r_def by (induction ls) auto
  note page = logs_page_eq [OF assms(2), of a lim, unfolded Let_def, folded n_def r_def]
  show ?thesis
  proof (cases "r = []")
    case True
    then show ?thesis unfolding page r_def [symmetric] using n by (simp add: r_def)
  next
    case False
    let ?next = "ol_id (last (take n r))"
    have "take n r \<noteq> []" using False n by simp
    then have "last (take n r) \<in> set r" by (metis in_set_takeD last_in_set)
    then have a: "a < ?next" by (simp add: r_def)
    have "filter (\<lambda>l. ol_id l > ?next) ls = filter (\<lambda>l. ol_id l > ?next) r"
      unfolding r_def using a [unfolded r_def] by (auto simp: filter_filter intro!: filter_cong)
    also have "\<dots> = drop n r" using srt n(1) False by (rule sorted_filter_after_take)
    finally have next_eq: "filter (\<lambda>l. ol_id l > ?next) ls = drop n r" .
    show ?thesis
      unfolding page r_def [symmetric] using \<open>take n r \<noteq> []\<close> a n
      by (intro exI [of _ "\<lparr>page_logs = take n r, next_after_id = ?next, has_more = n < length r\<rparr>"])
        (auto simp: next_eq)
  qed
qed

theorem logs_page_complete_witness:
  "\<exists>page. logs_page sample_json 0 5 fresh_database = Inr page \<and> \<not> has_more page"
  using logs_page_complete [OF fresh_log, of sample_json 0 5] by auto

end
