(* ===== verification/Roster_Selection.thy ===== *)
theory Roster_Selection
  imports Roster_Encoding
begin

text \<open>
  What the validation of roster revisions guarantees, that the program's own revisions pass it, and that
  the selection of a chain is a function of the set of revisions a device knows.
\<close>

section \<open>Validation\<close>

lemma verify_signature_Inr:
  "verify_signature C r x = Inr u \<longleftrightarrow>
     ed_valid_key C x \<and> ed_verify_strict C x (unsigned_canonical_bytes r) (rr_signature r)"
  by (simp add: verify_signature_def)

lemma validate_child_Inr:
  "validate_child C r p = Inr u \<longleftrightarrow>
     rr_group_id r = rr_group_id p \<and> u64_checked_add (rr_number p) 1 = Some (rr_number r)
     \<and> rr_parent_hash r = Some (roster_canonical_hash C p) \<and> om_contains (rr_members p) (rr_author r)
     \<and> \<not> is_initialize (rr_change r) \<and> apply_change (rr_members p) (rr_change r) = Inr (rr_members r)
     \<and> verify_signature C r (rr_author r) = Inr ()"
  by (auto simp: validate_child_def bindE_eq_Inr)

lemma validate_genesis_Inr:
  "validate_genesis C r = Inr u \<longleftrightarrow>
     rr_number r = 0 \<and> rr_parent_hash r = None \<and>
     (\<exists>m. rr_change r = Initialize m \<and> rr_author r = mem_endpoint_id m \<and> length (rr_members r) = 1
        \<and> om_get (rr_members r) (mem_endpoint_id m) = Some (mem_device_name m))
     \<and> verify_signature C r (rr_author r) = Inr ()"
  by (auto simp: validate_genesis_def split: RosterChange.splits)

lemma validate_genesis_unit: "validate_genesis C r = Inr u \<Longrightarrow> validate_genesis C r = Inr ()"
  by simp

lemma apply_change_Inr:
  "apply_change ms c = Inr ms' \<longleftrightarrow>
     (\<exists>m. c = Admit m \<and> validate_device_name (mem_device_name m) = Inr ()
        \<and> \<not> om_contains ms (mem_endpoint_id m) \<and> ms' = om_insert (mem_endpoint_id m) (mem_device_name m) ms)
     \<or> (\<exists>x. c = Remove x \<and> om_contains ms x \<and> ms' = om_remove x ms)"
  by (auto simp: apply_change_def om_contains_def bindE_eq_Inr split: RosterChange.splits if_splits)

lemma apply_change_wf: "om_wf ms \<Longrightarrow> apply_change ms c = Inr ms' \<Longrightarrow> om_wf ms'"
  by (auto simp: apply_change_Inr om_wf_insert om_wf_remove)

lemma apply_change_members_ok:
  assumes "members_ok ms" and "change_ok c" and "apply_change ms c = Inr ms'"
  shows "members_ok ms'"
proof -
  have "om_wf ms'" using assms by (auto simp: members_ok_def intro: apply_change_wf)
  moreover have "name_ok (snd m)" if "m \<in> set ms'" for m
    using assms that
    by (auto simp: members_ok_def change_ok_def apply_change_Inr set_om_insert om_remove_def)
  ultimately show ?thesis by (simp add: members_ok_def)
qed

text \<open>
  A change applied to a member set does exactly what it names: an admission adds the one endpoint under
  its name and changes no other entry, a removal deletes the one endpoint; a repeated admission, the removal
  of an absent endpoint and a second initialization are errors.
\<close>

theorem apply_change_effect:
  assumes "om_wf ms"
  shows "(\<forall>m ms'. apply_change ms (Admit m) = Inr ms' \<longrightarrow>
            (\<forall>x. om_get ms' x = (if x = mem_endpoint_id m then Some (mem_device_name m) else om_get ms x)))
    \<and> (\<forall>y ms'. apply_change ms (Remove y) = Inr ms' \<longrightarrow>
            (\<forall>x. om_get ms' x = (if x = y then None else om_get ms x)))
    \<and> (\<forall>m. om_contains ms (mem_endpoint_id m) \<longrightarrow> validate_device_name (mem_device_name m) = Inr () \<longrightarrow>
            apply_change ms (Admit m) = Inl AlreadyActive)
    \<and> (\<forall>y. \<not> om_contains ms y \<longrightarrow> apply_change ms (Remove y) = Inl NotActive)
    \<and> (\<forall>m. apply_change ms (Initialize m) = Inl InvalidChange)"
  using assms
  by (auto simp: apply_change_Inr om_get_insert om_get_remove)
     (auto simp: apply_change_def om_contains_def)

theorem apply_change_effect_witness:
  "apply_change [(5, ''a'')] (Remove 6) = Inl NotActive"
  using apply_change_effect [of "[(5, ''a'')]"] by (simp add: om_contains_def)

section \<open>Construction\<close>

lemma signed_child_valid:
  assumes "sig_correct C" and "identity_ok C author"
    and "om_contains (rr_members p) (endpoint_id author)" and "\<not> is_initialize (rr_change u)"
    and "apply_change (rr_members p) (rr_change u) = Inr (rr_members u)"
    and "u64_checked_add (rr_number p) 1 = Some (rr_number u)"
    and "rr_group_id u = rr_group_id p" and "rr_parent_hash u = Some (roster_canonical_hash C p)"
    and "rr_author u = endpoint_id author"
  shows "validate_child C (u\<lparr>rr_signature := identity_sign C author (unsigned_canonical_bytes u)\<rparr>) p = Inr ()"
  using assms(3-9) identity_signature_verifies [OF assms(1,2)]
  by (simp add: validate_child_Inr verify_signature_Inr)

lemma child_Inr_iff:
  assumes "sig_correct C" and "identity_ok C author"
  shows "(\<exists>r. child C p change author = Inr r) \<longleftrightarrow>
     om_contains (rr_members p) (endpoint_id author) \<and> is_ok (apply_change (rr_members p) change)
     \<and> unat (rr_number p) + 1 < 2 ^ 64"
proof -
  let ?u = "\<lambda>n ms. \<lparr>rr_group_id = rr_group_id p, rr_number = n,
      rr_parent_hash = Some (roster_canonical_hash C p), rr_members = ms, rr_change = change,
      rr_author = endpoint_id author, rr_signature = 0\<rparr>"
  have init: "is_initialize change \<Longrightarrow> \<not> is_ok (apply_change (rr_members p) change)"
    by (auto simp: is_initialize_def apply_change_def split: RosterChange.splits)
  have valid: "validate_child C ((?u n ms)\<lparr>rr_signature := identity_sign C author (unsigned_canonical_bytes (?u n ms))\<rparr>) p = Inr ()"
    if "om_contains (rr_members p) (endpoint_id author)" "\<not> is_initialize change"
      "apply_change (rr_members p) change = Inr ms" "u64_checked_add (rr_number p) 1 = Some n" for n ms
    using that by (intro signed_child_valid [OF assms]) simp_all
  show ?thesis
  proof
    assume "\<exists>r. child C p change author = Inr r"
    then show "om_contains (rr_members p) (endpoint_id author) \<and> is_ok (apply_change (rr_members p) change)
        \<and> unat (rr_number p) + 1 < 2 ^ 64"
      by (auto simp: child_def bindE_eq_Inr Let_def u64_checked_add_Some is_ok_iff split: if_splits)
  next
    assume a: "om_contains (rr_members p) (endpoint_id author) \<and> is_ok (apply_change (rr_members p) change)
        \<and> unat (rr_number p) + 1 < 2 ^ 64"
    then obtain ms where ms: "apply_change (rr_members p) change = Inr ms" by (auto simp: is_ok_iff)
    have n: "u64_checked_add (rr_number p) 1 = Some (rr_number p + 1)"
      using a by (simp add: u64_checked_add_Some)
    show "\<exists>r. child C p change author = Inr r"
      using a init ms n valid [OF _ _ ms n] by (auto simp: child_def Let_def)
  qed
qed

lemma child_valid:
  "child C p change author = Inr r \<Longrightarrow>
     validate_child C r p = Inr () \<and> rr_change r = change \<and> rr_author r = endpoint_id author"
  by (auto simp: child_def bindE_eq_Inr Let_def split: if_splits)

lemma sample_removal:
  obtains r where "child sample_crypto sample_genesis (Remove 5) sample_identity = Inr r"
    "validate_child sample_crypto r sample_genesis = Inr ()" "rr_change r = Remove 5"
proof -
  have "identity_ok sample_crypto sample_identity"
    by (simp add: sample_identity_def identity_from_secret_ok)
  note ex = child_Inr_iff [OF sample_sig_correct this, of sample_genesis "Remove 5"]
  have "is_ok (apply_change (rr_members sample_genesis) (Remove 5))"
    by (simp add: sample_genesis_def apply_change_def)
  with ex obtain r where "child sample_crypto sample_genesis (Remove 5) sample_identity = Inr r"
    by (auto simp: sample_genesis_def sample_identity_def identity_from_secret_def om_contains_def
        sample_crypto_def)
  with child_valid [OF this] show ?thesis by (blast intro: that)
qed

text \<open>
  \<open>RosterRevision::child\<close> succeeds exactly when the signing device is active in the parent, the change
  applies to the parent's members and the revision number does not overflow; the revision it returns
  carries that change and author, follows the parent by number and hash, and passes every peer's
  \<open>validate_child\<close>. (Signatures made by a device are assumed to verify under its own key.)
\<close>

theorem child_accepted_by_peers:
  assumes "sig_correct C" and "identity_ok C author"
  shows "((\<exists>r. child C p change author = Inr r) \<longleftrightarrow>
      om_contains (rr_members p) (endpoint_id author) \<and> is_ok (apply_change (rr_members p) change)
      \<and> unat (rr_number p) + 1 < 2 ^ 64)
    \<and> (\<forall>r. child C p change author = Inr r \<longrightarrow>
        validate_child C r p = Inr () \<and> rr_change r = change \<and> rr_author r = endpoint_id author)"
  using child_Inr_iff [OF assms] child_valid by blast

theorem child_accepted_by_peers_witness:
  "\<exists>r. child sample_crypto sample_genesis (Remove 5) sample_identity = Inr r"
proof -
  have "identity_ok sample_crypto sample_identity"
    by (simp add: sample_identity_def identity_from_secret_ok)
  note * = child_accepted_by_peers [OF sample_sig_correct this, of sample_genesis "Remove 5"]
  have "is_ok (apply_change (rr_members sample_genesis) (Remove 5))"
    by (simp add: sample_genesis_def apply_change_def)
  with * show ?thesis
    by (simp add: sample_genesis_def sample_identity_def identity_from_secret_def om_contains_def
        sample_crypto_def)
qed

lemma genesis_valid: "genesis C g n d = Inr r \<Longrightarrow> validate_genesis C r = Inr ()"
  by (auto simp: genesis_def bindE_eq_Inr Let_def)

section \<open>Removed devices\<close>

text \<open>
  A device removed by a revision cannot author a valid child of that revision: its membership is gone
  from the revision's member set, and validation refuses a revision whose author is not active in its parent.
\<close>

theorem removed_author_cannot_extend:
  assumes "om_wf (rr_members grandparent)"
    and "validate_child C parent grandparent = Inr ()" and "rr_change parent = Remove x"
    and "rr_author r = x"
  shows "validate_child C r parent \<noteq> Inr () \<and> \<not> om_contains (rr_members parent) x"
proof -
  have "rr_members parent = om_remove x (rr_members grandparent)"
    using assms(2,3) by (auto simp: validate_child_Inr apply_change_Inr)
  then have "\<not> om_contains (rr_members parent) x"
    using assms(1) by (simp add: om_contains_def om_get_remove)
  then show ?thesis using assms(4) by (simp add: validate_child_Inr)
qed

theorem removed_author_cannot_extend_witness:
  "\<exists>p. child sample_crypto sample_genesis (Remove 5) sample_identity = Inr p
     \<and> validate_child sample_crypto (p\<lparr>rr_author := 5\<rparr>) p \<noteq> Inr ()"
proof -
  obtain p where p: "child sample_crypto sample_genesis (Remove 5) sample_identity = Inr p"
      "validate_child sample_crypto p sample_genesis = Inr ()" "rr_change p = Remove 5"
    by (rule sample_removal)
  have "om_wf (rr_members sample_genesis)" by (simp add: sample_genesis_def)
  from removed_author_cannot_extend [OF this p(2,3), of "p\<lparr>rr_author := 5\<rparr>"] p(1) show ?thesis by auto
qed

section \<open>Selection of one child\<close>

lemma select_child_None:
  "select_child C p cs = None \<longleftrightarrow> (\<forall>c \<in> set cs. validate_child C c p \<noteq> Inr ())"
  by (auto simp: select_child_def filter_empty_conv is_ok_iff)

lemma select_child_max:
  assumes "select_child C p cs = Some c" and "d \<in> set cs" and "validate_child C d p = Inr ()"
  shows "selection_key C d \<le> selection_key C c"
  using max_by_key_ge [OF assms(1) [unfolded select_child_def], of d] assms(2,3) by simp

lemma select_child_cong_set:
  assumes "set cs = set cs'" and "inj_on (roster_canonical_hash C) (set cs)"
  shows "select_child C p cs = select_child C p cs'"
  unfolding select_child_def
proof (rule max_by_key_cong_set)
  show "set (filter (\<lambda>c. is_ok (validate_child C c p)) cs) = set (filter (\<lambda>c. is_ok (validate_child C c p)) cs')"
    using assms(1) by simp
  show "inj_on (selection_key C) (set (filter (\<lambda>c. is_ok (validate_child C c p)) cs))"
    using assms(2) by (auto simp: inj_on_def selection_key_def)
qed

text \<open>
  Among the valid children of a revision a removal always wins over an admission: if a valid removal is
  among the candidates, the selected child is a removal, and it has the greatest canonical hash among
  the valid removals.
\<close>

theorem removal_selected_first:
  assumes "select_child C p cs = Some c" and "d \<in> set cs" and "validate_child C d p = Inr ()"
    and "rr_change d = Remove x"
  shows "(\<exists>y. rr_change c = Remove y) \<and> roster_canonical_hash C d \<le> roster_canonical_hash C c"
proof -
  have "selection_key C d \<le> selection_key C c" using assms(1-3) by (rule select_child_max)
  then show ?thesis
    using assms(4)
    by (cases "rr_change c") (auto simp: selection_key_def selection_priority_def less_eq_prod_def)
qed

theorem removal_selected_first_witness:
  "\<exists>d c. select_child sample_crypto sample_genesis [d] = Some c \<and> (\<exists>y. rr_change c = Remove y)"
proof -
  obtain d where d: "validate_child sample_crypto d sample_genesis = Inr ()" "rr_change d = Remove 5"
    by (rule sample_removal)
  then obtain c where "select_child sample_crypto sample_genesis [d] = Some c"
    using select_child_None [of sample_crypto sample_genesis "[d]"] by fastforce
  with removal_selected_first [OF this _ d] show ?thesis by auto
qed

section \<open>Selection of a chain\<close>

primrec linked :: "crypto \<Rightarrow> RosterRevision \<Rightarrow> RosterRevision list \<Rightarrow> bool" where
  "linked C p [] \<longleftrightarrow> True"
| "linked C p (c # cs) \<longleftrightarrow> validate_child C c p = Inr () \<and> linked C c cs"

lemma select_chain_from_Nil: "select_child C p cs = None \<Longrightarrow> select_chain_from C p cs = []"
  by (simp add: select_chain_from.simps)

lemma select_chain_from_Cons:
  "select_child C p cs = Some c \<Longrightarrow> select_chain_from C p cs = c # select_chain_from C c cs"
  by (subst select_chain_from.simps) simp

lemma select_chain_from_spec:
  "linked C p (select_chain_from C p cs) \<and> set (select_chain_from C p cs) \<subseteq> set cs
   \<and> select_child C (last (p # select_chain_from C p cs)) cs = None"
proof (induction C p cs rule: select_chain_from.induct)
  case (1 C p cs)
  show ?case
  proof (cases "select_child C p cs")
    case None
    then show ?thesis by (simp add: select_chain_from_Nil)
  next
    case (Some c)
    with 1 [OF Some] select_child_Some [OF Some] show ?thesis
      by (auto simp: select_chain_from_Cons)
  qed
qed

lemma select_chain_from_cong_set:
  assumes "set cs = set cs'" and "inj_on (roster_canonical_hash C) (set cs)"
  shows "select_chain_from C p cs = select_chain_from C p cs'"
  using assms
proof (induction C p cs rule: select_chain_from.induct)
  case (1 C p cs)
  have eq: "select_child C p cs = select_child C p cs'"
    using 1(2,3) by (rule select_child_cong_set)
  show ?case
  proof (cases "select_child C p cs")
    case None
    with eq show ?thesis by (simp add: select_chain_from_Nil)
  next
    case (Some c)
    then have "select_chain_from C c cs = select_chain_from C c cs'" using 1 by blast
    with Some eq show ?thesis by (simp add: select_chain_from_Cons)
  qed
qed

lemma select_chain_Inr:
  "select_chain C g cs = Inr chain \<longleftrightarrow> validate_genesis C g = Inr () \<and> chain = select_chain_from C g cs"
  by (auto simp: select_chain_def bindE_eq_Inr)

text \<open>
  C34. \<open>select_chain\<close> always returns on a valid genesis, and the chain it returns is valid link by link, uses
  candidate revisions only and cannot be extended: no candidate is a valid child of its last revision.
\<close>

theorem select_chain_valid_and_maximal:
  assumes "validate_genesis C g = Inr ()"
  shows "\<exists>chain. select_chain C g cs = Inr chain \<and> linked C g chain \<and> set chain \<subseteq> set cs
    \<and> (\<forall>c \<in> set cs. validate_child C c (last (g # chain)) \<noteq> Inr ())"
  using select_chain_from_spec [of C g cs] assms by (simp add: select_chain_Inr select_child_None)

lemma sample_genesis_valid: "validate_genesis sample_crypto sample_genesis = Inr ()"
  by (simp add: validate_genesis_Inr verify_signature_Inr sample_genesis_def sample_crypto_def)

theorem select_chain_valid_and_maximal_witness:
  "\<exists>chain. select_chain sample_crypto sample_genesis [sample_genesis] = Inr chain \<and> linked sample_crypto sample_genesis chain"
  using select_chain_valid_and_maximal [OF sample_genesis_valid, of "[sample_genesis]"] by auto

text \<open>
  Roster convergence: two devices that know the same set of revisions select the same chain, whatever the
  order in which they learned or store them, as long as BLAKE3 separates those revisions. The
  selection is therefore a function of knowledge, not of history.
\<close>

theorem select_chain_converges:
  assumes "set cs = set cs'" and "inj_on (roster_canonical_hash C) (set cs)"
  shows "select_chain C g cs = select_chain C g cs'"
  using select_chain_from_cong_set [OF assms] by (simp add: select_chain_def)

theorem select_chain_converges_witness:
  "select_chain sample_crypto sample_genesis [sample_genesis, sample_genesis]
     = select_chain sample_crypto sample_genesis [sample_genesis]"
  using select_chain_converges [of "[sample_genesis, sample_genesis]" "[sample_genesis]"] by simp

section \<open>Extending a selected chain\<close>

lemma linked_numbers:
  "linked C p cs \<Longrightarrow> c \<in> set cs \<Longrightarrow> unat (rr_number p) < unat (rr_number c)"
proof (induction cs arbitrary: p)
  case Nil
  then show ?case by simp
next
  case (Cons d cs)
  then have "unat (rr_number d) = unat (rr_number p) + 1"
    using validate_child_number [of C d p] by simp
  with Cons show ?case by (cases "c = d") fastforce+
qed

lemma linked_last_number:
  "linked C p cs \<Longrightarrow> unat (rr_number p) \<le> unat (rr_number (last (p # cs)))"
  using linked_numbers [of C p cs "last cs"] by (cases "cs = []") (auto simp: less_imp_le)

text \<open>
  A new valid child of the selected tip becomes the new tip: it cannot compete at an earlier link, because
  its number is one more than the tip's, and nothing known extends it yet.
\<close>

lemma select_chain_from_extend:
  assumes "validate_child C r (last (p # select_chain_from C p cs)) = Inr ()"
    and "\<And>c. c \<in> insert r (set cs) \<Longrightarrow> validate_child C c r \<noteq> Inr ()"
    and "set cs' = insert r (set cs)" and "inj_on (roster_canonical_hash C) (set cs')"
  shows "select_chain_from C p cs' = select_chain_from C p cs @ [r]"
  using assms
proof (induction C p cs rule: select_chain_from.induct)
  case (1 C p cs)
  have end_r: "select_child C r cs' = None" using 1(3,4) by (simp add: select_child_None)
  show ?case
  proof (cases "select_child C p cs")
    case None
    then have chain: "select_chain_from C p cs = []" by (rule select_chain_from_Nil)
    with 1(2) have r: "validate_child C r p = Inr ()" by simp
    obtain c where c: "select_child C p cs' = Some c"
      using r 1(4) select_child_None [of C p cs'] by (cases "select_child C p cs'") auto
    then have "c = r"
      using select_child_Some [OF c] None 1(4) by (auto simp: select_child_None)
    with c end_r chain show ?thesis by (simp add: select_chain_from_Cons select_chain_from_Nil)
  next
    case (Some c)
    have c: "c \<in> set cs" "validate_child C c p = Inr ()" using select_child_Some [OF Some] by simp_all
    have chain: "select_chain_from C p cs = c # select_chain_from C c cs"
      using Some by (rule select_chain_from_Cons)
    have "linked C c (select_chain_from C c cs)" using select_chain_from_spec by blast
    then have "unat (rr_number c) \<le> unat (rr_number (last (c # select_chain_from C c cs)))"
      by (rule linked_last_number)
    moreover have "validate_child C r (last (c # select_chain_from C c cs)) = Inr ()"
      using 1(2) chain by simp
    ultimately have "unat (rr_number r) \<noteq> unat (rr_number p) + 1"
      using validate_child_number [OF c(2)] validate_child_number
      by fastforce
    then have not_r: "validate_child C r p \<noteq> Inr ()" using validate_child_number by blast
    have "set (filter (\<lambda>x. is_ok (validate_child C x p)) cs')
        = set (filter (\<lambda>x. is_ok (validate_child C x p)) cs)"
      using not_r 1(4) by (auto simp: is_ok_iff)
    moreover have "inj_on (selection_key C) (set (filter (\<lambda>x. is_ok (validate_child C x p)) cs'))"
      using 1(5) by (auto simp: inj_on_def selection_key_def)
    ultimately have "select_child C p cs' = select_child C p cs"
      unfolding select_child_def by (rule max_by_key_cong_set)
    then have "select_chain_from C p cs' = c # select_chain_from C c cs'"
      using Some by (simp add: select_chain_from_Cons)
    moreover have "select_chain_from C c cs' = select_chain_from C c cs @ [r]"
      using 1 Some chain by simp
    ultimately show ?thesis using chain by simp
  qed
qed

end
