(* ===== verification/State_Roster.thy ===== *)
theory State_Roster
  imports State_Log Roster_Selection
begin

text \<open>
  \<open>state.rs\<close>, roster revisions: the stored revisions, the selected chain, merging a peer's chain, applying a
  membership change with its retry loop, and installing the state of a completed join. An operation made of
  several transactions keeps the committed ones when a later one fails.
\<close>

definition load_roster_revision :: "crypto \<Rightarrow> RosterHash \<Rightarrow> StateStore \<Rightarrow> StateError + RosterRevision option" where
  "load_roster_revision C hash s = (case om_get (roster_revisions s) (to_be_bytes hash) of
      None \<Rightarrow> Inr None
    | Some bytes \<Rightarrow>
        bindE (mapErr Roster (roster_from_canonical bytes)) (\<lambda>revision.
        if roster_canonical_hash C revision \<noteq> hash
        then Inl (InvalidStoredState ''roster hash does not match canonical bytes'')
        else Inr (Some revision)))"

definition roster_revision :: "crypto \<Rightarrow> RosterHash \<Rightarrow> StateStore \<Rightarrow> StateError + RosterRevision option" where
  "roster_revision C hash s = load_roster_revision C hash s"

definition insert_roster_revision_row :: "crypto \<Rightarrow> RosterRevision \<Rightarrow> StateStore \<Rightarrow> StateError + StateStore" where
  "insert_roster_revision_row C revision s =
    bindE (mapErr Sqlite (sql_insert (check_roster_row s) (to_be_bytes (roster_canonical_hash C revision))
      (roster_canonical_bytes revision) (roster_revisions s))) (\<lambda>t.
    Inr (s\<lparr>roster_revisions := t\<rparr>))"

definition insert_roster_revision :: "crypto \<Rightarrow> RosterRevision \<Rightarrow> (StateStore, StateError, unit) action" where
  "insert_roster_revision C revision = transactionS (\<lambda>s.
    bindE
      (if rr_number revision = 0
       then
         if length (roster_revisions s) \<noteq> 0
         then Inl (RosterTopology ''the database already contains a roster genesis'')
         else mapErr Roster (validate_genesis C revision)
       else
         bindE (ok_or (RosterTopology ''roster child does not name a parent'') (rr_parent_hash revision)) (\<lambda>parent_hash.
         bindE (load_roster_revision C parent_hash s) (\<lambda>found.
         bindE (ok_or (RosterTopology ''roster child parent is not stored'') found) (\<lambda>parent.
         mapErr Roster (validate_child C revision parent))))) (\<lambda>_.
    bindE (insert_roster_revision_row C revision s) (\<lambda>s.
    Inr ((), s))))"

definition roster_hash_from_blob :: "byte list \<Rightarrow> StateError + RosterHash" where
  "roster_hash_from_blob bytes =
    (if length bytes = 32 then Inr (from_be_bytes bytes)
     else Inl (InvalidStoredState ''roster hash has the wrong length''))"

text \<open>The loop that reads the table into a \<open>BTreeMap\<close>.\<close>

primrec read_revisions ::
  "crypto \<Rightarrow> (byte list \<times> byte list) list \<Rightarrow> (RosterHash, RosterRevision) omap
     \<Rightarrow> StateError + (RosterHash, RosterRevision) omap" where
  "read_revisions C [] revisions = Inr revisions"
| "read_revisions C (row # rows) revisions =
    bindE (mapErr Roster (roster_from_canonical (snd row))) (\<lambda>revision.
    bindE (roster_hash_from_blob (fst row)) (\<lambda>hash.
    if roster_canonical_hash C revision \<noteq> hash
    then Inl (InvalidStoredState ''roster hash does not match canonical bytes'')
    else if om_contains revisions hash then Inl (InvalidStoredState ''duplicate roster hash'')
    else read_revisions C rows (om_insert hash revision revisions)))"

text \<open>The check of one stored revision against the genesis and its parent.\<close>

definition validate_stored ::
  "crypto \<Rightarrow> (RosterHash, RosterRevision) omap \<Rightarrow> RosterRevision \<Rightarrow> RosterRevision \<Rightarrow> StateError + unit" where
  "validate_stored C revisions g revision =
    (if roster_canonical_hash C revision = roster_canonical_hash C g then Inr ()
     else if rr_group_id revision \<noteq> rr_group_id g
     then Inl (RosterTopology ''database contains more than one group'')
     else
       bindE (ok_or (RosterTopology ''non-genesis roster revision has no parent'') (rr_parent_hash revision)) (\<lambda>parent_hash.
       bindE (ok_or (RosterTopology ''roster revision parent is missing'') (om_get revisions parent_hash)) (\<lambda>parent.
       mapErr Roster (validate_child C revision parent))))"

definition selected_roster_chain :: "crypto \<Rightarrow> StateStore \<Rightarrow> StateError + RosterRevision list" where
  "selected_roster_chain C s =
    bindE (read_revisions C (roster_revisions s) []) (\<lambda>revisions.
    if revisions = [] then Inr []
    else
      let genesis_candidates =
            filter (\<lambda>r. rr_number r = 0 \<and> rr_parent_hash r = None) (map snd revisions)
      in case genesis_candidates of
           [] \<Rightarrow> Inl (RosterTopology ''roster genesis is missing'')
         | g # others \<Rightarrow>
             if others \<noteq> [] then Inl (RosterTopology ''database contains more than one roster genesis'')
             else
               bindE (mapErr Roster (validate_genesis C g)) (\<lambda>_.
               bindE (for_each (validate_stored C revisions g) (map snd revisions)) (\<lambda>_.
               let candidates =
                     filter (\<lambda>r. roster_canonical_hash C r \<noteq> roster_canonical_hash C g) (map snd revisions)
               in bindE (mapErr Roster (select_chain C g candidates)) (\<lambda>chain. Inr (g # chain)))))"

text \<open>\<open>windows(2)\<close>: every revision is checked against the one before it.\<close>

fun validate_links :: "crypto \<Rightarrow> RosterRevision list \<Rightarrow> StateError + unit" where
  "validate_links C (a # b # rs) =
    bindE (mapErr Roster (validate_child C b a)) (\<lambda>_. validate_links C (b # rs))"
| "validate_links C rs = Inr ()"

definition merge_one_revision :: "crypto \<Rightarrow> RosterRevision \<Rightarrow> (StateStore, StateError, unit) action" where
  "merge_one_revision C revision =
    bindS (queryS (roster_revision C (roster_canonical_hash C revision))) (\<lambda>found.
    if found = None then insert_roster_revision C revision else returnS ())"

definition merge_selected_roster_chain :: "crypto \<Rightarrow> RosterRevision list \<Rightarrow> (StateStore, StateError, unit) action" where
  "merge_selected_roster_chain C revisions = (case revisions of
      [] \<Rightarrow> throwS (RosterTopology ''remote roster is empty'')
    | remote_genesis # others \<Rightarrow>
        bindS (liftS (mapErr Roster (validate_genesis C remote_genesis))) (\<lambda>_.
        bindS (liftS (validate_links C revisions)) (\<lambda>_.
        bindS (queryS (selected_roster_chain C)) (\<lambda>local. case local of
            [] \<Rightarrow> throwS (RosterTopology ''local roster genesis is missing'')
          | local_genesis # _ \<Rightarrow>
              if roster_canonical_hash C remote_genesis \<noteq> roster_canonical_hash C local_genesis
              then throwS (RosterTopology ''remote roster genesis differs'')
              else forS (merge_one_revision C) others))))"

definition roster_change_is_satisfied :: "RosterRevision \<Rightarrow> RosterChange \<Rightarrow> bool" where
  "roster_change_is_satisfied revision change = (case change of
      Initialize member \<Rightarrow> om_get (rr_members revision) (mem_endpoint_id member) = Some (mem_device_name member)
    | Admit member \<Rightarrow> om_contains (rr_members revision) (mem_endpoint_id member)
    | Remove x \<Rightarrow> \<not> om_contains (rr_members revision) x)"

definition store_peer_hint :: "(EndpointId \<times> string) option \<Rightarrow> StateStore \<Rightarrow> StateError + StateStore" where
  "store_peer_hint new_hint s = (case new_hint of
      None \<Rightarrow> Inr s
    | Some (e, hint) \<Rightarrow> replace_peer_hint_in e hint s)"

text \<open>One iteration of the retry loop: \<open>Some\<close> is an early return, \<open>None\<close> another round.\<close>

definition apply_roster_change_once ::
  "crypto \<Rightarrow> DeviceIdentity \<Rightarrow> RosterChange \<Rightarrow> (EndpointId \<times> string) option
     \<Rightarrow> (StateStore, StateError, RosterRevision option) action" where
  "apply_roster_change_once C identity change new_hint =
    bindS (queryS (selected_roster_chain C)) (\<lambda>chain.
    if chain = [] then throwS (RosterTopology ''roster genesis is missing'')
    else
      let parent = last chain in
      if roster_change_is_satisfied parent change
      then
        bindS (transactionS (\<lambda>s. bindE (store_peer_hint new_hint s) (\<lambda>s. Inr ((), s)))) (\<lambda>_.
        returnS (Some parent))
      else
        bindS (liftS (mapErr Roster (child C parent change identity))) (\<lambda>revision.
        bindS (transactionS (\<lambda>s.
          bindE (load_roster_revision C (roster_canonical_hash C revision) s) (\<lambda>found.
          bindE (if found = None then insert_roster_revision_row C revision s else Inr s) (\<lambda>s.
          bindE (store_peer_hint new_hint s) (\<lambda>s.
          Inr ((), s)))))) (\<lambda>_.
        bindS (queryS (selected_roster_chain C)) (\<lambda>selected.
        if selected = [] then throwS (RosterTopology ''roster genesis is missing'')
        else if roster_change_is_satisfied (last selected) change
        then returnS (Some (last selected))
        else returnS None))))"

primrec apply_roster_change_loop ::
  "nat \<Rightarrow> crypto \<Rightarrow> DeviceIdentity \<Rightarrow> RosterChange \<Rightarrow> (EndpointId \<times> string) option
     \<Rightarrow> (StateStore, StateError, RosterRevision) action" where
  "apply_roster_change_loop 0 C identity change new_hint = throwS RosterRetryLimit"
| "apply_roster_change_loop (Suc n) C identity change new_hint =
    bindS (apply_roster_change_once C identity change new_hint) (\<lambda>outcome. case outcome of
        Some revision \<Rightarrow> returnS revision
      | None \<Rightarrow> apply_roster_change_loop n C identity change new_hint)"

definition apply_roster_change_inner ::
  "crypto \<Rightarrow> DeviceIdentity \<Rightarrow> RosterChange \<Rightarrow> (EndpointId \<times> string) option
     \<Rightarrow> (StateStore, StateError, RosterRevision) action" where
  "apply_roster_change_inner C identity change new_hint =
    apply_roster_change_loop (MAX_ROSTER_RETRY_DEPTH + 1) C identity change new_hint"

definition apply_roster_change ::
  "crypto \<Rightarrow> DeviceIdentity \<Rightarrow> RosterChange \<Rightarrow> (StateStore, StateError, RosterRevision) action" where
  "apply_roster_change C identity change = apply_roster_change_inner C identity change None"

definition apply_roster_change_with_peer_hint ::
  "crypto \<Rightarrow> DeviceIdentity \<Rightarrow> RosterChange \<Rightarrow> EndpointId \<Rightarrow> string
     \<Rightarrow> (StateStore, StateError, RosterRevision) action" where
  "apply_roster_change_with_peer_hint C identity change hint_endpoint hint =
    bindS (liftS (validate_peer_hint hint)) (\<lambda>_.
    apply_roster_change_inner C identity change (Some (hint_endpoint, hint)))"

section \<open>Joining\<close>

primrec insert_missing_revisions :: "crypto \<Rightarrow> RosterRevision list \<Rightarrow> StateStore \<Rightarrow> StateError + StateStore" where
  "insert_missing_revisions C [] s = Inr s"
| "insert_missing_revisions C (r # rs) s =
    bindE (load_roster_revision C (roster_canonical_hash C r) s) (\<lambda>found.
    bindE (if found = None then insert_roster_revision_row C r s else Inr s) (\<lambda>s.
    insert_missing_revisions C rs s))"

primrec replace_peer_hints :: "(EndpointId \<times> string) list \<Rightarrow> StateStore \<Rightarrow> StateError + StateStore" where
  "replace_peer_hints [] s = Inr s"
| "replace_peer_hints (h # hs) s =
    bindE (replace_peer_hint_in (fst h) (snd h) s) (replace_peer_hints hs)"

text \<open>\<open>local_name.is_none_or(|name| tip.members().get(&local_endpoint) != Some(name))\<close>\<close>

definition cannot_resume :: "EndpointId \<Rightarrow> string option \<Rightarrow> RosterRevision \<Rightarrow> bool" where
  "cannot_resume local_endpoint local_name tip =
    (case local_name of None \<Rightarrow> True | Some name \<Rightarrow> om_get (rr_members tip) local_endpoint \<noteq> Some name)"

definition install_joined_state_inner ::
  "crypto \<Rightarrow> RosterRevision list \<Rightarrow> EndpointId \<Rightarrow> string option \<Rightarrow> (EndpointId \<times> string) list \<Rightarrow> bool
     \<Rightarrow> (StateStore, StateError, unit) action" where
  "install_joined_state_inner C revisions local_endpoint local_name hints allow_resume =
    (case revisions of [] \<Rightarrow> throwS (RosterTopology ''joined roster is empty'') | g # _ \<Rightarrow>
      bindS (liftS (mapErr Roster (validate_genesis C g))) (\<lambda>_.
      bindS (liftS (validate_links C revisions)) (\<lambda>_.
      let tip = last revisions in
      if \<not> om_contains (rr_members tip) local_endpoint
      then throwS (RosterTopology ''joined roster does not contain this device'')
      else if (case local_name of None \<Rightarrow> False
                 | Some name \<Rightarrow> om_get (rr_members tip) local_endpoint \<noteq> Some name)
      then throwS (RosterTopology ''joined roster has a different local device name'')
      else bindS (queryS (selected_roster_chain C)) (\<lambda>existing.
      if \<not> allow_resume \<and> existing \<noteq> []
      then throwS (RosterTopology ''local state already belongs to a group'')
      else if existing \<noteq> [] \<and> roster_canonical_hash C (hd existing) \<noteq> roster_canonical_hash C g
      then throwS (RosterTopology ''joined roster belongs to a different group'')
      else if allow_resume \<and> existing \<noteq> [] \<and> cannot_resume local_endpoint local_name (last existing)
      then throwS (RosterTopology ''local membership cannot resume this join'')
      else
        bindS (liftS (for_each (\<lambda>(_, hint). validate_peer_hint hint) hints)) (\<lambda>_.
        bindS (transactionS (\<lambda>s.
          bindE (insert_missing_revisions C revisions s) (\<lambda>s.
          bindE (replace_peer_hints hints s) (\<lambda>s.
          Inr ((), s))))) (\<lambda>_.
        if \<not> allow_resume then returnS ()
        else bindS (queryS (selected_roster_chain C)) (\<lambda>selected.
          if selected = [] \<or> cannot_resume local_endpoint local_name (last selected)
          then throwS (RosterTopology ''selected roster cannot resume this join'')
          else returnS ())))))))"

definition install_joined_state ::
  "crypto \<Rightarrow> RosterRevision list \<Rightarrow> EndpointId \<Rightarrow> (EndpointId \<times> string) list
     \<Rightarrow> (StateStore, StateError, unit) action" where
  "install_joined_state C revisions local_endpoint hints =
    install_joined_state_inner C revisions local_endpoint None hints False"

definition install_joined_roster_chain ::
  "crypto \<Rightarrow> RosterRevision list \<Rightarrow> EndpointId \<Rightarrow> (StateStore, StateError, unit) action" where
  "install_joined_roster_chain C revisions local_endpoint = install_joined_state C revisions local_endpoint []"

definition install_or_resume_joined_state ::
  "crypto \<Rightarrow> RosterRevision list \<Rightarrow> EndpointId \<Rightarrow> string \<Rightarrow> (EndpointId \<times> string) list
     \<Rightarrow> (StateStore, StateError, unit) action" where
  "install_or_resume_joined_state C revisions local_endpoint local_name hints =
    install_joined_state_inner C revisions local_endpoint (Some local_name) hints True"

end
