(* ===== verification/Roster_Exchange.thy ===== *)
theory Roster_Exchange
  imports Roster_Selection
begin

text \<open>
  Two devices with different knowledge exchange their selected chains. Selection on the combined knowledge
  gives both the same chain: at the first link where the chains differ the greater child wins on both sides,
  and below it only the winner's side knows any revision.
\<close>

definition children :: "crypto \<Rightarrow> RosterRevision \<Rightarrow> RosterRevision set \<Rightarrow> RosterRevision set" where
  "children C p K = {c \<in> K. validate_child C c p = Inr ()}"

lemma select_child_Some_iff:
  assumes "inj_on (roster_canonical_hash C) (set cs)"
  shows "select_child C p cs = Some c \<longleftrightarrow>
    c \<in> children C p (set cs) \<and> (\<forall>d \<in> children C p (set cs). selection_key C d \<le> selection_key C c)"
proof
  assume c: "select_child C p cs = Some c"
  show "c \<in> children C p (set cs) \<and> (\<forall>d \<in> children C p (set cs). selection_key C d \<le> selection_key C c)"
    using select_child_Some [OF c] select_child_max [OF c] by (simp add: children_def)
next
  assume c: "c \<in> children C p (set cs) \<and> (\<forall>d \<in> children C p (set cs). selection_key C d \<le> selection_key C c)"
  then obtain d where d: "select_child C p cs = Some d"
    using select_child_None [of C p cs] by (cases "select_child C p cs") (auto simp: children_def)
  have "d \<in> children C p (set cs)" using select_child_Some [OF d] by (simp add: children_def)
  moreover have "selection_key C c \<le> selection_key C d"
    using select_child_max [OF d] c by (simp add: children_def)
  ultimately have "selection_key C c = selection_key C d" using c by (simp add: order_antisym)
  then have "c = d"
    using assms c \<open>d \<in> _\<close> by (auto simp: selection_key_def children_def inj_on_eq_iff)
  with d show "select_child C p cs = Some c" by simp
qed

lemma select_child_None_iff: "select_child C p cs = None \<longleftrightarrow> children C p (set cs) = {}"
  by (auto simp: select_child_None children_def)

lemma select_child_cong_children:
  assumes "children C p (set cs) = children C p (set cs')"
    and "inj_on (roster_canonical_hash C) (set cs)" and "inj_on (roster_canonical_hash C) (set cs')"
  shows "select_child C p cs = select_child C p cs'"
proof (cases "select_child C p cs")
  case None
  then have "children C p (set cs) = {}" by (simp only: select_child_None_iff)
  then have "select_child C p cs' = None" using assms(1) by (simp only: select_child_None_iff)
  with None show ?thesis by simp
next
  case (Some c)
  then have "select_child C p cs' = Some c"
    using assms(1) select_child_Some_iff [OF assms(2)] select_child_Some_iff [OF assms(3)] by simp
  with Some show ?thesis by simp
qed

lemma select_chain_from_ConsD:
  "c # cs = select_chain_from C p ks \<Longrightarrow> select_child C p ks = Some c \<and> cs = select_chain_from C c ks"
  by (cases "select_child C p ks") (simp_all add: select_chain_from_Nil select_chain_from_Cons)

lemma select_chain_from_NilD: "[] = select_chain_from C p ks \<Longrightarrow> children C p (set ks) = {}"
  by (cases "select_child C p ks")
    (simp_all add: select_child_None_iff [symmetric] select_chain_from_Cons)

text \<open>A set of revisions that contains the parent of each of its revisions, among the revisions of \<open>U\<close>.\<close>

definition parent_closed :: "crypto \<Rightarrow> RosterRevision set \<Rightarrow> RosterRevision set \<Rightarrow> bool" where
  "parent_closed C U X \<longleftrightarrow> (\<forall>x \<in> X. \<forall>y \<in> U. validate_child C x y = Inr () \<longrightarrow> y \<in> X)"

lemma parent_unique:
  assumes "inj_on (roster_canonical_hash C) U" and "p \<in> U" and "q \<in> U"
    and "validate_child C c p = Inr ()" and "validate_child C c q = Inr ()"
  shows "p = q"
  using assms by (simp add: validate_child_Inr inj_on_eq_iff)

text \<open>Knowledge that does not contain a revision adds nothing below it.\<close>

lemma select_chain_from_irrelevant:
  assumes "parent_closed C U X" and "p \<in> U" and "p \<notin> X" and "set cs' = set cs \<union> Y" and "Y \<subseteq> X"
    and "set cs' \<subseteq> U" and "inj_on (roster_canonical_hash C) U"
  shows "select_chain_from C p cs' = select_chain_from C p cs"
  using assms
proof (induction C p cs rule: select_chain_from.induct)
  case (1 C p cs)
  have no_child: "validate_child C x p \<noteq> Inr ()" if "x \<in> X" for x
    using 1(2-4) that by (auto simp: parent_closed_def)
  have inj: "inj_on (roster_canonical_hash C) (set cs)" "inj_on (roster_canonical_hash C) (set cs')"
    using 1(5,7,8) by (auto intro: inj_on_subset)
  have "children C p (set cs') = children C p (set cs)"
    using no_child 1(5,6) by (auto simp: children_def)
  then have eq: "select_child C p cs' = select_child C p cs"
    using inj by (intro select_child_cong_children)
  show ?case
  proof (cases "select_child C p cs")
    case None
    with eq show ?thesis by (simp add: select_chain_from_Nil)
  next
    case (Some c)
    have c: "c \<in> set cs" "validate_child C c p = Inr ()" using select_child_Some [OF Some] by simp_all
    then have "c \<notin> X" using no_child by blast
    moreover have "c \<in> U" using c(1) 1(5,7) by auto
    ultimately have "select_chain_from C c cs' = select_chain_from C c cs"
      using 1 Some by blast
    with Some eq show ?thesis by (simp add: select_chain_from_Cons)
  qed
qed

text \<open>Selection among fewer revisions that still include the selected chain gives the same chain.\<close>

lemma select_chain_from_restrict:
  assumes "set cs' \<subseteq> set cs" and "set (select_chain_from C p cs) \<subseteq> set cs'"
    and "inj_on (roster_canonical_hash C) (set cs)"
  shows "select_chain_from C p cs' = select_chain_from C p cs"
  using assms
proof (induction C p cs rule: select_chain_from.induct)
  case (1 C p cs)
  have inj': "inj_on (roster_canonical_hash C) (set cs')" using 1(2,4) by (rule inj_on_subset [rotated])
  have sub: "children C p (set cs') \<subseteq> children C p (set cs)" using 1(2) by (auto simp: children_def)
  show ?case
  proof (cases "select_child C p cs")
    case None
    then have "select_child C p cs' = None" using sub by (simp add: select_child_None_iff)
    with None show ?thesis by (simp add: select_chain_from_Nil)
  next
    case (Some c)
    then have chain: "select_chain_from C p cs = c # select_chain_from C c cs"
      by (rule select_chain_from_Cons)
    have "select_child C p cs' = Some c"
      using Some sub chain 1(3) unfolding select_child_Some_iff [OF 1(4)] select_child_Some_iff [OF inj']
      by (auto simp: children_def)
    moreover have "select_chain_from C c cs' = select_chain_from C c cs"
      using 1 Some chain by simp
    ultimately show ?thesis using chain by (simp add: select_chain_from_Cons)
  qed
qed

section \<open>Links of a chain\<close>

lemma linked_append: "linked C g (xs @ ys) \<longleftrightarrow> linked C g xs \<and> linked C (last (g # xs)) ys"
  by (induction xs arbitrary: g) auto

lemma linked_le_last:
  "linked C g xs \<Longrightarrow> x \<in> set xs \<Longrightarrow> unat (rr_number x) \<le> unat (rr_number (last (g # xs)))"
proof (induction xs arbitrary: g)
  case Nil
  then show ?case by simp
next
  case (Cons y ys)
  then have "unat (rr_number y) \<le> unat (rr_number (last (y # ys)))"
    by (intro linked_last_number [of C]) simp
  with Cons show ?case by auto
qed

lemma children_of_chain:
  assumes "linked C g (pre @ s)"
  shows "children C (last (g # pre)) (set (pre @ s)) = (case s of [] \<Rightarrow> {} | b # _ \<Rightarrow> {b})"
proof -
  let ?p = "last (g # pre)"
  have pre: "linked C g pre" and s: "linked C ?p s" using assms by (simp_all add: linked_append)
  have no_pre: "validate_child C x ?p \<noteq> Inr ()" if "x \<in> set pre" for x
    using linked_le_last [OF pre that] validate_child_number [of C x ?p] by fastforce
  show ?thesis
  proof (cases s)
    case Nil
    then show ?thesis using no_pre by (auto simp: children_def)
  next
    case (Cons b t)
    have b: "validate_child C b ?p = Inr ()" and t: "linked C b t" using s Cons by simp_all
    have "validate_child C x ?p \<noteq> Inr ()" if "x \<in> set t" for x
      using linked_numbers [OF t that] validate_child_number [OF b] validate_child_number [of C x ?p] by fastforce
    with no_pre b Cons show ?thesis by (auto simp: children_def)
  qed
qed

lemma children_union: "children C p (K \<union> L) = children C p K \<union> children C p L"
  by (auto simp: children_def)

section \<open>Exchange\<close>

text \<open>The side that knows the greater child below a common revision wins on both sides.\<close>

lemma exchange_winner:
  assumes inj: "inj_on (roster_canonical_hash C) U" and sub: "set as \<subseteq> U" "set bs \<subseteq> U" "g \<in> U"
    and closed: "parent_closed C U (insert g (set as))"
    and sA: "sA = select_chain_from C p as" and sB: "b # sB = select_chain_from C p bs"
    and linked: "linked C g (pre @ sA)" "linked C g (pre @ b # sB)" and p: "p = last (g # pre)"
    and b: "b \<notin> set as" "b \<noteq> g" and key: "\<And>a. a \<in> children C p (set as) \<Longrightarrow> selection_key C a \<le> selection_key C b"
    and pre: "set pre \<subseteq> set as" "set pre \<subseteq> set bs"
    and as': "set as' = set as \<union> set (pre @ b # sB)" and bs': "set bs' = set bs \<union> set (pre @ sA)"
  shows "select_chain_from C p as' = b # sB" "select_chain_from C p bs' = b # sB"
proof -
  have chains: "set sA \<subseteq> set as" "set (b # sB) \<subseteq> set bs"
    using select_chain_from_spec [of C p as] select_chain_from_spec [of C p bs] sA sB by simp_all
  have U: "set as' \<subseteq> U" "set bs' \<subseteq> U" using chains pre sub as' bs' by auto
  have injs: "inj_on (roster_canonical_hash C) K" if "K \<subseteq> U" for K
    using inj that by (rule inj_on_subset)
  have sel: "select_child C p bs = Some b" and tail: "select_chain_from C b bs = sB"
    using sB by (cases "select_child C p bs"; simp add: select_chain_from_Nil select_chain_from_Cons)+
  then have b_max: "b \<in> children C p (set bs)"
      "\<And>d. d \<in> children C p (set bs) \<Longrightarrow> selection_key C d \<le> selection_key C b"
    using select_child_Some_iff [OF injs [OF sub(2)]] by simp_all
  have bU: "b \<in> U" using chains(2) sub(2) by auto
  have "children C p (set as') = children C p (set as) \<union> {b}"
    unfolding as' children_union using children_of_chain [OF linked(2)] p by simp
  then have "select_child C p as' = Some b"
    using key unfolding select_child_Some_iff [OF injs [OF U(1)]] by auto
  moreover have "select_chain_from C b as' = select_chain_from C b (pre @ b # sB)"
    using b as' U(1) bU
    by (intro select_chain_from_irrelevant [OF closed, where Y = "set as"] inj) auto
  moreover have "select_chain_from C b (pre @ b # sB) = select_chain_from C b bs"
    using chains(2) pre(2) tail by (intro select_chain_from_restrict injs sub) auto
  ultimately show "select_chain_from C p as' = b # sB" using tail by (simp add: select_chain_from_Cons)
  have "children C p (set (pre @ sA)) \<subseteq> children C p (set as)"
    using chains(1) pre(1) by (auto simp: children_def)
  then have "select_child C p bs' = Some b"
    using key b_max unfolding select_child_Some_iff [OF injs [OF U(2)]] bs' children_union by auto
  moreover have "select_chain_from C b bs' = select_chain_from C b bs"
    using b bs' U(2) bU chains(1) pre(1)
    by (intro select_chain_from_irrelevant [OF closed, where Y = "set (pre @ sA)"] inj) auto
  ultimately show "select_chain_from C p bs' = b # sB" using tail by (simp add: select_chain_from_Cons)
qed

lemma exchange_from:
  assumes inj: "inj_on (roster_canonical_hash C) U" and sub: "set as \<subseteq> U" "set bs \<subseteq> U" "g \<in> U"
    and g: "rr_parent_hash g = None"
    and closed: "parent_closed C U (insert g (set as))" "parent_closed C U (insert g (set bs))"
    and "sA = select_chain_from C p as" "sB = select_chain_from C p bs"
    and "linked C g (pre @ sA)" "linked C g (pre @ sB)" "p = last (g # pre)"
    and "set pre \<subseteq> set as" "set pre \<subseteq> set bs"
    and "set as' = set as \<union> set (pre @ sB)" "set bs' = set bs \<union> set (pre @ sA)"
  shows "select_chain_from C p as' = select_chain_from C p bs'"
  using assms(8-)
proof (induction sA arbitrary: p pre sB)
  case Nil
  note prems = Nil
  have no_child: "children C p (set as) = {}" using prems(1) by (rule select_chain_from_NilD)
  show ?case
  proof (cases sB)
    case Nil
    then have "children C p (set bs) = {}" using prems(2) by (intro select_chain_from_NilD) simp
    moreover have "children C p (set pre) = {}"
      using children_of_chain [OF prems(3)] prems(5) by simp
    ultimately have "children C p (set as') = {}" "children C p (set bs') = {}"
      using prems(8,9) Nil no_child by (simp_all add: children_union)
    then show ?thesis by (simp add: select_child_None_iff [symmetric] select_chain_from_Nil)
  next
    case (Cons b t)
    have "select_child C p bs = Some b" using select_chain_from_ConsD [of b t C p bs] prems(2) Cons by simp
    then have "validate_child C b p = Inr ()" by (rule select_child_Some)
    then have "b \<notin> set as" "b \<noteq> g" using no_child g by (auto simp: children_def validate_child_Inr)
    then show ?thesis
      using exchange_winner [OF inj sub closed(1) prems(1) _ prems(3), of b t as' bs'] prems no_child Cons by simp
  qed
next
  case (Cons a sA)
  note prems = Cons.prems
  have sel_a: "select_child C p as = Some a" and tail_a: "sA = select_chain_from C a as"
    using select_chain_from_ConsD [OF prems(1)] by simp_all
  note a = select_child_Some [OF sel_a]
  have a_max: "\<And>d. d \<in> children C p (set as) \<Longrightarrow> selection_key C d \<le> selection_key C a"
    using select_child_max [OF sel_a] by (simp add: children_def)
  show ?case
  proof (cases sB)
    case Nil
    have no_child: "children C p (set bs) = {}" using prems(2) Nil by (intro select_chain_from_NilD) simp
    then have "a \<notin> set bs" "a \<noteq> g" using a(2) g by (auto simp: children_def validate_child_Inr)
    then show ?thesis
      using exchange_winner [OF inj sub(2,1,3) closed(2) prems(2) prems(1), of pre bs' as'] prems no_child Nil by simp
  next
    case (Cons b t)
    have sel_b: "select_child C p bs = Some b" and tail_b: "t = select_chain_from C b bs"
      using select_chain_from_ConsD [of b t C p bs] prems(2) Cons by simp_all
    note b = select_child_Some [OF sel_b]
    have b_max: "\<And>d. d \<in> children C p (set bs) \<Longrightarrow> selection_key C d \<le> selection_key C b"
      using select_child_max [OF sel_b] by (simp add: children_def)
    consider "selection_key C a < selection_key C b" | "selection_key C b < selection_key C a"
      | "selection_key C a = selection_key C b" by (rule linorder_cases)
    then show ?thesis
    proof cases
      case 1
      then have "b \<notin> set as" "b \<noteq> g" using b a_max [of b] g by (auto simp: children_def validate_child_Inr)
      moreover have "\<And>d. d \<in> children C p (set as) \<Longrightarrow> selection_key C d \<le> selection_key C b"
        using a_max 1 by (meson less_imp_le order_trans)
      ultimately show ?thesis
        using exchange_winner [OF inj sub closed(1) prems(1) _ prems(3), of b t as' bs'] prems Cons by simp
    next
      case 2
      then have "a \<notin> set bs" "a \<noteq> g" using a b_max [of a] g by (auto simp: children_def validate_child_Inr)
      moreover have "\<And>d. d \<in> children C p (set bs) \<Longrightarrow> selection_key C d \<le> selection_key C a"
        using b_max 2 by (meson less_imp_le order_trans)
      ultimately show ?thesis
        using exchange_winner [OF inj sub(2,1,3) closed(2) prems(2) prems(1), of pre bs' as'] prems Cons by simp
    next
      case 3
      have ab: "a = b" using 3 inj a(1) b(1) sub by (auto simp: selection_key_def inj_on_eq_iff subset_iff)
      have rec: "select_chain_from C a as' = select_chain_from C a bs'"
        using prems Cons ab tail_a tail_b a b
        by (intro Cons.IH [of a t "pre @ [a]"]) simp_all
      have in_U: "set as' \<subseteq> U" "set bs' \<subseteq> U"
        using prems(6-9) sub select_chain_from_spec [of C p as] select_chain_from_spec [of C p bs] prems(1,2)
        by auto
      have "children C p (set as') = children C p (set as) \<union> {a}"
        unfolding prems(8) children_union using children_of_chain [OF prems(4)] prems(5) Cons ab by simp
      then have "select_child C p as' = Some a"
        using a_max select_child_Some_iff [OF inj_on_subset [OF inj in_U(1)]] by auto
      moreover have "children C p (set bs') = children C p (set bs) \<union> {a}"
        unfolding prems(9) children_union using children_of_chain [OF prems(3)] prems(5) by simp
      then have "select_child C p bs' = Some a"
        using b_max ab select_child_Some_iff [OF inj_on_subset [OF inj in_U(2)]] by auto
      ultimately show ?thesis using rec by (simp add: select_chain_from_Cons)
    qed
  qed
qed

text \<open>The whole exchange: each device adds the other's selected chain to what it knows.\<close>

lemma exchange_chains:
  assumes "inj_on (roster_canonical_hash C) U" and "set as \<subseteq> U" "set bs \<subseteq> U" "g \<in> U"
    and "rr_parent_hash g = None"
    and "parent_closed C U (insert g (set as))" "parent_closed C U (insert g (set bs))"
    and "set as' = set as \<union> set (select_chain_from C g bs)"
    and "set bs' = set bs \<union> set (select_chain_from C g as)"
  shows "select_chain_from C g as' = select_chain_from C g bs'"
  using assms select_chain_from_spec [of C g as] select_chain_from_spec [of C g bs]
  by (intro exchange_from [where pre = "[]", OF assms(1-7) refl refl]) simp_all

end
