(* ===== verification/State_Roster_Props.thy ===== *)
theory State_Roster_Props
  imports State_Roster Roster_Exchange
begin

text \<open>
  What the roster table guarantees: every row decodes to the revision its hash names, the revisions form a tree
  of valid children below one genesis, and every operation keeps it so. A membership change applied by an
  active device becomes the selected tip, and two devices that exchange their chains select the same chain.
\<close>

section \<open>The roster invariant\<close>

definition storable :: "RosterRevision \<Rightarrow> bool" where
  "storable r \<longleftrightarrow> roster_wf r \<and> length (roster_canonical_bytes r) < 2 ^ 64"

definition revision_row :: "crypto \<Rightarrow> byte list \<Rightarrow> byte list \<Rightarrow> bool" where
  "revision_row C h bs \<longleftrightarrow>
     (\<exists>r. storable r \<and> h = to_be_bytes (roster_canonical_hash C r) \<and> bs = roster_canonical_bytes r)"

definition stored :: "crypto \<Rightarrow> StateStore \<Rightarrow> RosterRevision \<Rightarrow> bool" where
  "stored C s r \<longleftrightarrow> storable r
     \<and> om_get (roster_revisions s) (to_be_bytes (roster_canonical_hash C r)) = Some (roster_canonical_bytes r)"

definition rooted :: "crypto \<Rightarrow> StateStore \<Rightarrow> RosterRevision \<Rightarrow> bool" where
  "rooted C s g \<longleftrightarrow> stored C s g \<and> validate_genesis C g = Inr ()
     \<and> (\<forall>r. stored C s r \<longrightarrow> r = g \<or>
          rr_group_id r = rr_group_id g \<and> (\<exists>p. stored C s p \<and> validate_child C r p = Inr ()))"

definition roster_ok :: "crypto \<Rightarrow> StateStore \<Rightarrow> bool" where
  "roster_ok C s \<longleftrightarrow> rows_ok (revision_row C) (roster_revisions s)
     \<and> (roster_revisions s = [] \<or> (\<exists>g. rooted C s g))"

lemma storable_roundtrip: "storable r \<Longrightarrow> roster_from_canonical (roster_canonical_bytes r) = Inr r"
  unfolding roster_from_canonical_def storable_def
  by (rule roster_roundtrip) (auto simp: roster_wf_def)

lemma storable_bytes_inj:
  "storable r \<Longrightarrow> storable q \<Longrightarrow> roster_canonical_bytes r = roster_canonical_bytes q \<Longrightarrow> r = q"
  using storable_roundtrip by (metis Inr_inject)

lemma hash_bytes_inj: "to_be_bytes (x :: bytes32) = to_be_bytes y \<longleftrightarrow> x = y"
  by (simp add: to_be_bytes_inj)

lemma stored_hash_unique:
  "stored C s r \<Longrightarrow> stored C s q \<Longrightarrow> roster_canonical_hash C r = roster_canonical_hash C q \<Longrightarrow> r = q"
  by (auto simp: stored_def intro: storable_bytes_inj)

lemma stored_inj: "inj_on (roster_canonical_hash C) {r. stored C s r}"
  by (auto simp: inj_on_def intro: stored_hash_unique)

lemma stored_row:
  assumes "rows_ok (revision_row C) (roster_revisions s)"
    and "om_get (roster_revisions s) h = Some bs"
  obtains r where "stored C s r" "h = to_be_bytes (roster_canonical_hash C r)" "bs = roster_canonical_bytes r"
  using rows_okD [OF assms] assms(2) by (auto simp: revision_row_def stored_def)

lemma load_roster_revision_ok:
  assumes "rows_ok (revision_row C) (roster_revisions s)"
  shows "load_roster_revision C h s = Inr found \<longleftrightarrow>
    (case found of
       None \<Rightarrow> om_get (roster_revisions s) (to_be_bytes h) = None
     | Some r \<Rightarrow> stored C s r \<and> roster_canonical_hash C r = h)"
proof (cases "om_get (roster_revisions s) (to_be_bytes h)")
  case None
  then show ?thesis by (auto simp: load_roster_revision_def stored_def split: option.splits)
next
  case (Some bs)
  obtain r where r: "stored C s r" "to_be_bytes h = to_be_bytes (roster_canonical_hash C r)"
      "bs = roster_canonical_bytes r"
    by (rule stored_row [OF assms Some])
  then have "load_roster_revision C h s = Inr (Some r)"
    using Some by (simp add: load_roster_revision_def hash_bytes_inj storable_roundtrip stored_def)
  moreover have "h = roster_canonical_hash C r" using r(2) by (simp add: hash_bytes_inj)
  ultimately show ?thesis
    using Some r(1) by (auto split: option.splits dest: stored_hash_unique)
qed

section \<open>Reading the table\<close>

lemma read_revisions_ok:
  assumes "\<forall>(h, bs) \<in> set rows. revision_row C h bs" and "distinct (map fst rows)" and "om_wf acc"
    and "\<forall>h \<in> fst ` set rows. om_get acc (from_be_bytes h) = None"
  shows "\<exists>revs. read_revisions C rows acc = Inr revs \<and> om_wf revs
    \<and> (\<forall>h r. om_get revs h = Some r \<longleftrightarrow> om_get acc h = Some r \<or>
         storable r \<and> roster_canonical_hash C r = h \<and> (to_be_bytes h, roster_canonical_bytes r) \<in> set rows)"
  using assms
proof (induction rows arbitrary: acc)
  case Nil
  then show ?case by simp
next
  case (Cons row rows)
  obtain r where r: "storable r"
      and row: "row = (to_be_bytes (roster_canonical_hash C r), roster_canonical_bytes r)"
    using Cons.prems(1) by (cases row) (auto simp: revision_row_def)
  let ?h = "roster_canonical_hash C r" and ?acc = "om_insert (roster_canonical_hash C r) r acc"
  have fresh: "om_get acc ?h = None" using Cons.prems(4) row by (simp add: from_to_be_bytes)
  have step: "read_revisions C (row # rows) acc = read_revisions C rows ?acc"
    using fresh r
    by (simp add: row storable_roundtrip roster_hash_from_blob_def from_to_be_bytes om_contains_def)
  have others: "from_be_bytes h \<noteq> ?h" if "h \<in> fst ` set rows" for h
  proof
    assume eq: "from_be_bytes h = ?h"
    from that Cons.prems(1) obtain x where "h = to_be_bytes (roster_canonical_hash C x)"
      by (auto simp: revision_row_def)
    with eq have "h = to_be_bytes ?h" by (simp add: from_to_be_bytes)
    with that Cons.prems(2) row show False by auto
  qed
  have "\<forall>h \<in> fst ` set rows. om_get ?acc (from_be_bytes h) = None"
    using others Cons.prems(3,4) by (auto simp: om_get_insert)
  then obtain revs where revs: "read_revisions C rows ?acc = Inr revs" "om_wf revs"
      "\<forall>h q. om_get revs h = Some q \<longleftrightarrow> om_get ?acc h = Some q \<or>
         storable q \<and> roster_canonical_hash C q = h \<and> (to_be_bytes h, roster_canonical_bytes q) \<in> set rows"
    using Cons.IH [of ?acc] Cons.prems(1-3) by (auto simp: om_wf_insert)
  have "om_get ?acc h = Some q \<or> storable q \<and> roster_canonical_hash C q = h
        \<and> (to_be_bytes h, roster_canonical_bytes q) \<in> set rows \<longleftrightarrow>
      om_get acc h = Some q \<or> storable q \<and> roster_canonical_hash C q = h
        \<and> (to_be_bytes h, roster_canonical_bytes q) \<in> set (row # rows)" for h q
    using Cons.prems(3) fresh r
    by (auto simp: om_get_insert row hash_bytes_inj dest: storable_bytes_inj)
  with revs step show ?case by simp
qed

lemma read_table:
  assumes "rows_ok (revision_row C) (roster_revisions s)"
  obtains revs where "read_revisions C (roster_revisions s) [] = Inr revs" "om_wf revs"
    "\<And>h r. om_get revs h = Some r \<longleftrightarrow> stored C s r \<and> roster_canonical_hash C r = h"
proof -
  have wf: "om_wf (roster_revisions s)" using assms by (rule rows_ok_wf)
  have "\<forall>(h, bs) \<in> set (roster_revisions s). revision_row C h bs"
    using assms by (auto dest: rows_ok_in_set)
  from read_revisions_ok [OF this om_wf_distinct [OF wf], of "[]"] obtain revs where
      "read_revisions C (roster_revisions s) [] = Inr revs" "om_wf revs"
      "\<forall>h r. om_get revs h = Some r \<longleftrightarrow> storable r \<and> roster_canonical_hash C r = h
         \<and> (to_be_bytes h, roster_canonical_bytes r) \<in> set (roster_revisions s)"
    by auto
  then show ?thesis
    using that [of revs] by (auto simp: stored_def om_get_Some_iff [OF wf, symmetric])
qed

lemma revisions_values:
  assumes "om_wf revs" and "\<And>h r. om_get revs h = Some r \<longleftrightarrow> stored C s r \<and> roster_canonical_hash C r = h"
  shows "set (map snd revs) = {r. stored C s r}" and "distinct (map snd revs)"
proof -
  have in_revs: "(h, r) \<in> set revs \<longleftrightarrow> stored C s r \<and> roster_canonical_hash C r = h" for h r
    using assms by (simp add: om_get_Some_iff [symmetric])
  then show "set (map snd revs) = {r. stored C s r}" by force
  have "inj_on snd (set revs)" using in_revs by (auto simp: inj_on_def)
  moreover have "distinct revs" using om_wf_distinct [OF assms(1)] by (simp add: distinct_map)
  ultimately show "distinct (map snd revs)" by (simp add: distinct_map)
qed

section \<open>The selected chain\<close>

lemma distinct_singleton: "distinct xs \<Longrightarrow> set xs = {x} \<Longrightarrow> xs = [x]"
  by (metis distinct_card card.empty card_insert_disjoint empty_iff finite.emptyI length_0_conv
      length_Suc_conv list.simps(15) One_nat_def insertI1 singletonD empty_set)

lemma rooted_child_or_genesis:
  "rooted C s g \<Longrightarrow> stored C s r \<Longrightarrow> r \<noteq> g \<Longrightarrow>
     rr_group_id r = rr_group_id g \<and> (\<exists>p. stored C s p \<and> validate_child C r p = Inr ())"
  by (auto simp: rooted_def)

lemma selected_chain_ok:
  assumes rows: "rows_ok (revision_row C) (roster_revisions s)" and g: "rooted C s g"
  obtains cs where "selected_roster_chain C s = Inr (g # select_chain_from C g cs)"
    "set cs = {r. stored C s r} - {g}"
proof -
  obtain revs where read: "read_revisions C (roster_revisions s) [] = Inr revs" and wf: "om_wf revs"
      and get: "\<And>h r. om_get revs h = Some r \<longleftrightarrow> stored C s r \<and> roster_canonical_hash C r = h"
    by (rule read_table [OF rows]) blast
  note vals = revisions_values [OF wf get]
  have sg: "stored C s g" and vg: "validate_genesis C g = Inr ()" using g by (simp_all add: rooted_def)
  have is_gen: "rr_number r = 0 \<and> rr_parent_hash r = None \<longleftrightarrow> r = g" if "stored C s r" for r
    using rooted_child_or_genesis [OF g that] vg
    by (cases "r = g") (auto simp: validate_child_Inr validate_genesis_Inr)
  have gens: "filter (\<lambda>r. rr_number r = 0 \<and> rr_parent_hash r = None) (map snd revs) = [g]"
  proof (rule distinct_singleton)
    show "distinct (filter (\<lambda>r. rr_number r = 0 \<and> rr_parent_hash r = None) (map snd revs))"
      using vals(2) by (rule distinct_filter)
    show "set (filter (\<lambda>r. rr_number r = 0 \<and> rr_parent_hash r = None) (map snd revs)) = {g}"
      using vals(1) is_gen sg by auto
  qed
  have valid: "validate_stored C revs g r = Inr ()" if r: "stored C s r" for r
  proof (cases "r = g")
    case False
    then obtain p where "rr_group_id r = rr_group_id g" "stored C s p" "validate_child C r p = Inr ()"
      using rooted_child_or_genesis [OF g r] by blast
    then show ?thesis using get [of "roster_canonical_hash C p" p]
      by (simp add: validate_stored_def validate_child_Inr)
  qed (simp add: validate_stored_def)
  have all: "for_each (validate_stored C revs g) (map snd revs) = Inr ()"
    using vals(1) valid by (simp add: for_each_eq_Inr del: set_map)
  define cs where "cs = filter (\<lambda>r. roster_canonical_hash C r \<noteq> roster_canonical_hash C g) (map snd revs)"
  have "set cs = {r. stored C s r} - {g}"
    unfolding cs_def set_filter vals(1) using sg by (auto dest: stored_hash_unique)
  moreover have "revs \<noteq> []" using vals(1) sg by auto
  then have "selected_roster_chain C s = Inr (g # select_chain_from C g cs)"
    unfolding selected_roster_chain_def read bindE_simps Let_def gens
    by (simp add: vg all select_chain_def cs_def)
  ultimately show ?thesis using that by blast
qed

lemma selected_chain_empty: "roster_revisions s = [] \<Longrightarrow> selected_roster_chain C s = Inr []"
  by (simp add: selected_roster_chain_def)

lemma rooted_unique: "rooted C s g \<Longrightarrow> rooted C s g' \<Longrightarrow> g = g'"
  unfolding rooted_def by (auto simp: validate_genesis_Inr validate_child_Inr)

lemma rooted_nonempty: "rooted C s g \<Longrightarrow> roster_revisions s \<noteq> []"
  by (auto simp: rooted_def stored_def)

lemma roster_ok_cong: "roster_revisions s' = roster_revisions s \<Longrightarrow> roster_ok C s' = roster_ok C s"
  by (simp add: roster_ok_def rooted_def stored_def)

lemma selected_chain_cases:
  assumes "roster_ok C s" and "selected_roster_chain C s = Inr chain" and "chain \<noteq> []"
  obtains g cs where "rooted C s g" "chain = g # select_chain_from C g cs"
    "set cs = {r. stored C s r} - {g}"
proof -
  from assms have "roster_revisions s \<noteq> []" by (auto simp: selected_chain_empty)
  then obtain g where g: "rooted C s g" using assms(1) by (auto simp: roster_ok_def)
  moreover obtain cs where "selected_roster_chain C s = Inr (g # select_chain_from C g cs)"
      "set cs = {r. stored C s r} - {g}"
    using selected_chain_ok [OF _ g] assms(1) by (auto simp: roster_ok_def)
  ultimately show ?thesis using that assms(2) by auto
qed

lemma selected_chain_stored:
  assumes "roster_ok C s" and "selected_roster_chain C s = Inr chain" and "r \<in> set chain"
  shows "stored C s r"
proof -
  have ne: "chain \<noteq> []" using assms(3) by auto
  obtain g cs where "rooted C s g" "chain = g # select_chain_from C g cs"
    "set cs = {r. stored C s r} - {g}"
    by (rule selected_chain_cases [OF assms(1,2) ne])
  then show ?thesis using assms(3) select_chain_from_spec [of C g cs] by (auto simp: rooted_def)
qed

section \<open>Adding a revision\<close>

lemma insert_row_Inr:
  "insert_roster_revision_row C r s = Inr s' \<Longrightarrow>
     om_get (roster_revisions s) (to_be_bytes (roster_canonical_hash C r)) = None
     \<and> s' = s\<lparr>roster_revisions := om_insert (to_be_bytes (roster_canonical_hash C r)) (roster_canonical_bytes r)
          (roster_revisions s)\<rparr>"
  by (auto simp: insert_roster_revision_row_def bindE_eq_Inr sql_insert_eq_Inr)

lemma insert_row_ok:
  assumes rows: "rows_ok (revision_row C) (roster_revisions s)" and r: "storable r"
    and fresh: "om_get (roster_revisions s) (to_be_bytes (roster_canonical_hash C r)) = None"
  obtains s' where "insert_roster_revision_row C r s = Inr s'"
proof -
  have "length (roster_canonical_bytes r) > 0"
    using r by (simp add: storable_def roster_canonical_bytes_eq ROSTER_DOMAIN_def)
  moreover have "roster_canonical_bytes r \<notin> snd ` set (roster_revisions s)"
  proof
    assume "roster_canonical_bytes r \<in> snd ` set (roster_revisions s)"
    then obtain h where "(h, roster_canonical_bytes r) \<in> set (roster_revisions s)" by auto
    then have "om_get (roster_revisions s) h = Some (roster_canonical_bytes r)"
      using rows_ok_wf [OF rows] by (simp add: om_get_Some_iff)
    then obtain q where "stored C s q" "roster_canonical_bytes r = roster_canonical_bytes q"
        "h = to_be_bytes (roster_canonical_hash C q)"
      using stored_row [OF rows] by blast
    then show False using fresh r storable_bytes_inj [of r q] by (simp add: stored_def)
  qed
  ultimately show ?thesis
    using fresh that
    by (auto simp: insert_roster_revision_row_def sql_insert_def check_roster_row_def om_contains_def)
qed

lemma insert_row_stored:
  assumes ins: "insert_roster_revision_row C r s = Inr s'"
    and rows: "rows_ok (revision_row C) (roster_revisions s)" and r: "storable r"
  shows "rows_ok (revision_row C) (roster_revisions s')" and "stored C s' x \<longleftrightarrow> stored C s x \<or> x = r"
proof -
  note s' = insert_row_Inr [OF ins]
  have "revision_row C (to_be_bytes (roster_canonical_hash C r)) (roster_canonical_bytes r)"
    using r by (auto simp: revision_row_def)
  then show "rows_ok (revision_row C) (roster_revisions s')"
    using rows s' by (simp add: rows_ok_om_insert)
  show "stored C s' x \<longleftrightarrow> stored C s x \<or> x = r"
    using s' r rows_ok_wf [OF rows] by (auto simp: stored_def om_get_insert hash_bytes_inj dest: storable_bytes_inj)
qed

lemma rooted_insert:
  assumes "rooted C s g" and "\<And>x. stored C s' x \<longleftrightarrow> stored C s x \<or> x = r"
    and "stored C s p" and "validate_child C r p = Inr ()"
  shows "rooted C s' g"
proof -
  have "rr_group_id p = rr_group_id g" using assms(1,3) by (auto simp: rooted_def)
  then have "rr_group_id r = rr_group_id g" using assms(4) by (simp add: validate_child_Inr)
  then show ?thesis
    using assms unfolding rooted_def by blast
qed

lemma insert_child_ok:
  assumes "roster_ok C s" and "storable r" and "stored C s p" and "validate_child C r p = Inr ()"
    and "insert_roster_revision_row C r s = Inr s'"
  shows "roster_ok C s'"
proof -
  have rows: "rows_ok (revision_row C) (roster_revisions s)" using assms(1) by (simp add: roster_ok_def)
  note new = insert_row_stored [OF assms(5) rows assms(2)]
  obtain g where "rooted C s g"
    using assms(1,3) by (auto simp: roster_ok_def stored_def)
  then have "rooted C s' g" using new(2) assms(3,4) by (rule rooted_insert)
  with new(1) show ?thesis by (auto simp: roster_ok_def)
qed

lemma insert_genesis_ok:
  assumes "roster_revisions s = []" and "storable r" and "validate_genesis C r = Inr ()"
    and "insert_roster_revision_row C r s = Inr s'"
  shows "roster_ok C s' \<and> rooted C s' r"
proof -
  have rows: "rows_ok (revision_row C) (roster_revisions s)" using assms(1) by simp
  note new = insert_row_stored [OF assms(4) rows assms(2)]
  have "\<not> stored C s x" for x using assms(1) by (simp add: stored_def)
  then have "rooted C s' r" using new(2) assms(3) by (simp add: rooted_def)
  with new(1) show ?thesis by (auto simp: roster_ok_def)
qed

lemma preserves_insert_roster_revision [preserves_intros]:
  assumes "storable r"
  shows "preserves (roster_ok C) (insert_roster_revision C r)"
  unfolding insert_roster_revision_def
proof (rule preserves_transactionS)
  fix s a s' assume ok: "roster_ok C s"
  then have rows: "rows_ok (revision_row C) (roster_revisions s)" by (simp add: roster_ok_def)
  assume "bindE (if rr_number r = 0
       then if length (roster_revisions s) \<noteq> 0
         then Inl (RosterTopology ''the database already contains a roster genesis'')
         else mapErr Roster (validate_genesis C r)
       else
         bindE (ok_or (RosterTopology ''roster child does not name a parent'') (rr_parent_hash r)) (\<lambda>parent_hash.
         bindE (load_roster_revision C parent_hash s) (\<lambda>found.
         bindE (ok_or (RosterTopology ''roster child parent is not stored'') found) (\<lambda>parent.
         mapErr Roster (validate_child C r parent))))) (\<lambda>_.
    bindE (insert_roster_revision_row C r s) (\<lambda>s. Inr ((), s))) = Inr (a, s')"
  then have ins: "insert_roster_revision_row C r s = Inr s'"
    and "roster_revisions s = [] \<and> validate_genesis C r = Inr ()
       \<or> (\<exists>h p. load_roster_revision C h s = Inr (Some p) \<and> validate_child C r p = Inr ())"
    by (auto simp: bindE_eq_Inr split: if_splits)
  then show "roster_ok C s'"
    using insert_genesis_ok [OF _ assms _ ins] insert_child_ok [OF ok assms _ _ ins]
      load_roster_revision_ok [OF rows]
    by fastforce
qed

section \<open>Merging a peer's chain\<close>

text \<open>The effect of making one more valid child known, unless another stored revision has its hash.\<close>

definition grown :: "crypto \<Rightarrow> StateStore \<Rightarrow> RosterRevision set \<Rightarrow> StateStore \<Rightarrow> bool" where
  "grown C s R s' \<longleftrightarrow> rows_ok (revision_row C) (roster_revisions s')
     \<and> (\<forall>g. rooted C s g \<longrightarrow> rooted C s' g) \<and> {x. stored C s' x} = {x. stored C s x} \<union> R
     \<and> (\<exists>t. s' = s\<lparr>roster_revisions := t\<rparr>)"

definition collision_free :: "crypto \<Rightarrow> StateStore \<Rightarrow> RosterRevision set \<Rightarrow> bool" where
  "collision_free C s R \<longleftrightarrow> inj_on (roster_canonical_hash C) ({x. stored C s x} \<union> R)"

lemma grown_refl: "rows_ok (revision_row C) (roster_revisions s) \<Longrightarrow> stored C s r \<Longrightarrow> grown C s {r} s"
  unfolding grown_def by (auto intro: exI [of _ "roster_revisions s"])

lemma grown_trans: "grown C s R s' \<Longrightarrow> grown C s' Q s'' \<Longrightarrow> grown C s (R \<union> Q) s''"
  unfolding grown_def by auto

lemma grown_insert:
  assumes "rows_ok (revision_row C) (roster_revisions s)" and "storable r" and "stored C s p"
    and "validate_child C r p = Inr ()" and "insert_roster_revision_row C r s = Inr s'"
  shows "grown C s {r} s'"
proof -
  note new = insert_row_stored [OF assms(5,1,2)]
  have "rooted C s' g" if "rooted C s g" for g using that new(2) assms(3,4) by (rule rooted_insert)
  then show ?thesis using new insert_row_Inr [OF assms(5)] unfolding grown_def by auto
qed

lemma add_revision_ok:
  assumes rows: "rows_ok (revision_row C) (roster_revisions s)" and r: "storable r" and p: "stored C s p"
    and child: "validate_child C r p = Inr ()" and nc: "collision_free C s {r}"
  obtains found s' where "load_roster_revision C (roster_canonical_hash C r) s = Inr found"
    "(if found = None then insert_roster_revision_row C r s else Inr s) = Inr s'" "grown C s {r} s'"
proof (cases "om_get (roster_revisions s) (to_be_bytes (roster_canonical_hash C r))")
  case None
  then have "load_roster_revision C (roster_canonical_hash C r) s = Inr None"
    using load_roster_revision_ok [OF rows, of _ None] by simp
  moreover obtain s' where "insert_roster_revision_row C r s = Inr s'"
    by (rule insert_row_ok [OF rows r None])
  ultimately show ?thesis using that [of None s'] grown_insert [OF rows r p child] by simp
next
  case (Some bs)
  obtain x where x: "stored C s x" "to_be_bytes (roster_canonical_hash C r) = to_be_bytes (roster_canonical_hash C x)"
    by (rule stored_row [OF rows Some]) blast
  then have "x = r" using nc by (auto simp: collision_free_def hash_bytes_inj inj_on_def)
  then have "load_roster_revision C (roster_canonical_hash C r) s = Inr (Some r)"
    using load_roster_revision_ok [OF rows, of _ "Some r"] x by simp
  then show ?thesis using that [of "Some r" s] grown_refl [OF rows] x \<open>x = r\<close> by simp
qed

lemma merge_one_ok:
  assumes rows: "rows_ok (revision_row C) (roster_revisions s)" and r: "storable r" and p: "stored C s p"
    and child: "validate_child C r p = Inr ()" and nc: "collision_free C s {r}"
  obtains s' where "merge_one_revision C r s = (Inr (), s')" "grown C s {r} s'"
proof -
  obtain found s' where f: "load_roster_revision C (roster_canonical_hash C r) s = Inr found"
    "(if found = None then insert_roster_revision_row C r s else Inr s) = Inr s'" "grown C s {r} s'"
    by (rule add_revision_ok [OF assms])
  have "rr_number r \<noteq> 0"
    using validate_child_number [OF child] by auto
  moreover have "rr_parent_hash r = Some (roster_canonical_hash C p)" using child by (simp add: validate_child_Inr)
  moreover have "load_roster_revision C (roster_canonical_hash C p) s = Inr (Some p)"
    using load_roster_revision_ok [OF rows, of _ "Some p"] p by simp
  ultimately have "insert_roster_revision C r s = (Inr (), s')" if "found = None"
    using that f(2) child by (simp add: insert_roster_revision_def transactionS_def)
  then have "merge_one_revision C r s = (Inr (), s')"
    using f(1,2) by (cases found) (simp_all add: merge_one_revision_def roster_revision_def bindS_def)
  with f(3) show ?thesis using that by blast
qed

lemma collision_free_grown:
  assumes "grown C s {r} s'" and "collision_free C s (insert r R)"
  shows "collision_free C s {r}" "collision_free C s' R"
  using assms by (auto simp: collision_free_def grown_def intro: inj_on_subset)

lemma grown_rows: "grown C s R s' \<Longrightarrow> rows_ok (revision_row C) (roster_revisions s')"
  by (simp add: grown_def)

lemma grown_set: "grown C s R s' \<Longrightarrow> {x. stored C s' x} = {x. stored C s x} \<union> R"
  by (simp add: grown_def)

lemma grown_rooted: "grown C s R s' \<Longrightarrow> rooted C s g \<Longrightarrow> rooted C s' g"
  by (simp add: grown_def)

lemma grown_stored: "grown C s R s' \<Longrightarrow> stored C s' x \<longleftrightarrow> stored C s x \<or> x \<in> R"
  by (auto simp: grown_def)

lemma merge_links_ok:
  assumes "rows_ok (revision_row C) (roster_revisions s)" and "\<forall>r \<in> set rs. storable r"
    and "stored C s p" and "linked C p rs" and "collision_free C s (set rs)"
  shows "\<exists>s'. forS (merge_one_revision C) rs s = (Inr (), s') \<and> grown C s (set rs) s'"
  using assms
proof (induction rs arbitrary: s p)
  case Nil
  then show ?case by (auto simp: grown_def intro: exI [of _ "roster_revisions s"])
next
  case (Cons r rs)
  then have nc: "collision_free C s {r}" by (auto simp: collision_free_def intro: inj_on_subset)
  obtain s1 where s1: "merge_one_revision C r s = (Inr (), s1)" "grown C s {r} s1"
    using merge_one_ok [OF Cons.prems(1) _ Cons.prems(3) _ nc] Cons.prems(2,4) by auto
  obtain s' where s': "forS (merge_one_revision C) rs s1 = (Inr (), s')" "grown C s1 (set rs) s'"
    using Cons.IH [OF grown_rows [OF s1(2)], of r] Cons.prems(2,4,5) grown_stored [OF s1(2)]
      collision_free_grown(2) [OF s1(2)] by auto
  have "forS (merge_one_revision C) (r # rs) s = (Inr (), s')"
    using s1(1) s'(1) by (simp add: bindS_def)
  then show ?case using grown_trans [OF s1(2) s'(2)] by auto
qed

lemma insert_missing_ok:
  assumes "rows_ok (revision_row C) (roster_revisions s)" and "\<forall>r \<in> set rs. storable r"
    and "stored C s p" and "linked C p rs" and "collision_free C s (set rs)"
  shows "\<exists>s'. insert_missing_revisions C rs s = Inr s' \<and> grown C s (set rs) s'"
  using assms
proof (induction rs arbitrary: s p)
  case Nil
  then show ?case by (auto simp: grown_def intro: exI [of _ "roster_revisions s"])
next
  case (Cons r rs)
  then have nc: "collision_free C s {r}" by (auto simp: collision_free_def intro: inj_on_subset)
  obtain found s1 where s1: "load_roster_revision C (roster_canonical_hash C r) s = Inr found"
      "(if found = None then insert_roster_revision_row C r s else Inr s) = Inr s1" "grown C s {r} s1"
    using add_revision_ok [OF Cons.prems(1) _ Cons.prems(3) _ nc] Cons.prems(2,4)
    by (metis linked.simps(2) list.set_intros(1))
  obtain s' where s': "insert_missing_revisions C rs s1 = Inr s'" "grown C s1 (set rs) s'"
    using Cons.IH [OF grown_rows [OF s1(3)], of r] Cons.prems(2,4,5) grown_stored [OF s1(3)]
      collision_free_grown(2) [OF s1(3)] by auto
  have "insert_missing_revisions C (r # rs) s = Inr s'"
    using s1(1,2) s'(1) by simp
  then show ?case using grown_trans [OF s1(3) s'(2)] by auto
qed

lemma validate_links_Inr: "validate_links C (g # rs) = Inr () \<longleftrightarrow> linked C g rs"
  by (induction rs arbitrary: g) (auto simp: bindE_eq_Inr)

lemma merge_selected_ok:
  assumes ok: "roster_ok C s" and g: "rooted C s g" and st: "\<forall>r \<in> set rs. storable r"
    and links: "linked C g rs" and nc: "collision_free C s (set rs)"
  shows "\<exists>s'. merge_selected_roster_chain C (g # rs) s = (Inr (), s') \<and> grown C s (set rs) s'"
proof -
  have rows: "rows_ok (revision_row C) (roster_revisions s)" using ok by (simp add: roster_ok_def)
  have sg: "stored C s g" "validate_genesis C g = Inr ()" using g by (simp_all add: rooted_def)
  obtain s' where s': "forS (merge_one_revision C) rs s = (Inr (), s')" "grown C s (set rs) s'"
    using merge_links_ok [OF rows st sg(1) links nc] by blast
  obtain cs where "selected_roster_chain C s = Inr (g # select_chain_from C g cs)"
    by (rule selected_chain_ok [OF rows g])
  moreover have "validate_links C (g # rs) = Inr ()" using links by (simp only: validate_links_Inr)
  ultimately have "merge_selected_roster_chain C (g # rs) s = (Inr (), s')"
    using s'(1) sg(2) by (simp add: merge_selected_roster_chain_def bindS_def)
  with s'(2) show ?thesis by blast
qed

lemma stored_parent_closed:
  assumes "rooted C s g" and "inj_on (roster_canonical_hash C) U" and "{r. stored C s r} \<subseteq> U"
  shows "parent_closed C U {r. stored C s r}"
  unfolding parent_closed_def
proof (intro ballI impI)
  fix x y assume x: "x \<in> {r. stored C s r}" and y: "y \<in> U" "validate_child C x y = Inr ()"
  have "x \<noteq> g" using y(2) assms(1) by (auto simp: rooted_def validate_genesis_Inr validate_child_Inr)
  then obtain p where "stored C s p" "validate_child C x p = Inr ()"
    using rooted_child_or_genesis [OF assms(1), of x] x by auto
  with y assms(2,3) show "y \<in> {r. stored C s r}" using parent_unique [of C U p y x] by auto
qed

text \<open>
  C6. Roster convergence between two devices: when each merges the chain the other has selected, both merges
  succeed and both devices then select the same chain, provided no two of the revisions involved collide
  under BLAKE3. The devices may know different branches before, and need not exchange anything else.
\<close>

theorem exchange_converges:
  assumes ok: "roster_ok C a" "roster_ok C b" and g: "rooted C a g" "rooted C b g"
    and sel: "selected_roster_chain C a = Inr ca" "selected_roster_chain C b = Inr cb"
    and inj: "inj_on (roster_canonical_hash C) ({r. stored C a r} \<union> {r. stored C b r})"
  shows "\<exists>a' b' chain. merge_selected_roster_chain C cb a = (Inr (), a')
    \<and> merge_selected_roster_chain C ca b = (Inr (), b')
    \<and> selected_roster_chain C a' = Inr chain \<and> selected_roster_chain C b' = Inr chain"
proof -
  let ?A = "{r. stored C a r}" and ?B = "{r. stored C b r}"
  have rows: "rows_ok (revision_row C) (roster_revisions a)" "rows_ok (revision_row C) (roster_revisions b)"
    using ok by (simp_all add: roster_ok_def)
  obtain as where as: "ca = g # select_chain_from C g as" "set as = ?A - {g}"
    using selected_chain_ok [OF rows(1) g(1)] sel(1) by auto
  obtain bs where bs: "cb = g # select_chain_from C g bs" "set bs = ?B - {g}"
    using selected_chain_ok [OF rows(2) g(2)] sel(2) by auto
  note spec = select_chain_from_spec [of C g as] select_chain_from_spec [of C g bs]
  have sub: "set (select_chain_from C g as) \<subseteq> ?A" "set (select_chain_from C g bs) \<subseteq> ?B"
    using spec as(2) bs(2) by auto
  have in_g: "g \<in> ?A" "g \<in> ?B" using g by (simp_all add: rooted_def)
  obtain a' where a': "merge_selected_roster_chain C cb a = (Inr (), a')"
      "grown C a (set (select_chain_from C g bs)) a'"
    using merge_selected_ok [OF ok(1) g(1), of "select_chain_from C g bs"] sub spec bs(1) inj
    by (auto simp: collision_free_def stored_def intro: inj_on_subset)
  obtain b' where b': "merge_selected_roster_chain C ca b = (Inr (), b')"
      "grown C b (set (select_chain_from C g as)) b'"
    using merge_selected_ok [OF ok(2) g(2), of "select_chain_from C g as"] sub spec as(1) inj
    by (auto simp: collision_free_def stored_def Un_commute intro: inj_on_subset)
  obtain as' where as': "selected_roster_chain C a' = Inr (g # select_chain_from C g as')"
      "set as' = {r. stored C a' r} - {g}"
    by (rule selected_chain_ok [OF grown_rows [OF a'(2)] grown_rooted [OF a'(2) g(1)]])
  obtain bs' where bs': "selected_roster_chain C b' = Inr (g # select_chain_from C g bs')"
      "set bs' = {r. stored C b' r} - {g}"
    by (rule selected_chain_ok [OF grown_rows [OF b'(2)] grown_rooted [OF b'(2) g(2)]])
  have gp: "rr_parent_hash g = None" using g(1) by (simp add: rooted_def validate_genesis_Inr)
  have "insert g (set as) = ?A" "insert g (set bs) = ?B" using as(2) bs(2) in_g by auto
  then have closed: "parent_closed C (?A \<union> ?B) (insert g (set as))" "parent_closed C (?A \<union> ?B) (insert g (set bs))"
    using stored_parent_closed [OF g(1) inj] stored_parent_closed [OF g(2) inj] by auto
  have no_g_chain: "g \<notin> set (select_chain_from C g as)" "g \<notin> set (select_chain_from C g bs)"
    using spec as(2) bs(2) by auto
  have "set as' = set as \<union> set (select_chain_from C g bs)" "set bs' = set bs \<union> set (select_chain_from C g as)"
    unfolding as'(2) bs'(2) as(2) bs(2) grown_set [OF a'(2)] grown_set [OF b'(2)] using no_g_chain by blast+
  then have "select_chain_from C g as' = select_chain_from C g bs'"
    by (intro exchange_chains [OF inj _ _ _ gp closed]) (use as(2) bs(2) in_g in blast)+
  with a'(1) b'(1) as'(1) bs'(1) show ?thesis by metis
qed

section \<open>Applying a membership change\<close>

lemma grown_ok: "roster_ok C s \<Longrightarrow> rooted C s g \<Longrightarrow> grown C s R s' \<Longrightarrow> roster_ok C s'"
  by (auto simp: roster_ok_def grown_def)

lemma tip_extended:
  assumes ok: "roster_ok C s" and sel: "selected_roster_chain C s = Inr chain" "chain \<noteq> []"
    and r: "validate_child C r (last chain) = Inr ()" and grown: "grown C s {r} s'"
    and nc: "collision_free C s {r}"
  shows "selected_roster_chain C s' = Inr (chain @ [r]) \<and> roster_ok C s'"
proof -
  obtain g cs where g: "rooted C s g" and chain: "chain = g # select_chain_from C g cs"
      and cs: "set cs = {x. stored C s x} - {g}"
    by (rule selected_chain_cases [OF ok sel])
  note spec = select_chain_from_spec [of C g cs]
  have inj: "inj_on (roster_canonical_hash C) ({x. stored C s x} \<union> {r})" using nc by (simp add: collision_free_def)
  have rg: "r \<noteq> g" using r g by (auto simp: rooted_def validate_genesis_Inr validate_child_Inr)
  have "r \<notin> set cs" using spec r chain by (auto simp: select_child_None)
  then have new: "\<not> stored C s r" using cs rg by simp
  have no_child: "validate_child C c r \<noteq> Inr ()" if "c \<in> insert r (set cs)" for c
  proof (cases "c = r")
    case True
    then show ?thesis using validate_child_number [of C r r] by auto
  next
    case False
    then have "stored C s c" "c \<noteq> g" using that cs by auto
    then obtain p where "stored C s p" "validate_child C c p = Inr ()"
      using rooted_child_or_genesis [OF g] by blast
    then show ?thesis using parent_unique [OF inj, of p r c] new by auto
  qed
  obtain cs' where cs': "selected_roster_chain C s' = Inr (g # select_chain_from C g cs')"
      "set cs' = {x. stored C s' x} - {g}"
    by (rule selected_chain_ok [OF grown_rows [OF grown] grown_rooted [OF grown g]])
  have set_cs': "set cs' = insert r (set cs)" using cs'(2) cs grown_set [OF grown] rg by blast
  moreover have "inj_on (roster_canonical_hash C) (set cs')"
    using inj unfolding set_cs' cs by (rule inj_on_subset) blast
  ultimately have "select_chain_from C g cs' = select_chain_from C g cs @ [r]"
    using r chain no_child by (intro select_chain_from_extend) auto
  with cs'(1) chain grown_ok [OF ok g grown] show ?thesis by simp
qed

lemma child_satisfies:
  assumes "om_wf (rr_members p)" and "validate_child C r p = Inr ()" and "rr_change r = change"
  shows "roster_change_is_satisfied r change"
  using assms
  by (auto simp: roster_change_is_satisfied_def validate_child_Inr apply_change_Inr is_initialize_def
      om_contains_def om_get_insert om_get_remove split: RosterChange.splits)

definition hint_valid :: "(EndpointId \<times> string) option \<Rightarrow> bool" where
  "hint_valid h \<longleftrightarrow> (case h of None \<Rightarrow> True | Some (e, hint) \<Rightarrow> validate_peer_hint hint = Inr ())"

lemma validate_peer_hint_Inr:
  "validate_peer_hint hint = Inr u \<longleftrightarrow> 1 \<le> length hint \<and> length hint \<le> 16384"
  by (auto simp: validate_peer_hint_def MAX_PEER_HINT_BYTES_def Suc_le_eq)

lemma replace_peer_hint_in_Inr:
  "replace_peer_hint_in e hint s = Inr s' \<longleftrightarrow>
     1 \<le> length hint \<and> length hint \<le> 16384
     \<and> s' = s\<lparr>peer_hints := om_insert (to_be_bytes e) hint (peer_hints s)\<rparr>"
  by (auto simp: replace_peer_hint_in_def sql_upsert_def check_peer_hint_def split: if_splits)

lemma store_peer_hint_ok:
  assumes "hint_valid h"
  shows "store_peer_hint h s = Inr (s\<lparr>peer_hints := case h of None \<Rightarrow> peer_hints s
    | Some (e, hint) \<Rightarrow> om_insert (to_be_bytes e) hint (peer_hints s)\<rparr>)"
  using assms
  by (auto simp: store_peer_hint_def hint_valid_def validate_peer_hint_Inr replace_peer_hint_in_Inr
      split: option.splits)

lemma selected_chain_cong:
  "roster_revisions s' = roster_revisions s \<Longrightarrow> selected_roster_chain C s' = selected_roster_chain C s"
  by (simp add: selected_roster_chain_def)

lemma apply_once_new:
  assumes ok: "roster_ok C s" and sel: "selected_roster_chain C s = Inr chain" "chain \<noteq> []"
    and unsat: "\<not> roster_change_is_satisfied (last chain) change"
    and child: "child C (last chain) change identity = Inr r" and r: "storable r"
    and nc: "collision_free C s {r}" and hint: "hint_valid h"
  obtains s' where "apply_roster_change_once C identity change h s = (Inr (Some r), s')"
    "selected_roster_chain C s' = Inr (chain @ [r])" "roster_ok C s'" "roster_change_is_satisfied r change"
    "\<And>e hint. h = Some (e, hint) \<Longrightarrow> om_get (peer_hints s') (to_be_bytes e) = Some hint \<or> \<not> om_wf (peer_hints s)"
proof -
  note valid = child_valid [OF child]
  have tip: "stored C s (last chain)" using sel by (intro selected_chain_stored [OF ok sel(1)]) simp
  have rows: "rows_ok (revision_row C) (roster_revisions s)" using ok by (simp add: roster_ok_def)
  obtain found s1 where s1: "load_roster_revision C (roster_canonical_hash C r) s = Inr found"
      "(if found = None then insert_roster_revision_row C r s else Inr s) = Inr s1" "grown C s {r} s1"
    by (rule add_revision_ok [OF rows r tip conjunct1 [OF valid] nc])
  define s' where "s' = s1\<lparr>peer_hints := case h of None \<Rightarrow> peer_hints s1
    | Some (e, hint) \<Rightarrow> om_insert (to_be_bytes e) hint (peer_hints s1)\<rparr>"
  have stored_hint: "store_peer_hint h s1 = Inr s'" unfolding s'_def using hint by (rule store_peer_hint_ok)
  have ext: "selected_roster_chain C s1 = Inr (chain @ [r])" "roster_ok C s1"
    using tip_extended [OF ok sel _ s1(3) nc] valid by simp_all
  have eq: "roster_revisions s' = roster_revisions s1" by (simp add: s'_def)
  have sel': "selected_roster_chain C s' = Inr (chain @ [r])" using ext(1) selected_chain_cong [OF eq] by simp
  have sat: "roster_change_is_satisfied r change"
    using valid tip by (intro child_satisfies [of "last chain" C]) (simp_all add: stored_def storable_def roster_wf_def members_ok_def)
  have "apply_roster_change_once C identity change h s = (Inr (Some r), s')"
    using sel unsat child s1(1,2) stored_hint sel' sat
    by (simp add: apply_roster_change_once_def bindS_def transactionS_def Let_def)
  moreover have "roster_ok C s'" using ext(2) roster_ok_cong [OF eq] by simp
  moreover have "om_get (peer_hints s') (to_be_bytes e) = Some hint \<or> \<not> om_wf (peer_hints s)"
    if "h = Some (e, hint)" for e hint
    using that s1(3) by (auto simp: s'_def om_get_insert grown_def)
  ultimately show ?thesis using that sel' sat by blast
qed

lemma apply_loop_Some:
  "apply_roster_change_once C identity change h s = (Inr (Some r), s') \<Longrightarrow>
   apply_roster_change_inner C identity change h s = (Inr r, s')"
  by (simp add: apply_roster_change_inner_def bindS_def)

text \<open>
  C31. A membership change and the tip of the selected chain. A change the tip already satisfies returns that tip and
  stores no revision: without an address hint the store stays as it is, with one only the hint is stored. A change the
  tip does not satisfy and this device may not make is refused and nothing is stored. A change it may make succeeds in the
  first round of the retry loop: the new revision extends the selected chain as its tip, its members satisfy the change,
  and the address hint is stored in the same transaction.
\<close>

theorem apply_roster_change_selected:
  assumes "roster_ok C s" and "selected_roster_chain C s = Inr chain" and "chain \<noteq> []"
    and "om_wf (peer_hints s)" and "validate_peer_hint hint = Inr ()"
  shows "(roster_change_is_satisfied (last chain) change \<longrightarrow>
      apply_roster_change C identity change s = (Inr (last chain), s)
      \<and> (\<exists>s'. apply_roster_change_with_peer_hint C identity change e hint s = (Inr (last chain), s')
          \<and> roster_revisions s' = roster_revisions s \<and> peer_hint e s' = Inr (Some hint)))
    \<and> (\<not> roster_change_is_satisfied (last chain) change \<longrightarrow>
      (\<forall>error. child C (last chain) change identity = Inl error \<longrightarrow>
        apply_roster_change_with_peer_hint C identity change e hint s = (Inl (StateError.Roster error), s)))
    \<and> (\<not> roster_change_is_satisfied (last chain) change \<longrightarrow>
      (\<forall>r. child C (last chain) change identity = Inr r \<longrightarrow> storable r \<longrightarrow> collision_free C s {r} \<longrightarrow>
        (\<exists>s'. apply_roster_change_with_peer_hint C identity change e hint s = (Inr r, s')
          \<and> selected_roster_chain C s' = Inr (chain @ [r]) \<and> roster_ok C s'
          \<and> roster_change_is_satisfied r change \<and> peer_hint e s' = Inr (Some hint))))"
proof (intro conjI impI allI)
  assume sat: "roster_change_is_satisfied (last chain) change"
  then have "apply_roster_change_once C identity change None s = (Inr (Some (last chain)), s)"
    using assms(2,3)
    by (simp add: apply_roster_change_once_def bindS_def transactionS_def Let_def store_peer_hint_def)
  then show "apply_roster_change C identity change s = (Inr (last chain), s)"
    unfolding apply_roster_change_def by (rule apply_loop_Some)
  let ?s = "s\<lparr>peer_hints := om_insert (to_be_bytes e) hint (peer_hints s)\<rparr>"
  have hint: "1 \<le> length hint" "length hint \<le> 16384" using assms(5) by (simp_all add: validate_peer_hint_Inr)
  have stored: "store_peer_hint (Some (e, hint)) s = Inr ?s"
    using store_peer_hint_ok [of "Some (e, hint)" s] assms(5) by (simp add: hint_valid_def)
  have "apply_roster_change_once C identity change (Some (e, hint)) s = (Inr (Some (last chain)), ?s)"
    using sat assms(2,3) stored by (simp add: apply_roster_change_once_def bindS_def transactionS_def Let_def)
  then have "apply_roster_change_with_peer_hint C identity change e hint s = (Inr (last chain), ?s)"
    using apply_loop_Some assms(5) by (simp add: apply_roster_change_with_peer_hint_def bindS_def)
  moreover have "peer_hint e ?s = Inr (Some hint)" using hint assms(4) by (simp add: peer_hint_def om_get_insert)
  ultimately show "\<exists>s'. apply_roster_change_with_peer_hint C identity change e hint s = (Inr (last chain), s')
      \<and> roster_revisions s' = roster_revisions s \<and> peer_hint e s' = Inr (Some hint)" by force
next
  fix error
  assume unsat: "\<not> roster_change_is_satisfied (last chain) change" and c: "child C (last chain) change identity = Inl error"
  then show "apply_roster_change_with_peer_hint C identity change e hint s = (Inl (StateError.Roster error), s)"
    using assms(2,3,5)
    by (simp add: apply_roster_change_with_peer_hint_def apply_roster_change_inner_def apply_roster_change_once_def bindS_def Let_def)
next
  fix r
  assume unsat: "\<not> roster_change_is_satisfied (last chain) change" and r: "child C (last chain) change identity = Inr r"
    "storable r" "collision_free C s {r}"
  have valid: "hint_valid (Some (e, hint))" using assms(5) by (simp add: hint_valid_def)
  obtain s' where s': "apply_roster_change_once C identity change (Some (e, hint)) s = (Inr (Some r), s')"
      "selected_roster_chain C s' = Inr (chain @ [r])" "roster_ok C s'" "roster_change_is_satisfied r change"
      "om_get (peer_hints s') (to_be_bytes e) = Some hint"
    using apply_once_new [OF assms(1-3) unsat r valid] assms(4) by metis
  moreover have "apply_roster_change_with_peer_hint C identity change e hint s = (Inr r, s')"
    using apply_loop_Some [OF s'(1)] assms(5) by (simp add: apply_roster_change_with_peer_hint_def bindS_def)
  moreover have "peer_hint e s' = Inr (Some hint)"
    using s'(5) assms(5) by (simp add: peer_hint_def validate_peer_hint_Inr)
  ultimately show "\<exists>s'. apply_roster_change_with_peer_hint C identity change e hint s = (Inr r, s')
        \<and> selected_roster_chain C s' = Inr (chain @ [r]) \<and> roster_ok C s'
        \<and> roster_change_is_satisfied r change \<and> peer_hint e s' = Inr (Some hint)" by blast
qed

section \<open>A sample store\<close>

definition sample_store :: StateStore where
  "sample_store = fresh_database\<lparr>roster_revisions :=
     [(to_be_bytes (roster_canonical_hash sample_crypto sample_genesis), roster_canonical_bytes sample_genesis)]\<rparr>"

lemma sample_genesis_storable: "storable sample_genesis"
  using sample_genesis_wf sample_genesis_length by (simp add: storable_def)

lemma sample_store_ok: "roster_ok sample_crypto sample_store" "rooted sample_crypto sample_store sample_genesis"
proof -
  obtain s' where s': "insert_roster_revision_row sample_crypto sample_genesis fresh_database = Inr s'"
    by (rule insert_row_ok [of sample_crypto fresh_database sample_genesis])
      (simp_all add: fresh_database_def sample_genesis_storable)
  then have "s' = sample_store"
    using insert_row_Inr [OF s'] by (simp add: sample_store_def fresh_database_def)
  with insert_genesis_ok [OF _ sample_genesis_storable sample_genesis_valid s']
  show "roster_ok sample_crypto sample_store" "rooted sample_crypto sample_store sample_genesis"
    by (simp_all add: fresh_database_def)
qed

lemma sample_store_stored: "stored sample_crypto sample_store r \<longleftrightarrow> r = sample_genesis"
  using sample_genesis_storable
  by (auto simp: stored_def sample_store_def hash_bytes_inj split: if_splits dest: storable_bytes_inj)

lemma sample_store_chain: "selected_roster_chain sample_crypto sample_store = Inr [sample_genesis]"
proof -
  obtain cs where cs: "selected_roster_chain sample_crypto sample_store
        = Inr (sample_genesis # select_chain_from sample_crypto sample_genesis cs)"
      "set cs = {r. stored sample_crypto sample_store r} - {sample_genesis}"
    by (rule selected_chain_ok [OF _ sample_store_ok(2)])
      (use sample_store_ok(1) in \<open>auto simp: roster_ok_def\<close>)
  then have "cs = []" by (auto simp: sample_store_stored)
  then have "select_chain_from sample_crypto sample_genesis cs = []"
    by (intro select_chain_from_Nil) (simp add: select_child_None)
  with cs(1) show ?thesis by simp
qed

theorem exchange_converges_witness:
  "\<exists>a' b' chain. merge_selected_roster_chain sample_crypto [sample_genesis] sample_store = (Inr (), a')
    \<and> merge_selected_roster_chain sample_crypto [sample_genesis] sample_store = (Inr (), b')
    \<and> selected_roster_chain sample_crypto a' = Inr chain \<and> selected_roster_chain sample_crypto b' = Inr chain"
  by (rule exchange_converges [OF sample_store_ok(1) sample_store_ok(1) sample_store_ok(2) sample_store_ok(2)
        sample_store_chain sample_store_chain])
    (simp add: sample_store_stored)

lemma sample_removal_storable:
  assumes "validate_child sample_crypto r sample_genesis = Inr ()" and "rr_change r = Remove 5"
  shows "storable r" "roster_canonical_hash sample_crypto r \<noteq> roster_canonical_hash sample_crypto sample_genesis"
proof -
  have m: "rr_members r = []"
    using assms by (simp add: validate_child_Inr apply_change_Inr) (simp add: sample_genesis_def om_remove_def)
  have p: "rr_parent_hash r = Some (roster_canonical_hash sample_crypto sample_genesis)"
    using assms(1) by (simp add: validate_child_Inr)
  have wf: "roster_wf r" using m assms(2) by (simp add: roster_wf_def members_ok_def change_ok_def)
  have len: "length (roster_canonical_bytes r) = 226"
    using wf m p assms(2)
    by (simp add: roster_canonical_bytes_eq unsigned_body_def ROSTER_DOMAIN_def parent_bytes_def change_bytes_def)
  have len_g: "length (roster_canonical_bytes sample_genesis) = 236"
    by (simp add: roster_canonical_bytes_eq sample_genesis_wf unsigned_body_def ROSTER_DOMAIN_def)
      (simp add: sample_genesis_def parent_bytes_def member_bytes_def change_bytes_def)
  show "storable r" using wf len by (simp add: storable_def)
  show "roster_canonical_hash sample_crypto r \<noteq> roster_canonical_hash sample_crypto sample_genesis"
    unfolding roster_canonical_hash_def by (simp add: sample_crypto_def len len_g)
qed

theorem apply_roster_change_selected_witness:
  "apply_roster_change sample_crypto sample_identity (Remove 6) sample_store = (Inr sample_genesis, sample_store)
    \<and> (\<exists>r s'. apply_roster_change_with_peer_hint sample_crypto sample_identity (Remove 5) 6 ''h'' sample_store
      = (Inr r, s') \<and> selected_roster_chain sample_crypto s' = Inr [sample_genesis, r])"
proof -
  obtain r where r: "child sample_crypto sample_genesis (Remove 5) sample_identity = Inr r"
      "validate_child sample_crypto r sample_genesis = Inr ()" "rr_change r = Remove 5"
    by (rule sample_removal)
  note st = sample_removal_storable [OF r(2,3)]
  have nc: "collision_free sample_crypto sample_store {r}"
    using st(2) by (auto simp: collision_free_def sample_store_stored)
  have sat: "roster_change_is_satisfied (last [sample_genesis]) (Remove 6)"
    and unsat: "\<not> roster_change_is_satisfied (last [sample_genesis]) (Remove 5)"
    by (simp_all add: roster_change_is_satisfied_def sample_genesis_def om_contains_def)
  have hints: "om_wf (peer_hints sample_store)" by (simp add: sample_store_def fresh_database_def)
  have hint: "validate_peer_hint ''h'' = Inr ()" by (simp add: validate_peer_hint_Inr)
  have child: "child sample_crypto (last [sample_genesis]) (Remove 5) sample_identity = Inr r" using r(1) by simp
  note * = apply_roster_change_selected [OF sample_store_ok(1) sample_store_chain _ hints hint, where identity = sample_identity]
  have "apply_roster_change sample_crypto sample_identity (Remove 6) sample_store = (Inr sample_genesis, sample_store)"
    using * [of "Remove 6" 6] sat by simp
  moreover have "\<exists>s'. apply_roster_change_with_peer_hint sample_crypto sample_identity (Remove 5) 6 ''h'' sample_store
      = (Inr r, s') \<and> selected_roster_chain sample_crypto s' = Inr [sample_genesis, r]"
    using * [of "Remove 5" 6] unsat child st(1) nc by auto
  ultimately show ?thesis by blast
qed

end
