(* ===== verification/State_Joining.thy ===== *)
theory State_Joining
  imports State_Roster_Props
begin

text \<open>
  \<open>install_joined_state\<close> and \<open>install_or_resume_joined_state\<close>: what a device stores when its join completes, and
  that a join interrupted after the store was written can be run again.
\<close>

lemma chain_selects_itself:
  assumes "linked C g (pre @ s)" and "inj_on (roster_canonical_hash C) (set (pre @ s))"
  shows "select_chain_from C (last (g # pre)) (pre @ s) = s"
  using assms
proof (induction s arbitrary: pre)
  case Nil
  then show ?case
    using children_of_chain [OF Nil(1)] by (intro select_chain_from_Nil) (simp add: select_child_None_iff)
next
  case (Cons b s)
  have "children C (last (g # pre)) (set (pre @ b # s)) = {b}"
    using children_of_chain [OF Cons.prems(1)] by simp
  then have "select_child C (last (g # pre)) (pre @ b # s) = Some b"
    using select_child_Some_iff [OF Cons.prems(2)] by simp
  moreover have "select_chain_from C b (pre @ b # s) = s"
    using Cons.IH [of "pre @ [b]"] Cons.prems by simp
  ultimately show ?case by (simp add: select_chain_from_Cons)
qed

lemma replace_peer_hints_ok:
  assumes "\<forall>h \<in> set hints. validate_peer_hint (snd h) = Inr ()"
  shows "\<exists>t. replace_peer_hints hints s = Inr (s\<lparr>peer_hints := t\<rparr>)"
  using assms
proof (induction hints arbitrary: s)
  case Nil
  then show ?case by (auto intro: exI [of _ "peer_hints s"])
next
  case (Cons h hints)
  let ?s = "s\<lparr>peer_hints := om_insert (to_be_bytes (fst h)) (snd h) (peer_hints s)\<rparr>"
  have "replace_peer_hint_in (fst h) (snd h) s = Inr ?s"
    using Cons.prems by (simp add: replace_peer_hint_in_Inr validate_peer_hint_Inr)
  moreover obtain t where "replace_peer_hints hints ?s = Inr (?s\<lparr>peer_hints := t\<rparr>)"
    using Cons.IH [of ?s] Cons.prems by force
  ultimately show ?case by auto
qed

lemma insert_missing_known:
  assumes "rows_ok (revision_row C) (roster_revisions s)" and "\<forall>r \<in> set rs. stored C s r"
  shows "insert_missing_revisions C rs s = Inr s"
  using assms(2)
proof (induction rs)
  case Nil
  then show ?case by simp
next
  case (Cons r rs)
  then have "load_roster_revision C (roster_canonical_hash C r) s = Inr (Some r)"
    using load_roster_revision_ok [OF assms(1), of _ "Some r"] by simp
  with Cons show ?case by simp
qed

lemma insert_chain_fresh:
  assumes "roster_revisions s = []" and "validate_genesis C g = Inr ()" and "linked C g rs"
    and "\<forall>r \<in> set (g # rs). storable r" and "inj_on (roster_canonical_hash C) (set (g # rs))"
  shows "\<exists>s'. insert_missing_revisions C (g # rs) s = Inr s' \<and> roster_ok C s' \<and> rooted C s' g
    \<and> {x. stored C s' x} = set (g # rs)"
proof -
  have rows: "rows_ok (revision_row C) (roster_revisions s)" using assms(1) by simp
  have none: "\<not> stored C s x" for x using assms(1) by (simp add: stored_def)
  obtain s1 where s1: "insert_roster_revision_row C g s = Inr s1"
    using insert_row_ok [OF rows, of g] assms(1,4) by auto
  note new = insert_row_stored [OF s1 rows]
  have g1: "roster_ok C s1" "rooted C s1 g"
    using insert_genesis_ok [OF assms(1) _ assms(2) s1] assms(4) by simp_all
  have st1: "stored C s1 x \<longleftrightarrow> x = g" for x using new(2) none assms(4) by simp
  have nc: "collision_free C s1 (set rs)"
    unfolding collision_free_def st1 using assms(5) by simp
  have "\<exists>s'. insert_missing_revisions C rs s1 = Inr s' \<and> grown C s1 (set rs) s'"
    using g1 assms(3,4) st1 nc by (intro insert_missing_ok [of C s1 rs g]) (simp_all add: roster_ok_def)
  then obtain s' where s': "insert_missing_revisions C rs s1 = Inr s'" "grown C s1 (set rs) s'" by blast
  have "load_roster_revision C (roster_canonical_hash C g) s = Inr None"
    using assms(1) by (simp add: load_roster_revision_def)
  with s1 s'(1) have "insert_missing_revisions C (g # rs) s = Inr s'" by simp
  moreover have "{x. stored C s' x} = set (g # rs)" using grown_set [OF s'(2)] st1 by auto
  ultimately show ?thesis
    using grown_ok [OF g1 s'(2)] grown_rooted [OF s'(2) g1(2)] by blast
qed

lemma selected_whole_chain:
  assumes "roster_ok C s" and "rooted C s g" and "{x. stored C s x} = set (g # rs)"
    and "linked C g rs" and "inj_on (roster_canonical_hash C) (set (g # rs))"
  shows "selected_roster_chain C s = Inr (g # rs)"
proof -
  obtain cs where cs: "selected_roster_chain C s = Inr (g # select_chain_from C g cs)"
      "set cs = {r. stored C s r} - {g}"
    by (rule selected_chain_ok [OF _ assms(2)]) (use assms(1) in \<open>auto simp: roster_ok_def\<close>)
  have "g \<notin> set rs" using linked_numbers [OF assms(4)] by auto
  then have "set cs = set rs" using cs(2) assms(3) by auto
  then have "select_chain_from C g cs = select_chain_from C g rs"
    using assms(5) by (intro select_chain_from_cong_set) (auto intro: inj_on_subset)
  also have "\<dots> = rs"
    using chain_selects_itself [of C g "[]" rs] assms(4,5) by (auto intro: inj_on_subset)
  finally show ?thesis using cs(1) by simp
qed

text \<open>The installation on a device that belongs to no group.\<close>

lemma install_fresh_join:
  assumes fresh: "roster_revisions s = []" and g: "validate_genesis C g = Inr ()" and links: "linked C g rs"
    and st: "\<forall>r \<in> set (g # rs). storable r" and inj: "inj_on (roster_canonical_hash C) (set (g # rs))"
    and member: "om_get (rr_members (last (g # rs))) me = Some name"
    and hints: "\<forall>h \<in> set hints. validate_peer_hint (snd h) = Inr ()"
  obtains s' where "install_or_resume_joined_state C (g # rs) me name hints s = (Inr (), s')" "roster_ok C s'"
    "selected_roster_chain C s' = Inr (g # rs)" "\<forall>r \<in> set (g # rs). stored C s' r"
proof -
  have vl: "validate_links C (g # rs) = Inr ()" using links by (simp only: validate_links_Inr)
  have vh: "for_each (\<lambda>(_, hint). validate_peer_hint hint) hints = Inr ()"
    using hints by (auto simp: for_each_eq_Inr)
  have contains: "om_contains (rr_members (last (g # rs))) me" using member by (simp add: om_contains_def)
  obtain s1 where s1: "insert_missing_revisions C (g # rs) s = Inr s1" "roster_ok C s1" "rooted C s1 g"
      "{x. stored C s1 x} = set (g # rs)"
    using insert_chain_fresh [OF fresh g links st inj] by blast
  obtain t where t: "replace_peer_hints hints s1 = Inr (s1\<lparr>peer_hints := t\<rparr>)"
    using replace_peer_hints_ok [OF hints] by blast
  define s' where "s' = s1\<lparr>peer_hints := t\<rparr>"
  have eq: "roster_revisions s' = roster_revisions s1" by (simp add: s'_def)
  have sel1: "selected_roster_chain C s1 = Inr (g # rs)" by (rule selected_whole_chain [OF s1(2-4) links inj])
  then have sel': "selected_roster_chain C s' = Inr (g # rs)" using selected_chain_cong [OF eq] by simp
  have ok': "roster_ok C s'" using s1(2) roster_ok_cong [OF eq] by simp
  have first: "install_or_resume_joined_state C (g # rs) me name hints s = (Inr (), s')"
    unfolding install_or_resume_joined_state_def install_joined_state_inner_def
    using g vl contains member vh selected_chain_empty [OF fresh] s1(1) t sel'
    by (simp add: bindS_def transactionS_def s'_def cannot_resume_def del: insert_missing_revisions.simps)
  have "\<forall>r \<in> set (g # rs). stored C s' r" using s1(4) eq by (auto simp: stored_def)
  with first ok' sel' show ?thesis by (rule that)
qed

text \<open>
  C32. Completing a join: a device that belongs to no group and receives a valid chain in which it is listed
  under its own name stores exactly that chain and selects it. Running the same installation again, as
  after a crash, succeeds and leaves the selected chain as it is, while an installation that does
  not allow resuming is refused because the device already belongs to a group.
\<close>

theorem join_installs_chain:
  assumes fresh: "roster_revisions s = []" and g: "validate_genesis C g = Inr ()" and links: "linked C g rs"
    and st: "\<forall>r \<in> set (g # rs). storable r" and inj: "inj_on (roster_canonical_hash C) (set (g # rs))"
    and member: "om_get (rr_members (last (g # rs))) me = Some name"
    and hints: "\<forall>h \<in> set hints. validate_peer_hint (snd h) = Inr ()"
  shows "\<exists>s'. install_or_resume_joined_state C (g # rs) me name hints s = (Inr (), s')
    \<and> roster_ok C s' \<and> selected_roster_chain C s' = Inr (g # rs)
    \<and> (\<exists>s''. install_or_resume_joined_state C (g # rs) me name hints s' = (Inr (), s'')
         \<and> selected_roster_chain C s'' = Inr (g # rs))
    \<and> install_joined_state C (g # rs) me hints s'
        = (Inl (RosterTopology ''local state already belongs to a group''), s')"
proof -
  have vl: "validate_links C (g # rs) = Inr ()" using links by (simp only: validate_links_Inr)
  have vh: "for_each (\<lambda>(_, hint). validate_peer_hint hint) hints = Inr ()"
    using hints by (auto simp: for_each_eq_Inr)
  have contains: "om_contains (rr_members (last (g # rs))) me" using member by (simp add: om_contains_def)
  obtain s' where first: "install_or_resume_joined_state C (g # rs) me name hints s = (Inr (), s')" and ok': "roster_ok C s'"
      and sel': "selected_roster_chain C s' = Inr (g # rs)" and all: "\<forall>r \<in> set (g # rs). stored C s' r"
    by (rule install_fresh_join [OF assms])
  have known: "insert_missing_revisions C (g # rs) s' = Inr s'"
    using ok' all by (intro insert_missing_known) (simp_all add: roster_ok_def)
  obtain t' where t': "replace_peer_hints hints s' = Inr (s'\<lparr>peer_hints := t'\<rparr>)"
    using replace_peer_hints_ok [OF hints] by blast
  define s'' where "s'' = s'\<lparr>peer_hints := t'\<rparr>"
  have sel'': "selected_roster_chain C s'' = Inr (g # rs)"
    using sel' selected_chain_cong [of s'' s'] by (simp add: s''_def)
  have "install_or_resume_joined_state C (g # rs) me name hints s' = (Inr (), s'')"
    unfolding install_or_resume_joined_state_def install_joined_state_inner_def
    using g vl contains member vh sel' known t' sel''
    by (simp add: bindS_def transactionS_def s''_def cannot_resume_def del: insert_missing_revisions.simps)
  moreover have "install_joined_state C (g # rs) me hints s'
      = (Inl (RosterTopology ''local state already belongs to a group''), s')"
    unfolding install_joined_state_def install_joined_state_inner_def
    using g vl contains sel' by (simp add: bindS_def)
  ultimately show ?thesis using first ok' sel' sel'' by blast
qed

theorem join_installs_chain_witness:
  "\<exists>s'. install_or_resume_joined_state sample_crypto [sample_genesis] 5 ''a'' [(6, ''h'')] fresh_database = (Inr (), s')
    \<and> selected_roster_chain sample_crypto s' = Inr [sample_genesis]"
  using join_installs_chain [OF _ sample_genesis_valid, of fresh_database "[]" 5 "''a''" "[(6, ''h'')]"]
    sample_genesis_storable
  by (auto simp: fresh_database_def sample_genesis_def validate_peer_hint_Inr)

end
