(* ===== verification/State_Records.thy ===== *)
theory State_Records
  imports State_Log
begin

text \<open>
  \<open>state.rs\<close>, path records: the winning record of every collection path, whether its content is on disk, and
  the fingerprint of the file on disk. A merge keeps the greater record under \<open>compare_winner\<close> and logs the
  outcome in the same transaction.
\<close>

record FileFingerprint =
  fp_modified_ns :: i64
  fp_size :: u64
  fp_hash :: bytes32

record MaterializedFile =
  mf_resolved_root :: os_path
  mf_fingerprint :: FileFingerprint

record PathRecordState =
  ps_record :: Record
  ps_materialized :: bool
  ps_materialized_fingerprint :: "FileFingerprint option"

section \<open>Decoding rows\<close>

definition decode_stored_record :: "crypto \<Rightarrow> byte list \<times> byte list \<Rightarrow> StateError + Record" where
  "decode_stored_record C st = (case st of (hash, canonical) \<Rightarrow>
    bindE (mapErr StateError.Record (record_from_canonical canonical)) (\<lambda>record.
    if hash \<noteq> to_be_bytes (record_canonical_hash (c_blake3 C) record)
    then Inl (InvalidStoredState ''record hash does not match canonical bytes'')
    else Inr record))"

definition decode_indexed_record ::
  "crypto \<Rightarrow> byte list \<times> byte list \<Rightarrow> string \<Rightarrow> string \<Rightarrow> StateError + Record" where
  "decode_indexed_record C st collection path =
    bindE (decode_stored_record C st) (\<lambda>record.
    if r_collection record \<noteq> collection \<or> as_str (r_path record) \<noteq> path
    then Inl (InvalidStoredState ''record index does not match canonical bytes'')
    else Inr record)"

definition decode_materialized_fingerprint ::
  "i64 option \<Rightarrow> i64 option \<Rightarrow> byte list option \<Rightarrow> StateError + FileFingerprint option" where
  "decode_materialized_fingerprint modified_ns len hash = (case (modified_ns, len, hash) of
      (None, None, None) \<Rightarrow> Inr None
    | (Some m, Some n, Some h) \<Rightarrow>
        bindE (ok_or (InvalidStoredState ''materialized file size is negative'')
          (if sint n \<ge> 0 then Some n else None)) (\<lambda>n.
        bindE (ok_or (InvalidStoredState ''materialized file hash has the wrong length'')
          (if length h = 32 then Some (from_be_bytes h) else None)) (\<lambda>h.
        Inr (Some \<lparr>fp_modified_ns = m, fp_size = n, fp_hash = h\<rparr>)))
    | _ \<Rightarrow> Inl (InvalidStoredState ''materialized fingerprint is incomplete''))"

definition decode_path_record_state ::
  "crypto \<Rightarrow> string \<times> path_record_row \<Rightarrow> string \<Rightarrow> StateError + PathRecordState" where
  "decode_path_record_state C st collection = (case st of (path, row) \<Rightarrow>
    bindE (decode_indexed_record C (row_record_hash row, row_canonical row) collection path) (\<lambda>record.
    bindE (decode_materialized_fingerprint (row_materialized_modified_ns row) (row_materialized_size row)
      (row_materialized_hash row)) (\<lambda>fingerprint.
    Inr \<lparr>ps_record = record, ps_materialized = (row_materialized row \<noteq> 0),
         ps_materialized_fingerprint = fingerprint\<rparr>)))"

section \<open>Reading\<close>

definition load_record :: "crypto \<Rightarrow> string \<Rightarrow> string \<Rightarrow> StateStore \<Rightarrow> StateError + Record option" where
  "load_record C collection path s = (case om_get (path_records s) (collection, path) of
      None \<Rightarrow> Inr None
    | Some row \<Rightarrow> bindE (decode_indexed_record C (row_record_hash row, row_canonical row) collection path)
        (\<lambda>record. Inr (Some record)))"

definition lookup_record :: "crypto \<Rightarrow> string \<Rightarrow> string \<Rightarrow> StateStore \<Rightarrow> StateError + Record option" where
  "lookup_record C collection path s = load_record C collection path s"

text \<open>\<open>WHERE collection = ?1 ORDER BY path\<close>: the key order of the table.\<close>

definition rows_of :: "string \<Rightarrow> StateStore \<Rightarrow> (string \<times> path_record_row) list" where
  "rows_of collection s =
    map (\<lambda>((c, path), row). (path, row)) (filter (\<lambda>((c, path), row). c = collection) (path_records s))"

definition records :: "crypto \<Rightarrow> string \<Rightarrow> StateStore \<Rightarrow> StateError + Record list" where
  "records C collection s = map_result (\<lambda>(path, row).
    decode_indexed_record C (row_record_hash row, row_canonical row) collection path) (rows_of collection s)"

definition record_states :: "crypto \<Rightarrow> string \<Rightarrow> StateStore \<Rightarrow> StateError + PathRecordState list" where
  "record_states C collection s =
    map_result (\<lambda>st. decode_path_record_state C st collection) (rows_of collection s)"

definition record_state :: "crypto \<Rightarrow> string \<Rightarrow> string \<Rightarrow> StateStore \<Rightarrow> StateError + PathRecordState option" where
  "record_state C collection path s = (case om_get (path_records s) (collection, path) of
      None \<Rightarrow> Inr None
    | Some row \<Rightarrow> bindE (decode_path_record_state C (path, row) collection) (\<lambda>st. Inr (Some st)))"

section \<open>Writing\<close>

definition kind_column :: "RecordKind \<Rightarrow> int" where
  "kind_column k = (case k of Tombstone \<Rightarrow> 0 | File _ _ \<Rightarrow> 1)"

definition upsert_record :: "crypto \<Rightarrow> Record \<Rightarrow> bool \<Rightarrow> StateStore \<Rightarrow> StateError + StateStore" where
  "upsert_record C record materialized s =
    (let fingerprint = (if materialized then (case r_kind record of
             Tombstone \<Rightarrow> None
           | File len h \<Rightarrow> Some \<lparr>fp_modified_ns = r_modified_ns record, fp_size = len, fp_hash = h\<rparr>)
         else None)
     in bindE (case fingerprint of
             None \<Rightarrow> Inr None
           | Some f \<Rightarrow> bindE (ok_or NumberOverflow (i64_try_from_u64 (fp_size f))) (\<lambda>n. Inr (Some n))) (\<lambda>len.
        bindE (mapErr Sqlite (sql_upsert (check_path_record_row s) (r_collection record, as_str (r_path record))
          \<lparr>row_record_hash = to_be_bytes (record_canonical_hash (c_blake3 C) record),
           row_kind = kind_column (r_kind record), row_canonical = record_canonical_bytes record,
           row_materialized = of_bool materialized,
           row_materialized_modified_ns = map_option fp_modified_ns fingerprint,
           row_materialized_size = len,
           row_materialized_hash = map_option (\<lambda>f. to_be_bytes (fp_hash f)) fingerprint\<rparr> (path_records s))) (\<lambda>t.
        Inr (s\<lparr>path_records := t\<rparr>))))"

definition merge_record ::
  "crypto \<Rightarrow> json \<Rightarrow> Record \<Rightarrow> i64 \<Rightarrow> EndpointId option \<Rightarrow> nat \<Rightarrow> (StateStore, StateError, bool) action" where
  "merge_record C J record observed_ns source_peer max_logs = transactionS (\<lambda>s.
    bindE (load_record C (r_collection record) (as_str (r_path record)) s) (\<lambda>current.
    let accepted = (case current of None \<Rightarrow> True
          | Some c \<Rightarrow> compare_winner (c_blake3 C) record c = Greater) in
    bindE (if accepted then upsert_record C record (source_peer = None) s else Inr s) (\<lambda>s.
    let event = (case current of
          Some winner \<Rightarrow>
            if accepted then RecordAccepted (r_collection record) (r_path record) source_peer
            else RecordRejected (r_collection record) (r_path record) source_peer
              (r_modified_ns record) (r_author record) (r_modified_ns winner) (r_author winner)
        | None \<Rightarrow> RecordAccepted (r_collection record) (r_path record) source_peer) in
    bindE (insert_log J observed_ns event max_logs s) (\<lambda>s.
    Inr (accepted, s)))))"

definition mark_repair_required_and_log ::
  "json \<Rightarrow> string \<Rightarrow> string \<Rightarrow> i64 \<Rightarrow> OperationalEvent \<Rightarrow> nat \<Rightarrow> (StateStore, StateError, unit) action" where
  "mark_repair_required_and_log J collection path created_ns event max_logs = transactionS (\<lambda>s.
    bindE (update_path_records (\<lambda>k r. k = (collection, path) \<and> row_kind r = 1) clear_materialized s) (\<lambda>(updated, s).
    if updated \<noteq> 1 then Inl MissingPathRecord
    else bindE (insert_log J created_ns event max_logs s) (\<lambda>s. Inr ((), s))))"

definition update_materialized_fingerprint ::
  "string \<Rightarrow> string \<Rightarrow> FileFingerprint \<Rightarrow> StateStore \<Rightarrow> StateError + StateStore" where
  "update_materialized_fingerprint collection path fingerprint s =
    bindE (ok_or NumberOverflow (i64_try_from_u64 (fp_size fingerprint))) (\<lambda>len.
    bindE (update_path_records (\<lambda>k r. k = (collection, path) \<and> row_kind r = 1)
      (\<lambda>r. r\<lparr>row_materialized := 1, row_materialized_modified_ns := Some (fp_modified_ns fingerprint),
            row_materialized_size := Some len,
            row_materialized_hash := Some (to_be_bytes (fp_hash fingerprint))\<rparr>) s) (\<lambda>(updated, s).
    if updated \<noteq> 1 then Inl MissingPathRecord else Inr s))"

definition set_materialized_fingerprint ::
  "string \<Rightarrow> string \<Rightarrow> FileFingerprint \<Rightarrow> (StateStore, StateError, unit) action" where
  "set_materialized_fingerprint collection path fingerprint = transactionS (\<lambda>s.
    bindE (update_materialized_fingerprint collection path fingerprint s) (\<lambda>s. Inr ((), s)))"

definition mark_materialized_and_log ::
  "json \<Rightarrow> string \<Rightarrow> string \<Rightarrow> MaterializedFile \<Rightarrow> i64 \<Rightarrow> OperationalEvent \<Rightarrow> nat
     \<Rightarrow> (StateStore, StateError, unit) action" where
  "mark_materialized_and_log J collection path materialized created_ns event max_logs = transactionS (\<lambda>s.
    bindE (ok_or MissingCollection (map_option row_resolved_root (om_get (t_collections s) collection))) (\<lambda>previous_root.
    bindE
      (if previous_root \<noteq> Some (mf_resolved_root materialized)
       then
         bindE (update_collections (\<lambda>n. n = collection)
           (\<lambda>c. c\<lparr>row_resolved_root := Some (mf_resolved_root materialized)\<rparr>) s) (\<lambda>(_, s).
         bindE (update_path_records (\<lambda>k r. fst k = collection \<and> snd k \<noteq> path \<and> row_kind r = 1)
           clear_materialized s) (\<lambda>(_, s).
         Inr s))
       else Inr s) (\<lambda>s.
    bindE (update_materialized_fingerprint collection path (mf_fingerprint materialized) s) (\<lambda>s.
    bindE (insert_log J created_ns event max_logs s) (\<lambda>s.
    Inr ((), s))))))"

definition mark_tombstone_materialized_and_log ::
  "json \<Rightarrow> string \<Rightarrow> string \<Rightarrow> i64 \<Rightarrow> OperationalEvent \<Rightarrow> nat \<Rightarrow> (StateStore, StateError, unit) action" where
  "mark_tombstone_materialized_and_log J collection path created_ns event max_logs = transactionS (\<lambda>s.
    bindE (update_path_records (\<lambda>k r. k = (collection, path) \<and> row_kind r = 0)
      (\<lambda>r. r\<lparr>row_materialized := 1\<rparr>) s) (\<lambda>(updated, s).
    if updated \<noteq> 1 then Inl MissingPathRecord
    else bindE (insert_log J created_ns event max_logs s) (\<lambda>s. Inr ((), s))))"

text \<open>The two sums are never negative, so the conversions to \<open>u64\<close> do not fail.\<close>

definition local_counts :: "StateStore \<Rightarrow> StateError + (nat \<times> nat)" where
  "local_counts s =
    Inr (length (filter (\<lambda>(k, r). row_kind r = 1 \<and> row_materialized r = 1) (path_records s)),
         length (filter (\<lambda>(k, r). row_materialized r = 0) (path_records s)))"

end
