(* ===== verification/Lww_Store.thy ===== *)
theory Lww_Store
  imports Main
begin

text \<open>
  The contract of a last-write-wins store: merging a message keeps the greater of the stored and the
  received value under its key and changes no other key. A client that relies on it gets that the
  value under a key is the greatest of all values it was ever given, so the order and the repetition of
  messages do not matter. \<open>ok\<close> is the store's invariant, \<open>admissible\<close> says that a message can be merged in a
  state, and \<open>room\<close> bounds the number of merges the store can still take.
\<close>

locale lww_store =
  fixes ok :: "'s \<Rightarrow> bool"
    and admissible :: "'s \<Rightarrow> 'm \<Rightarrow> bool"
    and room :: "'s \<Rightarrow> nat"
    and lookup :: "'s \<Rightarrow> 'k \<Rightarrow> 'r option"
    and merge :: "'m \<Rightarrow> 's \<Rightarrow> 's"
    and payload :: "'m \<Rightarrow> 'r"
    and key :: "'r \<Rightarrow> 'k"
    and rank :: "'r \<Rightarrow> 'o::linorder"
  assumes ok_merge: "ok s \<Longrightarrow> admissible s m \<Longrightarrow> 0 < room s \<Longrightarrow> ok (merge m s)"
    and admissible_merge: "ok s \<Longrightarrow> admissible s m \<Longrightarrow> 0 < room s \<Longrightarrow> admissible s n \<Longrightarrow> admissible (merge m s) n"
    and room_merge: "ok s \<Longrightarrow> admissible s m \<Longrightarrow> 0 < room s \<Longrightarrow> room s = Suc (room (merge m s))"
    and lookup_merge: "ok s \<Longrightarrow> admissible s m \<Longrightarrow> 0 < room s \<Longrightarrow>
      lookup (merge m s) k =
        (if k = key (payload m)
         then (case lookup s k of
             None \<Rightarrow> Some (payload m)
           | Some w \<Rightarrow> if rank w < rank (payload m) then Some (payload m) else Some w)
         else lookup s k)"
begin

definition candidates :: "'m list \<Rightarrow> 's \<Rightarrow> 'k \<Rightarrow> 'r set" where
  "candidates ms s k = set_option (lookup s k) \<union> {payload m | m. m \<in> set ms \<and> key (payload m) = k}"

lemma run_ok:
  assumes "ok s" and "\<forall>m \<in> set ms. admissible s m" and "length ms \<le> room s"
  shows "ok (fold merge ms s) \<and> room s = length ms + room (fold merge ms s)
    \<and> (\<forall>m. admissible s m \<longrightarrow> admissible (fold merge ms s) m)"
  using assms
proof (induction ms arbitrary: s)
  case Nil
  then show ?case by simp
next
  case (Cons m ms)
  then have m: "admissible s m" "0 < room s" by auto
  have "ok (merge m s)" "room s = Suc (room (merge m s))"
    using ok_merge [OF Cons.prems(1) m] room_merge [OF Cons.prems(1) m] by simp_all
  moreover have "\<forall>n. admissible s n \<longrightarrow> admissible (merge m s) n"
    using admissible_merge [OF Cons.prems(1) m] by blast
  ultimately show ?case using Cons.IH [of "merge m s"] Cons.prems by auto
qed

lemma lookup_run:
  assumes "ok s" and "\<forall>m \<in> set ms. admissible s m" and "length ms \<le> room s"
  shows "case lookup (fold merge ms s) k of
      None \<Rightarrow> candidates ms s k = {}
    | Some w \<Rightarrow> w \<in> candidates ms s k \<and> (\<forall>r \<in> candidates ms s k. rank r \<le> rank w)"
  using assms
proof (induction ms rule: rev_induct)
  case Nil
  then show ?case by (auto simp: candidates_def split: option.splits)
next
  case (snoc m ms)
  let ?t = "fold merge ms s"
  have run: "ok ?t" "room s = length ms + room ?t" "admissible ?t m"
    using run_ok [of s ms] snoc.prems by auto
  then have room: "0 < room ?t" using snoc.prems(3) by simp
  have IH: "case lookup ?t k of None \<Rightarrow> candidates ms s k = {}
      | Some w \<Rightarrow> w \<in> candidates ms s k \<and> (\<forall>r \<in> candidates ms s k. rank r \<le> rank w)"
    using snoc by simp
  have cand: "candidates (ms @ [m]) s k
      = candidates ms s k \<union> (if key (payload m) = k then {payload m} else {})"
    by (auto simp: candidates_def)
  show ?case
    using IH unfolding cand
    by (auto simp: lookup_merge [OF run(1,3) room] split: option.splits)
qed

text \<open>Two runs that were given the same values under a key agree on that key.\<close>

lemma runs_agree:
  assumes s: "ok s" "\<forall>m \<in> set ms. admissible s m" "length ms \<le> room s"
    and t: "ok t" "\<forall>m \<in> set ns. admissible t m" "length ns \<le> room t"
    and same: "candidates ms s k = candidates ns t k" and inj: "inj_on rank (candidates ms s k)"
  shows "lookup (fold merge ms s) k = lookup (fold merge ns t) k"
proof -
  note l = lookup_run [OF s, of k] and r = lookup_run [OF t, of k]
  show ?thesis
  proof (cases "lookup (fold merge ms s) k")
    case None
    with l r same show ?thesis by (auto split: option.splits)
  next
    case (Some w)
    with l r same obtain v where v: "lookup (fold merge ns t) k = Some v"
      by (cases "lookup (fold merge ns t) k") auto
    have "w \<in> candidates ms s k" "v \<in> candidates ms s k" "rank w = rank v"
      using l r Some v same by (auto intro: order_antisym)
    with inj have "w = v" by (auto dest: inj_onD)
    with Some v show ?thesis by simp
  qed
qed

end

end
