(* ===== verification/State_Records_Props.thy ===== *)
theory State_Records_Props
  imports State_Records Lww_Store
begin

text \<open>
  What the record table guarantees: every row decodes to the record its key and hash name, with a complete
  fingerprint exactly when a file is on disk. The table is a last-write-wins store in the sense of the locale
  \<open>lww_store\<close>, so replicas that saw the same records agree on every winner.
\<close>

section \<open>The record invariant\<close>

definition row_for :: "crypto \<Rightarrow> Record \<Rightarrow> path_record_row \<Rightarrow> bool" where
  "row_for C r row \<longleftrightarrow>
     row_record_hash row = to_be_bytes (record_canonical_hash (c_blake3 C) r)
     \<and> row_kind row = kind_column (r_kind r) \<and> row_canonical row = record_canonical_bytes r
     \<and> row_materialized row \<in> {0, 1}
     \<and> (if row_kind row = 1 \<and> row_materialized row = 1
        then \<exists>m n h. row_materialized_modified_ns row = Some m \<and> row_materialized_size row = Some n
           \<and> row_materialized_hash row = Some h \<and> 0 \<le> sint n \<and> length h = 32
        else row_materialized_modified_ns row = None \<and> row_materialized_size row = None
           \<and> row_materialized_hash row = None)"

definition rec_key :: "Record \<Rightarrow> string \<times> string" where
  "rec_key r = (r_collection r, as_str (r_path r))"

definition record_row :: "crypto \<Rightarrow> (string, collection_row) omap \<Rightarrow> string \<times> string \<Rightarrow> path_record_row \<Rightarrow> bool" where
  "record_row C t key row \<longleftrightarrow>
     om_contains t (fst key) \<and> (\<exists>r. record_wf r \<and> key = rec_key r \<and> row_for C r row)"

definition records_ok :: "crypto \<Rightarrow> StateStore \<Rightarrow> bool" where
  "records_ok C s \<longleftrightarrow> rows_ok (record_row C (t_collections s)) (path_records s)"

lemma records_ok_row:
  assumes "records_ok C s" and "om_get (path_records s) k = Some row"
  obtains q where "record_wf q" "k = rec_key q" "row_for C q row" "om_contains (t_collections s) (fst k)"
  using rows_okD [OF assms(1) [unfolded records_ok_def] assms(2)] by (auto simp: record_row_def)

lemma record_wf_path: "record_wf r \<Longrightarrow> as_str (r_path r) \<noteq> []"
  by (auto simp: record_wf_def path_ok_def validate_def)

lemma record_bytes_nonempty: "record_wf r \<Longrightarrow> record_canonical_bytes r \<noteq> []"
  using length_RECORD_DOMAIN by (auto simp: record_canonical_bytes_eq)

lemma kind_column_cases: "kind_column k = 0 \<or> kind_column k = 1"
  by (cases k) (simp_all add: kind_column_def)

lemma record_row_check:
  assumes "record_row C (t_collections s) key row"
  shows "check_path_record_row s key row"
proof -
  obtain r where r: "record_wf r" "key = rec_key r" "row_for C r row" and c: "om_contains (t_collections s) (fst key)"
    using assms by (auto simp: record_row_def)
  have "row_kind row = 0 \<or> row_kind row = 1" using r(3) kind_column_cases [of "r_kind r"] by (auto simp: row_for_def)
  with r c record_wf_path [OF r(1)] record_bytes_nonempty [OF r(1)] show ?thesis
    by (auto simp: check_path_record_row_def row_for_def rec_key_def split: if_splits)
qed

lemma decode_row:
  assumes "record_wf r" and "row_for C r row"
  shows "decode_indexed_record C (row_record_hash row, row_canonical row) (r_collection r) (as_str (r_path r)) = Inr r"
  using assms record_roundtrip [OF assms(1)]
  by (simp add: decode_indexed_record_def decode_stored_record_def row_for_def)

text \<open>The winner under a key, as the readers see it.\<close>

definition winner :: "crypto \<Rightarrow> StateStore \<Rightarrow> string \<times> string \<Rightarrow> Record option" where
  "winner C s k = (case lookup_record C (fst k) (snd k) s of Inr (Some r) \<Rightarrow> Some r | _ \<Rightarrow> None)"

lemma load_record_ok:
  assumes "records_ok C s"
  shows "load_record C (fst k) (snd k) s = Inr (winner C s k)"
    and "winner C s k = Some r \<Longrightarrow> record_wf r \<and> rec_key r = k"
proof -
  have *: "load_record C (fst k) (snd k) s = Inr None \<or>
      (\<exists>r. load_record C (fst k) (snd k) s = Inr (Some r) \<and> record_wf r \<and> rec_key r = k)"
  proof (cases "om_get (path_records s) k")
    case None
    then show ?thesis by (simp add: load_record_def)
  next
    case (Some row)
    obtain q where q: "record_wf q" "k = rec_key q" "row_for C q row"
      by (rule records_ok_row [OF assms Some])
    then have "load_record C (fst k) (snd k) s = Inr (Some q)"
      using Some decode_row [OF q(1,3)] by (simp add: load_record_def rec_key_def)
    with q show ?thesis by auto
  qed
  then show "load_record C (fst k) (snd k) s = Inr (winner C s k)"
    by (auto simp: winner_def lookup_record_def)
  from * show "winner C s k = Some r \<Longrightarrow> record_wf r \<and> rec_key r = k"
    by (auto simp: winner_def lookup_record_def)
qed

lemma winner_row:
  assumes "records_ok C s"
  shows "winner C s k = Some r \<longleftrightarrow>
    (\<exists>row. om_get (path_records s) k = Some row \<and> record_wf r \<and> k = rec_key r \<and> row_for C r row)"
proof
  assume w: "winner C s k = Some r"
  then obtain row where row: "om_get (path_records s) k = Some row"
    by (cases "om_get (path_records s) k") (auto simp: winner_def lookup_record_def load_record_def)
  obtain q where q: "record_wf q" "k = rec_key q" "row_for C q row"
    by (rule records_ok_row [OF assms row])
  then have "winner C s k = Some q"
    using row decode_row [OF q(1,3)] by (simp add: winner_def lookup_record_def load_record_def rec_key_def)
  with w q row show "\<exists>row. om_get (path_records s) k = Some row \<and> record_wf r \<and> k = rec_key r \<and> row_for C r row"
    by auto
next
  assume "\<exists>row. om_get (path_records s) k = Some row \<and> record_wf r \<and> k = rec_key r \<and> row_for C r row"
  then show "winner C s k = Some r"
    using decode_row [of r C] by (auto simp: winner_def lookup_record_def load_record_def rec_key_def)
qed

section \<open>Storing a record\<close>

definition row_of_record :: "crypto \<Rightarrow> Record \<Rightarrow> bool \<Rightarrow> path_record_row" where
  "row_of_record C r materialized =
    \<lparr>row_record_hash = to_be_bytes (record_canonical_hash (c_blake3 C) r),
     row_kind = kind_column (r_kind r), row_canonical = record_canonical_bytes r,
     row_materialized = of_bool materialized,
     row_materialized_modified_ns =
       (case r_kind r of File _ _ \<Rightarrow> if materialized then Some (r_modified_ns r) else None | Tombstone \<Rightarrow> None),
     row_materialized_size =
       (case r_kind r of File len _ \<Rightarrow> if materialized then Some len else None | Tombstone \<Rightarrow> None),
     row_materialized_hash =
       (case r_kind r of File _ h \<Rightarrow> if materialized then Some (to_be_bytes h) else None | Tombstone \<Rightarrow> None)\<rparr>"

lemma row_of_record_for: "record_wf r \<Longrightarrow> row_for C r (row_of_record C r m)"
  by (auto simp: row_for_def row_of_record_def kind_column_def record_wf_def kind_wf_def sint_u64_nonneg
      split: RecordKind.splits)

lemma upsert_record_ok:
  assumes wf: "record_wf r" and c: "om_contains (t_collections s) (r_collection r)"
  shows "upsert_record C r m s = Inr (s\<lparr>path_records := om_insert (rec_key r) (row_of_record C r m) (path_records s)\<rparr>)"
proof -
  have "record_row C (t_collections s) (rec_key r) (row_of_record C r m)"
    using wf c row_of_record_for by (auto simp: record_row_def rec_key_def)
  then have check: "check_path_record_row s (rec_key r) (row_of_record C r m)" by (rule record_row_check)
  show ?thesis
  proof (cases "r_kind r")
    case (File len h)
    then have "i64_try_from_u64 len = Some len" using wf by (simp add: record_wf_def kind_wf_def i64_try_from_u64_def)
    with File check show ?thesis
      by (cases m) (simp_all add: upsert_record_def Let_def sql_upsert_def row_of_record_def rec_key_def)
  next
    case Tombstone
    with check show ?thesis
      by (cases m) (simp_all add: upsert_record_def Let_def sql_upsert_def row_of_record_def rec_key_def)
  qed
qed

lemma upsert_records_ok:
  assumes "records_ok C s" and "record_wf r" and "om_contains (t_collections s) (r_collection r)"
  shows "records_ok C (s\<lparr>path_records := om_insert (rec_key r) (row_of_record C r m) (path_records s)\<rparr>)"
proof -
  have "record_row C (t_collections s) (rec_key r) (row_of_record C r m)"
    using assms(2,3) row_of_record_for by (auto simp: record_row_def rec_key_def)
  with assms(1) show ?thesis by (simp add: records_ok_def rows_ok_om_insert)
qed

lemma winner_upsert:
  assumes "records_ok C s" and "record_wf r" and "om_contains (t_collections s) (r_collection r)"
  shows "winner C (s\<lparr>path_records := om_insert (rec_key r) (row_of_record C r m) (path_records s)\<rparr>) k
    = (if k = rec_key r then Some r else winner C s k)"
proof -
  have wf: "om_wf (path_records s)" using assms(1) by (auto simp: records_ok_def dest: rows_ok_wf)
  show ?thesis
  proof (cases "k = rec_key r")
    case True
    then show ?thesis
      using winner_row [OF upsert_records_ok [OF assms], of m k r] assms(2) row_of_record_for
      by (auto simp: om_get_insert [OF wf])
  next
    case False
    then show ?thesis
      by (simp add: winner_def lookup_record_def load_record_def om_get_insert [OF wf])
  qed
qed

section \<open>Merging\<close>

definition loggable :: "json \<Rightarrow> OperationalEvent \<Rightarrow> bool" where
  "loggable J e \<longleftrightarrow> validate_operational_event e = Inr () \<and> (\<exists>bs. to_vec J e = Some bs \<and> check_log_row bs)"

lemma insert_log_loggable:
  assumes "loggable J e" and "log_sequence s < 2 ^ 63 - 1" and "n < 2 ^ 63"
  obtains s' where "insert_log J t e n s = Inr s'" "log_sequence s' = log_sequence s + 1"
  using assms that unfolding loggable_def insert_log_Inr by fastforce

type_synonym record_message = "Record \<times> i64 \<times> EndpointId option"

definition merge_admissible :: "json \<Rightarrow> nat \<Rightarrow> StateStore \<Rightarrow> record_message \<Rightarrow> bool" where
  "merge_admissible J n s = (\<lambda>(r, t, src). record_wf r \<and> om_contains (t_collections s) (r_collection r) \<and> n < 2 ^ 63
     \<and> loggable J (RecordAccepted (r_collection r) (r_path r) src)
     \<and> (\<forall>wt wa. loggable J (RecordRejected (r_collection r) (r_path r) src (r_modified_ns r) (r_author r) wt wa)))"

definition merge_room :: "StateStore \<Rightarrow> nat" where
  "merge_room s = nat (2 ^ 63 - 1 - log_sequence s)"

definition merged :: "crypto \<Rightarrow> json \<Rightarrow> nat \<Rightarrow> record_message \<Rightarrow> StateStore \<Rightarrow> StateStore" where
  "merged C J n = (\<lambda>(r, t, src) s. snd (merge_record C J r t src n s))"

lemma records_ok_cong:
  "t_collections s' = t_collections s \<Longrightarrow> path_records s' = path_records s \<Longrightarrow> records_ok C s' = records_ok C s"
  by (simp add: records_ok_def)

lemma winner_cong: "path_records s' = path_records s \<Longrightarrow> winner C s' k = winner C s k"
  by (simp add: winner_def lookup_record_def load_record_def)

definition wins :: "crypto \<Rightarrow> Record \<Rightarrow> Record option \<Rightarrow> bool" where
  "wins C r w = (case w of None \<Rightarrow> True | Some w \<Rightarrow> winner_key (c_blake3 C) w < winner_key (c_blake3 C) r)"

lemma wins_compare:
  "wins C r w \<longleftrightarrow> (\<forall>v. w = Some v \<longrightarrow> compare_winner (c_blake3 C) r v = Greater)"
  by (simp add: wins_def compare_winner_key split: option.splits)

lemma merge_record_ok:
  assumes ok: "records_ok C s" and adm: "merge_admissible J n s (r, t, src)" and room: "0 < merge_room s"
  obtains s' where
    "merge_record C J r t src n s = (Inr (wins C r (winner C s (rec_key r))), s')"
    "records_ok C s'" "t_collections s' = t_collections s" "log_sequence s' = log_sequence s + 1"
    "\<forall>k. winner C s' k = (if k = rec_key r
        then (if wins C r (winner C s k) then Some r else winner C s k)
        else winner C s k)"
proof -
  from adm have wf: "record_wf r" and c: "om_contains (t_collections s) (r_collection r)" and n: "n < 2 ^ 63"
    by (simp_all add: merge_admissible_def)
  have seq: "log_sequence s < 2 ^ 63 - 1" using room by (simp add: merge_room_def)
  define acc where "acc = wins C r (winner C s (rec_key r))"
  define e where "e = (case winner C s (rec_key r) of
          Some w \<Rightarrow>
            if acc then RecordAccepted (r_collection r) (r_path r) src
            else RecordRejected (r_collection r) (r_path r) src
              (r_modified_ns r) (r_author r) (r_modified_ns w) (r_author w)
        | None \<Rightarrow> RecordAccepted (r_collection r) (r_path r) src)"
  define s1 where "s1 = (if acc
      then s\<lparr>path_records := om_insert (rec_key r) (row_of_record C r (src = None)) (path_records s)\<rparr> else s)"
  have "loggable J e" using adm by (auto simp: e_def merge_admissible_def split: option.splits)
  moreover have "log_sequence s1 = log_sequence s" by (simp add: s1_def)
  ultimately obtain s' where s': "insert_log J t e n s1 = Inr s'" "log_sequence s' = log_sequence s + 1"
    using insert_log_loggable [of J e s1 n t] seq n by auto
  have up: "(if acc then upsert_record C r (src = None) s else Inr s) = Inr s1"
    using upsert_record_ok [OF wf c] by (simp add: s1_def)
  have load: "load_record C (r_collection r) (as_str (r_path r)) s = Inr (winner C s (rec_key r))"
    using load_record_ok(1) [OF ok, of "rec_key r"] by (simp add: rec_key_def)
  have acc': "(case winner C s (rec_key r) of None \<Rightarrow> True
      | Some w \<Rightarrow> compare_winner (c_blake3 C) r w = Greater) = acc"
    by (simp add: acc_def wins_def compare_winner_key split: option.splits)
  have run: "merge_record C J r t src n s = (Inr acc, s')"
    unfolding merge_record_def transactionS_def Let_def load bindE_simps acc' up e_def [symmetric] s'(1) by simp
  note frame = insert_log_frame [OF s'(1)]
  have "records_ok C s1" using upsert_records_ok [OF ok wf c] ok by (simp add: s1_def)
  then have "records_ok C s'" using records_ok_cong frame(1,2) by blast
  moreover have "t_collections s' = t_collections s" using frame(1) by (simp add: s1_def)
  moreover have "winner C s' k = (if k = rec_key r
        then (if wins C r (winner C s k) then Some r else winner C s k)
        else winner C s k)" for k
    unfolding winner_cong [OF frame(2)] s1_def
    by (simp add: winner_upsert [OF ok wf c] acc_def)
  ultimately show ?thesis using that [of s'] run s'(2) unfolding acc_def by blast
qed

lemma merged_ok:
  assumes "records_ok C s" and "merge_admissible J n s m" and "0 < merge_room s"
  shows "records_ok C (merged C J n m s) \<and> t_collections (merged C J n m s) = t_collections s
    \<and> log_sequence (merged C J n m s) = log_sequence s + 1
    \<and> winner C (merged C J n m s) k = (if k = rec_key (fst m)
        then (if wins C (fst m) (winner C s k) then Some (fst m) else winner C s k) else winner C s k)"
proof -
  obtain r t src where m: "m = (r, t, src)" by (cases m)
  obtain s' where s': "merge_record C J r t src n s = (Inr (wins C r (winner C s (rec_key r))), s')"
    "records_ok C s'" "t_collections s' = t_collections s" "log_sequence s' = log_sequence s + 1"
    and w: "\<forall>k. winner C s' k = (if k = rec_key r
        then (if wins C r (winner C s k) then Some r else winner C s k) else winner C s k)"
    by (rule merge_record_ok [OF assms(1) assms(2) [unfolded m] assms(3)])
  show ?thesis using s' w [rule_format, of k] by (simp add: m merged_def)
qed

interpretation lww: lww_store "records_ok C" "merge_admissible J n" merge_room "winner C" "merged C J n" fst
  rec_key "winner_key (c_blake3 C)" for C J n
proof (unfold_locales, goal_cases)
  case (1 s m)
  then show ?case using merged_ok by blast
next
  case (2 s m q)
  have "t_collections (merged C J n m s) = t_collections s" using merged_ok [OF 2(1-3)] by blast
  with 2(4) show ?case by (auto simp: merge_admissible_def split: prod.splits)
next
  case (3 s m)
  have "log_sequence (merged C J n m s) = log_sequence s + 1" using merged_ok [OF 3] by blast
  with 3(3) show ?case by (simp add: merge_room_def)
next
  case (4 s m k)
  show ?case using merged_ok [OF 4, of k] by (simp add: wins_def split: option.splits)
qed

text \<open>
  Merging a record always succeeds on a valid store with an attached collection, accepts the record exactly
  when there is no record for its path or the new one wins, and then the winner of that path is the greater of
  the two while every other path keeps its winner.
\<close>

theorem merge_record_effect:
  assumes "records_ok C s" and "merge_admissible J n s (r, t, src)" and "log_sequence s < 2 ^ 63 - 1"
  shows "\<exists>s' accepted. merge_record C J r t src n s = (Inr accepted, s') \<and> records_ok C s'
    \<and> (accepted \<longleftrightarrow> (\<forall>w. winner C s (rec_key r) = Some w \<longrightarrow> compare_winner (c_blake3 C) r w = Greater))
    \<and> winner C s' (rec_key r) = (if accepted then Some r else winner C s (rec_key r))
    \<and> (\<forall>k. k \<noteq> rec_key r \<longrightarrow> winner C s' k = winner C s k)"
proof -
  have "0 < merge_room s" using assms(3) by (simp add: merge_room_def)
  then obtain s' where s': "merge_record C J r t src n s = (Inr (wins C r (winner C s (rec_key r))), s')"
    "records_ok C s'" "t_collections s' = t_collections s" "log_sequence s' = log_sequence s + 1"
    and w: "\<forall>k. winner C s' k = (if k = rec_key r
        then (if wins C r (winner C s k) then Some r else winner C s k) else winner C s k)"
    by (rule merge_record_ok [OF assms(1,2)])
  have "winner C s' (rec_key r) = (if wins C r (winner C s (rec_key r)) then Some r else winner C s (rec_key r))"
    using w [rule_format, of "rec_key r"] by (simp only: if_True simp_thms)
  moreover have "\<forall>k. k \<noteq> rec_key r \<longrightarrow> winner C s' k = winner C s k" using w by presburger
  ultimately show ?thesis using s'(1,2) wins_compare [of C r "winner C s (rec_key r)"] by blast
qed

lemma candidates_eq:
  assumes "records_ok C s"
  shows "lww.candidates C ms s k = {r \<in> {r. \<exists>k. winner C s k = Some r} \<union> fst ` set ms. rec_key r = k}"
proof -
  have key: "winner C s k' = Some r \<Longrightarrow> rec_key r = k'" for k' r using load_record_ok(2) [OF assms] by blast
  have "set_option (winner C s k) = {r. (\<exists>k. winner C s k = Some r) \<and> rec_key r = k}"
  proof (intro set_eqI iffI)
    fix r assume "r \<in> set_option (winner C s k)"
    then have "winner C s k = Some r" by (simp only: elem_set)
    with key [OF this] show "r \<in> {r. (\<exists>k. winner C s k = Some r) \<and> rec_key r = k}" by blast
  next
    fix r assume "r \<in> {r. (\<exists>k. winner C s k = Some r) \<and> rec_key r = k}"
    then obtain k' where "winner C s k' = Some r" "rec_key r = k" by blast
    with key have "winner C s k = Some r" by blast
    then show "r \<in> set_option (winner C s k)" by (simp only: elem_set)
  qed
  then show ?thesis unfolding lww.candidates_def by blast
qed

text \<open>
  C5. Replicas converge: two devices that together with what they already stored were given the same set of
  records, in any order, with any repetitions and from any peers, name the same winner for every path of
  every collection, provided BLAKE3 separates those records.
\<close>

theorem replicas_converge:
  assumes "records_ok C a" and "\<forall>m \<in> set ms. merge_admissible J n a m" and "length ms \<le> merge_room a"
    and "records_ok C b" and "\<forall>m \<in> set ns. merge_admissible J n b m" and "length ns \<le> merge_room b"
    and "{r. \<exists>k. winner C a k = Some r} \<union> fst ` set ms = {r. \<exists>k. winner C b k = Some r} \<union> fst ` set ns"
    and "hash_separates (c_blake3 C) ({r. \<exists>k. winner C a k = Some r} \<union> fst ` set ms)"
  shows "winner C (fold (merged C J n) ms a) k = winner C (fold (merged C J n) ns b) k"
proof (rule lww.runs_agree [OF assms(1-6)])
  show "lww.candidates C ms a k = lww.candidates C ns b k"
    unfolding candidates_eq [OF assms(1)] candidates_eq [OF assms(4)] assms(7) ..
  have wf: "record_wf r" if "r \<in> {r. \<exists>k. winner C a k = Some r} \<union> fst ` set ms" for r
    using that load_record_ok(2) [OF assms(1)] assms(2) by (auto simp: merge_admissible_def)
  have "inj_on (winner_key (c_blake3 C)) ({r. \<exists>k. winner C a k = Some r} \<union> fst ` set ms)"
    using assms(8) wf by (rule winner_key_inj)
  then show "inj_on (winner_key (c_blake3 C)) (lww.candidates C ms a k)"
    unfolding candidates_eq [OF assms(1)] by (rule inj_on_subset) blast
qed

definition sample_records_store :: StateStore where
  "sample_records_store = fresh_database\<lparr>t_collections := [(''c'', \<lparr>row_local_path = [1],
     row_resolved_root = None, row_scan_status = ''pending'', row_watch_status = ''pending''\<rparr>)]\<rparr>"

lemma sample_records_ok: "records_ok C sample_records_store"
  by (simp add: records_ok_def sample_records_store_def fresh_database_def)

lemma sample_admissible:
  "record_wf r \<Longrightarrow> r_collection r = ''c'' \<Longrightarrow> length (as_str (r_path r)) \<le> 4096 \<Longrightarrow>
   merge_admissible sample_json 10 sample_records_store (r, t, src)"
  by (simp add: merge_admissible_def sample_records_store_def om_contains_def loggable_def sample_json_def
      check_log_row_def validate_operational_event_def event_subject_def)

lemma sample_messages:
  "merge_admissible sample_json 10 sample_records_store (sample_file, t, src)"
  "merge_admissible sample_json 10 sample_records_store (sample_tombstone, t, src)"
  by (rule sample_admissible [OF sample_file_wf], simp_all add: sample_file_def)
    (rule sample_admissible [OF sample_tombstone_wf], simp_all add: sample_tombstone_def)

lemma sample_records_empty:
  "winner C sample_records_store k = None" "log_sequence sample_records_store = 0"
  by (simp_all add: winner_def lookup_record_def load_record_def sample_records_store_def fresh_database_def)

theorem merge_record_effect_witness:
  "\<exists>s'. merge_record sample_crypto sample_json sample_file 1 (Some 4) 10 sample_records_store = (Inr True, s')
     \<and> winner sample_crypto s' (rec_key sample_file) = Some sample_file"
  using merge_record_effect [OF sample_records_ok sample_messages(1), of sample_crypto 1 "Some 4"]
  by (auto simp: sample_records_empty)

theorem replicas_converge_witness:
  "winner sample_crypto (fold (merged sample_crypto sample_json 10)
      [(sample_file, 1, None), (sample_tombstone, 2, Some 4)] sample_records_store) (rec_key sample_file)
   = winner sample_crypto (fold (merged sample_crypto sample_json 10)
      [(sample_tombstone, 5, None), (sample_file, 6, Some 4), (sample_file, 7, None)] sample_records_store) (rec_key sample_file)"
proof (rule replicas_converge)
  show "hash_separates (c_blake3 sample_crypto)
      ({r. \<exists>k. winner sample_crypto sample_records_store k = Some r}
        \<union> fst ` set [(sample_file, 1, None), (sample_tombstone, 2, Some 4)])"
    using sample_hash_separates by (simp add: sample_records_empty sample_crypto_def insert_commute)
qed (auto simp: sample_records_ok sample_messages sample_records_empty merge_room_def)

end
