(* ===== verification/State_Invariant.thy ===== *)
theory State_Invariant
  imports State_Joining State_Records_Props
begin

text \<open>
  The invariant of the whole store, its preservation by every operation, and what it means for a reader: no
  sequence of operations leaves a state that the store's own queries reject.
\<close>

section \<open>Updating record rows\<close>

lemma update_rows_ok:
  assumes ok: "records_ok C s" and f: "\<And>k row r. P k row \<Longrightarrow> row_for C r row \<Longrightarrow> row_for C r (f row)"
  shows "update_path_records P f s = Inr (length (filter (\<lambda>(k, row). P k row) (path_records s)),
      s\<lparr>path_records := om_update_where P f (path_records s)\<rparr>)"
    and "records_ok C (s\<lparr>path_records := om_update_where P f (path_records s)\<rparr>)"
    and "winner C (s\<lparr>path_records := om_update_where P f (path_records s)\<rparr>) k = winner C s k"
proof -
  have rows: "rows_ok (record_row C (t_collections s)) (path_records s)" using ok by (simp add: records_ok_def)
  have keep: "record_row C (t_collections s) k row \<Longrightarrow> P k row \<Longrightarrow> record_row C (t_collections s) k (f row)" for k row
    using f [of k row] unfolding record_row_def by blast
  show "update_path_records P f s = Inr (length (filter (\<lambda>(k, row). P k row) (path_records s)),
      s\<lparr>path_records := om_update_where P f (path_records s)\<rparr>)"
    using sql_update_succeeds [OF rows, of P "check_path_record_row s" f] keep record_row_check [of C s]
    by (simp add: update_path_records_def)
  show ok': "records_ok C (s\<lparr>path_records := om_update_where P f (path_records s)\<rparr>)"
    using rows_ok_update_where [OF rows keep] by (simp add: records_ok_def)
  have "winner C (s\<lparr>path_records := om_update_where P f (path_records s)\<rparr>) k = Some r \<longleftrightarrow> winner C s k = Some r" for r
  proof
    assume "winner C s k = Some r"
    then obtain row where "om_get (path_records s) k = Some row" "record_wf r" "k = rec_key r" "row_for C r row"
      using winner_row [OF ok] by blast
    then show "winner C (s\<lparr>path_records := om_update_where P f (path_records s)\<rparr>) k = Some r"
      using f unfolding winner_row [OF ok'] by auto
  next
    assume r: "winner C (s\<lparr>path_records := om_update_where P f (path_records s)\<rparr>) k = Some r"
    then obtain row where row: "om_get (path_records s) k = Some row" "record_wf r" "k = rec_key r"
        "row_for C r (if P k row then f row else row)"
      unfolding winner_row [OF ok'] by auto
    obtain q where q: "record_wf q" "k = rec_key q" "row_for C q row"
      by (rule records_ok_row [OF ok row(1)])
    then have "row_for C q (if P k row then f row else row)" using f by simp
    with row(4) have "record_canonical_bytes q = record_canonical_bytes r" by (simp add: row_for_def)
    then have "q = r" using record_canonical_bytes_inj q(1) row(2) by blast
    with q row(1) show "winner C s k = Some r" unfolding winner_row [OF ok] by auto
  qed
  then show "winner C (s\<lparr>path_records := om_update_where P f (path_records s)\<rparr>) k = winner C s k"
    by (metis option.exhaust)
qed

lemma row_for_clear: "row_for C r row \<Longrightarrow> row_for C r (clear_materialized row)"
  by (simp add: row_for_def clear_materialized_def)

lemma row_for_fingerprint:
  assumes "row_for C r row" and "row_kind row = 1" and "i64_try_from_u64 (fp_size fp) = Some len"
  shows "row_for C r (row\<lparr>row_materialized := 1, row_materialized_modified_ns := Some (fp_modified_ns fp),
     row_materialized_size := Some len, row_materialized_hash := Some (to_be_bytes (fp_hash fp))\<rparr>)"
  using assms by (auto simp: row_for_def i64_try_from_u64_def sint_u64_nonneg split: if_splits)

lemma row_for_tombstone:
  "row_for C r row \<Longrightarrow> row_kind row = 0 \<Longrightarrow> row_for C r (row\<lparr>row_materialized := 1\<rparr>)"
  by (simp add: row_for_def split: if_splits)

section \<open>The invariant\<close>

definition collections_ok :: "StateStore \<Rightarrow> bool" where
  "collections_ok s \<longleftrightarrow> rows_ok check_collection_row (t_collections s)"

definition peers_ok :: "StateStore \<Rightarrow> bool" where
  "peers_ok s \<longleftrightarrow> rows_ok check_peer_hint (peer_hints s) \<and> rows_ok check_peer_health (peer_health s)"

definition store_ok :: "crypto \<Rightarrow> StateStore \<Rightarrow> bool" where
  "store_ok C s \<longleftrightarrow> roster_ok C s \<and> collections_ok s \<and> records_ok C s \<and> peers_ok s \<and> log_ok s"

text \<open>Each component of the invariant depends on its own tables only.\<close>

lemma log_ok_cong:
  "operational_logs s' = operational_logs s \<Longrightarrow> log_sequence s' = log_sequence s \<Longrightarrow> log_ok s' = log_ok s"
  by (simp add: log_ok_def)

lemma store_ok_insert_log:
  assumes "store_ok C s" and "insert_log J t e n s = Inr s'"
  shows "store_ok C s'"
  using assms insert_log_frame [OF assms(2)] insert_log_ok [OF assms(2)] roster_ok_cong [of s' s C]
    records_ok_cong [of s' s C]
  by (simp add: store_ok_def collections_ok_def peers_ok_def)

lemma store_ok_records:
  assumes "store_ok C s" and "records_ok C (s\<lparr>path_records := t\<rparr>)"
  shows "store_ok C (s\<lparr>path_records := t\<rparr>)"
proof -
  have "roster_ok C (s\<lparr>path_records := t\<rparr>) = roster_ok C s" by (rule roster_ok_cong) simp
  with assms show ?thesis by (simp add: store_ok_def collections_ok_def peers_ok_def log_ok_def)
qed

lemma store_ok_update_rows:
  assumes "store_ok C s" and "update_path_records P f s = Inr (n, s')"
    and "\<And>k row r. P k row \<Longrightarrow> row_for C r row \<Longrightarrow> row_for C r (f row)"
  shows "store_ok C s'"
proof -
  have ok: "records_ok C s" using assms(1) by (simp add: store_ok_def)
  show ?thesis
    using update_rows_ok(1,2) [OF ok, of P f] assms store_ok_records by fastforce
qed

lemma record_row_collections:
  assumes "\<And>n. om_contains t' n = om_contains t n"
  shows "record_row C t' = record_row C t"
  using assms by (intro ext) (simp add: record_row_def)

lemma store_ok_update_collections:
  assumes "store_ok C s" and "update_collections P f s = Inr (n, s')"
  shows "store_ok C s'"
proof -
  have s': "s' = s\<lparr>t_collections := om_update_where (\<lambda>name c. P name) f (t_collections s)\<rparr>"
      and check: "\<forall>(k, v) \<in> set (t_collections s). P k \<longrightarrow> check_collection_row k (f v)"
    using assms(2) by (auto simp: update_collections_def bindE_eq_Inr sql_update_eq_Inr)
  have rows: "rows_ok check_collection_row (t_collections s)" using assms(1) by (simp add: store_ok_def collections_ok_def)
  have "rows_ok check_collection_row (t_collections s')"
    using rows check unfolding rows_ok_def s' by (auto simp: om_get_Some_iff)
  moreover have "record_row C (t_collections s') = record_row C (t_collections s)"
    by (rule record_row_collections) (simp add: s' om_contains_def)
  moreover have "roster_ok C s' = roster_ok C s" by (rule roster_ok_cong) (simp add: s')
  ultimately show ?thesis
    using assms(1) by (simp add: store_ok_def collections_ok_def records_ok_def peers_ok_def log_ok_def s')
qed

section \<open>Collections\<close>

lemma record_row_mono:
  assumes "rows_ok (record_row C t) rs" and "\<And>n. om_contains t n \<Longrightarrow> om_contains t' n"
  shows "rows_ok (record_row C t') rs"
  using assms(1) by (rule rows_ok_mono) (auto simp: record_row_def assms(2))

lemma preserves_add_collection: "preserves (store_ok C) (add_collection name local_path resolved_root)"
  unfolding add_collection_def
proof (rule preserves_transactionS)
  fix s a s'
  let ?row = "\<lparr>row_local_path = local_path, row_resolved_root = resolved_root,
       row_scan_status = ''pending'', row_watch_status = ''pending''\<rparr>"
  assume ok: "store_ok C s" and "bindE (mapErr Sqlite (sql_insert check_collection_row name ?row (t_collections s)))
      (\<lambda>t. Inr ((), s\<lparr>t_collections := t\<rparr>)) = Inr (a, s')"
  then have check: "check_collection_row name ?row"
    and s': "s' = s\<lparr>t_collections := om_insert name ?row (t_collections s)\<rparr>"
    by (auto simp: bindE_eq_Inr sql_insert_eq_Inr)
  have rows: "rows_ok check_collection_row (t_collections s)" using ok by (simp add: store_ok_def collections_ok_def)
  have "collections_ok s'" using rows_ok_om_insert [where R = check_collection_row, OF rows check] by (simp add: collections_ok_def s')
  moreover have "records_ok C s'"
    using ok rows_ok_wf [OF rows]
    by (auto simp: records_ok_def s' store_ok_def om_contains_def om_get_insert intro: record_row_mono)
  moreover have "roster_ok C s' = roster_ok C s" by (rule roster_ok_cong) (simp add: s')
  ultimately show "store_ok C s'" using ok by (simp add: store_ok_def peers_ok_def log_ok_def s')
qed

lemma preserves_replace_collection_path: "preserves (store_ok C) (replace_collection_path name local_path)"
  unfolding replace_collection_path_def
  by (rule preserves_transactionS)
    (auto simp: bindE_eq_Inr intro: store_ok_update_rows store_ok_update_collections row_for_clear)

lemma preserves_complete_collection_scan:
  "preserves (store_ok C) (complete_collection_scan name local_path resolved_root)"
  unfolding complete_collection_scan_def Let_def
  by (rule preserves_transactionS)
    (auto simp: bindE_eq_Inr split: if_splits
      intro: store_ok_update_rows store_ok_update_collections row_for_clear)

lemma preserves_set_collection_status:
  "preserves (store_ok C) (set_collection_scan_status name st)"
  "preserves (store_ok C) (set_collection_watch_status name st')"
  unfolding set_collection_scan_status_def set_collection_watch_status_def
  by (rule preserves_transactionS, auto simp: bindE_eq_Inr intro: store_ok_update_collections)+

lemma remove_collection_eq:
  "remove_collection name s = (Inr (om_contains (t_collections s) name),
     s\<lparr>t_collections := filter (\<lambda>(k, v). k \<noteq> name) (t_collections s),
       path_records := filter (\<lambda>(k, v). \<not> (fst k = name \<and> om_contains (t_collections s) name)) (path_records s)\<rparr>)"
proof -
  have "length (filter (\<lambda>(k, v). k = name) (t_collections s)) \<noteq> 0 \<longleftrightarrow> om_contains (t_collections s) name"
    by (force simp: om_contains_iff filter_empty_conv)
  then show ?thesis
    by (simp add: remove_collection_def transactionS_def sql_delete_def)
qed

lemma preserves_remove_collection: "preserves (store_ok C) (remove_collection name)"
  unfolding preserves_def
proof (intro allI impI)
  fix s assume ok: "store_ok C s"
  let ?t = "filter (\<lambda>(k, v). k \<noteq> name) (t_collections s)"
  let ?r = "filter (\<lambda>(k, v). \<not> (fst k = name \<and> om_contains (t_collections s) name)) (path_records s)"
  have rows: "rows_ok check_collection_row (t_collections s)"
      "rows_ok (record_row C (t_collections s)) (path_records s)"
    using ok by (simp_all add: store_ok_def collections_ok_def records_ok_def)
  have "rows_ok check_collection_row ?t" using rows_ok_filter [OF rows(1), of "\<lambda>k. k \<noteq> name"] by simp
  moreover have "rows_ok (record_row C ?t) ?r"
    unfolding rows_ok_def
  proof (intro conjI allI impI)
    show "om_wf ?r" using om_wf_filter [OF rows_ok_wf [OF rows(2)]] .
    fix k row assume "om_get ?r k = Some row"
    then have "\<not> (fst k = name \<and> om_contains (t_collections s) name)" "om_get (path_records s) k = Some row"
      unfolding om_get_filter by (simp_all split: if_splits)
    moreover from this(2) have "record_row C (t_collections s) k row" using rows(2) by (simp only: rows_okD)
    ultimately show "record_row C ?t k row"
      by (auto simp: record_row_def om_contains_def om_get_filter)
  qed
  moreover have "roster_ok C (s\<lparr>t_collections := ?t, path_records := ?r\<rparr>) = roster_ok C s"
    by (rule roster_ok_cong) simp
  ultimately show "store_ok C (snd (remove_collection name s))"
    using ok
    by (simp add: remove_collection_eq store_ok_def collections_ok_def records_ok_def peers_ok_def log_ok_def)
qed

section \<open>Logs and peers\<close>

lemma preserves_append_log: "preserves (store_ok C) (append_log J t e n)"
  unfolding append_log_def
  by (rule preserves_transactionS) (auto simp: bindE_eq_Inr intro: store_ok_insert_log)

lemma store_ok_replace_hint:
  assumes "store_ok C s" and "replace_peer_hint_in e hint s = Inr s'"
  shows "store_ok C s'"
proof -
  have s': "s' = s\<lparr>peer_hints := om_insert (to_be_bytes e) hint (peer_hints s)\<rparr>"
      and check: "check_peer_hint (to_be_bytes e) hint"
    using assms(2) by (auto simp: replace_peer_hint_in_Inr check_peer_hint_def)
  have "rows_ok check_peer_hint (peer_hints s')"
    using rows_ok_om_insert [where R = check_peer_hint, OF _ check, of "peer_hints s"] assms(1) by (simp add: s' store_ok_def peers_ok_def)
  moreover have "roster_ok C s' = roster_ok C s" by (rule roster_ok_cong) (simp add: s')
  ultimately show ?thesis
    using assms(1) by (simp add: store_ok_def collections_ok_def records_ok_def peers_ok_def log_ok_def s')
qed

lemma preserves_replace_peer_hint: "preserves (store_ok C) (replace_peer_hint e hint)"
  unfolding replace_peer_hint_def
  by (intro preserves_bindS preserves_pure preserves_transactionS)
    (auto simp: bindE_eq_Inr intro: store_ok_replace_hint)

lemma preserves_record_peer_health: "preserves (store_ok C) (record_peer_health J e reachable t event n)"
  unfolding record_peer_health_def
proof (rule preserves_transactionS)
  fix s a s' assume ok: "store_ok C s"
  let ?s = "s\<lparr>peer_health := om_insert (to_be_bytes e) (of_bool reachable) (peer_health s)\<rparr>"
  assume "bindE (mapErr Sqlite (sql_upsert check_peer_health (to_be_bytes e) (of_bool reachable) (peer_health s)))
      (\<lambda>t'. bindE (insert_log J t event n (s\<lparr>peer_health := t'\<rparr>)) (\<lambda>s. Inr ((), s))) = Inr (a, s')"
  then have check: "check_peer_health (to_be_bytes e) (of_bool reachable)" and ins: "insert_log J t event n ?s = Inr s'"
    by (auto simp: bindE_eq_Inr sql_upsert_eq_Inr)
  have "rows_ok check_peer_health (peer_health ?s)"
    using rows_ok_om_insert [where R = check_peer_health, OF _ check, of "peer_health s"] ok by (simp add: store_ok_def peers_ok_def)
  moreover have "roster_ok C ?s = roster_ok C s" by (rule roster_ok_cong) simp
  ultimately have "store_ok C ?s"
    using ok by (simp add: store_ok_def collections_ok_def records_ok_def peers_ok_def log_ok_def)
  then show "store_ok C s'" using ins by (rule store_ok_insert_log)
qed

section \<open>Records\<close>

lemma store_ok_upsert:
  assumes "store_ok C s" and "record_wf r" and "upsert_record C r m s = Inr s'"
  shows "store_ok C s'"
proof -
  have c: "om_contains (t_collections s) (r_collection r)"
    using assms(3)
    by (auto simp: upsert_record_def bindE_eq_Inr sql_upsert_eq_Inr check_path_record_row_def Let_def)
  have "records_ok C s" using assms(1) by (simp add: store_ok_def)
  from upsert_records_ok [OF this assms(2) c] show ?thesis
    using assms(1,3) upsert_record_ok [OF assms(2) c] store_ok_records by force
qed

lemma preserves_merge_record:
  assumes "record_wf r"
  shows "preserves (store_ok C) (merge_record C J r t src n)"
  unfolding merge_record_def Let_def
  by (rule preserves_transactionS)
    (auto simp: bindE_eq_Inr split: if_splits intro: store_ok_insert_log store_ok_upsert [OF _ assms])

lemma preserves_mark_repair: "preserves (store_ok C) (mark_repair_required_and_log J c p t e n)"
  unfolding mark_repair_required_and_log_def
  by (rule preserves_transactionS)
    (auto simp: bindE_eq_Inr split: if_splits intro: store_ok_insert_log store_ok_update_rows row_for_clear)

lemma store_ok_fingerprint:
  assumes "store_ok C s" and "update_materialized_fingerprint c p fp s = Inr s'"
  shows "store_ok C s'"
  using assms(2) unfolding update_materialized_fingerprint_def
  by (auto simp: bindE_eq_Inr split: if_splits intro: store_ok_update_rows [OF assms(1)] row_for_fingerprint)

lemma preserves_set_fingerprint: "preserves (store_ok C) (set_materialized_fingerprint c p fp)"
  unfolding set_materialized_fingerprint_def
  by (rule preserves_transactionS) (auto simp: bindE_eq_Inr intro: store_ok_fingerprint)

lemma store_ok_root_change:
  assumes "store_ok C s" and "update_collections P f s = Inr (m, s1)"
    and "update_path_records Q clear_materialized s1 = Inr (n, s')"
  shows "store_ok C s'"
  using store_ok_update_rows [OF store_ok_update_collections [OF assms(1,2)] assms(3)] row_for_clear by blast

lemma preserves_mark_materialized: "preserves (store_ok C) (mark_materialized_and_log J c p mf t e n)"
  unfolding mark_materialized_and_log_def
  by (rule preserves_transactionS)
    (auto simp: bindE_eq_Inr split: if_splits intro: store_ok_insert_log store_ok_fingerprint,
      meson store_ok_insert_log store_ok_fingerprint store_ok_root_change)

lemma preserves_mark_tombstone: "preserves (store_ok C) (mark_tombstone_materialized_and_log J c p t e n)"
  unfolding mark_tombstone_materialized_and_log_def
  by (rule preserves_transactionS)
    (auto simp: bindE_eq_Inr split: if_splits intro: store_ok_insert_log store_ok_update_rows row_for_tombstone)

section \<open>Rosters\<close>

lemma store_ok_roster:
  assumes "store_ok C s" and "s' = s\<lparr>roster_revisions := t\<rparr>" and "roster_ok C s'"
  shows "store_ok C s'"
  using assms by (simp add: store_ok_def collections_ok_def records_ok_def peers_ok_def log_ok_def)

lemma insert_roster_revision_frame:
  "insert_roster_revision C r s = (res, s') \<Longrightarrow> \<exists>t. s' = s\<lparr>roster_revisions := t\<rparr>"
  by (auto simp: insert_roster_revision_def transactionS_def bindE_def dest: insert_row_Inr
      intro: exI [of _ "roster_revisions s"] split: sum.splits)

lemma preserves_insert_roster:
  assumes "storable r"
  shows "preserves (store_ok C) (insert_roster_revision C r)"
  unfolding preserves_def
proof (intro allI impI)
  fix s assume ok: "store_ok C s"
  obtain res s' where run: "insert_roster_revision C r s = (res, s')" by fastforce
  have "roster_ok C s'"
    using preservesD [OF preserves_insert_roster_revision [OF assms] _ run] ok by (simp add: store_ok_def)
  then show "store_ok C (snd (insert_roster_revision C r s))"
    using insert_roster_revision_frame [OF run] store_ok_roster [OF ok] run by auto
qed

lemma preserves_merge_roster:
  assumes "\<forall>r \<in> set rs. storable r"
  shows "preserves (store_ok C) (merge_selected_roster_chain C rs)"
proof -
  have one: "preserves (store_ok C) (merge_one_revision C r)" if "storable r" for r
    unfolding merge_one_revision_def
    by (intro preserves_bindS preserves_pure preserves_if preserves_insert_roster that)
  show ?thesis
    using assms one
    by (cases rs) (auto simp: merge_selected_roster_chain_def
        intro!: preserves_bindS preserves_pure preserves_forS split: list.splits)
qed

lemma store_ok_hint: "store_ok C s \<Longrightarrow> store_peer_hint h s = Inr s' \<Longrightarrow> store_ok C s'"
  by (auto simp: store_peer_hint_def split: option.splits intro: store_ok_replace_hint)

lemma store_peer_hint_roster: "store_peer_hint h s = Inr s' \<Longrightarrow> roster_revisions s' = roster_revisions s"
  by (auto simp: store_peer_hint_def replace_peer_hint_in_Inr split: option.splits)

text \<open>
  One round of the retry loop keeps the invariant on every path, and a round that ends without a result has
  not changed the roster: a revision that was inserted is the selected tip.
\<close>

lemma apply_once_outcome:
  assumes ok: "store_ok C s"
    and new: "\<forall>p r. stored C s p \<longrightarrow> child C p change identity = Inr r \<longrightarrow> storable r"
    and run: "apply_roster_change_once C identity change h s = (res, s')"
  shows "store_ok C s' \<and> (res = Inr None \<longrightarrow> roster_revisions s' = roster_revisions s)"
proof -
  have rok: "roster_ok C s" using ok by (simp add: store_ok_def)
  then have rows: "rows_ok (revision_row C) (roster_revisions s)" by (simp add: roster_ok_def)
  show ?thesis
  proof (cases "selected_roster_chain C s")
    case (Inl e)
    with run ok show ?thesis by (simp add: apply_roster_change_once_def bindS_def)
  next
    case (Inr chain)
    note sel = Inr
    show ?thesis
    proof (cases "chain = [] \<or> roster_change_is_satisfied (last chain) change")
      case True
      with run ok sel show ?thesis
        by (auto simp: apply_roster_change_once_def bindS_def transactionS_def bindE_def Let_def
            split: sum.splits if_splits intro: store_ok_hint)
    next
      case False
      then have ne: "chain \<noteq> []" and unsat: "\<not> roster_change_is_satisfied (last chain) change" by simp_all
      show ?thesis
      proof (cases "child C (last chain) change identity")
        case (Inl e)
        with run ok sel False show ?thesis by (simp add: apply_roster_change_once_def bindS_def Let_def)
      next
        case (Inr r)
        have tip: "stored C s (last chain)" using ne by (intro selected_chain_stored [OF rok sel]) simp
        have r: "storable r" using new tip Inr by blast
        note valid = child_valid [OF Inr]
        have known: "store_ok C s2 \<and> roster_revisions s2 = roster_revisions s"
          if "store_peer_hint h s = Inr s2" for s2
          using that ok store_ok_hint store_peer_hint_roster by blast
        show ?thesis
        proof (cases "om_get (roster_revisions s) (to_be_bytes (roster_canonical_hash C r))")
          case (Some bs)
          obtain x where "stored C s x" "to_be_bytes (roster_canonical_hash C r) = to_be_bytes (roster_canonical_hash C x)"
            by (rule stored_row [OF rows Some])
          then have "load_roster_revision C (roster_canonical_hash C r) s = Inr (Some x)"
            using load_roster_revision_ok [OF rows, of _ "Some x"] by (simp add: hash_bytes_inj)
          with run sel ne unsat Inr show ?thesis
            using ok known
            by (auto simp: apply_roster_change_once_def bindS_def transactionS_def Let_def bindE_def
                split: sum.splits if_splits)
        next
          case None
          then have nc: "collision_free C s {r}"
            using stored_inj [of C s] by (auto simp: collision_free_def stored_def inj_on_def)
          have load: "load_roster_revision C (roster_canonical_hash C r) s = Inr None"
            using load_roster_revision_ok [OF rows, of _ None] None by simp
          obtain s1 where ins: "insert_roster_revision_row C r s = Inr s1" by (rule insert_row_ok [OF rows r None])
          have grown: "grown C s {r} s1" using grown_insert [OF rows r tip _ ins] valid by simp
          have ext: "selected_roster_chain C s1 = Inr (chain @ [r])" "roster_ok C s1"
            using tip_extended [OF rok sel ne _ grown nc] valid by simp_all
          have ok1: "store_ok C s1" using insert_row_Inr [OF ins] store_ok_roster [OF ok _ ext(2)] by simp
          have sat: "roster_change_is_satisfied r change"
            using valid tip by (intro child_satisfies [of "last chain" C])
              (simp_all add: stored_def storable_def roster_wf_def members_ok_def)
          have fin: "store_ok C s2 \<and> selected_roster_chain C s2 = Inr (chain @ [r])"
            if "store_peer_hint h s1 = Inr s2" for s2
            using that ok1 ext(1) store_ok_hint selected_chain_cong [OF store_peer_hint_roster] by metis
          from run sel ne unsat Inr load ins show ?thesis
            using ok fin sat
            by (auto simp: apply_roster_change_once_def bindS_def transactionS_def Let_def bindE_def
                split: sum.splits if_splits)
        qed
      qed
    qed
  qed
qed

lemma stored_cong: "roster_revisions s' = roster_revisions s \<Longrightarrow> stored C s' r = stored C s r"
  by (simp add: stored_def)

lemma store_ok_apply_loop:
  assumes "store_ok C s" and "\<forall>p r. stored C s p \<longrightarrow> child C p change identity = Inr r \<longrightarrow> storable r"
  shows "store_ok C (snd (apply_roster_change_loop n C identity change h s))"
  using assms
proof (induction n arbitrary: s)
  case 0
  then show ?case by simp
next
  case (Suc n)
  obtain res s' where run: "apply_roster_change_once C identity change h s = (res, s')" by fastforce
  note out = apply_once_outcome [OF Suc.prems run]
  show ?case
  proof (cases "res = Inr None")
    case True
    then have "store_ok C (snd (apply_roster_change_loop n C identity change h s'))"
      using out Suc.prems(2) stored_cong [of s' s C] by (intro Suc.IH) auto
    with True run show ?thesis by (simp add: bindS_def)
  next
    case False
    then show ?thesis using out run by (auto simp: bindS_def split: sum.splits option.splits)
  qed
qed

lemma insert_missing_frame:
  "insert_missing_revisions C rs s = Inr s' \<Longrightarrow> \<exists>t. s' = s\<lparr>roster_revisions := t\<rparr>"
proof (induction rs arbitrary: s)
  case Nil
  then show ?case by (auto intro: exI [of _ "roster_revisions s"])
next
  case (Cons r rs)
  then obtain s1 where "s1 = s \<or> insert_roster_revision_row C r s = Inr s1"
      "insert_missing_revisions C rs s1 = Inr s'"
    by (auto simp: bindE_eq_Inr split: if_splits)
  moreover from this(1) obtain u where "s1 = s\<lparr>roster_revisions := u\<rparr>"
    using insert_row_Inr [of C r s s1] by (cases "s1 = s") (auto intro: that [of "roster_revisions s"])
  ultimately show ?case using Cons.IH [of s1] by auto
qed

lemma store_ok_replace_hints: "store_ok C s \<Longrightarrow> replace_peer_hints hs s = Inr s' \<Longrightarrow> store_ok C s'"
  by (induction hs arbitrary: s) (auto simp: bindE_eq_Inr intro: store_ok_replace_hint)

text \<open>What a join may add: the chain is rooted at the stored genesis, or nothing is stored.\<close>

lemma roster_ok_insert_missing:
  assumes ok: "roster_ok C s" and st: "\<forall>r \<in> set (g # rs). storable r"
    and g: "validate_genesis C g = Inr ()" and links: "linked C g rs"
    and inj: "inj_on (roster_canonical_hash C) ({x. stored C s x} \<union> set (g # rs))"
    and sel: "selected_roster_chain C s = Inr chain"
    and same: "chain \<noteq> [] \<longrightarrow> roster_canonical_hash C (hd chain) = roster_canonical_hash C g"
    and ins: "insert_missing_revisions C (g # rs) s = Inr s'"
  shows "roster_ok C s'"
proof (cases "roster_revisions s = []")
  case True
  have "inj_on (roster_canonical_hash C) (set (g # rs))" using inj by (rule inj_on_subset) blast
  then show ?thesis using insert_chain_fresh [OF True g links st] ins by auto
next
  case False
  then obtain g' where g': "rooted C s g'" using ok by (auto simp: roster_ok_def)
  have rows: "rows_ok (revision_row C) (roster_revisions s)" using ok by (simp add: roster_ok_def)
  obtain cs where "selected_roster_chain C s = Inr (g' # select_chain_from C g' cs)"
    by (rule selected_chain_ok [OF rows g'])
  then have "roster_canonical_hash C g' = roster_canonical_hash C g" using sel same by auto
  moreover have sg': "stored C s g'" using g' by (simp add: rooted_def)
  ultimately have eq: "g' = g" using inj_onD [OF inj, of g' g] by simp
  have "load_roster_revision C (roster_canonical_hash C g) s = Inr (Some g)"
    using load_roster_revision_ok [OF rows, of _ "Some g"] sg' eq by simp
  then have "insert_missing_revisions C rs s = Inr s'" using ins by simp
  moreover have "collision_free C s (set rs)"
    unfolding collision_free_def using inj by (rule inj_on_subset) auto
  ultimately have "grown C s (set rs) s'"
    using insert_missing_ok [OF rows _ _ links] st sg' eq by auto
  then show ?thesis by (rule grown_ok [OF ok g'])
qed

lemma store_ok_install:
  assumes ok: "store_ok C s" and st: "\<forall>r \<in> set revisions. storable r"
    and inj: "inj_on (roster_canonical_hash C) ({x. stored C s x} \<union> set revisions)"
  shows "store_ok C (snd (install_joined_state_inner C revisions me name hints allow s))"
proof (cases revisions)
  case Nil
  with ok show ?thesis by (simp add: install_joined_state_inner_def)
next
  case (Cons g rs)
  have rok: "roster_ok C s" using ok by (simp add: store_ok_def)
  have grow: "store_ok C s2"
    if "validate_genesis C g = Inr ()" "validate_links C (g # rs) = Inr ()"
      "selected_roster_chain C s = Inr chain"
      "chain \<noteq> [] \<longrightarrow> roster_canonical_hash C (hd chain) = roster_canonical_hash C g"
      "insert_missing_revisions C (g # rs) s = Inr s1" "replace_peer_hints hints s1 = Inr s2" for chain s1 s2
  proof -
    have "linked C g rs" using that(2) by (simp only: validate_links_Inr)
    then have "roster_ok C s1"
      using roster_ok_insert_missing [OF rok _ that(1) _ _ that(3-5)] st inj Cons by simp
    then have "store_ok C s1" using insert_missing_frame [OF that(5)] store_ok_roster [OF ok] by blast
    then show ?thesis using that(6) by (rule store_ok_replace_hints)
  qed
  show ?thesis
  proof (cases "is_ok (validate_genesis C g) \<and> is_ok (validate_links C (g # rs)) \<and> is_ok (selected_roster_chain C s)
      \<and> is_ok (insert_missing_revisions C (g # rs) s)")
    case False
    with ok show ?thesis
      unfolding Cons install_joined_state_inner_def Let_def
      by (auto simp: bindS_def transactionS_def is_ok_def
          simp del: insert_missing_revisions.simps validate_links.simps split: sum.splits)
  next
    case True
    then obtain chain s1 where v: "validate_genesis C g = Inr ()" "validate_links C (g # rs) = Inr ()"
        "selected_roster_chain C s = Inr chain" and s1: "insert_missing_revisions C (g # rs) s = Inr s1"
      by (auto simp: is_ok_iff simp del: insert_missing_revisions.simps validate_links.simps)
    show ?thesis
    proof (cases "chain \<noteq> [] \<and> roster_canonical_hash C (hd chain) \<noteq> roster_canonical_hash C g")
      case True
      with ok v show ?thesis
        by (simp add: Cons install_joined_state_inner_def bindS_def Let_def del: validate_links.simps)
    next
      case False
      then have "store_ok C s2" if "replace_peer_hints hints s1 = Inr s2" for s2
        using grow [OF v _ s1 that] by blast
      with ok v s1 show ?thesis
        unfolding Cons install_joined_state_inner_def Let_def
        by (cases "replace_peer_hints hints s1"; cases "for_each (\<lambda>(_, hint). validate_peer_hint hint) hints")
          (auto simp: bindS_def transactionS_def
            simp del: insert_missing_revisions.simps validate_links.simps split: sum.splits)
    qed
  qed
qed

section \<open>Reachable stores\<close>

text \<open>
  One call of an operation of the store. The arguments of roster operations are revisions the program can
  hold (\<open>storable\<close>), and the revisions of a join collide with no stored one.
\<close>

inductive store_step :: "crypto \<Rightarrow> json \<Rightarrow> StateStore \<Rightarrow> StateStore \<Rightarrow> bool" for C J where
  add: "store_step C J s (snd (add_collection name local_path resolved_root s))"
| replace: "store_step C J s (snd (replace_collection_path name local_path s))"
| complete: "store_step C J s (snd (complete_collection_scan name local_path resolved_root s))"
| scan_status: "store_step C J s (snd (set_collection_scan_status name scan s))"
| watch_status: "store_step C J s (snd (set_collection_watch_status name watch s))"
| remove: "store_step C J s (snd (remove_collection name s))"
| roster: "storable r \<Longrightarrow> store_step C J s (snd (insert_roster_revision C r s))"
| merge_roster: "\<forall>r \<in> set rs. storable r \<Longrightarrow> store_step C J s (snd (merge_selected_roster_chain C rs s))"
| change: "\<forall>p r. stored C s p \<longrightarrow> child C p change identity = Inr r \<longrightarrow> storable r \<Longrightarrow>
    store_step C J s (snd (apply_roster_change_inner C identity change h s))"
| join: "\<forall>r \<in> set rs. storable r \<Longrightarrow>
    inj_on (roster_canonical_hash C) ({x. stored C s x} \<union> set rs) \<Longrightarrow>
    store_step C J s (snd (install_joined_state_inner C rs me name_opt hints allow s))"
| merge: "record_wf rec \<Longrightarrow> store_step C J s (snd (merge_record C J rec t src n s))"
| repair: "store_step C J s (snd (mark_repair_required_and_log J c p t e n s))"
| fingerprint: "store_step C J s (snd (set_materialized_fingerprint c p fp s))"
| materialized: "store_step C J s (snd (mark_materialized_and_log J c p mf t e n s))"
| tombstone: "store_step C J s (snd (mark_tombstone_materialized_and_log J c p t e n s))"
| hint: "store_step C J s (snd (replace_peer_hint endpoint hint_text s))"
| health: "store_step C J s (snd (record_peer_health J endpoint reachable t e n s))"
| log: "store_step C J s (snd (append_log J t e n s))"

lemma preserves_snd: "preserves I m \<Longrightarrow> I s \<Longrightarrow> I (snd (m s))"
  by (simp add: preserves_def)

lemmas store_preserves = preserves_add_collection preserves_replace_collection_path
  preserves_complete_collection_scan preserves_set_collection_status preserves_remove_collection
  preserves_insert_roster preserves_merge_roster preserves_merge_record preserves_mark_repair
  preserves_set_fingerprint preserves_mark_materialized preserves_mark_tombstone
  preserves_replace_peer_hint preserves_record_peer_health preserves_append_log

lemma store_step_ok: "store_step C J s s' \<Longrightarrow> store_ok C s \<Longrightarrow> store_ok C s'"
proof (induction rule: store_step.induct)
  case (change s change identity h)
  then show ?case unfolding apply_roster_change_inner_def by (intro store_ok_apply_loop)
next
  case (join rs s me name_opt hints allow)
  then show ?case by (intro store_ok_install)
qed (rule preserves_snd [where I = "store_ok C"], rule store_preserves, assumption+)+

lemma fresh_store_ok: "store_ok C fresh_database"
  by (simp add: store_ok_def fresh_database_def roster_ok_def collections_ok_def records_ok_def peers_ok_def log_ok_def)

lemma reachable_ok: "(store_step C J)\<^sup>*\<^sup>* s s' \<Longrightarrow> store_ok C s \<Longrightarrow> store_ok C s'"
  by (induction rule: rtranclp_induct) (auto intro: store_step_ok)

end
