(* ===== verification/State_Props.thy ===== *)
theory State_Props
  imports State_Invariant
begin

text \<open>Properties of the store as a whole: opening it, reading it back, collections and materialization.\<close>

section \<open>Opening a store\<close>

lemma validate_schema_tables:
  assumes "application_id s = SCHEMA_APPLICATION_ID" and "sqlite_schema s = SCHEMA_TABLES"
  shows "validate_current_schema s = Inr ()"
proof -
  have "filter (\<lambda>(name, columns). \<not> like_sqlite name) SCHEMA_TABLES = SCHEMA_TABLES"
    by code_simp
  moreover have "for_each (\<lambda>(table, expected_columns).
      if om_get SCHEMA_TABLES table \<noteq> Some expected_columns
      then Inl (InvalidStoredState ''database column shape is not recognized'') else Inr ()) SCHEMA_TABLES = Inr ()"
    by code_simp
  ultimately show ?thesis using assms by (simp add: validate_current_schema_def)
qed

lemma migrate_fresh:
  obtains s where "migrate fresh_database = (Inr (), s)" "user_version s = 1"
    "s = fresh_database\<lparr>user_version := 1, application_id := SCHEMA_APPLICATION_ID, sqlite_schema := SCHEMA_TABLES\<rparr>"
proof -
  let ?s = "fresh_database\<lparr>user_version := 1, application_id := SCHEMA_APPLICATION_ID, sqlite_schema := SCHEMA_TABLES\<rparr>"
  have tables: "fold (\<lambda>(table, columns). om_insert table columns) SCHEMA_TABLES [] = SCHEMA_TABLES"
    unfolding SCHEMA_TABLES_def by code_simp
  have "validate_current_schema ?s = Inr ()"
    by (rule validate_schema_tables) simp_all
  then have "migrate fresh_database = (Inr (), ?s)"
    by (simp add: migrate_def bindS_def transactionS_def create_tables_def fresh_database_def SCHEMA_VERSION_def
        om_contains_def tables)
  then show ?thesis using that by simp
qed

text \<open>
  Opening a store: a new database gets the current schema and is accepted; opening an accepted store again
  changes nothing; a database of a newer version is refused without touching it, and so is a database
  of the current version whose application id, tables or columns are not the program's.
\<close>

theorem open_store:
  "\<exists>s. migrate fresh_database = (Inr (), s) \<and> migrate s = (Inr (), s)
    \<and> (\<forall>v > 1. migrate (s\<lparr>user_version := v\<rparr>) = (Inl (UnsupportedSchema v), s\<lparr>user_version := v\<rparr>))
    \<and> (\<forall>d. user_version d = 1 \<longrightarrow> snd (migrate d) = d
         \<and> (fst (migrate d) = Inr () \<longrightarrow> application_id d = SCHEMA_APPLICATION_ID
              \<and> (\<forall>(table, columns) \<in> set SCHEMA_TABLES. om_get (sqlite_schema d) table = Some columns)))"
proof -
  obtain s where s: "migrate fresh_database = (Inr (), s)" "user_version s = 1"
      "s = fresh_database\<lparr>user_version := 1, application_id := SCHEMA_APPLICATION_ID, sqlite_schema := SCHEMA_TABLES\<rparr>"
    by (rule migrate_fresh)
  have old: "migrate d = (validate_current_schema d, d)" if "user_version d = 1" for d
    using that by (cases "validate_current_schema d") (simp_all add: migrate_def bindS_def SCHEMA_VERSION_def)
  have "validate_current_schema s = Inr ()"
    unfolding s(3) by (rule validate_schema_tables) simp_all
  then have "migrate s = (Inr (), s)" using old s(2) by simp
  moreover have "migrate (s\<lparr>user_version := v\<rparr>) = (Inl (UnsupportedSchema v), s\<lparr>user_version := v\<rparr>)" if "v > 1" for v
    using that by (simp add: migrate_def bindS_def SCHEMA_VERSION_def)
  moreover have "application_id d = SCHEMA_APPLICATION_ID
      \<and> (\<forall>(table, columns) \<in> set SCHEMA_TABLES. om_get (sqlite_schema d) table = Some columns)"
    if "validate_current_schema d = Inr ()" for d
    using that by (auto simp: validate_current_schema_def for_each_eq_Inr split: if_splits)
  ultimately show ?thesis using s(1) old by auto
qed

theorem open_store_witness: "\<exists>s. migrate fresh_database = (Inr (), s) \<and> migrate s = (Inr (), s)"
  using open_store by blast

section \<open>Reading\<close>

lemma status_roundtrip:
  "scan_status_from_str (scan_status_as_str v) = Inr v" "watch_status_from_str (watch_status_as_str w) = Inr w"
  by (cases v; simp add: scan_status_from_str_def scan_status_as_str_def)
    (cases w; simp add: watch_status_from_str_def watch_status_as_str_def)

lemma decode_collection_ok: "check_collection_row name c \<Longrightarrow> \<exists>x. decode_collection (name, c) = Inr x"
  by (auto simp: check_collection_row_def decode_collection_def scan_status_from_str_def watch_status_from_str_def)

lemma map_result_ok: "(\<And>x. x \<in> set xs \<Longrightarrow> \<exists>y. f x = Inr y) \<Longrightarrow> \<exists>ys. map_result f xs = Inr ys"
proof (induction xs)
  case (Cons x xs)
  then obtain y ys where "f x = Inr y" "map_result f xs = Inr ys" by fastforce
  then show ?case by simp
qed simp

lemma rows_of_ok:
  assumes "records_ok C s" and "(path, row) \<in> set (rows_of c s)"
  obtains r where "record_wf r" "row_for C r row" "r_collection r = c" "as_str (r_path r) = path"
proof -
  from assms(2) have in_table: "((c, path), row) \<in> set (path_records s)" by (auto simp: rows_of_def)
  have "om_wf (path_records s)" using assms(1) by (auto simp: records_ok_def dest: rows_ok_wf)
  then have "om_get (path_records s) (c, path) = Some row" using in_table by (simp add: om_get_Some_iff)
  from records_ok_row [OF assms(1) this] obtain r where "record_wf r" "(c, path) = rec_key r" "row_for C r row"
    by blast
  then show ?thesis using that by (simp add: rec_key_def)
qed

lemma decode_fingerprint_ok:
  "row_for C r row \<Longrightarrow> \<exists>x. decode_materialized_fingerprint (row_materialized_modified_ns row)
     (row_materialized_size row) (row_materialized_hash row) = Inr x"
  by (auto simp: row_for_def decode_materialized_fingerprint_def split: if_splits)

lemma decode_path_state_ok:
  assumes "record_wf r" and "row_for C r row"
  shows "\<exists>x. decode_path_record_state C (as_str (r_path r), row) (r_collection r) = Inr x"
  using decode_row [OF assms] decode_fingerprint_ok [OF assms(2)]
  by (auto simp: decode_path_record_state_def)

lemma reads_succeed:
  assumes "store_ok C s"
  shows "\<exists>x. collections s = Inr x" "\<exists>x. records C c s = Inr x" "\<exists>x. record_states C c s = Inr x"
    "\<exists>x. selected_roster_chain C s = Inr x"
proof -
  have cols: "rows_ok check_collection_row (t_collections s)" and recs: "records_ok C s" and rok: "roster_ok C s"
    using assms by (simp_all add: store_ok_def collections_ok_def)
  show "\<exists>x. collections s = Inr x"
    unfolding collections_def
    by (rule map_result_ok) (use cols decode_collection_ok in \<open>auto dest: rows_ok_in_set\<close>)
  show "\<exists>x. records C c s = Inr x"
    unfolding records_def
  proof (rule map_result_ok)
    fix st assume st: "st \<in> set (rows_of c s)"
    obtain path row where eq: "st = (path, row)" by (cases st)
    obtain r where "record_wf r" "row_for C r row" "r_collection r = c" "as_str (r_path r) = path"
      using rows_of_ok [OF recs] st eq by blast
    then show "\<exists>y. (case st of (path, row) \<Rightarrow>
        decode_indexed_record C (row_record_hash row, row_canonical row) c path) = Inr y"
      using decode_row eq by auto
  qed
  show "\<exists>x. record_states C c s = Inr x"
    unfolding record_states_def
  proof (rule map_result_ok)
    fix st assume st: "st \<in> set (rows_of c s)"
    obtain path row where eq: "st = (path, row)" by (cases st)
    obtain r where "record_wf r" "row_for C r row" "r_collection r = c" "as_str (r_path r) = path"
      using rows_of_ok [OF recs] st eq by blast
    then show "\<exists>y. decode_path_record_state C st c = Inr y" using decode_path_state_ok eq by auto
  qed
  show "\<exists>x. selected_roster_chain C s = Inr x"
  proof (cases "roster_revisions s = []")
    case True
    then show ?thesis by (simp add: selected_chain_empty)
  next
    case False
    then obtain g where g: "rows_ok (revision_row C) (roster_revisions s)" "rooted C s g"
      using rok by (auto simp: roster_ok_def)
    show ?thesis by (rule selected_chain_ok [OF g]) blast
  qed
qed



section \<open>Materialization\<close>

text \<open>Whether a record's content is on disk, and the fingerprint of the file, as the readers see them.\<close>

definition materialized_at :: "crypto \<Rightarrow> StateStore \<Rightarrow> string \<Rightarrow> string \<Rightarrow> (bool \<times> FileFingerprint option) option" where
  "materialized_at C s c p = (case record_state C c p s of
      Inr (Some st) \<Rightarrow> Some (ps_materialized st, ps_materialized_fingerprint st) | _ \<Rightarrow> None)"

lemma materialized_at_row:
  assumes "records_ok C s" and "om_get (path_records s) (c, p) = Some row"
  shows "\<exists>fp. decode_materialized_fingerprint (row_materialized_modified_ns row) (row_materialized_size row)
      (row_materialized_hash row) = Inr fp \<and> materialized_at C s c p = Some (row_materialized row \<noteq> 0, fp)"
proof -
  obtain r where r: "record_wf r" "(c, p) = rec_key r" "row_for C r row"
    by (rule records_ok_row [OF assms])
  obtain fp where "decode_materialized_fingerprint (row_materialized_modified_ns row) (row_materialized_size row)
      (row_materialized_hash row) = Inr fp"
    using decode_fingerprint_ok [OF r(3)] by blast
  with decode_row [OF r(1,3)] r(2) assms(2) show ?thesis
    by (simp add: materialized_at_def record_state_def decode_path_record_state_def rec_key_def)
qed

lemma decode_cleared:
  "decode_materialized_fingerprint (row_materialized_modified_ns (clear_materialized row))
     (row_materialized_size (clear_materialized row)) (row_materialized_hash (clear_materialized row)) = Inr None
   \<and> row_materialized (clear_materialized row) = 0"
  by (simp add: clear_materialized_def decode_materialized_fingerprint_def)

lemma update_collections_run:
  assumes "collections_ok s" and "\<And>c. check_collection_row name c \<Longrightarrow> check_collection_row name (f c)"
  shows "update_collections (\<lambda>n. n = name) f s
    = Inr (length (filter (\<lambda>(n, c). n = name) (t_collections s)),
        s\<lparr>t_collections := om_update_where (\<lambda>n c. n = name) f (t_collections s)\<rparr>)"
  using sql_update_succeeds [of check_collection_row "t_collections s" "\<lambda>n c. n = name" check_collection_row f] assms
  by (simp add: update_collections_def collections_ok_def)

lemma records_ok_update_collections:
  "records_ok C (s\<lparr>t_collections := om_update_where P f (t_collections s)\<rparr>) = records_ok C s"
proof -
  have "record_row C (om_update_where P f (t_collections s)) = record_row C (t_collections s)"
    by (rule record_row_collections) (simp add: om_contains_def)
  then show ?thesis by (simp add: records_ok_def)
qed

lemma winner_kind:
  "records_ok C s \<Longrightarrow> winner C s (c, p) = Some r \<Longrightarrow>
     \<exists>row. om_get (path_records s) (c, p) = Some row \<and> row_kind row = kind_column (r_kind r) \<and> row_for C r row"
  by (auto simp: winner_row row_for_def)

lemma winner_None:
  assumes "records_ok C s" and "winner C s k = None"
  shows "om_get (path_records s) k = None"
proof (rule ccontr)
  assume "om_get (path_records s) k \<noteq> None"
  then obtain row where row: "om_get (path_records s) k = Some row" by blast
  obtain q where "record_wf q" "k = rec_key q" "row_for C q row" by (rule records_ok_row [OF assms(1) row])
  with row have "winner C s k = Some q" using winner_row [OF assms(1), of k q] by blast
  with assms(2) show False by simp
qed

text \<open>
  Completing a scan at a collection root: the call reports whether the root differs from the one on record; if
  it does, every file of the collection is marked as not on disk and its fingerprint is dropped, because the
  fingerprints described another directory; in either case no winner changes and the root is recorded.
\<close>

theorem complete_scan_effect:
  assumes ok: "collections_ok s" "records_ok C s" and c: "om_get (t_collections s) name = Some col"
    and path: "local_path \<noteq> []"
  shows "\<exists>s'. complete_collection_scan name local_path root s = (Inr (row_resolved_root col \<noteq> Some root), s')
    \<and> records_ok C s' \<and> (\<forall>k. winner C s' k = winner C s k)
    \<and> (\<exists>col'. om_get (t_collections s') name = Some col' \<and> row_resolved_root col' = Some root)
    \<and> (row_resolved_root col \<noteq> Some root \<longrightarrow> (\<forall>p r len h.
         winner C s (name, p) = Some r \<longrightarrow> r_kind r = File len h \<longrightarrow> materialized_at C s' name p = Some (False, None)))"
proof -
  define changed where "changed = (row_resolved_root col \<noteq> Some root)"
  define f :: "collection_row \<Rightarrow> collection_row" where "f = (\<lambda>c. c\<lparr>row_local_path := local_path, row_resolved_root := Some root, row_scan_status := ''active''\<rparr>)"
  define s1 where "s1 = s\<lparr>t_collections := om_update_where (\<lambda>n c. n = name) f (t_collections s)\<rparr>"
  let ?P = "\<lambda>k r. fst k = name \<and> row_kind r = (1::int)"
  define s' where "s' = (if changed then s1\<lparr>path_records := om_update_where ?P clear_materialized (path_records s1)\<rparr> else s1)"
  have "check_collection_row name c \<Longrightarrow> check_collection_row name (f c)" for c
    using path by (simp add: check_collection_row_def f_def)
  note upd = update_collections_run [OF ok(1) this]
  have ok1: "records_ok C s1" unfolding s1_def records_ok_update_collections by (rule ok(2))
  note rows = update_rows_ok [OF ok1, of ?P clear_materialized, OF row_for_clear]
  have run: "complete_collection_scan name local_path root s = (Inr changed, s')"
    using upd c rows(1)
    by (simp add: complete_collection_scan_def transactionS_def Let_def changed_def s1_def s'_def f_def)
  have ok': "records_ok C s'" using rows(2) ok1 by (simp add: s'_def)
  have w: "winner C s' k = winner C s k" for k
    using rows(3) [of k] winner_cong [of s1 s C k] by (simp add: s'_def s1_def)
  have col': "\<exists>col'. om_get (t_collections s') name = Some col' \<and> row_resolved_root col' = Some root"
    using c by (simp add: s'_def s1_def f_def)
  have "materialized_at C s' name p = Some (False, None)"
    if ch: changed and r: "winner C s (name, p) = Some r" "r_kind r = File len h" for p r len h
  proof -
    obtain row where row: "om_get (path_records s) (name, p) = Some row" "row_kind row = 1"
      using winner_kind [OF ok(2) r(1)] r(2) by (auto simp: kind_column_def)
    have "om_get (path_records s') (name, p) = Some (clear_materialized row)"
      using row ch by (simp add: s'_def s1_def)
    from materialized_at_row [OF ok' this] show ?thesis using decode_cleared [of row] by auto
  qed
  then show ?thesis using run ok' w col' unfolding changed_def by blast
qed

theorem complete_scan_effect_witness:
  "\<exists>s'. complete_collection_scan ''c'' [1] [2] sample_records_store = (Inr True, s')"
proof -
  have "collections_ok sample_records_store"
    by (simp add: collections_ok_def sample_records_store_def fresh_database_def rows_ok_def check_collection_row_def)
  from complete_scan_effect [OF this sample_records_ok, of "''c''" _ "[1]" "[2]" sample_crypto] show ?thesis
    by (auto simp: sample_records_store_def)
qed

text \<open>
  Recording a file as written: on a path whose winner is a file the call stores exactly the given fingerprint and
  the record state reads it back; on a path whose winner is a tombstone, or with no record, it fails with
  \<open>MissingPathRecord\<close> and changes nothing; winners never change.
\<close>

theorem set_fingerprint_effect:
  assumes ok: "records_ok C s" and fp: "unat (fp_size fp) < 2 ^ 63"
  shows "case winner C s (c, p) of
      Some r \<Rightarrow> (case r_kind r of
          File _ _ \<Rightarrow> \<exists>s'. set_materialized_fingerprint c p fp s = (Inr (), s') \<and> records_ok C s'
            \<and> (\<forall>k. winner C s' k = winner C s k) \<and> materialized_at C s' c p = Some (True, Some fp)
        | Tombstone \<Rightarrow> set_materialized_fingerprint c p fp s = (Inl MissingPathRecord, s))
    | None \<Rightarrow> set_materialized_fingerprint c p fp s = (Inl MissingPathRecord, s)"
proof -
  let ?P = "\<lambda>k r. k = (c, p) \<and> row_kind r = (1::int)"
  let ?f = "\<lambda>r. r\<lparr>row_materialized := 1, row_materialized_modified_ns := Some (fp_modified_ns fp),
            row_materialized_size := Some (fp_size fp), row_materialized_hash := Some (to_be_bytes (fp_hash fp))\<rparr>"
  have len: "i64_try_from_u64 (fp_size fp) = Some (fp_size fp)" using fp by (simp add: i64_try_from_u64_def)
  have f: "row_for C r (?f row)" if "?P k row" "row_for C r row" for k row r
    using row_for_fingerprint [OF that(2) conjunct2 [OF that(1)] len] .
  have rows: "update_path_records ?P ?f s = Inr (length (filter (\<lambda>(k, r). ?P k r) (path_records s)),
        s\<lparr>path_records := om_update_where ?P ?f (path_records s)\<rparr>)"
      "records_ok C (s\<lparr>path_records := om_update_where ?P ?f (path_records s)\<rparr>)"
    by (rule update_rows_ok(1) [OF ok], rule f, assumption+)
      (rule update_rows_ok(2) [OF ok], rule f, assumption+)
  have same: "winner C (s\<lparr>path_records := om_update_where ?P ?f (path_records s)\<rparr>) k = winner C s k" for k
    by (rule update_rows_ok(3) [OF ok], rule f)
  have wf: "om_wf (path_records s)" using ok by (auto simp: records_ok_def dest: rows_ok_wf)
  have count: "length (filter (\<lambda>(k, r). ?P k r) (path_records s))
      = (case om_get (path_records s) (c, p) of None \<Rightarrow> 0 | Some v \<Rightarrow> if row_kind v = 1 then 1 else 0)"
    by (rule filter_key_length [OF wf])
  let ?s = "s\<lparr>path_records := om_update_where ?P ?f (path_records s)\<rparr>"
  have run: "set_materialized_fingerprint c p fp s =
      (if length (filter (\<lambda>(k, r). ?P k r) (path_records s)) \<noteq> 1 then (Inl MissingPathRecord, s) else (Inr (), ?s))"
    by (simp add: set_materialized_fingerprint_def update_materialized_fingerprint_def transactionS_def len rows(1))
  show ?thesis
  proof (cases "winner C s (c, p)")
    case None
    then have "om_get (path_records s) (c, p) = None"
      by (rule winner_None [OF ok])
    with None run count show ?thesis by simp
  next
    case (Some r)
    then obtain row where row: "om_get (path_records s) (c, p) = Some row" "row_kind row = kind_column (r_kind r)"
      using winner_kind [OF ok] by blast
    show ?thesis
    proof (cases "r_kind r")
      case Tombstone
      with Some run count row show ?thesis by (simp add: kind_column_def)
    next
      case (File l h)
      then have "om_get (path_records ?s) (c, p) = Some (?f row)" using row by (simp add: kind_column_def)
      then have "materialized_at C ?s c p = Some (True, Some fp)"
        using materialized_at_row [OF rows(2), of c p] fp
        by (auto simp: decode_materialized_fingerprint_def from_to_be_bytes sint_u64_nonneg)
      with Some File run count row rows(2) same show ?thesis by (simp add: kind_column_def)
    qed
  qed
qed

theorem set_fingerprint_effect_witness:
  "set_materialized_fingerprint ''c'' ''x'' \<lparr>fp_modified_ns = 1, fp_size = 2, fp_hash = 3\<rparr> sample_records_store
     = (Inl MissingPathRecord, sample_records_store)"
  using set_fingerprint_effect [OF sample_records_ok, of "\<lparr>fp_modified_ns = 1, fp_size = 2, fp_hash = 3\<rparr>"
      "''c''" "''x''" sample_crypto]
  by (simp add: sample_records_empty)

text \<open>
  Detaching a collection removes it and every record of it, and nothing else: the records of the other
  collections keep their rows, and the call reports whether the collection was attached.
\<close>

theorem remove_collection_effect:
  assumes "store_ok C s"
  shows "\<exists>s'. remove_collection name s = (Inr (om_contains (t_collections s) name), s') \<and> store_ok C s'
    \<and> \<not> om_contains (t_collections s') name
    \<and> (\<forall>n. n \<noteq> name \<longrightarrow> om_get (t_collections s') n = om_get (t_collections s) n)
    \<and> (\<forall>k. om_get (path_records s') k = (if fst k = name then None else om_get (path_records s) k))"
proof -
  obtain s' where run: "remove_collection name s = (Inr (om_contains (t_collections s) name), s')"
      and s': "s' = s\<lparr>t_collections := filter (\<lambda>(k, v). k \<noteq> name) (t_collections s),
        path_records := filter (\<lambda>(k, v). \<not> (fst k = name \<and> om_contains (t_collections s) name)) (path_records s)\<rparr>"
    using remove_collection_eq by blast
  have "store_ok C s'" using preservesD [OF preserves_remove_collection assms run] .
  moreover have "om_get (path_records s') k = (if fst k = name then None else om_get (path_records s) k)" for k
  proof (cases "fst k = name \<and> \<not> om_contains (t_collections s) name")
    case True
    then have "om_get (path_records s) k = None"
      using assms records_ok_row [of C s k] by (cases "om_get (path_records s) k") (auto simp: store_ok_def)
    with True show ?thesis by (simp add: s' om_get_filter)
  next
    case False
    then show ?thesis by (auto simp: s' om_get_filter)
  qed
  moreover have "\<not> om_contains (t_collections s') name"
      "\<forall>n. n \<noteq> name \<longrightarrow> om_get (t_collections s') n = om_get (t_collections s) n"
    by (simp_all add: s' om_get_filter om_contains_def)
  ultimately show ?thesis using run by blast
qed

theorem remove_collection_effect_witness:
  "\<exists>s'. remove_collection ''c'' fresh_database = (Inr False, s') \<and> store_ok sample_crypto s'"
  using remove_collection_effect [OF fresh_store_ok, of "''c''" sample_crypto]
  by (auto simp: fresh_database_def om_contains_def)

text \<open>
  The schema's row constraint does not exclude a half-written fingerprint: a file row marked as on disk with a
  modification time but no size and no hash satisfies the \<open>CHECK\<close>, because its comparisons with NULL are not false,
  yet the store's own reader rejects that row.
\<close>

theorem check_admits_incomplete_fingerprint:
  "\<exists>s row. check_path_record_row s (''c'', ''x'') row
     \<and> row_kind row = 1 \<and> row_materialized row = 1 \<and> row_materialized_size row = None
     \<and> decode_materialized_fingerprint (row_materialized_modified_ns row) (row_materialized_size row)
         (row_materialized_hash row) = Inl (InvalidStoredState ''materialized fingerprint is incomplete'')"
  by (intro exI [of _ sample_records_store] exI [of _ "\<lparr>row_record_hash = replicate 32 0, row_kind = 1,
      row_canonical = [0], row_materialized = 1, row_materialized_modified_ns = Some 5,
      row_materialized_size = None, row_materialized_hash = None\<rparr>"])
    (simp add: check_path_record_row_def decode_materialized_fingerprint_def sample_records_store_def om_contains_def)

end
