(* ===== verification/Wire_Protocol.thy ===== *)
theory Wire_Protocol
  imports Records Roster_Selection
begin

text \<open>
  \<open>protocol.rs\<close>: the frames of a session, their limits, and the four bundles two peers exchange. The writer is
  the byte vector written so far and the reader a cursor; a stream is the bytes that arrive on it before it
  ends, so an idle timeout and a transport failure do not occur in the model.
\<close>

definition MAX_FRAME_BYTES :: nat where "MAX_FRAME_BYTES = 8 * 1024 * 1024"
definition MAX_MANIFEST_BYTES :: nat where "MAX_MANIFEST_BYTES = 8 * 1024 * 1024"
definition MAX_MANIFEST_RECORDS :: nat where "MAX_MANIFEST_RECORDS = 10000"
definition MAX_ROSTER_BYTES :: nat where "MAX_ROSTER_BYTES = 2 * 1024 * 1024"
definition MAX_ROSTER_REVISIONS :: nat where "MAX_ROSTER_REVISIONS = 1024"
definition MAX_ROSTER_MEMBERS :: nat where "MAX_ROSTER_MEMBERS = 1024"
definition MAX_COLLECTIONS :: nat where "MAX_COLLECTIONS = 64"
definition MAX_COLLECTION_NAME_BYTES :: nat where "MAX_COLLECTION_NAME_BYTES = 255"
definition MAX_PATH_BYTES :: nat where "MAX_PATH_BYTES = 4096"
definition MAX_FILE_BYTES :: u64 where "MAX_FILE_BYTES = 64 * 1024 * 1024"
definition MAX_TRANSFERS :: nat where "MAX_TRANSFERS = 1024"
definition MAX_SESSION_FILE_BYTES :: u64 where "MAX_SESSION_FILE_BYTES = 192 * 1024 * 1024"
definition MAX_ADDRESS_HINT_BYTES :: nat where "MAX_ADDRESS_HINT_BYTES = 16 * 1024"
definition MAX_CONNECTION_BYTES :: u64 where "MAX_CONNECTION_BYTES = 256 * 1024 * 1024"
definition HEADER_BYTES :: nat where "HEADER_BYTES = 5"

datatype ProtocolError =
    Truncated | TrailingBytes | UnknownFrameType | UnexpectedFrame | FrameLimit | ConnectionLimit
  | CountLimit | LengthOverflow | InvalidUtf8 | StringLimit | CollectionLimit | UnorderedCollections
  | DuplicateCollection | ManifestLimit | RosterLimit | InvalidRoster | PathLimit | WrongCollection
  | FileLimit | TransferLimit | UnorderedRequests | UnexpectedTombstone | AddressHintTooLarge
  | Transport | Timeout | Io | Record RecordError | Roster RosterError | Path PathError

section \<open>Frames\<close>

datatype FrameTag = Hello | Roster | Manifests | Requests | File | Done | FileUnavailable

definition tag_byte :: "FrameTag \<Rightarrow> byte" where
  "tag_byte tag = (case tag of Hello \<Rightarrow> 1 | FrameTag.Roster \<Rightarrow> 2 | Manifests \<Rightarrow> 3 | Requests \<Rightarrow> 4
     | FrameTag.File \<Rightarrow> 5 | Done \<Rightarrow> 6 | FileUnavailable \<Rightarrow> 7)"

definition tag_from_byte :: "byte \<Rightarrow> ProtocolError + FrameTag" where
  "tag_from_byte v =
    (if v = 1 then Inr Hello else if v = 2 then Inr FrameTag.Roster else if v = 3 then Inr Manifests
     else if v = 4 then Inr Requests else if v = 5 then Inr FrameTag.File else if v = 6 then Inr Done
     else if v = 7 then Inr FileUnavailable else Inl UnknownFrameType)"

definition payload_limit :: "FrameTag \<Rightarrow> nat" where
  "payload_limit tag = (case tag of Hello \<Rightarrow> 64 * 1024 | FrameTag.Roster \<Rightarrow> MAX_ROSTER_BYTES
     | Manifests \<Rightarrow> MAX_MANIFEST_BYTES | Requests \<Rightarrow> MAX_FRAME_BYTES | FrameTag.File \<Rightarrow> 64 * 1024
     | Done \<Rightarrow> 0 | FileUnavailable \<Rightarrow> 0)"

definition expect_frame_tag :: "FrameTag \<Rightarrow> FrameTag \<Rightarrow> ProtocolError + unit" where
  "expect_frame_tag actual expected = (if actual = expected then Inr () else Inl UnexpectedFrame)"

definition encode_frame :: "FrameTag \<Rightarrow> byte list \<Rightarrow> ProtocolError + byte list" where
  "encode_frame tag payload =
    (if length payload > payload_limit tag \<or> length payload > MAX_FRAME_BYTES then Inl FrameLimit
     else bindE (ok_or FrameLimit (u32_try_from (length payload))) (\<lambda>len.
       Inr (tag_byte tag # to_be_bytes len @ payload)))"

definition decode_header :: "byte list \<Rightarrow> ProtocolError + (FrameTag \<times> nat)" where
  "decode_header header =
    bindE (tag_from_byte (header ! 0)) (\<lambda>tag.
    let len = unat (from_be_bytes (take 4 (drop 1 header)) :: u32) in
    if len > MAX_FRAME_BYTES \<or> len > payload_limit tag then Inl FrameLimit else Inr (tag, len))"

text \<open>\<open>read_exact\<close> on the remaining bytes of a stream; an early end is the only failure.\<close>

definition read_exact :: "nat \<Rightarrow> byte list \<Rightarrow> ProtocolError + (byte list \<times> byte list)" where
  "read_exact n src = (if n \<le> length src then Inr (take n src, drop n src) else Inl ProtocolError.Truncated)"

definition decode_frame :: "byte list \<Rightarrow> ProtocolError + ((FrameTag \<times> byte list) \<times> byte list)" where
  "decode_frame src =
    bindE (read_exact HEADER_BYTES src) (\<lambda>(header, src).
    bindE (decode_header header) (\<lambda>(tag, len).
    bindE (read_exact len src) (\<lambda>(payload, src).
    Inr ((tag, payload), src))))"

definition add_received :: "u64 \<Rightarrow> u64 \<Rightarrow> ProtocolError + u64" where
  "add_received received amount =
    bindE (ok_or ConnectionLimit (u64_checked_add received amount)) (\<lambda>received.
    if received > MAX_CONNECTION_BYTES then Inl ConnectionLimit else Inr received)"

text \<open>\<open>payload.chunks_mut(64 * 1024)\<close>, each chunk filled from the stream.\<close>

function read_chunks :: "nat \<Rightarrow> byte list \<Rightarrow> ProtocolError + (byte list \<times> byte list)" where
  "read_chunks n src =
    (if n = 0 then Inr ([], src)
     else
       bindE (read_exact (min n (64 * 1024)) src) (\<lambda>(chunk, src).
       bindE (read_chunks (n - min n (64 * 1024)) src) (\<lambda>(more, src).
       Inr (chunk @ more, src))))"
  by pat_completeness auto
termination by (relation "measure fst") auto

declare read_chunks.simps [simp del]

definition read_frame_async ::
  "u64 \<Rightarrow> byte list \<Rightarrow> ProtocolError + ((FrameTag \<times> byte list) \<times> u64 \<times> byte list)" where
  "read_frame_async received src =
    bindE (read_exact HEADER_BYTES src) (\<lambda>(header, src).
    bindE (decode_header header) (\<lambda>(tag, len).
    bindE (add_received received (of_nat HEADER_BYTES + of_nat len)) (\<lambda>received.
    bindE (read_chunks len src) (\<lambda>(payload, src).
    Inr ((tag, payload), received, src)))))"

section \<open>Writer and reader\<close>

definition ww_fixed :: "byte list \<Rightarrow> byte list \<Rightarrow> byte list" where
  "ww_fixed v w = w @ v"

definition ww_count :: "nat \<Rightarrow> byte list \<Rightarrow> ProtocolError + byte list" where
  "ww_count n w = bindE (ok_or ProtocolError.LengthOverflow (u32_try_from n)) (\<lambda>n. Inr (ww_fixed (to_be_bytes n) w))"

definition ww_bytes :: "byte list \<Rightarrow> byte list \<Rightarrow> ProtocolError + byte list" where
  "ww_bytes v w = bindE (ww_count (length v) w) (\<lambda>w. Inr (ww_fixed v w))"

definition ww_string :: "string \<Rightarrow> byte list \<Rightarrow> ProtocolError + byte list" where
  "ww_string s w = ww_bytes (as_bytes s) w"

definition wr_new :: "byte list \<Rightarrow> cursor" where
  "wr_new bs = \<lparr>cur_bytes = bs, cur_pos = 0\<rparr>"

definition wr_take :: "nat \<Rightarrow> cursor \<Rightarrow> ProtocolError + (byte list \<times> cursor)" where
  "wr_take n c =
    bindE (ok_or ProtocolError.LengthOverflow (usize_checked_add (cur_pos c) n)) (\<lambda>end_pos.
    bindE (ok_or ProtocolError.Truncated (slice_get (cur_bytes c) (cur_pos c) end_pos)) (\<lambda>v.
    Inr (v, c\<lparr>cur_pos := end_pos\<rparr>)))"

definition wr_fixed :: "cursor \<Rightarrow> ProtocolError + ('a::len word \<times> cursor)" where
  "wr_fixed c = bindE (wr_take (LENGTH('a) div 8) c) (\<lambda>(v, c).
     if length v = LENGTH('a) div 8 then Inr (from_be_bytes v, c) else Inl ProtocolError.Truncated)"

definition wr_count :: "nat \<Rightarrow> cursor \<Rightarrow> ProtocolError + (nat \<times> cursor)" where
  "wr_count lim c = bindE (wr_fixed c) (\<lambda>(n :: u32, c).
     if unat n > lim then Inl CountLimit else Inr (unat n, c))"

definition wr_bytes :: "nat \<Rightarrow> cursor \<Rightarrow> ProtocolError + (byte list \<times> cursor)" where
  "wr_bytes lim c = bindE (wr_count lim c) (\<lambda>(n, c). wr_take n c)"

definition wr_string :: "nat \<Rightarrow> cursor \<Rightarrow> ProtocolError + (string \<times> cursor)" where
  "wr_string lim c = bindE (wr_bytes lim c) (\<lambda>(v, c).
     bindE (ok_or ProtocolError.InvalidUtf8 (from_utf8 v)) (\<lambda>s. Inr (s, c)))"

definition wr_finish :: "cursor \<Rightarrow> ProtocolError + unit" where
  "wr_finish c = (if cur_pos c = length (cur_bytes c) then Inr () else Inl ProtocolError.TrailingBytes)"

section \<open>Validation\<close>

definition validate_short_string :: "string \<Rightarrow> nat \<Rightarrow> ProtocolError + unit" where
  "validate_short_string v lim = (if v = [] \<or> length v > lim then Inl StringLimit else Inr ())"

definition validate_collection :: "string \<Rightarrow> ProtocolError + unit" where
  "validate_collection c = validate_short_string c MAX_COLLECTION_NAME_BYTES"

primrec validate_collections_from :: "string option \<Rightarrow> string list \<Rightarrow> ProtocolError + unit" where
  "validate_collections_from previous [] = Inr ()"
| "validate_collections_from previous (c # cs) =
    bindE (validate_collection c) (\<lambda>_.
    if (case previous of None \<Rightarrow> False | Some p \<Rightarrow> p \<ge> c) then Inl UnorderedCollections
    else validate_collections_from (Some c) cs)"

definition validate_collections :: "string list \<Rightarrow> ProtocolError + unit" where
  "validate_collections cs =
    (if length cs > MAX_COLLECTIONS then Inl CollectionLimit else validate_collections_from None cs)"

definition validate_record :: "Record \<Rightarrow> string \<Rightarrow> ProtocolError + unit" where
  "validate_record r c =
    bindE (validate_collection c) (\<lambda>_.
    if r_collection r \<noteq> c then Inl WrongCollection
    else if length (as_str (r_path r)) > MAX_PATH_BYTES then Inl PathLimit
    else case r_kind r of
        RecordKind.File len h \<Rightarrow> if len > MAX_FILE_BYTES then Inl FileLimit else Inr ()
      | Tombstone \<Rightarrow> Inr ())"

section \<open>Hello\<close>

record Hello =
  h_collections :: "string list"
  h_endpoint_addr_json :: string

primrec write_strings :: "string list \<Rightarrow> byte list \<Rightarrow> ProtocolError + byte list" where
  "write_strings [] w = Inr w"
| "write_strings (s # ss) w = bindE (ww_string s w) (write_strings ss)"

definition hello_encode :: "Hello \<Rightarrow> ProtocolError + byte list" where
  "hello_encode h =
    bindE (validate_collections (h_collections h)) (\<lambda>_.
    if length (h_endpoint_addr_json h) > MAX_ADDRESS_HINT_BYTES then Inl AddressHintTooLarge
    else
      bindE (ww_count (length (h_collections h)) []) (\<lambda>w.
      bindE (write_strings (h_collections h) w) (\<lambda>w.
      ww_string (h_endpoint_addr_json h) w)))"

definition hello_decode :: "byte list \<Rightarrow> ProtocolError + Hello" where
  "hello_decode bs =
    bindE (wr_count MAX_COLLECTIONS (wr_new bs)) (\<lambda>(count, c).
    bindE (read_many (wr_string MAX_COLLECTION_NAME_BYTES) count c) (\<lambda>(collections, c).
    bindE (validate_collections collections) (\<lambda>_.
    bindE (wr_string MAX_ADDRESS_HINT_BYTES c) (\<lambda>(json, c).
    bindE (wr_finish c) (\<lambda>_.
    Inr \<lparr>h_collections = collections, h_endpoint_addr_json = json\<rparr>)))))"

section \<open>Rosters\<close>

record RosterBundle =
  rb_revisions :: "RosterRevision list"

primrec write_revisions :: "RosterRevision list \<Rightarrow> byte list \<Rightarrow> ProtocolError + byte list" where
  "write_revisions [] w = Inr w"
| "write_revisions (r # rs) w =
    (if length (rr_members r) > MAX_ROSTER_MEMBERS then Inl RosterLimit
     else bindE (ww_bytes (roster_canonical_bytes r) w) (write_revisions rs))"

definition roster_bundle_encode :: "RosterBundle \<Rightarrow> ProtocolError + byte list" where
  "roster_bundle_encode b =
    (if rb_revisions b = [] \<or> length (rb_revisions b) > MAX_ROSTER_REVISIONS then Inl RosterLimit
     else
       bindE (ww_count (length (rb_revisions b)) []) (\<lambda>w.
       bindE (write_revisions (rb_revisions b) w) (\<lambda>w.
       if length w > MAX_ROSTER_BYTES then Inl RosterLimit else Inr w)))"

definition read_revision :: "cursor \<Rightarrow> ProtocolError + (RosterRevision \<times> cursor)" where
  "read_revision c =
    bindE (wr_bytes MAX_ROSTER_BYTES c) (\<lambda>(canonical, c).
    bindE (mapErr ProtocolError.Roster (roster_from_canonical_with_member_limit canonical MAX_ROSTER_MEMBERS)) (\<lambda>r.
    if length (rr_members r) > MAX_ROSTER_MEMBERS then Inl RosterLimit else Inr (r, c)))"

fun roster_links :: "crypto \<Rightarrow> RosterRevision list \<Rightarrow> ProtocolError + unit" where
  "roster_links C (a # b # rs) =
    bindE (mapErr ProtocolError.Roster (validate_child C b a)) (\<lambda>_. roster_links C (b # rs))"
| "roster_links C rs = Inr ()"

definition validate_roster_chain :: "crypto \<Rightarrow> RosterRevision list \<Rightarrow> ProtocolError + unit" where
  "validate_roster_chain C rs = (case rs of
      [] \<Rightarrow> Inl InvalidRoster
    | g # _ \<Rightarrow> bindE (mapErr ProtocolError.Roster (validate_genesis C g)) (\<lambda>_. roster_links C rs))"

definition roster_bundle_decode :: "crypto \<Rightarrow> byte list \<Rightarrow> ProtocolError + RosterBundle" where
  "roster_bundle_decode C bs =
    (if length bs > MAX_ROSTER_BYTES then Inl RosterLimit
     else
       bindE (wr_count MAX_ROSTER_REVISIONS (wr_new bs)) (\<lambda>(count, c).
       if count = 0 then Inl InvalidRoster
       else
         bindE (read_many read_revision count c) (\<lambda>(revisions, c).
         bindE (wr_finish c) (\<lambda>_.
         bindE (validate_roster_chain C revisions) (\<lambda>_.
         Inr \<lparr>rb_revisions = revisions\<rparr>)))))"

section \<open>Manifests\<close>

record ManifestBundle =
  mb_manifests :: "(string \<times> Manifest) list"

primrec write_manifests ::
  "(string \<times> Manifest) list \<Rightarrow> string set \<Rightarrow> nat \<Rightarrow> byte list \<Rightarrow> ProtocolError + byte list" where
  "write_manifests [] seen n w = Inr w"
| "write_manifests (e # es) seen n w =
    bindE (validate_collection (fst e)) (\<lambda>_.
    if fst e \<in> seen then Inl DuplicateCollection
    else
      bindE (ok_or ProtocolError.ManifestLimit (usize_checked_add n (length (m_records (snd e))))) (\<lambda>n.
      if n > MAX_MANIFEST_RECORDS then Inl ProtocolError.ManifestLimit
      else
        bindE (for_each (\<lambda>r. validate_record r (fst e)) (m_records (snd e))) (\<lambda>_.
        bindE (ww_string (fst e) w) (\<lambda>w.
        bindE (ww_bytes (manifest_canonical_bytes (snd e)) w) (\<lambda>w.
        write_manifests es (insert (fst e) seen) n w)))))"

definition manifest_bundle_encode :: "ManifestBundle \<Rightarrow> ProtocolError + byte list" where
  "manifest_bundle_encode b =
    (if length (mb_manifests b) > MAX_COLLECTIONS then Inl CollectionLimit
     else
       bindE (ww_count (length (mb_manifests b)) []) (\<lambda>w.
       bindE (write_manifests (mb_manifests b) {} 0 w) (\<lambda>w.
       if length w > MAX_MANIFEST_BYTES then Inl ProtocolError.ManifestLimit else Inr w)))"

primrec read_manifests ::
  "nat \<Rightarrow> string set \<Rightarrow> nat \<Rightarrow> cursor \<Rightarrow> ProtocolError + ((string \<times> Manifest) list \<times> cursor)" where
  "read_manifests 0 seen n c = Inr ([], c)"
| "read_manifests (Suc k) seen n c =
    bindE (wr_string MAX_COLLECTION_NAME_BYTES c) (\<lambda>(name, c).
    bindE (validate_collection name) (\<lambda>_.
    if name \<in> seen then Inl DuplicateCollection
    else
      bindE (wr_bytes MAX_MANIFEST_BYTES c) (\<lambda>(canonical, c).
      bindE (mapErr ProtocolError.Record (manifest_from_canonical_with_limit canonical (MAX_MANIFEST_RECORDS - n))) (\<lambda>m.
      bindE (ok_or ProtocolError.ManifestLimit (usize_checked_add n (length (m_records m)))) (\<lambda>n.
      if n > MAX_MANIFEST_RECORDS then Inl ProtocolError.ManifestLimit
      else
        bindE (for_each (\<lambda>r. validate_record r name) (m_records m)) (\<lambda>_.
        bindE (read_manifests k (insert name seen) n c) (\<lambda>(es, c).
        Inr ((name, m) # es, c))))))))"

definition manifest_bundle_decode :: "byte list \<Rightarrow> ProtocolError + ManifestBundle" where
  "manifest_bundle_decode bs =
    (if length bs > MAX_MANIFEST_BYTES then Inl ProtocolError.ManifestLimit
     else
       bindE (wr_count MAX_COLLECTIONS (wr_new bs)) (\<lambda>(count, c).
       bindE (read_manifests count {} 0 c) (\<lambda>(es, c).
       bindE (wr_finish c) (\<lambda>_.
       Inr \<lparr>mb_manifests = es\<rparr>))))"

section \<open>Requests\<close>

datatype FileRequest = FileRequest (fr_collection: string) (fr_path: string) (fr_record_hash: bytes32)

instantiation FileRequest :: linorder
begin

definition less_eq_FileRequest :: "FileRequest \<Rightarrow> FileRequest \<Rightarrow> bool" where
  "less_eq_FileRequest a b \<longleftrightarrow>
     (fr_collection a, fr_path a, fr_record_hash a) \<le> (fr_collection b, fr_path b, fr_record_hash b)"

definition less_FileRequest :: "FileRequest \<Rightarrow> FileRequest \<Rightarrow> bool" where
  "less_FileRequest a b \<longleftrightarrow>
     (fr_collection a, fr_path a, fr_record_hash a) < (fr_collection b, fr_path b, fr_record_hash b)"

instance
  by standard (auto simp: less_eq_FileRequest_def less_FileRequest_def FileRequest.expand)

end

record RequestBundle =
  rq_requests :: "FileRequest list"

definition validate_request :: "FileRequest \<Rightarrow> ProtocolError + unit" where
  "validate_request r =
    bindE (validate_collection (fr_collection r)) (\<lambda>_.
    if length (fr_path r) > MAX_PATH_BYTES then Inl PathLimit
    else bindE (mapErr ProtocolError.Path (parse (fr_path r))) (\<lambda>_. Inr ()))"

primrec write_requests :: "FileRequest list \<Rightarrow> FileRequest option \<Rightarrow> byte list \<Rightarrow> ProtocolError + byte list" where
  "write_requests [] previous w = Inr w"
| "write_requests (r # rs) previous w =
    bindE (validate_request r) (\<lambda>_.
    if (case previous of None \<Rightarrow> False | Some p \<Rightarrow> p \<ge> r) then Inl UnorderedRequests
    else
      bindE (ww_string (fr_collection r) w) (\<lambda>w.
      bindE (ww_string (fr_path r) w) (\<lambda>w.
      write_requests rs (Some r) (ww_fixed (to_be_bytes (fr_record_hash r)) w))))"

definition request_bundle_encode :: "RequestBundle \<Rightarrow> ProtocolError + byte list" where
  "request_bundle_encode b =
    (if length (rq_requests b) > MAX_TRANSFERS then Inl TransferLimit
     else bindE (ww_count (length (rq_requests b)) []) (write_requests (rq_requests b) None))"

primrec read_requests ::
  "nat \<Rightarrow> FileRequest option \<Rightarrow> cursor \<Rightarrow> ProtocolError + (FileRequest list \<times> cursor)" where
  "read_requests 0 previous c = Inr ([], c)"
| "read_requests (Suc k) previous c =
    bindE (wr_string MAX_COLLECTION_NAME_BYTES c) (\<lambda>(collection, c).
    bindE (wr_string MAX_PATH_BYTES c) (\<lambda>(path, c).
    bindE (wr_fixed c) (\<lambda>(hash, c).
    let r = FileRequest collection path hash in
    bindE (validate_request r) (\<lambda>_.
    if (case previous of None \<Rightarrow> False | Some p \<Rightarrow> p \<ge> r) then Inl UnorderedRequests
    else bindE (read_requests k (Some r) c) (\<lambda>(rs, c). Inr (r # rs, c))))))"

definition request_bundle_decode :: "byte list \<Rightarrow> ProtocolError + RequestBundle" where
  "request_bundle_decode bs =
    bindE (wr_count MAX_TRANSFERS (wr_new bs)) (\<lambda>(count, c).
    bindE (read_requests count None c) (\<lambda>(requests, c).
    bindE (wr_finish c) (\<lambda>_.
    Inr \<lparr>rq_requests = requests\<rparr>)))"

section \<open>File headers\<close>

definition check_file_kind :: "Record \<Rightarrow> ProtocolError + unit" where
  "check_file_kind r = (case r_kind r of
      RecordKind.File len h \<Rightarrow> if len \<le> MAX_FILE_BYTES then Inr () else Inl FileLimit
    | Tombstone \<Rightarrow> Inl UnexpectedTombstone)"

definition encode_file_header :: "Record \<Rightarrow> ProtocolError + byte list" where
  "encode_file_header r =
    bindE (validate_record r (r_collection r)) (\<lambda>_.
    bindE (check_file_kind r) (\<lambda>_.
    Inr (record_canonical_bytes r)))"

definition decode_file_header :: "byte list \<Rightarrow> ProtocolError + Record" where
  "decode_file_header bs =
    bindE (mapErr ProtocolError.Record (record_from_canonical bs)) (\<lambda>r.
    bindE (validate_record r (r_collection r)) (\<lambda>_.
    bindE (check_file_kind r) (\<lambda>_. Inr r)))"

end
