(* ===== verification/Wire_Props.thy ===== *)
theory Wire_Props
  imports Wire_Protocol
begin

text \<open>
  The wire format is exact: a frame or bundle is accepted exactly when it is what the encoder produces for the
  value returned, so both directions of a session agree on every byte, and every limit of the encoder is the
  limit of the decoder.
\<close>

lemmas wire_limits = MAX_FRAME_BYTES_def MAX_MANIFEST_BYTES_def MAX_MANIFEST_RECORDS_def MAX_ROSTER_BYTES_def
  MAX_ROSTER_REVISIONS_def MAX_ROSTER_MEMBERS_def MAX_COLLECTIONS_def MAX_COLLECTION_NAME_BYTES_def
  MAX_PATH_BYTES_def MAX_TRANSFERS_def MAX_ADDRESS_HINT_BYTES_def HEADER_BYTES_def

section \<open>Frames\<close>

lemma tag_from_byte_Inr: "tag_from_byte v = Inr tag \<longleftrightarrow> v = tag_byte tag"
  by (cases tag) (simp_all add: tag_from_byte_def tag_byte_def)

lemma payload_limit_bound: "payload_limit tag \<le> MAX_FRAME_BYTES"
  by (cases tag) (simp_all add: payload_limit_def wire_limits)

lemma encode_frame_Inr:
  "encode_frame tag payload = Inr bs \<longleftrightarrow>
     length payload \<le> payload_limit tag \<and> bs = tag_byte tag # sized payload"
proof -
  have "length payload \<le> payload_limit tag \<Longrightarrow> length payload < 2 ^ 32 \<and> length payload \<le> MAX_FRAME_BYTES"
    using payload_limit_bound [of tag] by (simp add: wire_limits)
  then show ?thesis
    by (auto simp: encode_frame_def u32_try_from_def sized_def not_less)
qed

lemma read_exact_Inr: "read_exact n src = Inr (v, left) \<longleftrightarrow> length v = n \<and> src = v @ left"
  by (auto simp: read_exact_def)

lemma decode_frame_Inr:
  "decode_frame src = Inr ((tag, payload), left) \<longleftrightarrow>
     length payload \<le> payload_limit tag \<and> src = tag_byte tag # sized payload @ left"
proof
  assume "decode_frame src = Inr ((tag, payload), left)"
  then obtain header src1 len where h: "length header = 5" "src = header @ src1"
      and d: "decode_header header = Inr (tag, len)" and p: "length payload = len" "src1 = payload @ left"
    by (auto simp: decode_frame_def bindE_eq_Inr read_exact_Inr HEADER_BYTES_def)
  obtain b lens where header: "header = b # lens" "length lens = 4"
    using h(1) by (cases header) auto
  from d have tag: "b = tag_byte tag" and len: "len = unat (from_be_bytes lens :: u32)" "len \<le> payload_limit tag"
    by (auto simp: decode_header_def bindE_eq_Inr tag_from_byte_Inr header Let_def split: if_splits)
  have "of_nat (length payload) = (from_be_bytes lens :: u32)" using p(1) len(1) by simp
  then have "to_be_bytes (of_nat (length payload) :: u32) = lens"
    using to_from_be_bytes [of lens, where ?'a = 32] header(2) by simp
  then show "length payload \<le> payload_limit tag \<and> src = tag_byte tag # sized payload @ left"
    using h(2) p header tag len(2) by (simp add: sized_def)
next
  assume a: "length payload \<le> payload_limit tag \<and> src = tag_byte tag # sized payload @ left"
  then have small: "length payload < 2 ^ 32" "length payload \<le> MAX_FRAME_BYTES"
    using payload_limit_bound [of tag] by (simp_all add: wire_limits)
  let ?lens = "to_be_bytes (of_nat (length payload) :: u32)"
  have "unat (from_be_bytes ?lens :: u32) = length payload"
    using small(1) by (simp add: from_to_be_bytes unat_of_nat_u32)
  then have "decode_header (tag_byte tag # ?lens) = Inr (tag, length payload)"
    using a small(2) tag_from_byte_Inr [of "tag_byte tag" tag] by (simp add: decode_header_def)
  moreover have "read_exact HEADER_BYTES src = Inr (tag_byte tag # ?lens, payload @ left)"
    using a by (simp add: read_exact_Inr sized_def HEADER_BYTES_def)
  moreover have "read_exact (length payload) (payload @ left) = Inr (payload, left)"
    by (simp add: read_exact_def)
  ultimately show "decode_frame src = Inr ((tag, payload), left)"
    by (simp add: decode_frame_def)
qed

lemma read_chunks_exact: "read_chunks n src = read_exact n src"
proof (induction n src rule: read_chunks.induct)
  case (1 n src)
  show ?case
  proof (cases "n = 0")
    case True
    then show ?thesis by (simp add: read_chunks.simps read_exact_def)
  next
    case False
    let ?k = "min n (64 * 1024)"
    show ?thesis
    proof (cases "?k \<le> length src")
      case True
      then have first: "read_exact ?k src = Inr (take ?k src, drop ?k src)" by (simp add: read_exact_def)
      then have rec: "read_chunks (n - ?k) (drop ?k src) = read_exact (n - ?k) (drop ?k src)"
        using 1 False by simp
      have "take ?k src @ take (n - ?k) (drop ?k src) = take n src"
        by (metis le_add_diff_inverse min.cobounded1 take_add)
      moreover have "n - ?k \<le> length (drop ?k src) \<longleftrightarrow> n \<le> length src" using True by auto
      moreover have "drop (n - ?k) (drop ?k src) = drop n src" by simp
      ultimately show ?thesis
        using False first rec by (subst read_chunks.simps) (simp add: read_exact_def)
    next
      case k: False
      then have "\<not> n \<le> length src" by auto
      with k False show ?thesis by (subst read_chunks.simps) (simp add: read_exact_def)
    qed
  qed
qed

lemma read_frame_async_Inr:
  "read_frame_async received src = Inr ((tag, payload), received', left) \<longleftrightarrow>
     decode_frame src = Inr ((tag, payload), left)
     \<and> add_received received (5 + of_nat (length payload)) = Inr received'"
  by (auto simp: read_frame_async_def decode_frame_def bindE_eq_Inr read_chunks_exact read_exact_Inr HEADER_BYTES_def)

text \<open>
  Framing is exact: what a peer writes as a frame is read back as that tag and payload with the following bytes
  untouched, a stream is accepted only if it starts with such a frame, and reading the payload in 64 KiB
  chunks on a connection gives the same result as reading it whole, within the connection's byte budget.
\<close>

theorem frame_roundtrip:
  "(decode_frame src = Inr ((tag, payload), left) \<longleftrightarrow>
      (\<exists>bs. encode_frame tag payload = Inr bs \<and> src = bs @ left))
   \<and> (read_frame_async received src = Inr ((tag, payload), received', left) \<longleftrightarrow>
      decode_frame src = Inr ((tag, payload), left)
      \<and> add_received received (5 + of_nat (length payload)) = Inr received')"
  unfolding read_frame_async_Inr unfolding decode_frame_Inr encode_frame_Inr by auto

lemma add_received_Inr:
  "add_received received amount = Inr received' \<longleftrightarrow>
     received' = received + amount \<and> unat received + unat amount \<le> 256 * 1024 * 1024"
proof -
  have max: "unat MAX_CONNECTION_BYTES = 256 * 1024 * 1024" by (simp add: MAX_CONNECTION_BYTES_def)
  show ?thesis
  proof (cases "unat received + unat amount < 2 ^ 64")
    case True
    then have "unat (received + amount) = unat received + unat amount"
      by (simp add: unat_word_ariths)
    with True max show ?thesis
      by (auto simp: add_received_def u64_checked_add_def word_less_nat_alt not_less)
  next
    case False
    then show ?thesis by (auto simp: add_received_def u64_checked_add_def)
  qed
qed

text \<open>Reading frames until the stream ends: the byte counter is what the connection has delivered.\<close>

inductive receives :: "u64 \<Rightarrow> byte list \<Rightarrow> (FrameTag \<times> byte list) list \<Rightarrow> u64 \<Rightarrow> byte list \<Rightarrow> bool" where
  start: "receives received src [] received src"
| frame: "receives received src frames received' src' \<Longrightarrow>
    read_frame_async received' src' = Inr (fr, received'', src'') \<Longrightarrow>
    receives received src (frames @ [fr]) received'' src''"

inductive_cases receives_snocE: "receives received src (frames @ [fr]) received' src'"

lemma receives_counts:
  assumes "receives received src frames received' src'"
  shows "unat received' = unat received + (\<Sum>(tag, payload) \<leftarrow> frames. 5 + length payload)
    \<and> length src = length src' + (\<Sum>(tag, payload) \<leftarrow> frames. 5 + length payload)"
  using assms
proof (induction rule: receives.induct)
  case (frame received src frames received' src' fr received'' src'')
  obtain tag payload where fr: "fr = (tag, payload)" by (cases fr)
  have d: "decode_frame src' = Inr ((tag, payload), src'')"
      and a: "add_received received' (5 + of_nat (length payload)) = Inr received''"
    using frame.hyps(2) fr by (simp_all add: read_frame_async_Inr)
  have len: "length payload \<le> MAX_FRAME_BYTES" "src' = tag_byte tag # sized payload @ src''"
    using d payload_limit_bound [of tag] by (auto simp: decode_frame_Inr)
  then have amount: "unat (5 + of_nat (length payload) :: u64) = 5 + length payload"
    by (simp add: wire_limits unat_word_ariths unat_of_nat take_bit_nat_eq_self)
  have "received'' = received' + (5 + of_nat (length payload))"
      "unat received' + unat (5 + of_nat (length payload) :: u64) \<le> 256 * 1024 * 1024"
    using a by (simp_all only: add_received_Inr)
  then have "unat received'' = unat received' + (5 + length payload)"
    using amount by (simp add: unat_word_ariths)
  with frame.IH len(2) show ?case by (simp add: fr)
qed simp

lemma receives_bounded:
  assumes "receives received src frames received' src'" and "unat received \<le> 256 * 1024 * 1024"
  shows "unat received' \<le> 256 * 1024 * 1024"
  using assms
proof (induction rule: receives.induct)
  case (frame received src frames received' src' fr received'' src'')
  obtain tag payload where fr: "fr = (tag, payload)" by (cases fr)
  then have a: "add_received received' (5 + of_nat (length payload)) = Inr received''"
    using frame.hyps(2) by (simp add: read_frame_async_Inr)
  then show ?case
    by (auto simp: add_received_def bindE_eq_Inr word_less_nat_alt not_less MAX_CONNECTION_BYTES_def split: if_splits)
qed

lemma receives_stream:
  assumes "receives received src frames received' src'"
  shows "src = concat (map (\<lambda>(tag, payload). tag_byte tag # sized payload) frames) @ src'"
  using assms
proof (induction rule: receives.induct)
  case (frame received src frames received' src' fr received'' src'')
  then show ?case by (cases fr) (auto simp: read_frame_async_Inr decode_frame_Inr)
qed simp

text \<open>
  C38. Whatever a peer sends, one connection is charged at most 256 MiB: after any number of frames the counter is the
  exact number of bytes consumed (headers and payloads, without wrap-around) and never passes the limit, and
  the frames read are the prefix of the stream that the peer's encoder produced for them.
\<close>

theorem connection_bounded:
  assumes "receives 0 src frames received left"
  shows "unat received = (\<Sum>(tag, payload) \<leftarrow> frames. 5 + length payload)
    \<and> unat received \<le> 256 * 1024 * 1024 \<and> length src = length left + unat received
    \<and> src = concat (map (\<lambda>(tag, payload). tag_byte tag # sized payload) frames) @ left"
  using receives_counts [OF assms] receives_bounded [OF assms] receives_stream [OF assms] by simp

theorem connection_bounded_witness:
  "receives 0 (tag_byte Done # sized [] @ [9]) [(Done, [])] 5 [9] \<and> unat (5 :: u64) \<le> 256 * 1024 * 1024"
proof -
  have f: "read_frame_async 0 (tag_byte Done # sized [] @ [9]) = Inr ((Done, []), 5, [9])"
    unfolding read_frame_async_Inr decode_frame_Inr by (simp add: add_received_Inr)
  have "receives 0 (tag_byte Done # sized [] @ [9]) [(Done, [])] 5 [9]"
    using receives.frame [OF receives.start f] by simp
  then show ?thesis using connection_bounded by blast
qed

end
