(* ===== verification/Wire_Bundles.thy ===== *)
theory Wire_Bundles
  imports Wire_Props
begin

text \<open>
  The four bundles of a session. The fields of \<open>WireReader\<close> and \<open>WireWriter\<close> interpret the contract
  \<open>field_codec\<close>, each under the limit the reader is given; every bundle is then decoded exactly from its own
  encoding, so an encoder's limits are the decoder's and no two encodings stand for one bundle.
\<close>

section \<open>Fields\<close>

lemma wr_take_Inr: "wr_take n c = Inr x \<longleftrightarrow> dec_take n c = Inr x"
  by (auto simp: wr_take_def dec_take_def bindE_eq_Inr)

lemma wr_fixed_Inr: "wr_fixed c = Inr x \<longleftrightarrow> dec_array c = Inr x"
  by (auto simp: wr_fixed_def dec_array_def bindE_eq_Inr wr_take_Inr split: if_splits)

lemma wr_fixed_codec:
  assumes "8 dvd LENGTH('a)"
  shows "field_codec (to_be_bytes :: 'a::len word \<Rightarrow> byte list) wr_fixed (\<lambda>_. True)"
  using dec_array_codec [OF assms] unfolding field_codec_def wr_fixed_Inr .

interpretation wire_u32: field_codec "to_be_bytes :: u32 \<Rightarrow> byte list" wr_fixed "\<lambda>_. True"
  by (rule wr_fixed_codec) simp

interpretation wire_hash: field_codec "to_be_bytes :: bytes32 \<Rightarrow> byte list" wr_fixed "\<lambda>_. True"
  by (rule wr_fixed_codec) simp

definition count_bytes :: "nat \<Rightarrow> byte list" where
  "count_bytes n = to_be_bytes (of_nat n :: u32)"

lemma length_count_bytes [simp]: "length (count_bytes n) = 4"
  by (simp add: count_bytes_def)

interpretation wire_count: field_codec count_bytes "wr_count lim" "\<lambda>n. n \<le> lim \<and> n < 2 ^ 32" for lim
proof
  fix c n c' assume "reads c (count_bytes n) c'" "n \<le> lim \<and> n < 2 ^ 32"
  then show "wr_count lim c = Inr (n, c')"
    using wire_u32.dec_enc [of c "of_nat n" c'] by (simp add: wr_count_def count_bytes_def unat_of_nat_u32)
next
  fix c n c' assume ok: "cur_ok c" and "wr_count lim c = Inr (n, c')"
  then obtain v :: u32 where v: "wr_fixed c = Inr (v, c')" "n = unat v" "n \<le> lim"
    by (auto simp: wr_count_def bindE_eq_Inr split: if_splits)
  then show "(n \<le> lim \<and> n < 2 ^ 32) \<and> reads c (count_bytes n) c'"
    using wire_u32.enc_dec [OF ok v(1)] unsigned_less [of v, where ?'a = nat] by (simp add: count_bytes_def)
qed

interpretation wire_bytes: field_codec sized "wr_bytes lim" "\<lambda>v. length v \<le> lim \<and> length v < 2 ^ 32" for lim
proof
  fix c v c' assume "reads c (sized v) c'" and len: "length v \<le> lim \<and> length v < 2 ^ 32"
  then obtain c1 where "reads c (count_bytes (length v)) c1" "reads c1 v c'"
    by (auto simp: sized_def count_bytes_def reads_append)
  with len show "wr_bytes lim c = Inr (v, c')"
    using dec_take_reads [of c1 v c'] by (simp add: wr_bytes_def wire_count.dec_enc wr_take_Inr)
next
  fix c v c' assume ok: "cur_ok c" and "wr_bytes lim c = Inr (v, c')"
  then obtain n c1 where s: "wr_count lim c = Inr (n, c1)" "dec_take n c1 = Inr (v, c')"
    by (auto simp: wr_bytes_def bindE_eq_Inr wr_take_Inr)
  have r1: "n \<le> lim" "n < 2 ^ 32" "reads c (count_bytes n) c1" using wire_count.enc_dec [OF ok s(1)] by simp_all
  then have "length v = n" "reads c1 v c'" using dec_take_inv [OF _ s(2)] by (simp_all add: reads_cur_ok)
  with r1 show "(length v \<le> lim \<and> length v < 2 ^ 32) \<and> reads c (sized v) c'"
    by (auto simp: sized_def count_bytes_def intro: reads_trans)
qed

interpretation wire_string: field_codec "\<lambda>s. sized (as_bytes s)" "wr_string lim"
  "\<lambda>s. string_ok s \<and> length s \<le> lim" for lim
proof
  fix c s c' assume "reads c (sized (as_bytes s)) c'" "string_ok s \<and> length s \<le> lim"
  then show "wr_string lim c = Inr (s, c')"
    using wire_bytes.dec_enc [of c "as_bytes s" c' lim] by (simp add: wr_string_def)
next
  fix c s c' assume ok: "cur_ok c" and "wr_string lim c = Inr (s, c')"
  then obtain v where v: "wr_bytes lim c = Inr (v, c')" "from_utf8 v = Some s"
    by (auto simp: wr_string_def bindE_eq_Inr)
  then have "is_str s" "as_bytes s = v" by (simp_all add: from_utf8_Some)
  with wire_bytes.enc_dec [OF ok v(1)]
  show "(string_ok s \<and> length s \<le> lim) \<and> reads c (sized (as_bytes s)) c'" by auto
qed

lemma wire_whole:
  assumes "length bs < 2 ^ 64"
  shows "(\<exists>c'. reads (wr_new bs) v c' \<and> wr_finish c' = Inr ()) \<longleftrightarrow> bs = v"
proof
  assume "\<exists>c'. reads (wr_new bs) v c' \<and> wr_finish c' = Inr ()"
  then show "bs = v" using reads_done [of "wr_new bs" v _ "[]" bs]
    by (auto simp: wr_new_def wr_finish_def cursor_done_def split: if_splits)
next
  assume "bs = v"
  then show "\<exists>c'. reads (wr_new bs) v c' \<and> wr_finish c' = Inr ()"
    using reads_whole [of "[]" bs] assms by (auto simp: wr_new_def wr_finish_def)
qed

lemma wr_new_ok: "length bs < 2 ^ 64 \<Longrightarrow> cur_ok (wr_new bs)"
  by (simp add: wr_new_def cur_ok_def)

lemma ww_count_Inr: "ww_count n w = Inr w' \<longleftrightarrow> n < 2 ^ 32 \<and> w' = w @ count_bytes n"
  by (auto simp: ww_count_def u32_try_from_def ww_fixed_def count_bytes_def)

lemma ww_bytes_Inr: "ww_bytes v w = Inr w' \<longleftrightarrow> length v < 2 ^ 32 \<and> w' = w @ sized v"
  by (auto simp: ww_bytes_def bindE_eq_Inr ww_count_Inr ww_fixed_def sized_def count_bytes_def)

lemma ww_string_Inr: "ww_string s w = Inr w' \<longleftrightarrow> length s < 2 ^ 32 \<and> w' = w @ sized (as_bytes s)"
  by (simp add: ww_string_def ww_bytes_Inr)

lemmas wire_writes = ww_count_Inr ww_bytes_Inr ww_string_Inr

lemma bindE_unit: "bindE (m :: 'e + unit) f = Inr y \<longleftrightarrow> m = Inr () \<and> f () = Inr y"
  by (simp add: bindE_eq_Inr)

lemma read_strings_bind:
  "cur_ok c \<Longrightarrow> bindE (read_many (wr_string lim) n c) f = Inr y \<longleftrightarrow>
    (\<exists>xs c'. (length xs = n \<and> (\<forall>x \<in> set xs. string_ok x \<and> length x \<le> lim))
      \<and> reads c (concat (map (\<lambda>s. sized (as_bytes s)) xs)) c' \<and> f (xs, c') = Inr y)"
  by (auto simp: bindE_eq_Inr wire_string.read_many_iff)

text \<open>Reading field by field: each step moves the cursor over the bytes of its field.\<close>

lemmas wire_reads = bindE_unit wire_count.bind_dec_iff wire_bytes.bind_dec_iff wire_string.bind_dec_iff
  wire_hash.bind_dec_iff read_strings_bind reads_cur_ok(2)

section \<open>Hello\<close>

lemma write_strings_Inr:
  "write_strings ss w = Inr w' \<longleftrightarrow>
     (\<forall>s \<in> set ss. length s < 2 ^ 32) \<and> w' = w @ concat (map (\<lambda>s. sized (as_bytes s)) ss)"
  by (induction ss arbitrary: w) (auto simp: bindE_eq_Inr ww_string_Inr)

lemma validate_short_string_Inr:
  "validate_short_string s lim = Inr () \<longleftrightarrow> s \<noteq> [] \<and> length s \<le> lim"
  by (auto simp: validate_short_string_def)

lemma validate_collections_from_Inr:
  "validate_collections_from p cs = Inr () \<longleftrightarrow>
     (\<forall>c \<in> set cs. validate_collection c = Inr ())
     \<and> sorted_wrt (<) (case p of None \<Rightarrow> cs | Some q \<Rightarrow> q # cs)"
proof (induction cs arbitrary: p)
  case (Cons c cs)
  show ?case
    by (cases p) (auto simp: bindE_eq_Inr Cons.IH not_le split: if_splits)
qed (simp split: option.split)

lemma validate_collections_Inr:
  "validate_collections cs = Inr () \<longleftrightarrow>
     length cs \<le> MAX_COLLECTIONS \<and> sorted_wrt (<) cs
     \<and> (\<forall>c \<in> set cs. c \<noteq> [] \<and> length c \<le> MAX_COLLECTION_NAME_BYTES)"
  by (auto simp: validate_collections_def validate_collections_from_Inr validate_collection_def
      validate_short_string_Inr)

text \<open>The texts of a hello are Rust strings.\<close>

definition hello_texts :: "Hello \<Rightarrow> bool" where
  "hello_texts h \<longleftrightarrow> (\<forall>c \<in> set (h_collections h). is_str c) \<and> is_str (h_endpoint_addr_json h)"

definition hello_bytes :: "Hello \<Rightarrow> byte list" where
  "hello_bytes h = count_bytes (length (h_collections h))
     @ concat (map (\<lambda>s. sized (as_bytes s)) (h_collections h)) @ sized (as_bytes (h_endpoint_addr_json h))"

lemma hello_encode_Inr:
  "hello_encode h = Inr bs \<longleftrightarrow> validate_collections (h_collections h) = Inr ()
     \<and> length (h_endpoint_addr_json h) \<le> MAX_ADDRESS_HINT_BYTES \<and> bs = hello_bytes h"
  by (auto simp: hello_encode_def bindE_eq_Inr wire_writes write_strings_Inr hello_bytes_def
      validate_collections_Inr wire_limits split: if_splits)

lemma hello_decode_Inr:
  assumes "length bs < 2 ^ 64"
  shows "hello_decode bs = Inr h \<longleftrightarrow> hello_texts h \<and> validate_collections (h_collections h) = Inr ()
     \<and> length (h_endpoint_addr_json h) \<le> MAX_ADDRESS_HINT_BYTES \<and> bs = hello_bytes h"
proof -
  have "hello_decode bs = Inr h \<longleftrightarrow> hello_texts h \<and> validate_collections (h_collections h) = Inr ()
     \<and> length (h_endpoint_addr_json h) \<le> MAX_ADDRESS_HINT_BYTES
     \<and> (\<exists>c'. reads (wr_new bs) (hello_bytes h) c' \<and> wr_finish c' = Inr ())" (is "?L \<longleftrightarrow> ?R")
  proof
    assume ?L
    then show ?R
      by (auto simp: hello_decode_def wire_reads wr_new_ok [OF assms] hello_bytes_def reads_append
          hello_texts_def cong: conj_cong) blast
  next
    assume r: ?R
    then have lims: "length (h_collections h) \<le> MAX_COLLECTIONS" "length (h_collections h) < 2 ^ 32"
        "\<forall>s \<in> set (h_collections h). string_ok s \<and> length s \<le> MAX_COLLECTION_NAME_BYTES"
        "length (h_endpoint_addr_json h) < 2 ^ 32"
      by (auto simp: hello_texts_def validate_collections_Inr wire_limits)
    from r obtain c1 c2 c3 where "reads (wr_new bs) (count_bytes (length (h_collections h))) c1"
        "reads c1 (concat (map (\<lambda>s. sized (as_bytes s)) (h_collections h))) c2"
        "reads c2 (sized (as_bytes (h_endpoint_addr_json h))) c3" "wr_finish c3 = Inr ()"
      unfolding hello_bytes_def reads_append by blast
    with r lims show ?L
      by (simp add: hello_decode_def wire_count.dec_enc wire_string.read_many_enc wire_string.dec_enc hello_texts_def)
  qed
  then show ?thesis unfolding wire_whole [OF assms] .
qed

text \<open>
  A hello is decoded exactly from its own encoding: the texts are UTF-8, the collections strictly increasing,
  non-empty and within the limits, and the address hint within its limit; any other bytes are refused.
\<close>

theorem hello_exact:
  assumes "length bs < 2 ^ 64"
  shows "hello_decode bs = Inr h \<longleftrightarrow> hello_texts h \<and> hello_encode h = Inr bs"
  unfolding hello_decode_Inr [OF assms] hello_encode_Inr by blast

theorem hello_exact_witness:
  "hello_decode (hello_bytes \<lparr>h_collections = [''c''], h_endpoint_addr_json = []\<rparr>)
     = Inr \<lparr>h_collections = [''c''], h_endpoint_addr_json = []\<rparr>"
proof -
  let ?h = "\<lparr>h_collections = [''c''], h_endpoint_addr_json = []\<rparr>"
  have "hello_texts ?h" by (simp add: hello_texts_def is_str_ascii)
  moreover have "hello_encode ?h = Inr (hello_bytes ?h)"
    by (simp add: hello_encode_Inr validate_collections_Inr wire_limits)
  moreover have "length (hello_bytes ?h) < 2 ^ 64" by (simp add: hello_bytes_def)
  ultimately show ?thesis using hello_exact [of "hello_bytes ?h" ?h] by simp
qed

section \<open>Rosters\<close>

abbreviation revision_field_bytes :: "RosterRevision \<Rightarrow> byte list" where
  "revision_field_bytes r \<equiv> sized (roster_canonical_bytes r)"

interpretation wire_revision: field_codec revision_field_bytes read_revision
  "\<lambda>r. roster_wf r \<and> length (rr_members r) \<le> MAX_ROSTER_MEMBERS
     \<and> length (roster_canonical_bytes r) \<le> MAX_ROSTER_BYTES"
proof
  fix c r c' assume "reads c (revision_field_bytes r) c'" and ok: "roster_wf r
    \<and> length (rr_members r) \<le> MAX_ROSTER_MEMBERS \<and> length (roster_canonical_bytes r) \<le> MAX_ROSTER_BYTES"
  then have "wr_bytes MAX_ROSTER_BYTES c = Inr (roster_canonical_bytes r, c')"
    by (intro wire_bytes.dec_enc) (simp_all add: wire_limits)
  moreover have "roster_from_canonical_with_member_limit (roster_canonical_bytes r) MAX_ROSTER_MEMBERS = Inr r"
    using ok by (intro roster_roundtrip) (simp_all add: wire_limits)
  ultimately show "read_revision c = Inr (r, c')" using ok by (simp add: read_revision_def)
next
  fix c r c' assume ok: "cur_ok c" and "read_revision c = Inr (r, c')"
  then obtain v where v: "wr_bytes MAX_ROSTER_BYTES c = Inr (v, c')"
      and r: "roster_from_canonical_with_member_limit v MAX_ROSTER_MEMBERS = Inr r"
    by (auto simp: read_revision_def bindE_eq_Inr split: if_splits)
  from wire_bytes.enc_dec [OF ok v] have b: "length v \<le> MAX_ROSTER_BYTES" "reads c (sized v) c'" by simp_all
  then have "length v < 2 ^ 64" by (simp add: wire_limits)
  from roster_decoded [OF r this] b
  show "(roster_wf r \<and> length (rr_members r) \<le> MAX_ROSTER_MEMBERS
      \<and> length (roster_canonical_bytes r) \<le> MAX_ROSTER_BYTES) \<and> reads c (revision_field_bytes r) c'"
    by auto
qed

lemma write_revisions_Inr:
  "write_revisions rs w = Inr w' \<longleftrightarrow>
     (\<forall>r \<in> set rs. length (rr_members r) \<le> MAX_ROSTER_MEMBERS \<and> length (roster_canonical_bytes r) < 2 ^ 32)
     \<and> w' = w @ concat (map revision_field_bytes rs)"
  by (induction rs arbitrary: w) (auto simp: bindE_eq_Inr ww_bytes_Inr split: if_splits)

definition roster_bundle_bytes :: "RosterBundle \<Rightarrow> byte list" where
  "roster_bundle_bytes b =
     count_bytes (length (rb_revisions b)) @ concat (map revision_field_bytes (rb_revisions b))"

lemma length_concat_member: "x \<in> set xs \<Longrightarrow> length (f x) \<le> length (concat (map f xs))"
  by (induction xs) auto

definition roster_bundle_fits :: "RosterBundle \<Rightarrow> bool" where
  "roster_bundle_fits b \<longleftrightarrow> rb_revisions b \<noteq> [] \<and> length (rb_revisions b) \<le> MAX_ROSTER_REVISIONS
     \<and> (\<forall>r \<in> set (rb_revisions b). length (rr_members r) \<le> MAX_ROSTER_MEMBERS)
     \<and> length (roster_bundle_bytes b) \<le> MAX_ROSTER_BYTES"

lemma roster_bundle_fits_revision:
  assumes "roster_bundle_fits b" and "r \<in> set (rb_revisions b)"
  shows "length (roster_canonical_bytes r) \<le> MAX_ROSTER_BYTES"
  using assms length_concat_member [of r "rb_revisions b" revision_field_bytes]
  by (simp add: roster_bundle_fits_def roster_bundle_bytes_def)

lemma roster_bundle_encode_Inr:
  "roster_bundle_encode b = Inr bs \<longleftrightarrow> roster_bundle_fits b \<and> bs = roster_bundle_bytes b" (is "?L \<longleftrightarrow> ?R")
proof
  assume ?L
  then show ?R
    by (auto simp: roster_bundle_encode_def bindE_eq_Inr wire_writes write_revisions_Inr roster_bundle_fits_def
        roster_bundle_bytes_def split: if_splits)
next
  assume r: ?R
  then have "length (roster_canonical_bytes r) < 2 ^ 32" if "r \<in> set (rb_revisions b)" for r
    using roster_bundle_fits_revision [OF _ that] by (simp add: wire_limits)
  moreover have "length (rb_revisions b) < 2 ^ 32" using r by (simp add: roster_bundle_fits_def wire_limits)
  ultimately have "ww_count (length (rb_revisions b)) [] = Inr (count_bytes (length (rb_revisions b)))"
      "write_revisions (rb_revisions b) (count_bytes (length (rb_revisions b))) = Inr (roster_bundle_bytes b)"
    using r by (simp_all add: ww_count_Inr write_revisions_Inr roster_bundle_fits_def roster_bundle_bytes_def)
  with r show ?L
    by (auto simp: roster_bundle_encode_def roster_bundle_fits_def)
qed

lemma read_revisions_bind:
  "cur_ok c \<Longrightarrow> bindE (read_many read_revision n c) f = Inr y \<longleftrightarrow>
    (\<exists>rs c'. (length rs = n \<and> (\<forall>r \<in> set rs. roster_wf r \<and> length (rr_members r) \<le> MAX_ROSTER_MEMBERS
        \<and> length (roster_canonical_bytes r) \<le> MAX_ROSTER_BYTES))
      \<and> reads c (concat (map revision_field_bytes rs)) c' \<and> f (rs, c') = Inr y)"
  by (auto simp: bindE_eq_Inr wire_revision.read_many_iff)

lemma roster_bundle_decode_Inr:
  "roster_bundle_decode C bs = Inr b \<longleftrightarrow>
     (\<forall>r \<in> set (rb_revisions b). roster_wf r) \<and> validate_roster_chain C (rb_revisions b) = Inr ()
     \<and> roster_bundle_fits b \<and> bs = roster_bundle_bytes b" (is "?L \<longleftrightarrow> ?R")
proof
  assume L: ?L
  then have len: "length bs \<le> MAX_ROSTER_BYTES" by (auto simp: roster_bundle_decode_def split: if_splits)
  then have small: "length bs < 2 ^ 64" by (simp add: wire_limits)
  from L len obtain c1 c2 where
      "length (rb_revisions b) \<le> MAX_ROSTER_REVISIONS" "rb_revisions b \<noteq> []"
      "reads (wr_new bs) (count_bytes (length (rb_revisions b))) c1"
      "\<forall>r \<in> set (rb_revisions b). roster_wf r \<and> length (rr_members r) \<le> MAX_ROSTER_MEMBERS"
      "reads c1 (concat (map revision_field_bytes (rb_revisions b))) c2"
      "wr_finish c2 = Inr ()" "validate_roster_chain C (rb_revisions b) = Inr ()"
    by (auto simp: roster_bundle_decode_def wire_reads read_revisions_bind wr_new_ok [OF small]
        split: if_splits cong: conj_cong)
  moreover from this have "bs = roster_bundle_bytes b"
    using wire_whole [OF small, of "roster_bundle_bytes b"]
    by (auto simp: roster_bundle_bytes_def intro: reads_trans)
  ultimately show ?R using len by (simp add: roster_bundle_fits_def)
next
  assume R: ?R
  then have len: "length bs \<le> MAX_ROSTER_BYTES" by (simp add: roster_bundle_fits_def)
  then have small: "length bs < 2 ^ 64" by (simp add: wire_limits)
  obtain c1 c2 where "reads (wr_new bs) (count_bytes (length (rb_revisions b))) c1"
      "reads c1 (concat (map revision_field_bytes (rb_revisions b))) c2" "wr_finish c2 = Inr ()"
    using R wire_whole [OF small, of "roster_bundle_bytes b"] unfolding roster_bundle_bytes_def reads_append by blast
  moreover have "length (rb_revisions b) \<le> MAX_ROSTER_REVISIONS" "rb_revisions b \<noteq> []" "length (rb_revisions b) < 2 ^ 32"
    using R by (simp_all add: roster_bundle_fits_def wire_limits)
  moreover have "\<forall>r \<in> set (rb_revisions b). roster_wf r \<and> length (rr_members r) \<le> MAX_ROSTER_MEMBERS
      \<and> length (roster_canonical_bytes r) \<le> MAX_ROSTER_BYTES"
    using R roster_bundle_fits_revision by (auto simp: roster_bundle_fits_def)
  ultimately show ?L using R len
    by (simp add: roster_bundle_decode_def wire_count.dec_enc wire_revision.read_many_enc not_le)
qed

text \<open>
  A roster bundle is decoded exactly when it is the encoding, within every limit, of a chain of well-formed
  revisions that starts at a valid genesis and whose every revision is a valid child of the one before it.
\<close>

theorem roster_bundle_exact:
  "roster_bundle_decode C bs = Inr b \<longleftrightarrow>
     (\<forall>r \<in> set (rb_revisions b). roster_wf r) \<and> validate_roster_chain C (rb_revisions b) = Inr ()
     \<and> roster_bundle_encode b = Inr bs"
  unfolding roster_bundle_decode_Inr roster_bundle_encode_Inr by blast

lemma sample_chain_valid: "validate_roster_chain sample_crypto [sample_genesis] = Inr ()"
  by (simp add: validate_roster_chain_def sample_genesis_valid)

theorem roster_bundle_exact_witness:
  "roster_bundle_decode sample_crypto (roster_bundle_bytes \<lparr>rb_revisions = [sample_genesis]\<rparr>)
     = Inr \<lparr>rb_revisions = [sample_genesis]\<rparr>"
proof -
  let ?b = "\<lparr>rb_revisions = [sample_genesis]\<rparr>"
  have "length (roster_canonical_bytes sample_genesis) \<le> 1000"
    by (simp add: roster_canonical_bytes_eq sample_genesis_wf unsigned_body_def ROSTER_DOMAIN_def)
       (simp add: sample_genesis_def parent_bytes_def member_bytes_def change_bytes_def)
  then have "roster_bundle_encode ?b = Inr (roster_bundle_bytes ?b)"
    unfolding roster_bundle_encode_Inr
    by (simp add: roster_bundle_fits_def wire_limits roster_bundle_bytes_def) (simp add: sample_genesis_def)
  then show ?thesis
    using roster_bundle_exact [of sample_crypto "roster_bundle_bytes ?b" ?b] sample_chain_valid sample_genesis_wf by simp
qed

section \<open>Requests\<close>

definition request_bytes :: "FileRequest \<Rightarrow> byte list" where
  "request_bytes r = sized (as_bytes (fr_collection r)) @ sized (as_bytes (fr_path r))
     @ to_be_bytes (fr_record_hash r)"

definition requests_valid :: "FileRequest list \<Rightarrow> bool" where
  "requests_valid rs \<longleftrightarrow> (\<forall>r \<in> set rs. validate_request r = Inr ())"

lemma validate_request_lengths:
  "validate_request r = Inr () \<Longrightarrow> length (fr_collection r) \<le> MAX_COLLECTION_NAME_BYTES
     \<and> length (fr_path r) \<le> MAX_PATH_BYTES"
  by (auto simp: validate_request_def bindE_unit validate_collection_def validate_short_string_Inr
      split: if_splits)

lemma write_requests_Inr:
  "write_requests rs p w = Inr w' \<longleftrightarrow> requests_valid rs
     \<and> sorted_wrt (<) (case p of None \<Rightarrow> rs | Some q \<Rightarrow> q # rs) \<and> w' = w @ concat (map request_bytes rs)"
proof (induction rs arbitrary: p w)
  case (Cons r rs)
  have "write_requests (r # rs) p w = Inr w' \<longleftrightarrow> validate_request r = Inr ()
      \<and> \<not> (case p of None \<Rightarrow> False | Some q \<Rightarrow> q \<ge> r) \<and> write_requests rs (Some r) (w @ request_bytes r) = Inr w'"
    using validate_request_lengths [of r]
    by (auto simp: bindE_unit bindE_eq_Inr wire_writes ww_fixed_def request_bytes_def wire_limits)
  then show ?case
    by (cases p) (auto simp only: Cons.IH requests_valid_def not_le option.case list.set ball_simps sorted_wrt.simps list.map concat.simps append_assoc, auto intro: order.strict_trans)
qed (auto simp: requests_valid_def split: option.split)

definition request_texts :: "FileRequest list \<Rightarrow> bool" where
  "request_texts rs \<longleftrightarrow> (\<forall>r \<in> set rs. is_str (fr_collection r) \<and> is_str (fr_path r))"

lemma read_requests_step:
  assumes "cur_ok c"
  shows "read_requests (Suc k) p c = Inr (out, c') \<longleftrightarrow>
    (\<exists>r rs c1. out = r # rs \<and> is_str (fr_collection r) \<and> is_str (fr_path r) \<and> validate_request r = Inr ()
       \<and> \<not> (case p of None \<Rightarrow> False | Some q \<Rightarrow> q \<ge> r) \<and> reads c (request_bytes r) c1
       \<and> read_requests k (Some r) c1 = Inr (rs, c'))" (is "?L \<longleftrightarrow> ?R")
proof
  assume ?L
  then obtain s t h c1 c2 c3 rs where s: "string_ok s" "reads c (sized (as_bytes s)) c1"
      and t: "string_ok t" "reads c1 (sized (as_bytes t)) c2" and h: "reads c2 (to_be_bytes h) c3"
      and v: "validate_request (FileRequest s t h) = Inr ()"
      "\<not> (case p of None \<Rightarrow> False | Some q \<Rightarrow> q \<ge> FileRequest s t h)"
      "read_requests k (Some (FileRequest s t h)) c3 = Inr (rs, c')" "out = FileRequest s t h # rs"
    using assms by (auto simp: wire_reads Let_def bindE_eq_Inr [of "read_requests _ _ _"] split: if_splits cong: conj_cong)
  have "reads c (request_bytes (FileRequest s t h)) c3"
    using s(2) t(2) h unfolding request_bytes_def reads_append by auto
  with s t v show ?R by fastforce
next
  assume ?R
  then obtain r rs c1 c2 c3 where o: "out = r # rs" and st: "is_str (fr_collection r)" "is_str (fr_path r)"
      and v: "validate_request r = Inr ()" "\<not> (case p of None \<Rightarrow> False | Some q \<Rightarrow> q \<ge> r)"
      and rd: "reads c (sized (as_bytes (fr_collection r))) c1" "reads c1 (sized (as_bytes (fr_path r))) c2"
        "reads c2 (to_be_bytes (fr_record_hash r)) c3"
      and k: "read_requests k (Some r) c3 = Inr (rs, c')"
    unfolding request_bytes_def reads_append by blast
  have "wr_string MAX_COLLECTION_NAME_BYTES c = Inr (fr_collection r, c1)" "wr_string MAX_PATH_BYTES c1 = Inr (fr_path r, c2)"
    using st validate_request_lengths [OF v(1)] rd by (simp_all add: wire_string.dec_enc wire_limits)
  moreover have "wr_fixed c2 = Inr (fr_record_hash r, c3)" using rd(3) by (simp add: wire_hash.dec_enc)
  ultimately show ?L using v k o by (simp del: split_paired_Ex)
qed

lemma read_requests_Inr:
  "cur_ok c \<Longrightarrow> read_requests k p c = Inr (rs, c') \<longleftrightarrow> length rs = k \<and> request_texts rs \<and> requests_valid rs
     \<and> sorted_wrt (<) (case p of None \<Rightarrow> rs | Some q \<Rightarrow> q # rs) \<and> reads c (concat (map request_bytes rs)) c'"
proof (induction k arbitrary: p c rs)
  case 0
  then show ?case by (auto simp: request_texts_def requests_valid_def split: option.split)
next
  case (Suc k)
  have "(\<exists>c1. reads c (request_bytes r) c1 \<and> read_requests k (Some r) c1 = Inr (rs, c')) \<longleftrightarrow>
      length rs = k \<and> request_texts rs \<and> requests_valid rs \<and> sorted_wrt (<) (r # rs)
      \<and> reads c (concat (map request_bytes (r # rs))) c'" for r rs
    using Suc.IH [of _ "Some r" rs] by (auto simp: reads_append dest: reads_cur_ok(2))
  then show ?case
    unfolding read_requests_step [OF Suc.prems]
    by (cases rs; cases p) (auto simp: request_texts_def requests_valid_def not_le)
qed

definition request_bundle_bytes :: "RequestBundle \<Rightarrow> byte list" where
  "request_bundle_bytes b = count_bytes (length (rq_requests b)) @ concat (map request_bytes (rq_requests b))"

definition request_bundle_fits :: "RequestBundle \<Rightarrow> bool" where
  "request_bundle_fits b \<longleftrightarrow> length (rq_requests b) \<le> MAX_TRANSFERS \<and> requests_valid (rq_requests b) \<and> sorted_wrt (<) (rq_requests b)"

lemma request_bundle_encode_Inr:
  "request_bundle_encode b = Inr bs \<longleftrightarrow> request_bundle_fits b \<and> bs = request_bundle_bytes b"
  by (auto simp: request_bundle_encode_def bindE_eq_Inr ww_count_Inr write_requests_Inr wire_limits request_bundle_fits_def
      request_bundle_bytes_def)

lemma request_bundle_decode_Inr:
  assumes "length bs < 2 ^ 64"
  shows "request_bundle_decode bs = Inr b \<longleftrightarrow>
    request_texts (rq_requests b) \<and> request_bundle_fits b \<and> bs = request_bundle_bytes b"
proof -
  let ?rs = "rq_requests b"
  have "request_bundle_decode bs = Inr b \<longleftrightarrow> request_texts ?rs \<and> request_bundle_fits b
      \<and> (\<exists>c1 c2. reads (wr_new bs) (count_bytes (length ?rs)) c1
           \<and> reads c1 (concat (map request_bytes ?rs)) c2 \<and> wr_finish c2 = Inr ())" (is "?L \<longleftrightarrow> ?R")
  proof
    assume ?L
    then show ?R
      by (auto simp: request_bundle_decode_def request_bundle_fits_def wire_reads wr_new_ok [OF assms]
          bindE_eq_Inr [of "read_requests _ _ _"] read_requests_Inr cong: conj_cong) blast
  next
    assume ?R
    moreover from this have "length ?rs < 2 ^ 32" by (simp add: wire_limits request_bundle_fits_def)
    ultimately show ?L
      by (auto simp: request_bundle_decode_def request_bundle_fits_def wire_count.dec_enc reads_cur_ok read_requests_Inr [THEN iffD2])
  qed
  also have "\<dots> \<longleftrightarrow> request_texts ?rs \<and> request_bundle_fits b \<and> bs = request_bundle_bytes b"
    using wire_whole [OF assms, of "request_bundle_bytes b"] unfolding reads_append request_bundle_bytes_def by blast
  finally show ?thesis .
qed

text \<open>
  A request bundle is decoded exactly from its own encoding: at most 1024 requests, strictly increasing, each for
  a valid collection name and a canonical path, with nothing after the last one.
\<close>

theorem request_bundle_exact:
  assumes "length bs < 2 ^ 64"
  shows "request_bundle_decode bs = Inr b \<longleftrightarrow>
    request_texts (rq_requests b) \<and> request_bundle_encode b = Inr bs"
  unfolding request_bundle_decode_Inr [OF assms] request_bundle_encode_Inr by blast

theorem request_bundle_exact_witness:
  "\<exists>bs. request_bundle_encode \<lparr>rq_requests = [FileRequest ''c'' ''a/b'' 7]\<rparr> = Inr bs
    \<and> request_bundle_decode bs = Inr \<lparr>rq_requests = [FileRequest ''c'' ''a/b'' 7]\<rparr>"
proof -
  let ?b = "\<lparr>rq_requests = [FileRequest ''c'' ''a/b'' 7]\<rparr>"
  have "validate_request (FileRequest ''c'' ''a/b'' 7) = Inr ()" by code_simp
  then have "request_bundle_encode ?b = Inr (count_bytes 1 @ request_bytes (FileRequest ''c'' ''a/b'' 7))"
    by (simp add: request_bundle_encode_def bindE_eq_Inr wire_writes ww_fixed_def request_bytes_def wire_limits)
  moreover have "request_texts (rq_requests ?b)" by (simp add: request_texts_def is_str_ascii)
  moreover have "length (count_bytes 1 @ request_bytes (FileRequest ''c'' ''a/b'' 7)) < 2 ^ 64"
    by (simp add: request_bytes_def)
  ultimately show ?thesis using request_bundle_exact by blast
qed

section \<open>Manifests\<close>

definition entry_bytes :: "string \<times> Manifest \<Rightarrow> byte list" where
  "entry_bytes e = sized (as_bytes (fst e)) @ sized (manifest_canonical_bytes (snd e))"

definition entry_valid :: "string \<times> Manifest \<Rightarrow> bool" where
  "entry_valid e \<longleftrightarrow> validate_collection (fst e) = Inr ()
     \<and> for_each (\<lambda>r. validate_record r (fst e)) (m_records (snd e)) = Inr ()"

abbreviation entry_size :: "string \<times> Manifest \<Rightarrow> nat" where
  "entry_size e \<equiv> length (m_records (snd e))"

definition entries_fit :: "(string \<times> Manifest) list \<Rightarrow> string set \<Rightarrow> nat \<Rightarrow> bool" where
  "entries_fit es seen n \<longleftrightarrow> (\<forall>e \<in> set es. entry_valid e) \<and> distinct (map fst es)
     \<and> (\<forall>e \<in> set es. fst e \<notin> seen) \<and> n + (\<Sum>e \<leftarrow> es. entry_size e) \<le> MAX_MANIFEST_RECORDS"

lemma entries_fit_Cons:
  "entries_fit (e # es) seen n \<longleftrightarrow> entry_valid e \<and> fst e \<notin> seen \<and> n + entry_size e \<le> MAX_MANIFEST_RECORDS
     \<and> entries_fit es (insert (fst e) seen) (n + entry_size e)"
  by (auto simp: entries_fit_def image_iff)

lemma entry_valid_length: "entry_valid e \<Longrightarrow> length (fst e) \<le> MAX_COLLECTION_NAME_BYTES"
  by (simp add: entry_valid_def validate_collection_def validate_short_string_Inr)

lemma entry_valid_small: "entry_valid e \<Longrightarrow> length (fst e) < 2 ^ 32"
  using entry_valid_length [of e] by (simp add: wire_limits)

lemma checked_records:
  "bindE (ok_or er (usize_checked_add n k)) (\<lambda>n. if n > MAX_MANIFEST_RECORDS then Inl er' else f n) = Inr y
     \<longleftrightarrow> n + k \<le> MAX_MANIFEST_RECORDS \<and> f (n + k) = Inr y"
  by (auto simp: usize_checked_add_def wire_limits split: if_splits)

lemma write_manifests_Inr:
  "n \<le> MAX_MANIFEST_RECORDS \<Longrightarrow> write_manifests es seen n w = Inr w' \<longleftrightarrow> entries_fit es seen n
     \<and> (\<forall>e \<in> set es. length (manifest_canonical_bytes (snd e)) < 2 ^ 32) \<and> w' = w @ concat (map entry_bytes es)"
proof (induction es arbitrary: seen n w)
  case Nil
  then show ?case by (auto simp: entries_fit_def)
next
  case (Cons e es)
  have "write_manifests (e # es) seen n w = Inr w' \<longleftrightarrow> entry_valid e \<and> fst e \<notin> seen
      \<and> n + entry_size e \<le> MAX_MANIFEST_RECORDS \<and> length (manifest_canonical_bytes (snd e)) < 2 ^ 32
      \<and> write_manifests es (insert (fst e) seen) (n + entry_size e) (w @ entry_bytes e) = Inr w'"
    using entry_valid_small [of e]
    by (auto simp: bindE_unit checked_records bindE_eq_Inr [of "ww_string _ _"] bindE_eq_Inr [of "ww_bytes _ _"]
        wire_writes entry_valid_def entry_bytes_def)
  then show ?case using Cons.IH by (auto simp: entries_fit_Cons)
qed

definition entries_wf :: "(string \<times> Manifest) list \<Rightarrow> bool" where
  "entries_wf es \<longleftrightarrow> (\<forall>e \<in> set es. is_str (fst e) \<and> manifest_ok (snd e))"

lemma read_manifests_step:
  assumes "cur_ok c" and "n \<le> MAX_MANIFEST_RECORDS"
  shows "read_manifests (Suc k) seen n c = Inr (out, c') \<longleftrightarrow>
    (\<exists>e es c1. out = e # es \<and> is_str (fst e) \<and> manifest_ok (snd e) \<and> entry_valid e \<and> fst e \<notin> seen
       \<and> length (manifest_canonical_bytes (snd e)) \<le> MAX_MANIFEST_BYTES
       \<and> n + entry_size e \<le> MAX_MANIFEST_RECORDS \<and> reads c (entry_bytes e) c1
       \<and> read_manifests k (insert (fst e) seen) (n + entry_size e) c1 = Inr (es, c'))" (is "?L \<longleftrightarrow> ?R")
proof
  assume ?L
  then obtain s v m c1 c2 es where s: "string_ok s" "reads c (sized (as_bytes s)) c1"
      and v: "length v \<le> MAX_MANIFEST_BYTES" "reads c1 (sized v) c2"
      and m: "manifest_from_canonical_with_limit v (MAX_MANIFEST_RECORDS - n) = Inr m"
      and e: "entry_valid (s, m)" "s \<notin> seen" "n + length (m_records m) \<le> MAX_MANIFEST_RECORDS"
        "read_manifests k (insert s seen) (n + length (m_records m)) c2 = Inr (es, c')" "out = (s, m) # es"
    using assms by (auto simp: wire_reads checked_records bindE_eq_Inr [of "read_manifests _ _ _ _"]
        bindE_eq_Inr [of "mapErr _ _"] entry_valid_def split: if_splits cong: conj_cong)
  have "length v < 2 ^ 64" using v(1) by (simp add: wire_limits)
  from manifest_decoded [OF m this] s v e show ?R
    by (intro exI [of _ "(s, m)"] exI [of _ es] exI [of _ c2]) (auto simp: entry_bytes_def intro: reads_trans)
next
  assume ?R
  then obtain e es c1 c2 where o: "out = e # es" and wf: "is_str (fst e)" "manifest_ok (snd e)"
      and v: "entry_valid e" "fst e \<notin> seen" "length (manifest_canonical_bytes (snd e)) \<le> MAX_MANIFEST_BYTES"
        "n + entry_size e \<le> MAX_MANIFEST_RECORDS"
      and rd: "reads c (sized (as_bytes (fst e))) c1" "reads c1 (sized (manifest_canonical_bytes (snd e))) c2"
      and k: "read_manifests k (insert (fst e) seen) (n + entry_size e) c2 = Inr (es, c')"
    unfolding entry_bytes_def reads_append by blast
  have "wr_string MAX_COLLECTION_NAME_BYTES c = Inr (fst e, c1)"
      "wr_bytes MAX_MANIFEST_BYTES c1 = Inr (manifest_canonical_bytes (snd e), c2)"
    using wf entry_valid_length [OF v(1)] rd v(3) by (simp_all add: wire_string.dec_enc wire_bytes.dec_enc wire_limits)
  moreover have "manifest_from_canonical_with_limit (manifest_canonical_bytes (snd e)) (MAX_MANIFEST_RECORDS - n) = Inr (snd e)"
    using v(3,4) by (intro manifest_roundtrip [OF wf(2)]) (simp_all add: wire_limits)
  moreover have "\<not> MAX_MANIFEST_RECORDS < n + entry_size e" "n + entry_size e < 2 ^ 64"
    using v(4) by (simp_all add: wire_limits)
  ultimately show ?L using v(1,2) k o by (simp add: entry_valid_def usize_checked_add_def)
qed

lemma read_manifests_Inr:
  "cur_ok c \<Longrightarrow> n \<le> MAX_MANIFEST_RECORDS \<Longrightarrow> read_manifests k seen n c = Inr (es, c') \<longleftrightarrow>
     length es = k \<and> entries_wf es \<and> entries_fit es seen n
     \<and> (\<forall>e \<in> set es. length (manifest_canonical_bytes (snd e)) \<le> MAX_MANIFEST_BYTES)
     \<and> reads c (concat (map entry_bytes es)) c'"
proof (induction k arbitrary: seen n c es)
  case 0
  then show ?case by (auto simp: entries_wf_def entries_fit_def)
next
  case (Suc k)
  have "n + entry_size e \<le> MAX_MANIFEST_RECORDS \<Longrightarrow>
      (\<exists>c1. reads c (entry_bytes e) c1 \<and> read_manifests k (insert (fst e) seen) (n + entry_size e) c1 = Inr (xs, c')) \<longleftrightarrow>
      length xs = k \<and> entries_wf xs \<and> entries_fit xs (insert (fst e) seen) (n + entry_size e)
      \<and> (\<forall>e \<in> set xs. length (manifest_canonical_bytes (snd e)) \<le> MAX_MANIFEST_BYTES)
      \<and> reads c (concat (map entry_bytes (e # xs))) c'" for e xs
    using Suc.IH [of _ "n + entry_size e" "insert (fst e) seen" xs] by (auto simp: reads_append dest: reads_cur_ok(2))
  note rec = this
  show ?case
  proof (cases es)
    case Nil
    then show ?thesis unfolding read_manifests_step [OF Suc.prems] by simp
  next
    case (Cons e xs)
    have "read_manifests (Suc k) seen n c = Inr (es, c') \<longleftrightarrow>
        is_str (fst e) \<and> manifest_ok (snd e) \<and> entry_valid e \<and> fst e \<notin> seen
        \<and> length (manifest_canonical_bytes (snd e)) \<le> MAX_MANIFEST_BYTES \<and> n + entry_size e \<le> MAX_MANIFEST_RECORDS
        \<and> (\<exists>c1. reads c (entry_bytes e) c1
             \<and> read_manifests k (insert (fst e) seen) (n + entry_size e) c1 = Inr (xs, c'))"
      unfolding read_manifests_step [OF Suc.prems] Cons by blast
    then show ?thesis using rec [of e xs] Cons by (auto simp: entries_fit_Cons entries_wf_def)
  qed
qed

definition manifest_bundle_bytes :: "ManifestBundle \<Rightarrow> byte list" where
  "manifest_bundle_bytes b = count_bytes (length (mb_manifests b)) @ concat (map entry_bytes (mb_manifests b))"

definition manifest_bundle_fits :: "ManifestBundle \<Rightarrow> bool" where
  "manifest_bundle_fits b \<longleftrightarrow> length (mb_manifests b) \<le> MAX_COLLECTIONS \<and> entries_fit (mb_manifests b) {} 0
     \<and> length (manifest_bundle_bytes b) \<le> MAX_MANIFEST_BYTES"

lemma manifest_bundle_fits_entry:
  assumes "manifest_bundle_fits b" and "e \<in> set (mb_manifests b)"
  shows "length (manifest_canonical_bytes (snd e)) \<le> MAX_MANIFEST_BYTES"
  using assms length_concat_member [of e "mb_manifests b" entry_bytes]
  by (simp add: manifest_bundle_fits_def manifest_bundle_bytes_def entry_bytes_def)

lemma manifest_bundle_encode_Inr:
  "manifest_bundle_encode b = Inr bs \<longleftrightarrow> manifest_bundle_fits b \<and> bs = manifest_bundle_bytes b" (is "?L \<longleftrightarrow> ?R")
proof
  assume ?L
  then show ?R
    by (auto simp: manifest_bundle_encode_def bindE_eq_Inr wire_writes write_manifests_Inr manifest_bundle_fits_def
        manifest_bundle_bytes_def split: if_splits)
next
  assume r: ?R
  then have "\<forall>e \<in> set (mb_manifests b). length (manifest_canonical_bytes (snd e)) < 2 ^ 32"
    using manifest_bundle_fits_entry [of b] by (fastforce simp: wire_limits)
  moreover have "length (mb_manifests b) < 2 ^ 32" using r by (simp add: manifest_bundle_fits_def wire_limits)
  ultimately have "ww_count (length (mb_manifests b)) [] = Inr (count_bytes (length (mb_manifests b)))"
      "write_manifests (mb_manifests b) {} 0 (count_bytes (length (mb_manifests b))) = Inr (manifest_bundle_bytes b)"
    using r by (simp_all add: ww_count_Inr write_manifests_Inr manifest_bundle_fits_def manifest_bundle_bytes_def)
  with r show ?L by (auto simp: manifest_bundle_encode_def manifest_bundle_fits_def)
qed

lemma manifest_bundle_decode_Inr:
  "manifest_bundle_decode bs = Inr b \<longleftrightarrow>
     entries_wf (mb_manifests b) \<and> manifest_bundle_fits b \<and> bs = manifest_bundle_bytes b" (is "?L \<longleftrightarrow> ?R")
proof
  assume L: ?L
  then have len: "length bs \<le> MAX_MANIFEST_BYTES" by (auto simp: manifest_bundle_decode_def split: if_splits)
  then have small: "length bs < 2 ^ 64" by (simp add: wire_limits)
  from L len obtain c1 c2 where
      "length (mb_manifests b) \<le> MAX_COLLECTIONS" "entries_wf (mb_manifests b)" "entries_fit (mb_manifests b) {} 0"
      "reads (wr_new bs) (count_bytes (length (mb_manifests b))) c1"
      "reads c1 (concat (map entry_bytes (mb_manifests b))) c2" "wr_finish c2 = Inr ()"
    by (auto simp: manifest_bundle_decode_def wire_reads bindE_eq_Inr [of "read_manifests _ _ _ _"]
        read_manifests_Inr wr_new_ok [OF small] split: if_splits cong: conj_cong)
  moreover from this have "bs = manifest_bundle_bytes b"
    using wire_whole [OF small, of "manifest_bundle_bytes b"]
    by (auto simp: manifest_bundle_bytes_def intro: reads_trans)
  ultimately show ?R using len by (simp add: manifest_bundle_fits_def)
next
  assume R: ?R
  then have len: "length bs \<le> MAX_MANIFEST_BYTES" by (simp add: manifest_bundle_fits_def)
  then have small: "length bs < 2 ^ 64" by (simp add: wire_limits)
  obtain c1 c2 where c: "reads (wr_new bs) (count_bytes (length (mb_manifests b))) c1"
      "reads c1 (concat (map entry_bytes (mb_manifests b))) c2" "wr_finish c2 = Inr ()"
    using R wire_whole [OF small, of "manifest_bundle_bytes b"] unfolding manifest_bundle_bytes_def reads_append by blast
  moreover have "length (mb_manifests b) \<le> MAX_COLLECTIONS" "length (mb_manifests b) < 2 ^ 32"
    using R by (simp_all add: manifest_bundle_fits_def wire_limits)
  moreover have "read_manifests (length (mb_manifests b)) {} 0 c1 = Inr (mb_manifests b, c2)"
    using R c(2) reads_cur_ok(2) [OF c(1)] manifest_bundle_fits_entry [of b]
    by (subst read_manifests_Inr) (auto simp: manifest_bundle_fits_def)
  ultimately show ?L using R len by (simp add: manifest_bundle_decode_def wire_count.dec_enc not_le)
qed

text \<open>
  A manifest bundle is decoded exactly from its own encoding: at most 64 collections, no collection twice, at
  most 10,000 records in all, each record valid and in the collection it is listed under, the whole within 8 MiB.
\<close>

theorem manifest_bundle_exact:
  "manifest_bundle_decode bs = Inr b \<longleftrightarrow> entries_wf (mb_manifests b) \<and> manifest_bundle_encode b = Inr bs"
  unfolding manifest_bundle_decode_Inr manifest_bundle_encode_Inr by blast

section \<open>File headers\<close>

text \<open>
  A file header is decoded exactly from the canonical encoding of a well-formed file record within the path and
  file limits; a tombstone is never announced as a file.
\<close>

theorem file_header_exact:
  assumes "length bs < 2 ^ 64"
  shows "decode_file_header bs = Inr r \<longleftrightarrow> record_wf r \<and> encode_file_header r = Inr bs"
proof -
  have "record_from_canonical bs = Inr r' \<longleftrightarrow> record_wf r' \<and> record_canonical_bytes r' = bs" for r'
    using record_decoded [OF _ assms, of r'] record_roundtrip [of r'] by auto
  then show ?thesis
    by (auto simp: decode_file_header_def encode_file_header_def bindE_eq_Inr bindE_unit)
qed

theorem file_header_exact_witness:
  "decode_file_header (record_canonical_bytes sample_file) = Inr sample_file"
proof -
  have "encode_file_header sample_file = Inr (record_canonical_bytes sample_file)"
    by (simp add: encode_file_header_def validate_record_def validate_collection_def validate_short_string_def
        check_file_kind_def sample_file_def wire_limits MAX_FILE_BYTES_def as_str_def)
  then show ?thesis
    using file_header_exact [of "record_canonical_bytes sample_file" sample_file] sample_file_wf sample_lengths by simp
qed

end
