(* ===== verification/Local_Files.thy ===== *)
theory Local_Files
  imports State_Records State_Roster
begin

text \<open>
  The local filesystem as the program meets it through \<open>std::fs\<close> and \<open>cap_std\<close>: directories and files by inode,
  the primitive calls the installer and the scanner make, and the device they run on. Every call can fail:
  the environment decides, at each tick, whether the next call returns an I/O error, so a theorem about all
  environments covers a failure at every point. A directory handle is its inode. A symbolic link is recorded
  by what it resolves to inside the collection root, or by nothing when it dangles or escapes. Names are looked
  up under the filesystem's own comparison (\<open>ev_key\<close>), which may identify names that differ in case or
  normalization. The scanner's cache of comparisons is part of the world. \<open>root.rs\<close>, the acquisition of a collection root, is modelled at the end.
\<close>

section \<open>Files and directories\<close>

record file_data =
  fd_bytes :: "byte list"
  fd_mtime :: i64
  fd_mtime_nsec :: i64
  fd_ctime :: i64
  fd_ctime_nsec :: i64

datatype link_target = ToDir nat | ToFile nat

datatype dir_entry = SubDir nat | Regular nat | Symlink "link_target option" | Special

record tree =
  t_dirs :: "(nat, (string \<times> dir_entry) list) omap"
  t_files :: "(nat, file_data) omap"
  t_next :: nat

datatype IoError = NotFound | NotADirectory | IsADirectory | InvalidInput | AlreadyExists | PermissionDenied | OtherIo

record env =
  ev_fault :: "nat \<Rightarrow> (IoError \<times> nat) option"
  ev_clock :: "nat \<Rightarrow> i64"
  ev_random :: "nat \<Rightarrow> u64"
  ev_pid :: nat
  ev_key :: "string \<Rightarrow> string"
  ev_root :: "nat \<Rightarrow> os_path \<Rightarrow> IoError + (os_path \<times> nat)"
  ev_interfere :: "nat \<Rightarrow> nat \<Rightarrow> file_data \<Rightarrow> file_data"

record world =
  w_tree :: tree
  w_state :: StateStore
  w_tick :: nat
  w_comparisons :: "(os_path, FilenameComparison) omap"

primrec find_entry :: "(string \<Rightarrow> string) \<Rightarrow> string \<Rightarrow> (string \<times> dir_entry) list \<Rightarrow> dir_entry option" where
  "find_entry key name [] = None"
| "find_entry key name (x # es) = (if key (fst x) = key name then Some (snd x) else find_entry key name es)"

definition slot :: "env \<Rightarrow> tree \<Rightarrow> nat \<Rightarrow> string \<Rightarrow> dir_entry option" where
  "slot E t d name = (case om_get (t_dirs t) d of None \<Rightarrow> None | Some es \<Rightarrow> find_entry (ev_key E) name es)"

definition file_of :: "tree \<Rightarrow> nat \<Rightarrow> file_data option" where
  "file_of t i = om_get (t_files t) i"

section \<open>Primitive calls\<close>

text \<open>One call: it may fail, and it takes a tick.\<close>

definition io :: "env \<Rightarrow> (tree \<Rightarrow> IoError + ('a \<times> tree)) \<Rightarrow> (world, IoError, 'a) action" where
  "io E f w =
    (let w' = w\<lparr>w_tick := Suc (w_tick w)\<rparr> in
     case ev_fault E (w_tick w) of
       Some (e, _) \<Rightarrow> (Inl e, w')
     | None \<Rightarrow> (case f (w_tree w) of
           Inl e \<Rightarrow> (Inl e, w')
         | Inr (a, t) \<Rightarrow> (Inr a, w'\<lparr>w_tree := t\<rparr>)))"

text \<open>A call that only reads.\<close>

definition io_read :: "env \<Rightarrow> (tree \<Rightarrow> IoError + 'a) \<Rightarrow> (world, IoError, 'a) action" where
  "io_read E f = io E (\<lambda>t. bindE (f t) (\<lambda>a. Inr (a, t)))"

definition now_ns :: "env \<Rightarrow> (world, 'e, i64) action" where
  "now_ns E w = (Inr (ev_clock E (w_tick w)), w\<lparr>w_tick := Suc (w_tick w)\<rparr>)"

definition db :: "(StateStore, 'e, 'a) action \<Rightarrow> (world, 'e, 'a) action" where
  "db m w = (case m (w_state w) of (r, s) \<Rightarrow> (r, w\<lparr>w_state := s\<rparr>))"

text \<open>\<open>match action { Ok(a) => f(a), Err(e) => h(e) }\<close>\<close>

definition catchS :: "('s, 'e, 'a) action \<Rightarrow> ('e + 'a \<Rightarrow> ('s, 'f, 'b) action) \<Rightarrow> ('s, 'f, 'b) action" where
  "catchS m f s = (case m s of (r, s') \<Rightarrow> f r s')"

definition dir_names :: "tree \<Rightarrow> nat \<Rightarrow> IoError + (string \<times> dir_entry) list" where
  "dir_names t d = ok_or NotADirectory (om_get (t_dirs t) d)"

definition entries :: "env \<Rightarrow> nat \<Rightarrow> (world, IoError, (string \<times> dir_entry) list) action" where
  "entries E d = io_read E (\<lambda>t. dir_names t d)"

definition symlink_metadata :: "env \<Rightarrow> nat \<Rightarrow> string \<Rightarrow> (world, IoError, dir_entry) action" where
  "symlink_metadata E d name = io_read E (\<lambda>t. ok_or NotFound (slot E t d name))"

text \<open>Opening a directory follows links, each component inside the root.\<close>

primrec walk_to :: "env \<Rightarrow> tree \<Rightarrow> nat \<Rightarrow> string list \<Rightarrow> IoError + nat" where
  "walk_to E t d [] = Inr d"
| "walk_to E t d (c # cs) = (case slot E t d c of
      None \<Rightarrow> Inl NotFound
    | Some (SubDir i) \<Rightarrow> walk_to E t i cs
    | Some (Symlink (Some (ToDir i))) \<Rightarrow> walk_to E t i cs
    | Some _ \<Rightarrow> Inl NotADirectory)"

definition open_dir :: "env \<Rightarrow> nat \<Rightarrow> string list \<Rightarrow> (world, IoError, nat) action" where
  "open_dir E d path = io_read E (\<lambda>t. walk_to E t d path)"

text \<open>Opening for reading succeeds on a directory too; what was opened is told by its metadata.\<close>

definition open_file :: "env \<Rightarrow> nat \<Rightarrow> string list \<Rightarrow> (world, IoError, link_target) action" where
  "open_file E d path = io_read E (\<lambda>t.
    bindE (walk_to E t d (butlast path)) (\<lambda>p.
    case slot E t p (last path) of
      None \<Rightarrow> Inl NotFound
    | Some (Regular i) \<Rightarrow> Inr (ToFile i)
    | Some (SubDir i) \<Rightarrow> Inr (ToDir i)
    | Some (Symlink (Some target)) \<Rightarrow> Inr target
    | Some (Symlink None) \<Rightarrow> Inl PermissionDenied
    | Some Special \<Rightarrow> Inl OtherIo))"

definition add_entry :: "nat \<Rightarrow> string \<Rightarrow> dir_entry \<Rightarrow> tree \<Rightarrow> tree" where
  "add_entry d name e t = (case om_get (t_dirs t) d of
      None \<Rightarrow> t
    | Some es \<Rightarrow> t\<lparr>t_dirs := om_insert d (es @ [(name, e)]) (t_dirs t)\<rparr>)"

definition drop_entry :: "env \<Rightarrow> nat \<Rightarrow> string \<Rightarrow> tree \<Rightarrow> tree" where
  "drop_entry E d name t = (case om_get (t_dirs t) d of
      None \<Rightarrow> t
    | Some es \<Rightarrow> t\<lparr>t_dirs := om_insert d (filter (\<lambda>x. ev_key E (fst x) \<noteq> ev_key E name) es) (t_dirs t)\<rparr>)"

definition create_dir :: "env \<Rightarrow> nat \<Rightarrow> string \<Rightarrow> (world, IoError, unit) action" where
  "create_dir E d name = io E (\<lambda>t.
    if om_get (t_dirs t) d = None then Inl NotADirectory
    else if slot E t d name \<noteq> None then Inl AlreadyExists
    else Inr ((), add_entry d name (SubDir (t_next t))
           (t\<lparr>t_dirs := om_insert (t_next t) [] (t_dirs t), t_next := Suc (t_next t)\<rparr>)))"

text \<open>\<open>OpenOptions::new().write(true).create_new(true)\<close>\<close>

definition create_new :: "env \<Rightarrow> nat \<Rightarrow> string \<Rightarrow> (world, IoError, nat) action" where
  "create_new E d name = io E (\<lambda>t.
    if om_get (t_dirs t) d = None then Inl NotADirectory
    else if slot E t d name \<noteq> None then Inl AlreadyExists
    else Inr (t_next t, add_entry d name (Regular (t_next t))
           (t\<lparr>t_files := om_insert (t_next t) \<lparr>fd_bytes = [], fd_mtime = 0, fd_mtime_nsec = 0, fd_ctime = 0, fd_ctime_nsec = 0\<rparr>
               (t_files t), t_next := Suc (t_next t)\<rparr>)))"

definition update_file :: "nat \<Rightarrow> (file_data \<Rightarrow> file_data) \<Rightarrow> tree \<Rightarrow> tree" where
  "update_file i f t = (case om_get (t_files t) i of
      None \<Rightarrow> t
    | Some fd \<Rightarrow> t\<lparr>t_files := om_insert i (f fd) (t_files t)\<rparr>)"

text \<open>A failed write may have written a prefix.\<close>

definition write_all :: "env \<Rightarrow> nat \<Rightarrow> byte list \<Rightarrow> (world, IoError, unit) action" where
  "write_all E i v w =
    (let w' = w\<lparr>w_tick := Suc (w_tick w)\<rparr>;
         put = (\<lambda>v. w'\<lparr>w_tree := update_file i (\<lambda>fd. fd\<lparr>fd_bytes := fd_bytes fd @ v\<rparr>) (w_tree w)\<rparr>) in
     case ev_fault E (w_tick w) of
       Some (e, n) \<Rightarrow> (Inl e, put (take n v))
     | None \<Rightarrow> (Inr (), put v))"

definition set_file_times :: "env \<Rightarrow> nat \<Rightarrow> i64 \<Rightarrow> i64 \<Rightarrow> (world, IoError, unit) action" where
  "set_file_times E i sec nsec = io E (\<lambda>t. Inr ((), update_file i (\<lambda>fd. fd\<lparr>fd_mtime := sec, fd_mtime_nsec := nsec\<rparr>) t))"

definition file_metadata :: "env \<Rightarrow> nat \<Rightarrow> (world, IoError, file_data) action" where
  "file_metadata E i = io_read E (\<lambda>t. ok_or NotFound (file_of t i))"

text \<open>
  \<open>Dir::rename(from, to, path)\<close>: the entry is moved over whatever is at the destination, which must not be a
  directory; the last component is not followed.
\<close>

definition rename :: "env \<Rightarrow> nat \<Rightarrow> string \<Rightarrow> nat \<Rightarrow> string list \<Rightarrow> (world, IoError, unit) action" where
  "rename E d from root path = io E (\<lambda>t.
    bindE (ok_or NotFound (slot E t d from)) (\<lambda>e.
    bindE (walk_to E t root (butlast path)) (\<lambda>p.
    if om_get (t_dirs t) p = None then Inl NotADirectory
    else case slot E t p (last path) of
      Some (SubDir i) \<Rightarrow> Inl IsADirectory
    | _ \<Rightarrow> Inr ((), add_entry p (last path) e (drop_entry E p (last path) (drop_entry E d from t))))))"

definition remove_file :: "env \<Rightarrow> nat \<Rightarrow> string \<Rightarrow> (world, IoError, unit) action" where
  "remove_file E d name = io E (\<lambda>t. case slot E t d name of
      None \<Rightarrow> Inl NotFound
    | Some (SubDir i) \<Rightarrow> Inl IsADirectory
    | Some _ \<Rightarrow> Inr ((), drop_entry E d name t))"

text \<open>Calls that only reach the disk: \<open>flush\<close>, \<open>sync_all\<close>, \<open>seek\<close>, \<open>try_clone\<close>.\<close>

definition io_noop :: "env \<Rightarrow> (world, IoError, unit) action" where
  "io_noop E = io_read E (\<lambda>t. Inr ())"

section \<open>Stable roots\<close>

datatype StableRootError = Io IoError | Unstable

record StableRoot =
  sr_directory :: nat
  sr_resolved_path :: os_path

definition OPEN_ATTEMPTS :: nat where "OPEN_ATTEMPTS = 8"

definition open_ambient_dir :: "env \<Rightarrow> os_path \<Rightarrow> (world, IoError, nat) action" where
  "open_ambient_dir E path w = io_read E (\<lambda>t. bindE (ev_root E (w_tick w) path) (\<lambda>(_, d). Inr d)) w"

definition canonicalize :: "env \<Rightarrow> os_path \<Rightarrow> (world, IoError, os_path) action" where
  "canonicalize E path w = io_read E (\<lambda>t. bindE (ev_root E (w_tick w) path) (\<lambda>(p, _). Inr p)) w"

text \<open>Identity of a directory is its device and inode number, here the handle itself.\<close>

definition dir_metadata :: "env \<Rightarrow> nat \<Rightarrow> (world, IoError, nat) action" where
  "dir_metadata E d = io_read E (\<lambda>t. Inr d)"

primrec open_stable_root_attempts ::
  "env \<Rightarrow> os_path \<Rightarrow> (world, IoError, unit) action \<Rightarrow> nat \<Rightarrow> IoError option \<Rightarrow> (world, StableRootError, StableRoot) action" where
  "open_stable_root_attempts E path hook 0 last_open_error =
    (case last_open_error of Some e \<Rightarrow> throwS (StableRootError.Io e) | None \<Rightarrow> throwS Unstable)"
| "open_stable_root_attempts E path hook (Suc n) last_open_error =
    catchS (open_ambient_dir E path) (\<lambda>r. case r of
      Inl e \<Rightarrow> open_stable_root_attempts E path hook n (Some e)
    | Inr configured \<Rightarrow>
        bindS (mapErrS StableRootError.Io (dir_metadata E configured)) (\<lambda>configured_metadata.
        bindS (mapErrS StableRootError.Io hook) (\<lambda>_.
        bindS (mapErrS (\<lambda>_. Unstable) (canonicalize E path)) (\<lambda>resolved_path.
        bindS (mapErrS (\<lambda>_. Unstable) (open_ambient_dir E resolved_path)) (\<lambda>resolved_directory.
        bindS (mapErrS (\<lambda>_. Unstable) (dir_metadata E resolved_directory)) (\<lambda>resolved_metadata.
        bindS (mapErrS (\<lambda>_. Unstable) (canonicalize E path)) (\<lambda>resolved_after.
        if resolved_path = resolved_after \<and> configured_metadata = resolved_metadata
        then returnS \<lparr>sr_directory = configured, sr_resolved_path = resolved_path\<rparr>
        else throwS Unstable)))))))"

definition open_stable_root_with_hook ::
  "env \<Rightarrow> os_path \<Rightarrow> (world, IoError, unit) action \<Rightarrow> (world, StableRootError, StableRoot) action" where
  "open_stable_root_with_hook E path hook = open_stable_root_attempts E path hook OPEN_ATTEMPTS None"

section \<open>Times\<close>

definition i64_saturating_mul :: "i64 \<Rightarrow> i64 \<Rightarrow> i64" where
  "i64_saturating_mul a b = i64_saturating (sint a * sint b)"

definition metadata_time_ns :: "file_data \<Rightarrow> i64" where
  "metadata_time_ns md = i64_saturating_add (i64_saturating_mul (fd_mtime md) 1000000000) (fd_mtime_nsec md)"

text \<open>\<open>i64::try_from(duration.as_nanos()).unwrap_or(i64::MAX)\<close>\<close>

definition duration_ns :: "nat \<Rightarrow> i64" where
  "duration_ns nanos = (if nanos < 2 ^ 63 then of_nat nanos else 2 ^ 63 - 1)"

end
