(* ===== verification/Installer.thy ===== *)
theory Installer
  imports Local_Files
begin

text \<open>
  \<open>installer.rs\<close>: a received file is written to a temporary name at the collection root, verified against the size
  and hash its record declares, and renamed over its destination; the outcome is then recorded in the state
  store. The reader is the bytes it delivers, in full buffers; a hook runs at each stage as in the source, and
  the environment can fail every call.
\<close>

datatype InstallStage =
    DuringRootAcquisition | BeforeAncestorSync | BeforeWrite | AfterWrite | BeforeMetadata | BeforeFileSync
  | BeforeRename | AfterRename

record InstalledFile =
  if_path :: os_path
  if_resolved_root :: os_path
  if_fingerprint :: FileFingerprint

datatype InstallError =
    Io IoError
  | Tombstone
  | NotTombstone
  | UnsafeDestination
  | LocalNameCollision
  | UnstableRoot
  | SizeMismatch
  | HashMismatch
  | Random
  | TemporaryName
  | Timestamp
  | PostRenameDurability InstalledFile IoError
  | PostRenameState InstalledFile StateError
  | State StateError

type_synonym install_hook = "InstallStage \<Rightarrow> (world, IoError, unit) action"

section \<open>Paths under the root\<close>

definition path_components :: "Record \<Rightarrow> string list" where
  "path_components r = split_on (CHR ''/'') (as_str (r_path r))"

definition parent_relative :: "Record \<Rightarrow> string list" where
  "parent_relative r = butlast (path_components r)"

definition file_name :: "Record \<Rightarrow> string" where
  "file_name r = last (path_components r)"

text \<open>\<open>Component::Normal\<close>\<close>

definition normal_component :: "string \<Rightarrow> bool" where
  "normal_component c \<longleftrightarrow> c \<noteq> [] \<and> c \<noteq> ''.'' \<and> c \<noteq> ''..''"

definition os_join :: "os_path \<Rightarrow> string \<Rightarrow> os_path" where
  "os_join root relative =
    (if root = [] \<or> last root = 47 then root @ as_bytes relative else root @ [47] @ as_bytes relative)"

definition exact_entry_exists :: "env \<Rightarrow> nat \<Rightarrow> string \<Rightarrow> (world, InstallError, bool) action" where
  "exact_entry_exists E parent name =
    bindS (mapErrS InstallError.Io (entries E parent)) (\<lambda>es. returnS (\<exists>x \<in> set es. fst x = name))"

definition sync_dir :: "env \<Rightarrow> nat \<Rightarrow> (world, IoError, unit) action" where
  "sync_dir E d = bindS (open_dir E d []) (\<lambda>_. io_noop E)"

primrec ensure_safe_parent_from ::
  "env \<Rightarrow> install_hook \<Rightarrow> nat \<Rightarrow> nat \<Rightarrow> string list \<Rightarrow> string list \<Rightarrow> (world, InstallError, unit) action" where
  "ensure_safe_parent_from E hook root current logical [] = returnS ()"
| "ensure_safe_parent_from E hook root current logical (c # cs) =
    (if \<not> normal_component c then throwS UnsafeDestination
     else
       bindS (exact_entry_exists E current c) (\<lambda>found.
       if found
       then
         bindS (mapErrS (\<lambda>_. UnsafeDestination) (open_dir E root (logical @ [c]))) (\<lambda>opened.
         ensure_safe_parent_from E hook root opened (logical @ [c]) cs)
       else
         catchS (symlink_metadata E current c) (\<lambda>r. case r of
           Inr _ \<Rightarrow> throwS LocalNameCollision
         | Inl NotFound \<Rightarrow>
             bindS (mapErrS InstallError.Io (create_dir E current c)) (\<lambda>_.
             bindS (mapErrS InstallError.Io (open_dir E current [c])) (\<lambda>created.
             bindS (mapErrS InstallError.Io (hook BeforeAncestorSync)) (\<lambda>_.
             bindS (mapErrS InstallError.Io (sync_dir E created)) (\<lambda>_.
             bindS (mapErrS InstallError.Io (sync_dir E current)) (\<lambda>_.
             ensure_safe_parent_from E hook root created (logical @ [c]) cs)))))
         | Inl e \<Rightarrow> throwS (InstallError.Io e))))"

definition ensure_safe_parent ::
  "env \<Rightarrow> nat \<Rightarrow> string list \<Rightarrow> install_hook \<Rightarrow> (world, InstallError, unit) action" where
  "ensure_safe_parent E root relative hook =
    bindS (mapErrS InstallError.Io (io_noop E)) (\<lambda>_. ensure_safe_parent_from E hook root root [] relative)"

primrec open_existing_from ::
  "env \<Rightarrow> nat \<Rightarrow> nat \<Rightarrow> string list \<Rightarrow> string list \<Rightarrow> (world, InstallError, nat option) action" where
  "open_existing_from E root current logical [] = returnS (Some current)"
| "open_existing_from E root current logical (c # cs) =
    (if \<not> normal_component c then throwS UnsafeDestination
     else
       bindS (exact_entry_exists E current c) (\<lambda>found.
       if \<not> found then returnS None
       else
         bindS (mapErrS (\<lambda>_. UnsafeDestination) (open_dir E root (logical @ [c]))) (\<lambda>opened.
         open_existing_from E root opened (logical @ [c]) cs)))"

definition open_existing_safe_parent :: "env \<Rightarrow> nat \<Rightarrow> string list \<Rightarrow> (world, InstallError, nat option) action" where
  "open_existing_safe_parent E root relative =
    bindS (mapErrS InstallError.Io (io_noop E)) (\<lambda>_. open_existing_from E root root [] relative)"

definition open_relative_dir :: "env \<Rightarrow> nat \<Rightarrow> string list \<Rightarrow> (world, IoError, nat) action" where
  "open_relative_dir E root relative =
    (if relative = [] then bindS (io_noop E) (\<lambda>_. returnS root) else open_dir E root relative)"

definition reject_concrete_collision ::
  "env \<Rightarrow> nat \<Rightarrow> string list \<Rightarrow> string \<Rightarrow> (world, InstallError, unit) action" where
  "reject_concrete_collision E root relative name =
    bindS (mapErrS InstallError.Io (open_relative_dir E root relative)) (\<lambda>parent.
    bindS (exact_entry_exists E parent name) (\<lambda>found.
    if found then returnS ()
    else catchS (symlink_metadata E parent name) (\<lambda>r. case r of
        Inr _ \<Rightarrow> throwS LocalNameCollision
      | Inl NotFound \<Rightarrow> returnS ()
      | Inl e \<Rightarrow> throwS (InstallError.Io e))))"

section \<open>Temporary names\<close>

fun decimal :: "nat \<Rightarrow> string" where
  "decimal n = (if n < 10 then [char_of (48 + n)] else decimal (n div 10) @ [char_of (48 + n mod 10)])"

declare decimal.simps [simp del]

definition temporary_format :: "nat \<Rightarrow> u64 \<Rightarrow> string" where
  "temporary_format pid random = ''.skillsync-tmp-'' @ decimal pid @ ''-'' @ decimal (unat random)"

definition getrandom :: "env \<Rightarrow> (world, IoError, u64) action" where
  "getrandom E w = io_read E (\<lambda>t. Inr (ev_random E (w_tick w))) w"

primrec temporary_name_attempts :: "env \<Rightarrow> nat \<Rightarrow> nat \<Rightarrow> (world, InstallError, string) action" where
  "temporary_name_attempts E root 0 = throwS TemporaryName"
| "temporary_name_attempts E root (Suc n) =
    bindS (mapErrS (\<lambda>_. Random) (getrandom E)) (\<lambda>random.
    let name = temporary_format (ev_pid E) random in
    catchS (symlink_metadata E root name) (\<lambda>r. case r of
      Inl NotFound \<Rightarrow> returnS name
    | Inr _ \<Rightarrow> temporary_name_attempts E root n
    | Inl e \<Rightarrow> throwS (InstallError.Io e)))"

definition temporary_name :: "env \<Rightarrow> nat \<Rightarrow> (world, InstallError, string) action" where
  "temporary_name E root = temporary_name_attempts E root 16"

section \<open>Writing and verifying\<close>

text \<open>The remainder is never negative and below a thousand million, so its conversion to \<open>u32\<close> does not fail.\<close>

definition set_mtime :: "env \<Rightarrow> nat \<Rightarrow> i64 \<Rightarrow> (world, InstallError, unit) action" where
  "set_mtime E i modified_ns =
    (let seconds = sint modified_ns div 1000000000;
         nanos = sint modified_ns mod 1000000000 in
     mapErrS InstallError.Io (set_file_times E i (word_of_int seconds) (word_of_int nanos)))"

definition u64_saturating_add :: "u64 \<Rightarrow> u64 \<Rightarrow> u64" where
  "u64_saturating_add a b = (case u64_checked_add a b of None \<Rightarrow> - 1 | Some c \<Rightarrow> c)"

text \<open>The loop over \<open>limited.read(&mut buffer)\<close>; it returns the bytes hashed and their count.\<close>

function copy_loop ::
  "env \<Rightarrow> nat \<Rightarrow> u64 \<Rightarrow> u64 \<Rightarrow> byte list \<Rightarrow> byte list \<Rightarrow> (world, InstallError, byte list \<times> u64) action" where
  "copy_loop E i declared_size written hashed limited =
    bindS (mapErrS InstallError.Io (io_noop E)) (\<lambda>_.
    if limited = [] then returnS (hashed, written)
    else
      let chunk = take (64 * 1024) limited in
      case u64_checked_add written (of_nat (length chunk)) of
        None \<Rightarrow> throwS SizeMismatch
      | Some written \<Rightarrow>
          if written > declared_size then throwS SizeMismatch
          else
            bindS (mapErrS InstallError.Io (write_all E i chunk)) (\<lambda>_.
            copy_loop E i declared_size written (hashed @ chunk) (drop (64 * 1024) limited)))"
  by pat_completeness auto
termination by (relation "measure (\<lambda>(E, i, declared_size, written, hashed, limited). length limited)") auto

declare copy_loop.simps [simp del]

definition write_verified ::
  "env \<Rightarrow> crypto \<Rightarrow> install_hook \<Rightarrow> nat \<Rightarrow> i64 \<Rightarrow> u64 \<Rightarrow> bytes32 \<Rightarrow> byte list
     \<Rightarrow> (world, InstallError, FileFingerprint) action" where
  "write_verified E C hook i modified_ns declared_size declared_hash source_bytes =
    bindS (mapErrS InstallError.Io (hook BeforeWrite)) (\<lambda>_.
    bindS (copy_loop E i declared_size 0 [] (take (unat (u64_saturating_add declared_size 1)) source_bytes)) (\<lambda>(hashed, written).
    if written \<noteq> declared_size then throwS SizeMismatch
    else if c_blake3 C hashed \<noteq> declared_hash then throwS HashMismatch
    else
      bindS (mapErrS InstallError.Io (hook AfterWrite)) (\<lambda>_.
      bindS (mapErrS InstallError.Io (io_noop E)) (\<lambda>_.
      bindS (mapErrS InstallError.Io (hook BeforeMetadata)) (\<lambda>_.
      bindS (set_mtime E i modified_ns) (\<lambda>_.
      bindS (mapErrS InstallError.Io (hook BeforeFileSync)) (\<lambda>_.
      bindS (mapErrS InstallError.Io (io_noop E)) (\<lambda>_.
      bindS (mapErrS InstallError.Io (file_metadata E i)) (\<lambda>metadata.
      returnS \<lparr>fp_modified_ns = metadata_time_ns metadata, fp_size = of_nat (length (fd_bytes metadata)),
        fp_hash = declared_hash\<rparr>)))))))))"

section \<open>Installation\<close>

definition publish ::
  "env \<Rightarrow> install_hook \<Rightarrow> StableRoot \<Rightarrow> Record \<Rightarrow> string \<Rightarrow> FileFingerprint \<Rightarrow> (world, InstallError, InstalledFile) action" where
  "publish E hook root record temporary fingerprint =
    (let root_dir = sr_directory root in
     bindS (mapErrS InstallError.Io (hook BeforeRename)) (\<lambda>_.
     bindS (ensure_safe_parent E root_dir (parent_relative record) hook) (\<lambda>_.
     bindS (reject_concrete_collision E root_dir (parent_relative record) (file_name record)) (\<lambda>_.
     bindS (mapErrS InstallError.Io (rename E root_dir temporary root_dir (path_components record))) (\<lambda>_.
     let installed = \<lparr>if_path = os_join (sr_resolved_path root) (as_str (r_path record)),
           if_resolved_root = sr_resolved_path root, if_fingerprint = fingerprint\<rparr> in
     catchS (bindS (hook AfterRename) (\<lambda>_. bindS (open_relative_dir E root_dir (parent_relative record)) (sync_dir E)))
       (\<lambda>r. case r of Inl e \<Rightarrow> throwS (PostRenameDurability installed e) | Inr _ \<Rightarrow> returnS installed))))))"

definition install_temporary ::
  "env \<Rightarrow> crypto \<Rightarrow> install_hook \<Rightarrow> StableRoot \<Rightarrow> Record \<Rightarrow> u64 \<Rightarrow> bytes32 \<Rightarrow> string \<Rightarrow> byte list
     \<Rightarrow> (world, InstallError, InstalledFile) action" where
  "install_temporary E C hook root record declared_size declared_hash temporary source_bytes =
    bindS (mapErrS InstallError.Io (create_new E (sr_directory root) temporary)) (\<lambda>temporary_file.
    bindS (write_verified E C hook temporary_file (r_modified_ns record) declared_size declared_hash source_bytes)
      (publish E hook root record temporary))"

definition is_post_rename :: "InstallError + 'a \<Rightarrow> bool" where
  "is_post_rename r = (case r of Inl (PostRenameDurability _ _) \<Rightarrow> True | _ \<Rightarrow> False)"

definition open_root :: "env \<Rightarrow> os_path \<Rightarrow> (world, IoError, unit) action \<Rightarrow> (world, InstallError, StableRoot) action" where
  "open_root E root hook = mapErrS (\<lambda>e. case e of StableRootError.Io e \<Rightarrow> InstallError.Io e | Unstable \<Rightarrow> UnstableRoot)
     (open_stable_root_with_hook E root hook)"

definition install_file_with_hook ::
  "env \<Rightarrow> crypto \<Rightarrow> os_path \<Rightarrow> Record \<Rightarrow> byte list \<Rightarrow> install_hook \<Rightarrow> (world, InstallError, InstalledFile) action" where
  "install_file_with_hook E C root record source_bytes hook = (case r_kind record of
      RecordKind.Tombstone \<Rightarrow> throwS InstallError.Tombstone
    | RecordKind.File declared_size declared_hash \<Rightarrow>
        bindS (open_root E root (hook DuringRootAcquisition)) (\<lambda>stable.
        let root_dir = sr_directory stable in
        bindS (ensure_safe_parent E root_dir (parent_relative record) hook) (\<lambda>_.
        bindS (reject_concrete_collision E root_dir (parent_relative record) (file_name record)) (\<lambda>_.
        bindS (temporary_name E root_dir) (\<lambda>temporary.
        catchS (install_temporary E C hook stable record declared_size declared_hash temporary source_bytes) (\<lambda>result.
        bindS (if is_post_rename result then returnS ()
               else catchS (remove_file E root_dir temporary) (\<lambda>_. returnS ())) (\<lambda>_.
        liftS result)))))))"

definition install_file ::
  "env \<Rightarrow> crypto \<Rightarrow> os_path \<Rightarrow> Record \<Rightarrow> byte list \<Rightarrow> (world, InstallError, InstalledFile) action" where
  "install_file E C root record source_bytes = install_file_with_hook E C root record source_bytes (\<lambda>_. returnS ())"

definition apply_file_fixture_with_hook ::
  "env \<Rightarrow> crypto \<Rightarrow> json \<Rightarrow> os_path \<Rightarrow> Record \<Rightarrow> byte list \<Rightarrow> nat \<Rightarrow> install_hook
     \<Rightarrow> (world, InstallError, InstalledFile) action" where
  "apply_file_fixture_with_hook E C J root record source_bytes max_logs hook =
    (let collection = r_collection record; path = as_str (r_path record);
         mark = (\<lambda>installed event. bindS (now_ns E) (\<lambda>now.
           mapErrS (PostRenameState installed) (db (mark_materialized_and_log J collection path
             \<lparr>mf_resolved_root = if_resolved_root installed, mf_fingerprint = if_fingerprint installed\<rparr> now event max_logs)))) in
     catchS (install_file_with_hook E C root record source_bytes hook) (\<lambda>r. case r of
       Inr installed \<Rightarrow>
         bindS (mark installed (FileInstalled collection (r_path record))) (\<lambda>_. returnS installed)
     | Inl (PostRenameDurability installed e) \<Rightarrow>
         bindS (mark installed (FileApplyRejected collection (r_path record))) (\<lambda>_.
         throwS (PostRenameDurability installed e))
     | Inl UnstableRoot \<Rightarrow> throwS UnstableRoot
     | Inl e \<Rightarrow>
         bindS (now_ns E) (\<lambda>now.
         bindS (mapErrS State (db (mark_repair_required_and_log J collection path now
           (FileApplyRejected collection (r_path record)) max_logs))) (\<lambda>_.
         throwS e))))"

definition apply_file_fixture ::
  "env \<Rightarrow> crypto \<Rightarrow> json \<Rightarrow> os_path \<Rightarrow> Record \<Rightarrow> byte list \<Rightarrow> nat \<Rightarrow> (world, InstallError, InstalledFile) action" where
  "apply_file_fixture E C J root record source_bytes max_logs =
    apply_file_fixture_with_hook E C J root record source_bytes max_logs (\<lambda>_. returnS ())"

section \<open>Reading back and deleting\<close>

text \<open>
  The content of an open file when it is read from the start, as another program may have left it at that moment.
\<close>

definition read_content :: "env \<Rightarrow> nat \<Rightarrow> (world, IoError, file_data) action" where
  "read_content E i w = io_read E (\<lambda>t. bindE (ok_or NotFound (file_of t i)) (\<lambda>fd. Inr (ev_interfere E (w_tick w) i fd))) w"

definition open_verified_file ::
  "env \<Rightarrow> crypto \<Rightarrow> os_path \<Rightarrow> Record \<Rightarrow> (world, InstallError, nat) action" where
  "open_verified_file E C root record = (case r_kind record of
      RecordKind.Tombstone \<Rightarrow> throwS InstallError.Tombstone
    | RecordKind.File declared_size declared_hash \<Rightarrow>
        bindS (open_root E root (returnS ())) (\<lambda>stable.
        bindS (open_existing_safe_parent E (sr_directory stable) (parent_relative record)) (\<lambda>parent.
        if parent = None then throwS UnsafeDestination
        else
          bindS (mapErrS InstallError.Io (open_file E (sr_directory stable) (path_components record))) (\<lambda>opened.
          case opened of
            ToDir _ \<Rightarrow> bindS (mapErrS InstallError.Io (io_noop E)) (\<lambda>_. throwS SizeMismatch)
          | ToFile i \<Rightarrow>
              bindS (mapErrS InstallError.Io (read_content E i)) (\<lambda>metadata.
              if of_nat (length (fd_bytes metadata)) \<noteq> declared_size then throwS SizeMismatch
              else
                bindS (mapErrS InstallError.Io (read_content E i)) (\<lambda>content.
                if c_blake3 C (fd_bytes content) \<noteq> declared_hash then throwS HashMismatch
                else bindS (mapErrS InstallError.Io (io_noop E)) (\<lambda>_. returnS i)))))))"

definition materialize_tombstone ::
  "env \<Rightarrow> json \<Rightarrow> os_path \<Rightarrow> Record \<Rightarrow> nat \<Rightarrow> (world, InstallError, unit) action" where
  "materialize_tombstone E J root record max_logs =
    (if r_kind record \<noteq> RecordKind.Tombstone then throwS NotTombstone
     else
       bindS (open_root E root (returnS ())) (\<lambda>stable.
       bindS (open_existing_safe_parent E (sr_directory stable) (parent_relative record)) (\<lambda>parent.
       bindS (case parent of
           None \<Rightarrow> returnS ()
         | Some parent \<Rightarrow> catchS (remove_file E parent (file_name record)) (\<lambda>r. case r of
               Inr _ \<Rightarrow> mapErrS InstallError.Io (sync_dir E parent)
             | Inl NotFound \<Rightarrow> returnS ()
             | Inl e \<Rightarrow> throwS (InstallError.Io e))) (\<lambda>_.
       bindS (now_ns E) (\<lambda>now.
       mapErrS State (db (mark_tombstone_materialized_and_log J (r_collection record) (as_str (r_path record)) now
         (FileInstalled (r_collection record) (r_path record)) max_logs)))))))"

end
