(* ===== verification/Scanner.thy ===== *)
theory Scanner
  imports Installer
begin

text \<open>
  \<open>filesystem.rs\<close>: a scan of one collection root. The walk collects the regular files below the root, following links
  that stay inside it; the files are then reconciled with the winning records, and a winner whose file is gone
  becomes a tombstone. The compiled ignore patterns (crate \<open>globset\<close>) are the predicate \<open>sc_is_match\<close>, the Unicode
  tables the parameter \<open>U\<close>; the test hooks of the source do nothing here, as in the program. The walk carries the
  directories it is inside of, so it stops at a cycle; its depth bound is one more than the number of
  directories, which is shown to be enough.
\<close>

definition INTERNAL_PREFIX :: string where "INTERNAL_PREFIX = ''.skillsync-tmp-''"

record Scanner =
  sc_is_match :: "string \<Rightarrow> bool"
  sc_max_future_skew :: nat
  sc_max_logs :: nat

record ScanSummary =
  ss_files :: nat
  ss_accepted :: nat
  ss_tombstones :: nat
  ss_rejected :: nat
  ss_repair_required :: nat
  ss_paused :: bool

definition empty_summary :: ScanSummary where
  "empty_summary = \<lparr>ss_files = 0, ss_accepted = 0, ss_tombstones = 0, ss_rejected = 0, ss_repair_required = 0, ss_paused = False\<rparr>"

datatype ScanError = Io IoError | Glob | UnstableRoot | Path PathError | Record RecordError | State StateError

record DiskFile =
  df_modified_ns :: i64
  df_size :: u64
  df_hash :: bytes32

definition disk_fingerprint :: "DiskFile \<Rightarrow> FileFingerprint" where
  "disk_fingerprint disk = \<lparr>fp_modified_ns = df_modified_ns disk, fp_size = df_size disk, fp_hash = df_hash disk\<rparr>"

record WalkContext =
  wc_root :: nat
  wc_collection :: string
  wc_paths :: LocalPathIndex
  wc_files :: "(ProtocolPath, DiskFile) omap"
  wc_excluded_prefixes :: "string list"
  wc_warnings :: "OperationalEvent list"

section \<open>The walk\<close>

definition is_ignored :: "Scanner \<Rightarrow> string \<Rightarrow> bool" where
  "is_ignored S path \<longleftrightarrow>
     (\<exists>component \<in> set (split_on (CHR ''/'') path). starts_with component INTERNAL_PREFIX) \<or> sc_is_match S path"

definition exclude :: "ProtocolPath option \<Rightarrow> CollectionIssue \<Rightarrow> WalkContext \<Rightarrow> WalkContext" where
  "exclude path issue c =
    (let c = (case path of None \<Rightarrow> c
          | Some p \<Rightarrow> c\<lparr>wc_excluded_prefixes := wc_excluded_prefixes c @ [as_str p]\<rparr>)
     in c\<lparr>wc_warnings := wc_warnings c @ [CollectionWarning (wc_collection c) path issue]\<rparr>)"

definition is_excluded :: "WalkContext \<Rightarrow> string \<Rightarrow> bool" where
  "is_excluded c path \<longleftrightarrow> (\<exists>prefix \<in> set (wc_excluded_prefixes c).
     path = prefix \<or> (starts_with path prefix \<and> starts_with (drop (length prefix) path) ''/''))"

definition join_components :: "string list \<Rightarrow> string" where
  "join_components cs = join_with (CHR ''/'') cs"

definition protocol_path :: "string list \<Rightarrow> PathError + ProtocolPath" where
  "protocol_path logical =
    (let text = join_components logical in if is_str text then parse text else Inl InvalidUtf8)"

definition insert_disk_file :: "unicode \<Rightarrow> ProtocolPath \<Rightarrow> DiskFile \<Rightarrow> WalkContext \<Rightarrow> ScanError + WalkContext" where
  "insert_disk_file U path disk c = (case local_path_index_insert U path (wc_paths c) of
      Inl error \<Rightarrow>
        (case error of Collision _ _ \<Rightarrow> Inr (exclude (Some path) PathRejected c) | _ \<Rightarrow> Inl (ScanError.Path error))
    | Inr paths \<Rightarrow> Inr (c\<lparr>wc_paths := paths, wc_files := om_insert path disk (wc_files c)\<rparr>))"

text \<open>Device and inode of one handle never differ, so the metadata of two moments is compared on the rest.\<close>

definition stable_metadata :: "file_data \<Rightarrow> file_data \<Rightarrow> bool" where
  "stable_metadata before after \<longleftrightarrow>
     length (fd_bytes before) = length (fd_bytes after)
     \<and> fd_mtime before = fd_mtime after \<and> fd_mtime_nsec before = fd_mtime_nsec after
     \<and> fd_ctime before = fd_ctime after \<and> fd_ctime_nsec before = fd_ctime_nsec after"

primrec stable_file_attempts ::
  "env \<Rightarrow> crypto \<Rightarrow> (world, IoError, link_target) action \<Rightarrow> nat \<Rightarrow> (world, ScanError, DiskFile option) action" where
  "stable_file_attempts E C opener 0 = returnS None"
| "stable_file_attempts E C opener (Suc n) =
    bindS (mapErrS ScanError.Io opener) (\<lambda>opened. case opened of
      ToDir _ \<Rightarrow> bindS (mapErrS ScanError.Io (io_noop E)) (\<lambda>_. returnS None)
    | ToFile i \<Rightarrow>
        bindS (mapErrS ScanError.Io (read_content E i)) (\<lambda>before.
        bindS (mapErrS ScanError.Io (read_content E i)) (\<lambda>content.
        bindS (mapErrS ScanError.Io (read_content E i)) (\<lambda>after.
        if stable_metadata before after
        then returnS (Some \<lparr>df_modified_ns = metadata_time_ns after, df_size = of_nat (length (fd_bytes after)),
               df_hash = c_blake3 C (fd_bytes content)\<rparr>)
        else stable_file_attempts E C opener n))))"

definition stable_file ::
  "env \<Rightarrow> crypto \<Rightarrow> (world, IoError, link_target) action \<Rightarrow> (world, ScanError, DiskFile option) action" where
  "stable_file E C opener = stable_file_attempts E C opener 3"

text \<open>
  The state of the walk is the world with the context. \<open>on_world\<close> runs a call of the world, \<open>on_context\<close> changes the
  context.
\<close>

type_synonym 'a walk = "(world \<times> WalkContext, ScanError option, 'a) action"

definition on_world :: "(world, ScanError, 'a) action \<Rightarrow> 'a walk" where
  "on_world m s = (case m (fst s) of (r, w) \<Rightarrow> (mapErr Some r, (w, snd s)))"

definition on_context :: "(WalkContext \<Rightarrow> WalkContext) \<Rightarrow> unit walk" where
  "on_context f s = (Inr (), (fst s, f (snd s)))"

definition walk_insert :: "unicode \<Rightarrow> ProtocolPath \<Rightarrow> DiskFile \<Rightarrow> unit walk" where
  "walk_insert U path disk s = (case insert_disk_file U path disk (snd s) of
      Inl e \<Rightarrow> (Inl (Some e), s)
    | Inr c \<Rightarrow> (Inr (), (fst s, c)))"

definition io_walk :: "(world, IoError, 'a) action \<Rightarrow> 'a walk" where
  "io_walk m = on_world (mapErrS ScanError.Io m)"

text \<open>
  \<open>resolve_symlink\<close> fails on a link that dangles or leaves the root. \<open>.ok()\<close> turns a failure into nothing.
\<close>

definition resolve_symlink :: "env \<Rightarrow> link_target option \<Rightarrow> (world, IoError, link_target) action" where
  "resolve_symlink E target = io_read E (\<lambda>t. ok_or PermissionDenied target)"

definition open_target_dir :: "env \<Rightarrow> link_target \<Rightarrow> (world, IoError, nat) action" where
  "open_target_dir E target = io_read E (\<lambda>t. case target of ToDir i \<Rightarrow> Inr i | ToFile i \<Rightarrow> Inl NotADirectory)"

definition walk_symlink ::
  "env \<Rightarrow> crypto \<Rightarrow> unicode \<Rightarrow> (nat \<Rightarrow> unit walk) \<Rightarrow> ProtocolPath \<Rightarrow> link_target option \<Rightarrow> unit walk" where
  "walk_symlink E C U walk_into protocol link =
    catchS (io_walk (resolve_symlink E link)) (\<lambda>target.
    catchS (case target of Inl e \<Rightarrow> throwS e | Inr t \<Rightarrow> io_walk (open_target_dir E t)) (\<lambda>target_dir.
    case target_dir of
      Inr d \<Rightarrow> walk_into d
    | Inl _ \<Rightarrow>
        (case target of
           Inl _ \<Rightarrow> on_context (exclude (Some protocol) SymlinkEscape)
         | Inr t \<Rightarrow>
             catchS (on_world (stable_file E C (io_read E (\<lambda>_. Inr t)))) (\<lambda>found. case found of
               Inr (Some disk) \<Rightarrow> walk_insert U protocol disk
             | _ \<Rightarrow> on_context (exclude (Some protocol) SymlinkEscape)))))"

definition walk_entry ::
  "env \<Rightarrow> crypto \<Rightarrow> unicode \<Rightarrow> Scanner \<Rightarrow> (nat \<Rightarrow> string list \<Rightarrow> unit walk) \<Rightarrow> string list \<Rightarrow> string \<times> dir_entry \<Rightarrow> unit walk" where
  "walk_entry E C U S walk_into logical x =
    (let logical_path = logical @ [fst x] in
     case protocol_path logical_path of
       Inl _ \<Rightarrow> on_context (exclude None PathRejected)
     | Inr protocol \<Rightarrow>
         if is_ignored S (as_str protocol) then returnS ()
         else
           bindS (io_walk (io_noop E)) (\<lambda>_. case snd x of
             Symlink link \<Rightarrow> walk_symlink E C U (\<lambda>d. walk_into d logical_path) protocol link
           | SubDir d \<Rightarrow> bindS (io_walk (io_noop E)) (\<lambda>_. walk_into d logical_path)
           | Regular i \<Rightarrow>
               bindS (on_world (stable_file E C (io_read E (\<lambda>_. Inr (ToFile i))))) (\<lambda>found. case found of
                 Some disk \<Rightarrow> walk_insert U protocol disk
               | None \<Rightarrow> on_context (exclude (Some protocol) PathRejected))
           | Special \<Rightarrow> returnS ()))"

primrec walk_directory ::
  "nat \<Rightarrow> env \<Rightarrow> crypto \<Rightarrow> unicode \<Rightarrow> Scanner \<Rightarrow> nat \<Rightarrow> string list \<Rightarrow> nat set \<Rightarrow> unit walk" where
  "walk_directory 0 E C U S d logical ancestors = throwS None"
| "walk_directory (Suc n) E C U S d logical ancestors =
    bindS (io_walk (dir_metadata E d)) (\<lambda>identity.
    if identity \<in> ancestors
    then on_context (exclude (case protocol_path logical of Inl _ \<Rightarrow> None | Inr p \<Rightarrow> Some p) SymlinkCycle)
    else
      bindS (io_walk (entries E d)) (\<lambda>es.
      forS (walk_entry E C U S (\<lambda>d logical. walk_directory n E C U S d logical (insert identity ancestors)) logical)
        (sort_key fst es)))"

section \<open>Filename comparison\<close>

definition probe_distinct_names :: "env \<Rightarrow> nat \<Rightarrow> string \<Rightarrow> string \<Rightarrow> (world, ScanError, bool) action" where
  "probe_distinct_names E root first_name second_name =
    bindS (mapErrS ScanError.Io (create_new E root first_name)) (\<lambda>_.
    catchS (create_new E root second_name) (\<lambda>r.
    let finish = (\<lambda>distinct. catchS (remove_file E root first_name) (\<lambda>_.
                  catchS (remove_file E root second_name) (\<lambda>_. returnS distinct))) in
    case r of
      Inr _ \<Rightarrow> finish True
    | Inl AlreadyExists \<Rightarrow> finish False
    | Inl e \<Rightarrow> catchS (remove_file E root first_name) (\<lambda>_. throwS (ScanError.Io e))))"

definition probe_filename_comparison_in :: "env \<Rightarrow> nat \<Rightarrow> (world, ScanError, FilenameComparison) action" where
  "probe_filename_comparison_in E root =
    bindS (now_ns E) (\<lambda>now.
    let token = decimal (ev_pid E) @ ''-'' @ decimal (nat \<bar>sint now\<bar>) in
    bindS (probe_distinct_names E root (INTERNAL_PREFIX @ token @ ''-case'') (INTERNAL_PREFIX @ token @ ''-CASE'')) (\<lambda>case_sensitive.
    bindS (probe_distinct_names E root (INTERNAL_PREFIX @ token @ ''-caf'' @ [CHR 0xC3, CHR 0xA9])
      (INTERNAL_PREFIX @ token @ ''-cafe'' @ [CHR 0xCC, CHR 0x81])) (\<lambda>normalization_sensitive.
    returnS (if case_sensitive \<and> normalization_sensitive then CaseSensitive
      else if \<not> case_sensitive \<and> normalization_sensitive then CaseInsensitive
      else if case_sensitive \<and> \<not> normalization_sensitive then NormalizationInsensitive
      else CaseAndNormalizationInsensitive))))"

definition cached_comparison :: "env \<Rightarrow> StableRoot \<Rightarrow> (world, ScanError, FilenameComparison) action" where
  "cached_comparison E root =
    bindS (queryS (\<lambda>w. Inr (om_get (w_comparisons w) (sr_resolved_path root)))) (\<lambda>cached.
    case cached of
      Some comparison \<Rightarrow> returnS comparison
    | None \<Rightarrow>
        bindS (probe_filename_comparison_in E (sr_directory root)) (\<lambda>comparison w.
          (Inr comparison, w\<lparr>w_comparisons := om_insert (sr_resolved_path root) comparison (w_comparisons w)\<rparr>)))"

section \<open>Reconciliation\<close>

definition disk_matches_record :: "DiskFile \<Rightarrow> Record \<Rightarrow> bool" where
  "disk_matches_record disk record = (case r_kind record of
      RecordKind.File len hash \<Rightarrow>
        df_modified_ns disk = r_modified_ns record \<and> df_size disk = len \<and> df_hash disk = hash
    | RecordKind.Tombstone \<Rightarrow> False)"

definition disk_bytes_match_record :: "DiskFile \<Rightarrow> Record \<Rightarrow> bool" where
  "disk_bytes_match_record disk record = (case r_kind record of
      RecordKind.File len hash \<Rightarrow> df_size disk = len \<and> df_hash disk = hash
    | RecordKind.Tombstone \<Rightarrow> False)"

definition is_file :: "Record \<Rightarrow> bool" where
  "is_file record = (case r_kind record of RecordKind.File _ _ \<Rightarrow> True | RecordKind.Tombstone \<Rightarrow> False)"

type_synonym 'a scan = "(StateStore \<times> ScanSummary, ScanError, 'a) action"

definition scan_db :: "(StateStore, StateError, 'a) action \<Rightarrow> 'a scan" where
  "scan_db m s = (case m (fst s) of (r, t) \<Rightarrow> (mapErr State r, (t, snd s)))"

definition count :: "(ScanSummary \<Rightarrow> ScanSummary) \<Rightarrow> unit scan" where
  "count f s = (Inr (), (fst s, f (snd s)))"

definition rejected_one :: "ScanSummary \<Rightarrow> ScanSummary" where
  "rejected_one v = v\<lparr>ss_rejected := ss_rejected v + 1\<rparr>"

definition repair_one :: "ScanSummary \<Rightarrow> ScanSummary" where
  "repair_one v = v\<lparr>ss_repair_required := ss_repair_required v + 1\<rparr>"

definition accepted_one :: "ScanSummary \<Rightarrow> ScanSummary" where
  "accepted_one v = v\<lparr>ss_accepted := ss_accepted v + 1\<rparr>"

definition tombstone_one :: "ScanSummary \<Rightarrow> ScanSummary" where
  "tombstone_one v = v\<lparr>ss_tombstones := ss_tombstones v + 1\<rparr>"

definition materialized_fingerprints :: "PathRecordState list \<Rightarrow> (string, FileFingerprint) omap" where
  "materialized_fingerprints current = om_of_list (List.map_filter (\<lambda>r.
     map_option (\<lambda>f. (as_str (r_path (ps_record r)), f)) (ps_materialized_fingerprint r)) current)"

definition scan_future_file ::
  "json \<Rightarrow> Scanner \<Rightarrow> string \<Rightarrow> i64 \<Rightarrow> PathRecordState list \<Rightarrow> ProtocolPath \<Rightarrow> DiskFile \<Rightarrow> unit scan" where
  "scan_future_file J S collection observed_ns current path disk =
    (let event = CollectionWarning collection (Some path) TimestampRejected;
         diverged_materialized_winner = (\<exists>winner \<in> set current. r_path (ps_record winner) = path
           \<and> ps_materialized winner \<and> \<not> disk_bytes_match_record disk (ps_record winner)) in
     bindS (if diverged_materialized_winner
            then bindS (scan_db (mark_repair_required_and_log J collection (as_str path) observed_ns event (sc_max_logs S)))
              (\<lambda>_. count repair_one)
            else scan_db (append_log J observed_ns event (sc_max_logs S))) (\<lambda>_.
     count rejected_one))"

definition scan_present_file ::
  "crypto \<Rightarrow> json \<Rightarrow> Scanner \<Rightarrow> string \<Rightarrow> EndpointId \<Rightarrow> i64 \<Rightarrow> PathRecordState list \<Rightarrow> ProtocolPath \<Rightarrow> DiskFile \<Rightarrow> unit scan" where
  "scan_present_file C J S collection author observed_ns current path disk =
    bindS (liftS (mapErr ScanError.Record (record_file collection path (df_modified_ns disk) author (df_size disk) (df_hash disk)))) (\<lambda>candidate.
    bindS (scan_db (queryS (lookup_record C collection (as_str path)))) (\<lambda>known. case known of
      Some winner \<Rightarrow>
        let fingerprint = disk_fingerprint disk;
            durable_match = (om_get (materialized_fingerprints current) (as_str path) = Some fingerprint) in
        if durable_match \<or> disk_matches_record disk winner
        then scan_db (set_materialized_fingerprint collection (as_str path) fingerprint)
        else
          bindS (scan_db (merge_record C J candidate observed_ns None (sc_max_logs S))) (\<lambda>merged.
          if \<not> merged
          then
            bindS (if is_file winner
                   then bindS (scan_db (mark_repair_required_and_log J collection (as_str path) observed_ns
                       (RepairRequired collection path) (sc_max_logs S))) (\<lambda>_. count repair_one)
                   else returnS ()) (\<lambda>_.
            count rejected_one)
          else count accepted_one)
    | None \<Rightarrow>
        bindS (scan_db (merge_record C J candidate observed_ns None (sc_max_logs S))) (\<lambda>_. count accepted_one)))"

definition scan_file ::
  "crypto \<Rightarrow> json \<Rightarrow> Scanner \<Rightarrow> string \<Rightarrow> EndpointId \<Rightarrow> i64 \<Rightarrow> PathRecordState list \<Rightarrow> ProtocolPath \<times> DiskFile \<Rightarrow> unit scan" where
  "scan_file C J S collection author observed_ns current x = (case x of (path, disk) \<Rightarrow>
    let future_limit = i64_saturating_add observed_ns (duration_ns (sc_max_future_skew S)) in
    if sint (df_modified_ns disk) > sint future_limit
    then scan_future_file J S collection observed_ns current path disk
    else scan_present_file C J S collection author observed_ns current path disk)"

definition i64_max :: "i64 \<Rightarrow> i64 \<Rightarrow> i64" where
  "i64_max a b = (if sint a \<ge> sint b then a else b)"

definition scan_missing ::
  "crypto \<Rightarrow> json \<Rightarrow> Scanner \<Rightarrow> WalkContext \<Rightarrow> EndpointId \<Rightarrow> i64 \<Rightarrow> PathRecordState \<Rightarrow> unit scan" where
  "scan_missing C J S context author observed_ns winner_state =
    (let winner = ps_record winner_state; collection = wc_collection context in
     if \<not> is_file winner \<or> \<not> ps_materialized winner_state \<or> om_contains (wc_files context) (r_path winner)
        \<or> is_ignored S (as_str (r_path winner)) \<or> is_excluded context (as_str (r_path winner))
     then returnS ()
     else
       let modified_ns = i64_max observed_ns (i64_saturating_add (r_modified_ns winner) 1) in
       bindS (liftS (mapErr ScanError.Record (record_tombstone collection (r_path winner) modified_ns author))) (\<lambda>tombstone.
       bindS (scan_db (merge_record C J tombstone observed_ns None (sc_max_logs S))) (\<lambda>merged.
       if merged then count tombstone_one else returnS ())))"

text \<open>What follows the walk: everything the scan writes to the store.\<close>

definition reconcile ::
  "crypto \<Rightarrow> json \<Rightarrow> Scanner \<Rightarrow> CollectionState \<Rightarrow> os_path \<Rightarrow> WalkContext \<Rightarrow> EndpointId \<Rightarrow> i64 \<Rightarrow> unit scan" where
  "reconcile C J S collection resolved_root context author observed_ns =
    bindS (scan_db (complete_collection_scan (cs_name collection) (cs_local_path collection) resolved_root)) (\<lambda>_.
    bindS (forS (\<lambda>warning. scan_db (append_log J observed_ns warning (sc_max_logs S))) (wc_warnings context)) (\<lambda>_.
    bindS (count (\<lambda>_. empty_summary\<lparr>ss_files := length (wc_files context)\<rparr>)) (\<lambda>_.
    bindS (scan_db (queryS (record_states C (cs_name collection)))) (\<lambda>current.
    bindS (forS (scan_file C J S (cs_name collection) author observed_ns current) (wc_files context)) (\<lambda>_.
    bindS (forS (scan_missing C J S context author observed_ns) current) (\<lambda>_.
    scan_db (append_log J observed_ns (CollectionScanned (cs_name collection)) (sc_max_logs S))))))))"

definition pause_collection ::
  "json \<Rightarrow> Scanner \<Rightarrow> CollectionState \<Rightarrow> CollectionScanStatus \<Rightarrow> i64 \<Rightarrow> (world, ScanError, ScanSummary) action" where
  "pause_collection J S collection status observed_ns =
    bindS (mapErrS State (db (set_collection_scan_status (cs_name collection) status))) (\<lambda>_.
    bindS (mapErrS State (db (append_log J observed_ns (CollectionPaused (cs_name collection)) (sc_max_logs S)))) (\<lambda>_.
    returnS (empty_summary\<lparr>ss_paused := True\<rparr>)))"

definition walk_root ::
  "env \<Rightarrow> crypto \<Rightarrow> unicode \<Rightarrow> Scanner \<Rightarrow> string \<Rightarrow> nat \<Rightarrow> FilenameComparison \<Rightarrow> (world, ScanError, WalkContext) action" where
  "walk_root E C U S collection root comparison w =
    (let context = \<lparr>wc_root = root, wc_collection = collection, wc_paths = local_path_index_new comparison,
           wc_files = [], wc_excluded_prefixes = [], wc_warnings = []\<rparr> in
     case walk_directory (Suc (length (t_dirs (w_tree w)))) E C U S root [] {} (w, context) of
       (Inl e, (w', c)) \<Rightarrow> (Inl (the e), w')
     | (Inr _, (w', c)) \<Rightarrow> (Inr c, w'))"

definition run_scan :: "unit scan \<Rightarrow> (world, ScanError, ScanSummary) action" where
  "run_scan m w = (case m (w_state w, empty_summary) of
      (Inl e, (s, v)) \<Rightarrow> (Inl e, w\<lparr>w_state := s\<rparr>)
    | (Inr _, (s, v)) \<Rightarrow> (Inr v, w\<lparr>w_state := s\<rparr>))"

definition scan_collection ::
  "env \<Rightarrow> crypto \<Rightarrow> json \<Rightarrow> unicode \<Rightarrow> Scanner \<Rightarrow> CollectionState \<Rightarrow> EndpointId \<Rightarrow> (world, ScanError, ScanSummary) action" where
  "scan_collection E C J U S collection author =
    bindS (now_ns E) (\<lambda>observed_ns.
    catchS (open_stable_root_with_hook E (cs_local_path collection) (returnS ())) (\<lambda>opened. case opened of
      Inl (StableRootError.Io NotADirectory) \<Rightarrow> pause_collection J S collection NotDirectory observed_ns
    | Inl (StableRootError.Io InvalidInput) \<Rightarrow> pause_collection J S collection NotDirectory observed_ns
    | Inl (StableRootError.Io NotFound) \<Rightarrow> pause_collection J S collection Missing observed_ns
    | Inl (StableRootError.Io e) \<Rightarrow> throwS (ScanError.Io e)
    | Inl Unstable \<Rightarrow> throwS ScanError.UnstableRoot
    | Inr root \<Rightarrow>
        bindS (cached_comparison E root) (\<lambda>comparison.
        bindS (walk_root E C U S (cs_name collection) (sr_directory root) comparison) (\<lambda>context.
        run_scan (reconcile C J S collection (sr_resolved_path root) context author observed_ns)))))"

end
