(* ===== verification/Installer_Props.thy ===== *)
theory Installer_Props
  imports Installer
begin

text \<open>
  What an installation can do to the local files, whatever call fails and whenever: \<open>grows\<close> is the relation between
  the tree before and after a phase that only adds, and the invariants of the phases are composed with the
  triples below, whose postcondition speaks of the returned value or error and of the world after.
\<close>

section \<open>Triples over actions\<close>

definition triple :: "('s \<Rightarrow> bool) \<Rightarrow> ('s, 'e, 'a) action \<Rightarrow> ('e + 'a \<Rightarrow> 's \<Rightarrow> bool) \<Rightarrow> bool" where
  "triple P m Q \<longleftrightarrow> (\<forall>s. P s \<longrightarrow> (case m s of (r, s') \<Rightarrow> Q r s'))"

lemma tripleD: "triple P m Q \<Longrightarrow> P s \<Longrightarrow> m s = (r, s') \<Longrightarrow> Q r s'"
  by (auto simp: triple_def dest!: spec [of _ s])

lemma tripleI: "(\<And>s r s'. P s \<Longrightarrow> m s = (r, s') \<Longrightarrow> Q r s') \<Longrightarrow> triple P m Q"
  by (auto simp: triple_def)

lemma triple_weaken: "triple P m Q \<Longrightarrow> (\<And>s. P' s \<Longrightarrow> P s) \<Longrightarrow> (\<And>r s. Q r s \<Longrightarrow> Q' r s) \<Longrightarrow> triple P' m Q'"
  by (rule tripleI) (blast dest: tripleD)

lemma triple_pure:
  "(\<And>s. P s \<Longrightarrow> Q (Inr a) s) \<Longrightarrow> triple P (returnS a) Q"
  "(\<And>s. P s \<Longrightarrow> Q (Inl e) s) \<Longrightarrow> triple P (throwS e) Q"
  "(\<And>s. P s \<Longrightarrow> Q r s) \<Longrightarrow> triple P (liftS r) Q"
  by (simp_all add: triple_def)

lemma triple_bindS:
  assumes "triple P m R" and "\<And>e s. R (Inl e) s \<Longrightarrow> Q (Inl e) s" and "\<And>a. triple (R (Inr a)) (f a) Q"
  shows "triple P (bindS m f) Q"
proof (rule tripleI)
  fix s r s' assume s: "P s" and m: "bindS m f s = (r, s')"
  obtain r1 s1 where 1: "m s = (r1, s1)" by fastforce
  with assms(1) s have R: "R r1 s1" by (rule tripleD)
  show "Q r s'"
  proof (cases r1)
    case (Inl e)
    with 1 m R assms(2) show ?thesis by (auto simp: bindS_def)
  next
    case (Inr a)
    with 1 m have "f a s1 = (r, s')" by (simp add: bindS_def)
    with assms(3) [of a] R Inr show ?thesis by (blast intro: tripleD)
  qed
qed

lemma triple_catchS:
  assumes "triple P m R" and "\<And>r. triple (R r) (f r) Q"
  shows "triple P (catchS m f) Q"
  using assms by (fastforce simp: triple_def catchS_def split: prod.splits)

lemma triple_mapErrS:
  "triple P m (\<lambda>r s. Q (mapErr g r) s) \<Longrightarrow> triple P (mapErrS g m) Q"
  by (auto simp: triple_def mapErrS_def split: prod.splits)

lemma triple_preserves: "preserves I m \<longleftrightarrow> triple I m (\<lambda>_. I)"
  by (simp add: triple_def preserves_def case_prod_beta)

lemma preserves_catchS [preserves_intros]:
  "preserves I m \<Longrightarrow> (\<And>r. preserves I (f r)) \<Longrightarrow> preserves I (catchS m f)"
  unfolding triple_preserves by (rule triple_catchS)

section \<open>Trees that only grow\<close>

definition tree_wf :: "tree \<Rightarrow> bool" where
  "tree_wf t \<longleftrightarrow> om_wf (t_dirs t) \<and> om_wf (t_files t)
     \<and> (\<forall>i \<ge> t_next t. om_get (t_dirs t) i = None \<and> om_get (t_files t) i = None)"

text \<open>Entries that are added are files and directories made for them.\<close>

definition is_dir :: "tree \<Rightarrow> nat \<Rightarrow> bool" where
  "is_dir t d \<longleftrightarrow> om_get (t_dirs t) d \<noteq> None"

definition new_entry :: "tree \<Rightarrow> dir_entry \<Rightarrow> bool" where
  "new_entry t e \<longleftrightarrow> (case e of SubDir d \<Rightarrow> \<not> is_dir t d | Regular _ \<Rightarrow> True | _ \<Rightarrow> False)"

definition grows :: "env \<Rightarrow> tree \<Rightarrow> tree \<Rightarrow> bool" where
  "grows E t t' \<longleftrightarrow> (\<forall>i fd. file_of t i = Some fd \<longrightarrow> file_of t' i = Some fd)
     \<and> (\<forall>d n e. slot E t d n = Some e \<longrightarrow> slot E t' d n = Some e) \<and> (\<forall>d. is_dir t d \<longrightarrow> is_dir t' d)
     \<and> (\<forall>d n e. slot E t' d n = Some e \<longrightarrow> slot E t d n = Some e \<or> new_entry t e)"

lemma grows_refl [simp]: "grows E t t"
  by (simp add: grows_def)

lemma new_entry_mono: "new_entry t' e \<Longrightarrow> grows E t t' \<Longrightarrow> new_entry t e"
  by (auto simp: new_entry_def grows_def split: dir_entry.splits)

lemma grows_trans:
  assumes "grows E t t'" and "grows E t' t''"
  shows "grows E t t''"
proof -
  have "slot E t d n = Some e \<or> new_entry t e" if "slot E t'' d n = Some e" for d n e
    using that assms new_entry_mono [OF _ assms(1)] unfolding grows_def by blast
  with assms show ?thesis unfolding grows_def by blast
qed

lemma slot_is_dir: "slot E t d n = Some e \<Longrightarrow> is_dir t d"
  by (auto simp: slot_def is_dir_def split: option.splits)

text \<open>A walk in the grown tree ends where it did, or in a directory that was made since.\<close>

lemma walk_to_fresh:
  assumes "grows E t t'"
  shows "\<not> is_dir t d \<Longrightarrow> walk_to E t' d cs = Inr p \<Longrightarrow> \<not> is_dir t p"
proof (induction cs arbitrary: d)
  case (Cons c cs)
  then obtain e where e: "slot E t' d c = Some e" by (cases "slot E t' d c") auto
  then have "new_entry t e" using assms Cons.prems(1) slot_is_dir [of E t d c] unfolding grows_def by blast
  with e Cons.prems(2) obtain j where "\<not> is_dir t j" "walk_to E t' j cs = Inr p"
    by (auto simp: new_entry_def split: dir_entry.splits)
  then show ?case by (rule Cons.IH)
qed simp

lemma walk_to_back:
  assumes "grows E t t'"
  shows "walk_to E t' d cs = Inr p \<Longrightarrow> walk_to E t d cs = Inr p \<or> \<not> is_dir t p"
proof (induction cs arbitrary: d)
  case (Cons c cs)
  then obtain e where e: "slot E t' d c = Some e" by (cases "slot E t' d c") auto
  then consider "slot E t d c = Some e" | "new_entry t e" using assms unfolding grows_def by blast
  then show ?case
  proof cases
    case 1
    with e Cons show ?thesis by (simp split: dir_entry.splits option.splits link_target.splits)
  next
    case 2
    with e Cons.prems obtain j where "\<not> is_dir t j" "walk_to E t' j cs = Inr p"
      by (auto simp: new_entry_def split: dir_entry.splits)
    then show ?thesis using walk_to_fresh [OF assms] by blast
  qed
qed simp

definition leads :: "dir_entry \<Rightarrow> bool" where
  "leads e \<longleftrightarrow> (case e of SubDir _ \<Rightarrow> True | Symlink (Some (ToDir _)) \<Rightarrow> True | _ \<Rightarrow> False)"

lemma walk_to_cong:
  assumes "\<And>d n e. slot E t d n = Some e \<Longrightarrow> leads e \<Longrightarrow> slot E t' d n = Some e"
  shows "walk_to E t d cs = Inr p \<Longrightarrow> walk_to E t' d cs = Inr p"
proof (induction cs arbitrary: d)
  case (Cons c cs)
  then obtain e where e: "slot E t d c = Some e" by (cases "slot E t d c") auto
  then have "leads e" using Cons.prems by (auto simp: leads_def split: dir_entry.splits option.splits link_target.splits)
  with e assms have "slot E t' d c = Some e" by blast
  with e Cons show ?case by (simp split: dir_entry.splits option.splits link_target.splits)
qed simp

lemma walk_to_grows: "grows E t t' \<Longrightarrow> walk_to E t d cs = Inr p \<Longrightarrow> walk_to E t' d cs = Inr p"
proof (induction cs arbitrary: d)
  case (Cons c cs)
  then obtain e where e: "slot E t d c = Some e" by (cases "slot E t d c") auto
  with Cons.prems(1) have "slot E t' d c = Some e" by (simp add: grows_def)
  with e Cons show ?case by (simp split: dir_entry.splits option.splits link_target.splits)
qed simp

lemma find_entry_append:
  "find_entry key n (es @ es') = (case find_entry key n es of None \<Rightarrow> find_entry key n es' | Some e \<Rightarrow> Some e)"
  by (induction es) auto

lemma find_entry_filter:
  "find_entry key n (filter (\<lambda>x. key (fst x) \<noteq> key m) es) = (if key n = key m then None else find_entry key n es)"
  by (induction es) auto

lemma slot_cong_key: "ev_key E n = ev_key E m \<Longrightarrow> slot E t d n = slot E t d m"
proof -
  assume k: "ev_key E n = ev_key E m"
  have "find_entry (ev_key E) n es = find_entry (ev_key E) m es" for es by (induction es) (auto simp: k)
  then show ?thesis by (simp add: slot_def split: option.split)
qed

lemma slot_add_entry:
  assumes "om_wf (t_dirs t)" and "om_get (t_dirs t) d \<noteq> None"
  shows "slot E (add_entry d n e t) d' n' =
    (if d' = d \<and> slot E t d n' = None \<and> ev_key E n = ev_key E n' then Some e else slot E t d' n')"
  using assms by (auto simp: slot_def add_entry_def om_get_insert find_entry_append split: option.split)

lemma slot_drop_entry:
  assumes "om_wf (t_dirs t)"
  shows "slot E (drop_entry E d n t) d' n' = (if d' = d \<and> ev_key E n' = ev_key E n then None else slot E t d' n')"
  using assms by (auto simp: slot_def drop_entry_def om_get_insert find_entry_filter split: option.split)

lemma file_of_entries [simp]: "file_of (add_entry d n e t) i = file_of t i" "file_of (drop_entry E d n t) i = file_of t i"
  by (simp_all add: file_of_def add_entry_def drop_entry_def split: option.split)

lemma file_of_update:
  "om_wf (t_files t) \<Longrightarrow> file_of (update_file i f t) j = (if j = i then map_option f (file_of t i) else file_of t j)"
  by (auto simp: file_of_def update_file_def om_get_insert split: option.split)

lemma slot_update_file [simp]: "slot E (update_file i f t) d n = slot E t d n"
  by (simp add: slot_def update_file_def split: option.split)

lemma tree_wf_add_entry: "tree_wf t \<Longrightarrow> tree_wf (add_entry d n e t)"
  by (auto simp: tree_wf_def add_entry_def om_wf_insert om_get_insert split: option.split)

lemma tree_wf_drop_entry: "tree_wf t \<Longrightarrow> tree_wf (drop_entry E d n t)"
  by (auto simp: tree_wf_def drop_entry_def om_wf_insert om_get_insert split: option.split)

lemma tree_wf_update_file: "tree_wf t \<Longrightarrow> tree_wf (update_file i f t)"
  by (auto simp: tree_wf_def update_file_def om_wf_insert om_get_insert split: option.split)

lemmas tree_wf_changes = tree_wf_add_entry tree_wf_drop_entry tree_wf_update_file

definition extends :: "env \<Rightarrow> world \<Rightarrow> world \<Rightarrow> bool" where
  "extends E w0 w \<longleftrightarrow> tree_wf (w_tree w) \<and> grows E (w_tree w0) (w_tree w) \<and> w_state w = w_state w0"

lemma extends_refl: "tree_wf (w_tree w) \<Longrightarrow> extends E w w"
  by (simp add: extends_def)

lemma extends_trans: "extends E w0 w1 \<Longrightarrow> extends E w1 w2 \<Longrightarrow> extends E w0 w2"
  by (auto simp: extends_def intro: grows_trans)

lemma preserves_io:
  assumes "\<And>t a t'. tree_wf t \<Longrightarrow> f t = Inr (a, t') \<Longrightarrow> tree_wf t' \<and> grows E t t'"
  shows "preserves (extends E w0) (io E f)"
  unfolding preserves_def
proof (intro allI impI)
  fix w assume w: "extends E w0 w"
  show "extends E w0 (snd (io E f w))"
  proof (cases "ev_fault E (w_tick w)")
    case None
    show ?thesis
    proof (cases "f (w_tree w)")
      case (Inl e)
      with None w show ?thesis by (simp add: io_def extends_def)
    next
      case (Inr r)
      obtain a t' where r: "r = (a, t')" by fastforce
      with Inr assms [of "w_tree w" a t'] w have "tree_wf t'" "grows E (w_tree w) t'" by (simp_all add: extends_def)
      with None Inr r w show ?thesis by (auto simp: io_def extends_def intro: grows_trans)
    qed
  qed (use w in \<open>auto simp: io_def extends_def\<close>)
qed

lemma preserves_io_read: "preserves (extends E w0) (io_read E f)"
  unfolding io_read_def by (rule preserves_io) (auto simp: bindE_eq_Inr)

lemma preserves_reading [preserves_intros]:
  "preserves (extends E w0) (entries E d)" "preserves (extends E w0) (symlink_metadata E d name)"
  "preserves (extends E w0) (open_dir E d path)" "preserves (extends E w0) (open_file E d path)"
  "preserves (extends E w0) (file_metadata E i)" "preserves (extends E w0) (io_noop E)"
  "preserves (extends E w0) (dir_metadata E d)"
  by (simp_all add: entries_def symlink_metadata_def open_dir_def open_file_def file_metadata_def io_noop_def
      dir_metadata_def preserves_io_read)

lemma preserves_ticked:
  "(\<And>n. preserves I (m n)) \<Longrightarrow> preserves I (\<lambda>w. m (w_tick w) w)"
  by (simp add: preserves_def)

lemma preserves_reading_at [preserves_intros]:
  "preserves (extends E w0) (open_ambient_dir E path)" "preserves (extends E w0) (canonicalize E path)"
  "preserves (extends E w0) (getrandom E)" "preserves (extends E w0) (read_content E i)"
  unfolding open_ambient_dir_def [abs_def] canonicalize_def [abs_def] getrandom_def [abs_def] read_content_def [abs_def]
  by (rule preserves_ticked, rule preserves_io_read)+

lemma preserves_create_dir [preserves_intros]: "preserves (extends E w0) (create_dir E d name)"
  unfolding create_dir_def
proof (rule preserves_io)
  fix t a t' assume wf: "tree_wf t"
  let ?t = "t\<lparr>t_dirs := om_insert (t_next t) [] (t_dirs t), t_next := Suc (t_next t)\<rparr>"
  assume "(if om_get (t_dirs t) d = None then Inl NotADirectory else if slot E t d name \<noteq> None then Inl AlreadyExists
     else Inr ((), add_entry d name (SubDir (t_next t)) ?t)) = Inr (a, t')"
  then have d: "om_get (t_dirs t) d \<noteq> None" and free: "slot E t d name = None"
      and t': "t' = add_entry d name (SubDir (t_next t)) ?t"
    by (auto split: if_splits)
  have fresh: "om_get (t_dirs t) (t_next t) = None" using wf by (simp add: tree_wf_def)
  have wf': "tree_wf ?t" using wf by (auto simp: tree_wf_def om_wf_insert om_get_insert)
  have "slot E ?t d' n' = slot E t d' n'" for d' n'
    using wf fresh by (auto simp: slot_def om_get_insert tree_wf_def)
  moreover have "om_wf (t_dirs ?t)" "om_get (t_dirs ?t) d \<noteq> None" using wf' d wf by (auto simp: tree_wf_def om_get_insert)
  ultimately have "slot E t' d' n' = (if d' = d \<and> slot E t d n' = None \<and> ev_key E name = ev_key E n'
      then Some (SubDir (t_next t)) else slot E t d' n')" for d' n'
    unfolding t' by (subst slot_add_entry) simp_all
  moreover have "file_of t' i = file_of t i" for i by (simp add: t') (simp add: file_of_def)
  moreover have "is_dir t' d'" if "is_dir t d'" for d'
    using that wf' wf by (auto simp: is_dir_def t' add_entry_def om_get_insert tree_wf_def split: option.split)
  moreover have "new_entry t (SubDir (t_next t))" using fresh by (simp add: new_entry_def is_dir_def)
  ultimately show "tree_wf t' \<and> grows E t t'" using wf' by (auto simp: grows_def t' tree_wf_add_entry)
qed

lemma preserves_stable_root [preserves_intros]:
  assumes "preserves (extends E w0) hook"
  shows "preserves (extends E w0) (open_stable_root_attempts E path hook n last_error)"
proof (induction n arbitrary: last_error)
  case 0
  show ?case
    unfolding open_stable_root_attempts.simps by (cases last_error; simp only: option.case) (rule preserves_pure)+
next
  case (Suc n)
  note intros = preserves_intros assms Suc.IH
  show ?case
    unfolding open_stable_root_attempts.simps
  proof (rule preserves_catchS)
    fix r :: "IoError + nat"
    show "preserves (extends E w0) (case r of Inl e \<Rightarrow> open_stable_root_attempts E path hook n (Some e)
      | Inr configured \<Rightarrow>
        bindS (mapErrS StableRootError.Io (dir_metadata E configured)) (\<lambda>configured_metadata.
        bindS (mapErrS StableRootError.Io hook) (\<lambda>_.
        bindS (mapErrS (\<lambda>_. Unstable) (canonicalize E path)) (\<lambda>resolved_path.
        bindS (mapErrS (\<lambda>_. Unstable) (open_ambient_dir E resolved_path)) (\<lambda>resolved_directory.
        bindS (mapErrS (\<lambda>_. Unstable) (dir_metadata E resolved_directory)) (\<lambda>resolved_metadata.
        bindS (mapErrS (\<lambda>_. Unstable) (canonicalize E path)) (\<lambda>resolved_after.
        if resolved_path = resolved_after \<and> configured_metadata = resolved_metadata
        then returnS \<lparr>sr_directory = configured, sr_resolved_path = resolved_path\<rparr>
        else throwS Unstable)))))))"
      by (cases r; simp only: sum.case) (intro intros)+
  qed (intro intros)
qed

text \<open>A hook that does not touch the world, as the program's own does.\<close>

definition quiet :: "install_hook \<Rightarrow> bool" where
  "quiet hook \<longleftrightarrow> (\<forall>st w. w_tree (snd (hook st w)) = w_tree w \<and> w_state (snd (hook st w)) = w_state w)"

lemma preserves_quiet: "quiet hook \<Longrightarrow> preserves (extends E w0) (hook st)"
  by (simp add: preserves_def quiet_def extends_def)

lemma preserves_open_root [preserves_intros]:
  "preserves (extends E w0) hook \<Longrightarrow> preserves (extends E w0) (open_root E root hook)"
  unfolding open_root_def open_stable_root_with_hook_def by (intro preserves_intros)

lemma preserves_on_missing [preserves_intros]:
  assumes "preserves I m" and "preserves I found" and "preserves I missing" and "\<And>e. preserves I (failed e)"
  shows "preserves I (catchS m (\<lambda>r. case r of Inr _ \<Rightarrow> found | Inl NotFound \<Rightarrow> missing | Inl e \<Rightarrow> failed e))"
  using assms by (intro preserves_catchS) (auto split: sum.split IoError.split)

lemma preserves_sync_dir [preserves_intros]: "preserves (extends E w0) (sync_dir E d)"
  unfolding sync_dir_def by (intro preserves_intros)

lemma preserves_exact_entry_exists [preserves_intros]: "preserves (extends E w0) (exact_entry_exists E d name)"
  unfolding exact_entry_exists_def by (intro preserves_intros)

lemma preserves_ensure_safe_parent_from:
  "quiet hook \<Longrightarrow> preserves (extends E w0) (ensure_safe_parent_from E hook root current logical cs)"
proof (induction cs arbitrary: current logical)
  case Nil
  show ?case unfolding ensure_safe_parent_from.simps by (rule preserves_pure)
next
  case (Cons c cs)
  note IH = Cons.IH [OF Cons.prems]
  show ?case
    unfolding ensure_safe_parent_from.simps
    by (intro preserves_intros IH preserves_quiet [OF Cons.prems])
qed

lemma preserves_ensure_safe_parent:
  "quiet hook \<Longrightarrow> preserves (extends E w0) (ensure_safe_parent E root relative hook)"
  unfolding ensure_safe_parent_def by (intro preserves_intros preserves_ensure_safe_parent_from)

lemma preserves_open_relative_dir [preserves_intros]: "preserves (extends E w0) (open_relative_dir E root relative)"
  unfolding open_relative_dir_def by (intro preserves_intros)

lemma preserves_reject_concrete_collision [preserves_intros]:
  "preserves (extends E w0) (reject_concrete_collision E root relative name)"
  unfolding reject_concrete_collision_def by (intro preserves_intros)

lemma preserves_open_existing_from [preserves_intros]:
  "preserves (extends E w0) (open_existing_from E root current logical cs)"
proof (induction cs arbitrary: current logical)
  case Nil
  show ?case unfolding open_existing_from.simps by (rule preserves_pure)
next
  case (Cons c cs)
  show ?case unfolding open_existing_from.simps by (intro preserves_intros Cons.IH)
qed

lemma preserves_open_existing_safe_parent [preserves_intros]:
  "preserves (extends E w0) (open_existing_safe_parent E root relative)"
  unfolding open_existing_safe_parent_def by (intro preserves_intros)

section \<open>The temporary file\<close>

lemma symlink_metadata_NotFound:
  assumes "symlink_metadata E d name w = (r, w')"
  shows "w_tree w' = w_tree w \<and> w_state w' = w_state w
    \<and> (\<forall>e. r = Inr e \<longrightarrow> slot E (w_tree w) d name = Some e)"
  using assms by (auto simp: symlink_metadata_def io_read_def io_def Let_def bindE_eq_Inr bindE_def ok_or_def
      split: option.splits sum.splits prod.splits)

text \<open>
  A lookup that fails for another reason also reports \<open>NotFound\<close> when the environment says so; what the
  program relies on is that a lookup that reports \<open>NotFound\<close> found nothing.
\<close>

definition honest :: "env \<Rightarrow> bool" where
  "honest E \<longleftrightarrow> (\<forall>n m. ev_fault E n \<noteq> Some (NotFound, m))"

lemma symlink_metadata_absent:
  "honest E \<Longrightarrow> symlink_metadata E d name w = (Inl NotFound, w') \<Longrightarrow> slot E (w_tree w) d name = None"
  by (auto simp: symlink_metadata_def io_read_def io_def Let_def bindE_def ok_or_def honest_def
      split: option.splits sum.splits prod.splits)

lemma temporary_name_absent:
  assumes "honest E"
  shows "triple (extends E w0) (temporary_name_attempts E root n)
    (\<lambda>r w. extends E w0 w \<and> (\<forall>name. r = Inr name \<longrightarrow> slot E (w_tree w0) root name = None
       \<and> (\<exists>pid random. name = temporary_format pid random)))"
proof (induction n)
  case 0
  show ?case unfolding temporary_name_attempts.simps by (rule triple_pure) simp
next
  case (Suc n)
  show ?case
    unfolding temporary_name_attempts.simps Let_def
  proof (rule triple_bindS [OF iffD1 [OF triple_preserves]])
    show "preserves (extends E w0) (mapErrS (\<lambda>_. Random) (getrandom E))" by (intro preserves_intros)
  next
    fix random
    let ?name = "temporary_format (ev_pid E) random"
    show "triple (extends E w0) (catchS (symlink_metadata E root ?name) (\<lambda>r. case r of
        Inl NotFound \<Rightarrow> returnS ?name | Inr _ \<Rightarrow> temporary_name_attempts E root n | Inl e \<Rightarrow> throwS (InstallError.Io e)))
      (\<lambda>r w. extends E w0 w \<and> (\<forall>name. r = Inr name \<longrightarrow> slot E (w_tree w0) root name = None
         \<and> (\<exists>pid random. name = temporary_format pid random)))"
    proof (rule tripleI)
      fix w r w' assume w: "extends E w0 w" and run: "catchS (symlink_metadata E root ?name) (\<lambda>r. case r of
        Inl NotFound \<Rightarrow> returnS ?name | Inr _ \<Rightarrow> temporary_name_attempts E root n
        | Inl e \<Rightarrow> throwS (InstallError.Io e)) w = (r, w')"
      obtain m w1 where m: "symlink_metadata E root ?name w = (m, w1)" by fastforce
      have w1: "extends E w0 w1" using preserves_reading(2) w m by (rule preservesD)
      show "extends E w0 w' \<and> (\<forall>name. r = Inr name \<longrightarrow> slot E (w_tree w0) root name = None
         \<and> (\<exists>pid random. name = temporary_format pid random))"
      proof (cases "m = Inl NotFound")
        case True
        with run m have "r = Inr ?name" "w' = w1" by (simp_all add: catchS_def)
        moreover have "slot E (w_tree w) root ?name = None"
          using symlink_metadata_absent [OF assms] m True by blast
        then have "slot E (w_tree w0) root ?name = None"
          using w by (cases "slot E (w_tree w0) root ?name") (auto simp: extends_def grows_def)
        ultimately show ?thesis using w1 by auto
      next
        case False
        then show ?thesis
          using run m w1 tripleD [OF Suc.IH w1]
          by (cases m) (auto simp: catchS_def split: IoError.splits)
      qed
    qed
  qed simp
qed

definition staged :: "env \<Rightarrow> world \<Rightarrow> nat \<Rightarrow> string \<Rightarrow> nat \<Rightarrow> world \<Rightarrow> bool" where
  "staged E w0 root name i w \<longleftrightarrow> extends E w0 w \<and> file_of (w_tree w0) i = None
     \<and> slot E (w_tree w) root name = Some (Regular i)"

definition holds :: "nat \<Rightarrow> byte list \<Rightarrow> world \<Rightarrow> bool" where
  "holds i bs w \<longleftrightarrow> (\<exists>fd. file_of (w_tree w) i = Some fd \<and> fd_bytes fd = bs)"

lemma create_new_staged:
  "triple (extends E w0) (create_new E root name)
    (\<lambda>r w. extends E w0 w \<and> (\<forall>i. r = Inr i \<longrightarrow> staged E w0 root name i w \<and> holds i [] w))"
proof (rule tripleI)
  fix w r w' assume w: "extends E w0 w" and run: "create_new E root name w = (r, w')"
  show "extends E w0 w' \<and> (\<forall>i. r = Inr i \<longrightarrow> staged E w0 root name i w' \<and> holds i [] w')"
  proof (cases r)
    case (Inl e)
    then have "w_tree w' = w_tree w" "w_state w' = w_state w"
      using run by (auto simp: create_new_def io_def Let_def split: option.splits if_splits)
    with w Inl show ?thesis by (simp add: extends_def)
  next
    case (Inr i)
    let ?t = "w_tree w"
    let ?fd = "\<lparr>fd_bytes = [], fd_mtime = 0, fd_mtime_nsec = 0, fd_ctime = 0, fd_ctime_nsec = 0\<rparr>"
    let ?t1 = "?t\<lparr>t_files := om_insert (t_next ?t) ?fd (t_files ?t), t_next := Suc (t_next ?t)\<rparr>"
    from run Inr have d: "om_get (t_dirs ?t) root \<noteq> None" and free: "slot E ?t root name = None"
        and i: "i = t_next ?t" and t': "w_tree w' = add_entry root name (Regular (t_next ?t)) ?t1"
        and st: "w_state w' = w_state w"
      by (auto simp: create_new_def io_def Let_def split: option.splits if_splits)
    have wf: "tree_wf ?t" using w by (simp add: extends_def)
    then have wf1: "tree_wf ?t1" by (auto simp: tree_wf_def om_wf_insert om_get_insert)
    have old: "file_of ?t i = None" using wf by (simp add: tree_wf_def file_of_def i)
    have data: "file_of (w_tree w') j = (if j = i then Some ?fd else file_of ?t j)" for j
      using wf by (simp add: t' i) (simp add: file_of_def om_get_insert tree_wf_def)
    have "slot E ?t1 d n = slot E ?t d n" for d n by (simp add: slot_def)
    moreover have "om_wf (t_dirs ?t1)" "om_get (t_dirs ?t1) root \<noteq> None" using wf d by (auto simp: tree_wf_def)
    ultimately have slots: "slot E (w_tree w') d n = (if d = root \<and> slot E ?t root n = None \<and> ev_key E name = ev_key E n
        then Some (Regular i) else slot E ?t d n)" for d n
      unfolding t' i by (subst slot_add_entry) simp_all
    have "is_dir (w_tree w') d" if "is_dir ?t d" for d
      using that wf1 by (auto simp: is_dir_def t' add_entry_def om_get_insert tree_wf_def split: option.split)
    then have "grows E ?t (w_tree w')" using old data slots by (auto simp: grows_def new_entry_def)
    then have "extends E w0 w'" using w wf1 st by (auto simp: extends_def t' tree_wf_add_entry intro: grows_trans)
    moreover have "file_of (w_tree w0) i = None"
      using w old by (cases "file_of (w_tree w0) i") (auto simp: extends_def grows_def)
    ultimately show ?thesis using Inr data slots free by (auto simp: staged_def holds_def)
  qed
qed

definition untouched :: "(world, 'e, 'a) action \<Rightarrow> bool" where
  "untouched m \<longleftrightarrow> (\<forall>w. w_tree (snd (m w)) = w_tree w \<and> w_state (snd (m w)) = w_state w)"

lemma untouched_io_read: "untouched (io_read E f)"
  by (auto simp: untouched_def io_read_def io_def Let_def bindE_def split: option.split sum.split)

lemma untouched_calls: "untouched (io_noop E)" "untouched (file_metadata E i)" "quiet hook \<Longrightarrow> untouched (hook st)"
  by (simp_all add: io_noop_def file_metadata_def untouched_io_read) (simp add: untouched_def quiet_def)

lemma untouched_preserves:
  assumes "untouched m" and "\<And>w w'. w_tree w' = w_tree w \<Longrightarrow> w_state w' = w_state w \<Longrightarrow> I w \<Longrightarrow> I w'"
  shows "preserves I (mapErrS g m)"
  using assms by (auto simp: preserves_def untouched_def mapErrS_def case_prod_beta)

definition staged_with :: "env \<Rightarrow> world \<Rightarrow> nat \<Rightarrow> string \<Rightarrow> nat \<Rightarrow> byte list \<Rightarrow> world \<Rightarrow> bool" where
  "staged_with E w0 root name i bs w \<longleftrightarrow> staged E w0 root name i w \<and> holds i bs w"

lemma staged_with_untouched:
  "untouched m \<Longrightarrow> preserves (staged_with E w0 root name i bs) (mapErrS g m)"
  by (erule untouched_preserves) (simp add: staged_with_def staged_def holds_def extends_def)

lemma grows_update_file:
  assumes "grows E t0 t" and "tree_wf t" and "file_of t0 i = None"
  shows "grows E t0 (update_file i f t)"
proof -
  have "is_dir (update_file i f t) d = is_dir t d" for d by (simp add: is_dir_def update_file_def split: option.split)
  with assms show ?thesis by (auto simp: grows_def file_of_update tree_wf_def)
qed

lemma write_all_staged:
  "triple (staged_with E w0 root name i bs) (write_all E i v)
    (\<lambda>r w. staged E w0 root name i w \<and> (r = Inr () \<longrightarrow> holds i (bs @ v) w))"
proof (rule tripleI)
  fix w r w' assume w: "staged_with E w0 root name i bs w" and run: "write_all E i v w = (r, w')"
  have wf: "tree_wf (w_tree w)" "file_of (w_tree w0) i = None" "grows E (w_tree w0) (w_tree w)"
    using w by (simp_all add: staged_with_def staged_def extends_def)
  then have g: "om_wf (t_files (w_tree w))" by (simp add: tree_wf_def)
  from run obtain u where u: "w_tree w' = update_file i (\<lambda>fd. fd\<lparr>fd_bytes := fd_bytes fd @ u\<rparr>) (w_tree w)"
      "w_state w' = w_state w" "r = Inr () \<longrightarrow> u = v"
    by (auto simp: write_all_def Let_def split: option.splits)
  have "extends E w0 w'"
    using u w wf by (simp add: extends_def grows_update_file tree_wf_update_file staged_with_def staged_def)
  then show "staged E w0 root name i w' \<and> (r = Inr () \<longrightarrow> holds i (bs @ v) w')"
    using w u g by (auto simp: staged_with_def staged_def holds_def file_of_update)
qed

lemma copy_loop_staged:
  "triple (\<lambda>w. staged_with E w0 root name i hashed w \<and> unat written = length hashed)
     (copy_loop E i declared written hashed limited)
     (\<lambda>r w. staged E w0 root name i w
        \<and> (\<forall>h n. r = Inr (h, n) \<longrightarrow> holds i h w \<and> unat n = length h \<and> h = hashed @ limited))"
proof (induction E i declared written hashed limited rule: copy_loop.induct)
  case (1 E i declared written hashed limited)
  show ?case
  proof (rule tripleI)
    fix w r w' assume w: "staged_with E w0 root name i hashed w \<and> unat written = length hashed"
      and run: "copy_loop E i declared written hashed limited w = (r, w')"
    let ?Q = "\<lambda>r w. staged E w0 root name i w
        \<and> (\<forall>h n. r = Inr (h, n) \<longrightarrow> holds i h w \<and> unat n = length h \<and> h = hashed @ limited)"
    obtain r1 w1 where 1: "mapErrS InstallError.Io (io_noop E) w = (r1, w1)" by fastforce
    have w1: "staged_with E w0 root name i hashed w1"
      using staged_with_untouched [OF untouched_calls(1)] conjunct1 [OF w] 1 by (rule preservesD)
    then have st1: "staged E w0 root name i w1" by (simp add: staged_with_def)
    show "?Q r w'"
    proof (cases r1)
      case (Inl e)
      with run 1 have "r = Inl e" "w' = w1" by (simp_all add: copy_loop.simps [of E i declared written hashed limited] bindS_def)
      with st1 show ?thesis by simp
    next
      case (Inr u)
      have noop: "mapErrS InstallError.Io (io_noop E) w = (Inr u, w1)" using 1 Inr by simp
      note step = run [unfolded copy_loop.simps [of E i declared written hashed limited]
          bindS_Inr [where m = "mapErrS InstallError.Io (io_noop E)", OF noop]]
      show ?thesis
      proof (cases "limited = []")
        case True
        with step have "r = Inr (hashed, written)" "w' = w1" by simp_all
        with w w1 True show ?thesis by (simp add: staged_with_def)
      next
        case False
        let ?chunk = "take (64 * 1024) limited"
        show ?thesis
        proof (cases "u64_checked_add written (of_nat (length ?chunk))")
          case None
          with step False have "r = Inl SizeMismatch" "w' = w1" by (simp_all add: Let_def)
          with st1 show ?thesis by simp
        next
          case (Some n)
          show ?thesis
          proof (cases "n > declared")
            case True
            with step False Some have "r = Inl SizeMismatch" "w' = w1" by (simp_all add: Let_def)
            with st1 show ?thesis by simp
          next
            case le: False
            have small: "length ?chunk < 2 ^ 64" by simp
            then have "unat (of_nat (length ?chunk) :: u64) = length ?chunk"
              by (simp add: unat_of_nat take_bit_nat_eq_self del: length_take)
            then have n: "unat n = length (hashed @ ?chunk)"
              using u64_checked_add_unat [OF Some] w by (simp del: length_take)
            note IH = "1.IH" [OF False refl Some le]
            have "triple (staged_with E w0 root name i hashed)
                (bindS (mapErrS InstallError.Io (write_all E i ?chunk)) (\<lambda>_.
                   copy_loop E i declared n (hashed @ ?chunk) (drop (64 * 1024) limited))) ?Q"
            proof (rule triple_bindS)
              show "triple (staged_with E w0 root name i hashed) (mapErrS InstallError.Io (write_all E i ?chunk))
                  (\<lambda>r w. staged E w0 root name i w \<and> (r = Inr () \<longrightarrow> holds i (hashed @ ?chunk) w))"
                by (rule triple_mapErrS, rule triple_weaken [OF write_all_staged]) auto
              show "triple (\<lambda>w. staged E w0 root name i w \<and> (Inr u = Inr () \<longrightarrow> holds i (hashed @ ?chunk) w))
                  (copy_loop E i declared n (hashed @ ?chunk) (drop (64 * 1024) limited)) ?Q" for u :: unit
                by (rule triple_weaken [OF IH])
                  (use n in \<open>simp_all add: staged_with_def append_take_drop_id del: length_append\<close>)
            qed simp
            moreover have "bindS (mapErrS InstallError.Io (write_all E i ?chunk)) (\<lambda>_.
                copy_loop E i declared n (hashed @ ?chunk) (drop (64 * 1024) limited)) w1 = (r, w')"
              using step False Some le by (simp add: Let_def)
            ultimately show ?thesis by (rule tripleD [where P = "staged_with E w0 root name i hashed" and s = w1 and Q = "?Q", OF _ w1])
          qed
        qed
      qed
    qed
  qed
qed

lemma triple_bind_preserves:
  assumes "preserves J m" and "\<And>e s. J s \<Longrightarrow> Q (Inl e) s" and "\<And>a. triple J (f a) Q"
  shows "triple J (bindS m f) Q"
  using assms unfolding triple_preserves by (rule triple_bindS)

lemma set_mtime_staged: "preserves (staged_with E w0 root name i bs) (set_mtime E i ns)"
proof -
  have "preserves (staged_with E w0 root name i bs) (set_file_times E i sec nsec)" for sec nsec
    unfolding preserves_def
  proof (intro allI impI)
    fix w assume w: "staged_with E w0 root name i bs w"
    have wf: "tree_wf (w_tree w)" "file_of (w_tree w0) i = None" "grows E (w_tree w0) (w_tree w)"
      using w by (simp_all add: staged_with_def staged_def extends_def)
    then have g: "om_wf (t_files (w_tree w))" by (simp add: tree_wf_def)
    show "staged_with E w0 root name i bs (snd (set_file_times E i sec nsec w))"
      using w wf g
      by (auto simp: set_file_times_def io_def Let_def staged_with_def staged_def extends_def holds_def
          grows_update_file tree_wf_update_file file_of_update split: option.split)
  qed
  then show ?thesis unfolding set_mtime_def Let_def by (intro preserves_mapErrS)
qed

text \<open>The first bytes of the source, as many as declared, with the declared hash.\<close>

definition verified :: "crypto \<Rightarrow> byte list \<Rightarrow> u64 \<Rightarrow> bytes32 \<Rightarrow> byte list \<Rightarrow> bool" where
  "verified C src declared hash bs \<longleftrightarrow>
     bs = take (unat declared) src \<and> of_nat (length bs) = declared \<and> c_blake3 C bs = hash"

lemma verified_source:
  assumes "unat declared = length (take (unat (u64_saturating_add declared 1)) src)"
    and "c_blake3 C (take (unat (u64_saturating_add declared 1)) src) = hash"
  shows "verified C src declared hash (take (unat (u64_saturating_add declared 1)) src)"
proof -
  let ?h = "take (unat (u64_saturating_add declared 1)) src"
  have "?h = take (unat declared) src" using assms(1) by (simp add: min_def split: if_splits)
  moreover have "of_nat (unat declared) = declared" by simp
  then have "of_nat (length ?h) = declared" by (simp only: assms(1))
  ultimately show ?thesis using assms(2) by (simp only: verified_def simp_thms)
qed

definition fingerprint_of :: "file_data \<Rightarrow> bytes32 \<Rightarrow> FileFingerprint" where
  "fingerprint_of fd hash = \<lparr>fp_modified_ns = metadata_time_ns fd, fp_size = of_nat (length (fd_bytes fd)), fp_hash = hash\<rparr>"

lemma file_metadata_Inr:
  assumes "file_metadata E i w = (r, w')"
  shows "w_tree w' = w_tree w \<and> w_state w' = w_state w \<and> (\<forall>fd. r = Inr fd \<longrightarrow> file_of (w_tree w) i = Some fd)"
  using assms by (auto simp: file_metadata_def io_read_def io_def Let_def bindE_def ok_or_def
      split: option.splits sum.splits prod.splits)

lemma write_verified_staged:
  assumes hook: "quiet hook"
  shows "triple (staged_with E w0 root name i [])
    (write_verified E C hook i ns declared hash src)
    (\<lambda>r w. staged E w0 root name i w \<and> (\<forall>fp. r = Inr fp \<longrightarrow>
       (\<exists>fd. file_of (w_tree w) i = Some fd \<and> verified C src declared hash (fd_bytes fd) \<and> fp = fingerprint_of fd hash)))"
    (is "triple _ _ ?Q")
  unfolding write_verified_def
proof (rule triple_bind_preserves)
  show "preserves (staged_with E w0 root name i []) (mapErrS InstallError.Io (hook BeforeWrite))"
    by (intro staged_with_untouched untouched_calls hook)
  show "staged_with E w0 root name i [] s \<Longrightarrow> ?Q (Inl e) s" for e s by (simp add: staged_with_def)
  let ?src = "take (unat (u64_saturating_add declared 1)) src"
  let ?R = "\<lambda>r w. staged E w0 root name i w
      \<and> (\<forall>h n. r = Inr (h, n) \<longrightarrow> holds i h w \<and> unat n = length h \<and> h = [] @ ?src)"
  let ?tail = "\<lambda>h. bindS (mapErrS InstallError.Io (hook AfterWrite)) (\<lambda>_.
      bindS (mapErrS InstallError.Io (io_noop E)) (\<lambda>_.
      bindS (mapErrS InstallError.Io (hook BeforeMetadata)) (\<lambda>_.
      bindS (set_mtime E i ns) (\<lambda>_.
      bindS (mapErrS InstallError.Io (hook BeforeFileSync)) (\<lambda>_.
      bindS (mapErrS InstallError.Io (io_noop E)) (\<lambda>_.
      bindS (mapErrS InstallError.Io (file_metadata E i)) (\<lambda>metadata.
      returnS \<lparr>fp_modified_ns = metadata_time_ns metadata, fp_size = of_nat (length (fd_bytes metadata)), fp_hash = hash\<rparr>)))))))"
  have last: "triple (staged_with E w0 root name i h) (bindS (mapErrS InstallError.Io (file_metadata E i)) (\<lambda>metadata.
      returnS \<lparr>fp_modified_ns = metadata_time_ns metadata, fp_size = of_nat (length (fd_bytes metadata)), fp_hash = hash\<rparr>)) ?Q"
    if h: "verified C src declared hash h" for h
  proof (rule tripleI)
    fix w r w' assume w: "staged_with E w0 root name i h w"
      and run: "bindS (mapErrS InstallError.Io (file_metadata E i)) (\<lambda>metadata. returnS \<lparr>fp_modified_ns = metadata_time_ns metadata,
        fp_size = of_nat (length (fd_bytes metadata)), fp_hash = hash\<rparr>) w = (r, w')"
    obtain m w1 where m: "file_metadata E i w = (m, w1)" by fastforce
    have w1: "staged_with E w0 root name i h w1"
      using w file_metadata_Inr [OF m] by (simp add: staged_with_def staged_def extends_def holds_def)
    show "?Q r w'"
      using run m w1 file_metadata_Inr [OF m] h w
      by (cases m) (auto simp: bindS_def mapErrS_def staged_with_def holds_def fingerprint_of_def)
  qed
  have tail: "triple (staged_with E w0 root name i h) (?tail h) ?Q" if "verified C src declared hash h" for h
    by (intro triple_bind_preserves [where J = "staged_with E w0 root name i h"] set_mtime_staged
        staged_with_untouched untouched_calls hook last that) (simp_all add: staged_with_def)
  show "triple (staged_with E w0 root name i []) (bindS (copy_loop E i declared 0 [] ?src) (\<lambda>(hashed, written).
      if written \<noteq> declared then throwS SizeMismatch else if c_blake3 C hashed \<noteq> hash then throwS HashMismatch
      else ?tail hashed)) ?Q"
  proof (rule triple_bindS)
    show "triple (staged_with E w0 root name i []) (copy_loop E i declared 0 [] ?src) ?R"
      by (rule triple_weaken [OF copy_loop_staged]) simp_all
    show "?R (Inl e) s \<Longrightarrow> ?Q (Inl e) s" for e s by simp
    fix a :: "byte list \<times> u64"
    obtain h n where a: "a = (h, n)" by fastforce
    show "triple (?R (Inr a)) ((\<lambda>(hashed, written). if written \<noteq> declared then throwS SizeMismatch
        else if c_blake3 C hashed \<noteq> hash then throwS HashMismatch else ?tail hashed) a) ?Q"
    proof (cases "n = declared \<and> c_blake3 C h = hash \<and> unat n = length h \<and> h = ?src")
      case True
      then have "unat declared = length ?src" "c_blake3 C ?src = hash" "h = ?src" by metis+
      with verified_source [OF this(1,2)] have "verified C src declared hash h" by (simp only:)
      note t = tail [OF this]
      have "(\<lambda>(hashed, written). if written \<noteq> declared then throwS SizeMismatch
          else if c_blake3 C hashed \<noteq> hash then throwS HashMismatch else ?tail hashed) a = ?tail h"
        using conjunct1 [OF True] conjunct1 [OF conjunct2 [OF True]] by (simp add: a)
      moreover have "triple (?R (Inr a)) (?tail h) ?Q"
        by (rule triple_weaken [OF t]) (auto simp: a staged_with_def)
      ultimately show ?thesis by (simp only:)
    next
      case False
      then show ?thesis by (auto simp: a triple_def)
    qed
  qed
qed

section \<open>Replacing the destination\<close>

text \<open>
  The world after an installation: no file that was there is written to, and an entry that was there is still
  there, unless it is the destination, which then is a file with exactly the declared content.
\<close>

definition replaced :: "env \<Rightarrow> crypto \<Rightarrow> byte list \<Rightarrow> Record \<Rightarrow> u64 \<Rightarrow> bytes32 \<Rightarrow> nat \<Rightarrow> world \<Rightarrow> bool" where
  "replaced E C src record declared hash p w \<longleftrightarrow>
     (\<exists>i fd. slot E (w_tree w) p (file_name record) = Some (Regular i) \<and> file_of (w_tree w) i = Some fd
        \<and> verified C src declared hash (fd_bytes fd))"

text \<open>
  The directory the record's parent path leads to from the root: in the tree as it was, or, when it was not there,
  a directory made since.
\<close>

definition arrives :: "env \<Rightarrow> nat \<Rightarrow> Record \<Rightarrow> world \<Rightarrow> world \<Rightarrow> nat \<Rightarrow> bool" where
  "arrives E root record w0 w p \<longleftrightarrow> walk_to E (w_tree w0) root (parent_relative record) = Inr p
     \<or> \<not> is_dir (w_tree w0) p \<and> walk_to E (w_tree w) root (parent_relative record) = Inr p"

definition installs :: "env \<Rightarrow> crypto \<Rightarrow> byte list \<Rightarrow> Record \<Rightarrow> u64 \<Rightarrow> bytes32 \<Rightarrow> nat \<Rightarrow> world \<Rightarrow> world \<Rightarrow> bool" where
  "installs E C src record declared hash p w0 w \<longleftrightarrow> tree_wf (w_tree w) \<and> w_state w = w_state w0
     \<and> (\<forall>i fd. file_of (w_tree w0) i = Some fd \<longrightarrow> file_of (w_tree w) i = Some fd)
     \<and> (\<forall>d n e. slot E (w_tree w) d n = Some e \<longrightarrow> slot E (w_tree w0) d n = Some e \<or> new_entry (w_tree w0) e)
     \<and> (\<forall>d n e. slot E (w_tree w0) d n = Some e \<longrightarrow> slot E (w_tree w) d n = Some e
          \<or> d = p \<and> ev_key E n = ev_key E (file_name record) \<and> replaced E C src record declared hash p w)"

lemma extends_installs: "extends E w0 w \<Longrightarrow> installs E C src record declared hash p w0 w"
  by (simp add: extends_def installs_def grows_def)

lemma io_Inr:
  "io E f w = (Inr a, w') \<longleftrightarrow> ev_fault E (w_tick w) = None
     \<and> (\<exists>t. f (w_tree w) = Inr (a, t) \<and> w' = w\<lparr>w_tick := Suc (w_tick w), w_tree := t\<rparr>)"
  by (auto simp: io_def Let_def split: option.splits sum.splits)

lemma rename_installs:
  assumes w: "staged E w0 root name i w" and fd: "file_of (w_tree w) i = Some fd" "verified C src declared hash (fd_bytes fd)"
    and absent: "slot E (w_tree w0) root name = None"
    and run: "rename E root name root (path_components record) w = (Inr (), w')"
  obtains p where "arrives E root record w0 w' p"
    and "installs E C src record declared hash p w0 w'"
    and "slot E (w_tree w') p (file_name record) = Some (Regular i)" and "file_of (w_tree w') i = Some fd"
proof -
  let ?t = "w_tree w"
  have from_slot: "slot E ?t root name = Some (Regular i)" using w by (simp add: staged_def)
  from run obtain t' where t: "bindE (ok_or NotFound (slot E ?t root name)) (\<lambda>e.
      bindE (walk_to E ?t root (butlast (path_components record))) (\<lambda>p.
      if om_get (t_dirs ?t) p = None then Inl NotADirectory
      else case slot E ?t p (last (path_components record)) of Some (SubDir i) \<Rightarrow> Inl IsADirectory
      | _ \<Rightarrow> Inr ((), add_entry p (last (path_components record)) e
            (drop_entry E p (last (path_components record)) (drop_entry E root name ?t))))) = Inr ((), t')"
      and w': "w' = w\<lparr>w_tick := Suc (w_tick w), w_tree := t'\<rparr>"
    unfolding rename_def io_Inr by blast
  obtain p where p: "walk_to E ?t root (parent_relative record) = Inr p"
    using t from_slot by (cases "walk_to E ?t root (parent_relative record)") (simp_all add: parent_relative_def)
  with t from_slot have p2: "om_get (t_dirs ?t) p \<noteq> None"
      and t'_eq: "t' = add_entry p (file_name record) (Regular i) (drop_entry E p (file_name record) (drop_entry E root name ?t))"
    by (simp_all add: parent_relative_def file_name_def split: if_splits option.splits dir_entry.splits)
  have t': "w_tree w' = add_entry p (file_name record) (Regular i)
        (drop_entry E p (file_name record) (drop_entry E root name ?t))" and st: "w_state w' = w_state w"
    by (simp_all add: w' t'_eq)
  have ext: "extends E w0 w" using w by (simp add: staged_def)
  then have wf: "tree_wf ?t" and g: "grows E (w_tree w0) ?t" by (simp_all add: extends_def)
  let ?t1 = "drop_entry E root name ?t"
  let ?t2 = "drop_entry E p (file_name record) ?t1"
  have wf1: "tree_wf ?t1" "tree_wf ?t2" using wf by (simp_all add: tree_wf_drop_entry)
  then have dirs: "om_wf (t_dirs ?t)" "om_wf (t_dirs ?t1)" "om_wf (t_dirs ?t2)" using wf by (simp_all add: tree_wf_def)
  have "om_get (t_dirs ?t1) p \<noteq> None" using p2 dirs(1) by (auto simp: drop_entry_def om_get_insert split: option.split)
  then have "om_get (t_dirs ?t2) p \<noteq> None" using dirs(2) by (auto simp: drop_entry_def om_get_insert split: option.split)
  then have slots: "slot E (w_tree w') d n =
      (if d = p \<and> ev_key E n = ev_key E (file_name record) then Some (Regular i)
       else if d = root \<and> ev_key E n = ev_key E name then None else slot E ?t d n)" for d n
    unfolding t' using dirs by (auto simp: slot_add_entry slot_drop_entry)
  have data: "file_of (w_tree w') j = file_of ?t j" for j by (simp add: t')
  have new: "slot E (w_tree w') p (file_name record) = Some (Regular i)" by (simp add: slots)
  then have rep: "replaced E C src record declared hash p w'" using fd data by (auto simp: replaced_def)
  have "tree_wf (w_tree w')" using wf1 by (simp add: t' tree_wf_add_entry)
  moreover have "slot E (w_tree w') d n = Some e
      \<or> d = p \<and> ev_key E n = ev_key E (file_name record) \<and> replaced E C src record declared hash p w'"
    if "slot E (w_tree w0) d n = Some e" for d n e
  proof -
    have "\<not> (d = root \<and> ev_key E n = ev_key E name)"
      using that absent slot_cong_key [of E n name "w_tree w0" d] by auto
    moreover have "slot E ?t d n = Some e" using that g by (simp add: grows_def)
    ultimately show ?thesis using rep by (auto simp: slots)
  qed
  moreover have added: "slot E (w_tree w0) d n = Some e \<or> new_entry (w_tree w0) e" if "slot E (w_tree w') d n = Some e" for d n e
  proof -
    from that have "new_entry (w_tree w0) e \<or> slot E ?t d n = Some e"
      by (auto simp: slots new_entry_def split: if_splits)
    then show ?thesis using g unfolding grows_def by blast
  qed
  ultimately have inst: "installs E C src record declared hash p w0 w'"
    using ext st g data unfolding installs_def extends_def grows_def by simp
  have "walk_to E (w_tree w') root (parent_relative record) = Inr p" if fresh: "\<not> is_dir (w_tree w0) p"
  proof (rule walk_to_cong [OF _ p])
    fix d n e assume e: "slot E ?t d n = Some e" "leads e"
    have "\<not> (d = p \<and> ev_key E n = ev_key E (file_name record))"
    proof
      assume *: "d = p \<and> ev_key E n = ev_key E (file_name record)"
      then have dest: "slot E ?t p (file_name record) = Some e" using e slot_cong_key by metis
      then have "new_entry (w_tree w0) e" using g fresh slot_is_dir unfolding grows_def by blast
      with e(2) obtain j where "e = SubDir j" by (auto simp: leads_def new_entry_def split: dir_entry.splits)
      with dest t p from_slot show False
        by (simp add: parent_relative_def file_name_def split: if_splits)
    qed
    moreover have "\<not> (d = root \<and> ev_key E n = ev_key E name)"
    proof
      assume "d = root \<and> ev_key E n = ev_key E name"
      then have "e = Regular i" using e(1) from_slot slot_cong_key [of E n name ?t d] by simp
      with e(2) show False by (simp add: leads_def)
    qed
    ultimately show "slot E (w_tree w') d n = Some e" using e(1) by (auto simp: slots)
  qed
  with walk_to_back [OF g p] have "arrives E root record w0 w' p" by (auto simp: arrives_def)
  with inst new data fd(1) that show ?thesis by simp
qed

lemma installs_untouched:
  "untouched m \<Longrightarrow> m w = (r, w') \<Longrightarrow> installs E C src record declared hash p w0 w \<Longrightarrow> installs E C src record declared hash p w0 w'"
  unfolding untouched_def by (drule spec [of _ w]) (simp add: installs_def replaced_def)

lemma untouched_bindS: "untouched m \<Longrightarrow> (\<And>a. untouched (f a)) \<Longrightarrow> untouched (bindS m f)"
  by (auto simp: untouched_def bindS_def split: prod.split sum.split) (metis snd_conv)+

lemma untouched_finish:
  assumes "quiet hook"
  shows "untouched (bindS (hook AfterRename) (\<lambda>_. bindS (open_relative_dir E root relative) (sync_dir E)))"
proof -
  have opened: "untouched (open_dir E d path)" for d path by (simp add: open_dir_def untouched_io_read)
  have returned: "untouched (returnS a)" for a :: nat by (simp add: untouched_def)
  have "untouched (open_relative_dir E root relative)"
    unfolding open_relative_dir_def by (simp only: opened untouched_bindS untouched_calls(1) returned split: if_split) simp
  then show ?thesis
    unfolding sync_dir_def
    by (rule untouched_bindS [OF untouched_calls(3) [OF assms] untouched_bindS])
      (rule untouched_bindS [OF opened untouched_calls(1)])
qed

lemma remove_file_temporary:
  assumes inst: "installs E C src record declared hash p w0 w" and absent: "slot E (w_tree w0) root name = None"
    and run: "remove_file E root name w = (r, w')"
  shows "installs E C src record declared hash p w0 w'"
    and "p \<noteq> root \<or> ev_key E (file_name record) \<noteq> ev_key E name \<Longrightarrow>
      slot E (w_tree w') p (file_name record) = slot E (w_tree w) p (file_name record)"
    and "file_of (w_tree w') i = file_of (w_tree w) i"
    and "arrives E d' record w0 w p \<Longrightarrow> arrives E d' record w0 w' p"
    and "extends E w0 w \<Longrightarrow> extends E w0 w'"
proof -
  have wf: "om_wf (t_dirs (w_tree w))" using inst by (simp add: installs_def tree_wf_def)
  have cases: "w_state w' = w_state w \<and> (w_tree w' = w_tree w \<or> w_tree w' = drop_entry E root name (w_tree w))"
    using run by (auto simp: remove_file_def io_def Let_def split: option.splits dir_entry.splits)
  then show "file_of (w_tree w') i = file_of (w_tree w) i" by auto
  have slots: "\<not> (d = root \<and> ev_key E n = ev_key E name) \<Longrightarrow> slot E (w_tree w') d n = slot E (w_tree w) d n" for d n
    using cases wf by (auto simp: slot_drop_entry)
  then show "p \<noteq> root \<or> ev_key E (file_name record) \<noteq> ev_key E name \<Longrightarrow>
      slot E (w_tree w') p (file_name record) = slot E (w_tree w) p (file_name record)" by blast
  have keep: "\<not> (d = root \<and> ev_key E n = ev_key E name)" if "slot E (w_tree w0) d n = Some e" for d n e
    using that absent slot_cong_key [of E n name "w_tree w0" d] by auto
  have fewer: "slot E (w_tree w) d n = Some e" if "slot E (w_tree w') d n = Some e" for d n e
    using that cases wf by (auto simp: slot_drop_entry split: if_splits)
  have "slot E (w_tree w') d n = Some e" if e: "slot E (w_tree w) d n = Some e" "leads e" for d n e
  proof (cases "d = root \<and> ev_key E n = ev_key E name")
    case True
    then have temp: "slot E (w_tree w) root name = Some e" using e(1) slot_cong_key [of E n name "w_tree w" d] by simp
    with inst absent have "new_entry (w_tree w0) e" unfolding installs_def by (metis option.distinct(1))
    with e(2) obtain j where "e = SubDir j" by (auto simp: leads_def new_entry_def split: dir_entry.splits)
    with temp run have "w_tree w' = w_tree w" by (auto simp: remove_file_def io_def Let_def split: option.splits)
    with e(1) show ?thesis by simp
  next
    case False
    from slots [OF this] e(1) show ?thesis by simp
  qed
  then show "arrives E d' record w0 w p \<Longrightarrow> arrives E d' record w0 w' p"
    using walk_to_cong [of E "w_tree w" "w_tree w'"] unfolding arrives_def by blast
  show "extends E w0 w'" if ext: "extends E w0 w"
  proof -
    have "is_dir (w_tree w') d = is_dir (w_tree w) d" for d
      using cases wf by (auto simp: is_dir_def drop_entry_def om_get_insert split: option.splits if_splits)
    moreover have "tree_wf (w_tree w')" using ext cases tree_wf_drop_entry by (auto simp: extends_def)
    moreover have "slot E (w_tree w') d n = Some e" if "slot E (w_tree w0) d n = Some e" for d n e
      using that ext slots [OF keep [OF that]] by (simp add: extends_def grows_def)
    moreover have "file_of (w_tree w') j = file_of (w_tree w) j" for j using cases by auto
    ultimately show ?thesis using ext cases fewer unfolding extends_def grows_def by simp
  qed
  have rep: "replaced E C src record declared hash p w'"
    if "slot E (w_tree w0) p n = Some e" "ev_key E n = ev_key E (file_name record)"
      "replaced E C src record declared hash p w" for n e
  proof -
    have "\<not> (p = root \<and> ev_key E (file_name record) = ev_key E name)" using keep [OF that(1)] that(2) by simp
    then have "slot E (w_tree w') p (file_name record) = slot E (w_tree w) p (file_name record)" by (rule slots)
    with that(3) cases show ?thesis by (auto simp: replaced_def)
  qed
  have "tree_wf (w_tree w')" using inst cases tree_wf_drop_entry by (auto simp: installs_def)
  moreover have "file_of (w_tree w') j = file_of (w_tree w) j" for j using cases by auto
  moreover have "slot E (w_tree w') d n = Some e
      \<or> d = p \<and> ev_key E n = ev_key E (file_name record) \<and> replaced E C src record declared hash p w'"
    if s: "slot E (w_tree w0) d n = Some e" for d n e
  proof -
    from inst s consider "slot E (w_tree w) d n = Some e"
      | "d = p" "ev_key E n = ev_key E (file_name record)" "replaced E C src record declared hash p w"
      unfolding installs_def by blast
    then show ?thesis
    proof cases
      case 1
      with slots [OF keep [OF s]] show ?thesis by simp
    next
      case 2
      with rep s show ?thesis by blast
    qed
  qed
  ultimately show "installs E C src record declared hash p w0 w'"
    using inst cases fewer unfolding installs_def by simp
qed

end
