(* ===== verification/Installer_Safety.thy ===== *)
theory Installer_Safety
  imports Installer_Props State_Props
begin

text \<open>
  The guarantee of an installation, for every environment: whichever call fails and whenever, a file that was there
  keeps its content under its name, except that the destination may become a file with exactly the declared
  content; and a reported installation has put that content there.
\<close>

text \<open>
  The destination directory of an installation under \<open>path\<close>: where the record's parent path leads from a
  directory the environment resolved \<open>path\<close> to.
\<close>

definition destination :: "env \<Rightarrow> os_path \<Rightarrow> Record \<Rightarrow> world \<Rightarrow> world \<Rightarrow> nat \<Rightarrow> bool" where
  "destination E path record w0 w p \<longleftrightarrow>
     (\<exists>t q root. ev_root E t path = Inr (q, root) \<and> arrives E root record w0 w p)"

definition ready ::
  "env \<Rightarrow> crypto \<Rightarrow> byte list \<Rightarrow> u64 \<Rightarrow> bytes32 \<Rightarrow> world \<Rightarrow> nat \<Rightarrow> string \<Rightarrow> nat \<Rightarrow> FileFingerprint \<Rightarrow> world \<Rightarrow> bool" where
  "ready E C src declared hash w0 root name i fp w \<longleftrightarrow> staged E w0 root name i w
     \<and> (\<exists>fd. file_of (w_tree w) i = Some fd \<and> verified C src declared hash (fd_bytes fd) \<and> fp = fingerprint_of fd hash)"

lemma ready_preserved:
  assumes "\<And>w1. preserves (extends E w1) m"
  shows "preserves (ready E C src declared hash w0 root name i fp) m"
  unfolding preserves_def
proof (intro allI impI)
  fix w assume w: "ready E C src declared hash w0 root name i fp w"
  then have ext: "extends E w0 w" by (simp add: ready_def staged_def)
  then have "extends E w w" by (simp add: extends_def)
  with assms [of w] have grown: "extends E w (snd (m w))" by (simp add: preserves_def)
  with ext have "extends E w0 (snd (m w))" by (rule extends_trans)
  moreover have "slot E (w_tree (snd (m w))) root name = Some (Regular i)"
      "\<And>fd. file_of (w_tree w) i = Some fd \<Longrightarrow> file_of (w_tree (snd (m w))) i = Some fd"
    using w grown by (simp_all add: ready_def staged_def extends_def grows_def)
  ultimately show "ready E C src declared hash w0 root name i fp (snd (m w))"
    using w unfolding ready_def staged_def by blast
qed

text \<open>What a reported installation leaves at the destination.\<close>

definition delivered ::
  "env \<Rightarrow> crypto \<Rightarrow> byte list \<Rightarrow> Record \<Rightarrow> u64 \<Rightarrow> bytes32 \<Rightarrow> nat \<Rightarrow> InstalledFile \<Rightarrow> world \<Rightarrow> bool" where
  "delivered E C src record declared hash p installed w \<longleftrightarrow>
     (\<exists>i fd. slot E (w_tree w) p (file_name record) = Some (Regular i) \<and> file_of (w_tree w) i = Some fd
        \<and> verified C src declared hash (fd_bytes fd) \<and> if_fingerprint installed = fingerprint_of fd hash)"

abbreviation reports :: "InstallError + InstalledFile \<Rightarrow> InstalledFile \<Rightarrow> bool" where
  "reports r installed \<equiv> r = Inr installed \<or> (\<exists>e. r = Inl (PostRenameDurability installed e))"

lemma finish_installed:
  assumes hook: "quiet hook" and inst: "installs E C src record declared hash p w0 w"
    and del: "delivered E C src record declared hash p installed w"
    and run: "catchS (bindS (hook AfterRename) (\<lambda>_. bindS (open_relative_dir E root relative) (sync_dir E)))
      (\<lambda>r. case r of Inl e \<Rightarrow> throwS (PostRenameDurability installed e) | Inr _ \<Rightarrow> returnS installed) w = (r, w')"
  shows "reports r installed" and "installs E C src record declared hash p w0 w'"
    and "delivered E C src record declared hash p installed w'"
    and "destination E path record w0 w p \<Longrightarrow> destination E path record w0 w' p"
proof -
  let ?m = "bindS (hook AfterRename) (\<lambda>_. bindS (open_relative_dir E root relative) (sync_dir E))"
  obtain r1 where r1: "?m w = (r1, w')" "reports r installed"
    using run by (cases "?m w") (auto simp: catchS_def split: sum.splits)
  have same: "w_tree w' = w_tree w" "w_state w' = w_state w"
    using untouched_finish [OF hook, of E root relative] r1(1) by (auto simp: untouched_def dest!: spec [of _ w])
  show "reports r installed" by (rule r1(2))
  show "destination E path record w0 w' p" if "destination E path record w0 w p"
    using that same by (simp add: destination_def arrives_def)
  show "installs E C src record declared hash p w0 w'" using inst same by (simp add: installs_def replaced_def)
  show "delivered E C src record declared hash p installed w'" using del same by (simp add: delivered_def)
qed

text \<open>Only the end of an installation reports a failure after the rename.\<close>

definition early :: "(world, InstallError, 'a) action \<Rightarrow> bool" where
  "early m \<longleftrightarrow> (\<forall>w. \<not> is_post_rename (fst (m w)))"

named_theorems early_intros

lemma early_rules [early_intros]:
  "early (returnS a)" "early (throwS UnsafeDestination)" "early (throwS LocalNameCollision)"
  "early (throwS SizeMismatch)" "early (throwS HashMismatch)" "early (throwS (InstallError.Io e))"
  "early (mapErrS InstallError.Io m)" "early (mapErrS (\<lambda>_. UnsafeDestination) m)"
  "early m' \<Longrightarrow> early n \<Longrightarrow> early (if b then m' else n)"
  by (auto simp: early_def is_post_rename_def mapErrS_def mapErr_def split: prod.split sum.split)

lemma early_bindS [early_intros]:
  assumes "early m" and "\<And>a. early (f a)"
  shows "early (bindS m f)"
  unfolding early_def
proof
  fix w
  obtain r w1 where r: "m w = (r, w1)" by fastforce
  have "\<not> is_post_rename r" using assms(1) r by (auto simp: early_def dest: spec [of _ w])
  moreover have "\<not> is_post_rename (fst (f a w1))" for a using assms(2) [of a] by (simp add: early_def)
  ultimately show "\<not> is_post_rename (fst (bindS m f w))"
    using r by (cases r) (simp_all add: bindS_def is_post_rename_def)
qed

lemma early_on_missing [early_intros]:
  assumes "early found" and "early missing" and "\<And>e. early (failed e)"
  shows "early (catchS m (\<lambda>r. case r of Inr _ \<Rightarrow> found | Inl NotFound \<Rightarrow> missing | Inl e \<Rightarrow> failed e))"
  using assms by (auto simp: early_def catchS_def split: prod.split sum.split IoError.split)

lemma early_exact_entry_exists [early_intros]: "early (exact_entry_exists E d name)"
  unfolding exact_entry_exists_def by (intro early_intros)

lemma early_ensure_safe_parent [early_intros]: "early (ensure_safe_parent E root relative hook)"
proof -
  have "early (ensure_safe_parent_from E hook root current logical cs)" for current logical cs
  proof (induction cs arbitrary: current logical)
    case Nil
    show ?case unfolding ensure_safe_parent_from.simps by (rule early_intros)
  next
    case (Cons c cs)
    show ?case unfolding ensure_safe_parent_from.simps by (intro early_intros Cons.IH)
  qed
  then show ?thesis unfolding ensure_safe_parent_def by (intro early_intros)
qed

lemma early_reject_concrete_collision [early_intros]: "early (reject_concrete_collision E root relative name)"
  unfolding reject_concrete_collision_def by (intro early_intros)

lemma early_copy_loop [early_intros]: "early (copy_loop E i declared written hashed limited)"
proof (induction E i declared written hashed limited rule: copy_loop.induct)
  case (1 E i declared written hashed limited)
  let ?chunk = "take (64 * 1024) limited"
  have "early (case u64_checked_add written (of_nat (length ?chunk)) of None \<Rightarrow> throwS SizeMismatch
      | Some n \<Rightarrow> if n > declared then throwS SizeMismatch
          else bindS (mapErrS InstallError.Io (write_all E i ?chunk)) (\<lambda>_.
            copy_loop E i declared n (hashed @ ?chunk) (drop (64 * 1024) limited)))" if "limited \<noteq> []"
  proof (cases "u64_checked_add written (of_nat (length ?chunk))")
    case None
    then show ?thesis by (simp only: option.case) (rule early_intros)
  next
    case (Some n)
    then show ?thesis
      by (simp only: option.case) (cases "n > declared"; simp only: if_True if_False;
        (rule early_rules | intro early_intros "1.IH" [OF that refl Some]))
  qed
  then show ?case
    unfolding copy_loop.simps [of E i declared written hashed limited] Let_def
    by (cases "limited = []"; simp only: if_True if_False simp_thms; (intro early_intros)?) 
qed

lemma early_write_verified [early_intros]: "early (write_verified E C hook i ns declared hash src)"
  unfolding write_verified_def set_mtime_def Let_def
  by (intro early_intros early_bindS) (auto intro!: early_intros split: prod.split)

lemma triple_early: "triple P m R \<Longrightarrow> early m \<Longrightarrow> triple P m (\<lambda>r w. R r w \<and> \<not> is_post_rename r)"
  by (auto simp: triple_def early_def case_prod_beta)

text \<open>
  The outcome: either the tree only grew and nothing is reported, or only the entry at the destination may have
  been replaced.
\<close>

definition install_effect ::
  "env \<Rightarrow> crypto \<Rightarrow> os_path \<Rightarrow> byte list \<Rightarrow> Record \<Rightarrow> u64 \<Rightarrow> bytes32 \<Rightarrow> world \<Rightarrow> InstallError + InstalledFile \<Rightarrow> world \<Rightarrow> bool" where
  "install_effect E C path src record declared hash w0 r w \<longleftrightarrow> (\<exists>p. installs E C src record declared hash p w0 w
     \<and> (destination E path record w0 w p \<or> extends E w0 w \<and> (\<forall>installed. \<not> reports r installed))
     \<and> (\<forall>installed. reports r installed \<longrightarrow> delivered E C src record declared hash p installed w))"

lemma install_effect_early:
  "extends E w0 w \<Longrightarrow> \<not> is_post_rename (Inl e :: InstallError + unit) \<Longrightarrow> install_effect E C path src record declared hash w0 (Inl e) w"
  by (auto simp: install_effect_def is_post_rename_def intro!: exI [of _ 0] extends_installs)

lemma triple_phase:
  assumes m: "preserves J m" "early m" and J: "\<And>w. J w \<Longrightarrow> extends E w0 w"
    and f: "\<And>a. triple J (f a) (install_effect E C path src record declared hash w0)"
  shows "triple J (bindS m f) (install_effect E C path src record declared hash w0)"
proof (rule triple_bindS [OF triple_early [OF _ m(2)]])
  show "triple J m (\<lambda>_. J)" using m(1) by (simp add: triple_preserves)
  show "J s \<and> \<not> is_post_rename (Inl e) \<Longrightarrow> install_effect E C path src record declared hash w0 (Inl e) s" for e s
    by (rule install_effect_early) (auto simp: is_post_rename_def intro: J)
  show "triple (\<lambda>s. J s \<and> \<not> is_post_rename (Inr a)) (f a) (install_effect E C path src record declared hash w0)" for a
    by (rule triple_weaken [OF f]) simp_all
qed

lemma rename_and_finish:
  assumes hook: "quiet hook" and absent: "slot E (w_tree w0) (sr_directory root) name = None"
    and opened: "ev_root E t path = Inr (q, sr_directory root)"
  shows "triple (ready E C src declared hash w0 (sr_directory root) name i fp)
    (bindS (mapErrS InstallError.Io (rename E (sr_directory root) name (sr_directory root) (path_components record))) (\<lambda>_.
     let installed = \<lparr>if_path = os_join (sr_resolved_path root) (as_str (r_path record)),
           if_resolved_root = sr_resolved_path root, if_fingerprint = fp\<rparr> in
     catchS (bindS (hook AfterRename) (\<lambda>_. bindS (open_relative_dir E (sr_directory root) (parent_relative record)) (sync_dir E)))
       (\<lambda>r. case r of Inl e \<Rightarrow> throwS (PostRenameDurability installed e) | Inr _ \<Rightarrow> returnS installed)))
    (install_effect E C path src record declared hash w0)"
proof (rule tripleI)
  let ?d = "sr_directory root"
  let ?inst = "\<lparr>if_path = os_join (sr_resolved_path root) (as_str (r_path record)),
           if_resolved_root = sr_resolved_path root, if_fingerprint = fp\<rparr>"
  let ?fin = "catchS (bindS (hook AfterRename) (\<lambda>_. bindS (open_relative_dir E ?d (parent_relative record)) (sync_dir E)))
       (\<lambda>r. case r of Inl e \<Rightarrow> throwS (PostRenameDurability ?inst e) | Inr _ \<Rightarrow> returnS ?inst)"
  fix w r w' assume w: "ready E C src declared hash w0 ?d name i fp w"
    and run: "bindS (mapErrS InstallError.Io (rename E ?d name ?d (path_components record)))
      (\<lambda>_. let installed = ?inst in catchS (bindS (hook AfterRename) (\<lambda>_. bindS (open_relative_dir E ?d (parent_relative record)) (sync_dir E)))
       (\<lambda>r. case r of Inl e \<Rightarrow> throwS (PostRenameDurability installed e) | Inr _ \<Rightarrow> returnS installed)) w = (r, w')"
  obtain fd where fd: "file_of (w_tree w) i = Some fd" "verified C src declared hash (fd_bytes fd)" "fp = fingerprint_of fd hash"
    and st: "staged E w0 ?d name i w"
    using w by (auto simp: ready_def)
  obtain r1 w1 where 1: "rename E ?d name ?d (path_components record) w = (r1, w1)" by fastforce
  show "install_effect E C path src record declared hash w0 r w'"
  proof (cases r1)
    case (Inl e)
    then have "w_tree w1 = w_tree w" "w_state w1 = w_state w"
      using 1 by (auto simp: rename_def io_def Let_def split: option.splits sum.splits)
    then have "extends E w0 w1" using st by (simp add: staged_def extends_def)
    moreover have "r = Inl (InstallError.Io e)" "w' = w1" using run 1 Inl by (simp_all add: bindS_def mapErrS_def)
    ultimately show ?thesis by (simp add: install_effect_early is_post_rename_def)
  next
    case (Inr u)
    then have "rename E ?d name ?d (path_components record) w = (Inr (), w1)" using 1 by simp
    from rename_installs [OF st fd(1,2) absent this] obtain p where p: "installs E C src record declared hash p w0 w1"
        "arrives E ?d record w0 w1 p" "slot E (w_tree w1) p (file_name record) = Some (Regular i)" "file_of (w_tree w1) i = Some fd"
      by blast
    have del: "delivered E C src record declared hash p ?inst w1" using p fd by (simp add: delivered_def)
    have arr: "destination E path record w0 w1 p" using p(2) opened by (auto simp: destination_def)
    have fin: "?fin w1 = (r, w')" using run 1 Inr by (simp add: bindS_def mapErrS_def Let_def)
    note f = finish_installed [OF hook p(1) del fin]
    show ?thesis
      unfolding install_effect_def
    proof (intro exI conjI allI impI)
      show "installs E C src record declared hash p w0 w'" by (rule f(2))
      show "destination E path record w0 w' p \<or> extends E w0 w' \<and> (\<forall>installed. \<not> reports r installed)"
        using f(4) [OF arr] by (rule disjI1)
      fix x assume "reports r x"
      then have "x = ?inst" using f(1) by (elim disjE exE) simp_all
      with f(3) show "delivered E C src record declared hash p x w'" by simp
    qed
  qed
qed

lemma publish_effect:
  assumes hook: "quiet hook" and absent: "slot E (w_tree w0) (sr_directory root) name = None"
    and opened: "ev_root E t path = Inr (q, sr_directory root)"
  shows "triple (ready E C src declared hash w0 (sr_directory root) name i fp) (publish E hook root record name fp)
    (install_effect E C path src record declared hash w0)"
proof -
  have keep: "ready E C src declared hash w0 (sr_directory root) name i fp w \<Longrightarrow> extends E w0 w" for w
    by (simp add: ready_def staged_def)
  note pres = ready_preserved [OF preserves_mapErrS [OF preserves_quiet [OF hook]]]
    ready_preserved [OF preserves_ensure_safe_parent [OF hook]] ready_preserved [OF preserves_reject_concrete_collision]
  show ?thesis
    unfolding publish_def Let_def
    by (rule triple_phase [OF pres(1) early_rules(7) keep], assumption,
        rule triple_phase [OF pres(2) early_ensure_safe_parent keep], assumption,
        rule triple_phase [OF pres(3) early_reject_concrete_collision keep], assumption,
        rule rename_and_finish [OF hook absent opened, unfolded Let_def])
qed

lemma install_temporary_effect:
  assumes hook: "quiet hook" and absent: "slot E (w_tree w0) (sr_directory root) name = None"
    and opened: "ev_root E t path = Inr (q, sr_directory root)"
  shows "triple (extends E w0) (install_temporary E C hook root record declared hash name src)
    (install_effect E C path src record declared hash w0)"
  unfolding install_temporary_def
proof (rule triple_bindS [OF triple_early [OF triple_mapErrS [OF triple_weaken [OF create_new_staged]]]])
  let ?d = "sr_directory root"
  let ?R1 = "\<lambda>r w. extends E w0 w \<and> (\<forall>i. r = Inr i \<longrightarrow> staged_with E w0 ?d name i [] w)"
  show "extends E w0 s \<Longrightarrow> extends E w0 s" for s .
  show "extends E w0 s \<and> (\<forall>i. r = Inr i \<longrightarrow> staged E w0 ?d name i s \<and> holds i [] s) \<Longrightarrow> ?R1 (mapErr InstallError.Io r) s"
    for r s by (simp add: staged_with_def)
  show "early (mapErrS InstallError.Io (create_new E ?d name))" by (rule early_intros)
  show "?R1 (Inl e) s \<and> \<not> is_post_rename (Inl e :: InstallError + nat) \<Longrightarrow>
      install_effect E C path src record declared hash w0 (Inl e) s" for e s
    by (rule install_effect_early) (auto simp: is_post_rename_def)
  fix i
  let ?R2 = "\<lambda>r w. staged E w0 ?d name i w \<and> (\<forall>fp. r = Inr fp \<longrightarrow> ready E C src declared hash w0 ?d name i fp w)"
  show "triple (\<lambda>s. ?R1 (Inr i) s \<and> \<not> is_post_rename (Inr i :: InstallError + nat))
    (bindS (write_verified E C hook i (r_modified_ns record) declared hash src) (publish E hook root record name))
    (install_effect E C path src record declared hash w0)"
  proof (rule triple_bindS [OF triple_early [OF triple_weaken [OF write_verified_staged [OF hook]]]])
    show "?R1 (Inr i) s \<and> \<not> is_post_rename (Inr i :: InstallError + nat) \<Longrightarrow> staged_with E w0 ?d name i [] s" for s by simp
    show "staged E w0 ?d name i s \<and> (\<forall>fp. r = Inr fp \<longrightarrow> (\<exists>fd. file_of (w_tree s) i = Some fd
        \<and> verified C src declared hash (fd_bytes fd) \<and> fp = fingerprint_of fd hash)) \<Longrightarrow> ?R2 r s" for r s
      by (auto simp: ready_def)
    show "early (write_verified E C hook i (r_modified_ns record) declared hash src)" by (rule early_intros)
    show "?R2 (Inl e) s \<and> \<not> is_post_rename (Inl e :: InstallError + FileFingerprint) \<Longrightarrow>
        install_effect E C path src record declared hash w0 (Inl e) s" for e s
      by (rule install_effect_early) (auto simp: is_post_rename_def staged_def)
    show "triple (\<lambda>s. ?R2 (Inr fp) s \<and> \<not> is_post_rename (Inr fp :: InstallError + FileFingerprint))
        (publish E hook root record name fp) (install_effect E C path src record declared hash w0)" for fp
      by (rule triple_weaken [OF publish_effect [where i = i, OF hook absent opened]]) simp_all
  qed
qed

lemma remove_temporary_effect:
  assumes absent: "slot E (w_tree w0) root name = None" and eff: "install_effect E C path src record declared hash w0 r w"
    and name: "\<And>p installed. reports r installed \<Longrightarrow> ev_key E (file_name record) \<noteq> ev_key E name"
    and run: "remove_file E root name w = (x, w')"
  shows "install_effect E C path src record declared hash w0 r w'"
proof -
  from eff obtain p where p: "installs E C src record declared hash p w0 w"
      "destination E path record w0 w p \<or> extends E w0 w \<and> (\<forall>installed. \<not> reports r installed)"
      "\<forall>installed. reports r installed \<longrightarrow> delivered E C src record declared hash p installed w"
    unfolding install_effect_def by blast
  note rm = remove_file_temporary [OF p(1) absent run]
  have "delivered E C src record declared hash p installed w'" if "reports r installed" for installed
    using p(3) that rm(2,3) name [OF that] by (auto simp: delivered_def)
  moreover have "destination E path record w0 w' p \<or> extends E w0 w' \<and> (\<forall>installed. \<not> reports r installed)"
    using p(2) rm(5) remove_file_temporary(4) [OF p(1) absent run] unfolding destination_def by blast
  ultimately show ?thesis using rm(1) unfolding install_effect_def by blast
qed

lemma early_open_root [early_intros]: "early (open_root E root hook)"
  by (auto simp: early_def open_root_def is_post_rename_def mapErrS_def mapErr_def
      split: prod.split sum.split StableRootError.split)

lemma early_temporary_name [early_intros]: "early (temporary_name E root)"
proof -
  have "early (temporary_name_attempts E root n)" for n
  proof (induction n)
    case 0
    show ?case unfolding temporary_name_attempts.simps by (simp add: early_def is_post_rename_def)
  next
    case (Suc n)
    have g: "early (mapErrS (\<lambda>_. Random) (getrandom E))"
      by (auto simp: early_def is_post_rename_def mapErrS_def mapErr_def split: prod.split sum.split)
    show ?case
      unfolding temporary_name_attempts.simps Let_def by (intro early_bindS early_on_missing early_rules Suc.IH g)
  qed
  then show ?thesis by (simp add: temporary_name_def)
qed

text \<open>A record never names a temporary file of an installation.\<close>

definition no_temporary :: "env \<Rightarrow> Record \<Rightarrow> bool" where
  "no_temporary E record \<longleftrightarrow>
     (\<forall>pid random. ev_key E (file_name record) \<noteq> ev_key E (temporary_format pid random))"

lemma open_ambient_dir_resolved:
  "open_ambient_dir E path w = (Inr d, w') \<Longrightarrow> \<exists>q. ev_root E (w_tick w) path = Inr (q, d)"
  by (auto simp: open_ambient_dir_def io_read_def io_Inr bindE_eq_Inr)

lemma resolved_attempts:
  "open_stable_root_attempts E path hook n last_error w = (Inr sr, w') \<Longrightarrow> \<exists>t q. ev_root E t path = Inr (q, sr_directory sr)"
proof (induction n arbitrary: last_error w)
  case 0
  then show ?case by (simp split: option.splits)
next
  case (Suc n)
  obtain r w1 where 1: "open_ambient_dir E path w = (r, w1)" by fastforce
  show ?case
  proof (cases r)
    case (Inl e)
    with Suc.prems 1 have "open_stable_root_attempts E path hook n (Some e) w1 = (Inr sr, w')" by (simp add: catchS_def)
    then show ?thesis by (rule Suc.IH)
  next
    case (Inr d)
    with Suc.prems 1 have "sr_directory sr = d"
      by (auto simp: catchS_def bindS_eq_Inr split: if_splits)
    with open_ambient_dir_resolved [of E path w d w1] 1 Inr show ?thesis by auto
  qed
qed

lemma open_root_resolved:
  assumes "quiet hook"
  shows "triple (extends E w0) (open_root E path (hook st))
    (\<lambda>r w. extends E w0 w \<and> (\<forall>sr. r = Inr sr \<longrightarrow> (\<exists>t q. ev_root E t path = Inr (q, sr_directory sr))))"
proof (rule tripleI)
  fix w r w' assume w: "extends E w0 w" and run: "open_root E path (hook st) w = (r, w')"
  have "extends E w0 w'" using preserves_open_root [OF preserves_quiet [OF assms]] w run by (rule preservesD)
  moreover have "\<exists>t q. ev_root E t path = Inr (q, sr_directory sr)" if "r = Inr sr" for sr
    using run that resolved_attempts by (auto simp: open_root_def open_stable_root_with_hook_def mapErrS_def split: prod.splits sum.splits)
  ultimately show "extends E w0 w' \<and> (\<forall>sr. r = Inr sr \<longrightarrow> (\<exists>t q. ev_root E t path = Inr (q, sr_directory sr)))"
    by blast
qed

lemma install_phases:
  assumes env: "honest E" and hook: "quiet hook" and name: "no_temporary E record"
    and opened: "ev_root E t path = Inr (q, sr_directory sr)"
  shows "triple (extends E w0)
    (bindS (ensure_safe_parent E (sr_directory sr) (parent_relative record) hook) (\<lambda>_.
     bindS (reject_concrete_collision E (sr_directory sr) (parent_relative record) (file_name record)) (\<lambda>_.
     bindS (temporary_name E (sr_directory sr)) (\<lambda>temporary.
     catchS (install_temporary E C hook sr record declared hash temporary src) (\<lambda>result.
       bindS (if is_post_rename result then returnS ()
         else catchS (remove_file E (sr_directory sr) temporary) (\<lambda>_. returnS ())) (\<lambda>_. liftS result))))))
    (install_effect E C path src record declared hash w0)"
proof -
  let ?d = "sr_directory sr"
  let ?finish = "\<lambda>temporary result. bindS (if is_post_rename result then returnS ()
      else catchS (remove_file E ?d temporary) (\<lambda>_. returnS ())) (\<lambda>_. liftS result)"
  let ?R = "\<lambda>r w. extends E w0 w \<and> (\<forall>name. r = Inr name \<longrightarrow> slot E (w_tree w0) ?d name = None
       \<and> (\<exists>pid random. name = temporary_format pid random))"
  show ?thesis
  proof (rule triple_phase [OF preserves_ensure_safe_parent [OF hook] early_ensure_safe_parent], assumption,
      rule triple_phase [OF preserves_reject_concrete_collision early_reject_concrete_collision], assumption)
    show "triple (extends E w0) (bindS (temporary_name E ?d) (\<lambda>temporary.
        catchS (install_temporary E C hook sr record declared hash temporary src) (?finish temporary)))
      (install_effect E C path src record declared hash w0)"
    proof (rule triple_bindS [OF triple_early])
      show "triple (extends E w0) (temporary_name E ?d) ?R"
        unfolding temporary_name_def by (rule temporary_name_absent [OF env])
      show "early (temporary_name E ?d)" by (rule early_intros)
      show "?R (Inl e) s \<and> \<not> is_post_rename (Inl e :: InstallError + string) \<Longrightarrow>
          install_effect E C path src record declared hash w0 (Inl e) s" for e s
        by (rule install_effect_early) (auto simp: is_post_rename_def)
      fix temporary
      show "triple (\<lambda>s. ?R (Inr temporary) s \<and> \<not> is_post_rename (Inr temporary :: InstallError + string))
          (catchS (install_temporary E C hook sr record declared hash temporary src) (?finish temporary))
          (install_effect E C path src record declared hash w0)"
      proof (rule tripleI)
        fix w r w' assume w: "?R (Inr temporary) w \<and> \<not> is_post_rename (Inr temporary :: InstallError + string)"
          and run: "catchS (install_temporary E C hook sr record declared hash temporary src) (?finish temporary) w = (r, w')"
        from w have ext: "extends E w0 w" and absent: "slot E (w_tree w0) ?d temporary = None"
            and form: "\<exists>pid random. temporary = temporary_format pid random" by simp_all
        obtain r1 w1 where 1: "install_temporary E C hook sr record declared hash temporary src w = (r1, w1)"
          by fastforce
        have eff: "install_effect E C path src record declared hash w0 r1 w1"
          by (rule tripleD [OF install_temporary_effect [OF hook absent opened] ext 1])
        show "install_effect E C path src record declared hash w0 r w'"
        proof (cases "is_post_rename r1")
          case True
          with run 1 have "r = r1" "w' = w1" by (simp_all add: catchS_def bindS_def)
          with eff show ?thesis by simp
        next
          case False
          obtain x w2 where 2: "remove_file E ?d temporary w1 = (x, w2)" by fastforce
          with run 1 False have "r = r1" "w' = w2" by (simp_all add: catchS_def bindS_def)
          moreover have "install_effect E C path src record declared hash w0 r1 w2"
            by (rule remove_temporary_effect [OF absent eff _ 2]) (use name form in \<open>auto simp: no_temporary_def\<close>)
          ultimately show ?thesis by simp
        qed
      qed
    qed
  qed
qed

lemma install_file_effect:
  assumes env: "honest E" and hook: "quiet hook" and kind: "r_kind record = RecordKind.File declared hash"
    and name: "no_temporary E record"
  shows "triple (extends E w0) (install_file_with_hook E C path record src hook)
    (install_effect E C path src record declared hash w0)"
  unfolding install_file_with_hook_def kind RecordKind.case Let_def
proof (rule triple_bindS [OF triple_early [OF open_root_resolved [OF hook]]])
  show "early (open_root E path (hook DuringRootAcquisition))" by (rule early_intros)
  show "(extends E w0 s \<and> (\<forall>sr. Inl e = Inr sr \<longrightarrow> (\<exists>t q. ev_root E t path = Inr (q, sr_directory sr))))
      \<and> \<not> is_post_rename (Inl e :: InstallError + StableRoot) \<Longrightarrow> install_effect E C path src record declared hash w0 (Inl e) s" for e s
    by (rule install_effect_early) (auto simp: is_post_rename_def)
  fix sr :: StableRoot
  let ?d = "sr_directory sr"
  let ?finish = "\<lambda>temporary result. bindS (if is_post_rename result then returnS ()
      else catchS (remove_file E ?d temporary) (\<lambda>_. returnS ())) (\<lambda>_. liftS result)"
  show "triple (\<lambda>s. (extends E w0 s \<and> (\<forall>sr'. Inr sr = Inr sr' \<longrightarrow> (\<exists>t q. ev_root E t path = Inr (q, sr_directory sr'))))
       \<and> \<not> is_post_rename (Inr sr :: InstallError + StableRoot))
    (bindS (ensure_safe_parent E ?d (parent_relative record) hook) (\<lambda>_.
     bindS (reject_concrete_collision E ?d (parent_relative record) (file_name record)) (\<lambda>_.
     bindS (temporary_name E ?d) (\<lambda>temporary.
     catchS (install_temporary E C hook sr record declared hash temporary src) (?finish temporary)))))
    (install_effect E C path src record declared hash w0)"
  proof (cases "\<exists>t q. ev_root E t path = Inr (q, ?d)")
    case False
    then show ?thesis by (simp add: triple_def)
  next
    case True
    then obtain t q where opened: "ev_root E t path = Inr (q, ?d)" by blast
    show ?thesis by (rule triple_weaken [OF install_phases [OF env hook name opened]]) simp_all
  qed
qed

lemma install_effect_kept:
  assumes "install_effect E C path src record declared hash w r w'"
  shows "\<forall>d n e. slot E (w_tree w) d n = Some e \<longrightarrow> slot E (w_tree w') d n = Some e
      \<or> (\<exists>t q root. ev_root E t path = Inr (q, root) \<and> walk_to E (w_tree w) root (parent_relative record) = Inr d)
        \<and> ev_key E n = ev_key E (file_name record) \<and> replaced E C src record declared hash d w'"
proof (intro allI impI)
  fix d n e assume e: "slot E (w_tree w) d n = Some e"
  from assms obtain p where inst: "installs E C src record declared hash p w w'"
      and dest: "destination E path record w w' p \<or> extends E w w' \<and> (\<forall>installed. \<not> reports r installed)"
    unfolding install_effect_def by blast
  have there: "\<exists>t q root. ev_root E t path = Inr (q, root) \<and> walk_to E (w_tree w) root (parent_relative record) = Inr p"
    if "destination E path record w w' p" "is_dir (w_tree w) p"
    using that unfolding destination_def arrives_def by blast
  show "slot E (w_tree w') d n = Some e
      \<or> (\<exists>t q root. ev_root E t path = Inr (q, root) \<and> walk_to E (w_tree w) root (parent_relative record) = Inr d)
        \<and> ev_key E n = ev_key E (file_name record) \<and> replaced E C src record declared hash d w'"
  proof (cases "destination E path record w w' p")
    case True
    with e slot_is_dir [OF e] inst there show ?thesis unfolding installs_def by blast
  next
    case False
    with dest e show ?thesis unfolding extends_def grows_def by blast
  qed
qed

section \<open>Sample device\<close>

definition sample_env :: env where
  "sample_env = \<lparr>ev_fault = (\<lambda>_. None), ev_clock = (\<lambda>n. of_nat n), ev_random = (\<lambda>n. of_nat n), ev_pid = 7, ev_key = id,
     ev_root = (\<lambda>_ p. if p = [47] then Inr ([47], 0) else Inl NotFound), ev_interfere = (\<lambda>_ _ fd. fd)\<rparr>"

definition sample_world :: world where
  "sample_world = \<lparr>w_tree = \<lparr>t_dirs = [(0, [])], t_files = [], t_next = 1\<rparr>, w_state = fresh_database, w_tick = 0, w_comparisons = []\<rparr>"

definition sample_upload :: Record where
  "sample_upload = \<lparr>r_collection = ''c'', r_path = ProtocolPath ''a/b'', r_modified_ns = 7, r_author = 3, r_kind = RecordKind.File 2 2\<rparr>"

lemma quiet_return: "quiet (\<lambda>_. returnS ())"
  by (simp add: quiet_def)

lemma sample_env_honest: "honest sample_env"
  by (simp add: honest_def sample_env_def)

lemma sample_world_wf: "tree_wf (w_tree sample_world)"
  by (simp add: sample_world_def tree_wf_def om_get_def)

lemma sample_upload_name: "no_temporary sample_env sample_upload"
proof -
  have "file_name sample_upload = ''b''" by (simp add: file_name_def path_components_def sample_upload_def)
  then show ?thesis by (simp add: no_temporary_def temporary_format_def sample_env_def)
qed

text \<open>A device whose collection already has another file at the destination, and the run that replaces it.\<close>

definition busy_env :: env where
  "busy_env = sample_env\<lparr>ev_random := (\<lambda>_. 11)\<rparr>"

definition old_file :: file_data where
  "old_file = \<lparr>fd_bytes = [9], fd_mtime = 0, fd_mtime_nsec = 0, fd_ctime = 0, fd_ctime_nsec = 0\<rparr>"

definition occupied :: "StateStore \<Rightarrow> nat \<Rightarrow> world" where
  "occupied s n = \<lparr>w_tree = \<lparr>t_dirs = [(0, [(''a'', SubDir 1)]), (1, [(''b'', Regular 2)])], t_files = [(2, old_file)], t_next = 3\<rparr>,
     w_state = s, w_tick = n, w_comparisons = []\<rparr>"

definition placed :: "StateStore \<Rightarrow> byte list \<Rightarrow> i64 \<Rightarrow> nat \<Rightarrow> world" where
  "placed s bs ns n = \<lparr>w_tree = \<lparr>t_dirs = [(0, [(''a'', SubDir 1), (''.skillsync-tmp-7-11'', Regular 3)]), (1, [(''b'', Regular 2)])],
     t_files = [(2, old_file), (3, \<lparr>fd_bytes = bs, fd_mtime = 0, fd_mtime_nsec = ns, fd_ctime = 0, fd_ctime_nsec = 0\<rparr>)], t_next = 4\<rparr>,
     w_state = s, w_tick = n, w_comparisons = []\<rparr>"

definition overwritten :: "StateStore \<Rightarrow> nat \<Rightarrow> world" where
  "overwritten s n = \<lparr>w_tree = \<lparr>t_dirs = [(0, [(''a'', SubDir 1)]), (1, [(''b'', Regular 3)])],
     t_files = [(2, old_file), (3, \<lparr>fd_bytes = [1, 2], fd_mtime = 0, fd_mtime_nsec = 7, fd_ctime = 0, fd_ctime_nsec = 0\<rparr>)], t_next = 4\<rparr>,
     w_state = s, w_tick = n, w_comparisons = []\<rparr>"

lemma busy_env_simps:
  "ev_fault busy_env n = None" "ev_key busy_env = id" "ev_random busy_env n = 11" "ev_pid busy_env = 7"
  "ev_root busy_env n [47] = Inr ([47], 0)" "ev_clock busy_env n = of_nat n"
  by (simp_all add: sample_env_def busy_env_def)

lemma busy_env_honest: "honest busy_env"
  by (simp add: honest_def busy_env_simps)

lemma sample_upload_paths:
  "parent_relative sample_upload = [''a'']" "file_name sample_upload = ''b''" "path_components sample_upload = [''a'', ''b'']"
  by (simp_all add: parent_relative_def file_name_def path_components_def sample_upload_def)

lemma busy_env_name: "file_name record = ''b'' \<Longrightarrow> no_temporary busy_env record"
  by (simp add: no_temporary_def temporary_format_def busy_env_simps)

lemmas file_calls = bindS_def mapErrS_def returnS_def throwS_def catchS_def io_def io_read_def io_noop_def entries_def dir_names_def
  symlink_metadata_def open_dir_def open_ambient_dir_def canonicalize_def dir_metadata_def getrandom_def create_new_def
  set_file_times_def file_metadata_def rename_def remove_file_def write_all_def busy_env_simps bindE_def ok_or_def

lemmas file_state = occupied_def placed_def overwritten_def om_get_def slot_def file_of_def

lemma exact_entry_run: "exact_entry_exists busy_env d name w = (case om_get (t_dirs (w_tree w)) d of
     None \<Rightarrow> (Inl (InstallError.Io NotADirectory), w\<lparr>w_tick := Suc (w_tick w)\<rparr>)
   | Some es \<Rightarrow> (Inr (\<exists>x \<in> set es. fst x = name), w\<lparr>w_tick := Suc (w_tick w)\<rparr>))"
  by (simp add: exact_entry_exists_def file_calls split: option.split)

lemma root_opened:
  "open_root busy_env [47] (returnS ()) (occupied s n) = (Inr \<lparr>sr_directory = 0, sr_resolved_path = [47]\<rparr>, occupied s (n + 6))"
  by (simp add: open_root_def open_stable_root_with_hook_def OPEN_ATTEMPTS_def file_calls file_state eval_nat_numeral)

lemma parent_safe:
  "ensure_safe_parent busy_env 0 [''a''] (\<lambda>_. returnS ()) (occupied s n) = (Inr (), occupied s (n + 3))"
  "ensure_safe_parent busy_env 0 [''a''] (\<lambda>_. returnS ()) (placed s bs ns n) = (Inr (), placed s bs ns (n + 3))"
  by (simp_all add: ensure_safe_parent_def ensure_safe_parent_from.simps exact_entry_run file_calls file_state normal_component_def)

lemma no_collision:
  "reject_concrete_collision busy_env 0 [''a''] ''b'' (occupied s n) = (Inr (), occupied s (n + 2))"
  "reject_concrete_collision busy_env 0 [''a''] ''b'' (placed s bs ns n) = (Inr (), placed s bs ns (n + 2))"
  by (simp_all add: reject_concrete_collision_def open_relative_dir_def exact_entry_run file_calls file_state)

lemma temporary_free: "temporary_name busy_env 0 (occupied s n) = (Inr ''.skillsync-tmp-7-11'', occupied s (n + 2))"
proof -
  have 16: "(16::nat) = Suc 15" by simp
  have "decimal 7 = ''7''" "decimal 11 = ''11''" by (simp_all add: decimal.simps) (simp_all add: char_of_def bit_0)
  then have name: "temporary_format 7 11 = ''.skillsync-tmp-7-11''" by (simp add: temporary_format_def)
  have free: "slot busy_env (w_tree (occupied s n)) 0 ''.skillsync-tmp-7-11'' = None" for n
    by (simp add: file_state busy_env_simps)
  have tick: "(occupied s n)\<lparr>w_tick := m\<rparr> = occupied s m" "w_tick (occupied s n) = n"
    "(occupied s n)\<lparr>w_tree := w_tree (occupied s l), w_tick := m\<rparr> = occupied s m" for n m l by (simp_all add: occupied_def)
  show ?thesis
    unfolding temporary_name_def 16 temporary_name_attempts.simps by (simp add: file_calls name free tick Let_def)
qed

lemma temporary_made: "create_new busy_env 0 ''.skillsync-tmp-7-11'' (occupied s n) = (Inr 3, placed s [] 0 (n + 1))"
  by (simp add: file_calls file_state add_entry_def)

lemma upload_copied: "copy_loop busy_env 3 2 0 [] [1, 2] (placed s [] 0 n) = (Inr ([1, 2], 2), placed s [1, 2] 0 (n + 3))"
  by (simp add: copy_loop.simps [of _ _ _ _ _ "[1, 2]"] copy_loop.simps [of _ _ _ _ _ "[]"] file_calls u64_checked_add_def
      file_state update_file_def Let_def)

lemma upload_dated: "set_mtime busy_env 3 7 (placed s [1, 2] 0 n) = (Inr (), placed s [1, 2] 7 (n + 1))"
  by (simp add: set_mtime_def file_calls file_state update_file_def Let_def)

lemma quiet_step: "mapErrS InstallError.Io (returnS ()) w = (Inr (), w)" for w :: world
  by (simp add: mapErrS_def returnS_def)

lemma upload_verified:
  "write_verified busy_env sample_crypto (\<lambda>_. returnS ()) 3 7 2 2 [1, 2] (placed s [] 0 n) =
   (Inr \<lparr>fp_modified_ns = 7, fp_size = 2, fp_hash = 2\<rparr>, placed s [1, 2] 7 (n + 7))"
proof -
  have source: "take (unat (u64_saturating_add 2 1)) [1, 2 :: byte] = [1, 2]"
    by (simp add: u64_saturating_add_def u64_checked_add_def)
  have noop: "mapErrS InstallError.Io (io_noop busy_env) (placed s bs ns n) = (Inr (), placed s bs ns (Suc n))" for bs ns n
    by (simp add: file_calls placed_def)
  have stat: "mapErrS InstallError.Io (file_metadata busy_env 3) (placed s [1, 2] 7 n) = (Inr \<lparr>fd_bytes = [1, 2],
      fd_mtime = 0, fd_mtime_nsec = 7, fd_ctime = 0, fd_ctime_nsec = 0\<rparr>, placed s [1, 2] 7 (Suc n))" for n
    by (simp add: file_calls file_state)
  show ?thesis
    unfolding write_verified_def source
    by (simp add: bindS_def upload_copied upload_dated noop stat quiet_step sample_crypto_def returnS_def metadata_time_ns_def
        i64_saturating_mul_def i64_saturating_add_def i64_saturating_def add.commute [of _ n])
qed

lemma upload_moved:
  "rename busy_env 0 ''.skillsync-tmp-7-11'' 0 [''a'', ''b''] (placed s [1, 2] 7 n) = (Inr (), overwritten s (n + 1))"
  by (simp add: file_calls file_state drop_entry_def add_entry_def)

lemma parent_synced:
  "bindS (open_relative_dir busy_env 0 [''a'']) (sync_dir busy_env) (overwritten s n) = (Inr (), overwritten s (n + 3))"
  by (simp add: open_relative_dir_def sync_dir_def file_calls file_state)

lemma temporary_gone:
  "remove_file busy_env 0 ''.skillsync-tmp-7-11'' (overwritten s n) = (Inl NotFound, overwritten s (n + 1))"
  by (simp add: file_calls file_state)

lemma occupied_run:
  "\<exists>installed. install_file busy_env sample_crypto [47] sample_upload [1, 2] (occupied s n) = (Inr installed, overwritten s (n + 31))"
proof -
  have kind: "r_kind sample_upload = RecordKind.File 2 2" "r_modified_ns sample_upload = 7" by (simp_all add: sample_upload_def)
  have create: "mapErrS InstallError.Io (create_new busy_env 0 ''.skillsync-tmp-7-11'') (occupied s n) = (Inr 3, placed s [] 0 (n + 1))" for n
    using temporary_made by (simp add: mapErrS_def)
  have move: "mapErrS InstallError.Io (rename busy_env 0 ''.skillsync-tmp-7-11'' 0 [''a'', ''b'']) (placed s [1, 2] 7 n)
      = (Inr (), overwritten s (n + 1))" for n
    using upload_moved by (simp add: mapErrS_def)
  have "\<exists>installed. install_temporary busy_env sample_crypto (\<lambda>_. returnS ()) \<lparr>sr_directory = 0, sr_resolved_path = [47]\<rparr> sample_upload 2 2
      ''.skillsync-tmp-7-11'' [1, 2] (occupied s (n + 13)) = (Inr installed, overwritten s (n + 30))"
    by (simp add: install_temporary_def publish_def kind sample_upload_paths bindS_def create upload_verified parent_safe no_collision
        move quiet_step catchS_def parent_synced [unfolded bindS_def] Let_def returnS_def add.commute [of _ n])
  then show ?thesis
    unfolding install_file_def install_file_with_hook_def kind RecordKind.case
    by (auto simp: bindS_def root_opened parent_safe no_collision temporary_free temporary_gone sample_upload_paths catchS_def
        is_post_rename_def Let_def liftS_def returnS_def add.commute [of _ n])
qed

text \<open>
  C28. Installing a received file is safe under every failure: whatever call fails and whenever, the state store is
  untouched, no file that was there is written to, every entry that appears is a new file or directory, and every
  directory entry that was there still names the same thing, except the record's destination: the entry of the
  record's file name in the directory its parent path leads to from the collection's root, which may now be a
  file holding exactly the declared number of bytes from the source, with the declared hash. Whenever the
  installation reports the file as installed, also when only the final directory sync failed, that file is at the
  destination with the fingerprint reported.
\<close>

theorem install_preserves_files:
  assumes "tree_wf (w_tree w)" and "honest E" and "r_kind record = RecordKind.File declared hash"
    and "no_temporary E record" and "install_file E C path record source_bytes w = (r, w')"
  shows "w_state w' = w_state w
    \<and> (\<forall>i fd. file_of (w_tree w) i = Some fd \<longrightarrow> file_of (w_tree w') i = Some fd)
    \<and> (\<forall>d n e. slot E (w_tree w') d n = Some e \<longrightarrow> slot E (w_tree w) d n = Some e \<or> new_entry (w_tree w) e)
    \<and> (\<forall>d n e. slot E (w_tree w) d n = Some e \<longrightarrow> slot E (w_tree w') d n = Some e
        \<or> (\<exists>t q root. ev_root E t path = Inr (q, root) \<and> walk_to E (w_tree w) root (parent_relative record) = Inr d)
          \<and> ev_key E n = ev_key E (file_name record)
          \<and> (\<exists>i fd. slot E (w_tree w') d (file_name record) = Some (Regular i) \<and> file_of (w_tree w') i = Some fd
               \<and> fd_bytes fd = take (unat declared) source_bytes
               \<and> of_nat (length (fd_bytes fd)) = declared \<and> c_blake3 C (fd_bytes fd) = hash))
    \<and> (\<forall>installed. r = Inr installed \<or> (\<exists>e. r = Inl (PostRenameDurability installed e)) \<longrightarrow>
        (\<exists>p i fd. destination E path record w w' p
           \<and> slot E (w_tree w') p (file_name record) = Some (Regular i) \<and> file_of (w_tree w') i = Some fd
           \<and> fd_bytes fd = take (unat declared) source_bytes
           \<and> of_nat (length (fd_bytes fd)) = declared \<and> c_blake3 C (fd_bytes fd) = hash
           \<and> if_fingerprint installed = fingerprint_of fd hash))"
proof -
  have effect: "install_effect E C path source_bytes record declared hash w r w'"
    using tripleD [OF install_file_effect [OF assms(2) quiet_return assms(3,4)] extends_refl [OF assms(1)]] assms(5)
    unfolding install_file_def by blast
  from effect obtain p where inst: "installs E C source_bytes record declared hash p w w'"
      and dest: "destination E path record w w' p \<or> extends E w w' \<and> (\<forall>installed. \<not> reports r installed)"
      and del: "\<forall>installed. reports r installed \<longrightarrow> delivered E C source_bytes record declared hash p installed w'"
    unfolding install_effect_def by blast
  note kept = install_effect_kept [OF effect]
  have "\<exists>p. destination E path record w w' p \<and> delivered E C source_bytes record declared hash p installed w'"
    if "reports r installed" for installed using that dest del by blast
  with inst kept show ?thesis
    unfolding installs_def replaced_def delivered_def verified_def by (intro conjI) (blast+)
qed

theorem install_preserves_files_witness:
  "\<exists>installed w'. install_file busy_env sample_crypto [47] sample_upload [1, 2] (occupied fresh_database 0) = (Inr installed, w')
    \<and> slot busy_env (w_tree (occupied fresh_database 0)) 1 ''b'' = Some (Regular 2) \<and> w_state w' = fresh_database
    \<and> (\<exists>p i fd. destination busy_env [47] sample_upload (occupied fresh_database 0) w' p
        \<and> slot busy_env (w_tree w') p ''b'' = Some (Regular i) \<and> file_of (w_tree w') i = Some fd \<and> fd_bytes fd = [1, 2])"
proof -
  let ?w = "occupied fresh_database 0" and ?w' = "overwritten fresh_database 31"
  obtain installed where run: "install_file busy_env sample_crypto [47] sample_upload [1, 2] ?w = (Inr installed, ?w')"
    using occupied_run [of fresh_database 0] by auto
  have kind: "r_kind sample_upload = RecordKind.File 2 2" by (simp add: sample_upload_def)
  have wf: "tree_wf (w_tree ?w)" by (auto simp: occupied_def tree_wf_def om_get_def)
  note * = install_preserves_files [OF wf busy_env_honest kind busy_env_name [OF sample_upload_paths(2)] run]
  have "slot busy_env (w_tree ?w) 1 ''b'' = Some (Regular 2)"
    by (simp add: file_state busy_env_simps)
  moreover have "w_state ?w = fresh_database" by (simp add: occupied_def)
  moreover have "take (unat (2 :: u64)) [1, 2] = [1, 2 :: byte]" by simp
  moreover from conjunct2 [OF conjunct2 [OF conjunct2 [OF conjunct2 [OF *]]]] obtain p i fd where
      "destination busy_env [47] sample_upload ?w ?w' p" "slot busy_env (w_tree ?w') p ''b'' = Some (Regular i)"
      "file_of (w_tree ?w') i = Some fd" "fd_bytes fd = take (unat (2 :: u64)) [1, 2]"
    unfolding sample_upload_paths by blast
  ultimately show ?thesis using run conjunct1 [OF *] by (intro exI conjI) (assumption | simp)+
qed

lemma sint_small: "- (2 ^ 63) \<le> n \<Longrightarrow> n < 2 ^ 63 \<Longrightarrow> sint (word_of_int n :: i64) = n"
  by (simp add: signed_of_int signed_take_bit_int_eq_self)

lemma time_split:
  assumes "fd_mtime fd = word_of_int (sint ns div 1000000000)" and "fd_mtime_nsec fd = word_of_int (sint ns mod 1000000000)"
  shows "metadata_time_ns fd = ns \<longleftrightarrow> - 9223372036000000000 \<le> sint ns"
proof -
  define n where "n = sint ns"
  define q where "q = n div 1000000000"
  define m where "m = n mod 1000000000"
  have n: "- (2 ^ 63) \<le> n" "n < 2 ^ 63" using sint_range_size [of ns] by (simp_all add: n_def size_word.rep_eq)
  have qm: "n = q * 1000000000 + m" "0 \<le> m" "m < 1000000000" by (simp_all add: q_def m_def)
  have q: "- (2 ^ 63) \<le> q" "q < 2 ^ 63" using n qm by auto
  have mm: "- (2 ^ 63) \<le> m" "m < 2 ^ 63" using qm by auto
  have mul: "sint (i64_saturating_mul (fd_mtime fd) 1000000000) = max (- (2 ^ 63)) (min (2 ^ 63 - 1) (q * 1000000000))"
    using q by (simp only: i64_saturating_mul_def sint_i64_saturating assms(1) flip: n_def) (simp add: sint_small flip: q_def)
  let ?x = "max (- (2 ^ 63)) (min (2 ^ 63 - 1) (max (- (2 ^ 63)) (min (2 ^ 63 - 1) (q * 1000000000)) + m))"
  have a: "sint (metadata_time_ns fd) = max (- (2 ^ 63)) (min (2 ^ 63 - 1) (max (- (2 ^ 63)) (min (2 ^ 63 - 1) (q * 1000000000)) + m))"
    unfolding metadata_time_ns_def i64_saturating_add_def sint_i64_saturating mul
    using mm by (simp only: assms(2) flip: n_def m_def) (simp add: sint_small)
  have b: "metadata_time_ns fd = ns \<longleftrightarrow> sint (metadata_time_ns fd) = n"
    by (simp add: n_def word_eq_iff_signed)
  have low: "- (2 ^ 63) \<le> q * 1000000000 \<longleftrightarrow> - 9223372036 \<le> q"
  proof
    show "- 9223372036 \<le> q" if "- (2 ^ 63) \<le> q * 1000000000"
    proof (rule ccontr)
      assume "\<not> - 9223372036 \<le> q"
      then have "q \<le> - 9223372037" by simp
      with that show False by simp
    qed
  qed simp
  have c: "- 9223372036000000000 \<le> n \<longleftrightarrow> - 9223372036 \<le> q"
  proof
    show "- 9223372036 \<le> q" if "- 9223372036000000000 \<le> n"
    proof (rule ccontr)
      assume "\<not> - 9223372036 \<le> q"
      then have "q \<le> - 9223372037" by simp
      with that qm show False by simp
    qed
  qed (use qm in simp)
  have d: "?x = n"
    if "- 9223372036 \<le> q"
    using that low n qm by (simp add: max_def min_def)
  have e: "?x \<noteq> n"
    if "\<not> - 9223372036 \<le> q"
  proof -
    have "q * 1000000000 < - (2 ^ 63)" using that low by simp
    then show ?thesis using qm by (simp add: max_def min_def)
  qed
  have "?x = n \<longleftrightarrow> - 9223372036 \<le> q" using d e by blast
  then show ?thesis unfolding b a c [unfolded n_def] .
qed



end
