(* ===== verification/Scanner_Walk.thy ===== *)
theory Scanner_Walk
  imports Scanner Installer_Safety
begin

text \<open>
  The walk of a scan: what it collects, and that its depth bound is never reached. \<open>agrees\<close> relates two walks that
  act alike on every world with a given tree, leave the tree alone and do not stop at the bound.
\<close>

section \<open>What the walk collects\<close>

definition walked :: "unicode \<Rightarrow> StateStore \<Rightarrow> string \<Rightarrow> FilenameComparison \<Rightarrow> world \<times> WalkContext \<Rightarrow> bool" where
  "walked U st col k s \<longleftrightarrow> w_state (fst s) = st \<and> wc_collection (snd s) = col
     \<and> lpi_ok U (wc_paths (snd s)) \<and> lpi_comparison (wc_paths (snd s)) = k
     \<and> lpi_members (wc_paths (snd s)) = fst ` set (wc_files (snd s))
     \<and> om_wf (wc_files (snd s)) \<and> (\<forall>p \<in> fst ` set (wc_files (snd s)). path_ok p)"

lemma untouched_on_world: "untouched m \<Longrightarrow> preserves (walked U st col k) (on_world m)"
  by (auto simp: preserves_def on_world_def untouched_def walked_def case_prod_beta)

lemma untouched_mapErrS: "untouched m \<Longrightarrow> untouched (mapErrS g m)"
  by (simp add: untouched_def mapErrS_def case_prod_beta)

lemma untouched_reads:
  "untouched (dir_metadata E d)" "untouched (entries E d)" "untouched (resolve_symlink E target)"
  "untouched (open_target_dir E t)" "untouched (read_content E i)" "untouched (returnS a)" "untouched (throwS e)"
  by (simp_all add: dir_metadata_def entries_def resolve_symlink_def open_target_dir_def untouched_io_read)
    (simp_all add: untouched_def read_content_def untouched_io_read [unfolded untouched_def])

lemma untouched_stable_file: "untouched opener \<Longrightarrow> untouched (stable_file E C opener)"
proof -
  assume o: "untouched opener"
  have "untouched (stable_file_attempts E C opener n)" for n
  proof (induction n)
    case (Suc n)
    show ?case
      unfolding stable_file_attempts.simps
    proof (rule untouched_bindS [OF untouched_mapErrS [OF o]])
      fix target show "untouched (case target of
          ToDir _ \<Rightarrow> bindS (mapErrS ScanError.Io (io_noop E)) (\<lambda>_. returnS None)
        | ToFile i \<Rightarrow>
            bindS (mapErrS ScanError.Io (read_content E i)) (\<lambda>before.
            bindS (mapErrS ScanError.Io (read_content E i)) (\<lambda>content.
            bindS (mapErrS ScanError.Io (read_content E i)) (\<lambda>after.
            if stable_metadata before after
            then returnS (Some \<lparr>df_modified_ns = metadata_time_ns after, df_size = of_nat (length (fd_bytes after)),
                   df_hash = c_blake3 C (fd_bytes content)\<rparr>)
            else stable_file_attempts E C opener n))))"
        by (cases target; simp only: link_target.case)
          (intro untouched_bindS untouched_mapErrS untouched_reads untouched_calls(1) Suc.IH
            | simp only: Suc.IH untouched_reads split: if_split; simp)+
    qed
  next
    case 0
    show ?case unfolding stable_file_attempts.simps by (rule untouched_reads)
  qed
  then show ?thesis by (simp add: stable_file_def)
qed

lemma preserves_exclude: "preserves (walked U st col k) (on_context (exclude path issue))"
  by (auto simp: preserves_def on_context_def walked_def exclude_def Let_def split: option.split)

lemma preserves_walk_insert:
  assumes "path_ok path"
  shows "preserves (walked U st col k) (walk_insert U path disk)"
  unfolding preserves_def
proof (intro allI impI)
  fix s assume w: "walked U st col k s"
  show "walked U st col k (snd (walk_insert U path disk s))"
  proof (cases "insert_disk_file U path disk (snd s)")
    case (Inl e)
    with w show ?thesis by (simp add: walk_insert_def)
  next
    case (Inr c)
    show ?thesis
    proof (cases "local_path_index_insert U path (wc_paths (snd s))")
      case (Inl e)
      with Inr have "c = exclude (Some path) PathRejected (snd s)"
        by (auto simp: insert_disk_file_def split: PathError.splits)
      with Inr w show ?thesis by (simp add: walk_insert_def walked_def exclude_def)
    next
      case (Inr idx)
      with \<open>insert_disk_file U path disk (snd s) = Inr c\<close>
      have "c = (snd s)\<lparr>wc_paths := idx, wc_files := om_insert path disk (wc_files (snd s))\<rparr>"
        by (simp add: insert_disk_file_def)
      with \<open>insert_disk_file U path disk (snd s) = Inr c\<close> w assms lpi_insert_ok [OF _ Inr]
      show ?thesis by (auto simp: walk_insert_def walked_def fst_set_om_insert om_wf_insert)
    qed
  qed
qed

lemma protocol_path_ok: "protocol_path logical = Inr p \<Longrightarrow> path_ok p"
  by (auto simp: protocol_path_def Let_def parse_Inr path_ok_def split: if_splits)

lemma preserves_walk_symlink:
  assumes "\<And>d. preserves (walked U st col k) (into d)" and "path_ok p"
  shows "preserves (walked U st col k) (walk_symlink E C U into p link)"
proof -
  note world = untouched_on_world [OF untouched_mapErrS [OF untouched_reads(3)]]
    untouched_on_world [OF untouched_mapErrS [OF untouched_reads(4)]]
    untouched_on_world [OF untouched_stable_file [OF untouched_io_read]]
  show ?thesis
    unfolding walk_symlink_def io_walk_def
    by (intro preserves_catchS world)
      (auto split: sum.split option.split intro!: preserves_pure world preserves_catchS assms preserves_exclude preserves_walk_insert)
qed

lemma preserves_walk_entry:
  assumes "\<And>d l. preserves (walked U st col k) (into d l)"
  shows "preserves (walked U st col k) (walk_entry E C U S into logical x)"
proof -
  note world = untouched_on_world [OF untouched_mapErrS [OF untouched_calls(1)]]
    untouched_on_world [OF untouched_stable_file [OF untouched_io_read]]
  show ?thesis
    unfolding walk_entry_def Let_def io_walk_def
    by (auto split: sum.split option.split dir_entry.split
      intro!: preserves_pure preserves_bindS world assms preserves_exclude preserves_walk_insert preserves_walk_symlink
      dest: protocol_path_ok)
qed

lemma preserves_walk_directory: "preserves (walked U st col k) (walk_directory n E C U S d logical ancestors)"
proof (induction n arbitrary: d logical ancestors)
  case (Suc n)
  show ?case
    unfolding walk_directory.simps io_walk_def
    by (intro preserves_bindS preserves_if preserves_forS preserves_walk_entry Suc.IH preserves_exclude
      untouched_on_world untouched_mapErrS untouched_reads)
qed (simp add: preserves_def)

section \<open>The depth bound\<close>

definition agrees :: "tree \<Rightarrow> 'a walk \<Rightarrow> 'a walk \<Rightarrow> bool" where
  "agrees t m m' \<longleftrightarrow> (\<forall>s. w_tree (fst s) = t \<longrightarrow>
     m s = m' s \<and> w_tree (fst (snd (m s))) = t \<and> fst (m s) \<noteq> Inl None)"

lemma agreesD: "agrees t m m' \<Longrightarrow> w_tree (fst s) = t \<Longrightarrow> m s = (r, s') \<Longrightarrow> m' s = (r, s') \<and> w_tree (fst s') = t \<and> r \<noteq> Inl None"
  unfolding agrees_def by (metis fst_conv snd_conv)

lemma agrees_bindS:
  assumes "agrees t m m'" and "\<And>s a s'. w_tree (fst s) = t \<Longrightarrow> m s = (Inr a, s') \<Longrightarrow> agrees t (f a) (f' a)"
  shows "agrees t (bindS m f) (bindS m' f')"
  unfolding agrees_def
proof (intro allI impI)
  fix s :: "world \<times> WalkContext" assume s: "w_tree (fst s) = t"
  obtain r s' where m: "m s = (r, s')" by (cases "m s")
  note m' = agreesD [OF assms(1) s m]
  show "bindS m f s = bindS m' f' s \<and> w_tree (fst (snd (bindS m f s))) = t \<and> fst (bindS m f s) \<noteq> Inl None"
  proof (cases r)
    case (Inl e)
    with m m' show ?thesis by (simp add: bindS_def)
  next
    case (Inr a)
    with assms(2) [OF s] m have "agrees t (f a) (f' a)" by blast
    then have "f a s' = f' a s' \<and> w_tree (fst (snd (f a s'))) = t \<and> fst (f a s') \<noteq> Inl None"
      using m' unfolding agrees_def by blast
    with Inr m m' show ?thesis by (elim conjE) (simp only: bindS_def prod.case sum.case simp_thms)
  qed
qed

lemma agrees_seq: "agrees t m m' \<Longrightarrow> (\<And>a. agrees t (f a) (f' a)) \<Longrightarrow> agrees t (bindS m f) (bindS m' f')"
  by (rule agrees_bindS)

lemma agrees_catchS:
  assumes "agrees t m m'" and "\<And>r. r \<noteq> Inl None \<Longrightarrow> agrees t (f r) (f' r)"
  shows "agrees t (catchS m f) (catchS m' f')"
  unfolding agrees_def
proof (intro allI impI)
  fix s :: "world \<times> WalkContext" assume s: "w_tree (fst s) = t"
  obtain r s' where m: "m s = (r, s')" by (cases "m s")
  note m' = agreesD [OF assms(1) s m]
  then have "agrees t (f r) (f' r)" using assms(2) by blast
  then have "f r s' = f' r s' \<and> w_tree (fst (snd (f r s'))) = t \<and> fst (f r s') \<noteq> Inl None"
    using m' unfolding agrees_def by blast
  with m m' show "catchS m f s = catchS m' f' s \<and> w_tree (fst (snd (catchS m f s))) = t \<and> fst (catchS m f s) \<noteq> Inl None"
    by (elim conjE) (simp only: catchS_def prod.case simp_thms)
qed

lemma agrees_forS:
  assumes "\<And>x. x \<in> set xs \<Longrightarrow> agrees t (f x) (f' x)"
  shows "agrees t (forS f xs) (forS f' xs)"
  using assms
proof (induction xs)
  case (Cons x xs)
  have "agrees t (bindS (f x) (\<lambda>_. forS f xs)) (bindS (f' x) (\<lambda>_. forS f' xs))"
    by (rule agrees_bindS) (use Cons in auto)
  then show ?case unfolding agrees_def by (simp only: forS.simps)
qed (simp add: agrees_def)

lemma agrees_on_world: "untouched m \<Longrightarrow> agrees t (on_world m) (on_world m)"
  by (auto simp: agrees_def on_world_def untouched_def case_prod_beta mapErr_def split: sum.split)

lemma agrees_io_walk: "untouched m \<Longrightarrow> agrees t (io_walk m) (io_walk m)"
  unfolding io_walk_def by (intro agrees_on_world untouched_mapErrS)

lemma agrees_pure:
  "agrees t (returnS a) (returnS a)" "e \<noteq> None \<Longrightarrow> agrees t (throwS e) (throwS e)"
  "agrees t (on_context g) (on_context g)" "agrees t (walk_insert U p disk) (walk_insert U p disk)"
  by (auto simp: agrees_def on_context_def walk_insert_def split: sum.split)

lemma agrees_walk_symlink:
  assumes "\<And>d. agrees t (into d) (into' d)"
  shows "agrees t (walk_symlink E C U into p link) (walk_symlink E C U into' p link)"
proof -
  note world = agrees_on_world [OF untouched_mapErrS [OF untouched_reads(3)]]
    agrees_on_world [OF untouched_mapErrS [OF untouched_reads(4)]]
    agrees_on_world [OF untouched_stable_file [OF untouched_io_read]]
  show ?thesis
    unfolding walk_symlink_def io_walk_def
    by (intro agrees_catchS world)
      (auto split: sum.split option.split intro!: agrees_pure world agrees_catchS assms)
qed

lemma agrees_walk_entry:
  assumes "\<And>d l. agrees t (into d l) (into' d l)"
  shows "agrees t (walk_entry E C U S into logical x) (walk_entry E C U S into' logical x)"
proof -
  note world = agrees_on_world [OF untouched_mapErrS [OF untouched_calls(1)]]
    agrees_on_world [OF untouched_stable_file [OF untouched_io_read]]
  show ?thesis
    unfolding walk_entry_def Let_def io_walk_def
    by (auto split: sum.split option.split dir_entry.split
      intro!: agrees_pure agrees_seq world assms agrees_walk_symlink)
qed

lemma entries_known:
  assumes "io_walk (entries E d) s = (Inr es, s')"
  shows "om_contains (t_dirs (w_tree (fst s))) d"
  using assms
  by (auto simp: io_walk_def on_world_def mapErrS_def entries_def io_read_def io_def dir_names_def Let_def bindE_def
      om_contains_def mapErr_def ok_or_def split: prod.splits option.splits sum.splits)

lemma dir_metadata_identity: "io_walk (dir_metadata E d) s = (Inr i, s') \<Longrightarrow> i = d"
  by (auto simp: io_walk_def on_world_def mapErrS_def dir_metadata_def io_read_def io_def Let_def bindE_def mapErr_def
      split: prod.splits option.splits sum.splits)

text \<open>Every level of the walk is inside one more directory of the tree than the one above.\<close>

lemma walk_directory_agrees:
  assumes "ancestors \<subseteq> fst ` set (t_dirs t)"
    and "card (fst ` set (t_dirs t)) < n + card ancestors" and "card (fst ` set (t_dirs t)) < m + card ancestors"
  shows "agrees t (walk_directory n E C U S d logical ancestors) (walk_directory m E C U S d logical ancestors)"
  using assms
proof (induction n arbitrary: m d logical ancestors)
  case 0
  then show ?case using card_mono [of "fst ` set (t_dirs t)" ancestors] by simp
next
  case (Suc n)
  let ?D = "fst ` set (t_dirs t)"
  obtain m' where m: "m = Suc m'"
    using Suc.prems(1,3) card_mono [of ?D ancestors] by (cases m) simp_all
  note world = agrees_io_walk [OF untouched_reads(1)] agrees_io_walk [OF untouched_reads(2)]
  show ?case
    unfolding m walk_directory.simps
  proof (rule agrees_bindS [OF world(1)])
    fix s i s' assume "io_walk (dir_metadata E d) s = (Inr i, s')"
    then have i: "i = d" by (rule dir_metadata_identity)
    show "agrees t
      (if i \<in> ancestors then on_context (exclude (case protocol_path logical of Inl _ \<Rightarrow> None | Inr p \<Rightarrow> Some p) SymlinkCycle)
       else bindS (io_walk (entries E d)) (\<lambda>es. forS (walk_entry E C U S
          (\<lambda>d logical. walk_directory n E C U S d logical (insert i ancestors)) logical) (sort_key fst es)))
      (if i \<in> ancestors then on_context (exclude (case protocol_path logical of Inl _ \<Rightarrow> None | Inr p \<Rightarrow> Some p) SymlinkCycle)
       else bindS (io_walk (entries E d)) (\<lambda>es. forS (walk_entry E C U S
          (\<lambda>d logical. walk_directory m' E C U S d logical (insert i ancestors)) logical) (sort_key fst es)))"
    proof (cases "i \<in> ancestors")
      case False
      have "agrees t (bindS (io_walk (entries E d)) (\<lambda>es. forS (walk_entry E C U S
          (\<lambda>d logical. walk_directory n E C U S d logical (insert i ancestors)) logical) (sort_key fst es)))
        (bindS (io_walk (entries E d)) (\<lambda>es. forS (walk_entry E C U S
          (\<lambda>d logical. walk_directory m' E C U S d logical (insert i ancestors)) logical) (sort_key fst es)))"
      proof (rule agrees_bindS [OF world(2)])
        fix s2 es s3 assume "w_tree (fst s2) = t" and "io_walk (entries E d) s2 = (Inr es, s3)"
        then have "d \<in> ?D" using entries_known [of E d s2 es s3] by (simp add: om_contains_iff)
        moreover have "card (insert d ancestors) = Suc (card ancestors)"
          using False i Suc.prems(1) finite_subset [of ancestors ?D] by simp
        ultimately show "agrees t (forS (walk_entry E C U S
            (\<lambda>d logical. walk_directory n E C U S d logical (insert i ancestors)) logical) (sort_key fst es))
          (forS (walk_entry E C U S
            (\<lambda>d logical. walk_directory m' E C U S d logical (insert i ancestors)) logical) (sort_key fst es))"
          using Suc.prems m i by (intro agrees_forS agrees_walk_entry Suc.IH) simp_all
      qed
      with False show ?thesis by simp
    qed (simp add: agrees_pure)
  qed
qed

text \<open>
  C35. The walk of a scan always comes to an end, whatever links the tree holds and whatever call fails: a depth of one
  more than the number of directories is never used up, any larger depth gives the same result, and the walk
  leaves the tree as it was. A cycle of links is reported where it closes.
\<close>

theorem walk_returns:
  assumes "length (t_dirs (w_tree w)) < n"
  shows "walk_directory n E C U S root [] {} (w, c)
      = walk_directory (Suc (length (t_dirs (w_tree w)))) E C U S root [] {} (w, c)
    \<and> fst (walk_directory n E C U S root [] {} (w, c)) \<noteq> Inl None
    \<and> w_tree (fst (snd (walk_directory n E C U S root [] {} (w, c)))) = w_tree w"
proof -
  have "card (fst ` set (t_dirs (w_tree w))) \<le> length (t_dirs (w_tree w))"
    using card_length [of "map fst (t_dirs (w_tree w))"] by simp
  then have "agrees (w_tree w) (walk_directory n E C U S root [] {})
      (walk_directory (Suc (length (t_dirs (w_tree w)))) E C U S root [] {})"
    using assms by (intro walk_directory_agrees) simp_all
  from spec [OF this [unfolded agrees_def], of "(w, c)"] fst_conv [of w c] show ?thesis by metis
qed

text \<open>A root whose only entry is a link to the root itself.\<close>

definition cyclic_world :: world where
  "cyclic_world = \<lparr>w_tree = \<lparr>t_dirs = [(0, [(''loop'', Symlink (Some (ToDir 0)))])], t_files = [], t_next = 1\<rparr>,
     w_state = fresh_database, w_tick = 0, w_comparisons = []\<rparr>"

definition empty_context :: WalkContext where
  "empty_context = \<lparr>wc_root = 0, wc_collection = ''c'', wc_paths = local_path_index_new CaseSensitive, wc_files = [],
     wc_excluded_prefixes = [], wc_warnings = []\<rparr>"

definition plain_unicode :: unicode where
  "plain_unicode = \<lparr>str_lowercase = id, char_lowercase = (\<lambda>c. [c]), nfd = id\<rparr>"

definition plain_scanner :: Scanner where
  "plain_scanner = \<lparr>sc_is_match = (\<lambda>_. False), sc_max_future_skew = 0, sc_max_logs = 100\<rparr>"

theorem walk_returns_witness:
  "walk_directory 7 sample_env sample_crypto plain_unicode plain_scanner 0 [] {} (cyclic_world, empty_context)
    = walk_directory 2 sample_env sample_crypto plain_unicode plain_scanner 0 [] {} (cyclic_world, empty_context)
   \<and> wc_warnings (snd (snd (walk_directory 7 sample_env sample_crypto plain_unicode plain_scanner 0 [] {}
        (cyclic_world, empty_context)))) = [CollectionWarning ''c'' (Some (ProtocolPath ''loop'')) SymlinkCycle]"
proof -
  have "length (t_dirs (w_tree cyclic_world)) < 7" by (simp add: cyclic_world_def)
  from conjunct1 [OF walk_returns [OF this, of sample_env sample_crypto plain_unicode plain_scanner 0 empty_context]]
  have eq: "walk_directory 7 sample_env sample_crypto plain_unicode plain_scanner 0 [] {} (cyclic_world, empty_context)
    = walk_directory 2 sample_env sample_crypto plain_unicode plain_scanner 0 [] {} (cyclic_world, empty_context)"
    by (simp add: cyclic_world_def numeral_2_eq_2)
  show ?thesis unfolding eq by code_simp
qed

end
