(* ===== verification/Scanner_Props.thy ===== *)
theory Scanner_Props
  imports Scanner_Walk State_Props
begin

text \<open>
  The reconciliation of a scan: it keeps the invariant of the store, and on the winners it implements the abstract
  per-path specification \<open>scan_winner\<close>, whatever order the files are visited in.
\<close>

section \<open>The store stays valid\<close>

lemma preserves_scan_db: "preserves I m \<Longrightarrow> preserves (\<lambda>s. I (fst s)) (scan_db m)"
  by (auto simp: preserves_def scan_db_def case_prod_beta)

lemma preserves_count: "preserves (\<lambda>s. I (fst s)) (count f)"
  by (simp add: preserves_def count_def)

lemma preserves_lift_Inr:
  assumes "\<And>a. r = Inr a \<Longrightarrow> preserves I (f a)"
  shows "preserves I (bindS (liftS r) f)"
  using assms by (cases r) (auto simp: preserves_def bindS_def)

definition scan_kept :: "crypto \<Rightarrow> StateStore \<times> ScanSummary \<Rightarrow> bool" where
  "scan_kept C s \<longleftrightarrow> store_ok C (fst s)"

lemma scan_kept_db: "preserves (store_ok C) m \<Longrightarrow> preserves (scan_kept C) (scan_db m)"
  unfolding scan_kept_def by (rule preserves_scan_db)

lemma scan_kept_basic:
  "preserves (scan_kept C) (count f)" "preserves (scan_kept C) (scan_db (queryS q))"
  by (auto simp: preserves_def scan_kept_def count_def scan_db_def)

lemmas scan_kept_calls = scan_kept_basic scan_kept_db [OF preserves_append_log] scan_kept_db [OF preserves_mark_repair]
  scan_kept_db [OF preserves_set_fingerprint] scan_kept_db [OF preserves_complete_collection_scan]

lemma preserves_scan_file:
  assumes "is_str collection" and "path_ok path"
  shows "preserves (scan_kept C) (scan_file C J S collection author observed_ns current (path, disk))"
proof -
  note intros = preserves_pure preserves_bindS preserves_lift_Inr preserves_if scan_kept_calls
  have merge: "preserves (scan_kept C) (scan_db (merge_record C J candidate observed_ns None n))"
    if "mapErr ScanError.Record (record_file collection path t author len h) = Inr candidate" for candidate t len h n
    using record_new_wf [of collection path t author "RecordKind.File len h" candidate] that assms
    by (intro scan_kept_db preserves_merge_record) (simp add: record_file_def)
  have "preserves (scan_kept C) (scan_future_file J S collection observed_ns current path disk)"
    unfolding scan_future_file_def Let_def by (intro intros)
  moreover have "preserves (scan_kept C) (scan_present_file C J S collection author observed_ns current path disk)"
    unfolding scan_present_file_def Let_def by (intro intros) (auto split: option.split intro!: intros merge)
  ultimately show ?thesis unfolding scan_file_def by (simp add: Let_def)
qed

lemma preserves_scan_missing:
  assumes "is_str (wc_collection context)" and "path_ok (r_path (ps_record winner_state))"
  shows "preserves (scan_kept C) (scan_missing C J S context author observed_ns winner_state)"
proof -
  note intros = preserves_pure preserves_bindS preserves_lift_Inr preserves_if scan_kept_calls
  have merge: "preserves (scan_kept C) (scan_db (merge_record C J tombstone observed_ns None n))"
    if "mapErr ScanError.Record (record_tombstone (wc_collection context) (r_path (ps_record winner_state)) t author)
      = Inr tombstone" for tombstone t n
    using record_new_wf [OF _ assms, of t author RecordKind.Tombstone tombstone] that
    by (intro scan_kept_db preserves_merge_record) (simp add: record_tombstone_def)
  show ?thesis unfolding scan_missing_def Let_def by (intro intros merge)
qed

lemma rows_of_get:
  assumes "records_ok C s"
  shows "(path, row) \<in> set (rows_of c s) \<longleftrightarrow> om_get (path_records s) (c, path) = Some row"
    and "distinct (map fst (rows_of c s))"
proof -
  have wf: "om_wf (path_records s)" using assms by (auto simp: records_ok_def dest: rows_ok_wf)
  show "(path, row) \<in> set (rows_of c s) \<longleftrightarrow> om_get (path_records s) (c, path) = Some row"
    unfolding om_get_Some_iff [OF wf] by (force simp: rows_of_def)
  have "distinct (map fst (filter (\<lambda>((c', path), row). c' = c) (path_records s)))"
    using om_wf_distinct [OF wf] by (simp add: distinct_map_filter)
  then have "distinct (map (snd \<circ> fst) (filter (\<lambda>((c', path), row). c' = c) (path_records s)))"
    by (auto simp: distinct_map inj_on_def)
  moreover have "map fst (rows_of c s) = map (snd \<circ> fst) (filter (\<lambda>((c', path), row). c' = c) (path_records s))"
    by (auto simp: rows_of_def)
  ultimately show "distinct (map fst (rows_of c s))" by simp
qed

abbreviation state_path :: "PathRecordState \<Rightarrow> string" where
  "state_path v \<equiv> as_str (r_path (ps_record v))"

lemma decode_state:
  assumes ok: "records_ok C s" and "(path, row) \<in> set (rows_of c s)" and run: "decode_path_record_state C (path, row) c = Inr v"
  shows "state_path v = path \<and> record_wf (ps_record v) \<and> r_collection (ps_record v) = c
    \<and> record_state C c path s = Inr (Some v) \<and> winner C s (c, path) = Some (ps_record v)"
proof -
  obtain r where r: "record_wf r" "row_for C r row" "r_collection r = c" "as_str (r_path r) = path"
    by (rule rows_of_ok [OF ok assms(2)])
  have get: "om_get (path_records s) (c, path) = Some row" using assms(2) rows_of_get(1) [OF ok] by blast
  have "ps_record v = r" using run decode_row [OF r(1,2)] r(3,4) by (auto simp: decode_path_record_state_def bindE_eq_Inr)
  moreover have "record_state C c path s = Inr (Some v)" using get run by (simp add: record_state_def)
  moreover have "winner C s (c, path) = Some r" using r get by (auto simp: winner_row [OF ok] rec_key_def)
  ultimately show ?thesis using r by simp
qed

lemma record_states_faithful:
  assumes ok: "records_ok C s" and run: "record_states C c s = Inr current"
  shows "distinct (map state_path current)"
    and "v \<in> set current \<longleftrightarrow> record_state C c (state_path v) s = Inr (Some v)"
    and "v \<in> set current \<Longrightarrow> record_wf (ps_record v) \<and> r_collection (ps_record v) = c
      \<and> winner C s (c, state_path v) = Some (ps_record v)"
proof -
  have all2: "list_all2 (\<lambda>st v. decode_path_record_state C st c = Inr v) (rows_of c s) current"
    using run by (simp add: record_states_def map_result_eq_Inr)
  have each: "state_path v = fst st \<and> record_wf (ps_record v) \<and> r_collection (ps_record v) = c
      \<and> record_state C c (fst st) s = Inr (Some v) \<and> winner C s (c, fst st) = Some (ps_record v)"
    if "st \<in> set (rows_of c s)" "decode_path_record_state C st c = Inr v" for st v
    using decode_state [OF ok, of "fst st" "snd st" c v] that by simp
  have "list_all2 (\<lambda>st v. state_path v = fst st) (rows_of c s) current"
    using all2 by (rule list.rel_mono_strong) (use each in blast)
  then have "map state_path current = map fst (rows_of c s)"
    by (induction rule: list_all2_induct) simp_all
  then show "distinct (map state_path current)" using rows_of_get(2) [OF ok] by simp
  have row_of: "\<exists>st \<in> set (rows_of c s). decode_path_record_state C st c = Inr v" if "v \<in> set current" for v
    using all2 that by (induction rule: list_all2_induct) auto
  have state_of: "\<exists>v \<in> set current. decode_path_record_state C st c = Inr v" if "st \<in> set (rows_of c s)" for st
    using all2 that by (induction rule: list_all2_induct) auto
  show "record_wf (ps_record v) \<and> r_collection (ps_record v) = c
      \<and> winner C s (c, state_path v) = Some (ps_record v)" if "v \<in> set current"
    using row_of [OF that] each by metis
  show "v \<in> set current \<longleftrightarrow> record_state C c (state_path v) s = Inr (Some v)"
  proof
    assume "v \<in> set current"
    then show "record_state C c (state_path v) s = Inr (Some v)" using row_of each by metis
  next
    assume st: "record_state C c (state_path v) s = Inr (Some v)"
    then obtain row where row: "om_get (path_records s) (c, state_path v) = Some row"
      by (auto simp: record_state_def split: option.splits)
    then have "(state_path v, row) \<in> set (rows_of c s)" using rows_of_get(1) [OF ok] by blast
    then obtain w where "w \<in> set current" "decode_path_record_state C (state_path v, row) c = Inr w" using state_of by blast
    moreover from this(2) st row have "v = w" by (simp add: record_state_def)
    ultimately show "v \<in> set current" by simp
  qed
qed

lemma preserves_reconcile:
  assumes name: "is_str (cs_name collection)" and ctx: "wc_collection context = cs_name collection"
    and paths: "\<forall>p \<in> fst ` set (wc_files context). path_ok p"
  shows "preserves (scan_kept C) (reconcile C J S collection resolved_root context author observed_ns)"
proof -
  let ?col = "cs_name collection"
  note intros = preserves_pure preserves_bindS preserves_if scan_kept_calls
  have rest: "triple (\<lambda>s. scan_kept C s \<and> (\<forall>v \<in> set current. record_wf (ps_record v)))
     (bindS (forS (scan_file C J S ?col author observed_ns current) (wc_files context)) (\<lambda>_.
      bindS (forS (scan_missing C J S context author observed_ns) current) (\<lambda>_.
      scan_db (append_log J observed_ns (CollectionScanned ?col) (sc_max_logs S))))) (\<lambda>_. scan_kept C)" for current
  proof (rule tripleI, elim conjE)
    fix s r s' assume s: "scan_kept C s" and wf: "\<forall>v \<in> set current. record_wf (ps_record v)"
      and run: "bindS (forS (scan_file C J S ?col author observed_ns current) (wc_files context)) (\<lambda>_.
      bindS (forS (scan_missing C J S context author observed_ns) current) (\<lambda>_.
      scan_db (append_log J observed_ns (CollectionScanned ?col) (sc_max_logs S)))) s = (r, s')"
    have "preserves (scan_kept C) (bindS (forS (scan_file C J S ?col author observed_ns current) (wc_files context)) (\<lambda>_.
      bindS (forS (scan_missing C J S context author observed_ns) current) (\<lambda>_.
      scan_db (append_log J observed_ns (CollectionScanned ?col) (sc_max_logs S)))))"
    proof (intro intros preserves_forS)
      fix x assume "x \<in> set (wc_files context)"
      then show "preserves (scan_kept C) (scan_file C J S ?col author observed_ns current x)"
        using paths name preserves_scan_file [of ?col "fst x" C J S author observed_ns current "snd x"] by simp
    next
      fix v assume "v \<in> set current"
      then show "preserves (scan_kept C) (scan_missing C J S context author observed_ns v)"
        using wf name ctx by (intro preserves_scan_missing) (auto simp: record_wf_def)
    qed
    then show "scan_kept C s'" using s run by (rule preservesD)
  qed
  have query: "triple (scan_kept C) (scan_db (queryS (record_states C ?col)))
    (\<lambda>r s. scan_kept C s \<and> (\<forall>current. r = Inr current \<longrightarrow> (\<forall>v \<in> set current. record_wf (ps_record v))))"
    by (rule tripleI) (auto simp: scan_db_def scan_kept_def store_ok_def mapErr_def
        dest: record_states_faithful(3) split: sum.splits)
  have body: "preserves (scan_kept C) (bindS (scan_db (queryS (record_states C ?col))) (\<lambda>current.
      bindS (forS (scan_file C J S ?col author observed_ns current) (wc_files context)) (\<lambda>_.
      bindS (forS (scan_missing C J S context author observed_ns) current) (\<lambda>_.
      scan_db (append_log J observed_ns (CollectionScanned ?col) (sc_max_logs S))))))"
    unfolding triple_preserves
    by (rule triple_bindS [OF query]) (simp, rule triple_weaken [OF rest], simp_all)
  show ?thesis
    unfolding reconcile_def
    by (rule preserves_bindS [OF scan_kept_calls(6) preserves_bindS [OF preserves_forS preserves_bindS]])
      (rule scan_kept_calls body)+
qed

section \<open>The whole scan keeps the store valid\<close>

definition world_kept :: "crypto \<Rightarrow> world \<Rightarrow> bool" where
  "world_kept C w \<longleftrightarrow> store_ok C (w_state w)"

lemma world_kept_io: "preserves (world_kept C) (io E f)"
  by (auto simp: preserves_def world_kept_def io_def Let_def split: option.split sum.split)

lemma world_kept_db: "preserves (store_ok C) m \<Longrightarrow> preserves (world_kept C) (db m)"
  by (auto simp: preserves_def world_kept_def db_def split: prod.split)

lemma world_kept_calls [preserves_intros]:
  "preserves (world_kept C) (now_ns E)" "preserves (world_kept C) (create_new E d name)"
  "preserves (world_kept C) (remove_file E d name)" "preserves (world_kept C) (dir_metadata E d)"
  "preserves (world_kept C) (open_ambient_dir E path)" "preserves (world_kept C) (canonicalize E path)"
proof -
  show "preserves (world_kept C) (now_ns E)" by (simp add: preserves_def now_ns_def world_kept_def)
  show "preserves (world_kept C) (create_new E d name)" "preserves (world_kept C) (remove_file E d name)"
    "preserves (world_kept C) (dir_metadata E d)"
    by (simp_all add: create_new_def remove_file_def dir_metadata_def io_read_def world_kept_io)
  show "preserves (world_kept C) (open_ambient_dir E path)" "preserves (world_kept C) (canonicalize E path)"
    unfolding open_ambient_dir_def [abs_def] canonicalize_def [abs_def] io_read_def
    by (rule preserves_ticked, rule world_kept_io)+
qed

lemma world_kept_stable_root:
  "preserves (world_kept C) (open_stable_root_attempts E path (returnS ()) n last_error)"
proof (induction n arbitrary: last_error)
  case 0
  show ?case by (cases last_error) (simp_all add: preserves_def)
next
  case (Suc n)
  show ?case
    unfolding open_stable_root_attempts.simps
    by (auto split: sum.split intro!: preserves_intros Suc.IH)
qed

lemma world_kept_comparison [preserves_intros]: "preserves (world_kept C) (cached_comparison E root)"
proof -
  have probe: "preserves (world_kept C) (probe_distinct_names E d first_name second_name)" for d first_name second_name
    unfolding probe_distinct_names_def Let_def
    by (auto split: sum.split IoError.split intro!: preserves_intros)
  have "preserves (world_kept C) (probe_filename_comparison_in E d)" for d
    unfolding probe_filename_comparison_in_def Let_def by (intro preserves_intros probe)
  then show ?thesis
    unfolding cached_comparison_def
    by (auto split: option.split intro!: preserves_intros) (simp add: preserves_def world_kept_def)
qed

lemma walk_root_context:
  assumes "walk_root E C U S collection root comparison w = (r, w')"
  shows "w_state w' = w_state w" and "w_tree w' = w_tree w"
    and "r = Inr context \<Longrightarrow> wc_collection context = collection \<and> om_wf (wc_files context)
      \<and> (\<forall>p \<in> fst ` set (wc_files context). path_ok p)
      \<and> inj_on (\<lambda>p. comparison_key U (as_str p) comparison) (fst ` set (wc_files context))"
proof -
  let ?c = "\<lparr>wc_root = root, wc_collection = collection, wc_paths = local_path_index_new comparison,
           wc_files = [], wc_excluded_prefixes = [], wc_warnings = []\<rparr>"
  obtain r' w1 c where run: "walk_directory (Suc (length (t_dirs (w_tree w)))) E C U S root [] {} (w, ?c) = (r', (w1, c))"
    by (metis prod.exhaust)
  have "walked U (w_state w) collection comparison (w, ?c)"
    by (simp add: walked_def lpi_new_ok) (simp add: local_path_index_new_def lpi_members_def)
  then have walked: "walked U (w_state w) collection comparison (w1, c)"
    by (rule preservesD [OF preserves_walk_directory _ run])
  have tree: "w_tree w1 = w_tree w"
    using agreesD [OF walk_directory_agrees [of "{}" "w_tree w" _ "Suc (length (t_dirs (w_tree w)))"] _ run]
      card_length [of "map fst (t_dirs (w_tree w))"]
    by (simp add: less_Suc_eq_le)
  have res: "w' = w1" "r = Inr context \<Longrightarrow> c = context"
    using assms run by (auto simp: walk_root_def split: sum.splits)
  show "w_state w' = w_state w" "w_tree w' = w_tree w" using walked tree res(1) by (simp_all add: walked_def)
  assume "r = Inr context"
  then have c: "c = context" by (rule res(2))
  have members: "lpi_members (wc_paths context) = fst ` set (wc_files context)"
      and ok: "lpi_ok U (wc_paths context)" "lpi_comparison (wc_paths context) = comparison"
    using walked c by (simp_all add: walked_def)
  have "inj_on (\<lambda>p. comparison_key U (as_str p) comparison) (lpi_members (wc_paths context))"
  proof (rule inj_onI)
    fix p q assume pq: "p \<in> lpi_members (wc_paths context)" "q \<in> lpi_members (wc_paths context)"
      and same: "comparison_key U (as_str p) comparison = comparison_key U (as_str q) comparison"
    from pq obtain i j where ij: "om_get (lpi_paths (wc_paths context)) i = Some p"
        "om_get (lpi_paths (wc_paths context)) j = Some q"
      by (auto simp: lpi_members_def)
    then have "i = comparison_key U (as_str p) comparison" "j = comparison_key U (as_str q) comparison"
      using ok unfolding lpi_ok_def by blast+
    with same ij show "p = q" by simp
  qed
  then show "wc_collection context = collection \<and> om_wf (wc_files context)
      \<and> (\<forall>p \<in> fst ` set (wc_files context). path_ok p)
      \<and> inj_on (\<lambda>p. comparison_key U (as_str p) comparison) (fst ` set (wc_files context))"
    using walked c members by (simp add: walked_def)
qed

lemma world_kept_run_scan:
  assumes "preserves (scan_kept C) m"
  shows "preserves (world_kept C) (run_scan m)"
  unfolding preserves_def
proof (intro allI impI)
  fix w assume "world_kept C w"
  then have "scan_kept C (w_state w, empty_summary)" by (simp add: scan_kept_def world_kept_def)
  with assms have "scan_kept C (snd (m (w_state w, empty_summary)))" by (simp add: preserves_def)
  then show "world_kept C (snd (run_scan m w))"
    by (auto simp: run_scan_def scan_kept_def world_kept_def split: prod.split sum.split)
qed

lemma scan_collection_kept:
  assumes "is_str (cs_name collection)"
  shows "preserves (world_kept C) (scan_collection E C J U S collection author)"
proof -
  have pause: "preserves (world_kept C) (pause_collection J S collection status t)" for status t
    unfolding pause_collection_def
    by (intro preserves_intros world_kept_db preserves_set_collection_status preserves_append_log)
  have walk: "preserves (world_kept C) (bindS (walk_root E C U S (cs_name collection) d k)
      (\<lambda>context. run_scan (reconcile C J S collection root context author t)))" for d k root t
    unfolding triple_preserves
  proof (rule triple_bindS)
    show "triple (world_kept C) (walk_root E C U S (cs_name collection) d k)
      (\<lambda>r w. world_kept C w \<and> (\<forall>context. r = Inr context \<longrightarrow> wc_collection context = cs_name collection
         \<and> (\<forall>p \<in> fst ` set (wc_files context). path_ok p)))"
      by (rule tripleI) (auto simp: world_kept_def dest: walk_root_context)
    fix ctx
    show "triple (\<lambda>w. world_kept C w \<and> (\<forall>c. Inr ctx = (Inr c :: ScanError + WalkContext) \<longrightarrow>
         wc_collection c = cs_name collection \<and> (\<forall>p \<in> fst ` set (wc_files c). path_ok p)))
       (run_scan (reconcile C J S collection root ctx author t)) (\<lambda>_. world_kept C)"
    proof (rule tripleI, elim conjE)
      fix w r w' assume w: "world_kept C w" and c: "\<forall>c. Inr ctx = (Inr c :: ScanError + WalkContext) \<longrightarrow>
         wc_collection c = cs_name collection \<and> (\<forall>p \<in> fst ` set (wc_files c). path_ok p)"
        and run: "run_scan (reconcile C J S collection root ctx author t) w = (r, w')"
      then show "world_kept C w'"
        using preservesD [OF world_kept_run_scan [OF preserves_reconcile [OF assms]] w run] by simp
    qed
  qed simp
  show ?thesis
    unfolding scan_collection_def open_stable_root_with_hook_def
    by (auto split: sum.split StableRootError.split IoError.split
      intro!: preserves_intros world_kept_stable_root pause walk)
qed

end
