(* ===== verification/Scanner_Refinement.thy ===== *)
theory Scanner_Refinement
  imports Scanner_Props
begin

text \<open>
  The abstract specification of a scan: what the winner of each path becomes, path by path, from the files that
  were found and the records that were there. The reconciliation implements it: the two loops of the program touch every
  path at most once, so their order does not show.
\<close>

section \<open>Loops that touch each key once\<close>

lemma forS_pointwise:
  assumes run: "forS f xs s = (Inr (), s')" and inv: "I s" and dist: "distinct (map key xs)"
    and step: "\<And>x s s'. x \<in> set xs \<Longrightarrow> I s \<Longrightarrow> f x s = (Inr (), s') \<Longrightarrow>
      I s' \<and> view s' (key x) = g x (view s (key x)) \<and> (\<forall>k. k \<noteq> key x \<longrightarrow> view s' k = view s k)"
  shows "I s' \<and> (\<forall>x \<in> set xs. view s' (key x) = g x (view s (key x)))
    \<and> (\<forall>k. k \<notin> key ` set xs \<longrightarrow> view s' k = view s k)"
  using assms
proof (induction xs arbitrary: s)
  case Nil
  then show ?case by simp
next
  case (Cons x xs)
  from Cons.prems(1) obtain s1 where s1: "f x s = (Inr (), s1)" "forS f xs s1 = (Inr (), s')"
    by (auto simp: bindS_eq_Inr)
  have x: "I s1 \<and> view s1 (key x) = g x (view s (key x)) \<and> (\<forall>k. k \<noteq> key x \<longrightarrow> view s1 k = view s k)"
    by (rule Cons.prems(4) [OF _ Cons.prems(2) s1(1)]) simp
  have "I s' \<and> (\<forall>x \<in> set xs. view s' (key x) = g x (view s1 (key x)))
    \<and> (\<forall>k. k \<notin> key ` set xs \<longrightarrow> view s' k = view s1 k)"
  proof (rule Cons.IH [OF s1(2)])
    show "I s1" "distinct (map key xs)" using x Cons.prems(3) by simp_all
    show "I t' \<and> view t' (key y) = g y (view t (key y)) \<and> (\<forall>k. k \<noteq> key y \<longrightarrow> view t' k = view t k)"
      if "y \<in> set xs" "I t" "f y t = (Inr (), t')" for y t t'
      by (rule Cons.prems(4) [OF _ that(2,3)]) (simp add: that(1))
  qed
  note rest = this
  have new: "key x \<notin> key ` set xs" using Cons.prems(3) by simp
  have "view s' (key y) = g y (view s (key y))" if "y \<in> set (x # xs)" for y
  proof (cases "key y = key x")
    case True
    then have "y = x" using that new by (metis imageI set_ConsD)
    then show ?thesis using rest x new by simp
  next
    case False
    then have "y \<in> set xs" using that by auto
    then show ?thesis using rest x False by simp
  qed
  moreover have "view s' k = view s k" if "k \<notin> key ` set (x # xs)" for k
    using rest x that by simp
  ultimately show ?case using rest by blast
qed

section \<open>Winners under the store's operations\<close>

lemma merge_record_winner:
  assumes ok: "records_ok C s" and wf: "record_wf r" and run: "merge_record C J r t src n s = (Inr accepted, s')"
  shows "records_ok C s' \<and> accepted = wins C r (winner C s (rec_key r))
    \<and> (\<forall>k. winner C s' k = (if k = rec_key r \<and> accepted then Some r else winner C s k))"
proof -
  have load: "load_record C (r_collection r) (as_str (r_path r)) s = Inr (winner C s (rec_key r))"
    using load_record_ok(1) [OF ok, of "rec_key r"] by (simp add: rec_key_def)
  have acc: "(case winner C s (rec_key r) of None \<Rightarrow> True | Some w \<Rightarrow> compare_winner (c_blake3 C) r w = Greater)
      = wins C r (winner C s (rec_key r))"
    by (simp add: wins_def compare_winner_key split: option.splits)
  from run obtain s1 e where a: "accepted = wins C r (winner C s (rec_key r))"
      and s1: "(if accepted then upsert_record C r (src = None) s else Inr s) = Inr s1" and s': "insert_log J t e n s1 = Inr s'"
    unfolding merge_record_def transactionS_eq_Inr Let_def load bindE_simps acc by (auto simp: bindE_eq_Inr)
  note frame = insert_log_frame [OF s']
  have "records_ok C s1 \<and> (\<forall>k. winner C s1 k = (if k = rec_key r \<and> accepted then Some r else winner C s k))"
  proof (cases accepted)
    case True
    with s1 have c: "om_contains (t_collections s) (r_collection r)"
      by (auto simp: upsert_record_def bindE_eq_Inr sql_upsert_eq_Inr check_path_record_row_def Let_def)
    have "s1 = s\<lparr>path_records := om_insert (rec_key r) (row_of_record C r (src = None)) (path_records s)\<rparr>"
      using True s1 upsert_record_ok [OF wf c] by simp
    with True show ?thesis by (simp only: upsert_records_ok [OF ok wf c] winner_upsert [OF ok wf c]) simp
  qed (use s1 ok in simp)
  then show ?thesis using a winner_cong [OF frame(2)] records_ok_cong [OF frame(1,2)] by simp
qed

text \<open>The operations of a scan that keep every winner.\<close>

definition unmoved :: "crypto \<Rightarrow> (string \<times> string \<Rightarrow> Record option) \<Rightarrow> StateStore \<Rightarrow> bool" where
  "unmoved C W s \<longleftrightarrow> records_ok C s \<and> winner C s = W"

lemma unmoved_log: "unmoved C W s \<Longrightarrow> insert_log J t e n s = Inr s' \<Longrightarrow> unmoved C W s'"
  using insert_log_frame [of J t e n s s'] records_ok_cong [of s' s C] winner_cong [of s' s C] unfolding unmoved_def by auto

lemma unmoved_rows:
  assumes "unmoved C W s" and "update_path_records P f s = Inr (n, s')"
    and "\<And>k row r. P k row \<Longrightarrow> row_for C r row \<Longrightarrow> row_for C r (f row)"
  shows "unmoved C W s'"
  using assms update_rows_ok [of C s P f] unfolding unmoved_def by (simp add: fun_eq_iff)

lemma unmoved_collections:
  assumes u: "unmoved C W s" and run: "update_collections P f s = Inr (n, s')"
  shows "unmoved C W s'"
proof -
  have s': "s' = s\<lparr>t_collections := om_update_where (\<lambda>name c. P name) f (t_collections s)\<rparr>"
    using run by (auto simp: update_collections_def bindE_eq_Inr sql_update_eq_Inr)
  have "record_row C (t_collections s') = record_row C (t_collections s)"
    by (rule record_row_collections) (simp add: s' om_contains_def)
  moreover have "path_records s' = path_records s" by (simp add: s')
  ultimately show ?thesis using u winner_cong [of s' s C] by (auto simp: unmoved_def records_ok_def)
qed

lemma preserves_unmoved:
  "preserves (unmoved C W) (append_log J t e n)"
  "preserves (unmoved C W) (mark_repair_required_and_log J c p t e n)"
  "preserves (unmoved C W) (set_materialized_fingerprint c p fp)"
  "preserves (unmoved C W) (complete_collection_scan name local_path resolved_root)"
proof -
  show "preserves (unmoved C W) (append_log J t e n)"
    unfolding append_log_def by (rule preserves_transactionS) (auto simp: bindE_eq_Inr intro: unmoved_log)
  show "preserves (unmoved C W) (mark_repair_required_and_log J c p t e n)"
    unfolding mark_repair_required_and_log_def
    by (rule preserves_transactionS)
      (auto simp: bindE_eq_Inr split: if_splits intro: unmoved_log unmoved_rows row_for_clear)
  show "preserves (unmoved C W) (set_materialized_fingerprint c p fp)"
    unfolding set_materialized_fingerprint_def update_materialized_fingerprint_def
    by (rule preserves_transactionS)
      (auto simp: bindE_eq_Inr split: if_splits intro: unmoved_rows row_for_fingerprint)
  show "preserves (unmoved C W) (complete_collection_scan name local_path resolved_root)"
    unfolding complete_collection_scan_def Let_def
    by (rule preserves_transactionS)
      (auto simp: bindE_eq_Inr split: if_splits intro: unmoved_rows unmoved_collections row_for_clear)
qed

lemma unmoved_scan:
  assumes "preserves (unmoved C (winner C (fst s))) m" and "records_ok C (fst s)" and "scan_db m s = (r, s')"
  shows "records_ok C (fst s') \<and> winner C (fst s') = winner C (fst s)"
proof -
  have "unmoved C (winner C (fst s)) (fst s)" using assms(2) by (simp add: unmoved_def)
  then have "unmoved C (winner C (fst s)) (snd (m (fst s)))" using assms(1) by (simp add: preserves_def)
  with assms(3) show ?thesis by (auto simp: scan_db_def unmoved_def split: prod.splits)
qed

section \<open>The specification\<close>

definition greater_record :: "crypto \<Rightarrow> Record \<Rightarrow> Record \<Rightarrow> Record" where
  "greater_record C r w = (if compare_winner (c_blake3 C) r w = Greater then r else w)"

definition found_record :: "string \<Rightarrow> ProtocolPath \<Rightarrow> EndpointId \<Rightarrow> DiskFile \<Rightarrow> Record" where
  "found_record collection path author disk = \<lparr>r_collection = collection, r_path = path,
     r_modified_ns = df_modified_ns disk, r_author = author, r_kind = RecordKind.File (df_size disk) (df_hash disk)\<rparr>"

definition deletion_record :: "string \<Rightarrow> EndpointId \<Rightarrow> i64 \<Rightarrow> Record \<Rightarrow> Record" where
  "deletion_record collection author observed_ns w = \<lparr>r_collection = collection, r_path = r_path w,
     r_modified_ns = i64_max observed_ns (i64_saturating_add (r_modified_ns w) 1), r_author = author,
     r_kind = RecordKind.Tombstone\<rparr>"

definition from_future :: "Scanner \<Rightarrow> i64 \<Rightarrow> DiskFile \<Rightarrow> bool" where
  "from_future S observed_ns disk \<longleftrightarrow>
     sint (df_modified_ns disk) > sint (i64_saturating_add observed_ns (duration_ns (sc_max_future_skew S)))"

text \<open>The winner of a path after a scan, from the file found there, if any, and the record state before.\<close>

definition scan_winner ::
  "crypto \<Rightarrow> Scanner \<Rightarrow> WalkContext \<Rightarrow> EndpointId \<Rightarrow> i64 \<Rightarrow> ProtocolPath \<Rightarrow> PathRecordState option \<Rightarrow> Record option" where
  "scan_winner C S ctx author observed_ns path before = (case om_get (wc_files ctx) path of
      Some disk \<Rightarrow>
        if from_future S observed_ns disk then map_option ps_record before
        else (case before of
            None \<Rightarrow> Some (found_record (wc_collection ctx) path author disk)
          | Some v \<Rightarrow>
              if ps_materialized_fingerprint v = Some (disk_fingerprint disk) \<or> disk_matches_record disk (ps_record v)
              then Some (ps_record v)
              else Some (greater_record C (found_record (wc_collection ctx) path author disk) (ps_record v)))
    | None \<Rightarrow> (case before of
          None \<Rightarrow> None
        | Some v \<Rightarrow>
            if is_file (ps_record v) \<and> ps_materialized v \<and> \<not> is_ignored S (as_str path) \<and> \<not> is_excluded ctx (as_str path)
            then Some (greater_record C (deletion_record (wc_collection ctx) author observed_ns (ps_record v)) (ps_record v))
            else Some (ps_record v)))"

definition state_of :: "crypto \<Rightarrow> StateStore \<Rightarrow> string \<Rightarrow> string \<Rightarrow> PathRecordState option" where
  "state_of C s c p = (case record_state C c p s of Inr v \<Rightarrow> v | Inl _ \<Rightarrow> None)"

section \<open>One step of each loop\<close>

definition file_step ::
  "crypto \<Rightarrow> Scanner \<Rightarrow> string \<Rightarrow> EndpointId \<Rightarrow> i64 \<Rightarrow> PathRecordState list \<Rightarrow> ProtocolPath \<times> DiskFile \<Rightarrow> Record option \<Rightarrow> Record option" where
  "file_step C S collection author observed_ns current x before = (case x of (path, disk) \<Rightarrow>
     if from_future S observed_ns disk then before
     else (case before of
         None \<Rightarrow> Some (found_record collection path author disk)
       | Some w \<Rightarrow>
           if om_get (materialized_fingerprints current) (as_str path) = Some (disk_fingerprint disk) \<or> disk_matches_record disk w
           then Some w else Some (greater_record C (found_record collection path author disk) w)))"

lemma greater_record_wins: "greater_record C r w = (if wins C r (Some w) then r else w)"
  by (simp add: greater_record_def wins_def compare_winner_key)

lemma merge_in_scan:
  assumes "records_ok C (fst s)" and "record_wf r" and "scan_db (merge_record C J r t None n) s = (Inr accepted, s')"
  shows "records_ok C (fst s') \<and> accepted = wins C r (winner C (fst s) (rec_key r))
    \<and> (\<forall>k. winner C (fst s') k = (if k = rec_key r \<and> accepted then Some r else winner C (fst s) k))"
proof -
  obtain x t' where m: "merge_record C J r t None n (fst s) = (x, t')" by fastforce
  with assms(3) have "x = Inr accepted" "fst s' = t'" by (auto simp: scan_db_def)
  with merge_record_winner [OF assms(1,2)] m show ?thesis by blast
qed

lemma scan_file_step:
  assumes ok: "records_ok C (fst s)" and name: "is_str collection" and path: "path_ok path"
    and run: "scan_file C J S collection author observed_ns current (path, disk) s = (Inr (), s')"
  shows "records_ok C (fst s') \<and> winner C (fst s') (collection, as_str path)
      = file_step C S collection author observed_ns current (path, disk) (winner C (fst s) (collection, as_str path))
    \<and> (\<forall>k. k \<noteq> (collection, as_str path) \<longrightarrow> winner C (fst s') k = winner C (fst s) k)"
proof (cases "from_future S observed_ns disk")
  case True
  then have "scan_future_file J S collection observed_ns current path disk s = (Inr (), s')"
    using run by (simp add: scan_file_def from_future_def Let_def)
  then have "records_ok C (fst s') \<and> winner C (fst s') = winner C (fst s)"
    using ok unfolding scan_future_file_def Let_def
    by (auto simp: bindS_eq_Inr count_def split: if_splits dest!: unmoved_scan [OF preserves_unmoved(1) ok] unmoved_scan [OF preserves_unmoved(2) ok])
  then show ?thesis using True by (simp add: file_step_def)
next
  case False
  let ?r = "found_record collection path author disk"
  let ?k = "(collection, as_str path)"
  have key: "rec_key ?r = ?k" by (simp add: rec_key_def found_record_def)
  from False run have "scan_present_file C J S collection author observed_ns current path disk s = (Inr (), s')"
    by (simp add: scan_file_def from_future_def Let_def)
  then obtain r0 known where rec0: "record_file collection path (df_modified_ns disk) author (df_size disk) (df_hash disk) = Inr r0"
      and known: "lookup_record C collection (as_str path) (fst s) = Inr known"
      and body0: "(case known of
      Some winner0 \<Rightarrow>
        if om_get (materialized_fingerprints current) (as_str path) = Some (disk_fingerprint disk) \<or> disk_matches_record disk winner0
        then scan_db (set_materialized_fingerprint collection (as_str path) (disk_fingerprint disk))
        else
          bindS (scan_db (merge_record C J r0 observed_ns None (sc_max_logs S))) (\<lambda>merged.
          if \<not> merged
          then
            bindS (if is_file winner0
                   then bindS (scan_db (mark_repair_required_and_log J collection (as_str path) observed_ns
                       (RepairRequired collection path) (sc_max_logs S))) (\<lambda>_. count repair_one)
                   else returnS ()) (\<lambda>_.
            count rejected_one)
          else count accepted_one)
    | None \<Rightarrow> bindS (scan_db (merge_record C J r0 observed_ns None (sc_max_logs S))) (\<lambda>_. count accepted_one)) s = (Inr (), s')"
    unfolding scan_present_file_def Let_def
    by (auto simp: bindS_eq_Inr scan_db_def [of "queryS _"])
  have "r0 = ?r" using rec0 by (simp add: record_file_def record_new_Inr found_record_def)
  note rec = rec0 [unfolded this] and body = body0 [unfolded this]
  have wf: "record_wf ?r" using record_new_wf [OF rec [unfolded record_file_def] name path] .
  have w: "known = winner C (fst s) ?k" using load_record_ok(1) [OF ok, of ?k] known by (simp add: lookup_record_def)
  show ?thesis
  proof (cases known)
    case None
    with body obtain acc s1 where m: "scan_db (merge_record C J ?r observed_ns None (sc_max_logs S)) s = (Inr acc, s1)"
        and "fst s' = fst s1"
      by (auto simp: bindS_eq_Inr count_def)
    then show ?thesis using merge_in_scan [OF ok wf m] key None w False by (simp add: wins_def file_step_def)
  next
    case (Some v)
    show ?thesis
    proof (cases "om_get (materialized_fingerprints current) (as_str path) = Some (disk_fingerprint disk) \<or> disk_matches_record disk v")
      case True
      with body Some have "scan_db (set_materialized_fingerprint collection (as_str path) (disk_fingerprint disk)) s = (Inr (), s')"
        by simp
      from unmoved_scan [OF preserves_unmoved(3) ok this] True Some w False show ?thesis by (simp add: file_step_def)
    next
      case no: False
      with body Some obtain acc s1 where m: "scan_db (merge_record C J ?r observed_ns None (sc_max_logs S)) s = (Inr acc, s1)"
        and tail: "(if \<not> acc
          then
            bindS (if is_file v
                   then bindS (scan_db (mark_repair_required_and_log J collection (as_str path) observed_ns
                       (RepairRequired collection path) (sc_max_logs S))) (\<lambda>_. count repair_one)
                   else returnS ()) (\<lambda>_.
            count rejected_one)
          else count accepted_one) s1 = (Inr (), s')"
        by (auto simp: bindS_eq_Inr)
      note merged = merge_in_scan [OF ok wf m]
      then have ok1: "records_ok C (fst s1)" by blast
      have "records_ok C (fst s') \<and> winner C (fst s') = winner C (fst s1)"
        using tail ok1 by (auto simp: bindS_eq_Inr count_def split: if_splits dest!: unmoved_scan [OF preserves_unmoved(2) ok1])
      then show ?thesis using merged key no Some w False
        by (simp add: file_step_def greater_record_wins)
    qed
  qed
qed

definition missing_step :: "crypto \<Rightarrow> Scanner \<Rightarrow> WalkContext \<Rightarrow> EndpointId \<Rightarrow> i64 \<Rightarrow> PathRecordState \<Rightarrow> Record option \<Rightarrow> Record option" where
  "missing_step C S ctx author observed_ns v before =
    (if is_file (ps_record v) \<and> ps_materialized v \<and> \<not> om_contains (wc_files ctx) (r_path (ps_record v))
        \<and> \<not> is_ignored S (state_path v) \<and> \<not> is_excluded ctx (state_path v)
     then let r = deletion_record (wc_collection ctx) author observed_ns (ps_record v) in
       (case before of None \<Rightarrow> Some r | Some w \<Rightarrow> Some (greater_record C r w))
     else before)"

lemma scan_missing_step:
  assumes ok: "records_ok C (fst s)" and name: "is_str (wc_collection ctx)" and path: "path_ok (r_path (ps_record v))"
    and run: "scan_missing C J S ctx author observed_ns v s = (Inr (), s')"
  shows "records_ok C (fst s') \<and> winner C (fst s') (wc_collection ctx, state_path v)
      = missing_step C S ctx author observed_ns v (winner C (fst s) (wc_collection ctx, state_path v))
    \<and> (\<forall>k. k \<noteq> (wc_collection ctx, state_path v) \<longrightarrow> winner C (fst s') k = winner C (fst s) k)"
proof (cases "\<not> is_file (ps_record v) \<or> \<not> ps_materialized v \<or> om_contains (wc_files ctx) (r_path (ps_record v))
        \<or> is_ignored S (state_path v) \<or> is_excluded ctx (state_path v)")
  case True
  with run have "s' = s" by (auto simp: scan_missing_def Let_def)
  moreover have "missing_step C S ctx author observed_ns v w = w" for w using True by (simp only: missing_step_def) auto
  ultimately show ?thesis using ok by simp
next
  case False
  let ?r = "deletion_record (wc_collection ctx) author observed_ns (ps_record v)"
  have key: "rec_key ?r = (wc_collection ctx, state_path v)" by (simp add: rec_key_def deletion_record_def)
  from run have "(bindS (liftS (mapErr ScanError.Record (record_tombstone (wc_collection ctx) (r_path (ps_record v))
         (i64_max observed_ns (i64_saturating_add (r_modified_ns (ps_record v)) 1)) author))) (\<lambda>tombstone.
       bindS (scan_db (merge_record C J tombstone observed_ns None (sc_max_logs S))) (\<lambda>merged.
       if merged then count tombstone_one else returnS ()))) s = (Inr (), s')"
    unfolding scan_missing_def Let_def if_not_P [OF False] .
  then obtain acc s1 where rec: "record_tombstone (wc_collection ctx) (r_path (ps_record v))
         (i64_max observed_ns (i64_saturating_add (r_modified_ns (ps_record v)) 1)) author = Inr ?r"
      and m: "scan_db (merge_record C J ?r observed_ns None (sc_max_logs S)) s = (Inr acc, s1)" and "fst s' = fst s1"
    by (auto simp: bindS_eq_Inr count_def record_tombstone_def record_new_Inr deletion_record_def split: if_splits)
  have "record_wf ?r" using record_new_wf [OF rec [unfolded record_tombstone_def] name path] .
  from merge_in_scan [OF ok this m] \<open>fst s' = fst s1\<close> key False show ?thesis
    by (auto simp: missing_step_def greater_record_wins wins_def Let_def split: option.split)
qed

section \<open>The whole reconciliation\<close>

lemma record_state_known:
  assumes ok: "records_ok C s" and cur: "record_states C c s = Inr current"
  shows "state_of C s c p = Some v \<longleftrightarrow> v \<in> set current \<and> state_path v = p"
    and "winner C s (c, p) = map_option ps_record (state_of C s c p)"
    and "om_get (materialized_fingerprints current) p = Option.bind (state_of C s c p) ps_materialized_fingerprint"
proof -
  note faithful = record_states_faithful [OF ok cur]
  have path: "state_path v = p" if "record_state C c p s = Inr (Some v)" for v
  proof -
    from that obtain row where row: "om_get (path_records s) (c, p) = Some row"
        "decode_path_record_state C (p, row) c = Inr v"
      by (auto simp: record_state_def bindE_eq_Inr split: option.splits)
    then show ?thesis using decode_state [OF ok _ row(2)] rows_of_get(1) [OF ok] by blast
  qed
  show known: "state_of C s c p = Some v \<longleftrightarrow> v \<in> set current \<and> state_path v = p" for v
    using faithful(2) [of v] path [of v] by (auto simp: state_of_def split: sum.splits)
  have readable: "\<exists>v. record_state C c p s = Inr v"
  proof (cases "om_get (path_records s) (c, p)")
    case (Some row)
    obtain r where r: "record_wf r" "(c, p) = rec_key r" "row_for C r row" by (rule records_ok_row [OF ok Some])
    then obtain fp where "decode_materialized_fingerprint (row_materialized_modified_ns row) (row_materialized_size row)
        (row_materialized_hash row) = Inr fp" using decode_fingerprint_ok by blast
    with Some r decode_row [OF r(1,3)] show ?thesis by (simp add: record_state_def decode_path_record_state_def rec_key_def)
  qed (simp add: record_state_def)
  show "winner C s (c, p) = map_option ps_record (state_of C s c p)"
  proof (cases "state_of C s c p")
    case None
    then have "record_state C c p s = Inr None" using readable by (auto simp: state_of_def)
    then have "om_get (path_records s) (c, p) = None" by (auto simp: record_state_def bindE_eq_Inr split: option.splits)
    then show ?thesis using None by (simp add: winner_def lookup_record_def load_record_def)
  next
    case (Some v)
    with known [of v] faithful(3) [of v] show ?thesis by auto
  qed
  have dist: "distinct (map fst (List.map_filter (\<lambda>r. map_option (\<lambda>f. (state_path r, f)) (ps_materialized_fingerprint r)) current))"
    using faithful(1) by (induction current) (auto simp: List.map_filter_def image_iff split: option.splits)
  have "om_get (materialized_fingerprints current) p
      = map_of (List.map_filter (\<lambda>r. map_option (\<lambda>f. (state_path r, f)) (ps_materialized_fingerprint r)) current) p"
    unfolding materialized_fingerprints_def by (rule om_of_list_get [OF dist])
  then have "om_get (materialized_fingerprints current) p = Some f \<longleftrightarrow>
      (\<exists>v \<in> set current. state_path v = p \<and> ps_materialized_fingerprint v = Some f)" for f
    using map_of_eq_Some_iff [OF dist, of p f] by (auto simp: List.map_filter_def image_iff split: option.splits)
  then have "om_get (materialized_fingerprints current) p = Some f
      \<longleftrightarrow> Option.bind (state_of C s c p) ps_materialized_fingerprint = Some f" for f
    using known by (auto simp: bind_eq_Some_conv)
  then show "om_get (materialized_fingerprints current) p = Option.bind (state_of C s c p) ps_materialized_fingerprint"
    by (metis option.exhaust)
qed

lemma append_log_frame: "append_log J t e n s = (r, s') \<Longrightarrow> path_records s' = path_records s"
  by (auto simp: append_log_def transactionS_def bindE_def dest: insert_log_frame split: sum.splits)

lemma forS_log_frame:
  "forS (\<lambda>warning. scan_db (append_log J t warning n)) warnings s = (r, s') \<Longrightarrow> path_records (fst s') = path_records (fst s)"
proof (induction warnings arbitrary: s)
  case (Cons e es)
  obtain r1 s1 where 1: "scan_db (append_log J t e n) s = (r1, s1)" by (cases "scan_db (append_log J t e n) s")
  then have "path_records (fst s1) = path_records (fst s)"
    by (auto simp: scan_db_def dest: append_log_frame split: prod.splits)
  with 1 Cons show ?case by (cases r1) (auto simp: bindS_def)
qed simp

lemma state_of_cong: "path_records s' = path_records s \<Longrightarrow> state_of C s' c p = state_of C s c p"
  by (simp add: state_of_def record_state_def)

lemma distinct_paths: "om_wf m \<Longrightarrow> distinct (map (\<lambda>x. (c, as_str (fst x))) m)"
  by (drule om_wf_distinct) (auto simp: distinct_map inj_on_def intro: ProtocolPath.expand)

lemma reconcile_run:
  assumes ok: "records_ok C s" and name: "is_str (cs_name collection)"
    and ctx: "wc_collection ctx = cs_name collection" "om_wf (wc_files ctx)" "\<forall>p \<in> fst ` set (wc_files ctx). path_ok p"
    and run: "reconcile C J S collection root ctx author t (s, v) = (Inr (), (s', v'))"
  obtains s0 changed where "complete_collection_scan (cs_name collection) (cs_local_path collection) root s = (Inr changed, s0)"
    and "records_ok C s0" "winner C s0 = winner C s" "records_ok C s'"
    and "\<forall>path. winner C s' (cs_name collection, as_str path)
      = scan_winner C S ctx author t path (state_of C s0 (cs_name collection) (as_str path))"
    and "\<forall>k. fst k \<noteq> cs_name collection \<longrightarrow> winner C s' k = winner C s k"
proof -
  let ?col = "cs_name collection"
  let ?n = "sc_max_logs S"
  from run obtain changed x0 x1 x2 current x3 x4 where
      r0: "scan_db (complete_collection_scan ?col (cs_local_path collection) root) (s, v) = (Inr changed, x0)"
    and r1: "forS (\<lambda>warning. scan_db (append_log J t warning ?n)) (wc_warnings ctx) x0 = (Inr (), x1)"
    and x2: "fst x2 = fst x1" and cur: "record_states C ?col (fst x2) = Inr current"
    and r3: "forS (scan_file C J S ?col author t current) (wc_files ctx) x2 = (Inr (), x3)"
    and r4: "forS (scan_missing C J S ctx author t) current x3 = (Inr (), x4)"
    and r5: "scan_db (append_log J t (CollectionScanned ?col) ?n) x4 = (Inr (), (s', v'))"
    unfolding reconcile_def
    by (auto simp: bindS_eq_Inr count_def scan_db_def [of "queryS _"])
  obtain u0 where u0: "complete_collection_scan ?col (cs_local_path collection) root s = (Inr changed, u0)" "fst x0 = u0"
    using r0 by (auto simp: scan_db_def split: prod.splits)
  have k0: "records_ok C u0 \<and> winner C u0 = winner C s" using unmoved_scan [OF preserves_unmoved(4) _ r0] ok u0(2) by simp
  have same: "path_records (fst x2) = path_records u0" using forS_log_frame [OF r1] x2 u0(2) by simp
  have log: "preserves (\<lambda>y. unmoved C (winner C u0) (fst y)) (forS (\<lambda>warning. scan_db (append_log J t warning ?n)) (wc_warnings ctx))"
    by (intro preserves_forS preserves_scan_db preserves_unmoved)
  have k2: "records_ok C (fst x2) \<and> winner C (fst x2) = winner C u0"
    using preservesD [OF log _ r1] k0 u0(2) x2 by (simp add: unmoved_def)
  then have ok2: "records_ok C (fst x2)" by blast
  note known = record_state_known [OF ok2 cur] and faithful = record_states_faithful [OF ok2 cur]
  have loop3: "records_ok C (fst x3)
    \<and> (\<forall>x \<in> set (wc_files ctx). winner C (fst x3) (?col, as_str (fst x))
        = file_step C S ?col author t current x (winner C (fst x2) (?col, as_str (fst x))))
    \<and> (\<forall>k. k \<notin> (\<lambda>x. (?col, as_str (fst x))) ` set (wc_files ctx) \<longrightarrow> winner C (fst x3) k = winner C (fst x2) k)"
  proof (rule forS_pointwise [OF r3, where I = "\<lambda>y. records_ok C (fst y)" and view = "\<lambda>y. winner C (fst y)"])
    fix x y y' assume "x \<in> set (wc_files ctx)" "records_ok C (fst y)" "scan_file C J S ?col author t current x y = (Inr (), y')"
    with scan_file_step [of C y ?col "fst x" J S author t current "snd x" y'] name ctx(3)
    show "records_ok C (fst y') \<and> winner C (fst y') (?col, as_str (fst x))
        = file_step C S ?col author t current x (winner C (fst y) (?col, as_str (fst x)))
      \<and> (\<forall>k. k \<noteq> (?col, as_str (fst x)) \<longrightarrow> winner C (fst y') k = winner C (fst y) k)" by simp
  qed (use ok2 distinct_paths [OF ctx(2)] in auto)
  then have ok3: "records_ok C (fst x3)" by blast
  have loop4: "records_ok C (fst x4)
    \<and> (\<forall>u \<in> set current. winner C (fst x4) (?col, state_path u)
        = missing_step C S ctx author t u (winner C (fst x3) (?col, state_path u)))
    \<and> (\<forall>k. k \<notin> (\<lambda>u. (?col, state_path u)) ` set current \<longrightarrow> winner C (fst x4) k = winner C (fst x3) k)"
  proof (rule forS_pointwise [OF r4, where I = "\<lambda>y. records_ok C (fst y)" and view = "\<lambda>y. winner C (fst y)"])
    fix u y y' assume u: "u \<in> set current" "records_ok C (fst y)" "scan_missing C J S ctx author t u y = (Inr (), y')"
    have "path_ok (r_path (ps_record u))" using faithful(3) [OF u(1)] by (simp add: record_wf_def)
    with scan_missing_step [OF u(2) _ _ u(3)] name ctx(1)
    show "records_ok C (fst y') \<and> winner C (fst y') (?col, state_path u)
        = missing_step C S ctx author t u (winner C (fst y) (?col, state_path u))
      \<and> (\<forall>k. k \<noteq> (?col, state_path u) \<longrightarrow> winner C (fst y') k = winner C (fst y) k)" by simp
  next
    show "distinct (map (\<lambda>u. (?col, state_path u)) current)"
      using faithful(1) by (simp add: distinct_map inj_on_def)
  qed (rule ok3)
  then have ok4: "records_ok C (fst x4)" by blast
  have k5: "records_ok C s' \<and> winner C s' = winner C (fst x4)" using unmoved_scan [OF preserves_unmoved(1) ok4 r5] by simp
  have "winner C s' (?col, as_str path) = scan_winner C S ctx author t path (state_of C u0 ?col (as_str path))" for path
  proof (cases "om_get (wc_files ctx) path")
    case (Some disk)
    then have "(path, disk) \<in> set (wc_files ctx)" by (simp add: om_get_in_set)
    then have 3: "winner C (fst x3) (?col, as_str path) = file_step C S ?col author t current (path, disk)
        (winner C (fst x2) (?col, as_str path))" using loop3 by fastforce
    have "winner C (fst x4) (?col, as_str path) = winner C (fst x3) (?col, as_str path)"
    proof (cases "\<exists>u \<in> set current. state_path u = as_str path")
      case True
      then obtain u where u: "u \<in> set current" "state_path u = as_str path" by blast
      have "om_contains (wc_files ctx) (r_path (ps_record u))"
        using ProtocolPath.expand [OF u(2)] Some by (simp add: om_contains_def)
      then show ?thesis using loop4 u by (auto simp: missing_step_def)
    next
      case False
      then have "(?col, as_str path) \<notin> (\<lambda>u. (?col, state_path u)) ` set current" by auto
      with loop4 show ?thesis by blast
    qed
    with 3 Some known(2,3) [of "as_str path"] ctx(1) show ?thesis
      by (simp add: k5 file_step_def scan_winner_def state_of_cong [OF same] split: option.split)
  next
    case None
    then have "path \<notin> fst ` set (wc_files ctx)" by (simp add: om_get_None_iff)
    then have "(?col, as_str path) \<notin> (\<lambda>x. (?col, as_str (fst x))) ` set (wc_files ctx)"
      by (auto dest!: ProtocolPath.expand)
    with loop3 have 3: "winner C (fst x3) (?col, as_str path) = winner C (fst x2) (?col, as_str path)" by blast
    show ?thesis
    proof (cases "state_of C (fst x2) ?col (as_str path)")
      case no: None
      have "\<forall>u \<in> set current. state_path u \<noteq> as_str path"
      proof
        fix u assume "u \<in> set current"
        with known(1) [of "as_str path" u] no show "state_path u \<noteq> as_str path" by auto
      qed
      then have "(?col, as_str path) \<notin> (\<lambda>u. (?col, state_path u)) ` set current" by auto
      with loop4 3 None no known(2) [of "as_str path"] show ?thesis
        by (simp add: k5 scan_winner_def state_of_cong [OF same, symmetric])
    next
      case (Some u)
      then have u: "u \<in> set current" "state_path u = as_str path" using known(1) by auto
      then have "winner C (fst x4) (?col, as_str path)
          = missing_step C S ctx author t u (winner C (fst x3) (?col, as_str path))" using loop4 by force
      moreover have "r_path (ps_record u) = path" using u(2) by (simp add: ProtocolPath.expand)
      ultimately show ?thesis using 3 None Some known(2) [of "as_str path"]
        by (simp add: k5 scan_winner_def missing_step_def om_contains_def Let_def state_of_cong [OF same, symmetric])
    qed
  qed
  moreover have "winner C s' k = winner C s k" if "fst k \<noteq> ?col" for k
    using that loop3 loop4 k5 k2 k0 by (cases k) (auto simp: image_iff)
  ultimately show ?thesis using that u0(1) k0 k5 by blast
qed

end
