(* ===== verification/Scanner_Liveness.thy ===== *)
theory Scanner_Liveness
  imports Scanner_Refinement
begin

text \<open>
  A scan completes: on a valid store with room in its log, every step of the reconciliation succeeds, but for one
  case that aborts the whole scan, a file dated in the future at a path whose winner is a materialized tombstone.
\<close>

section \<open>Steps that succeed\<close>

definition path_loggable :: "json \<Rightarrow> string \<Rightarrow> ProtocolPath \<Rightarrow> bool" where
  "path_loggable J c p \<longleftrightarrow> loggable J (CollectionWarning c (Some p) TimestampRejected) \<and> loggable J (RepairRequired c p)
     \<and> loggable J (RecordAccepted c p None) \<and> (\<forall>mt ma wt wa. loggable J (RecordRejected c p None mt ma wt wa))"

definition roomy :: "crypto \<Rightarrow> string \<Rightarrow> nat \<Rightarrow> StateStore \<Rightarrow> bool" where
  "roomy C c n s \<longleftrightarrow> records_ok C s \<and> om_contains (t_collections s) c \<and> n \<le> merge_room s"

lemma merge_room_Suc:
  "Suc n \<le> merge_room s \<Longrightarrow> log_sequence s < 2 ^ 63 - 1"
  "Suc n \<le> merge_room s \<Longrightarrow> log_sequence s' = log_sequence s + 1 \<Longrightarrow> n \<le> merge_room s'"
  unfolding merge_room_def by linarith+

lemma roomyD: "roomy C c (Suc n) s \<Longrightarrow> log_sequence s < 2 ^ 63 - 1"
  unfolding roomy_def by (blast intro: merge_room_Suc(1))

lemma roomy_mono: "roomy C c n s \<Longrightarrow> m \<le> n \<Longrightarrow> roomy C c m s"
  by (simp add: roomy_def)

lemma insert_log_returns:
  assumes "roomy C c (Suc n) s" and "loggable J e" and "m < 2 ^ 63"
  obtains s' where "insert_log J t e m s = Inr s'" "roomy C c n s'" "winner C s' = winner C s"
proof -
  obtain s' where s': "insert_log J t e m s = Inr s'" "log_sequence s' = log_sequence s + 1"
    by (rule insert_log_loggable [OF assms(2) roomyD [OF assms(1)] assms(3)])
  note frame = insert_log_frame [OF s'(1)]
  have "roomy C c n s'"
    using assms(1) merge_room_Suc(2) [OF _ s'(2)] frame records_ok_cong [OF frame(1,2)] by (simp add: roomy_def)
  then show ?thesis using that s'(1) winner_cong [OF frame(2)] by blast
qed

lemma update_winner_row:
  assumes ok: "records_ok C s" and w: "winner C s (c, p) = Some r" and isf: "is_file r"
    and f: "\<And>row r. row_kind row = 1 \<Longrightarrow> row_for C r row \<Longrightarrow> row_for C r (f row)"
  obtains s' where "update_path_records (\<lambda>k row. k = (c, p) \<and> row_kind row = 1) f s = Inr (1, s')"
    "records_ok C s'" "winner C s' = winner C s" "t_collections s' = t_collections s" "log_sequence s' = log_sequence s"
proof -
  let ?P = "\<lambda>k row. k = (c, p) \<and> row_kind row = 1"
  have keep: "row_for C q (f row)" if "?P k row" "row_for C q row" for k row q using f that by blast
  obtain row where row: "om_get (path_records s) (c, p) = Some row" "row_kind row = kind_column (r_kind r)"
    using winner_kind [OF ok w] by blast
  have one: "row_kind row = 1" using isf row(2) by (simp add: is_file_def kind_column_def split: RecordKind.splits)
  have "om_wf (path_records s)" using ok by (auto simp: records_ok_def dest: rows_ok_wf)
  then have "length (filter (\<lambda>(k, row). ?P k row) (path_records s)) = 1"
    using filter_key_length [of "path_records s" "(c, p)" "\<lambda>row. row_kind row = 1"] row(1) one by simp
  then show ?thesis
    using that [of "s\<lparr>path_records := om_update_where ?P f (path_records s)\<rparr>"] update_rows_ok [OF ok keep]
    by (simp add: fun_eq_iff)
qed

lemma mark_repair_returns:
  assumes "roomy C c (Suc n) s" and "loggable J e" and "m < 2 ^ 63" and w: "winner C s (c, p) = Some r" "is_file r"
  obtains s' where "mark_repair_required_and_log J c p t e m s = (Inr (), s')" "roomy C c n s'" "winner C s' = winner C s"
proof -
  have ok: "records_ok C s" using assms(1) by (simp add: roomy_def)
  obtain s1 where s1: "update_path_records (\<lambda>k row. k = (c, p) \<and> row_kind row = 1) clear_materialized s = Inr (1, s1)"
      "records_ok C s1" "winner C s1 = winner C s" "t_collections s1 = t_collections s" "log_sequence s1 = log_sequence s"
    by (rule update_winner_row [OF ok w row_for_clear])
  have "roomy C c (Suc n) s1" using assms(1) s1 by (simp add: roomy_def merge_room_def)
  then obtain s' where "insert_log J t e m s1 = Inr s'" "roomy C c n s'" "winner C s' = winner C s1"
    by (rule insert_log_returns [OF _ assms(2,3)])
  then show ?thesis using that s1 by (simp add: mark_repair_required_and_log_def transactionS_def)
qed

lemma set_fingerprint_returns:
  assumes "roomy C c n s" and w: "winner C s (c, p) = Some r" "is_file r" and fp: "unat (fp_size fp) < 2 ^ 63"
  obtains s' where "set_materialized_fingerprint c p fp s = (Inr (), s')" "roomy C c n s'" "winner C s' = winner C s"
proof -
  have ok: "records_ok C s" using assms(1) by (simp add: roomy_def)
  have len: "i64_try_from_u64 (fp_size fp) = Some (fp_size fp)" using fp by (simp add: i64_try_from_u64_def)
  obtain s1 where "update_path_records (\<lambda>k row. k = (c, p) \<and> row_kind row = 1)
      (\<lambda>r. r\<lparr>row_materialized := 1, row_materialized_modified_ns := Some (fp_modified_ns fp),
            row_materialized_size := Some (fp_size fp), row_materialized_hash := Some (to_be_bytes (fp_hash fp))\<rparr>) s = Inr (1, s1)"
      "records_ok C s1" "winner C s1 = winner C s" "t_collections s1 = t_collections s" "log_sequence s1 = log_sequence s"
    by (rule update_winner_row [OF ok w row_for_fingerprint [OF _ _ len]])
  then show ?thesis
    using that [of s1] assms(1)
    by (simp add: set_materialized_fingerprint_def update_materialized_fingerprint_def transactionS_def len roomy_def merge_room_def)
qed

lemma append_log_returns:
  assumes "roomy C c (Suc n) s" and "loggable J e" and "m < 2 ^ 63"
  obtains s' where "append_log J t e m s = (Inr (), s')" "roomy C c n s'" "winner C s' = winner C s"
  by (rule insert_log_returns [OF assms, of t]) (use that in \<open>simp add: append_log_def transactionS_def\<close>)

lemma merge_record_returns:
  assumes "roomy C c (Suc n) s" and wf: "record_wf r" "r_collection r = c" and e: "path_loggable J c (r_path r)" and m: "m < 2 ^ 63"
  obtains s' where "merge_record C J r t None m s = (Inr (wins C r (winner C s (rec_key r))), s')" "roomy C c n s'"
    "\<forall>k. k \<noteq> rec_key r \<longrightarrow> winner C s' k = winner C s k"
    "winner C s' (rec_key r) = (if wins C r (winner C s (rec_key r)) then Some r else winner C s (rec_key r))"
proof -
  have ok: "records_ok C s" and room: "0 < merge_room s" using assms(1) by (simp_all add: roomy_def)
  have adm: "merge_admissible J m s (r, t, None)"
    using assms(1) wf e m by (simp add: merge_admissible_def roomy_def path_loggable_def)
  obtain s' where s': "merge_record C J r t None m s = (Inr (wins C r (winner C s (rec_key r))), s')"
    "records_ok C s'" "t_collections s' = t_collections s" "log_sequence s' = log_sequence s + 1"
    and win: "\<forall>k. winner C s' k = (if k = rec_key r
        then (if wins C r (winner C s k) then Some r else winner C s k) else winner C s k)"
    by (rule merge_record_ok [OF ok adm room])
  have "roomy C c n s'" using assms(1) s' merge_room_Suc(2) [OF _ s'(4)] by (simp add: roomy_def)
  then show ?thesis using that s'(1) win by metis
qed

section \<open>One file, one missing path\<close>

lemma scan_db_Inr: "m (fst s) = (Inr a, t) \<Longrightarrow> scan_db m s = (Inr a, (t, snd s))"
  by (simp add: scan_db_def)

definition diverged :: "PathRecordState list \<Rightarrow> ProtocolPath \<Rightarrow> DiskFile \<Rightarrow> bool" where
  "diverged current path disk \<longleftrightarrow> (\<exists>winner \<in> set current. r_path (ps_record winner) = path
     \<and> ps_materialized winner \<and> \<not> disk_bytes_match_record disk (ps_record winner))"

definition scan_name_ok :: "string \<Rightarrow> bool" where
  "scan_name_ok c \<longleftrightarrow> c \<noteq> [] \<and> string_ok c"

definition file_ok :: "json \<Rightarrow> string \<Rightarrow> ProtocolPath \<Rightarrow> DiskFile \<Rightarrow> bool" where
  "file_ok J c path disk \<longleftrightarrow> path_ok path \<and> length (as_str path) < 2 ^ 32 \<and> unat (df_size disk) < 2 ^ 63 \<and> path_loggable J c path"

lemma scan_future_file_returns:
  assumes room: "roomy C c (Suc n) (fst s)" and log: "path_loggable J c path" "sc_max_logs S < 2 ^ 63"
    and safe: "diverged current path disk \<Longrightarrow> \<exists>r. winner C (fst s) (c, as_str path) = Some r \<and> is_file r"
  shows "\<exists>s'. scan_future_file J S c t current path disk s = (Inr (), s') \<and> roomy C c n (fst s') \<and> winner C (fst s') = winner C (fst s)"
proof -
  let ?e = "CollectionWarning c (Some path) TimestampRejected"
  have e: "loggable J ?e" using log(1) by (simp add: path_loggable_def)
  show ?thesis
  proof (cases "diverged current path disk")
    case True
    then obtain r where r: "winner C (fst s) (c, as_str path) = Some r" "is_file r" using safe by blast
    obtain u where "mark_repair_required_and_log J c (as_str path) t ?e (sc_max_logs S) (fst s) = (Inr (), u)"
        "roomy C c n u" "winner C u = winner C (fst s)"
      by (rule mark_repair_returns [OF room e log(2) r])
    then show ?thesis using True
      by (simp add: scan_future_file_def Let_def bindS_def scan_db_Inr count_def flip: diverged_def)
  next
    case False
    obtain u where "append_log J t ?e (sc_max_logs S) (fst s) = (Inr (), u)" "roomy C c n u" "winner C u = winner C (fst s)"
      by (rule append_log_returns [OF room e log(2)])
    then show ?thesis using False
      by (simp add: scan_future_file_def Let_def bindS_def scan_db_Inr count_def flip: diverged_def)
  qed
qed

lemma scan_present_file_returns:
  assumes room: "roomy C c (Suc (Suc n)) (fst s)" and ok: "scan_name_ok c" "file_ok J c path disk" "sc_max_logs S < 2 ^ 63"
    and durable: "om_get (materialized_fingerprints current) (as_str path) = Some (disk_fingerprint disk) \<Longrightarrow>
      \<forall>r. winner C (fst s) (c, as_str path) = Some r \<longrightarrow> is_file r"
  shows "\<exists>s'. scan_present_file C J S c author t current path disk s = (Inr (), s') \<and> roomy C c n (fst s')
    \<and> (\<forall>k. k \<noteq> (c, as_str path) \<longrightarrow> winner C (fst s') k = winner C (fst s) k)"
proof -
  let ?r = "found_record c path author disk"
  let ?k = "(c, as_str path)"
  have key: "rec_key ?r = ?k" by (simp add: rec_key_def found_record_def)
  have rec: "record_file c path (df_modified_ns disk) author (df_size disk) (df_hash disk) = Inr ?r"
    using ok(1,2) by (simp add: record_file_def record_new_Inr found_record_def scan_name_ok_def file_ok_def kind_wf_def)
  have wf: "record_wf ?r" "r_collection ?r = c" "path_loggable J c (r_path ?r)"
    using record_new_wf [OF rec [unfolded record_file_def]] ok(1,2)
    by (simp_all add: scan_name_ok_def file_ok_def found_record_def)
  have recs: "records_ok C (fst s)" using room by (simp add: roomy_def)
  have look: "lookup_record C c (as_str path) (fst s) = Inr (winner C (fst s) ?k)"
    using load_record_ok(1) [OF recs, of ?k] by (simp add: lookup_record_def)
  obtain u where m: "merge_record C J ?r t None (sc_max_logs S) (fst s) = (Inr (wins C ?r (winner C (fst s) ?k)), u)"
      "roomy C c (Suc n) u" "\<forall>k. k \<noteq> ?k \<longrightarrow> winner C u k = winner C (fst s) k"
      "winner C u ?k = (if wins C ?r (winner C (fst s) ?k) then Some ?r else winner C (fst s) ?k)"
    by (rule merge_record_returns [OF room wf ok(3), of t]) (simp only: key)
  have m1: "roomy C c n u" by (rule roomy_mono [OF m(2)]) simp
  note unfold = scan_present_file_def Let_def rec look
  show ?thesis
  proof (cases "winner C (fst s) ?k")
    case None
    then show ?thesis using m m1
      by (simp add: unfold bindS_def scan_db_Inr scan_db_def [of "queryS _"] count_def)
  next
    case (Some w)
    show ?thesis
    proof (cases "om_get (materialized_fingerprints current) (as_str path) = Some (disk_fingerprint disk) \<or> disk_matches_record disk w")
      case True
      then have w: "is_file w" using durable Some by (auto simp: disk_matches_record_def is_file_def split: RecordKind.splits)
      have size63: "unat (fp_size (disk_fingerprint disk)) < 2 ^ 63" using ok(2) by (simp add: file_ok_def disk_fingerprint_def)
      obtain v where "set_materialized_fingerprint c (as_str path) (disk_fingerprint disk) (fst s) = (Inr (), v)"
          "roomy C c (Suc (Suc n)) v" "winner C v = winner C (fst s)"
        by (rule set_fingerprint_returns [OF room Some w size63])
      moreover from this(2) have "roomy C c n v" by (rule roomy_mono) simp
      ultimately show ?thesis using True Some
        by (simp add: unfold bindS_def scan_db_Inr scan_db_def [of "queryS _"])
    next
      case False
      show ?thesis
      proof (cases "wins C ?r (Some w) \<or> \<not> is_file w")
        case True
        then show ?thesis using m m1 False Some
          by (auto simp: unfold bindS_def scan_db_Inr scan_db_def [of "queryS _"] count_def)
      next
        case lost: False
        have e: "loggable J (RepairRequired c path)" using ok(2) by (simp add: file_ok_def path_loggable_def)
        have "winner C u ?k = Some w" "is_file w" using m(4) Some lost by simp_all
        then obtain v where "mark_repair_required_and_log J c (as_str path) t (RepairRequired c path) (sc_max_logs S) u = (Inr (), v)"
            "roomy C c n v" "winner C v = winner C u"
          by (rule mark_repair_returns [OF m(2) e ok(3)])
        note v = this
        have 1: "scan_db (merge_record C J ?r t None (sc_max_logs S)) s = (Inr False, (u, snd s))"
          by (rule scan_db_Inr) (use m(1) Some lost in simp)
        have 2: "scan_db (mark_repair_required_and_log J c (as_str path) t (RepairRequired c path) (sc_max_logs S)) (u, snd s)
            = (Inr (), (v, snd s))"
          by (simp add: scan_db_def v(1))
        show ?thesis using 1 2 v(2,3) m(3) False Some lost
          by (simp add: unfold bindS_def scan_db_def [of "queryS _"] count_def)
      qed
    qed
  qed
qed

lemma scan_missing_returns:
  assumes room: "roomy C c (Suc n) (fst s)" and ok: "scan_name_ok c" "wc_collection ctx = c" "sc_max_logs S < 2 ^ 63"
    and wf: "record_wf (ps_record v)" "path_loggable J c (r_path (ps_record v))"
  shows "\<exists>s'. scan_missing C J S ctx author t v s = (Inr (), s') \<and> roomy C c n (fst s')
    \<and> (\<forall>k. k \<noteq> (c, state_path v) \<longrightarrow> winner C (fst s') k = winner C (fst s) k)"
proof -
  let ?r = "deletion_record c author t (ps_record v)"
  have key: "rec_key ?r = (c, state_path v)" by (simp add: rec_key_def deletion_record_def)
  have rec: "record_tombstone c (r_path (ps_record v))
         (i64_max t (i64_saturating_add (r_modified_ns (ps_record v)) 1)) author = Inr ?r"
    using ok(1) wf(1) by (simp add: record_tombstone_def record_new_Inr deletion_record_def scan_name_ok_def record_wf_def kind_wf_def)
  have wf': "record_wf ?r" "r_collection ?r = c" "path_loggable J c (r_path ?r)"
    using record_new_wf [OF rec [unfolded record_tombstone_def]] ok(1) wf
    by (simp_all add: scan_name_ok_def deletion_record_def record_wf_def)
  obtain u where "merge_record C J ?r t None (sc_max_logs S) (fst s) = (Inr (wins C ?r (winner C (fst s) (c, state_path v))), u)"
      "roomy C c n u" "\<forall>k. k \<noteq> (c, state_path v) \<longrightarrow> winner C u k = winner C (fst s) k"
    by (rule merge_record_returns [OF room wf' ok(3), of t]) (simp only: key)
  note u = this
  have m: "scan_db (merge_record C J ?r t None (sc_max_logs S)) s
      = (Inr (wins C ?r (winner C (fst s) (c, state_path v))), (u, snd s))"
    by (rule scan_db_Inr) (rule u(1))
  show ?thesis
  proof (cases "\<not> is_file (ps_record v) \<or> \<not> ps_materialized v \<or> om_contains (wc_files ctx) (r_path (ps_record v))
        \<or> is_ignored S (state_path v) \<or> is_excluded ctx (state_path v)")
    case True
    then have "scan_missing C J S ctx author t v s = (Inr (), s)" by (auto simp: scan_missing_def Let_def)
    then show ?thesis using roomy_mono [OF room, of n] by (intro exI [of _ s]) simp
  next
    case False
    have "scan_missing C J S ctx author t v s
        = bindS (scan_db (merge_record C J ?r t None (sc_max_logs S))) (\<lambda>merged. if merged then count tombstone_one else returnS ()) s"
      unfolding scan_missing_def Let_def if_not_P [OF False] ok(2) rec
      by (simp only: mapErr_simps bindS_def liftS_apply prod.case sum.case)
    then show ?thesis using u(2,3) by (simp add: bindS_def m count_def)
  qed
qed

section \<open>Loops that run through, or stop\<close>

lemma forS_total:
  assumes "I (a * length xs + n) s" and "distinct (map key xs)"
    and step: "\<And>x s m. x \<in> set xs \<Longrightarrow> I (a + m) s \<Longrightarrow> view s (key x) = V (key x) \<Longrightarrow>
      \<exists>s'. f x s = (Inr (), s') \<and> I m s' \<and> (\<forall>k. k \<noteq> key x \<longrightarrow> view s' k = view s k)"
    and "\<forall>x \<in> set xs. view s (key x) = V (key x)"
  shows "\<exists>s'. forS f xs s = (Inr (), s') \<and> I n s' \<and> (\<forall>k. k \<notin> key ` set xs \<longrightarrow> view s' k = view s k)"
  using assms
proof (induction xs arbitrary: s)
  case Nil
  then show ?case by simp
next
  case (Cons x xs)
  have "I (a + (a * length xs + n)) s" using Cons.prems(1) by (simp add: algebra_simps)
  then have "\<exists>s'. f x s = (Inr (), s') \<and> I (a * length xs + n) s' \<and> (\<forall>k. k \<noteq> key x \<longrightarrow> view s' k = view s k)"
    by (rule Cons.prems(3) [rotated]) (use Cons.prems(4) in simp_all)
  then obtain s1 where s1: "f x s = (Inr (), s1)" "I (a * length xs + n) s1"
      "\<forall>k. k \<noteq> key x \<longrightarrow> view s1 k = view s k" by blast
  have new: "key x \<notin> key ` set xs" and dist: "distinct (map key xs)" using Cons.prems(2) by auto
  have known: "\<forall>y \<in> set xs. view s1 (key y) = V (key y)"
  proof
    fix y assume y: "y \<in> set xs"
    have "key y \<in> key ` set xs" using y by (rule imageI)
    then have "key y \<noteq> key x" using new by metis
    then show "view s1 (key y) = V (key y)" using s1(3) y Cons.prems(4) by simp
  qed
  have step': "\<And>y s m. y \<in> set xs \<Longrightarrow> I (a + m) s \<Longrightarrow> view s (key y) = V (key y) \<Longrightarrow>
      \<exists>s'. f y s = (Inr (), s') \<and> I m s' \<and> (\<forall>k. k \<noteq> key y \<longrightarrow> view s' k = view s k)"
    by (rule Cons.prems(3)) simp_all
  obtain s' where s': "forS f xs s1 = (Inr (), s')" "I n s'" "\<forall>k. k \<notin> key ` set xs \<longrightarrow> view s' k = view s1 k"
    using Cons.IH [OF s1(2) dist step' known] by blast
  have "forS f (x # xs) s = (Inr (), s')" using s1(1) s'(1) by (simp add: bindS_def)
  then show ?case using s'(2,3) s1(3) by auto
qed

text \<open>If a loop gets through, it gets through the step of each of its elements.\<close>

lemma forS_reaches:
  assumes "forS f xs s = (Inr (), s')" and "I s" and "distinct (map key xs)" and "x \<in> set xs"
    and step: "\<And>x s s'. x \<in> set xs \<Longrightarrow> I s \<Longrightarrow> f x s = (Inr (), s') \<Longrightarrow>
      I s' \<and> (\<forall>k. k \<noteq> key x \<longrightarrow> view s' k = view s k)"
  shows "\<exists>y y'. I y \<and> view y (key x) = view s (key x) \<and> f x y = (Inr (), y')"
  using assms
proof (induction xs arbitrary: s)
  case (Cons z zs)
  from Cons.prems(1) obtain s1 where s1: "f z s = (Inr (), s1)" "forS f zs s1 = (Inr (), s')"
    by (auto simp: bindS_eq_Inr)
  show ?case
  proof (cases "x = z")
    case True
    with s1(1) Cons.prems(2) show ?thesis by blast
  next
    case False
    then have x: "x \<in> set zs" using Cons.prems(4) by simp
    have z: "I s1 \<and> (\<forall>k. k \<noteq> key z \<longrightarrow> view s1 k = view s k)"
      by (rule Cons.prems(5) [OF _ Cons.prems(2) s1(1)]) simp
    have step': "\<And>x s s'. x \<in> set zs \<Longrightarrow> I s \<Longrightarrow> f x s = (Inr (), s') \<Longrightarrow>
      I s' \<and> (\<forall>k. k \<noteq> key x \<longrightarrow> view s' k = view s k)" by (rule Cons.prems(5)) simp_all
    have "distinct (map key zs)" using Cons.prems(3) by simp
    then obtain y y' where "I y" "view y (key x) = view s1 (key x)" "f x y = (Inr (), y')"
      using Cons.IH [OF s1(2) _ _ x step'] z by blast
    moreover have "key x \<noteq> key z" using Cons.prems(3) imageI [OF x, of key] by auto
    ultimately show ?thesis using z by auto
  qed
qed simp

section \<open>The reconciliation completes\<close>

lemma complete_scan_returns:
  assumes "roomy C c n s" and "collections_ok s" and "local_path \<noteq> []"
  obtains changed s0 where "complete_collection_scan c local_path root s = (Inr changed, s0)" "roomy C c n s0"
    "winner C s0 = winner C s"
proof -
  let ?f = "\<lambda>r. r\<lparr>row_local_path := local_path, row_resolved_root := Some root, row_scan_status := ''active''\<rparr>"
  let ?P = "\<lambda>k r. fst k = c \<and> row_kind r = (1::int)"
  have "check_collection_row c r \<Longrightarrow> check_collection_row c (?f r)" for r
    using assms(3) by (simp add: check_collection_row_def)
  note upd = update_collections_run [OF assms(2) this]
  let ?s1 = "s\<lparr>t_collections := om_update_where (\<lambda>n c'. n = c) ?f (t_collections s)\<rparr>"
  obtain col where col: "om_get (t_collections s) c = Some col" using assms(1) by (auto simp: roomy_def om_contains_def)
  have ok1: "records_ok C ?s1" using assms(1) by (simp only: records_ok_update_collections roomy_def)
  have r1: "roomy C c n ?s1" using ok1 assms(1) by (simp add: roomy_def merge_room_def om_contains_def)
  note rows = update_rows_ok [OF ok1, of ?P clear_materialized, OF row_for_clear]
  let ?s2 = "?s1\<lparr>path_records := om_update_where ?P clear_materialized (path_records ?s1)\<rparr>"
  have r2: "roomy C c n ?s2" using rows(2) r1 by (simp add: roomy_def merge_room_def)
  have w1: "winner C ?s1 = winner C s" using winner_cong [of ?s1 s C] by (simp add: fun_eq_iff)
  have w2: "winner C ?s2 = winner C s" using rows(3) w1 by (simp add: fun_eq_iff)
  let ?changed = "row_resolved_root col \<noteq> Some root"
  have "complete_collection_scan c local_path root s = (Inr ?changed, if ?changed then ?s2 else ?s1)"
    using upd col rows(1) by (simp add: complete_collection_scan_def transactionS_def Let_def)
  then show ?thesis using that [of ?changed "if ?changed then ?s2 else ?s1"] r1 r2 w1 w2 by simp
qed

lemma scan_future_blocked:
  assumes ok: "records_ok C (fst s)" and w: "winner C (fst s) (c, as_str path) = Some w" "r_kind w = RecordKind.Tombstone"
    and div: "diverged current path disk"
  shows "scan_future_file J S c t current path disk s = (Inl (State MissingPathRecord), s)"
proof -
  have wf: "om_wf (path_records (fst s))" using ok by (auto simp: records_ok_def dest: rows_ok_wf)
  obtain row where row: "om_get (path_records (fst s)) (c, as_str path) = Some row" "row_kind row = kind_column (r_kind w)"
    using winner_kind [OF ok w(1)] by blast
  have "length (filter (\<lambda>(k, r). k = (c, as_str path) \<and> row_kind r = 1) (path_records (fst s))) = 0"
    using filter_key_length [OF wf, of "(c, as_str path)" "\<lambda>r. row_kind r = 1"] row w(2) by (simp add: kind_column_def)
  then have "mark_repair_required_and_log J c (as_str path) t e n (fst s) = (Inl MissingPathRecord, fst s)" for e n
    using update_rows_ok(1) [OF ok, of "\<lambda>k r. k = (c, as_str path) \<and> row_kind r = 1" clear_materialized, OF row_for_clear]
    by (simp add: mark_repair_required_and_log_def transactionS_def)
  then show ?thesis using div
    by (simp add: scan_future_file_def Let_def bindS_def scan_db_def flip: diverged_def)
qed


lemma log_warnings_returns:
  assumes "roomy C c (length es + n) (fst s)" and "\<forall>e \<in> set es. loggable J e" and "m < 2 ^ 63"
  shows "\<exists>s'. forS (\<lambda>e. scan_db (append_log J t e m)) es s = (Inr (), s') \<and> roomy C c n (fst s')
    \<and> winner C (fst s') = winner C (fst s)"
  using assms(1,2)
proof (induction es arbitrary: s)
  case (Cons e es)
  have "roomy C c (Suc (length es + n)) (fst s)" "loggable J e" using Cons.prems by simp_all
  from append_log_returns [OF this assms(3), of t] obtain u where u: "append_log J t e m (fst s) = (Inr (), u)"
      "roomy C c (length es + n) u" "winner C u = winner C (fst s)" by metis
  have "\<exists>s'. forS (\<lambda>e. scan_db (append_log J t e m)) es (u, snd s) = (Inr (), s') \<and> roomy C c n (fst s')
    \<and> winner C (fst s') = winner C (fst (u, snd s))" by (rule Cons.IH) (use u(2) Cons.prems(2) in simp_all)
  then show ?case using u(1,3) by (auto simp: bindS_def scan_db_Inr)
qed simp

lemma map_result_total: "\<forall>x \<in> set xs. \<exists>y. f x = Inr y \<Longrightarrow> \<exists>ys. map_result f xs = Inr ys"
  by (induction xs) auto

lemma record_states_readable:
  assumes ok: "records_ok C s"
  obtains current where "record_states C c s = Inr current" "length current \<le> length (path_records s)"
proof -
  have "\<exists>v. decode_path_record_state C x c = Inr v" if "x \<in> set (rows_of c s)" for x
  proof -
    obtain p row where x: "x = (p, row)" by fastforce
    then have "om_get (path_records s) (c, p) = Some row" using that rows_of_get(1) [OF ok] by simp
    from records_ok_row [OF ok this] obtain r where r: "record_wf r" "(c, p) = rec_key r" "row_for C r row" by blast
    then obtain fp where "decode_materialized_fingerprint (row_materialized_modified_ns row) (row_materialized_size row)
        (row_materialized_hash row) = Inr fp" using decode_fingerprint_ok by blast
    then show ?thesis using r decode_row [OF r(1,3)] by (simp add: x decode_path_record_state_def rec_key_def)
  qed
  then obtain current where "record_states C c s = Inr current"
    using map_result_total [of "rows_of c s" "\<lambda>st. decode_path_record_state C st c"] by (auto simp: record_states_def)
  moreover from this have "length current \<le> length (path_records s)"
  proof -
    have "length (rows_of c s) = length current"
      using \<open>record_states C c s = Inr current\<close> by (auto simp: record_states_def map_result_eq_Inr dest: list_all2_lengthD)
    moreover have "length (rows_of c s) \<le> length (path_records s)" by (simp add: rows_of_def)
    ultimately show ?thesis by simp
  qed
  ultimately show ?thesis using that by blast
qed

end
