(* ===== verification/Scanner_Completion.thy ===== *)
theory Scanner_Completion
  imports Scanner_Liveness
begin

text \<open>When the reconciliation completes, and the one case in which it never does.\<close>

definition scan_admissible ::
  "crypto \<Rightarrow> json \<Rightarrow> Scanner \<Rightarrow> CollectionState \<Rightarrow> WalkContext \<Rightarrow> StateStore \<Rightarrow> bool" where
  "scan_admissible C J S collection ctx s \<longleftrightarrow>
     scan_name_ok (cs_name collection) \<and> wc_collection ctx = cs_name collection \<and> cs_local_path collection \<noteq> []
     \<and> sc_max_logs S < 2 ^ 63 \<and> om_wf (wc_files ctx)
     \<and> (\<forall>(path, disk) \<in> set (wc_files ctx). file_ok J (cs_name collection) path disk)
     \<and> (\<forall>e \<in> set (wc_warnings ctx). loggable J e) \<and> loggable J (CollectionScanned (cs_name collection))
     \<and> (\<forall>p r. winner C s (cs_name collection, as_str p) = Some r \<longrightarrow> path_loggable J (cs_name collection) p)
     \<and> collections_ok s
     \<and> roomy C (cs_name collection)
         (length (wc_warnings ctx) + (2 * length (wc_files ctx) + Suc (length (path_records s)))) s"

text \<open>A file dated in the future where the store holds a deletion it has carried out.\<close>

definition scan_blocked ::
  "crypto \<Rightarrow> Scanner \<Rightarrow> string \<Rightarrow> WalkContext \<Rightarrow> i64 \<Rightarrow> StateStore \<Rightarrow> bool" where
  "scan_blocked C S collection ctx observed_ns s \<longleftrightarrow>
     (\<exists>(path, disk) \<in> set (wc_files ctx). from_future S observed_ns disk
        \<and> (\<exists>v. state_of C s collection (as_str path) = Some v \<and> ps_materialized v
             \<and> r_kind (ps_record v) = RecordKind.Tombstone))"

lemma is_file_iff: "is_file r \<longleftrightarrow> r_kind r \<noteq> RecordKind.Tombstone"
  by (simp add: is_file_def split: RecordKind.splits)

text \<open>Completing the scan of a collection clears files only.\<close>

lemma complete_scan_rows:
  assumes "complete_collection_scan c local_path root s = (Inr changed, s0)"
  obtains b where "path_records s0 = om_update_where (\<lambda>k r. b \<and> fst k = c \<and> row_kind r = 1) clear_materialized (path_records s)"
proof -
  have id: "om_update_where (\<lambda>k r. False \<and> fst k = c \<and> row_kind r = 1) clear_materialized m = m" for m :: "(string \<times> string, path_record_row) omap"
    by (simp add: om_update_where_def case_prod_unfold)
  from assms have "path_records s0 = path_records s \<or>
      path_records s0 = om_update_where (\<lambda>k r. fst k = c \<and> row_kind r = 1) clear_materialized (path_records s)"
    unfolding complete_collection_scan_def transactionS_eq_Inr Let_def
    by (auto simp: bindE_eq_Inr update_collections_def update_path_records_def sql_update_eq_Inr split: if_splits)
  then show ?thesis using that [of True] that [of False] id by auto
qed

lemma state_of_tombstone:
  assumes "records_ok C s" and "path_records s0 = om_update_where (\<lambda>k r. b \<and> fst k = c \<and> row_kind r = 1) clear_materialized (path_records s)"
    and "winner C s (c, p) = Some w" "\<not> is_file w"
  shows "state_of C s0 c p = state_of C s c p"
proof -
  obtain row where "om_get (path_records s) (c, p) = Some row" "row_kind row = kind_column (r_kind w)"
    using winner_kind [OF assms(1,3)] by blast
  then show ?thesis using assms(2,4) by (simp add: state_of_def record_state_def om_get_update_where is_file_iff kind_column_def)
qed

lemma state_winner:
  assumes "records_ok C s"
  shows "winner C s (c, p) = map_option ps_record (state_of C s c p)"
  using record_states_readable [OF assms, of c] record_state_known(2) [OF assms] by blast

lemma scan_blocked_completed:
  assumes "records_ok C s" and "complete_collection_scan c local_path root s = (Inr changed, s0)"
    and "records_ok C s0" "winner C s0 = winner C s"
  shows "scan_blocked C S c ctx t s0 = scan_blocked C S c ctx t s"
proof -
  obtain b where b: "path_records s0 = om_update_where (\<lambda>k r. b \<and> fst k = c \<and> row_kind r = 1) clear_materialized (path_records s)"
    by (rule complete_scan_rows [OF assms(2)])
  have "state_of C s0 c p = Some v \<longleftrightarrow> state_of C s c p = Some v" if tomb: "r_kind (ps_record v) = RecordKind.Tombstone" for p v
  proof -
    have "\<not> is_file (ps_record v)" using tomb by (simp add: is_file_iff)
    then have "winner C s (c, p) = Some (ps_record v) \<Longrightarrow> state_of C s0 c p = state_of C s c p"
      by (rule state_of_tombstone [OF assms(1) b, rotated])
    then show ?thesis using state_winner [OF assms(1), of c p] state_winner [OF assms(3), of c p] assms(4) by auto
  qed
  then show ?thesis by (auto simp: scan_blocked_def)
qed

section \<open>The two loops\<close>

lemma diverged_state:
  assumes ok: "records_ok C s" and cur: "record_states C c s = Inr current"
  shows "diverged current path disk \<longleftrightarrow> (\<exists>v. state_of C s c (as_str path) = Some v \<and> ps_materialized v
    \<and> \<not> disk_bytes_match_record disk (ps_record v))"
proof -
  have "as_str q = as_str path \<longleftrightarrow> q = path" for q by (auto intro: ProtocolPath.expand)
  then show ?thesis unfolding diverged_def record_state_known(1) [OF ok cur] by auto
qed

lemma tombstone_fingerprint:
  assumes ok: "records_ok C s" and v: "state_of C s c p = Some v" "ps_materialized_fingerprint v = Some f"
  shows "is_file (ps_record v)"
proof -
  from v(1) obtain row where row: "om_get (path_records s) (c, p) = Some row" "decode_path_record_state C (p, row) c = Inr v"
    by (auto simp: state_of_def record_state_def bindE_eq_Inr split: option.splits sum.splits)
  from records_ok_row [OF ok row(1)] obtain r where r: "record_wf r" "(c, p) = rec_key r" "row_for C r row" by blast
  then have "ps_record v = r" using row(2) decode_row [OF r(1,3)]
    by (auto simp: decode_path_record_state_def bindE_eq_Inr rec_key_def)
  moreover have "row_kind row = 1" using row(2) v(2) r(3)
    by (auto simp: decode_path_record_state_def bindE_eq_Inr row_for_def decode_materialized_fingerprint_def split: if_splits)
  ultimately show ?thesis using r(3) by (simp add: is_file_iff row_for_def kind_column_def split: RecordKind.splits)
qed

lemma scan_file_returns:
  assumes ok2: "records_ok C s2" and cur: "record_states C c s2 = Inr current"
    and x: "x \<in> set (wc_files ctx)" "\<not> scan_blocked C S c ctx t s2"
    and room: "roomy C c (2 + n) (fst s)" and same: "winner C (fst s) (c, as_str (fst x)) = winner C s2 (c, as_str (fst x))"
    and ok: "scan_name_ok c" "file_ok J c (fst x) (snd x)" "sc_max_logs S < 2 ^ 63"
  shows "\<exists>s'. scan_file C J S c author t current x s = (Inr (), s') \<and> roomy C c n (fst s')
    \<and> (\<forall>k. k \<noteq> (c, as_str (fst x)) \<longrightarrow> winner C (fst s') k = winner C (fst s) k)"
proof (cases "from_future S t (snd x)")
  case True
  have log: "path_loggable J c (fst x)" using ok(2) by (simp add: file_ok_def)
  have room1: "roomy C c (Suc n) (fst s)" by (rule roomy_mono [OF room]) simp
  have "\<exists>r. winner C (fst s) (c, as_str (fst x)) = Some r \<and> is_file r" if "diverged current (fst x) (snd x)"
    using that x True unfolding diverged_state [OF ok2 cur] same state_winner [OF ok2]
    by (cases x) (auto simp: scan_blocked_def is_file_iff)
  then show ?thesis using scan_future_file_returns [OF room1 log ok(3), where current = current and disk = "snd x" and t = t] True
    by (cases x) (auto simp: scan_file_def from_future_def)
next
  case False
  have room2: "roomy C c (Suc (Suc n)) (fst s)" using room by simp
  have durable: "\<forall>r. winner C (fst s) (c, as_str (fst x)) = Some r \<longrightarrow> is_file r"
    if "om_get (materialized_fingerprints current) (as_str (fst x)) = Some (disk_fingerprint (snd x))"
    using that tombstone_fingerprint [OF ok2, of c "as_str (fst x)"]
    unfolding record_state_known(3) [OF ok2 cur] same state_winner [OF ok2] by (auto simp: bind_eq_Some_conv)
  show ?thesis using scan_present_file_returns [OF room2 ok durable, where author = author and t = t] False
    by (cases x) (auto simp: scan_file_def from_future_def)
qed

section \<open>The whole reconciliation\<close>

lemma reconcile_unblocked:
  assumes adm: "scan_admissible C J S collection ctx s" and free: "\<not> scan_blocked C S (cs_name collection) ctx t s"
  shows "\<exists>s'. reconcile C J S collection root ctx author t (s, v) = (Inr (), s')"
proof -
  let ?c = "cs_name collection"
  let ?files = "wc_files ctx"
  let ?n = "Suc (length (path_records s))"
  note adm = adm [unfolded scan_admissible_def]
  have rec0: "records_ok C s" using adm by (simp add: roomy_def)
  obtain changed s0 where s0: "complete_collection_scan ?c (cs_local_path collection) root s = (Inr changed, s0)"
      "roomy C ?c (length (wc_warnings ctx) + (2 * length ?files + ?n)) s0" "winner C s0 = winner C s"
    using complete_scan_returns [of C ?c "length (wc_warnings ctx) + (2 * length ?files + ?n)" s "cs_local_path collection" root]
      adm by metis
  have free0: "\<not> scan_blocked C S ?c ctx t s0"
    using free scan_blocked_completed [OF rec0 s0(1) _ s0(3)] s0(2) by (simp add: roomy_def)
  have "\<exists>x1. forS (\<lambda>warning. scan_db (append_log J t warning (sc_max_logs S))) (wc_warnings ctx) (s0, v) = (Inr (), x1)
      \<and> roomy C ?c (2 * length ?files + ?n) (fst x1) \<and> winner C (fst x1) = winner C (fst (s0, v))"
    by (rule log_warnings_returns) (use s0(2) adm in simp_all)
  then obtain s1 v1 where x1: "forS (\<lambda>warning. scan_db (append_log J t warning (sc_max_logs S))) (wc_warnings ctx) (s0, v) = (Inr (), (s1, v1))"
      "roomy C ?c (2 * length ?files + ?n) s1" "winner C s1 = winner C s" using s0(3) by auto
  have same: "path_records s1 = path_records s0" using forS_log_frame [OF x1(1)] by simp
  obtain b where "path_records s0 = om_update_where (\<lambda>k r. b \<and> fst k = ?c \<and> row_kind r = 1) clear_materialized (path_records s)"
    by (rule complete_scan_rows [OF s0(1)])
  then have len: "length (path_records s1) = length (path_records s)" using same by (simp add: om_update_where_def)
  have ok1: "records_ok C s1" using x1(2) by (simp add: roomy_def)
  obtain current where cur: "record_states C ?c s1 = Inr current" "length current \<le> length (path_records s)"
    using record_states_readable [OF ok1, of ?c] len by metis
  have free1: "\<not> scan_blocked C S ?c ctx t s1" using free0 by (simp add: scan_blocked_def state_of_cong [OF same])
  let ?v2 = "empty_summary\<lparr>ss_files := length ?files\<rparr>"
  have "\<exists>x3. forS (scan_file C J S ?c author t current) ?files (s1, ?v2) = (Inr (), x3) \<and> roomy C ?c ?n (fst x3)
      \<and> (\<forall>k. k \<notin> (\<lambda>x. (?c, as_str (fst x))) ` set ?files \<longrightarrow> winner C (fst x3) k = winner C (fst (s1, ?v2)) k)"
  proof (rule forS_total [where a = 2 and V = "winner C s1" and I = "\<lambda>m y. roomy C ?c m (fst y)"
        and view = "\<lambda>y. winner C (fst y)" and n = ?n])
    show "roomy C ?c (2 * length ?files + ?n) (fst (s1, ?v2))" using x1(2) by simp
    show "distinct (map (\<lambda>x. (?c, as_str (fst x))) ?files)" by (rule distinct_paths) (use adm in simp)
    show "\<forall>x \<in> set ?files. winner C (fst (s1, ?v2)) (?c, as_str (fst x)) = winner C s1 (?c, as_str (fst x))" by simp
    fix x m and y :: "StateStore \<times> ScanSummary"
    assume x: "x \<in> set ?files" "roomy C ?c (2 + m) (fst y)" "winner C (fst y) (?c, as_str (fst x)) = winner C s1 (?c, as_str (fst x))"
    show "\<exists>y'. scan_file C J S ?c author t current x y = (Inr (), y') \<and> roomy C ?c m (fst y')
      \<and> (\<forall>k. k \<noteq> (?c, as_str (fst x)) \<longrightarrow> winner C (fst y') k = winner C (fst y) k)"
      by (rule scan_file_returns [OF ok1 cur(1) x(1) free1 x(2,3)]) (use adm x(1) in auto)
  qed
  then obtain x3 where x3: "forS (scan_file C J S ?c author t current) ?files (s1, ?v2) = (Inr (), x3)" "roomy C ?c ?n (fst x3)"
    by blast
  have "\<exists>x4. forS (scan_missing C J S ctx author t) current x3 = (Inr (), x4) \<and> roomy C ?c 1 (fst x4)
      \<and> (\<forall>k. k \<notin> (\<lambda>u. (?c, state_path u)) ` set current \<longrightarrow> winner C (fst x4) k = winner C (fst x3) k)"
  proof (rule forS_total [where a = 1 and V = "winner C (fst x3)" and I = "\<lambda>m y. roomy C ?c m (fst y)"
        and view = "\<lambda>y. winner C (fst y)" and n = 1])
    show "roomy C ?c (1 * length current + 1) (fst x3)" by (rule roomy_mono [OF x3(2)]) (use cur(2) in simp)
    show "distinct (map (\<lambda>u. (?c, state_path u)) current)"
      using record_states_faithful(1) [OF ok1 cur(1)] by (simp add: distinct_map inj_on_def)
    fix u m and y :: "StateStore \<times> ScanSummary" assume u: "u \<in> set current" "roomy C ?c (1 + m) (fst y)"
    note faithful = record_states_faithful(3) [OF ok1 cur(1) u(1)]
    have "path_loggable J ?c (r_path (ps_record u))" using faithful x1(3) adm by auto
    then show "\<exists>y'. scan_missing C J S ctx author t u y = (Inr (), y') \<and> roomy C ?c m (fst y')
      \<and> (\<forall>k. k \<noteq> (?c, state_path u) \<longrightarrow> winner C (fst y') k = winner C (fst y) k)"
      using scan_missing_returns [of C ?c m y ctx S u J author t] faithful u(2) adm by simp
  qed simp
  then obtain x4 where x4: "forS (scan_missing C J S ctx author t) current x3 = (Inr (), x4)" "roomy C ?c (Suc 0) (fst x4)"
    by auto
  have "loggable J (CollectionScanned ?c)" "sc_max_logs S < 2 ^ 63" using adm by simp_all
  then obtain u where "append_log J t (CollectionScanned ?c) (sc_max_logs S) (fst x4) = (Inr (), u)"
    using append_log_returns [OF x4(2)] by metis
  then show ?thesis using s0(1) x1(1) x3(1) x4(1) cur(1)
    by (simp add: reconcile_def bindS_def scan_db_Inr count_def scan_db_def [of "queryS _"])
qed

lemma reconcile_blocked:
  assumes ok: "records_ok C s" and name: "is_str (cs_name collection)"
    and ctx: "om_wf (wc_files ctx)" "\<forall>p \<in> fst ` set (wc_files ctx). path_ok p"
    and blocked: "scan_blocked C S (cs_name collection) ctx t s"
  shows "reconcile C J S collection root ctx author t (s, v) \<noteq> (Inr (), s')"
proof
  let ?c = "cs_name collection"
  assume "reconcile C J S collection root ctx author t (s, v) = (Inr (), s')"
  then obtain changed x0 x1 x2 current x3 where
      r0: "scan_db (complete_collection_scan ?c (cs_local_path collection) root) (s, v) = (Inr changed, x0)"
    and r1: "forS (\<lambda>warning. scan_db (append_log J t warning (sc_max_logs S))) (wc_warnings ctx) x0 = (Inr (), x1)"
    and x2: "fst x2 = fst x1" and cur: "record_states C ?c (fst x2) = Inr current"
    and r3: "forS (scan_file C J S ?c author t current) (wc_files ctx) x2 = (Inr (), x3)"
    unfolding reconcile_def by (auto simp: bindS_eq_Inr count_def scan_db_def [of "queryS _"])
  obtain u0 where u0: "complete_collection_scan ?c (cs_local_path collection) root s = (Inr changed, u0)" "fst x0 = u0"
    using r0 by (auto simp: scan_db_def split: prod.splits)
  have k0: "records_ok C u0 \<and> winner C u0 = winner C s" using unmoved_scan [OF preserves_unmoved(4) _ r0] ok u0(2) by simp
  have same: "path_records (fst x2) = path_records u0" using forS_log_frame [OF r1] x2 u0(2) by simp
  have log: "preserves (\<lambda>y. unmoved C (winner C u0) (fst y)) (forS (\<lambda>warning. scan_db (append_log J t warning (sc_max_logs S))) (wc_warnings ctx))"
    by (intro preserves_forS preserves_scan_db preserves_unmoved)
  have ok2: "records_ok C (fst x2)" using preservesD [OF log _ r1] k0 u0(2) x2 by (simp add: unmoved_def)
  have "scan_blocked C S ?c ctx t (fst x2)"
    using blocked scan_blocked_completed [OF ok u0(1)] k0 by (simp add: scan_blocked_def state_of_cong [OF same])
  then obtain path disk w where x: "(path, disk) \<in> set (wc_files ctx)" "from_future S t disk"
      and w: "state_of C (fst x2) ?c (as_str path) = Some w" "ps_materialized w" "r_kind (ps_record w) = RecordKind.Tombstone"
    by (auto simp: scan_blocked_def)
  have div: "diverged current path disk"
    unfolding diverged_state [OF ok2 cur] using w by (intro exI [of _ w]) (simp add: disk_bytes_match_record_def)
  have "\<exists>y y'. records_ok C (fst y) \<and> winner C (fst y) (?c, as_str (fst (path, disk))) = winner C (fst x2) (?c, as_str (fst (path, disk)))
      \<and> scan_file C J S ?c author t current (path, disk) y = (Inr (), y')"
  proof (rule forS_reaches [OF r3, where I = "\<lambda>y. records_ok C (fst y)" and view = "\<lambda>y. winner C (fst y)"
        and key = "\<lambda>x. (?c, as_str (fst x))"])
    fix x y y' assume "x \<in> set (wc_files ctx)" "records_ok C (fst y)" "scan_file C J S ?c author t current x y = (Inr (), y')"
    with scan_file_step [of C y ?c "fst x" J S author t current "snd x" y'] name ctx(2)
    show "records_ok C (fst y') \<and> (\<forall>k. k \<noteq> (?c, as_str (fst x)) \<longrightarrow> winner C (fst y') k = winner C (fst y) k)" by simp
  qed (use ok2 distinct_paths [OF ctx(1)] x(1) in auto)
  then obtain y y' where y: "records_ok C (fst y)" "winner C (fst y) (?c, as_str path) = Some (ps_record w)"
      "scan_future_file J S ?c t current path disk y = (Inr (), y')"
    using x(2) w(1) by (auto simp: state_winner [OF ok2] scan_file_def from_future_def)
  then show False using scan_future_blocked [OF y(1,2) w(3) div] by simp
qed

lemma reconcile_outcome:
  assumes "scan_admissible C J S collection ctx s"
  shows "(\<exists>s'. reconcile C J S collection root ctx author t (s, v) = (Inr (), s')) \<longleftrightarrow> \<not> scan_blocked C S (cs_name collection) ctx t s"
proof -
  have "records_ok C s" "is_str (cs_name collection)" "om_wf (wc_files ctx)" "\<forall>p \<in> fst ` set (wc_files ctx). path_ok p"
    using assms by (auto simp: scan_admissible_def roomy_def scan_name_ok_def file_ok_def)
  from reconcile_blocked [OF this] reconcile_unblocked [OF assms] show ?thesis by blast
qed

end
