(* ===== verification/Sync_Session.thy ===== *)
theory Sync_Session
  imports Installer Wire_Protocol
begin

text \<open>
  \<open>sync.rs\<close>, first part: the error type, the connection to a peer, the authorization of the peer by the roster, the
  merge of the peer's manifests and the choice of the files to request. The peer is the bytes that arrive from it, any
  byte list; the environment can make every network call time out or fail. What \<open>iroh\<close> and \<open>serde_json\<close> do with
  endpoint addresses and the loading of this device's key are parameters (\<open>peer_env\<close>).
\<close>

section \<open>Errors and configuration\<close>

datatype SyncError =
    Timeout
  | Transport
  | MissingRoster
  | UnauthorizedPeer
  | RosterChangedAndUnauthorizedPeer
  | WrongGroup
  | WrongCollections
  | HintIdentityMismatch
  | HintAddressLimit
  | UnsolicitedFile
  | InterruptedFile
  | CorruptFile
  | FileSize
  | UnexpectedState
  | InvalidEndpoint
  | JoinRejected
  | Protocol ProtocolError
  | State StateError
  | Record RecordError
  | Install InstallError
  | Json
  | Io IoError

definition is_connectivity_failure :: "SyncError \<Rightarrow> bool" where
  "is_connectivity_failure e \<longleftrightarrow> e \<in> {SyncError.Timeout, SyncError.Transport, InterruptedFile, Protocol ProtocolError.Timeout,
     Protocol ProtocolError.Transport, Protocol ProtocolError.Truncated}"

definition is_local_failure :: "SyncError \<Rightarrow> bool" where
  "is_local_failure e = (case e of SyncError.State _ \<Rightarrow> True | SyncError.Io _ \<Rightarrow> True | Install _ \<Rightarrow> True
     | Protocol ProtocolError.Io \<Rightarrow> True | _ \<Rightarrow> False)"

definition MAX_ENDPOINT_ADDRS :: nat where "MAX_ENDPOINT_ADDRS = 32"

datatype ConnectionSide = Dialer | Acceptor

text \<open>The address of an endpoint as \<open>iroh\<close> has it; what a transport address is does not matter here.\<close>

record EndpointAddr =
  ea_id :: EndpointId
  ea_addrs :: "string list"

record SessionConfig =
  cf_local_endpoint :: EndpointId
  cf_local_addr :: EndpointAddr
  cf_max_future_clock_skew :: nat
  cf_max_logs :: nat

datatype net_fault = IdleTimeout | Disconnected

record peer_env =
  pe_fault :: "nat \<Rightarrow> (net_fault \<times> nat) option"
  pe_addr_to_string :: "EndpointAddr \<Rightarrow> string option"
  pe_addr_from_str :: "string \<Rightarrow> EndpointAddr option"
  pe_identity :: "nat \<Rightarrow> DeviceIdentity option"

section \<open>The connection\<close>

record session =
  se_world :: world
  se_in :: "byte list"
  se_out :: "byte list"
  se_received :: u64
  se_net :: nat

type_synonym 'a session_action = "(session, SyncError, 'a) action"
type_synonym 'a local_action = "(world, SyncError, 'a) action"

definition on_local :: "(world, 'e, 'a) action \<Rightarrow> (session, 'e, 'a) action" where
  "on_local m s = (case m (se_world s) of (r, w) \<Rightarrow> (r, s\<lparr>se_world := w\<rparr>))"

text \<open>A network call under \<open>IO_IDLE_TIMEOUT\<close>, with the errors it maps its two failures to.\<close>

definition net_call :: "peer_env \<Rightarrow> 'e \<Rightarrow> 'e \<Rightarrow> (session, 'e, unit) action" where
  "net_call N on_timeout on_failure s =
    (let s' = s\<lparr>se_net := Suc (se_net s)\<rparr> in
     case pe_fault N (se_net s) of
       None \<Rightarrow> (Inr (), s')
     | Some (IdleTimeout, _) \<Rightarrow> (Inl on_timeout, s')
     | Some (Disconnected, _) \<Rightarrow> (Inl on_failure, s'))"

text \<open>A write that fails may have sent a prefix.\<close>

definition net_write :: "peer_env \<Rightarrow> 'e \<Rightarrow> 'e \<Rightarrow> byte list \<Rightarrow> (session, 'e, unit) action" where
  "net_write N on_timeout on_failure bs s =
    (let sent = (case pe_fault N (se_net s) of None \<Rightarrow> bs | Some (_, n) \<Rightarrow> take n bs) in
     net_call N on_timeout on_failure (s\<lparr>se_out := se_out s @ sent\<rparr>))"

definition write_frame_async :: "peer_env \<Rightarrow> FrameTag \<Rightarrow> byte list \<Rightarrow> unit session_action" where
  "write_frame_async N tag payload =
    bindS (liftS (mapErr Protocol (encode_frame tag payload)))
      (net_write N (Protocol ProtocolError.Timeout) (Protocol ProtocolError.Transport))"

definition read_frame :: "peer_env \<Rightarrow> (FrameTag \<times> byte list) session_action" where
  "read_frame N =
    bindS (net_call N (Protocol ProtocolError.Timeout) (Protocol ProtocolError.Truncated)) (\<lambda>_ s.
    case read_frame_async (se_received s) (se_in s) of
      Inl e \<Rightarrow> (Inl (Protocol e), s)
    | Inr (frame, received, src) \<Rightarrow> (Inr frame, s\<lparr>se_in := src, se_received := received\<rparr>))"

definition read_expected :: "peer_env \<Rightarrow> FrameTag \<Rightarrow> byte list session_action" where
  "read_expected N expected =
    bindS (read_frame N) (\<lambda>(tag, payload).
    bindS (liftS (mapErr Protocol (expect_frame_tag tag expected))) (\<lambda>_. returnS payload))"

text \<open>
  The two halves run concurrently under \<open>try_join!\<close>. Neither depends on the other, so their order matters only for
  which error is returned when both fail, and for how much was sent when the read fails.
\<close>

definition exchange_frame :: "peer_env \<Rightarrow> FrameTag \<Rightarrow> byte list \<Rightarrow> byte list session_action" where
  "exchange_frame N tag local_payload = bindS (write_frame_async N tag local_payload) (\<lambda>_. read_expected N tag)"

section \<open>The store\<close>

definition wdb :: "(StateStore, StateError, 'a) action \<Rightarrow> 'a local_action" where
  "wdb m = mapErrS SyncError.State (db m)"

definition wquery :: "(StateStore \<Rightarrow> StateError + 'a) \<Rightarrow> 'a local_action" where
  "wquery q = wdb (queryS q)"

definition open_store_file :: "unit local_action" where
  "open_store_file = wdb migrate"

text \<open>\<open>state.append_log(now_ns(), &event, config.max_logs)\<close>\<close>

definition log_event :: "env \<Rightarrow> json \<Rightarrow> SessionConfig \<Rightarrow> OperationalEvent \<Rightarrow> unit local_action" where
  "log_event E J cfg event = bindS (now_ns E) (\<lambda>now. wdb (append_log J now event (cf_max_logs cfg)))"

section \<open>Authorization\<close>

definition is_member :: "RosterRevision \<Rightarrow> EndpointId \<Rightarrow> bool" where
  "is_member revision endpoint \<longleftrightarrow> om_contains (rr_members revision) endpoint"

definition tip_of :: "RosterRevision list \<Rightarrow> RosterRevision option" where
  "tip_of chain = (if chain = [] then None else Some (last chain))"

definition authorize_local_roster :: "crypto \<Rightarrow> EndpointId \<Rightarrow> EndpointId \<Rightarrow> unit local_action" where
  "authorize_local_roster C local_endpoint remote_endpoint =
    bindS open_store_file (\<lambda>_.
    bindS (wquery (selected_roster_chain C)) (\<lambda>chain.
    bindS (liftS (ok_or MissingRoster (tip_of chain))) (\<lambda>tip.
    if \<not> is_member tip local_endpoint \<or> \<not> is_member tip remote_endpoint then throwS UnauthorizedPeer
    else returnS ())))"

definition local_session_state :: "crypto \<Rightarrow> (RosterRevision list \<times> string list) local_action" where
  "local_session_state C =
    bindS open_store_file (\<lambda>_.
    bindS (wquery (selected_roster_chain C)) (\<lambda>chain.
    bindS (wquery collections) (\<lambda>cs. returnS (chain, map cs_name cs))))"

text \<open>\<open>load_identity_from_data_dir\<close>, any error becoming \<open>MissingRoster\<close>.\<close>

definition load_identity :: "peer_env \<Rightarrow> DeviceIdentity local_action" where
  "load_identity N w = (ok_or MissingRoster (pe_identity N (w_tick w)), w\<lparr>w_tick := Suc (w_tick w)\<rparr>)"

text \<open>
  This device's own changes that the merge has put off the selected chain are applied again, while it is a member.
\<close>

primrec reapply_changes ::
  "crypto \<Rightarrow> DeviceIdentity \<Rightarrow> EndpointId \<Rightarrow> RosterRevision list \<Rightarrow> unit local_action" where
  "reapply_changes C identity local_endpoint [] = returnS ()"
| "reapply_changes C identity local_endpoint (revision # rest_revisions) =
    bindS (wquery (selected_roster_chain C)) (\<lambda>chain.
    if (case tip_of chain of None \<Rightarrow> True | Some tip \<Rightarrow> \<not> is_member tip local_endpoint) then returnS ()
    else
      bindS (wdb (apply_roster_change C identity (rr_change revision))) (\<lambda>_.
      reapply_changes C identity local_endpoint rest_revisions))"

definition merge_and_authorize_remote_roster ::
  "crypto \<Rightarrow> peer_env \<Rightarrow> RosterRevision list \<Rightarrow> EndpointId \<Rightarrow> EndpointId \<Rightarrow> bool local_action" where
  "merge_and_authorize_remote_roster C N revisions local_endpoint remote_endpoint =
    bindS open_store_file (\<lambda>_.
    bindS (wquery (selected_roster_chain C)) (\<lambda>previous.
    let previous_tip = map_option (roster_canonical_hash C) (tip_of previous) in
    bindS (wdb (merge_selected_roster_chain C revisions)) (\<lambda>_.
    bindS (wquery (selected_roster_chain C)) (\<lambda>selected_after_merge.
    let selected_hashes = roster_canonical_hash C ` set selected_after_merge in
    bindS
      (if (case previous_tip of None \<Rightarrow> False | Some h \<Rightarrow> h \<notin> selected_hashes)
       then
         bindS (load_identity N) (\<lambda>identity.
         reapply_changes C identity local_endpoint
           (filter (\<lambda>revision. roster_canonical_hash C revision \<notin> selected_hashes \<and> rr_author revision = local_endpoint) previous))
       else returnS ()) (\<lambda>_.
    bindS (wquery (selected_roster_chain C)) (\<lambda>selected.
    bindS (liftS (ok_or MissingRoster (tip_of selected))) (\<lambda>tip.
    let roster_changed = (previous_tip \<noteq> Some (roster_canonical_hash C tip)) in
    if \<not> is_member tip local_endpoint \<or> \<not> is_member tip remote_endpoint
    then throwS (if roster_changed then RosterChangedAndUnauthorizedPeer else UnauthorizedPeer)
    else returnS roster_changed)))))))"

definition accept_remote_roster_and_hint ::
  "crypto \<Rightarrow> peer_env \<Rightarrow> RosterRevision list \<Rightarrow> RosterHash \<Rightarrow> EndpointId \<Rightarrow> EndpointId \<Rightarrow> string \<Rightarrow> bool local_action" where
  "accept_remote_roster_and_hint C N revisions local_genesis_hash local_endpoint remote_endpoint encoded =
    (if (case revisions of [] \<Rightarrow> True | revision # _ \<Rightarrow> roster_canonical_hash C revision \<noteq> local_genesis_hash)
     then throwS WrongGroup
     else if encoded = [] \<or> length encoded > MAX_ADDRESS_HINT_BYTES then throwS (Protocol AddressHintTooLarge)
     else
       bindS (liftS (ok_or Json (pe_addr_from_str N encoded))) (\<lambda>addr.
       if ea_id addr \<noteq> remote_endpoint then throwS HintIdentityMismatch
       else if length (ea_addrs addr) > MAX_ENDPOINT_ADDRS then throwS HintAddressLimit
       else
         bindS (merge_and_authorize_remote_roster C N revisions local_endpoint remote_endpoint) (\<lambda>roster_changed.
         bindS open_store_file (\<lambda>_.
         bindS (wdb (replace_peer_hint remote_endpoint encoded)) (\<lambda>_.
         returnS roster_changed)))))"

section \<open>Manifests\<close>

definition build_manifests :: "crypto \<Rightarrow> string list \<Rightarrow> ManifestBundle local_action" where
  "build_manifests C shared =
    bindS open_store_file (\<lambda>_ w.
    (bindE (map_result (\<lambda>collection.
        bindE (mapErr SyncError.State (records C collection (w_state w))) (\<lambda>rs.
        bindE (mapErr SyncError.Record (manifest_new rs)) (\<lambda>m.
        Inr (collection, m)))) shared) (\<lambda>manifests.
      Inr \<lparr>mb_manifests = manifests\<rparr>), w))"

definition merge_candidate ::
  "env \<Rightarrow> crypto \<Rightarrow> json \<Rightarrow> SessionConfig \<Rightarrow> EndpointId \<Rightarrow> i64 \<Rightarrow> string \<Rightarrow> os_path \<Rightarrow> Record \<Rightarrow> unit local_action" where
  "merge_candidate E C J cfg remote_endpoint future_limit collection local_path candidate =
    (let path = as_str (r_path candidate) in
     if sint (r_modified_ns candidate) > sint future_limit
     then log_event E J cfg (CollectionWarning collection (Some (r_path candidate)) TimestampRejected)
     else
       bindS (wquery (lookup_record C collection path)) (\<lambda>current.
       bindS (if current \<noteq> Some candidate
              then
                bindS (now_ns E) (\<lambda>now.
                bindS (wdb (merge_record C J candidate now (Some remote_endpoint) (cf_max_logs cfg))) (\<lambda>_. returnS ()))
              else returnS ()) (\<lambda>_.
       bindS (wquery (lookup_record C collection path)) (\<lambda>winner.
       if winner = Some candidate \<and> r_kind candidate = RecordKind.Tombstone
       then
         bindS (wquery (record_state C collection path)) (\<lambda>known.
         if (case known of None \<Rightarrow> False | Some item \<Rightarrow> \<not> ps_materialized item)
         then
           catchS (materialize_tombstone E J local_path candidate (cf_max_logs cfg)) (\<lambda>r. case r of
             Inr _ \<Rightarrow> returnS ()
           | Inl _ \<Rightarrow> log_event E J cfg (RepairRequired collection (r_path candidate)))
         else returnS ())
       else returnS ()))))"

definition merge_manifest ::
  "env \<Rightarrow> crypto \<Rightarrow> json \<Rightarrow> SessionConfig \<Rightarrow> EndpointId \<Rightarrow> i64 \<Rightarrow> string \<times> Manifest \<Rightarrow> unit local_action" where
  "merge_manifest E C J cfg remote_endpoint future_limit x = (case x of (collection, manifest) \<Rightarrow>
    bindS (wquery (collection_named collection)) (\<lambda>found.
    bindS (liftS (ok_or WrongCollections found)) (\<lambda>local_collection.
    forS (merge_candidate E C J cfg remote_endpoint future_limit collection (cs_local_path local_collection))
      (m_records manifest))))"

section \<open>Requests\<close>

definition missing_file ::
  "crypto \<Rightarrow> i64 \<Rightarrow> string \<Rightarrow> (ProtocolPath, PathRecordState) omap \<Rightarrow> Record \<Rightarrow> FileRequest option" where
  "missing_file C future_limit collection states remote =
    (if sint (r_modified_ns remote) > sint future_limit then None
     else case om_get states (r_path remote) of
         None \<Rightarrow> None
       | Some winner \<Rightarrow>
           if ps_record winner = remote \<and> r_kind remote \<noteq> RecordKind.Tombstone \<and> \<not> ps_materialized winner
           then Some (FileRequest collection (as_str (r_path remote)) (record_canonical_hash (c_blake3 C) remote))
           else None)"

definition missing_files ::
  "crypto \<Rightarrow> i64 \<Rightarrow> StateStore \<Rightarrow> string \<times> Manifest \<Rightarrow> StateError + FileRequest list" where
  "missing_files C future_limit s x = (case x of (collection, manifest) \<Rightarrow>
    bindE (record_states C collection s) (\<lambda>current.
    let states = om_of_list (map (\<lambda>item. (r_path (ps_record item), item)) current) in
    Inr (List.map_filter (missing_file C future_limit collection states) (m_records manifest))))"

primrec select_requests ::
  "crypto \<Rightarrow> StateStore \<Rightarrow> FileRequest list \<Rightarrow> FileRequest list \<Rightarrow> u64 \<Rightarrow> StateError + FileRequest list" where
  "select_requests C s [] selected selected_bytes = Inr selected"
| "select_requests C s (request # requests) selected selected_bytes =
    (if length selected = MAX_TRANSFERS then Inr selected
     else
       bindE (lookup_record C (fr_collection request) (fr_path request) s) (\<lambda>found. case found of
         None \<Rightarrow> select_requests C s requests selected selected_bytes
       | Some record \<Rightarrow> (case r_kind record of
             RecordKind.Tombstone \<Rightarrow> select_requests C s requests selected selected_bytes
           | RecordKind.File len h \<Rightarrow> (case u64_checked_add selected_bytes len of
                 None \<Rightarrow> Inr selected
               | Some next_bytes \<Rightarrow>
                   if next_bytes > MAX_SESSION_FILE_BYTES then Inr selected
                   else select_requests C s requests (selected @ [request]) next_bytes))))"

text \<open>\<open>requests.sort(); requests.dedup()\<close>, then the selection.\<close>

definition choose_requests ::
  "crypto \<Rightarrow> i64 \<Rightarrow> ManifestBundle \<Rightarrow> StateStore \<Rightarrow> StateError + FileRequest list" where
  "choose_requests C future_limit bundle s =
    bindE (map_result (missing_files C future_limit s) (mb_manifests bundle)) (\<lambda>lists.
    select_requests C s (remdups_adj (sort (concat lists))) [] 0)"

definition merge_remote_manifests ::
  "env \<Rightarrow> crypto \<Rightarrow> json \<Rightarrow> SessionConfig \<Rightarrow> EndpointId \<Rightarrow> string list \<Rightarrow> ManifestBundle \<Rightarrow> FileRequest list local_action" where
  "merge_remote_manifests E C J cfg remote_endpoint shared bundle =
    (if fst ` set (mb_manifests bundle) \<noteq> set shared then throwS WrongCollections
     else
       bindS (now_ns E) (\<lambda>now.
       let future_limit = i64_saturating_add now (duration_ns (cf_max_future_clock_skew cfg)) in
       bindS open_store_file (\<lambda>_.
       bindS (forS (merge_manifest E C J cfg remote_endpoint future_limit) (mb_manifests bundle)) (\<lambda>_.
       wquery (choose_requests C future_limit bundle)))))"

end
