(* ===== verification/Sync_Transfer.thy ===== *)
theory Sync_Transfer
  imports Sync_Session
begin

text \<open>
  \<open>sync.rs\<close>, second part: sending the files a peer requests, receiving the requested ones, and the whole session.
  A staged file is an unnamed temporary file, here the bytes written to it.
\<close>

section \<open>Unavailable files\<close>

definition validate_requested_collections :: "string list \<Rightarrow> FileRequest list \<Rightarrow> SyncError + unit" where
  "validate_requested_collections shared requests =
    (if \<exists>request \<in> set requests. fr_collection request \<notin> set shared then Inl WrongCollections else Inr ())"

definition log_unavailable_in ::
  "env \<Rightarrow> json \<Rightarrow> SessionConfig \<Rightarrow> EndpointId \<Rightarrow> FileRequest \<Rightarrow> bool \<Rightarrow> unit local_action" where
  "log_unavailable_in E J cfg remote_endpoint request mark_repair =
    bindS (liftS (mapErr (\<lambda>e. Protocol (ProtocolError.Path e)) (parse (fr_path request)))) (\<lambda>path.
    let event = TransferRejected (fr_collection request) path remote_endpoint in
    if mark_repair
    then
      bindS (now_ns E) (\<lambda>now.
      wdb (mark_repair_required_and_log J (fr_collection request) (fr_path request) now event (cf_max_logs cfg)))
    else log_event E J cfg event)"

definition log_unavailable ::
  "env \<Rightarrow> json \<Rightarrow> SessionConfig \<Rightarrow> EndpointId \<Rightarrow> FileRequest \<Rightarrow> bool \<Rightarrow> unit local_action" where
  "log_unavailable E J cfg remote_endpoint request mark_repair =
    bindS open_store_file (\<lambda>_. log_unavailable_in E J cfg remote_endpoint request mark_repair)"

section \<open>Sending\<close>

text \<open>The early returns of the function are nested cases; an opened file is its handle.\<close>

definition prepare_requested_file ::
  "env \<Rightarrow> crypto \<Rightarrow> json \<Rightarrow> SessionConfig \<Rightarrow> EndpointId \<Rightarrow> FileRequest \<Rightarrow> (Record \<times> nat \<times> u64) option local_action" where
  "prepare_requested_file E C J cfg remote_endpoint request =
    (let collection = fr_collection request; path = fr_path request;
         unavailable = (\<lambda>mark_repair. bindS (log_unavailable_in E J cfg remote_endpoint request mark_repair) (\<lambda>_. returnS None)) in
     bindS open_store_file (\<lambda>_.
     bindS (wquery (lookup_record C collection path)) (\<lambda>found. case found of
       None \<Rightarrow> unavailable False
     | Some record \<Rightarrow>
         if record_canonical_hash (c_blake3 C) record \<noteq> fr_record_hash request then unavailable False
         else
           bindS (wquery (record_state C collection path)) (\<lambda>found. case found of
             None \<Rightarrow> unavailable False
           | Some known \<Rightarrow>
               if \<not> ps_materialized known then unavailable False
               else
                 bindS (wquery (collection_named collection)) (\<lambda>found. case found of
                   None \<Rightarrow> unavailable False
                 | Some local_collection \<Rightarrow> (case r_kind record of
                       RecordKind.Tombstone \<Rightarrow> unavailable False
                     | RecordKind.File len h \<Rightarrow>
                         catchS (open_verified_file E C (cs_local_path local_collection) record) (\<lambda>r. case r of
                           Inr opened \<Rightarrow> returnS (Some (record, opened, len))
                         | Inl _ \<Rightarrow> unavailable True)))))))"

text \<open>The \<open>read\<close> of up to 64 KiB at the position reached; a regular file delivers as much as it has.\<close>

function stream_file :: "env \<Rightarrow> peer_env \<Rightarrow> nat \<Rightarrow> nat \<Rightarrow> nat \<Rightarrow> unit session_action" where
  "stream_file E N opened pos remaining =
    (if remaining = 0 then returnS ()
     else
       bindS (on_local (mapErrS SyncError.Io (read_content E opened))) (\<lambda>content.
       let chunk = take (min remaining (64 * 1024)) (drop pos (fd_bytes content)) in
       if chunk = [] then throwS InterruptedFile
       else
         bindS (net_write N SyncError.Timeout SyncError.Transport chunk) (\<lambda>_.
         stream_file E N opened (pos + length chunk) (remaining - length chunk))))"
  by pat_completeness auto
termination by (relation "measure (\<lambda>(E, N, opened, pos, remaining). remaining)") auto

declare stream_file.simps [simp del]

primrec send_requested ::
  "env \<Rightarrow> crypto \<Rightarrow> json \<Rightarrow> peer_env \<Rightarrow> SessionConfig \<Rightarrow> EndpointId \<Rightarrow> u64 \<Rightarrow> FileRequest list \<Rightarrow> unit session_action" where
  "send_requested E C J N cfg remote_endpoint sent_bytes [] = returnS ()"
| "send_requested E C J N cfg remote_endpoint sent_bytes (request # requests) =
    bindS (on_local (prepare_requested_file E C J cfg remote_endpoint request)) (\<lambda>prepared. case prepared of
      None \<Rightarrow>
        bindS (write_frame_async N FileUnavailable []) (\<lambda>_.
        send_requested E C J N cfg remote_endpoint sent_bytes requests)
    | Some (record, opened, len) \<Rightarrow>
        let next_sent = u64_checked_add sent_bytes len in
        if (case next_sent of None \<Rightarrow> True | Some bytes \<Rightarrow> bytes > MAX_SESSION_FILE_BYTES)
        then
          bindS (on_local (log_unavailable E J cfg remote_endpoint request False)) (\<lambda>_.
          bindS (write_frame_async N FileUnavailable []) (\<lambda>_.
          send_requested E C J N cfg remote_endpoint sent_bytes requests))
        else
          bindS (liftS (mapErr Protocol (encode_file_header record))) (\<lambda>header.
          bindS (write_frame_async N FrameTag.File header) (\<lambda>_.
          bindS (stream_file E N opened 0 (unat len)) (\<lambda>_.
          bindS (on_local open_store_file) (\<lambda>_.
          bindS (on_local (log_event E J cfg (FileSent (fr_collection request) (r_path record) remote_endpoint))) (\<lambda>_.
          send_requested E C J N cfg remote_endpoint (the next_sent) requests))))))"

definition send_files ::
  "env \<Rightarrow> crypto \<Rightarrow> json \<Rightarrow> peer_env \<Rightarrow> SessionConfig \<Rightarrow> EndpointId \<Rightarrow> string list \<Rightarrow> FileRequest list \<Rightarrow> unit session_action" where
  "send_files E C J N cfg remote_endpoint shared requests =
    bindS (liftS (validate_requested_collections shared requests)) (\<lambda>_.
    send_requested E C J N cfg remote_endpoint 0 requests)"

section \<open>Receiving\<close>

definition net_read_exact :: "peer_env \<Rightarrow> nat \<Rightarrow> byte list session_action" where
  "net_read_exact N n =
    bindS (net_call N SyncError.Timeout InterruptedFile) (\<lambda>_ s.
    if n \<le> length (se_in s) then (Inr (take n (se_in s)), s\<lparr>se_in := drop n (se_in s)\<rparr>) else (Inl InterruptedFile, s))"

text \<open>The loop returns the bytes staged so far, which are also the bytes hashed.\<close>

function receive_chunks :: "env \<Rightarrow> peer_env \<Rightarrow> byte list \<Rightarrow> nat \<Rightarrow> byte list session_action" where
  "receive_chunks E N staged remaining =
    (if remaining = 0 then returnS staged
     else
       let wanted = min remaining (64 * 1024) in
       bindS (net_read_exact N wanted) (\<lambda>chunk.
       bindS (on_local (mapErrS SyncError.Io (io_noop E))) (\<lambda>_.
       receive_chunks E N (staged @ chunk) (remaining - wanted))))"
  by pat_completeness auto
termination by (relation "measure (\<lambda>(E, N, staged, remaining). remaining)") auto

declare receive_chunks.simps [simp del]

definition receive_raw_file :: "env \<Rightarrow> crypto \<Rightarrow> peer_env \<Rightarrow> nat \<Rightarrow> bytes32 \<Rightarrow> byte list session_action" where
  "receive_raw_file E C N len expected_hash =
    bindS (receive_chunks E N [] len) (\<lambda>staged.
    if c_blake3 C staged \<noteq> expected_hash then throwS CorruptFile
    else bindS (on_local (mapErrS SyncError.Io (io_noop E))) (\<lambda>_. returnS staged))"

definition is_apply_failure :: "InstallError \<Rightarrow> bool" where
  "is_apply_failure e = (case e of UnstableRoot \<Rightarrow> True | PostRenameState _ _ \<Rightarrow> True | _ \<Rightarrow> False)"

text \<open>What follows the staging of one file: it is applied when its record is still the winner.\<close>

definition apply_received ::
  "env \<Rightarrow> crypto \<Rightarrow> json \<Rightarrow> SessionConfig \<Rightarrow> EndpointId \<Rightarrow> FileRequest \<Rightarrow> Record \<Rightarrow> byte list \<Rightarrow> unit local_action" where
  "apply_received E C J cfg remote_endpoint request record staged =
    (let collection = fr_collection request in
     bindS (mapErrS SyncError.Io (io_noop E)) (\<lambda>_.
     bindS open_store_file (\<lambda>_.
     bindS (wquery (lookup_record C collection (fr_path request))) (\<lambda>winner.
     if winner \<noteq> Some record then log_unavailable_in E J cfg remote_endpoint request False
     else
       bindS (wquery (collection_named collection)) (\<lambda>found. case found of
         None \<Rightarrow> log_unavailable_in E J cfg remote_endpoint request False
       | Some local_collection \<Rightarrow>
           catchS (apply_file_fixture E C J (cs_local_path local_collection) record staged (cf_max_logs cfg)) (\<lambda>r. case r of
             Inl e \<Rightarrow>
               if is_apply_failure e
               then catchS (log_event E J cfg (FileApplyRejected collection (r_path record))) (\<lambda>_. returnS ())
               else returnS ()
           | Inr _ \<Rightarrow> log_event E J cfg (FileReceived collection (r_path record) remote_endpoint)))))))"

definition receive_file ::
  "env \<Rightarrow> crypto \<Rightarrow> json \<Rightarrow> peer_env \<Rightarrow> SessionConfig \<Rightarrow> EndpointId \<Rightarrow> FileRequest \<Rightarrow> unit session_action" where
  "receive_file E C J N cfg remote_endpoint request =
    bindS (read_frame N) (\<lambda>(tag, header).
    if tag \<noteq> FrameTag.File \<and> tag \<noteq> FileUnavailable then throwS (Protocol UnexpectedFrame)
    else if tag = FileUnavailable
    then
      if header \<noteq> [] then throwS (Protocol UnexpectedFrame)
      else on_local (log_unavailable E J cfg remote_endpoint request False)
    else
      bindS (liftS (mapErr Protocol (decode_file_header header))) (\<lambda>record.
      if r_collection record \<noteq> fr_collection request \<or> as_str (r_path record) \<noteq> fr_path request
         \<or> record_canonical_hash (c_blake3 C) record \<noteq> fr_record_hash request
      then throwS UnsolicitedFile
      else case r_kind record of
          RecordKind.Tombstone \<Rightarrow> throwS UnsolicitedFile
        | RecordKind.File len declared_hash \<Rightarrow>
            bindS (\<lambda>s. case add_received (se_received s) len of
                Inl e \<Rightarrow> (Inl (Protocol e), s)
              | Inr received \<Rightarrow> (Inr (), s\<lparr>se_received := received\<rparr>)) (\<lambda>_.
            bindS (on_local (mapErrS SyncError.Io (io_noop E))) (\<lambda>_.
            catchS (receive_raw_file E C N (unat len) declared_hash) (\<lambda>result. case result of
              Inl e \<Rightarrow>
                bindS (on_local open_store_file) (\<lambda>_.
                bindS (on_local (log_event E J cfg
                  (TransferRejected (fr_collection request) (r_path record) remote_endpoint))) (\<lambda>_.
                throwS e))
            | Inr staged \<Rightarrow> on_local (apply_received E C J cfg remote_endpoint request record staged))))))"

definition receive_files ::
  "env \<Rightarrow> crypto \<Rightarrow> json \<Rightarrow> peer_env \<Rightarrow> SessionConfig \<Rightarrow> EndpointId \<Rightarrow> FileRequest list \<Rightarrow> unit session_action" where
  "receive_files E C J N cfg remote_endpoint requests = forS (receive_file E C J N cfg remote_endpoint) requests"

section \<open>The session\<close>

record SessionOutcome =
  so_remote_endpoint :: EndpointId
  so_roster_changed :: bool

definition shared_collections :: "string list \<Rightarrow> string list \<Rightarrow> string list" where
  "shared_collections local_collections remote_collections =
    filter (\<lambda>collection. collection \<in> set remote_collections) local_collections"

text \<open>The greeting: authorization, hello and rosters.\<close>

definition exchange_rosters ::
  "crypto \<Rightarrow> peer_env \<Rightarrow> SessionConfig \<Rightarrow> EndpointId \<Rightarrow> (bool \<times> string list) session_action" where
  "exchange_rosters C N cfg remote_endpoint =
    bindS (on_local (local_session_state C)) (\<lambda>(local_chain, local_collections).
    bindS (liftS (ok_or MissingRoster (case local_chain of [] \<Rightarrow> None | g # _ \<Rightarrow> Some (roster_canonical_hash C g)))) (\<lambda>local_genesis_hash.
    if length (ea_addrs (cf_local_addr cfg)) > MAX_ENDPOINT_ADDRS then throwS HintAddressLimit
    else
      bindS (liftS (ok_or Json (pe_addr_to_string N (cf_local_addr cfg)))) (\<lambda>local_addr_json.
      bindS (liftS (mapErr Protocol (hello_encode
        \<lparr>h_collections = local_collections, h_endpoint_addr_json = local_addr_json\<rparr>))) (\<lambda>hello.
      bindS (exchange_frame N FrameTag.Hello hello) (\<lambda>payload.
      bindS (liftS (mapErr Protocol (hello_decode payload))) (\<lambda>remote_hello.
      bindS (liftS (mapErr Protocol (roster_bundle_encode \<lparr>rb_revisions = local_chain\<rparr>))) (\<lambda>local_roster.
      bindS (exchange_frame N FrameTag.Roster local_roster) (\<lambda>payload.
      bindS (liftS (mapErr Protocol (roster_bundle_decode C payload))) (\<lambda>remote_roster.
      bindS (on_local (accept_remote_roster_and_hint C N (rb_revisions remote_roster) local_genesis_hash
        (cf_local_endpoint cfg) remote_endpoint (h_endpoint_addr_json remote_hello))) (\<lambda>roster_changed.
      returnS (roster_changed, shared_collections local_collections (h_collections remote_hello))))))))))))"

definition exchange_manifests ::
  "env \<Rightarrow> crypto \<Rightarrow> json \<Rightarrow> peer_env \<Rightarrow> SessionConfig \<Rightarrow> EndpointId \<Rightarrow> string list
     \<Rightarrow> (FileRequest list \<times> FileRequest list) session_action" where
  "exchange_manifests E C J N cfg remote_endpoint shared =
    bindS (on_local (build_manifests C shared)) (\<lambda>bundle.
    bindS (liftS (mapErr Protocol (manifest_bundle_encode bundle))) (\<lambda>local_manifests.
    bindS (exchange_frame N Manifests local_manifests) (\<lambda>payload.
    bindS (liftS (mapErr Protocol (manifest_bundle_decode payload))) (\<lambda>remote_manifests.
    bindS (on_local (merge_remote_manifests E C J cfg remote_endpoint shared remote_manifests)) (\<lambda>requests.
    bindS (liftS (mapErr Protocol (request_bundle_encode \<lparr>rq_requests = requests\<rparr>))) (\<lambda>local_requests.
    bindS (exchange_frame N Requests local_requests) (\<lambda>payload.
    bindS (liftS (mapErr Protocol (request_bundle_decode payload))) (\<lambda>remote_requests.
    returnS (requests, rq_requests remote_requests)))))))))"

text \<open>
  The closing handshake. \<open>send.finish\<close> has no timeout; the read after \<open>Done\<close> must find the end of the stream; a
  peer that stopped reading is a transport failure.
\<close>

definition close_session :: "peer_env \<Rightarrow> unit session_action" where
  "close_session N =
    bindS (exchange_frame N Done []) (\<lambda>done_payload.
    if done_payload \<noteq> [] then throwS UnexpectedState
    else
      bindS (net_call N SyncError.Transport SyncError.Transport) (\<lambda>_.
      bindS (net_call N SyncError.Timeout SyncError.Transport) (\<lambda>_.
      bindS (\<lambda>s. (if se_in s = [] then Inr () else Inl UnexpectedState, s)) (\<lambda>_.
      net_call N SyncError.Timeout SyncError.Transport))))"

definition run_session_with_outcome ::
  "env \<Rightarrow> crypto \<Rightarrow> json \<Rightarrow> peer_env \<Rightarrow> EndpointId \<Rightarrow> ConnectionSide \<Rightarrow> SessionConfig \<Rightarrow> SessionOutcome session_action" where
  "run_session_with_outcome E C J N remote_endpoint side cfg =
    bindS (on_local (authorize_local_roster C (cf_local_endpoint cfg) remote_endpoint)) (\<lambda>_.
    bindS (net_call N SyncError.Timeout SyncError.Transport) (\<lambda>_.
    bindS (exchange_rosters C N cfg remote_endpoint) (\<lambda>(roster_changed, shared).
    bindS (exchange_manifests E C J N cfg remote_endpoint shared) (\<lambda>(requests, remote_requests).
    bindS (case side of
        Dialer \<Rightarrow>
          bindS (send_files E C J N cfg remote_endpoint shared remote_requests) (\<lambda>_.
          receive_files E C J N cfg remote_endpoint requests)
      | Acceptor \<Rightarrow>
          bindS (receive_files E C J N cfg remote_endpoint requests) (\<lambda>_.
          send_files E C J N cfg remote_endpoint shared remote_requests)) (\<lambda>_.
    bindS (close_session N) (\<lambda>_.
    returnS \<lparr>so_remote_endpoint = remote_endpoint, so_roster_changed = roster_changed\<rparr>))))))"

definition run_session ::
  "env \<Rightarrow> crypto \<Rightarrow> json \<Rightarrow> peer_env \<Rightarrow> EndpointId \<Rightarrow> ConnectionSide \<Rightarrow> SessionConfig \<Rightarrow> EndpointId session_action" where
  "run_session E C J N remote_endpoint side cfg =
    bindS (run_session_with_outcome E C J N remote_endpoint side cfg) (\<lambda>outcome. returnS (so_remote_endpoint outcome))"

end
