(* ===== verification/Store_Frames.thy ===== *)
theory Store_Frames
  imports Scanner_Refinement Wire_Bundles
begin

text \<open>
  What the store keeps while files are installed and deleted. The filesystem calls do not touch the store, and the
  installer touches it only through four operations; an invariant of those is an invariant of the installer.
\<close>

section \<open>The store inside the world\<close>

definition in_world :: "(StateStore \<Rightarrow> bool) \<Rightarrow> world \<Rightarrow> bool" where
  "in_world I w \<longleftrightarrow> I (w_state w)"

lemma in_world_io: "preserves (in_world I) (io E f)"
  by (auto simp: preserves_def in_world_def io_def Let_def split: option.split sum.split)

lemma in_world_io_read: "preserves (in_world I) (io_read E f)"
  by (simp add: io_read_def in_world_io)

lemma in_world_db: "preserves I m \<Longrightarrow> preserves (in_world I) (db m)"
  by (auto simp: preserves_def in_world_def db_def split: prod.split)

lemma in_world_calls [preserves_intros]:
  "preserves (in_world I) (now_ns E)" "preserves (in_world I) (entries E d)" "preserves (in_world I) (symlink_metadata E d name)"
  "preserves (in_world I) (open_dir E d path)" "preserves (in_world I) (open_file E d path)" "preserves (in_world I) (create_dir E d name)"
  "preserves (in_world I) (create_new E d name)" "preserves (in_world I) (write_all E i bs)" "preserves (in_world I) (set_file_times E i sec nsec)"
  "preserves (in_world I) (file_metadata E i)" "preserves (in_world I) (rename E d from root path)" "preserves (in_world I) (remove_file E d name)"
  "preserves (in_world I) (io_noop E)" "preserves (in_world I) (dir_metadata E d)"
  by (simp_all add: entries_def symlink_metadata_def open_dir_def open_file_def create_dir_def create_new_def set_file_times_def
      file_metadata_def rename_def remove_file_def io_noop_def dir_metadata_def in_world_io in_world_io_read)
    (simp_all add: preserves_def in_world_def now_ns_def write_all_def Let_def split: option.split)

lemma in_world_ticked [preserves_intros]:
  "preserves (in_world I) (open_ambient_dir E path)" "preserves (in_world I) (canonicalize E path)"
  "preserves (in_world I) (getrandom E)" "preserves (in_world I) (read_content E i)"
  unfolding open_ambient_dir_def [abs_def] canonicalize_def [abs_def] getrandom_def [abs_def] read_content_def [abs_def]
  by (rule preserves_ticked, rule in_world_io_read)+

lemma in_world_stable_root: "preserves (in_world I) (open_stable_root_attempts E path (returnS ()) n last_error)"
proof (induction n arbitrary: last_error)
  case 0
  show ?case by (cases last_error) (simp_all add: preserves_def)
next
  case (Suc n)
  show ?case unfolding open_stable_root_attempts.simps by (auto split: sum.split intro!: preserves_intros Suc.IH)
qed

lemma in_world_open_root [preserves_intros]: "preserves (in_world I) (open_root E root (returnS ()))"
  unfolding open_root_def open_stable_root_with_hook_def by (intro preserves_mapErrS in_world_stable_root)

lemma in_world_exact_entry [preserves_intros]: "preserves (in_world I) (exact_entry_exists E d name)"
  unfolding exact_entry_exists_def by (intro preserves_intros)

lemma in_world_sync_dir [preserves_intros]: "preserves (in_world I) (sync_dir E d)"
  unfolding sync_dir_def by (intro preserves_intros)

lemma in_world_existing: "preserves (in_world I) (open_existing_from E root current logical cs)"
  by (induction cs arbitrary: current logical) (auto intro!: preserves_intros)

lemma in_world_existing_parent [preserves_intros]: "preserves (in_world I) (open_existing_safe_parent E root relative)"
  unfolding open_existing_safe_parent_def by (intro preserves_intros in_world_existing)

lemma in_world_ensure: "preserves (in_world I) (ensure_safe_parent_from E (\<lambda>_. returnS ()) root current logical cs)"
proof (induction cs arbitrary: current logical)
  case (Cons c cs)
  show ?case unfolding ensure_safe_parent_from.simps
    by (auto split: sum.split IoError.split intro!: preserves_intros Cons.IH)
qed (simp add: preserves_pure)

lemma in_world_ensure_parent [preserves_intros]: "preserves (in_world I) (ensure_safe_parent E root relative (\<lambda>_. returnS ()))"
  unfolding ensure_safe_parent_def by (intro preserves_intros in_world_ensure)

lemma in_world_relative [preserves_intros]: "preserves (in_world I) (open_relative_dir E root relative)"
  unfolding open_relative_dir_def by (intro preserves_intros)

lemma in_world_collision [preserves_intros]: "preserves (in_world I) (reject_concrete_collision E root relative name)"
  unfolding reject_concrete_collision_def by (auto split: sum.split IoError.split intro!: preserves_intros)

lemma in_world_temporary_attempts: "preserves (in_world I) (temporary_name_attempts E root n)"
proof (induction n)
  case 0
  show ?case by (simp add: preserves_def)
next
  case (Suc n)
  then show ?case by (auto simp: Let_def split: sum.split IoError.split intro!: preserves_intros)
qed

lemma in_world_temporary [preserves_intros]: "preserves (in_world I) (temporary_name E root)"
  unfolding temporary_name_def by (rule in_world_temporary_attempts)

lemma in_world_copy: "preserves (in_world I) (copy_loop E i declared written hashed limited)"
proof (induction "length limited" arbitrary: written hashed limited rule: less_induct)
  case less
  show ?case
    by (subst copy_loop.simps) (auto simp: Let_def split: option.split intro!: preserves_intros less)
qed

lemma in_world_write_verified [preserves_intros]:
  "preserves (in_world I) (write_verified E C (\<lambda>_. returnS ()) i t len h bs)"
  unfolding write_verified_def set_mtime_def Let_def
  by (auto split: prod.split intro!: preserves_intros in_world_copy)

lemma in_world_publish [preserves_intros]:
  "preserves (in_world I) (publish E (\<lambda>_. returnS ()) root record temporary fp)"
  unfolding publish_def Let_def by (auto split: sum.split intro!: preserves_intros)

lemma in_world_install: "preserves (in_world I) (install_file_with_hook E C root record bs (\<lambda>_. returnS ()))"
  unfolding install_file_with_hook_def install_temporary_def Let_def
  by (auto split: RecordKind.split intro!: preserves_intros)

lemma in_world_open_verified [preserves_intros]: "preserves (in_world I) (open_verified_file E C root record)"
  unfolding open_verified_file_def by (auto split: RecordKind.split link_target.split intro!: preserves_intros)

section \<open>The installer as a client of the store\<close>

locale store_invariant =
  fixes I :: "StateStore \<Rightarrow> bool" and J :: json
  assumes keeps_log: "preserves I (append_log J t e n)"
    and keeps_repair: "preserves I (mark_repair_required_and_log J c p t e n)"
    and keeps_installed: "preserves I (mark_materialized_and_log J c p installed t e n)"
    and keeps_deleted: "preserves I (mark_tombstone_materialized_and_log J c p t e n)"
    and keeps_open: "preserves I migrate"
begin

lemma apply_file: "preserves (in_world I) (apply_file_fixture E C J root record bs n)"
  unfolding apply_file_fixture_def apply_file_fixture_with_hook_def Let_def
  by (auto split: sum.split InstallError.split
      intro!: preserves_intros in_world_install in_world_db keeps_installed keeps_repair)

lemma delete_file: "preserves (in_world I) (materialize_tombstone E J root record n)"
  unfolding materialize_tombstone_def
  by (auto split: sum.split IoError.split option.split intro!: preserves_intros in_world_db keeps_deleted)

end

section \<open>The data of the store\<close>

text \<open>The part of the store's invariant that does not concern the roster.\<close>

definition data_ok :: "crypto \<Rightarrow> StateStore \<Rightarrow> bool" where
  "data_ok C s \<longleftrightarrow> collections_ok s \<and> records_ok C s \<and> peers_ok s \<and> log_ok s"

lemma store_ok_data: "store_ok C s \<longleftrightarrow> roster_ok C s \<and> data_ok C s"
  by (auto simp: store_ok_def data_ok_def)


text \<open>
  The operations on the data do not look at the roster, so what they keep of the whole invariant they keep of this part.
\<close>

abbreviation hiding :: "(byte list, byte list) omap \<Rightarrow> StateStore \<Rightarrow> StateStore" where
  "hiding x s \<equiv> s\<lparr>roster_revisions := x\<rparr>"

definition blind :: "(StateStore, 'e, 'a) action \<Rightarrow> bool" where
  "blind m \<longleftrightarrow> (\<forall>s x. m (hiding x s) = (fst (m s), hiding x (snd (m s))))"

definition rel :: "(byte list, byte list) omap \<Rightarrow> 'e + ('a \<times> StateStore) \<Rightarrow> 'e + ('a \<times> StateStore)" where
  "rel x r = map_sum id (\<lambda>(a, s). (a, hiding x s)) r"

lemma blind_transactionS:
  "(\<And>s x. body (hiding x s) = rel x (body s)) \<Longrightarrow> blind (transactionS body)"
  by (auto simp: blind_def transactionS_def rel_def split: sum.splits)

lemma insert_log_blind: "insert_log J t e n (hiding x s) = map_sum id (hiding x) (insert_log J t e n s)"
  by (auto simp: insert_log_def bindE_def Let_def split: sum.splits)

lemma blind_rows: "update_path_records P f (hiding x s) = rel x (update_path_records P f s)"
  by (simp add: update_path_records_def rel_def bindE_def check_path_record_row_def [abs_def] split: sum.splits)

lemma blind_collections: "update_collections P f (hiding x s) = rel x (update_collections P f s)"
  by (simp add: update_collections_def rel_def bindE_def split: sum.splits)

lemma blind_log: "blind (append_log J t e n)"
  unfolding append_log_def
  by (rule blind_transactionS) (simp add: insert_log_blind rel_def bindE_def split: sum.splits)

lemma blind_repair: "blind (mark_repair_required_and_log J c p t e n)"
  unfolding mark_repair_required_and_log_def
  by (rule blind_transactionS) (auto simp: insert_log_blind blind_rows rel_def bindE_def split: sum.splits)

lemma blind_tombstone: "blind (mark_tombstone_materialized_and_log J c p t e n)"
  unfolding mark_tombstone_materialized_and_log_def
  by (rule blind_transactionS) (auto simp: insert_log_blind blind_rows rel_def bindE_def split: sum.splits)

lemma fingerprint_blind: "update_materialized_fingerprint c p f (hiding x s) = map_sum id (hiding x) (update_materialized_fingerprint c p f s)"
  by (auto simp: update_materialized_fingerprint_def blind_rows rel_def bindE_def split: sum.splits)

definition move_root :: "string \<Rightarrow> string \<Rightarrow> os_path \<Rightarrow> os_path option \<Rightarrow> StateStore \<Rightarrow> StateError + StateStore" where
  "move_root collection path root previous_root s =
    (if previous_root \<noteq> Some root
     then
       bindE (update_collections (\<lambda>n. n = collection) (\<lambda>c. c\<lparr>row_resolved_root := Some root\<rparr>) s) (\<lambda>(_, s).
       bindE (update_path_records (\<lambda>k r. fst k = collection \<and> snd k \<noteq> path \<and> row_kind r = 1) clear_materialized s) (\<lambda>(_, s).
       Inr s))
     else Inr s)"

lemma move_root_blind: "move_root c p root prev (hiding x s) = map_sum id (hiding x) (move_root c p root prev s)"
  by (auto simp: move_root_def blind_rows blind_collections rel_def bindE_def split: sum.splits)

lemma rel_pipe: "(\<And>s. f (hiding x s) = rel x (g s)) \<Longrightarrow> bindE (map_sum id (hiding x) r) f = rel x (bindE r g)"
  by (cases r) (simp_all add: rel_def)

lemma rel_same: "(\<And>a. f a = rel x (g a)) \<Longrightarrow> bindE r f = rel x (bindE r g)"
  by (cases r) (simp_all add: rel_def)

lemma blind_materialized: "blind (mark_materialized_and_log J c p m t e n)"
  unfolding mark_materialized_and_log_def move_root_def [symmetric]
proof (rule blind_transactionS)
  fix s x
  have tc: "t_collections (hiding x s) = t_collections s" by simp
  show "bindE (ok_or MissingCollection (map_option row_resolved_root (om_get (t_collections (hiding x s)) c)))
      (\<lambda>prev. bindE (move_root c p (mf_resolved_root m) prev (hiding x s)) (\<lambda>s.
       bindE (update_materialized_fingerprint c p (mf_fingerprint m) s) (\<lambda>s. bindE (insert_log J t e n s) (\<lambda>s. Inr ((), s)))))
    = rel x (bindE (ok_or MissingCollection (map_option row_resolved_root (om_get (t_collections s) c)))
      (\<lambda>prev. bindE (move_root c p (mf_resolved_root m) prev s) (\<lambda>s.
       bindE (update_materialized_fingerprint c p (mf_fingerprint m) s) (\<lambda>s. bindE (insert_log J t e n s) (\<lambda>s. Inr ((), s))))))"
    unfolding tc move_root_blind
    by (intro rel_same rel_pipe) (simp only: fingerprint_blind insert_log_blind, intro rel_pipe,
      simp only: insert_log_blind, intro rel_pipe, simp add: rel_def)
qed

lemma upsert_blind: "upsert_record C r b (hiding x s) = map_sum id (hiding x) (upsert_record C r b s)"
  by (auto simp: upsert_record_def bindE_def check_path_record_row_def [abs_def] Let_def split: sum.splits option.splits RecordKind.splits)

lemma accept_blind:
  "(if b then upsert_record C r m (hiding x s) else Inr (hiding x s))
    = map_sum id (hiding x) (if b then upsert_record C r m s else Inr s)"
  by (simp add: upsert_blind)

lemma blind_merge_record: "blind (merge_record C J r t src n)"
  unfolding merge_record_def Let_def
proof (rule blind_transactionS)
  fix s x
  have load: "load_record C c p (hiding x s) = load_record C c p s" for c p by (simp add: load_record_def)
  show "bindE (load_record C (r_collection r) (as_str (r_path r)) (hiding x s)) (\<lambda>current.
      bindE (if (case current of None \<Rightarrow> True | Some c \<Rightarrow> compare_winner (c_blake3 C) r c = Greater)
             then upsert_record C r (src = None) (hiding x s) else Inr (hiding x s)) (\<lambda>s.
      bindE (insert_log J t (ev current) n s) (\<lambda>s. Inr (acc current, s))))
    = rel x (bindE (load_record C (r_collection r) (as_str (r_path r)) s) (\<lambda>current.
      bindE (if (case current of None \<Rightarrow> True | Some c \<Rightarrow> compare_winner (c_blake3 C) r c = Greater)
             then upsert_record C r (src = None) s else Inr s) (\<lambda>s.
      bindE (insert_log J t (ev current) n s) (\<lambda>s. Inr (acc current, s)))))" for ev and acc :: "Record option \<Rightarrow> bool"
    unfolding load accept_blind
    by (intro rel_same rel_pipe) (simp only: insert_log_blind, intro rel_pipe, simp add: rel_def)
qed

lemma blind_hint: "blind (replace_peer_hint e hint)"
  unfolding replace_peer_hint_def
  by (auto simp: blind_def bindS_def transactionS_def replace_peer_hint_in_def bindE_def Let_def split: sum.splits)

lemma blind_migrate: "blind migrate"
  unfolding migrate_def
  by (auto simp: blind_def bindS_def transactionS_def create_tables_def validate_current_schema_def bindE_def Let_def split: sum.splits)

lemma blind_data:
  assumes "preserves (store_ok C) m" and "blind m"
  shows "preserves (data_ok C) m"
  unfolding preserves_def
proof (intro allI impI)
  fix s assume "data_ok C s"
  then have "store_ok C (hiding [] s)"
    by (simp add: store_ok_data roster_ok_def) (simp add: data_ok_def collections_ok_def records_ok_def peers_ok_def log_ok_def)
  then have "store_ok C (snd (m (hiding [] s)))" using assms(1) by (simp add: preserves_def)
  then have "data_ok C (hiding [] (snd (m s)))" using assms(2) by (simp add: store_ok_data blind_def)
  then show "data_ok C (snd (m s))"
    by (simp add: data_ok_def collections_ok_def records_ok_def peers_ok_def log_ok_def)
qed

lemma data_ok_roster: "data_ok C (hiding x s) = data_ok C s"
  by (simp add: data_ok_def collections_ok_def records_ok_def peers_ok_def log_ok_def)

lemma create_tables_kept: "create_tables s = Inr s' \<Longrightarrow> store_ok C s' = store_ok C s"
  using roster_ok_cong [of s' s C]
  by (auto simp: create_tables_def store_ok_data data_ok_def collections_ok_def records_ok_def peers_ok_def log_ok_def split: if_splits)

lemma preserves_migrate: "preserves (store_ok C) migrate"
  unfolding migrate_def
  by (auto simp: bindE_eq_Inr create_tables_kept intro!: preserves_intros preserves_transactionS)


lemma preserves_data:
  "preserves (data_ok C) (append_log J t e n)" "preserves (data_ok C) (mark_repair_required_and_log J c p t e n)"
  "preserves (data_ok C) (mark_materialized_and_log J c p installed t e n)"
  "preserves (data_ok C) (mark_tombstone_materialized_and_log J c p t e n)" "preserves (data_ok C) migrate"
  "preserves (data_ok C) (replace_peer_hint endpoint hint)" "record_wf r \<Longrightarrow> preserves (data_ok C) (merge_record C J r t src n)"
  by (rule blind_data, rule store_preserves preserves_migrate, (assumption | rule blind_log blind_repair blind_materialized blind_tombstone
      blind_migrate blind_hint blind_merge_record)+)+

text \<open>Operations on the roster leave the data alone.\<close>

lemma preserves_roster_blind:
  assumes blind: "\<And>s x. I (s\<lparr>roster_revisions := x\<rparr>) = I s"
  shows "preserves I (merge_selected_roster_chain C revisions)" and "preserves I (apply_roster_change C identity change)"
proof -
  have row: "insert_roster_revision_row C r s = Inr s' \<Longrightarrow> I s' = I s" for r s s'
    using blind by (auto dest!: insert_row_Inr)
  have one: "preserves I (insert_roster_revision C r)" for r
    unfolding preserves_def
  proof (intro allI impI)
    fix s assume ok: "I s"
    obtain res s' where run: "insert_roster_revision C r s = (res, s')" by fastforce
    then show "I (snd (insert_roster_revision C r s))"
      using insert_roster_revision_frame [OF run] ok by (auto simp: blind)
  qed
  then show "preserves I (merge_selected_roster_chain C revisions)"
    unfolding merge_selected_roster_chain_def merge_one_revision_def
    by (auto split: list.split intro!: preserves_intros)
  have once: "preserves I (apply_roster_change_once C identity change None)"
    unfolding apply_roster_change_once_def Let_def
    by (auto intro!: preserves_intros preserves_transactionS simp: bindE_eq_Inr store_peer_hint_def row split: if_splits)
  have "preserves I (apply_roster_change_loop n C identity change None)" for n
  proof (induction n)
    case 0
    show ?case by (simp add: preserves_def)
  qed (auto intro!: preserves_intros once split: option.split)
  then show "preserves I (apply_roster_change C identity change)"
    unfolding apply_roster_change_def apply_roster_change_inner_def .
qed

lemmas preserves_data_roster = preserves_roster_blind [where I = "data_ok C'" for C', OF data_ok_roster]

lemma unmoved_blind: "unmoved C W (s\<lparr>roster_revisions := x\<rparr>) = unmoved C W s"
  using records_ok_cong [of "s\<lparr>roster_revisions := x\<rparr>" s C] winner_cong [of "s\<lparr>roster_revisions := x\<rparr>" s C]
  by (simp add: unmoved_def fun_eq_iff)

lemma unmoved_hint: "unmoved C W (s\<lparr>peer_hints := x\<rparr>) = unmoved C W s"
  using records_ok_cong [of "s\<lparr>peer_hints := x\<rparr>" s C] winner_cong [of "s\<lparr>peer_hints := x\<rparr>" s C]
  by (simp add: unmoved_def fun_eq_iff)

lemma unmoved_fingerprint: "unmoved C W s \<Longrightarrow> update_materialized_fingerprint c p f s = Inr s' \<Longrightarrow> unmoved C W s'"
  by (auto simp: update_materialized_fingerprint_def bindE_eq_Inr split: if_splits intro: unmoved_rows row_for_fingerprint)

lemma unmoved_move_root: "unmoved C W s \<Longrightarrow> move_root c p root previous s = Inr s' \<Longrightarrow> unmoved C W s'"
  by (auto simp: move_root_def bindE_eq_Inr split: if_splits intro: unmoved_rows unmoved_collections row_for_clear)

lemma unmoved_tables: "unmoved C W s \<Longrightarrow> create_tables s = Inr s' \<Longrightarrow> unmoved C W s'"
  using records_ok_cong [of s' s C] winner_cong [of s' s C] by (auto simp: create_tables_def unmoved_def split: if_splits)

interpretation data: store_invariant "data_ok C" J for C J
  by unfold_locales (rule preserves_data)+

interpretation winners: store_invariant "unmoved C W" J for C W J
proof unfold_locales
  show "preserves (unmoved C W) (append_log J t e n)" "preserves (unmoved C W) (mark_repair_required_and_log J c p t e n)"
    for t e n c p by (rule preserves_unmoved)+
  show "preserves (unmoved C W) (mark_materialized_and_log J c p installed t e n)" for c p installed t e n
    unfolding mark_materialized_and_log_def move_root_def [symmetric]
    by (rule preserves_transactionS)
      (auto simp: bindE_eq_Inr, drule (1) unmoved_move_root, drule (1) unmoved_fingerprint, erule (1) unmoved_log)
  show "preserves (unmoved C W) (mark_tombstone_materialized_and_log J c p t e n)" for c p t e n
    unfolding mark_tombstone_materialized_and_log_def
    by (rule preserves_transactionS)
      (auto simp: bindE_eq_Inr split: if_splits intro: unmoved_log unmoved_rows row_for_tombstone)
  show "preserves (unmoved C W) migrate"
    unfolding migrate_def
    by (auto intro!: preserves_intros preserves_transactionS simp: bindE_eq_Inr intro: unmoved_tables)
qed

end
