(* ===== verification/Sync_Invariant.thy ===== *)
theory Sync_Invariant
  imports Sync_Transfer Store_Frames Wire_Props
begin

text \<open>
  A session keeps what its operations on the store keep, whatever the peer sends and whichever call fails.
\<close>

definition in_session :: "(StateStore \<Rightarrow> bool) \<Rightarrow> session \<Rightarrow> bool" where
  "in_session I s \<longleftrightarrow> I (w_state (se_world s))"

lemma in_session_local: "preserves (in_world I) m \<Longrightarrow> preserves (in_session I) (on_local m)"
  by (auto simp: preserves_def in_session_def in_world_def on_local_def split: prod.split)

lemma preserves_decoded: "(\<And>a. r = Inr a \<Longrightarrow> preserves I (f a)) \<Longrightarrow> preserves I (bindS (liftS r) f)"
  by (cases r) (auto simp: preserves_def bindS_def)

lemma in_session_net [preserves_intros]:
  "preserves (in_session I) (net_call N t f)" "preserves (in_session I) (net_write N t f bs)"
  by (auto simp: preserves_def in_session_def net_call_def net_write_def Let_def split: option.split net_fault.split prod.split)

lemma in_session_write_frame [preserves_intros]: "preserves (in_session I) (write_frame_async N tag payload)"
  unfolding write_frame_async_def by (intro preserves_intros)

lemma in_session_read_frame [preserves_intros]: "preserves (in_session I) (read_frame N)"
  unfolding read_frame_def
  by (intro preserves_intros) (auto simp: preserves_def in_session_def split: sum.split prod.split)

lemma in_session_read_expected [preserves_intros]: "preserves (in_session I) (read_expected N tag)"
  unfolding read_expected_def by (auto intro!: preserves_intros split: prod.split)

lemma in_session_exchange [preserves_intros]: "preserves (in_session I) (exchange_frame N tag payload)"
  unfolding exchange_frame_def by (intro preserves_intros)

lemma in_world_wdb: "preserves I m \<Longrightarrow> preserves (in_world I) (wdb m)"
  unfolding wdb_def by (intro preserves_mapErrS in_world_db)

lemma in_world_wquery [preserves_intros]: "preserves (in_world I) (wquery q)"
  unfolding wquery_def by (intro in_world_wdb preserves_pure)

lemma in_world_load_identity [preserves_intros]: "preserves (in_world I) (load_identity N)"
  by (simp add: preserves_def in_world_def load_identity_def)

lemma in_world_build [preserves_intros]:
  "preserves (in_world I) open_store_file \<Longrightarrow> preserves (in_world I) (build_manifests C shared)"
  unfolding build_manifests_def by (intro preserves_bindS) (simp_all add: preserves_def)

lemma in_session_close [preserves_intros]: "preserves (in_session I) (close_session N)"
  unfolding close_session_def by (auto intro!: preserves_intros) (simp_all add: preserves_def)

section \<open>Files\<close>

context store_invariant
begin

lemma open_file_kept [preserves_intros]: "preserves (in_world I) open_store_file"
  unfolding open_store_file_def by (intro in_world_wdb keeps_open)

lemma event_kept [preserves_intros]: "preserves (in_world I) (log_event E J cfg event)"
  unfolding log_event_def by (intro preserves_intros in_world_wdb keeps_log)

lemma unavailable_in_kept [preserves_intros]: "preserves (in_world I) (log_unavailable_in E J cfg peer request repair)"
  unfolding log_unavailable_in_def Let_def by (intro preserves_intros in_world_wdb keeps_repair)

lemma unavailable_kept [preserves_intros]: "preserves (in_world I) (log_unavailable E J cfg peer request repair)"
  unfolding log_unavailable_def by (intro preserves_intros)

lemma prepare_kept: "preserves (in_world I) (prepare_requested_file E C J cfg peer request)"
  unfolding prepare_requested_file_def Let_def
  by (auto split: option.split RecordKind.split sum.split intro!: preserves_intros)

lemma apply_received_kept: "preserves (in_world I) (apply_received E C J cfg peer request record content)"
  unfolding apply_received_def Let_def
  by (auto split: option.split sum.split intro!: preserves_intros apply_file)

lemma stream_kept: "preserves (in_session I) (stream_file E N opened pos remaining)"
proof (induction remaining arbitrary: pos rule: less_induct)
  case (less remaining)
  have step: "preserves (in_session I) (if chunk = [] then throwS InterruptedFile
      else bindS (net_write N SyncError.Timeout SyncError.Transport chunk) (\<lambda>_.
        stream_file E N opened (pos + length chunk) (remaining - length chunk)))" if "remaining \<noteq> 0" for chunk
    using that less by (cases "chunk = []") (auto intro!: preserves_intros)
  have read: "preserves (in_session I) (on_local (mapErrS SyncError.Io (read_content E opened)))"
    by (intro in_session_local preserves_intros)
  show ?case
    unfolding stream_file.simps [of E N opened pos remaining] Let_def
    by (cases "remaining = 0"; simp only: if_True if_False simp_thms; intro preserves_pure preserves_bindS [OF read] step)
qed

lemma chunks_kept: "preserves (in_session I) (receive_chunks E N content remaining)"
proof (induction remaining arbitrary: content rule: less_induct)
  case (less remaining)
  have "preserves (in_session I) (net_read_exact N n)" for n
    unfolding net_read_exact_def by (intro preserves_intros) (simp add: preserves_def in_session_def)
  then show ?case
    by (subst receive_chunks.simps) (auto simp: Let_def intro!: preserves_intros in_session_local less)
qed

lemma receive_kept: "preserves (in_session I) (receive_files E C J N cfg peer requests)"
proof -
  have raw: "preserves (in_session I) (receive_raw_file E C N len h)" for len h
    unfolding receive_raw_file_def by (intro preserves_intros chunks_kept in_session_local)
  have add: "preserves (in_session I) (\<lambda>s. case add_received (se_received s) len of
      Inl e \<Rightarrow> (Inl (Protocol e), s) | Inr received \<Rightarrow> (Inr (), s\<lparr>se_received := received\<rparr>))" for len
    by (auto simp: preserves_def in_session_def split: sum.split)
  show ?thesis
    unfolding receive_files_def receive_file_def
    by (auto split: prod.split sum.split RecordKind.split
        intro!: preserves_intros in_session_local apply_received_kept raw add)
qed

lemma send_kept: "preserves (in_session I) (send_files E C J N cfg peer shared requests)"
proof -
  have "preserves (in_session I) (send_requested E C J N cfg peer sent requests)" for sent
  proof (induction requests arbitrary: sent)
    case Nil
    show ?case by (simp add: preserves_def)
  next
    case (Cons request requests)
    show ?case
      unfolding send_requested.simps Let_def
      by (auto split: option.split intro!: preserves_intros in_session_local prepare_kept stream_kept Cons.IH)
  qed
  then show ?thesis unfolding send_files_def by (intro preserves_intros)
qed

end

section \<open>The whole session\<close>

locale roster_invariant = store_invariant I J for I J +
  fixes C :: crypto
  assumes keeps_roster: "\<forall>r \<in> set revisions. storable r \<Longrightarrow> preserves I (merge_selected_roster_chain C revisions)"
    and keeps_change: "preserves I (apply_roster_change C identity change)"
    and keeps_hint: "preserves I (replace_peer_hint endpoint hint)"
begin

lemma roster_kept:
  assumes "\<forall>r \<in> set revisions. storable r"
  shows "preserves (in_world I) (accept_remote_roster_and_hint C N revisions g me peer encoded)"
proof -
  have "preserves (in_world I) (reapply_changes C identity me rs)" for identity rs
  proof (induction rs)
    case Nil
    show ?case by (simp add: preserves_def)
  next
    case (Cons r rs)
    then show ?case unfolding reapply_changes.simps by (intro preserves_intros in_world_wdb keeps_change)
  qed
  then have "preserves (in_world I) (merge_and_authorize_remote_roster C N revisions me peer)"
    unfolding merge_and_authorize_remote_roster_def Let_def
    by (intro preserves_intros in_world_wdb keeps_roster [OF assms])
  then show ?thesis
    unfolding accept_remote_roster_and_hint_def by (intro preserves_intros in_world_wdb keeps_hint)
qed

lemma rosters_kept:
  "preserves (in_world I) (authorize_local_roster C me peer)" "preserves (in_session I) (exchange_rosters C N cfg peer)"
proof -
  show "preserves (in_world I) (authorize_local_roster C me peer)" for me
    unfolding authorize_local_roster_def by (intro preserves_intros)
  have start: "preserves (in_world I) (local_session_state C)"
    unfolding local_session_state_def by (intro preserves_intros)
  have storable: "\<forall>r \<in> set (rb_revisions b). storable r" if "mapErr Protocol (roster_bundle_decode C bs) = Inr b" for bs b
  proof
    fix r assume r: "r \<in> set (rb_revisions b)"
    have b: "roster_wf r" "roster_bundle_fits b"
      using that r by (cases "roster_bundle_decode C bs"; simp add: roster_bundle_decode_Inr)+
    from roster_bundle_fits_revision [OF this(2) r] show "storable r" using b(1) by (simp add: storable_def wire_limits)
  qed
  show "preserves (in_session I) (exchange_rosters C N cfg peer)"
    unfolding exchange_rosters_def
    by (auto split: prod.split intro!: preserves_intros preserves_decoded in_session_local start roster_kept dest: storable)
qed

end

locale session_invariant = roster_invariant I J C for I J C +
  assumes keeps_merge: "record_wf r \<Longrightarrow> preserves I (merge_record C J r t src n)"
begin

lemma candidate_kept:
  assumes "record_wf candidate"
  shows "preserves (in_world I) (merge_candidate E C J cfg peer future_limit collection local_path candidate)"
  unfolding merge_candidate_def Let_def
  by (auto split: sum.split intro!: preserves_intros in_world_wdb keeps_merge [OF assms] delete_file)

lemma manifests_kept:
  assumes "\<forall>(c, m) \<in> set (mb_manifests bundle). \<forall>r \<in> set (m_records m). record_wf r"
  shows "preserves (in_world I) (merge_remote_manifests E C J cfg peer shared bundle)"
  unfolding merge_remote_manifests_def merge_manifest_def Let_def
  using assms by (auto split: prod.split intro!: preserves_intros candidate_kept)

lemma session_kept: "preserves (in_session I) (run_session_with_outcome E C J N peer side cfg)"
proof -
  have wf: "record_wf r" if "manifest_bundle_decode bs = Inr b" "(c, m) \<in> set (mb_manifests b)" "r \<in> set (m_records m)" for bs b c m r
    using that by (auto simp: manifest_bundle_decode_Inr entries_wf_def manifest_ok_def)
  have manifests: "preserves (in_session I) (exchange_manifests E C J N cfg peer shared)" for shared
    unfolding exchange_manifests_def
    by (auto intro!: preserves_intros preserves_decoded in_session_local manifests_kept intro: wf)
  show ?thesis
    unfolding run_session_with_outcome_def
    by (auto split: prod.split ConnectionSide.split
        intro!: preserves_intros in_session_local rosters_kept manifests send_kept receive_kept)
qed

end

interpretation session_data: session_invariant "data_ok C" J C for C J
  by unfold_locales (rule preserves_data preserves_data_roster | assumption)+

interpretation winners_roster: roster_invariant "unmoved C W" J C for C W J
proof unfold_locales
  show "preserves (unmoved C W) (merge_selected_roster_chain C revisions)"
    "preserves (unmoved C W) (apply_roster_change C identity change)" for revisions identity change
    by (rule preserves_roster_blind [OF unmoved_blind])+
  show "preserves (unmoved C W) (replace_peer_hint endpoint hint)" for endpoint hint
    unfolding replace_peer_hint_def
    by (auto intro!: preserves_intros preserves_transactionS simp: bindE_eq_Inr replace_peer_hint_in_Inr unmoved_hint)
qed

end
