(* ===== verification/Sync_Merge.thy ===== *)
theory Sync_Merge
  imports Sync_Invariant
begin

text \<open>
  What merging a peer's manifests does to the winners: every record of the manifest that is not from the future
  competes with the winner of its path. Two peers that merge each other's manifests agree on what they share.
\<close>

section \<open>Local actions that succeed\<close>

lemma wdb_Inr: "wdb m w = (Inr a, w') \<longleftrightarrow> (\<exists>s. m (w_state w) = (Inr a, s) \<and> w' = w\<lparr>w_state := s\<rparr>)"
  by (auto simp: wdb_def mapErrS_def db_def split: prod.splits sum.splits)

lemma wquery_Inr: "wquery q w = (Inr a, w') \<longleftrightarrow> q (w_state w) = Inr a \<and> w' = w"
  by (auto simp: wquery_def wdb_Inr)

lemma now_ns_run: "now_ns E w = (Inr t, w') \<longleftrightarrow> t = ev_clock E (w_tick w) \<and> w' = w\<lparr>w_tick := Suc (w_tick w)\<rparr>"
  by (auto simp: now_ns_def)

definition still :: "crypto \<Rightarrow> world \<Rightarrow> world \<Rightarrow> bool" where
  "still C w w' \<longleftrightarrow> (records_ok C (w_state w) \<longrightarrow> records_ok C (w_state w') \<and> winner C (w_state w') = winner C (w_state w))"

lemma still_run:
  assumes "preserves (in_world (unmoved C (winner C (w_state w)))) m" and "m w = (r, w')"
  shows "still C w w'"
  using preservesD [OF assms(1) _ assms(2)] by (simp add: still_def in_world_def unmoved_def)

section \<open>One candidate\<close>

definition merged_winner :: "crypto \<Rightarrow> i64 \<Rightarrow> Record \<Rightarrow> Record option \<Rightarrow> Record option" where
  "merged_winner C future_limit candidate known =
    (if sint (r_modified_ns candidate) > sint future_limit then known
     else Some (case known of None \<Rightarrow> candidate | Some w \<Rightarrow> greater_record C candidate w))"

lemma merge_candidate_step:
  assumes ok: "records_ok C (w_state w)" and wf: "record_wf candidate" and col: "r_collection candidate = collection"
    and run: "merge_candidate E C J cfg peer future_limit collection local_path candidate w = (Inr (), w')"
  shows "records_ok C (w_state w') \<and> winner C (w_state w') (rec_key candidate)
      = merged_winner C future_limit candidate (winner C (w_state w) (rec_key candidate))
    \<and> (\<forall>k. k \<noteq> rec_key candidate \<longrightarrow> winner C (w_state w') k = winner C (w_state w) k)"
proof (cases "sint (r_modified_ns candidate) > sint future_limit")
  case True
  then have "log_event E J cfg (CollectionWarning collection (Some (r_path candidate)) TimestampRejected) w = (Inr (), w')"
    using run by (simp add: merge_candidate_def Let_def)
  then have "still C w w'" by (rule still_run [OF winners.event_kept])
  then show ?thesis using ok True by (simp add: still_def merged_winner_def)
next
  case False
  let ?path = "as_str (r_path candidate)"
  let ?tail = "\<lambda>known. (if known = Some candidate \<and> r_kind candidate = RecordKind.Tombstone
       then
         bindS (wquery (record_state C collection ?path)) (\<lambda>known.
         if (case known of None \<Rightarrow> False | Some item \<Rightarrow> \<not> ps_materialized item)
         then
           catchS (materialize_tombstone E J local_path candidate (cf_max_logs cfg)) (\<lambda>r. case r of
             Inr _ \<Rightarrow> returnS ()
           | Inl _ \<Rightarrow> log_event E J cfg (RepairRequired collection (r_path candidate)))
         else returnS ())
       else returnS ())"
  have key: "rec_key candidate = (collection, ?path)" by (simp add: rec_key_def col)
  from run False obtain current w1 known where
      current: "lookup_record C collection ?path (w_state w) = Inr current"
    and w1: "(if current \<noteq> Some candidate
              then bindS (now_ns E) (\<lambda>now. bindS (wdb (merge_record C J candidate now (Some peer) (cf_max_logs cfg))) (\<lambda>_. returnS ()))
              else returnS ()) w = (Inr (), w1)"
    and known: "lookup_record C collection ?path (w_state w1) = Inr known"
    and tail: "?tail known w1 = (Inr (), w')"
    by (auto simp: merge_candidate_def Let_def bindS_eq_Inr wquery_Inr)
  have cur: "current = winner C (w_state w) (rec_key candidate)"
    using current load_record_ok(1) [OF ok, of "(collection, ?path)"] by (simp add: lookup_record_def key)
  have step: "records_ok C (w_state w1) \<and> winner C (w_state w1) (rec_key candidate)
      = merged_winner C future_limit candidate (winner C (w_state w) (rec_key candidate))
    \<and> (\<forall>k. k \<noteq> rec_key candidate \<longrightarrow> winner C (w_state w1) k = winner C (w_state w) k)"
  proof (cases "current = Some candidate")
    case True
    then have "w1 = w" using w1 by simp
    then show ?thesis using True cur ok False by (simp add: merged_winner_def greater_record_def)
  next
    case neq: False
    then obtain now accepted s where m: "merge_record C J candidate now (Some peer) (cf_max_logs cfg) (w_state w) = (Inr accepted, s)"
        and s: "w_state w1 = s"
      using w1 by (auto simp: bindS_eq_Inr now_ns_run wdb_Inr)
    note M = merge_record_winner [OF ok wf m]
    then have a: "accepted = wins C candidate (winner C (w_state w) (rec_key candidate))"
      and b: "winner C s k = (if k = rec_key candidate \<and> accepted then Some candidate else winner C (w_state w) k)" for k
      by blast+
    show ?thesis using M False
      by (simp add: s a b merged_winner_def greater_record_wins wins_def split: option.split)
  qed
  have "preserves (in_world (unmoved C W)) (?tail known)" for W
    by (auto split: sum.split intro!: preserves_intros winners.delete_file winners.event_kept)
  then have "still C w1 w'" by (rule still_run [of C w1 "?tail known"]) (rule tail)
  then show ?thesis using step by (simp add: still_def)
qed


section \<open>The whole bundle\<close>

definition bundle_records :: "(string \<times> Manifest) list \<Rightarrow> Record list" where
  "bundle_records es = concat (map (\<lambda>e. m_records (snd e)) es)"

lemma bundle_records_Cons: "bundle_records (e # es) = m_records (snd e) @ bundle_records es"
  by (simp add: bundle_records_def)

definition offered :: "(string \<times> Manifest) list \<Rightarrow> string \<times> string \<Rightarrow> Record option" where
  "offered es k = map_of (map (\<lambda>r. (rec_key r, r)) (bundle_records es)) k"

definition entries_proper :: "(string \<times> Manifest) list \<Rightarrow> bool" where
  "entries_proper es \<longleftrightarrow> distinct (map rec_key (bundle_records es))
     \<and> (\<forall>e \<in> set es. \<forall>r \<in> set (m_records (snd e)). record_wf r \<and> r_collection r = fst e)"

lemma rec_key_record_key: "rec_key r = rec_key q \<longleftrightarrow> record_key r = record_key q"
  by (auto simp: rec_key_def record_key_def intro: ProtocolPath.expand)

lemma distinct_rec_keys: "distinct (map rec_key rs) \<longleftrightarrow> distinct (map record_key rs)"
  by (simp add: distinct_map inj_on_def rec_key_record_key)

lemma bundle_records_distinct:
  assumes "distinct (map fst es)" and "\<forall>e \<in> set es. distinct (map rec_key (m_records (snd e)))
    \<and> (\<forall>r \<in> set (m_records (snd e)). r_collection r = fst e)"
  shows "distinct (map rec_key (bundle_records es))"
  using assms
proof (induction es)
  case (Cons e es)
  have "rec_key r \<noteq> rec_key q" if "r \<in> set (m_records (snd e))" "q \<in> set (bundle_records es)" for r q
  proof
    assume eq: "rec_key r = rec_key q"
    from that(2) obtain e' where e': "e' \<in> set es" "q \<in> set (m_records (snd e'))" by (auto simp: bundle_records_def)
    then have "fst e' = fst e" using that(1) eq Cons.prems(2) by (auto simp: rec_key_def)
    then show False using Cons.prems(1) e'(1) by (metis distinct.simps(2) image_eqI list.set_map list.simps(9))
  qed
  then have "rec_key ` set (m_records (snd e)) \<inter> rec_key ` set (bundle_records es) = {}" by blast
  then show ?case using Cons by (simp add: bundle_records_Cons)
qed (simp add: bundle_records_def)

lemma decoded_proper:
  assumes "entries_wf (mb_manifests b)" and "manifest_bundle_fits b"
  shows "entries_proper (mb_manifests b)"
proof -
  have valid: "\<forall>e \<in> set (mb_manifests b). entry_valid e" "distinct (map fst (mb_manifests b))"
    using assms(2) by (auto simp: manifest_bundle_fits_def entries_fit_def)
  have "\<forall>e \<in> set (mb_manifests b). manifest_ok (snd e)" using assms(1) by (simp add: entries_wf_def)
  moreover have "r_collection r = fst e" if "e \<in> set (mb_manifests b)" "r \<in> set (m_records (snd e))" for e r
    using valid(1) that by (auto simp: entry_valid_def for_each_eq_Inr validate_record_def bindE_eq_Inr split: if_splits)
  ultimately show ?thesis
    unfolding entries_proper_def using bundle_records_distinct [OF valid(2)]
    by (auto simp: manifest_ok_def distinct_rec_keys)
qed

lemma merge_manifest_step:
  assumes ok: "records_ok C (w_state w)" and e: "\<forall>r \<in> set (m_records (snd e)). record_wf r \<and> r_collection r = fst e"
    and dist: "distinct (map rec_key (m_records (snd e)))"
    and run: "merge_manifest E C J cfg peer limit e w = (Inr (), w')"
  shows "records_ok C (w_state w')
    \<and> (\<forall>r \<in> set (m_records (snd e)). winner C (w_state w') (rec_key r) = merged_winner C limit r (winner C (w_state w) (rec_key r)))
    \<and> (\<forall>k. k \<notin> rec_key ` set (m_records (snd e)) \<longrightarrow> winner C (w_state w') k = winner C (w_state w) k)"
proof -
  from run obtain l :: CollectionState where r: "forS (merge_candidate E C J cfg peer limit (fst e) (cs_local_path l)) (m_records (snd e)) w = (Inr (), w')"
    by (cases e) (auto simp: merge_manifest_def bindS_eq_Inr wquery_Inr)
  show ?thesis
  proof (rule forS_pointwise [OF r, where I = "\<lambda>w. records_ok C (w_state w)" and view = "\<lambda>w. winner C (w_state w)"])
    fix x y y'
    assume x: "x \<in> set (m_records (snd e))" "records_ok C (w_state y)"
      "merge_candidate E C J cfg peer limit (fst e) (cs_local_path l) x y = (Inr (), y')"
    have "record_wf x" "r_collection x = fst e" using e x(1) by simp_all
    from merge_candidate_step [OF x(2) this x(3)]
    show "records_ok C (w_state y') \<and> winner C (w_state y') (rec_key x) = merged_winner C limit x (winner C (w_state y) (rec_key x))
      \<and> (\<forall>k. k \<noteq> rec_key x \<longrightarrow> winner C (w_state y') k = winner C (w_state y) k)" .
  qed (use ok dist in simp_all)
qed

definition merged_all :: "crypto \<Rightarrow> i64 \<Rightarrow> (string \<times> Manifest) list \<Rightarrow> (string \<times> string \<Rightarrow> Record option) \<Rightarrow> string \<times> string \<Rightarrow> Record option" where
  "merged_all C limit es W k = (case offered es k of None \<Rightarrow> W k | Some r \<Rightarrow> merged_winner C limit r (W k))"

lemma offered_Some: "distinct (map rec_key (bundle_records es)) \<Longrightarrow> offered es k = Some r \<longleftrightarrow> r \<in> set (bundle_records es) \<and> rec_key r = k"
  using map_of_eq_Some_iff [of "map (\<lambda>r. (rec_key r, r)) (bundle_records es)" k r]
  by (auto simp: offered_def comp_def)

lemma offered_None: "offered es k = None \<longleftrightarrow> k \<notin> rec_key ` set (bundle_records es)"
  by (simp add: offered_def map_of_eq_None_iff image_image)

lemma merge_manifests_run:
  assumes "records_ok C (w_state w)" and "entries_proper es" and "forS (merge_manifest E C J cfg peer limit) es w = (Inr (), w')"
  shows "records_ok C (w_state w') \<and> winner C (w_state w') = merged_all C limit es (winner C (w_state w))"
  using assms
proof (induction es arbitrary: w)
  case Nil
  then show ?case by (simp add: merged_all_def [abs_def] offered_def bundle_records_def)
next
  case (Cons e es)
  from Cons.prems(3) obtain w1 where w1: "merge_manifest E C J cfg peer limit e w = (Inr (), w1)"
      "forS (merge_manifest E C J cfg peer limit) es w1 = (Inr (), w')" by (auto simp: bindS_eq_Inr)
  let ?rs = "m_records (snd e)"
  have dist: "distinct (map rec_key ?rs)" "rec_key ` set ?rs \<inter> rec_key ` set (bundle_records es) = {}"
      "distinct (map rec_key (bundle_records es))" "distinct (map rec_key (bundle_records (e # es)))"
    and wf: "\<forall>r \<in> set ?rs. record_wf r \<and> r_collection r = fst e" and proper: "entries_proper es"
    using Cons.prems(2) by (auto simp: entries_proper_def bundle_records_def)
  note step = merge_manifest_step [OF Cons.prems(1) wf dist(1) w1(1)]
  have mine: "winner C (w_state w1) (rec_key r) = merged_winner C limit r (winner C (w_state w) (rec_key r))"
    if "r \<in> set ?rs" for r using step that by blast
  have other: "winner C (w_state w1) k = winner C (w_state w) k" if "k \<notin> rec_key ` set ?rs" for k using step that by blast
  have IH: "records_ok C (w_state w')" "winner C (w_state w') = merged_all C limit es (winner C (w_state w1))"
    using Cons.IH [OF _ proper w1(2)] step by blast+
  have "winner C (w_state w') k = merged_all C limit (e # es) (winner C (w_state w)) k" for k
  proof (cases "offered (e # es) k")
    case None
    then have "k \<notin> rec_key ` set ?rs" "offered es k = None" by (auto simp: offered_None bundle_records_def)
    then show ?thesis using IH(2) other None by (simp add: merged_all_def)
  next
    case (Some r)
    then have r: "r \<in> set (bundle_records (e # es))" "rec_key r = k" using offered_Some [OF dist(4)] by blast+
    show ?thesis
    proof (cases "r \<in> set ?rs")
      case True
      then have "offered es k = None" using dist(2) r(2) unfolding offered_None by blast
      then show ?thesis using IH(2) mine [OF True] r(2) Some by (simp add: merged_all_def)
    next
      case False
      then have "r \<in> set (bundle_records es)" using r(1) by (simp add: bundle_records_def)
      then have "offered es k = Some r" "k \<notin> rec_key ` set ?rs" using r(2) dist(2) offered_Some [OF dist(3)] by blast+
      then show ?thesis using IH(2) other Some by (simp add: merged_all_def)
    qed
  qed
  then show ?case using IH(1) by blast
qed

text \<open>Opening the store and reading it moves no winner.\<close>

lemma merge_remote_run:
  assumes ok: "records_ok C (w_state w)" and proper: "entries_proper (mb_manifests bundle)"
    and run: "merge_remote_manifests E C J cfg peer shared bundle w = (Inr requests, w')"
  shows "records_ok C (w_state w') \<and> set (map fst (mb_manifests bundle)) = set shared
    \<and> winner C (w_state w') = merged_all C (i64_saturating_add (ev_clock E (w_tick w)) (duration_ns (cf_max_future_clock_skew cfg)))
        (mb_manifests bundle) (winner C (w_state w))
    \<and> choose_requests C (i64_saturating_add (ev_clock E (w_tick w)) (duration_ns (cf_max_future_clock_skew cfg))) bundle (w_state w') = Inr requests"
proof -
  let ?limit = "i64_saturating_add (ev_clock E (w_tick w)) (duration_ns (cf_max_future_clock_skew cfg))"
  from run obtain w1 where same: "fst ` set (mb_manifests bundle) = set shared"
    and w1: "open_store_file (w\<lparr>w_tick := Suc (w_tick w)\<rparr>) = (Inr (), w1)"
    and loop: "forS (merge_manifest E C J cfg peer ?limit) (mb_manifests bundle) w1 = (Inr (), w')"
    and req: "choose_requests C ?limit bundle (w_state w') = Inr requests"
    by (auto simp: merge_remote_manifests_def Let_def bindS_eq_Inr now_ns_run wquery_Inr split: if_splits)
  have "still C (w\<lparr>w_tick := Suc (w_tick w)\<rparr>) w1" by (rule still_run [OF winners.open_file_kept w1])
  then have "records_ok C (w_state w1)" "winner C (w_state w1) = winner C (w_state w)" using ok by (simp_all add: still_def)
  with merge_manifests_run [OF this(1) proper loop] same req show ?thesis by simp
qed

end
