(* ===== verification/Sync_Completion.thy ===== *)
theory Sync_Completion
  imports Sync_Merge Scanner_Liveness
begin

text \<open>
  Merging a peer's manifests completes: on a valid store with room in its log, no manifest a peer can send stops it,
  and no failure of the file system either, because a deletion that fails is recorded and left for a later repair.
\<close>

section \<open>Collections are not lost\<close>

definition has_collections :: "string set \<Rightarrow> StateStore \<Rightarrow> bool" where
  "has_collections cs s \<longleftrightarrow> (\<forall>c \<in> cs. om_contains (t_collections s) c)"

lemma has_collections_cong: "t_collections s' = t_collections s \<Longrightarrow> has_collections cs s' = has_collections cs s"
  by (simp add: has_collections_def)

lemma has_collections_log: "insert_log J t e n s = Inr s' \<Longrightarrow> has_collections cs s' = has_collections cs s"
  by (rule has_collections_cong) (rule insert_log_frame)

lemma has_collections_rows: "update_path_records P f s = Inr (n, s') \<Longrightarrow> has_collections cs s' = has_collections cs s"
  by (auto simp: update_path_records_def bindE_eq_Inr has_collections_def)

lemma has_collections_update: "update_collections P f s = Inr (n, s') \<Longrightarrow> has_collections cs s' = has_collections cs s"
  by (auto simp: update_collections_def bindE_eq_Inr sql_update_eq_Inr has_collections_def om_contains_def)

lemma has_collections_fingerprint:
  "update_materialized_fingerprint c p f s = Inr s' \<Longrightarrow> has_collections cs s' = has_collections cs s"
  by (auto simp: update_materialized_fingerprint_def bindE_eq_Inr split: if_splits dest: has_collections_rows)

lemma has_collections_move: "move_root c p root previous s = Inr s' \<Longrightarrow> has_collections cs s' = has_collections cs s"
  by (auto simp: move_root_def bindE_eq_Inr split: if_splits dest!: has_collections_rows has_collections_update)

lemma has_collections_upsert: "upsert_record C r b s = Inr s' \<Longrightarrow> has_collections cs s' = has_collections cs s"
  by (auto simp: upsert_record_def bindE_eq_Inr Let_def has_collections_def)

lemmas has_collections_frame = has_collections_log has_collections_rows has_collections_update has_collections_fingerprint
  has_collections_move

interpretation names: session_invariant "has_collections cs" J C for cs J C
proof unfold_locales
  let ?I = "has_collections cs"
  show "preserves ?I (append_log J t e n)" "preserves ?I (mark_repair_required_and_log J c p t e n)"
    "preserves ?I (mark_tombstone_materialized_and_log J c p t e n)" for t e n c p
    unfolding append_log_def mark_repair_required_and_log_def mark_tombstone_materialized_and_log_def
    by (rule preserves_transactionS, auto simp: bindE_eq_Inr has_collections_frame split: if_splits)+
  show "preserves ?I (mark_materialized_and_log J c p installed t e n)" for c p installed t e n
    unfolding mark_materialized_and_log_def move_root_def [symmetric]
    by (rule preserves_transactionS) (auto simp: bindE_eq_Inr has_collections_frame)
  show "preserves ?I migrate"
    unfolding migrate_def
    by (auto intro!: preserves_intros preserves_transactionS simp: bindE_eq_Inr create_tables_def has_collections_def split: if_splits)
  show "preserves ?I (merge_record C J r t src n)" for r t src n
    unfolding merge_record_def Let_def
    by (rule preserves_transactionS)
      (auto simp: bindE_eq_Inr has_collections_log has_collections_upsert split: if_splits)
  show "preserves ?I (merge_selected_roster_chain C revisions)" "preserves ?I (apply_roster_change C identity change)"
    for revisions identity change by (rule preserves_roster_blind, simp add: has_collections_def)+
  show "preserves ?I (replace_peer_hint endpoint hint)" for endpoint hint
    unfolding replace_peer_hint_def
    by (auto intro!: preserves_intros preserves_transactionS simp: bindE_eq_Inr replace_peer_hint_in_Inr has_collections_def)
qed

section \<open>Log entries spent\<close>

definition spends :: "nat \<Rightarrow> StateStore \<Rightarrow> StateStore \<Rightarrow> bool" where
  "spends n s s' \<longleftrightarrow> log_sequence s' \<le> log_sequence s + int n"

lemma spends_room: "spends k s s' \<Longrightarrow> k + n \<le> merge_room s \<Longrightarrow> n \<le> merge_room s'"
  unfolding spends_def merge_room_def by linarith

lemma insert_log_spends: "insert_log J t e n s = Inr s' \<Longrightarrow> log_sequence s' = log_sequence s + 1"
  by (auto simp: insert_log_Inr)

lemma triple_frame_bind:
  assumes "preserves P m" and "\<And>e s. P s \<Longrightarrow> Q (Inl e) s" and "\<And>a. triple P (f a) Q"
  shows "triple P (bindS m f) Q"
  using assms by (intro triple_bindS [where R = "\<lambda>_. P"]) (simp_all add: triple_preserves)

lemma materialize_tombstone_outcome:
  assumes "materialize_tombstone E J root record n w = (r, w')"
  shows "(r \<noteq> Inr () \<and> w_state w' = w_state w) \<or> (r = Inr () \<and> (\<exists>t. mark_tombstone_materialized_and_log J (r_collection record)
    (as_str (r_path record)) t (FileInstalled (r_collection record) (r_path record)) n (w_state w) = (Inr (), w_state w')))"
proof -
  let ?s = "w_state w"
  let ?mark = "\<lambda>t. mark_tombstone_materialized_and_log J (r_collection record) (as_str (r_path record)) t
    (FileInstalled (r_collection record) (r_path record)) n"
  let ?Q = "\<lambda>r w'. (r \<noteq> Inr () \<and> w_state w' = ?s) \<or> (r = Inr () \<and> (\<exists>t. ?mark t ?s = (Inr (), w_state w')))"
  have mark: "triple (in_world (\<lambda>s. s = ?s)) (mapErrS InstallError.State (db (?mark t))) ?Q" for t
  proof (rule tripleI)
    fix w r w' assume w: "in_world (\<lambda>s. s = ?s) w" and run: "mapErrS InstallError.State (db (?mark t)) w = (r, w')"
    show "?Q r w'"
    proof (cases "?mark t (w_state w)")
      case (Pair x s)
      then have "x = Inr () \<or> s = w_state w" unfolding mark_tombstone_materialized_and_log_def
        by (cases x) (auto dest: transactionS_rollback)
      with Pair w run show ?thesis by (cases x) (auto simp: mapErrS_def db_def in_world_def)
    qed
  qed
  have "triple (in_world (\<lambda>s. s = ?s)) (materialize_tombstone E J root record n) ?Q"
  proof (cases "r_kind record \<noteq> RecordKind.Tombstone")
    case True
    show ?thesis unfolding materialize_tombstone_def if_P [OF True] by (rule tripleI) (auto simp: in_world_def)
  next
    case False
    show ?thesis unfolding materialize_tombstone_def if_not_P [OF False]
      by (intro triple_frame_bind mark)
        (auto split: sum.split IoError.split option.split intro!: preserves_intros simp: in_world_def)
  qed
  from tripleD [OF this _ assms] show ?thesis by (simp add: in_world_def)
qed

section \<open>Every candidate is dealt with\<close>

definition offer_loggable :: "json \<Rightarrow> EndpointId \<Rightarrow> Record \<Rightarrow> bool" where
  "offer_loggable J peer r \<longleftrightarrow> loggable J (CollectionWarning (r_collection r) (Some (r_path r)) TimestampRejected)
     \<and> loggable J (RepairRequired (r_collection r) (r_path r))
     \<and> loggable J (RecordAccepted (r_collection r) (r_path r) (Some peer))
     \<and> (\<forall>wt wa. loggable J (RecordRejected (r_collection r) (r_path r) (Some peer) (r_modified_ns r) (r_author r) wt wa))"

definition ready :: "crypto \<Rightarrow> string set \<Rightarrow> StateStore \<Rightarrow> bool" where
  "ready C cs s \<longleftrightarrow> data_ok C s \<and> has_collections cs s"

lemma ready_candidate:
  assumes "record_wf candidate"
  shows "preserves (in_world (ready C cs)) (merge_candidate E C J cfg peer limit collection local_path candidate)"
  using session_data.candidate_kept [OF assms, of C E J cfg peer limit collection local_path]
    names.candidate_kept [OF assms, of cs E C J cfg peer limit collection local_path]
  by (simp add: preserves_def in_world_def ready_def)

lemma log_event_returns:
  assumes "loggable J e" and "cf_max_logs cfg < 2 ^ 63" and "Suc n \<le> merge_room (w_state w)"
  obtains w' where "log_event E J cfg e w = (Inr (), w')" "log_sequence (w_state w') = log_sequence (w_state w) + 1"
proof -
  let ?t = "ev_clock E (w_tick w)"
  obtain s' where s': "insert_log J ?t e (cf_max_logs cfg) (w_state w) = Inr s'" "log_sequence s' = log_sequence (w_state w) + 1"
    by (rule insert_log_loggable [OF assms(1) merge_room_Suc(1) [OF assms(3)] assms(2)])
  then have "append_log J ?t e (cf_max_logs cfg) (w_state w) = (Inr (), s')"
    by (simp add: append_log_def transactionS_def)
  then have "log_event E J cfg e w = (Inr (), w\<lparr>w_tick := Suc (w_tick w), w_state := s'\<rparr>)"
    by (simp add: log_event_def bindS_def now_ns_def wdb_def mapErrS_def db_def)
  then show ?thesis using that s'(2) by simp
qed

lemma wquery_run: "q (w_state w) = Inr a \<Longrightarrow> wquery q w = (Inr a, w)"
  by (simp add: wquery_Inr)

lemma lookup_known: "records_ok C s \<Longrightarrow> lookup_record C c p s = Inr (winner C s (c, p))"
  using load_record_ok(1) [of C s "(c, p)"] by (simp add: lookup_record_def)

lemma record_state_readable: "records_ok C s \<Longrightarrow> \<exists>v. record_state C c p s = Inr v"
  by (cases "om_get (path_records s) (c, p)")
    (auto simp: record_state_def rec_key_def dest: decode_path_state_ok elim!: records_ok_row)

lemma deletion_returns:
  assumes "offer_loggable J peer r" and "cf_max_logs cfg < 2 ^ 63" and "1 \<le> merge_room (w_state w)"
  obtains w' where "catchS (materialize_tombstone E J root r (cf_max_logs cfg)) (\<lambda>x. case x of
      Inr _ \<Rightarrow> returnS () | Inl _ \<Rightarrow> log_event E J cfg (RepairRequired (r_collection r) (r_path r))) w = (Inr (), w')"
    "spends 1 (w_state w) (w_state w')"
proof -
  obtain x w1 where run: "materialize_tombstone E J root r (cf_max_logs cfg) w = (x, w1)" by fastforce
  note outcome = materialize_tombstone_outcome [OF run]
  show ?thesis
  proof (cases x)
    case (Inr u)
    then obtain t where "mark_tombstone_materialized_and_log J (r_collection r) (as_str (r_path r)) t
        (FileInstalled (r_collection r) (r_path r)) (cf_max_logs cfg) (w_state w) = (Inr (), w_state w1)"
      using outcome by auto
    then have "log_sequence (w_state w1) = log_sequence (w_state w) + 1"
      unfolding mark_tombstone_materialized_and_log_def transactionS_eq_Inr
      by (auto simp: bindE_eq_Inr update_path_records_def split: if_splits dest!: insert_log_spends)
    then show ?thesis using that [of w1] run Inr by (simp add: catchS_def spends_def)
  next
    case (Inl e)
    then have same: "w_state w1 = w_state w" using outcome by auto
    have "loggable J (RepairRequired (r_collection r) (r_path r))" "Suc 0 \<le> merge_room (w_state w1)"
      using assms(1,3) same by (simp_all add: offer_loggable_def)
    then obtain w' where "log_event E J cfg (RepairRequired (r_collection r) (r_path r)) w1 = (Inr (), w')"
        "log_sequence (w_state w') = log_sequence (w_state w1) + 1"
      using log_event_returns assms(2) by metis
    then show ?thesis using that [of w'] run Inl same by (simp add: catchS_def spends_def)
  qed
qed

lemma spends_trans: "spends a s t \<Longrightarrow> spends b t u \<Longrightarrow> spends (a + b) s u"
  by (simp add: spends_def)

lemma merge_candidate_returns:
  assumes ready: "ready C cs (w_state w)" and wf: "record_wf r" and c: "r_collection r \<in> cs"
    and log: "offer_loggable J peer r" "cf_max_logs cfg < 2 ^ 63" and room: "2 \<le> merge_room (w_state w)"
  shows "\<exists>w'. merge_candidate E C J cfg peer limit (r_collection r) local_path r w = (Inr (), w') \<and> spends 2 (w_state w) (w_state w')"
proof (cases "sint (r_modified_ns r) > sint limit")
  case True
  have "loggable J (CollectionWarning (r_collection r) (Some (r_path r)) TimestampRejected)" "Suc 0 \<le> merge_room (w_state w)"
    using log(1) room by (simp_all add: offer_loggable_def)
  then obtain w' where "log_event E J cfg (CollectionWarning (r_collection r) (Some (r_path r)) TimestampRejected) w = (Inr (), w')"
      "log_sequence (w_state w') = log_sequence (w_state w) + 1" using log_event_returns log(2) by metis
  then show ?thesis using True by (simp add: merge_candidate_def Let_def spends_def)
next
  case False
  let ?c = "r_collection r"
  let ?path = "as_str (r_path r)"
  have ok: "records_ok C (w_state w)" using ready by (simp add: ready_def data_ok_def)
  let ?wrote = "if winner C (w_state w) (?c, ?path) \<noteq> Some r
              then bindS (now_ns E) (\<lambda>now. bindS (wdb (merge_record C J r now (Some peer) (cf_max_logs cfg))) (\<lambda>_. returnS ()))
              else returnS ()"
  have "\<exists>w1. ?wrote w = (Inr (), w1) \<and> records_ok C (w_state w1) \<and> spends 1 (w_state w) (w_state w1)"
  proof (cases "winner C (w_state w) (?c, ?path) = Some r")
    case True
    then show ?thesis using ok by (simp add: spends_def)
  next
    case neq: False
    have adm: "merge_admissible J (cf_max_logs cfg) (w_state w) (r, ev_clock E (w_tick w), Some peer)"
      using ready c wf log by (simp add: merge_admissible_def offer_loggable_def ready_def has_collections_def)
    have "0 < merge_room (w_state w)" using room by simp
    from merge_record_ok [OF ok adm this] obtain b s' where "merge_record C J r (ev_clock E (w_tick w)) (Some peer) (cf_max_logs cfg) (w_state w) = (Inr b, s')"
        "records_ok C s'" "log_sequence s' = log_sequence (w_state w) + 1" by metis
    then show ?thesis using neq by (simp add: bindS_def now_ns_def wdb_def mapErrS_def db_def spends_def)
  qed
  then obtain w1 where w1: "?wrote w = (Inr (), w1)" "records_ok C (w_state w1)" "spends 1 (w_state w) (w_state w1)" by blast
  have room1: "1 \<le> merge_room (w_state w1)" using spends_room [OF w1(3), of 1] room by simp
  obtain v where v: "record_state C ?c ?path (w_state w1) = Inr v" using record_state_readable [OF w1(2)] by blast
  define deletion where "deletion = catchS (materialize_tombstone E J local_path r (cf_max_logs cfg)) (\<lambda>x. case x of
      Inr _ \<Rightarrow> returnS () | Inl _ \<Rightarrow> log_event E J cfg (RepairRequired ?c (r_path r)))"
  obtain w2 where w2: "deletion w1 = (Inr (), w2)" "spends 1 (w_state w1) (w_state w2)"
    unfolding deletion_def by (rule deletion_returns [OF log room1])
  have run: "merge_candidate E C J cfg peer limit ?c local_path r w =
      (if winner C (w_state w1) (?c, ?path) = Some r \<and> r_kind r = RecordKind.Tombstone
         \<and> (case v of None \<Rightarrow> False | Some item \<Rightarrow> \<not> ps_materialized item)
       then (Inr (), w2) else (Inr (), w1))"
  proof -
    have "merge_candidate E C J cfg peer limit ?c local_path r w = bindS ?wrote (\<lambda>_.
       bindS (wquery (lookup_record C ?c ?path)) (\<lambda>winner.
       if winner = Some r \<and> r_kind r = RecordKind.Tombstone
       then
         bindS (wquery (record_state C ?c ?path)) (\<lambda>known.
         if (case known of None \<Rightarrow> False | Some item \<Rightarrow> \<not> ps_materialized item)
         then
           deletion
         else returnS ())
       else returnS ())) w"
      unfolding merge_candidate_def Let_def if_not_P [OF False] deletion_def
      by (rule bindS_Inr [where m = "wquery (lookup_record C ?c ?path)"]) (simp add: wquery_Inr lookup_known [OF ok])
    also have "\<dots> = bindS (wquery (lookup_record C ?c ?path)) (\<lambda>winner.
       if winner = Some r \<and> r_kind r = RecordKind.Tombstone
       then
         bindS (wquery (record_state C ?c ?path)) (\<lambda>known.
         if (case known of None \<Rightarrow> False | Some item \<Rightarrow> \<not> ps_materialized item)
         then
           deletion
         else returnS ())
       else returnS ()) w1"
      by (rule bindS_Inr [where m = ?wrote, OF w1(1)])
    finally show ?thesis using w2(1)
      by (simp add: bindS_def [of "wquery _"] wquery_run lookup_known [OF w1(2)] v)
  qed
  show ?thesis using run w1(3) spends_trans [OF w1(3) w2(2)] by (auto simp: spends_def)
qed

section \<open>The whole merge\<close>

lemma forS_spends:
  assumes "\<And>x w. x \<in> set xs \<Longrightarrow> I w \<Longrightarrow> k x \<le> merge_room (w_state w) \<Longrightarrow>
      \<exists>w'. f x w = (Inr (), w') \<and> I w' \<and> spends (k x) (w_state w) (w_state w')"
    and "I w" and "(\<Sum>x \<leftarrow> xs. k x) \<le> merge_room (w_state w)"
  shows "\<exists>w'. forS f xs w = (Inr (), w') \<and> I w' \<and> spends (\<Sum>x \<leftarrow> xs. k x) (w_state w) (w_state w')"
  using assms
proof (induction xs arbitrary: w)
  case Nil
  then show ?case by (simp add: spends_def)
next
  case (Cons x xs)
  have "k x \<le> merge_room (w_state w)" using Cons.prems(3) by simp
  with Cons.prems(1) [of x w] Cons.prems(2) obtain w1 where w1: "f x w = (Inr (), w1)" "I w1" "spends (k x) (w_state w) (w_state w1)"
    by auto
  have step: "\<And>x w. x \<in> set xs \<Longrightarrow> I w \<Longrightarrow> k x \<le> merge_room (w_state w) \<Longrightarrow>
      \<exists>w'. f x w = (Inr (), w') \<and> I w' \<and> spends (k x) (w_state w) (w_state w')" by (rule Cons.prems(1)) simp_all
  have "(\<Sum>x \<leftarrow> xs. k x) \<le> merge_room (w_state w1)" using spends_room [OF w1(3)] Cons.prems(3) by simp
  from Cons.IH [OF step w1(2) this] obtain w' where "forS f xs w1 = (Inr (), w')" "I w'"
      "spends (\<Sum>x \<leftarrow> xs. k x) (w_state w1) (w_state w')" by blast
  then show ?case using w1 spends_trans [OF w1(3)] by (simp add: bindS_def)
qed

lemma collection_found:
  assumes "ready C cs s" and "c \<in> cs"
  obtains l where "collection_named c s = Inr (Some l)"
proof -
  obtain row where row: "om_get (t_collections s) c = Some row"
    using assms by (auto simp: ready_def has_collections_def om_contains_def)
  have "rows_ok check_collection_row (t_collections s)" using assms(1) by (simp add: ready_def data_ok_def collections_ok_def)
  then have "check_collection_row c row" using row by (rule rows_okD)
  then show ?thesis using decode_collection_ok that row by (fastforce simp: collection_named_def)
qed

lemma merge_manifest_returns:
  assumes "ready C cs (w_state w)" and "fst e \<in> cs"
    and e: "\<forall>r \<in> set (m_records (snd e)). record_wf r \<and> r_collection r = fst e \<and> offer_loggable J peer r"
    and "cf_max_logs cfg < 2 ^ 63" and "2 * length (m_records (snd e)) \<le> merge_room (w_state w)"
  shows "\<exists>w'. merge_manifest E C J cfg peer limit e w = (Inr (), w') \<and> ready C cs (w_state w')
    \<and> spends (2 * length (m_records (snd e))) (w_state w) (w_state w')"
proof -
  obtain l where l: "collection_named (fst e) (w_state w) = Inr (Some l)" by (rule collection_found [OF assms(1,2)])
  let ?rs = "m_records (snd e)"
  let ?f = "merge_candidate E C J cfg peer limit (fst e) (cs_local_path l)"
  have two: "(\<Sum>x \<leftarrow> ?rs. 2) = 2 * length ?rs" by (simp add: sum_list_triv)
  have "\<exists>w'. forS ?f ?rs w = (Inr (), w') \<and> ready C cs (w_state w') \<and> spends (\<Sum>x \<leftarrow> ?rs. 2) (w_state w) (w_state w')"
  proof (rule forS_spends [where I = "\<lambda>w. ready C cs (w_state w)" and k = "\<lambda>_. 2"])
    fix r and w :: world assume r: "r \<in> set ?rs" and ready: "ready C cs (w_state w)" and room: "2 \<le> merge_room (w_state w)"
    have props: "record_wf r" "r_collection r = fst e" "offer_loggable J peer r" using e r by simp_all
    then obtain w' where run: "?f r w = (Inr (), w')" "spends 2 (w_state w) (w_state w')"
      using merge_candidate_returns [OF ready props(1) _ props(3) assms(4) room, of E limit "cs_local_path l"] assms(2) by auto
    from preservesD [OF ready_candidate [OF props(1), of C cs] _ run(1)] ready
    show "\<exists>w'. ?f r w = (Inr (), w') \<and> ready C cs (w_state w') \<and> spends 2 (w_state w) (w_state w')"
      using run by (simp add: in_world_def)
  qed (use assms two in simp_all)
  then show ?thesis using l two by (cases e) (simp add: merge_manifest_def bindS_def wquery_run)
qed

lemma select_requests_total: "records_ok C s \<Longrightarrow> \<exists>rs. select_requests C s requests selected n = Inr rs"
  by (induction requests arbitrary: selected n)
    (auto simp: lookup_known split: option.split RecordKind.split)

lemma choose_requests_total:
  assumes "records_ok C s"
  shows "\<exists>rs. choose_requests C limit bundle s = Inr rs"
proof -
  have "\<exists>y. missing_files C limit s x = Inr y" for x
  proof -
    obtain current where "record_states C (fst x) s = Inr current" using record_states_readable [OF assms] by blast
    then show ?thesis by (cases x) (simp add: missing_files_def Let_def)
  qed
  then obtain lists where lists: "map_result (missing_files C limit s) (mb_manifests bundle) = Inr lists"
    using map_result_total [of "mb_manifests bundle" "missing_files C limit s"] by blast
  obtain rs where "select_requests C s (remdups_adj (sort (concat lists))) [] 0 = Inr rs" using select_requests_total [OF assms] by blast
  then show ?thesis using lists by (simp add: choose_requests_def)
qed

lemma migrate_spends: "migrate s = (r, s') \<Longrightarrow> log_sequence s' = log_sequence s"
  by (auto simp: migrate_def bindS_def transactionS_def create_tables_def bindE_def split: if_splits sum.splits)

lemma merge_remote_returns:
  assumes ready: "ready C (set shared) (w_state w)" and "fst (migrate (w_state w)) = Inr ()"
    and proper: "entries_proper (mb_manifests bundle)" and names: "fst ` set (mb_manifests bundle) = set shared"
    and log: "\<forall>r \<in> set (bundle_records (mb_manifests bundle)). offer_loggable J peer r" "cf_max_logs cfg < 2 ^ 63"
    and room: "2 * length (bundle_records (mb_manifests bundle)) \<le> merge_room (w_state w)"
  shows "\<exists>requests w'. merge_remote_manifests E C J cfg peer shared bundle w = (Inr requests, w')"
proof -
  let ?limit = "i64_saturating_add (ev_clock E (w_tick w)) (duration_ns (cf_max_future_clock_skew cfg))"
  obtain s1 where s1: "migrate (w_state w) = (Inr (), s1)" using assms(2) by (metis prod.collapse)
  define w1 where "w1 = w\<lparr>w_tick := Suc (w_tick w), w_state := s1\<rparr>"
  have open1: "open_store_file (w\<lparr>w_tick := Suc (w_tick w)\<rparr>) = (Inr (), w1)"
    using s1 by (simp add: open_store_file_def wdb_def mapErrS_def db_def w1_def)
  have "ready C (set shared) s1"
    using ready preservesD [OF preserves_data(5) _ s1] preservesD [OF names.keeps_open _ s1] by (simp add: ready_def)
  then have ready1: "ready C (set shared) (w_state w1)" by (simp add: w1_def)
  have room1: "2 * length (bundle_records (mb_manifests bundle)) \<le> merge_room (w_state w1)"
    using room migrate_spends [OF s1] by (simp add: w1_def merge_room_def)
  have len: "(\<Sum>e \<leftarrow> es. 2 * length (m_records (snd e))) = 2 * length (bundle_records es)" for es
    by (induction es) (simp_all add: bundle_records_def)
  have "\<exists>w'. forS (merge_manifest E C J cfg peer ?limit) (mb_manifests bundle) w1 = (Inr (), w') \<and> ready C (set shared) (w_state w')
    \<and> spends (\<Sum>e \<leftarrow> mb_manifests bundle. 2 * length (m_records (snd e))) (w_state w1) (w_state w')"
  proof (rule forS_spends [where I = "\<lambda>w. ready C (set shared) (w_state w)" and k = "\<lambda>e. 2 * length (m_records (snd e))"])
    fix e and w :: world assume e: "e \<in> set (mb_manifests bundle)" and "ready C (set shared) (w_state w)"
      "2 * length (m_records (snd e)) \<le> merge_room (w_state w)"
    moreover have "fst e \<in> set shared" using e names by blast
    moreover have "\<forall>r \<in> set (m_records (snd e)). record_wf r \<and> r_collection r = fst e \<and> offer_loggable J peer r"
      using e proper log(1) by (auto simp: entries_proper_def bundle_records_def)
    ultimately show "\<exists>w'. merge_manifest E C J cfg peer ?limit e w = (Inr (), w') \<and> ready C (set shared) (w_state w')
      \<and> spends (2 * length (m_records (snd e))) (w_state w) (w_state w')" using merge_manifest_returns log(2) by blast
  qed (use ready1 room1 len in simp_all)
  then obtain w' where w': "forS (merge_manifest E C J cfg peer ?limit) (mb_manifests bundle) w1 = (Inr (), w')"
      "records_ok C (w_state w')" by (auto simp: ready_def data_ok_def)
  obtain rs where "choose_requests C ?limit bundle (w_state w') = Inr rs" using choose_requests_total [OF w'(2)] by blast
  then have "merge_remote_manifests E C J cfg peer shared bundle w = (Inr rs, w')"
    using names open1 w'(1) by (simp add: merge_remote_manifests_def bindS_def now_ns_def Let_def wquery_run)
  then show ?thesis by blast
qed

end
