(* ===== verification/Sync_Claims.thy ===== *)
theory Sync_Claims
  imports Sync_Completion State_Props
begin

text \<open>The properties of a session.\<close>

section \<open>The manifests a peer builds\<close>

lemma records_faithful:
  assumes ok: "records_ok C s" and run: "records C c s = Inr rs"
  shows "r \<in> set rs \<longleftrightarrow> r_collection r = c \<and> winner C s (rec_key r) = Some r"
proof -
  have each: "decode_indexed_record C (row_record_hash row, row_canonical row) c path = Inr r
      \<longleftrightarrow> winner C s (c, path) = Some r" if "om_get (path_records s) (c, path) = Some row" for path row r
    using load_record_ok(1) [OF ok, of "(c, path)"] that
    by (auto simp: load_record_def bindE_eq_Inr winner_def lookup_record_def split: sum.splits)
  have all2: "list_all2 (\<lambda>x r. winner C s (c, fst x) = Some r) (rows_of c s) rs"
    using run unfolding records_def map_result_eq_Inr
    by (rule list.rel_mono_strong) (use each rows_of_get(1) [OF ok] in auto)
  show ?thesis
  proof
    assume "r \<in> set rs"
    with all2 obtain x where "winner C s (c, fst x) = Some r" by (auto simp: list_all2_conv_all_nth in_set_conv_nth)
    with load_record_ok(2) [OF ok this] show "r_collection r = c \<and> winner C s (rec_key r) = Some r"
      by (auto simp: rec_key_def)
  next
    assume r: "r_collection r = c \<and> winner C s (rec_key r) = Some r"
    then have "winner C s (c, as_str (r_path r)) = Some r" by (auto simp: rec_key_def)
    then obtain row where "om_get (path_records s) (c, as_str (r_path r)) = Some row"
      by (auto simp: winner_def lookup_record_def load_record_def split: option.splits)
    then have "(as_str (r_path r), row) \<in> set (rows_of c s)" using rows_of_get(1) [OF ok] by blast
    with all2 obtain q where "q \<in> set rs" "winner C s (c, as_str (r_path r)) = Some q"
      by (fastforce simp: list_all2_conv_all_nth in_set_conv_nth)
    then show "r \<in> set rs" using r by (auto simp: rec_key_def)
  qed
qed

lemma build_manifests_run:
  assumes ok: "records_ok C (w_state w)" and run: "build_manifests C shared w = (Inr b, w')"
  shows "records_ok C (w_state w') \<and> winner C (w_state w') = winner C (w_state w)"
    and "r \<in> set (bundle_records (mb_manifests b)) \<longleftrightarrow> r_collection r \<in> set shared \<and> winner C (w_state w) (rec_key r) = Some r"
    and "map fst (mb_manifests b) = shared"
proof -
  from run obtain ms where w': "open_store_file w = (Inr (), w')"
    and ms: "map_result (\<lambda>collection.
        bindE (mapErr SyncError.State (records C collection (w_state w'))) (\<lambda>rs.
        bindE (mapErr SyncError.Record (manifest_new rs)) (\<lambda>m. Inr (collection, m)))) shared = Inr ms"
    and b: "b = \<lparr>mb_manifests = ms\<rparr>"
    by (auto simp: build_manifests_def bindS_eq_Inr bindE_eq_Inr)
  have "still C w w'" by (rule still_run [OF winners.open_file_kept w'])
  then show keep: "records_ok C (w_state w') \<and> winner C (w_state w') = winner C (w_state w)" using ok by (simp add: still_def)
  have all2: "list_all2 (\<lambda>c e. fst e = c \<and> (\<exists>rs. records C c (w_state w') = Inr rs \<and> set (m_records (snd e)) = set rs)) shared ms"
    using ms unfolding map_result_eq_Inr
    by (rule list.rel_mono_strong) (auto simp: bindE_eq_Inr mapErr_eq_Inr manifest_new_Inr)
  have "list_all2 (\<lambda>c e. fst e = c) shared ms" using all2 by (rule list.rel_mono_strong) simp
  then show names: "map fst (mb_manifests b) = shared"
    by (simp add: b list_eq_iff_nth_eq list_all2_conv_all_nth)
  have "r \<in> set (bundle_records ms) \<longleftrightarrow> (\<exists>c \<in> set shared. \<exists>rs. records C c (w_state w') = Inr rs \<and> r \<in> set rs)"
    using all2 by (induction rule: list_all2_induct) (auto simp: bundle_records_def)
  moreover have "\<exists>rs. records C c (w_state w') = Inr rs" if "c \<in> set shared" for c
    using all2 that by (fastforce simp: list_all2_conv_all_nth in_set_conv_nth)
  ultimately show "r \<in> set (bundle_records (mb_manifests b)) \<longleftrightarrow> r_collection r \<in> set shared \<and> winner C (w_state w) (rec_key r) = Some r"
    using records_faithful [of C "w_state w'"] keep by (auto simp: b)
qed


lemma built_proper:
  assumes ok: "records_ok C (w_state w)" and run: "build_manifests C shared w = (Inr b, w')" and fits: "manifest_bundle_encode b = Inr bs"
  shows "entries_proper (mb_manifests b)"
proof -
  note built = build_manifests_run [OF ok run]
  have valid: "\<forall>e \<in> set (mb_manifests b). entry_valid e" "distinct (map fst (mb_manifests b))"
    using fits by (auto simp: manifest_bundle_encode_Inr manifest_bundle_fits_def entries_fit_def)
  have col: "r_collection r = fst e" if "e \<in> set (mb_manifests b)" "r \<in> set (m_records (snd e))" for e r
    using valid(1) that by (auto simp: entry_valid_def for_each_eq_Inr validate_record_def bindE_eq_Inr split: if_splits)
  have new: "\<exists>rs. manifest_new rs = Inr (snd e)" if "e \<in> set (mb_manifests b)" for e
  proof -
    from run obtain ms where ms: "map_result (\<lambda>collection.
          bindE (mapErr SyncError.State (records C collection (w_state w'))) (\<lambda>rs.
          bindE (mapErr SyncError.Record (manifest_new rs)) (\<lambda>m. Inr (collection, m)))) shared = Inr ms"
        "b = \<lparr>mb_manifests = ms\<rparr>" by (auto simp: build_manifests_def bindS_eq_Inr bindE_eq_Inr)
    then have "list_all2 (\<lambda>c e. \<exists>rs. manifest_new rs = Inr (snd e)) shared ms"
      unfolding map_result_eq_Inr by (auto elim!: list.rel_mono_strong simp: bindE_eq_Inr)
    then show ?thesis using that ms(2) by (auto simp: list_all2_conv_all_nth in_set_conv_nth)
  qed
  have "distinct (map rec_key (m_records (snd e)))" if "e \<in> set (mb_manifests b)" for e
  proof -
    from new [OF that] obtain rs where "manifest_new rs = Inr (snd e)" by blast
    then have "snd e = \<lparr>m_records = sort_key record_key rs\<rparr>" "distinct (map record_key (sort_key record_key rs))"
      by (simp_all add: manifest_new_def Let_def split: if_splits)
    then show ?thesis unfolding distinct_rec_keys by simp
  qed
  then have "distinct (map rec_key (bundle_records (mb_manifests b)))"
    using bundle_records_distinct [OF valid(2)] col by blast
  moreover have "record_wf r" if "e \<in> set (mb_manifests b)" "r \<in> set (m_records (snd e))" for e r
  proof -
    have "r \<in> set (bundle_records (mb_manifests b))" using that by (auto simp: bundle_records_def)
    then show ?thesis using built(2) load_record_ok(2) [OF ok] by blast
  qed
  ultimately show ?thesis using col by (auto simp: entries_proper_def)
qed

lemma offered_built:
  assumes ok: "records_ok C (w_state w)" and run: "build_manifests C shared w = (Inr b, w')" and fits: "manifest_bundle_encode b = Inr bs"
  shows "offered (mb_manifests b) k = (if fst k \<in> set shared then winner C (w_state w) k else None)"
proof -
  note built = build_manifests_run [OF ok run]
  have dist: "distinct (map rec_key (bundle_records (mb_manifests b)))"
    using built_proper [OF assms] by (simp add: entries_proper_def)
  have "offered (mb_manifests b) k = Some r \<longleftrightarrow> fst k \<in> set shared \<and> winner C (w_state w) k = Some r" for r
    unfolding offered_Some [OF dist] built(2) using load_record_ok(2) [OF ok, of k r] by (auto simp: rec_key_def)
  then show ?thesis by (metis option.exhaust)
qed

lemma greater_record_commutes:
  assumes "inj_on (winner_key (c_blake3 C)) {a, b}"
  shows "greater_record C a b = greater_record C b a"
  using inj_onD [OF assms, of a b] by (auto simp: greater_record_wins wins_def)

section \<open>Two peers\<close>


section \<open>Opening and building never fail on a store of this version\<close>

definition opened :: "StateStore \<Rightarrow> StateStore" where
  "opened s = s\<lparr>user_version := 1, application_id := SCHEMA_APPLICATION_ID, sqlite_schema := SCHEMA_TABLES\<rparr>"

lemma migrate_opened: "migrate (opened s) = (Inr (), opened s)"
proof -
  have "validate_current_schema (opened s) = Inr ()" by (rule validate_schema_tables) (simp_all add: opened_def)
  then show ?thesis by (simp add: migrate_def bindS_def SCHEMA_VERSION_def opened_def)
qed

lemma migrate_new:
  assumes "user_version s = 0" and "sqlite_schema s = []"
  shows "migrate s = (Inr (), opened s)"
proof -
  have tables: "fold (\<lambda>(table, columns). om_insert table columns) SCHEMA_TABLES [] = SCHEMA_TABLES"
    unfolding SCHEMA_TABLES_def by code_simp
  have "validate_current_schema (opened s) = Inr ()" by (rule validate_schema_tables) (simp_all add: opened_def)
  then show ?thesis using assms
    by (cases s) (simp add: migrate_def bindS_def transactionS_def create_tables_def SCHEMA_VERSION_def om_contains_def tables opened_def)
qed

lemma opened_same:
  "winner C (opened s) = winner C s" "records C c (opened s) = records C c s" "path_records (opened s) = path_records s"
  "roster_revisions (opened s) = roster_revisions s"
  "records_ok C (opened s) = records_ok C s" "data_ok C (opened s) = data_ok C s" "has_collections cs (opened s) = has_collections cs s"
  by (rule ext, simp add: opened_def winner_def lookup_record_def load_record_def)
    (simp_all add: opened_def records_def rows_of_def records_ok_def data_ok_def has_collections_def collections_ok_def
      peers_ok_def log_ok_def)

lemma build_one:
  assumes "records C c (w_state w) = Inr rs" and "manifest_new rs = Inr m" and "migrate (w_state w) = (Inr (), opened (w_state w))"
  shows "build_manifests C [c] w = (Inr \<lparr>mb_manifests = [(c, m)]\<rparr>, w\<lparr>w_state := opened (w_state w)\<rparr>)"
  using assms by (simp add: build_manifests_def bindS_def open_store_file_def wdb_def mapErrS_def db_def opened_same)

section \<open>Two devices\<close>

text \<open>One that has the collection and nothing in it, and one that holds a file.\<close>

definition stocked_store :: StateStore where
  "stocked_store = sample_records_store\<lparr>path_records :=
     om_insert (rec_key sample_file) (row_of_record sample_crypto sample_file True) (path_records sample_records_store)\<rparr>"

lemma sample_names: "om_contains (t_collections sample_records_store) ''c''"
  by (simp add: sample_records_store_def om_contains_def)

lemma sample_data: "data_ok C sample_records_store"
proof -
  have "collections_ok sample_records_store" "peers_ok sample_records_store" "log_ok sample_records_store"
    by (simp_all add: collections_ok_def peers_ok_def log_ok_def sample_records_store_def fresh_database_def
        rows_ok_def check_collection_row_def)
  then show ?thesis using sample_records_ok by (simp add: data_ok_def)
qed

lemma stocked_data: "data_ok sample_crypto stocked_store"
proof -
  have "records_ok sample_crypto stocked_store" unfolding stocked_store_def
    by (rule upsert_records_ok [OF sample_records_ok sample_file_wf]) (simp add: sample_file_def sample_names)
  then show ?thesis using sample_data [of sample_crypto]
    by (simp add: data_ok_def stocked_store_def collections_ok_def peers_ok_def log_ok_def)
qed

lemma stocked_winner: "winner sample_crypto stocked_store k = (if k = rec_key sample_file then Some sample_file else None)"
  unfolding stocked_store_def
  using winner_upsert [OF sample_records_ok sample_file_wf, of sample_crypto True k]
  by (simp add: sample_file_def sample_names sample_records_empty)

definition peer_world :: "StateStore \<Rightarrow> world" where
  "peer_world s = sample_world\<lparr>w_state := s\<rparr>"

definition sample_config :: SessionConfig where
  "sample_config = \<lparr>cf_local_endpoint = 5, cf_local_addr = \<lparr>ea_id = 5, ea_addrs = []\<rparr>, cf_max_future_clock_skew = 300 * 10 ^ 9,
     cf_max_logs = 10\<rparr>"

lemma sample_encodes:
  "manifest_bundle_encode \<lparr>mb_manifests = [(''c'', \<lparr>m_records = []\<rparr>)]\<rparr>
     = Inr (manifest_bundle_bytes \<lparr>mb_manifests = [(''c'', \<lparr>m_records = []\<rparr>)]\<rparr>)"
  "manifest_bundle_encode \<lparr>mb_manifests = [(''c'', \<lparr>m_records = [sample_file]\<rparr>)]\<rparr>
     = Inr (manifest_bundle_bytes \<lparr>mb_manifests = [(''c'', \<lparr>m_records = [sample_file]\<rparr>)]\<rparr>)"
proof -
  have "validate_collection ''c'' = Inr ()" by (simp add: validate_collection_def validate_short_string_def wire_limits)
  moreover have "manifest_ok \<lparr>m_records = []\<rparr>" "manifest_ok \<lparr>m_records = [sample_file]\<rparr>"
    by (simp_all add: manifest_ok_def sample_file_wf sample_lengths)
  ultimately show "manifest_bundle_encode \<lparr>mb_manifests = [(''c'', \<lparr>m_records = []\<rparr>)]\<rparr>
     = Inr (manifest_bundle_bytes \<lparr>mb_manifests = [(''c'', \<lparr>m_records = []\<rparr>)]\<rparr>)"
    "manifest_bundle_encode \<lparr>mb_manifests = [(''c'', \<lparr>m_records = [sample_file]\<rparr>)]\<rparr>
     = Inr (manifest_bundle_bytes \<lparr>mb_manifests = [(''c'', \<lparr>m_records = [sample_file]\<rparr>)]\<rparr>)"
    unfolding manifest_bundle_encode_Inr manifest_bundle_fits_def
    by (simp_all add: entries_fit_def entry_valid_def wire_limits validate_record_def manifest_bundle_bytes_def entry_bytes_def
        manifest_canonical_bytes_eq manifest_body_def MANIFEST_DOMAIN_def sample_lengths)
      (simp_all add: sample_file_def MAX_FILE_BYTES_def)
qed

lemma sample_builds:
  "build_manifests sample_crypto [''c''] (peer_world sample_records_store)
     = (Inr \<lparr>mb_manifests = [(''c'', \<lparr>m_records = []\<rparr>)]\<rparr>, peer_world (opened sample_records_store))"
  "build_manifests sample_crypto [''c''] (peer_world stocked_store)
     = (Inr \<lparr>mb_manifests = [(''c'', \<lparr>m_records = [sample_file]\<rparr>)]\<rparr>, peer_world (opened stocked_store))"
proof -
  have empty: "records sample_crypto ''c'' sample_records_store = Inr []"
    by (simp add: records_def rows_of_def sample_records_store_def fresh_database_def)
  have "row_for sample_crypto sample_file (row_of_record sample_crypto sample_file True)"
    using sample_file_wf by (rule row_of_record_for)
  note row = decode_row [OF sample_file_wf this]
  have one: "records sample_crypto ''c'' stocked_store = Inr [sample_file]"
    using row by (simp add: records_def rows_of_def stocked_store_def sample_records_store_def fresh_database_def rec_key_def sample_file_def)
  have new: "migrate s = (Inr (), opened s)" if "s = sample_records_store \<or> s = stocked_store" for s
    using that by (intro migrate_new) (auto simp: stocked_store_def sample_records_store_def fresh_database_def)
  show "build_manifests sample_crypto [''c''] (peer_world sample_records_store)
     = (Inr \<lparr>mb_manifests = [(''c'', \<lparr>m_records = []\<rparr>)]\<rparr>, peer_world (opened sample_records_store))"
    using build_one [of sample_crypto "''c''" "peer_world sample_records_store", OF _ manifest_new_sorted] empty new
    by (simp add: peer_world_def)
  show "build_manifests sample_crypto [''c''] (peer_world stocked_store)
     = (Inr \<lparr>mb_manifests = [(''c'', \<lparr>m_records = [sample_file]\<rparr>)]\<rparr>, peer_world (opened stocked_store))"
    using build_one [of sample_crypto "''c''" "peer_world stocked_store", OF _ manifest_new_sorted] one new
    by (simp add: peer_world_def)
qed

lemma sample_offer: "offer_loggable sample_json 5 sample_file"
  by (simp add: offer_loggable_def loggable_def sample_json_def check_log_row_def validate_operational_event_def event_subject_def
      sample_file_def)

lemma sample_merges:
  assumes "s = sample_records_store \<or> s = stocked_store" and "rs = [] \<or> rs = [sample_file]"
  shows "\<exists>requests w'. merge_remote_manifests sample_env sample_crypto sample_json sample_config 5 [''c'']
    \<lparr>mb_manifests = [(''c'', \<lparr>m_records = rs\<rparr>)]\<rparr> (peer_world (opened s)) = (Inr requests, w')"
proof (rule merge_remote_returns)
  have "data_ok sample_crypto s" using assms(1) sample_data stocked_data by blast
  moreover have "has_collections {''c''} s"
    using assms(1) sample_names by (auto simp: has_collections_def stocked_store_def)
  ultimately show "ready sample_crypto (set [''c'']) (w_state (peer_world (opened s)))"
    by (simp add: ready_def peer_world_def opened_same)
  show "fst (migrate (w_state (peer_world (opened s)))) = Inr ()" by (simp add: peer_world_def migrate_opened)
  show "entries_proper (mb_manifests \<lparr>mb_manifests = [(''c'', \<lparr>m_records = rs\<rparr>)]\<rparr>)"
    using assms(2) sample_file_wf by (auto simp: entries_proper_def bundle_records_def) (simp add: sample_file_def)
  show "\<forall>r \<in> set (bundle_records (mb_manifests \<lparr>mb_manifests = [(''c'', \<lparr>m_records = rs\<rparr>)]\<rparr>)). offer_loggable sample_json 5 r"
    using assms(2) sample_offer by (auto simp: bundle_records_def)
  have "log_sequence s = 0" using assms(1) by (auto simp: stocked_store_def sample_records_empty)
  then show "2 * length (bundle_records (mb_manifests \<lparr>mb_manifests = [(''c'', \<lparr>m_records = rs\<rparr>)]\<rparr>))
      \<le> merge_room (w_state (peer_world (opened s)))"
    using assms(2) by (auto simp: bundle_records_def merge_room_def peer_world_def opened_def)
qed (simp_all add: sample_config_def)

lemma sample_past: "sint (r_modified_ns sample_file)
  \<le> sint (i64_saturating_add (ev_clock sample_env (w_tick (peer_world s))) (duration_ns (cf_max_future_clock_skew sample_config)))"
  by (simp add: sample_file_def sample_env_def peer_world_def sample_world_def sample_config_def i64_saturating_add_def
      i64_saturating_def duration_ns_def)


section \<open>Merging a peer's manifests\<close>

text \<open>The event that merging an offered record writes to the log, given the winner known for its path.\<close>

definition merge_event :: "crypto \<Rightarrow> EndpointId \<Rightarrow> i64 \<Rightarrow> Record \<Rightarrow> Record option \<Rightarrow> OperationalEvent option" where
  "merge_event C peer limit r known =
    (if sint (r_modified_ns r) > sint limit then Some (CollectionWarning (r_collection r) (Some (r_path r)) TimestampRejected)
     else if known = Some r then None
     else Some (case known of
         None \<Rightarrow> RecordAccepted (r_collection r) (r_path r) (Some peer)
       | Some w \<Rightarrow> if compare_winner (c_blake3 C) r w = Greater then RecordAccepted (r_collection r) (r_path r) (Some peer)
           else RecordRejected (r_collection r) (r_path r) (Some peer) (r_modified_ns r) (r_author r) (r_modified_ns w) (r_author w)))"

lemma insert_log_was_loggable: "insert_log J t e n s = Inr s' \<Longrightarrow> loggable J e"
  by (auto simp: insert_log_Inr loggable_def)

lemma log_event_was_loggable: "log_event E J cfg e w = (Inr (), w') \<Longrightarrow> loggable J e"
  by (auto simp: log_event_def bindS_eq_Inr wdb_Inr append_log_def transactionS_eq_Inr bindE_eq_Inr dest: insert_log_was_loggable)

lemma merge_record_was_loggable:
  assumes ok: "records_ok C s" and run: "merge_record C J r t (Some peer) n s = (Inr a, s')"
  shows "loggable J (case winner C s (rec_key r) of
      None \<Rightarrow> RecordAccepted (r_collection r) (r_path r) (Some peer)
    | Some w \<Rightarrow> if compare_winner (c_blake3 C) r w = Greater then RecordAccepted (r_collection r) (r_path r) (Some peer)
        else RecordRejected (r_collection r) (r_path r) (Some peer) (r_modified_ns r) (r_author r) (r_modified_ns w) (r_author w))"
proof -
  let ?e = "case winner C s (rec_key r) of
      None \<Rightarrow> RecordAccepted (r_collection r) (r_path r) (Some peer)
    | Some w \<Rightarrow> if compare_winner (c_blake3 C) r w = Greater then RecordAccepted (r_collection r) (r_path r) (Some peer)
        else RecordRejected (r_collection r) (r_path r) (Some peer) (r_modified_ns r) (r_author r) (r_modified_ns w) (r_author w)"
  have load: "load_record C (r_collection r) (as_str (r_path r)) s = Inr (winner C s (rec_key r))"
    using load_record_ok(1) [OF ok, of "rec_key r"] by (simp add: rec_key_def)
  obtain s1 s2 where "insert_log J t (case winner C s (rec_key r) of
        Some w \<Rightarrow> if (case winner C s (rec_key r) of None \<Rightarrow> True | Some c \<Rightarrow> compare_winner (c_blake3 C) r c = Greater)
          then RecordAccepted (r_collection r) (r_path r) (Some peer)
          else RecordRejected (r_collection r) (r_path r) (Some peer) (r_modified_ns r) (r_author r) (r_modified_ns w) (r_author w)
      | None \<Rightarrow> RecordAccepted (r_collection r) (r_path r) (Some peer)) n s1 = Inr s2"
    using run unfolding merge_record_def transactionS_eq_Inr Let_def bindE_eq_Inr load sum.inject by blast
  then have "loggable J ?e" by (cases "winner C s (rec_key r)") (auto dest: insert_log_was_loggable)
  then show ?thesis .
qed

lemma merge_candidate_was_loggable:
  assumes ok: "records_ok C (w_state w)" and run: "merge_candidate E C J cfg peer limit (r_collection r) local_path r w = (Inr (), w')"
    and e: "merge_event C peer limit r (winner C (w_state w) (rec_key r)) = Some e"
  shows "loggable J e"
proof (cases "sint (r_modified_ns r) > sint limit")
  case True
  then show ?thesis using run e by (auto simp: merge_candidate_def Let_def merge_event_def dest: log_event_was_loggable)
next
  case False
  have look: "lookup_record C (r_collection r) (as_str (r_path r)) (w_state w) = Inr (winner C (w_state w) (rec_key r))"
    using lookup_known [OF ok] by (simp add: rec_key_def)
  from e False have neq: "winner C (w_state w) (rec_key r) \<noteq> Some r" by (auto simp: merge_event_def)
  from run False obtain current w1 where "lookup_record C (r_collection r) (as_str (r_path r)) (w_state w) = Inr current"
      and w1: "(if current \<noteq> Some r
              then bindS (now_ns E) (\<lambda>now. bindS (wdb (merge_record C J r now (Some peer) (cf_max_logs cfg))) (\<lambda>_. returnS ()))
              else returnS ()) w = (Inr (), w1)"
    by (auto simp: merge_candidate_def Let_def bindS_eq_Inr wquery_Inr)
  with look neq have "bindS (now_ns E) (\<lambda>now. bindS (wdb (merge_record C J r now (Some peer) (cf_max_logs cfg))) (\<lambda>_. returnS ())) w
      = (Inr (), w1)" by (simp split: if_splits)
  then obtain now a s where "merge_record C J r now (Some peer) (cf_max_logs cfg) (w_state w) = (Inr a, s)"
    by (auto simp: bindS_eq_Inr now_ns_run wdb_Inr)
  from merge_record_was_loggable [OF ok this] show ?thesis using e False neq by (simp add: merge_event_def split: if_splits)
qed

text \<open>What each step of a loop over distinct keys shows of its own key holds of the state before the loop.\<close>

lemma forS_each:
  assumes run: "forS f xs s = (Inr (), s')" and inv: "I s" and dist: "distinct (map key xs)"
    and step: "\<forall>x \<in> set xs. \<forall>s s'. I s \<longrightarrow> f x s = (Inr (), s') \<longrightarrow>
      I s' \<and> P x (view s (key x)) \<and> (\<forall>k. k \<noteq> key x \<longrightarrow> view s' k = view s k)"
  shows "\<forall>x \<in> set xs. P x (view s (key x))"
  using run inv dist step
proof (induction xs arbitrary: s)
  case (Cons x xs)
  from Cons.prems(1) obtain s1 where s1: "f x s = (Inr (), s1)" "forS f xs s1 = (Inr (), s')"
    by (auto simp: bindS_eq_Inr)
  have x: "I s1 \<and> P x (view s (key x)) \<and> (\<forall>k. k \<noteq> key x \<longrightarrow> view s1 k = view s k)"
    using bspec [OF Cons.prems(4) list.set_intros(1)] Cons.prems(2) s1(1) by blast
  have "\<forall>y \<in> set xs. P y (view s1 (key y))"
  proof (rule Cons.IH [OF s1(2)])
    show "I s1" using x by (rule conjunct1)
    show "distinct (map key xs)" using Cons.prems(3) by simp
    show "\<forall>x \<in> set xs. \<forall>s s'. I s \<longrightarrow> f x s = (Inr (), s') \<longrightarrow>
      I s' \<and> P x (view s (key x)) \<and> (\<forall>k. k \<noteq> key x \<longrightarrow> view s' k = view s k)"
      by (rule ballI, rule bspec [OF Cons.prems(4)], rule list.set_intros(2))
  qed
  moreover have "view s1 (key y) = view s (key y)" if "y \<in> set xs" for y
    using x Cons.prems(3) that by (metis distinct.simps(2) image_eqI list.set_map list.simps(9))
  ultimately show ?case using x by simp
qed simp

lemma merge_manifests_were_loggable:
  assumes "records_ok C (w_state w)" and "entries_proper es" and "forS (merge_manifest E C J cfg peer limit) es w = (Inr (), w')"
  shows "\<forall>r \<in> set (bundle_records es). \<forall>e. merge_event C peer limit r (winner C (w_state w) (rec_key r)) = Some e \<longrightarrow> loggable J e"
  using assms
proof (induction es arbitrary: w)
  case (Cons x es)
  from Cons.prems(3) obtain w1 where w1: "merge_manifest E C J cfg peer limit x w = (Inr (), w1)"
      "forS (merge_manifest E C J cfg peer limit) es w1 = (Inr (), w')" by (auto simp: bindS_eq_Inr)
  let ?rs = "m_records (snd x)"
  have dist: "distinct (map rec_key ?rs)" "rec_key ` set ?rs \<inter> rec_key ` set (bundle_records es) = {}"
    and wf: "\<forall>r \<in> set ?rs. record_wf r \<and> r_collection r = fst x" and proper: "entries_proper es"
    using Cons.prems(2) by (auto simp: entries_proper_def bundle_records_def)
  note step = merge_manifest_step [OF Cons.prems(1) wf dist(1) w1(1)]
  from w1(1) obtain l :: CollectionState where loop: "forS (merge_candidate E C J cfg peer limit (fst x) (cs_local_path l)) ?rs w = (Inr (), w1)"
    by (cases x) (auto simp: merge_manifest_def bindS_eq_Inr wquery_Inr)
  have mine: "\<forall>r \<in> set ?rs. \<forall>e. merge_event C peer limit r (winner C (w_state w) (rec_key r)) = Some e \<longrightarrow> loggable J e"
  proof (rule forS_each [OF loop, where I = "\<lambda>w. records_ok C (w_state w)" and view = "\<lambda>w. winner C (w_state w)"
      and P = "\<lambda>r known. \<forall>e. merge_event C peer limit r known = Some e \<longrightarrow> loggable J e"])
    show "\<forall>r \<in> set ?rs. \<forall>y y'. records_ok C (w_state y) \<longrightarrow>
        merge_candidate E C J cfg peer limit (fst x) (cs_local_path l) r y = (Inr (), y') \<longrightarrow>
        records_ok C (w_state y') \<and> (\<forall>e. merge_event C peer limit r (winner C (w_state y) (rec_key r)) = Some e \<longrightarrow> loggable J e)
          \<and> (\<forall>k. k \<noteq> rec_key r \<longrightarrow> winner C (w_state y') k = winner C (w_state y) k)"
    proof (intro ballI allI impI)
      fix r y y' assume r: "r \<in> set ?rs" and ok: "records_ok C (w_state y)"
        and run: "merge_candidate E C J cfg peer limit (fst x) (cs_local_path l) r y = (Inr (), y')"
      have "record_wf r" "r_collection r = fst x" using wf r by simp_all
      with merge_candidate_step [OF ok this run] merge_candidate_was_loggable [OF ok, of E J cfg peer limit r "cs_local_path l" y'] run
      show "records_ok C (w_state y') \<and> (\<forall>e. merge_event C peer limit r (winner C (w_state y) (rec_key r)) = Some e \<longrightarrow> loggable J e)
          \<and> (\<forall>k. k \<noteq> rec_key r \<longrightarrow> winner C (w_state y') k = winner C (w_state y) k)" by simp
    qed
  qed (use Cons.prems(1) dist(1) in simp_all)
  have "\<forall>r \<in> set (bundle_records es). \<forall>e. merge_event C peer limit r (winner C (w_state w1) (rec_key r)) = Some e \<longrightarrow> loggable J e"
    using Cons.IH [OF _ proper w1(2)] step by blast
  moreover have "winner C (w_state w1) (rec_key r) = winner C (w_state w) (rec_key r)" if "r \<in> set (bundle_records es)" for r
    using step dist(2) that by blast
  ultimately show ?case using mine by (auto simp: bundle_records_Cons)
qed (simp add: bundle_records_def)



end
