(* ===== verification/Sync_Effects.thy ===== *)
theory Sync_Effects
  imports Sync_Claims
begin

text \<open>
  Properties of a whole session: what it does to the store when it succeeds, what it keeps however it ends, whom it
  talks to, and what it asks for and accepts.
\<close>

section \<open>The effect on the records\<close>

lemma on_local_Inr: "on_local m s = (Inr a, s') \<longleftrightarrow> (\<exists>w. m (se_world s) = (Inr a, w) \<and> s' = s\<lparr>se_world := w\<rparr>)"
  by (auto simp: on_local_def split: prod.splits)

lemma exchange_frame_world: "exchange_frame N tag payload s = (r, s') \<Longrightarrow> se_world s' = se_world s"
proof -
  have "preserves (\<lambda>s'. se_world s' = se_world s) (exchange_frame N tag payload)"
  proof -
    have net: "preserves (\<lambda>s'. se_world s' = se_world s) (net_call N t f)" "preserves (\<lambda>s'. se_world s' = se_world s) (net_write N t f bs)"
      for t f bs by (auto simp: preserves_def net_call_def net_write_def Let_def split: option.split net_fault.split prod.split)
    have "preserves (\<lambda>s'. se_world s' = se_world s) (read_frame N)"
      unfolding read_frame_def
      by (intro preserves_bindS net) (auto simp: preserves_def split: sum.split prod.split)
    then show ?thesis
      unfolding exchange_frame_def write_frame_async_def read_expected_def
      by (auto intro!: preserves_intros net split: prod.split)
  qed
  then show "exchange_frame N tag payload s = (r, s') \<Longrightarrow> se_world s' = se_world s" by (rule preservesD) simp_all
qed

lemma exchange_frame_received:
  assumes "exchange_frame N tag p s = (Inr q, s')"
  shows "se_in s = (tag_byte tag # sized q) @ se_in s'"
proof -
  have net: "se_in s2 = se_in s1" if "net_call N t f s1 = (r, s2)" for t f :: SyncError and s1 s2 r
    using that by (auto simp: net_call_def Let_def split: option.splits net_fault.splits prod.splits)
  from assms obtain s1 where sent: "write_frame_async N tag p s = (Inr (), s1)" and read: "read_expected N tag s1 = (Inr q, s')"
    by (auto simp: exchange_frame_def bindS_eq_Inr)
  have "se_in s1 = se_in s"
    using sent net by (fastforce simp: write_frame_async_def net_write_def bindS_eq_Inr Let_def)
  moreover from read obtain t where frame: "read_frame N s1 = (Inr (t, q), s')" and "t = tag"
    by (auto simp: read_expected_def bindS_eq_Inr expect_frame_tag_def split: if_splits)
  moreover from frame obtain s2 received left where
      "net_call N (Protocol ProtocolError.Timeout) (Protocol ProtocolError.Truncated) s1 = (Inr (), s2)"
      "read_frame_async (se_received s2) (se_in s2) = Inr ((t, q), received, left)" "se_in s' = left"
  proof -
    from frame obtain s2 where s2: "net_call N (Protocol ProtocolError.Timeout) (Protocol ProtocolError.Truncated) s1 = (Inr (), s2)"
      "(case read_frame_async (se_received s2) (se_in s2) of Inl e \<Rightarrow> (Inl (Protocol e), s2)
        | Inr (frame, received, src) \<Rightarrow> (Inr frame, s2\<lparr>se_in := src, se_received := received\<rparr>)) = (Inr (t, q), s')"
      unfolding read_frame_def bindS_eq_Inr by auto
    then show thesis using that by (cases "read_frame_async (se_received s2) (se_in s2)") auto
  qed
  ultimately show ?thesis using net by (simp add: read_frame_async_Inr decode_frame_Inr)
qed

lemma exchange_manifests_effect:
  assumes ok: "records_ok C (w_state (se_world s))"
    and run: "exchange_manifests E C J N cfg peer shared s = (Inr (requests, remote), s')"
    and limit: "limit = i64_saturating_add (ev_clock E (w_tick (se_world s))) (duration_ns (cf_max_future_clock_skew cfg))"
  shows "\<exists>payload later bundle. se_in s = (tag_byte Manifests # sized payload) @ later
    \<and> manifest_bundle_decode payload = Inr bundle \<and> set (map fst (mb_manifests bundle)) = set shared
    \<and> records_ok C (w_state (se_world s'))
    \<and> winner C (w_state (se_world s')) = merged_all C limit (mb_manifests bundle) (winner C (w_state (se_world s)))"
proof -
  from run obtain mine w1 encoded s2 payload theirs w3 s4 payload2 s5 bs where
      build: "build_manifests C shared (se_world s) = (Inr mine, w1)"
    and sent: "exchange_frame N Manifests encoded (s\<lparr>se_world := w1\<rparr>) = (Inr payload, s2)"
    and dec: "manifest_bundle_decode payload = Inr theirs"
    and merge: "merge_remote_manifests E C J cfg peer shared theirs (se_world s2) = (Inr requests, w3)"
    and ask: "exchange_frame N Requests bs (s2\<lparr>se_world := w3\<rparr>) = (Inr payload2, s')"
    by (auto simp: exchange_manifests_def bindS_eq_Inr on_local_Inr mapErr_eq_Inr)
  note built = build_manifests_run [OF ok build]
  have w: "se_world s2 = w1" "se_world s' = w3"
    using exchange_frame_world [OF sent] exchange_frame_world [OF ask] by simp_all
  have tick: "w_tick w1 = w_tick (se_world s)"
    using build by (auto simp: build_manifests_def bindS_eq_Inr open_store_file_def wdb_Inr)
  have proper: "entries_proper (mb_manifests theirs)"
    using dec by (auto simp: manifest_bundle_decode_Inr intro: decoded_proper)
  have "records_ok C (w_state (se_world s2))" using built(1) w by simp
  note merged = merge_remote_run [OF this proper merge]
  have "se_in s = (tag_byte Manifests # sized payload) @ se_in s2" using exchange_frame_received [OF sent] by simp
  with merged dec w tick built(1) limit show ?thesis by auto
qed

text \<open>
  Nothing before the merge reads the clock; at most the device's identity is loaded, when its own changes have to be
  applied again.
\<close>

definition at_tick :: "(nat \<Rightarrow> bool) \<Rightarrow> world \<Rightarrow> bool" where
  "at_tick P w \<longleftrightarrow> P (w_tick w)"

lemma at_tick_wdb: "preserves (at_tick P) (wdb m)"
  by (auto simp: preserves_def at_tick_def wdb_def mapErrS_def db_def split: prod.splits)

lemma at_tick_calls: "preserves (at_tick P) (wquery q)" "preserves (at_tick P) open_store_file"
  by (simp_all add: wquery_def open_store_file_def at_tick_wdb)

lemmas at_tick_intros = preserves_bindS preserves_pure preserves_mapErrS at_tick_wdb at_tick_calls

lemma at_tick_reapply: "preserves (at_tick P) (reapply_changes C identity me rs)"
  by (induction rs) (simp add: preserves_def, auto intro!: at_tick_intros)

lemma at_tick_merge:
  "triple (at_tick (\<lambda>n. n = T)) (merge_and_authorize_remote_roster C N revisions me peer) (\<lambda>_. at_tick (\<lambda>n. n = T \<or> n = Suc T))"
proof -
  have later: "at_tick (\<lambda>n. n = T \<or> n = Suc T) w" if "at_tick (\<lambda>n. n = T) w" for w using that by (simp add: at_tick_def)
  have tail: "triple (at_tick (\<lambda>n. n = T \<or> n = Suc T)) m (\<lambda>_. at_tick (\<lambda>n. n = T \<or> n = Suc T))"
    if "preserves (at_tick (\<lambda>n. n = T \<or> n = Suc T)) m" for m :: "bool local_action"
    using that by (simp add: triple_preserves)
  have "triple (at_tick (\<lambda>n. n = T)) (if b then bindS (load_identity N) (\<lambda>identity. reapply_changes C identity me rs) else returnS ())
      (\<lambda>_. at_tick (\<lambda>n. n = T \<or> n = Suc T))" for b rs
  proof (cases b)
    case True
    have "triple (at_tick (\<lambda>n. n = T)) (load_identity N) (\<lambda>_. at_tick (\<lambda>n. n = T \<or> n = Suc T))"
      by (simp add: triple_def load_identity_def at_tick_def)
    then have "triple (at_tick (\<lambda>n. n = T)) (bindS (load_identity N) (\<lambda>identity. reapply_changes C identity me rs))
        (\<lambda>_. at_tick (\<lambda>n. n = T \<or> n = Suc T))"
      by (rule triple_bindS) (simp_all add: at_tick_reapply [unfolded triple_preserves])
    with True show ?thesis by simp
  qed (simp add: triple_def at_tick_def)
  note again = triple_bindS [OF this]
  show ?thesis
    unfolding merge_and_authorize_remote_roster_def Let_def
    by (rule triple_frame_bind [OF at_tick_calls(2)], erule later, rule triple_frame_bind [OF at_tick_calls(1)], erule later,
        rule triple_frame_bind [OF at_tick_wdb], erule later, rule triple_frame_bind [OF at_tick_calls(1)], erule later,
        rule again, assumption, rule tail) (auto intro!: at_tick_intros)
qed

lemma exchange_rosters_effect:
  assumes "exchange_rosters C N cfg peer s = (Inr (changed, shared), s')"
  shows "\<exists>hello roster. se_in s = (tag_byte Hello # sized hello) @ (tag_byte FrameTag.Roster # sized roster) @ se_in s'
    \<and> (w_tick (se_world s') = w_tick (se_world s) \<or> w_tick (se_world s') = Suc (w_tick (se_world s)))"
proof -
  let ?T = "w_tick (se_world s)"
  from assms obtain chain names w1 mine p1 s2 g h rosters p2 s3 theirs w4 where
      start: "local_session_state C (se_world s) = (Inr (chain, names), w1)"
    and hello: "exchange_frame N Hello mine (s\<lparr>se_world := w1\<rparr>) = (Inr p1, s2)"
    and roster: "exchange_frame N FrameTag.Roster rosters s2 = (Inr p2, s3)"
    and accept: "accept_remote_roster_and_hint C N theirs g (cf_local_endpoint cfg) peer h (se_world s3) = (Inr changed, w4)"
    and s': "s' = s3\<lparr>se_world := w4\<rparr>"
    by (auto simp: exchange_rosters_def bindS_eq_Inr on_local_Inr split: if_splits)
  have kept: "preserves (at_tick (\<lambda>n. n = ?T)) (local_session_state C)"
    unfolding local_session_state_def by (intro at_tick_intros)
  have "at_tick (\<lambda>n. n = ?T) w1" using preservesD [OF kept _ start] by (simp add: at_tick_def)
  then have "at_tick (\<lambda>n. n = ?T) (se_world s3)"
    using exchange_frame_world [OF hello] exchange_frame_world [OF roster] by simp
  moreover from accept obtain w5 where "merge_and_authorize_remote_roster C N theirs (cf_local_endpoint cfg) peer (se_world s3) = (Inr changed, w5)"
      "w_tick w4 = w_tick w5"
    by (auto simp: accept_remote_roster_and_hint_def bindS_eq_Inr open_store_file_def wdb_Inr split: if_splits)
  ultimately have "w_tick w4 = ?T \<or> w_tick w4 = Suc ?T"
    using tripleD [OF at_tick_merge [of ?T]] by (auto simp: at_tick_def)
  then show ?thesis using exchange_frame_received [OF hello] exchange_frame_received [OF roster] s' by auto
qed

lemma unmoved_run:
  assumes "preserves (in_session (unmoved C W)) m" and "m s = (r, s')"
    and "records_ok C (w_state (se_world s))" and "winner C (w_state (se_world s)) = W"
  shows "records_ok C (w_state (se_world s')) \<and> winner C (w_state (se_world s')) = W"
  using preservesD [OF assms(1) _ assms(2)] assms(3,4) by (simp add: in_session_def unmoved_def)

text \<open>
  C2. What a completed session does to the records: the bytes the peer sent begin with its greeting, its rosters and its
  manifests, and afterwards the winner of every path is the greater of the record in those manifests and the former
  winner, where records later than this device's clock plus the configured skew are ignored. The clock is read after
  the rosters are exchanged, before which the device does at most load its identity. Nothing else in the session
  moves a winner: not the rosters, not the files sent or received.
\<close>

theorem session_effect:
  assumes "records_ok C (w_state (se_world s))"
    and "run_session_with_outcome E C J N peer side cfg s = (Inr outcome, s')"
  shows "\<exists>hello roster payload later bundle tick.
      se_in s = (tag_byte Hello # sized hello) @ (tag_byte FrameTag.Roster # sized roster) @ (tag_byte Manifests # sized payload) @ later
    \<and> manifest_bundle_decode payload = Inr bundle
    \<and> (tick = w_tick (se_world s) \<or> tick = Suc (w_tick (se_world s)))
    \<and> records_ok C (w_state (se_world s'))
    \<and> (\<forall>k. winner C (w_state (se_world s')) k
        = merged_all C (i64_saturating_add (ev_clock E tick) (duration_ns (cf_max_future_clock_skew cfg)))
            (mb_manifests bundle) (winner C (w_state (se_world s))) k)"
proof -
  let ?W = "winner C (w_state (se_world s))"
  from assms(2) obtain s1 s2 s3 s4 s5 changed shared requests remote where
      s1: "on_local (authorize_local_roster C (cf_local_endpoint cfg) peer) s = (Inr (), s1)"
    and s2: "net_call N SyncError.Timeout SyncError.Transport s1 = (Inr (), s2)"
    and s3: "exchange_rosters C N cfg peer s2 = (Inr (changed, shared), s3)"
    and s4: "exchange_manifests E C J N cfg peer shared s3 = (Inr (requests, remote), s4)"
    and s5: "(case side of
        Dialer \<Rightarrow> bindS (send_files E C J N cfg peer shared remote) (\<lambda>_. receive_files E C J N cfg peer requests)
      | Acceptor \<Rightarrow> bindS (receive_files E C J N cfg peer requests) (\<lambda>_. send_files E C J N cfg peer shared remote)) s4
        = (Inr (), s5)"
    and s6: "close_session N s5 = (Inr (), s')"
    by (auto simp: run_session_with_outcome_def bindS_eq_Inr)
  have before: "records_ok C (w_state (se_world s3)) \<and> winner C (w_state (se_world s3)) = ?W"
    using unmoved_run [OF in_session_local [OF winners_roster.rosters_kept(1)] s1 assms(1) refl]
      unmoved_run [OF in_session_net(1) s2] unmoved_run [OF winners_roster.rosters_kept(2) s3] by blast
  have same: "se_in s2 = se_in s" "w_tick (se_world s2) = w_tick (se_world s)"
  proof -
    have kept: "preserves (at_tick (\<lambda>n. n = w_tick (se_world s))) (authorize_local_roster C (cf_local_endpoint cfg) peer)"
      unfolding authorize_local_roster_def by (auto intro!: at_tick_intros)
    from s1 obtain w where w: "authorize_local_roster C (cf_local_endpoint cfg) peer (se_world s) = (Inr (), w)" "s1 = s\<lparr>se_world := w\<rparr>"
      by (auto simp: on_local_Inr)
    have "se_in s1 = se_in s" "w_tick (se_world s1) = w_tick (se_world s)"
      using preservesD [OF kept _ w(1)] w(2) by (simp_all add: at_tick_def)
    moreover have "se_in s2 = se_in s1" "se_world s2 = se_world s1"
      using s2 by (auto simp: net_call_def Let_def split: option.splits net_fault.splits prod.splits)
    ultimately show "se_in s2 = se_in s" "w_tick (se_world s2) = w_tick (se_world s)" by simp_all
  qed
  from exchange_rosters_effect [OF s3] same obtain hello roster where
    wire: "se_in s = (tag_byte Hello # sized hello) @ (tag_byte FrameTag.Roster # sized roster) @ se_in s3"
      "w_tick (se_world s3) = w_tick (se_world s) \<or> w_tick (se_world s3) = Suc (w_tick (se_world s))" by auto
  from exchange_manifests_effect [OF conjunct1 [OF before] s4 refl] obtain payload later b where
    b: "se_in s3 = (tag_byte Manifests # sized payload) @ later" "manifest_bundle_decode payload = Inr b" "records_ok C (w_state (se_world s4))"
      "winner C (w_state (se_world s4)) = merged_all C (i64_saturating_add (ev_clock E (w_tick (se_world s3)))
        (duration_ns (cf_max_future_clock_skew cfg))) (mb_manifests b) (winner C (w_state (se_world s3)))" by blast
  have "preserves (in_session (unmoved C W)) (case side of
        Dialer \<Rightarrow> bindS (send_files E C J N cfg peer shared remote) (\<lambda>_. receive_files E C J N cfg peer requests)
      | Acceptor \<Rightarrow> bindS (receive_files E C J N cfg peer requests) (\<lambda>_. send_files E C J N cfg peer shared remote))" for W
    by (auto split: ConnectionSide.split intro!: preserves_intros winners.send_kept winners.receive_kept)
  from unmoved_run [OF this s5 b(3) refl]
  have "records_ok C (w_state (se_world s')) \<and> winner C (w_state (se_world s')) = winner C (w_state (se_world s4))"
    using unmoved_run [OF in_session_close s6] by blast
  with b before wire show ?thesis
    by (intro exI [of _ hello] exI [of _ roster] exI [of _ payload] exI [of _ later] exI [of _ b] exI [of _ "w_tick (se_world s3)"]) simp
qed


section \<open>Winners only advance\<close>

definition superseded :: "crypto \<Rightarrow> Record option \<Rightarrow> Record option \<Rightarrow> bool" where
  "superseded C old new \<longleftrightarrow> new = old \<or> (\<exists>r. new = Some r \<and> wins C r old)"

lemma superseded_trans: "superseded C a b \<Longrightarrow> superseded C b c \<Longrightarrow> superseded C a c"
proof (cases a; cases b; cases c)
  fix x y z assume "superseded C a b" "superseded C b c" and [simp]: "a = Some x" "b = Some y" "c = Some z"
  then have "y = x \<or> winner_key (c_blake3 C) x < winner_key (c_blake3 C) y" "z = y \<or> winner_key (c_blake3 C) y < winner_key (c_blake3 C) z"
    by (auto simp: superseded_def wins_def)
  then show "superseded C a c" by (auto simp: superseded_def wins_def dest: less_trans)
qed (auto simp: superseded_def wins_def)

definition advanced :: "crypto \<Rightarrow> (string \<times> string \<Rightarrow> Record option) \<Rightarrow> StateStore \<Rightarrow> bool" where
  "advanced C W s \<longleftrightarrow> records_ok C s \<and> (\<forall>k. superseded C (W k) (winner C s k))"

lemma advanced_unmoved:
  assumes "\<And>V. preserves (unmoved C V) m"
  shows "preserves (advanced C W) m"
  unfolding preserves_def
proof (intro allI impI)
  fix s assume "advanced C W s"
  moreover have "unmoved C (winner C s) (snd (m s))" if "records_ok C s"
    using assms [of "winner C s"] that by (simp add: preserves_def unmoved_def)
  ultimately show "advanced C W (snd (m s))" by (simp add: advanced_def unmoved_def)
qed

interpretation progress: session_invariant "advanced C W" J C for C W J
proof unfold_locales
  show "preserves (advanced C W) (append_log J t e n)" "preserves (advanced C W) (mark_repair_required_and_log J c p t e n)"
    "preserves (advanced C W) (mark_materialized_and_log J c p installed t e n)"
    "preserves (advanced C W) (mark_tombstone_materialized_and_log J c p t e n)" "preserves (advanced C W) migrate"
    "\<forall>r \<in> set revisions. storable r \<Longrightarrow> preserves (advanced C W) (merge_selected_roster_chain C revisions)"
    "preserves (advanced C W) (apply_roster_change C identity change)" "preserves (advanced C W) (replace_peer_hint endpoint hint)"
    for t e n c p installed revisions identity change endpoint hint
    by (rule advanced_unmoved, rule winners.keeps_log winners.keeps_repair winners.keeps_installed
        winners.keeps_deleted winners.keeps_open winners_roster.keeps_roster winners_roster.keeps_change
        winners_roster.keeps_hint, assumption?)+
  show "preserves (advanced C W) (merge_record C J r t src n)" if wf: "record_wf r" for r t src n
    unfolding preserves_def
  proof (intro allI impI)
    fix s assume adv: "advanced C W s"
    obtain res s' where run: "merge_record C J r t src n s = (res, s')" by fastforce
    show "advanced C W (snd (merge_record C J r t src n s))"
    proof (cases res)
      case (Inl e)
      then have "s' = s" using run by (auto simp: merge_record_def transactionS_def split: sum.splits prod.splits)
      then show ?thesis using adv run by simp
    next
      case (Inr accepted)
      have ok: "records_ok C s" using adv by (simp add: advanced_def)
      note M = merge_record_winner [OF ok wf run [unfolded Inr]]
      have "superseded C (winner C s k) (winner C s' k)" for k
      proof -
        from M have "winner C s' k = (if k = rec_key r \<and> accepted then Some r else winner C s k)"
          "accepted = wins C r (winner C s (rec_key r))" by blast+
        then show ?thesis by (simp add: superseded_def split: if_splits)
      qed
      moreover have "superseded C (W k) (winner C s k)" for k using adv by (simp only: advanced_def)
      ultimately have "superseded C (W k) (winner C s' k)" for k using superseded_trans by blast
      moreover have "records_ok C s'" using M by blast
      ultimately show ?thesis using run by (simp only: advanced_def snd_conv simp_thms)
    qed
  qed
qed

text \<open>
  C3. However a session ends, no file is lost to it: the winner of every path is either what it was before or a record that
  beats it in the order all peers share.
\<close>

theorem session_only_advances:
  assumes "records_ok C (w_state (se_world s))"
    and "run_session_with_outcome E C J N peer side cfg s = (r, s')"
  shows "records_ok C (w_state (se_world s'))
    \<and> (\<forall>k. winner C (w_state (se_world s')) k = winner C (w_state (se_world s)) k
        \<or> (\<exists>record. winner C (w_state (se_world s')) k = Some record
             \<and> (\<forall>old. winner C (w_state (se_world s)) k = Some old \<longrightarrow> compare_winner (c_blake3 C) record old = Greater)))"
proof -
  have "advanced C (winner C (w_state (se_world s))) (w_state (se_world s'))"
    using preservesD [OF progress.session_kept [of C "winner C (w_state (se_world s))"] _ assms(2)] assms(1)
    by (simp add: in_session_def advanced_def superseded_def)
  then show ?thesis by (simp add: advanced_def superseded_def wins_compare)
qed

section \<open>Who is served\<close>

lemma migrate_roster: "migrate s = (r, s') \<Longrightarrow> roster_revisions s' = roster_revisions s"
  by (auto simp: migrate_def bindS_def transactionS_def create_tables_def bindE_def split: if_splits sum.splits)

lemma open_store_run: "open_store_file w = (r, w') \<Longrightarrow> selected_roster_chain C (w_state w') = selected_roster_chain C (w_state w)"
  using migrate_roster [of "w_state w"]
  by (auto simp: open_store_file_def wdb_def mapErrS_def db_def split: prod.splits intro!: selected_chain_cong)

text \<open>
  C7. A peer that the selected roster does not list, or a device it no longer lists itself, gets nothing: the session fails
  before a byte is sent or read.
\<close>

theorem stranger_refused:
  assumes "selected_roster_chain C (w_state (se_world s)) = Inr chain"
    and "chain = [] \<or> \<not> is_member (last chain) peer \<or> \<not> is_member (last chain) (cf_local_endpoint cfg)"
  shows "\<exists>e s'. run_session_with_outcome E C J N peer side cfg s = (Inl e, s')
    \<and> se_out s' = se_out s \<and> se_in s' = se_in s \<and> w_tree (se_world s') = w_tree (se_world s)
    \<and> (fst (migrate (w_state (se_world s))) = Inr () \<longrightarrow> e = (if chain = [] then MissingRoster else UnauthorizedPeer))"
proof -
  obtain r w where w: "open_store_file (se_world s) = (r, w)" by fastforce
  have same: "w_tree w = w_tree (se_world s)" "fst (migrate (w_state (se_world s))) = Inr () \<longleftrightarrow> r = Inr ()"
    using w by (auto simp: open_store_file_def wdb_def mapErrS_def db_def split: prod.splits sum.splits)
  have chain: "wquery (selected_roster_chain C) w = (Inr chain, w)"
    using open_store_run [OF w] assms(1) by (simp add: wquery_Inr)
  have "\<exists>e. authorize_local_roster C (cf_local_endpoint cfg) peer (se_world s) = (Inl e, w)
      \<and> (r = Inr () \<longrightarrow> e = (if chain = [] then MissingRoster else UnauthorizedPeer))"
    using assms(2) w chain
    by (cases r) (auto simp: authorize_local_roster_def bindS_def tip_of_def)
  then show ?thesis
    using same by (auto simp: run_session_with_outcome_def bindS_def on_local_def)
qed

end
