(* ===== verification/Sync_Requests.thy ===== *)
theory Sync_Requests
  imports Sync_Effects Scanner_Completion Installer_Safety
begin

text \<open>What a session asks for, what it accepts, and who it lists as a member when it starts to send manifests.\<close>

section \<open>The files to ask for\<close>

definition needed_in :: "crypto \<Rightarrow> i64 \<Rightarrow> StateStore \<Rightarrow> string \<times> Manifest \<Rightarrow> FileRequest set" where
  "needed_in C limit s e = {FileRequest (fst e) (as_str (r_path r)) (record_canonical_hash (c_blake3 C) r) | r.
     r \<in> set (m_records (snd e)) \<and> sint (r_modified_ns r) \<le> sint limit \<and> r_kind r \<noteq> RecordKind.Tombstone
     \<and> (\<exists>v. state_of C s (fst e) (as_str (r_path r)) = Some v \<and> ps_record v = r \<and> \<not> ps_materialized v)}"

definition needed :: "crypto \<Rightarrow> i64 \<Rightarrow> (string \<times> Manifest) list \<Rightarrow> StateStore \<Rightarrow> FileRequest set" where
  "needed C limit es s = (\<Union>e \<in> set es. needed_in C limit s e)"

definition requested_bytes :: "crypto \<Rightarrow> StateStore \<Rightarrow> FileRequest \<Rightarrow> nat" where
  "requested_bytes C s q = (case winner C s (fr_collection q, fr_path q) of
     Some r \<Rightarrow> (case r_kind r of RecordKind.File len h \<Rightarrow> unat len | RecordKind.Tombstone \<Rightarrow> 0) | None \<Rightarrow> 0)"

lemma set_map_filter: "set (List.map_filter f xs) = {y. \<exists>x \<in> set xs. f x = Some y}"
  by (force simp: List.map_filter_def)

lemma sorted_distinct_remdups_adj: "sorted (xs :: 'a :: linorder list) \<Longrightarrow> distinct (remdups_adj xs)"
  by (induction xs rule: remdups_adj.induct) (auto simp: less_le)

lemma same_option: "(\<And>v. a = Some v \<longleftrightarrow> b = Some v) \<Longrightarrow> a = b"
  by (cases a; cases b) auto

lemma missing_file_needed:
  assumes ok: "records_ok C s" and cur: "record_states C c s = Inr current"
  shows "missing_file C limit c (om_of_list (map (\<lambda>v. (r_path (ps_record v), v)) current)) r = Some q
    \<longleftrightarrow> q = FileRequest c (as_str (r_path r)) (record_canonical_hash (c_blake3 C) r) \<and> sint (r_modified_ns r) \<le> sint limit
      \<and> r_kind r \<noteq> RecordKind.Tombstone \<and> (\<exists>v. state_of C s c (as_str (r_path r)) = Some v \<and> ps_record v = r \<and> \<not> ps_materialized v)"
proof -
  note faithful = record_states_faithful [OF ok cur]
  have "distinct (map (as_str \<circ> r_path \<circ> ps_record) current)" using faithful(1) by (simp add: comp_def)
  then have "distinct (map (\<lambda>v. r_path (ps_record v)) current)" by (simp add: distinct_map inj_on_def)
  then have get: "om_get (om_of_list (map (\<lambda>v. (r_path (ps_record v), v)) current)) p = map_of (map (\<lambda>v. (r_path (ps_record v), v)) current) p" for p
    by (intro om_of_list_get) (simp add: comp_def)
  have "map_of (map (\<lambda>v. (r_path (ps_record v), v)) current) p = Some v \<longleftrightarrow> v \<in> set current \<and> r_path (ps_record v) = p" for p v
    using \<open>distinct (map (\<lambda>v. r_path (ps_record v)) current)\<close> by (auto simp: map_of_eq_Some_iff comp_def)
  moreover have "v \<in> set current \<and> r_path (ps_record v) = p \<longleftrightarrow> state_of C s c (as_str p) = Some v" for p v
    unfolding record_state_known(1) [OF ok cur] by (auto intro: ProtocolPath.expand)
  ultimately have states: "om_get (om_of_list (map (\<lambda>v. (r_path (ps_record v), v)) current)) p = state_of C s c (as_str p)" for p
    unfolding get by (intro same_option) simp
  show ?thesis
  proof (cases "state_of C s c (as_str (r_path r))")
    case (Some v)
    then show ?thesis unfolding missing_file_def states by (simp only: option.case option.inject not_less [symmetric]) (simp; blast)
  qed (simp add: missing_file_def states)
qed

lemma select_requests_prefix:
  assumes ok: "records_ok C s" and run: "select_requests C s requests selected n = Inr rs"
    and files: "\<forall>q \<in> set requests. \<exists>r len h. winner C s (fr_collection q, fr_path q) = Some r \<and> r_kind r = RecordKind.File len h"
    and start: "length selected \<le> MAX_TRANSFERS" "unat n \<le> unat MAX_SESSION_FILE_BYTES"
  shows "\<exists>taken left. requests = taken @ left \<and> rs = selected @ taken \<and> length rs \<le> MAX_TRANSFERS
    \<and> unat n + (\<Sum>q \<leftarrow> taken. requested_bytes C s q) \<le> unat MAX_SESSION_FILE_BYTES
    \<and> (left = [] \<or> length rs = MAX_TRANSFERS
        \<or> unat MAX_SESSION_FILE_BYTES < unat n + (\<Sum>q \<leftarrow> taken. requested_bytes C s q) + requested_bytes C s (hd left))"
  using run files start
proof (induction requests arbitrary: selected n)
  case (Cons q requests)
  obtain r len h where r: "winner C s (fr_collection q, fr_path q) = Some r" "r_kind r = RecordKind.File len h"
    using Cons.prems(2) by auto
  have look: "lookup_record C (fr_collection q) (fr_path q) s = Inr (Some r)"
    using load_record_ok(1) [OF ok, of "(fr_collection q, fr_path q)"] r(1) by (simp add: lookup_record_def)
  have bytes: "requested_bytes C s q = unat len" using r by (simp add: requested_bytes_def)
  show ?case
  proof (cases "length selected = MAX_TRANSFERS")
    case True
    then show ?thesis using Cons.prems by (intro exI [of _ "[]"] exI [of _ "q # requests"]) auto
  next
    case room: False
    show ?thesis
    proof (cases "unat n + unat len \<le> unat MAX_SESSION_FILE_BYTES")
      case False
      then have "select_requests C s (q # requests) selected n = Inr selected"
        using room look r(2) unat_add_lem [of n len]
        by (cases "unat n + unat len < 2 ^ 64") (auto simp: u64_checked_add_def word_less_nat_alt)
      then show ?thesis using Cons.prems False bytes by (intro exI [of _ "[]"] exI [of _ "q # requests"]) auto
    next
      case True
      have sum: "unat (n + len) = unat n + unat len" "unat n + unat len < 2 ^ 64"
        using True unat_add_lem [of n len] by (auto simp: MAX_SESSION_FILE_BYTES_def)
      then have "select_requests C s requests (selected @ [q]) (n + len) = Inr rs"
        using Cons.prems(1) room look r(2) True by (simp add: u64_checked_add_def word_less_nat_alt)
      from Cons.IH [OF this] obtain taken left where "requests = taken @ left" "rs = (selected @ [q]) @ taken"
          "length rs \<le> MAX_TRANSFERS" "unat (n + len) + (\<Sum>q \<leftarrow> taken. requested_bytes C s q) \<le> unat MAX_SESSION_FILE_BYTES"
          "left = [] \<or> length rs = MAX_TRANSFERS
            \<or> unat MAX_SESSION_FILE_BYTES < unat (n + len) + (\<Sum>q \<leftarrow> taken. requested_bytes C s q) + requested_bytes C s (hd left)"
        using Cons.prems(2,3) room True sum by auto
      then show ?thesis using sum bytes by (intro exI [of _ "q # taken"] exI [of _ left]) (auto simp: add.assoc)
    qed
  qed
qed auto

text \<open>
  C9. What a device asks its peer for: the files it needs are the winners the peer offered that are not from the future and
  not yet on its disk, and it asks for them in order, for as many as fit in one session and for no other.
\<close>

theorem requests_chosen:
  assumes "records_ok C s" and "choose_requests C limit bundle s = Inr requests"
  shows "\<exists>left. sorted (requests @ left) \<and> distinct (requests @ left)
    \<and> set (requests @ left) = needed C limit (mb_manifests bundle) s
    \<and> length requests \<le> MAX_TRANSFERS \<and> (\<Sum>q \<leftarrow> requests. requested_bytes C s q) \<le> unat MAX_SESSION_FILE_BYTES
    \<and> (left = [] \<or> length requests = MAX_TRANSFERS
        \<or> unat MAX_SESSION_FILE_BYTES < (\<Sum>q \<leftarrow> requests. requested_bytes C s q) + requested_bytes C s (hd left))"
proof -
  let ?es = "mb_manifests bundle"
  from assms(2) obtain lists where lists: "map_result (missing_files C limit s) ?es = Inr lists"
    and sel: "select_requests C s (remdups_adj (sort (concat lists))) [] 0 = Inr requests"
    by (auto simp: choose_requests_def bindE_eq_Inr)
  define qs where "qs = remdups_adj (sort (concat lists))"
  have "list_all2 (\<lambda>e qs. set qs = needed_in C limit s e) ?es lists"
    using lists unfolding map_result_eq_Inr
  proof (rule list.rel_mono_strong)
    fix e qs assume "missing_files C limit s e = Inr qs"
    then obtain current where cur: "record_states C (fst e) s = Inr current"
      and qs: "qs = List.map_filter (missing_file C limit (fst e) (om_of_list (map (\<lambda>v. (r_path (ps_record v), v)) current)))
        (m_records (snd e))"
      by (cases e) (auto simp: missing_files_def bindE_eq_Inr)
    show "set qs = needed_in C limit s e"
      unfolding qs set_map_filter missing_file_needed [OF assms(1) cur] needed_in_def by blast
  qed
  then have "set (concat lists) = needed C limit ?es s"
by (induction rule: list_all2_induct) (simp_all add: needed_def)
  then have qs: "set qs = needed C limit ?es s" "sorted qs" "distinct qs"
    by (simp_all add: qs_def sorted_remdups_adj sorted_distinct_remdups_adj)
  have "\<exists>r len h. winner C s (fr_collection q, fr_path q) = Some r \<and> r_kind r = RecordKind.File len h" if "q \<in> set qs" for q
  proof -
    from that obtain e r v where q: "q = FileRequest (fst e) (as_str (r_path r)) (record_canonical_hash (c_blake3 C) r)"
        "r_kind r \<noteq> RecordKind.Tombstone" "state_of C s (fst e) (as_str (r_path r)) = Some v" "ps_record v = r"
      by (auto simp: qs(1) needed_def needed_in_def)
    then have "winner C s (fr_collection q, fr_path q) = Some r" by (simp add: state_winner [OF assms(1)])
    then show ?thesis using q(2) by (cases "r_kind r") auto
  qed
  with select_requests_prefix [OF assms(1) sel [folded qs_def]] obtain left where "qs = requests @ left"
      "length requests \<le> MAX_TRANSFERS" "(\<Sum>q \<leftarrow> requests. requested_bytes C s q) \<le> unat MAX_SESSION_FILE_BYTES"
      "left = [] \<or> length requests = MAX_TRANSFERS
        \<or> unat MAX_SESSION_FILE_BYTES < (\<Sum>q \<leftarrow> requests. requested_bytes C s q) + requested_bytes C s (hd left)"
    by auto
  then show ?thesis using qs by (intro exI [of _ left]) auto
qed

section \<open>The files received\<close>

text \<open>
  What holds while nothing has been written to the disk: \<open>T\<close> is the file tree, \<open>K\<close> the collections and \<open>W\<close> the
  winners at the start.
\<close>

definition untouched ::
  "crypto \<Rightarrow> tree \<Rightarrow> (string, collection_row) omap \<Rightarrow> (string \<times> string \<Rightarrow> Record option) \<Rightarrow> world \<Rightarrow> bool" where
  "untouched C T K W w \<longleftrightarrow> unmoved C W (w_state w) \<and> t_collections (w_state w) = K \<and> w_tree w = T"

abbreviation untouched_in ::
  "crypto \<Rightarrow> tree \<Rightarrow> (string, collection_row) omap \<Rightarrow> (string \<times> string \<Rightarrow> Record option) \<Rightarrow> session \<Rightarrow> bool" where
  "untouched_in C T K W s \<equiv> untouched C T K W (se_world s)"

lemma untouched_local: "triple (untouched C T K W) m Q \<Longrightarrow> triple (untouched_in C T K W) (on_local m) (\<lambda>r s. Q r (se_world s))"
  by (auto simp: triple_def on_local_def split: prod.splits)

lemma untouched_in_local: "preserves (untouched C T K W) m \<Longrightarrow> preserves (untouched_in C T K W) (on_local m)"
  by (auto simp: preserves_def on_local_def case_prod_beta)

lemma untouched_wdb:
  "preserves (unmoved C W) m \<Longrightarrow> preserves (\<lambda>s. t_collections s = K) m \<Longrightarrow> preserves (untouched C T K W) (wdb m)"
  by (auto simp: preserves_def untouched_def wdb_def mapErrS_def db_def split: prod.splits)

lemma collections_unchanged:
  "preserves (\<lambda>s. t_collections s = K) migrate" "preserves (\<lambda>s. t_collections s = K) (append_log J t e n)"
  "preserves (\<lambda>s. t_collections s = K) (mark_repair_required_and_log J c p t e n)"
proof -
  show "preserves (\<lambda>s. t_collections s = K) migrate"
    unfolding migrate_def queryS_def
    by (auto intro!: preserves_intros preserves_transactionS simp: bindE_eq_Inr create_tables_def split: if_splits)
       (auto simp: preserves_def)
  show "preserves (\<lambda>s. t_collections s = K) (append_log J t e n)"
    unfolding append_log_def by (rule preserves_transactionS) (auto simp: bindE_eq_Inr insert_log_frame)
  show "preserves (\<lambda>s. t_collections s = K) (mark_repair_required_and_log J c p t e n)"
    unfolding mark_repair_required_and_log_def
    by (rule preserves_transactionS)
      (auto simp: bindE_eq_Inr insert_log_frame update_path_records_def split: if_splits)
qed

lemma untouched_simple [preserves_intros]:
  "preserves (untouched C T K W) (wquery q)" "preserves (untouched C T K W) open_store_file"
  "preserves (untouched C T K W) (now_ns E)" "preserves (untouched C T K W) (io_noop E)"
  by (simp add: preserves_def untouched_def wquery_def wdb_def mapErrS_def db_def)
    (unfold open_store_file_def, rule untouched_wdb [OF winners.keeps_open collections_unchanged(1)],
     auto simp: preserves_def untouched_def now_ns_def io_noop_def io_read_def io_def Let_def split: option.split)

lemma untouched_log [preserves_intros]:
  "preserves (untouched C T K W) (log_event E J cfg event)"
  "preserves (untouched C T K W) (log_unavailable_in E J cfg peer request repair)"
  "preserves (untouched C T K W) (log_unavailable E J cfg peer request repair)"
  unfolding log_event_def log_unavailable_in_def log_unavailable_def Let_def
  by (auto intro!: preserves_intros untouched_wdb winners.keeps_log winners.keeps_repair collections_unchanged)

text \<open>The same with what is left of the input.\<close>

definition at_input ::
  "crypto \<Rightarrow> tree \<Rightarrow> (string, collection_row) omap \<Rightarrow> (string \<times> string \<Rightarrow> Record option) \<Rightarrow> byte list \<Rightarrow> session \<Rightarrow> bool" where
  "at_input C T K W bs s \<longleftrightarrow> untouched C T K W (se_world s) \<and> se_in s = bs"

lemma at_input_tree: "at_input C T K W bs s \<Longrightarrow> w_tree (se_world s) = T"
  by (simp add: at_input_def untouched_def)

lemma at_input_local [preserves_intros]:
  "preserves (untouched C T K W) m \<Longrightarrow> preserves (at_input C T K W bs) (on_local m)"
  by (auto simp: preserves_def at_input_def on_local_def case_prod_beta)

lemma at_input_net [preserves_intros]: "preserves (at_input C T K W bs) (net_call N t f)"
  by (auto simp: preserves_def at_input_def net_call_def Let_def split: option.split net_fault.split prod.split)

lemma kept_bind:
  assumes "preserves P m" and "\<And>e s. P s \<Longrightarrow> Q (Inl e) s" and "\<And>a. triple P (f a) Q"
  shows "triple P (bindS m f) Q"
  using assms unfolding triple_preserves by (rule triple_bindS)

text \<open>An action that keeps its precondition and returns only values with a property.\<close>

abbreviation returns_only :: "('s \<Rightarrow> bool) \<Rightarrow> ('s, 'e, 'a) action \<Rightarrow> ('a \<Rightarrow> bool) \<Rightarrow> bool" where
  "returns_only P m F \<equiv> triple P m (\<lambda>r s. P s \<and> (\<forall>a. r = Inr a \<longrightarrow> F a))"

lemma returns_only_bind:
  assumes "returns_only P m F" and "\<And>e s. P s \<Longrightarrow> Q (Inl e) s" and "\<And>a. F a \<Longrightarrow> triple P (f a) Q"
  shows "triple P (bindS m f) Q"
proof (rule triple_bindS [OF assms(1)])
  show "triple (\<lambda>s. P s \<and> (\<forall>b. Inr a = Inr b \<longrightarrow> F b)) (f a) Q" for a
    using assms(3) [of a] by (cases "F a") (auto simp: triple_def)
qed (simp add: assms(2))

lemma decoded_bind:
  assumes "\<And>e s. P s \<Longrightarrow> Q (Inl e) s" and "\<And>a. r = Inr a \<Longrightarrow> triple P (f a) Q"
  shows "triple P (bindS (liftS (mapErr g r)) f) Q"
  using assms by (cases r) (simp_all add: triple_def bindS_def)

text \<open>An action that takes its result from the front of the input.\<close>

definition takes ::
  "crypto \<Rightarrow> tree \<Rightarrow> (string, collection_row) omap \<Rightarrow> (string \<times> string \<Rightarrow> Record option) \<Rightarrow> 'a session_action
     \<Rightarrow> (byte list \<Rightarrow> 'a \<Rightarrow> bool) \<Rightarrow> bool" where
  "takes C T K W m F \<longleftrightarrow> (\<forall>bs. triple (at_input C T K W bs) m
     (\<lambda>r s. untouched_in C T K W s \<and> (\<forall>a. r = Inr a \<longrightarrow> (\<exists>got. bs = got @ se_in s \<and> F got a))))"

lemma takes_bind:
  assumes "takes C T K W m F" and "\<And>e s. untouched_in C T K W s \<Longrightarrow> Q (Inl e) s"
    and "\<And>a got left. bs = got @ left \<Longrightarrow> F got a \<Longrightarrow> triple (at_input C T K W left) (f a) Q"
  shows "triple (at_input C T K W bs) (bindS m f) Q"
proof (rule tripleI)
  fix s r s' assume s: "at_input C T K W bs s" and run: "bindS m f s = (r, s')"
  obtain r1 s1 where 1: "m s = (r1, s1)" by fastforce
  have t: "triple (at_input C T K W bs) m
      (\<lambda>r s. untouched_in C T K W s \<and> (\<forall>a. r = Inr a \<longrightarrow> (\<exists>got. bs = got @ se_in s \<and> F got a)))"
    using assms(1) by (simp add: takes_def)
  have R: "untouched_in C T K W s1 \<and> (\<forall>a. r1 = Inr a \<longrightarrow> (\<exists>got. bs = got @ se_in s1 \<and> F got a))"
    using tripleD [OF t s 1] .
  show "Q r s'"
  proof (cases r1)
    case (Inl e)
    with 1 run R assms(2) show ?thesis by (auto simp: bindS_def)
  next
    case (Inr a)
    with R obtain got where got: "bs = got @ se_in s1" "F got a" by blast
    from 1 run Inr have "f a s1 = (r, s')" by (simp add: bindS_def)
    then show ?thesis by (rule tripleD [OF assms(3) [OF got], rotated]) (use R in \<open>simp add: at_input_def\<close>)
  qed
qed

lemma takes_read_frame: "takes C T K W (read_frame N) (\<lambda>got (tag, p). got = tag_byte tag # sized p)"
  unfolding takes_def read_frame_def
  by (intro allI, rule kept_bind [OF at_input_net], simp add: at_input_def)
    (auto simp: triple_def at_input_def read_frame_async_Inr decode_frame_Inr split: sum.splits)

lemma takes_exact: "takes C T K W (net_read_exact N k) (\<lambda>got bs. bs = got \<and> length got = k)"
  unfolding takes_def net_read_exact_def
  by (intro allI, rule kept_bind [OF at_input_net], simp add: at_input_def) (auto simp: triple_def at_input_def)

lemma noop_kept: "preserves (at_input C T K W bs) (on_local (mapErrS SyncError.Io (io_noop E)))"
  by (intro preserves_intros)

lemma takes_chunks: "takes C T K W (receive_chunks E N content k) (\<lambda>got a. a = content @ got \<and> length got = k)"
proof (induction k arbitrary: content rule: less_induct)
  case (less k)
  show ?case
  proof (cases "k = 0")
    case True
    then show ?thesis by (subst receive_chunks.simps) (auto simp: takes_def at_input_def triple_def)
  next
    case False
    let ?n = "min k (64 * 1024)"
    show ?thesis
      unfolding takes_def
    proof
      fix bs
      let ?Q = "\<lambda>r s. untouched_in C T K W s \<and> (\<forall>a. r = Inr a \<longrightarrow> (\<exists>got. bs = got @ se_in s \<and> a = content @ got \<and> length got = k))"
      have "triple (at_input C T K W bs) (bindS (net_read_exact N ?n) (\<lambda>chunk.
         bindS (on_local (mapErrS SyncError.Io (io_noop E))) (\<lambda>_. receive_chunks E N (content @ chunk) (k - ?n)))) ?Q"
      proof (rule takes_bind [OF takes_exact])
        fix a got left assume got: "bs = got @ left" "a = got \<and> length got = ?n"
        show "triple (at_input C T K W left) (bindS (on_local (mapErrS SyncError.Io (io_noop E)))
           (\<lambda>_. receive_chunks E N (content @ a) (k - ?n))) ?Q"
        proof (rule kept_bind [OF noop_kept])
          have "takes C T K W (receive_chunks E N (content @ a) (k - ?n))
             (\<lambda>got' b. b = (content @ a) @ got' \<and> length got' = k - ?n)"
            using less.IH [of "k - ?n" "content @ a"] False by (simp del: append_assoc)
          then have "triple (at_input C T K W left) (receive_chunks E N (content @ a) (k - ?n))
            (\<lambda>r s. untouched_in C T K W s \<and> (\<forall>b. r = Inr b \<longrightarrow>
               (\<exists>got'. left = got' @ se_in s \<and> b = (content @ a) @ got' \<and> length got' = k - ?n)))"
            unfolding takes_def by blast
          then show "triple (at_input C T K W left) (receive_chunks E N (content @ a) (k - ?n)) ?Q"
            by (rule triple_weaken) (use got in auto)
        qed (simp add: at_input_def)
      qed simp
      then show "triple (at_input C T K W bs) (receive_chunks E N content k) ?Q"
        using False by (subst receive_chunks.simps) (simp add: Let_def)
    qed
  qed
qed

lemma takes_raw_file:
  "takes C T K W (receive_raw_file E C N n h) (\<lambda>got content. content = got \<and> length got = n \<and> c_blake3 C got = h)"
  unfolding takes_def receive_raw_file_def
proof
  fix bs
  show "triple (at_input C T K W bs) (bindS (receive_chunks E N [] n) (\<lambda>content. if c_blake3 C content \<noteq> h then throwS CorruptFile
      else bindS (on_local (mapErrS SyncError.Io (io_noop E))) (\<lambda>_. returnS content)))
    (\<lambda>r s. untouched_in C T K W s \<and> (\<forall>a. r = Inr a \<longrightarrow> (\<exists>got. bs = got @ se_in s \<and> a = got \<and> length got = n \<and> c_blake3 C got = h)))"
    by (rule takes_bind [OF takes_chunks]) (auto simp: at_input_def intro!: kept_bind [OF noop_kept] triple_pure)
qed

section \<open>The file installed\<close>

text \<open>
  The disk after a file with this content was installed for a record under \<open>path\<close>: no file that was there is
  written to, what is new is a file or a directory, and every entry is kept except the record's destination, which
  may now be a file with this content.
\<close>

definition installed_under :: "env \<Rightarrow> os_path \<Rightarrow> Record \<Rightarrow> byte list \<Rightarrow> tree \<Rightarrow> tree \<Rightarrow> bool" where
  "installed_under E path record content T T' \<longleftrightarrow> (\<forall>i fd. file_of T i = Some fd \<longrightarrow> file_of T' i = Some fd)
     \<and> (\<forall>d n e. slot E T' d n = Some e \<longrightarrow> slot E T d n = Some e \<or> new_entry T e)
     \<and> (\<forall>d n e. slot E T d n = Some e \<longrightarrow> slot E T' d n = Some e
          \<or> (\<exists>t q root. ev_root E t path = Inr (q, root) \<and> walk_to E T root (parent_relative record) = Inr d)
            \<and> ev_key E n = ev_key E (file_name record)
            \<and> (\<exists>i fd. slot E T' d (file_name record) = Some (Regular i) \<and> file_of T' i = Some fd \<and> fd_bytes fd = content))"

lemma install_file_tree:
  assumes "tree_wf (w_tree w)" and "honest E" and "no_temporary E record" and "r_kind record = RecordKind.File len h"
    and "length content = unat len" and "install_file_with_hook E C path record content (\<lambda>_. returnS ()) w = (r, w')"
  shows "installed_under E path record content (w_tree w) (w_tree w')"
proof -
  have effect: "install_effect E C path content record len h w r w'"
    using install_file_effect [OF assms(2) quiet_return assms(4,3)] extends_refl [OF assms(1)] assms(6) by (rule tripleD)
  from effect obtain p where inst: "installs E C content record len h p w w'" unfolding install_effect_def by blast
  have all: "take (unat len) content = content" using assms(5) by simp
  have "\<exists>i fd. slot E (w_tree w') d (file_name record) = Some (Regular i) \<and> file_of (w_tree w') i = Some fd \<and> fd_bytes fd = content"
    if "replaced E C content record len h d w'" for d
    using that unfolding replaced_def verified_def all by blast
  with install_effect_kept [OF effect] have "\<forall>d n e. slot E (w_tree w) d n = Some e \<longrightarrow> slot E (w_tree w') d n = Some e
      \<or> (\<exists>t q root. ev_root E t path = Inr (q, root) \<and> walk_to E (w_tree w) root (parent_relative record) = Inr d)
        \<and> ev_key E n = ev_key E (file_name record)
        \<and> (\<exists>i fd. slot E (w_tree w') d (file_name record) = Some (Regular i) \<and> file_of (w_tree w') i = Some fd \<and> fd_bytes fd = content)"
    by blast
  with inst show ?thesis unfolding installed_under_def installs_def by (elim conjE) (intro conjI)
qed

definition same_tree :: "tree \<Rightarrow> world \<Rightarrow> bool" where
  "same_tree T w \<longleftrightarrow> w_tree w = T"

lemma same_tree_calls: "preserves (same_tree T) (now_ns E)" "preserves (same_tree T) (db m)"
  by (simp_all add: preserves_def same_tree_def now_ns_def db_def case_prod_beta)

lemmas same_tree_intros = preserves_bindS preserves_mapErrS same_tree_calls preserves_pure

lemma same_tree_log: "preserves (same_tree T) (log_event E J cfg event)"
  unfolding log_event_def wdb_def by (intro same_tree_intros)

lemma fixture_tree:
  assumes "apply_file_fixture E C J path record content n w = (r, w')"
  shows "\<exists>r1 w1. install_file_with_hook E C path record content (\<lambda>_. returnS ()) w = (r1, w1) \<and> w_tree w' = w_tree w1"
proof -
  obtain r1 w1 where 1: "install_file_with_hook E C path record content (\<lambda>_. returnS ()) w = (r1, w1)" by fastforce
  obtain f where f: "f r1 w1 = (r, w')" "preserves (same_tree (w_tree w1)) (f r1)"
  proof
    let ?mark = "\<lambda>installed event. bindS (now_ns E) (\<lambda>now. mapErrS (PostRenameState installed) (db (mark_materialized_and_log J
       (r_collection record) (as_str (r_path record)) \<lparr>mf_resolved_root = if_resolved_root installed, mf_fingerprint = if_fingerprint installed\<rparr>
       now event n)))"
    let ?f = "\<lambda>r. case r of
         Inr installed \<Rightarrow> bindS (?mark installed (FileInstalled (r_collection record) (r_path record))) (\<lambda>_. returnS installed)
       | Inl (PostRenameDurability installed e) \<Rightarrow>
           bindS (?mark installed (FileApplyRejected (r_collection record) (r_path record))) (\<lambda>_. throwS (PostRenameDurability installed e))
       | Inl InstallError.UnstableRoot \<Rightarrow> throwS InstallError.UnstableRoot
       | Inl e \<Rightarrow>
           bindS (now_ns E) (\<lambda>now.
           bindS (mapErrS InstallError.State (db (mark_repair_required_and_log J (r_collection record) (as_str (r_path record)) now
             (FileApplyRejected (r_collection record) (r_path record)) n))) (\<lambda>_.
           throwS e))"
    show "?f r1 w1 = (r, w')"
      using assms 1 by (simp add: apply_file_fixture_def apply_file_fixture_with_hook_def Let_def catchS_def)
    show "preserves (same_tree (w_tree w1)) (?f r1)"
      by (cases r1 rule: sum.exhaust)
        (auto split: InstallError.split intro!: same_tree_intros)
  qed
  then have "same_tree (w_tree w1) w'" using preservesD [OF f(2) _ f(1)] by (simp add: same_tree_def)
  with 1 show ?thesis by (auto simp: same_tree_def)
qed

lemma named_collection:
  "returns_only (untouched C T K W) (wquery (collection_named c))
     (\<lambda>found. \<forall>cs. found = Some cs \<longrightarrow> (\<exists>row. om_get K c = Some row \<and> cs_local_path cs = row_local_path row))"
proof (rule tripleI)
  fix w r w' assume w: "untouched C T K W w" and run: "wquery (collection_named c) w = (r, w')"
  have "untouched C T K W w'" using preservesD [OF untouched_simple(1) w run] .
  moreover have "\<exists>row. om_get K c = Some row \<and> cs_local_path cs = row_local_path row" if "r = Inr (Some cs)" for cs
    using that run w
    by (auto simp: wquery_Inr collection_named_def decode_collection_def bindE_eq_Inr untouched_def split: option.splits)
  ultimately show "untouched C T K W w' \<and> (\<forall>found. r = Inr found \<longrightarrow> (\<forall>cs. found = Some cs \<longrightarrow>
      (\<exists>row. om_get K c = Some row \<and> cs_local_path cs = row_local_path row)))" by blast
qed

text \<open>What receiving a file may do to the disk, for the record announced and the bytes that followed it.\<close>

definition landed :: "env \<Rightarrow> crypto \<Rightarrow> tree \<Rightarrow> (string, collection_row) omap \<Rightarrow> (string \<times> string \<Rightarrow> Record option) \<Rightarrow>
    FileRequest \<Rightarrow> Record \<Rightarrow> byte list \<Rightarrow> tree \<Rightarrow> bool" where
  "landed E C T K W request record content T' \<longleftrightarrow> W (fr_collection request, fr_path request) = Some record
     \<and> record_canonical_hash (c_blake3 C) record = fr_record_hash request
     \<and> (\<exists>len h. r_kind record = RecordKind.File len h \<and> length content = unat len \<and> c_blake3 C content = h)
     \<and> (\<exists>row. om_get K (fr_collection request) = Some row
         \<and> installed_under E (row_local_path row) record content T T')"

lemma apply_received_lands:
  assumes wf: "tree_wf T" "honest E" "no_temporary E record" and kind: "r_kind record = RecordKind.File len h"
    and content: "length content = unat len" "c_blake3 C content = h"
    and hash: "record_canonical_hash (c_blake3 C) record = fr_record_hash request"
  shows "triple (untouched C T K W) (apply_received E C J cfg peer request record content)
    (\<lambda>r w. w_tree w = T \<or> landed E C T K W request record content (w_tree w))"
proof -
  let ?P = "untouched C T K W"
  let ?Q = "\<lambda>(r :: SyncError + unit) w. w_tree w = T \<or> landed E C T K W request record content (w_tree w)"
  have err: "?Q r w" if "?P w" for r w using that by (simp add: untouched_def)
  have kept: "triple ?P m ?Q" if "preserves ?P m" for m
    using that unfolding triple_preserves by (rule triple_weaken) (auto simp: untouched_def)
  have io: "preserves ?P (mapErrS SyncError.Io (io_noop E))" by (intro preserves_intros)
  have look: "returns_only ?P (wquery (lookup_record C (fr_collection request) (fr_path request)))
      (\<lambda>known. known = W (fr_collection request, fr_path request))"
  proof (rule tripleI)
    fix w r w' assume w: "?P w" and run: "wquery (lookup_record C (fr_collection request) (fr_path request)) w = (r, w')"
    have "?P w'" using preservesD [OF untouched_simple(1) w run] .
    moreover have "known = W (fr_collection request, fr_path request)" if "r = Inr known" for known
      using w run that load_record_ok(1) [of C "w_state w" "(fr_collection request, fr_path request)"]
      by (auto simp: wquery_Inr untouched_def unmoved_def lookup_record_def)
    ultimately show "?P w' \<and> (\<forall>known. r = Inr known \<longrightarrow> known = W (fr_collection request, fr_path request))" by simp
  qed
  have install: "triple ?P (catchS (apply_file_fixture E C J (cs_local_path cs) record content (cf_max_logs cfg)) (\<lambda>r. case r of
             Inl e \<Rightarrow>
               if is_apply_failure e
               then catchS (log_event E J cfg (FileApplyRejected (fr_collection request) (r_path record))) (\<lambda>_. returnS ())
               else returnS ()
           | Inr _ \<Rightarrow> log_event E J cfg (FileReceived (fr_collection request) (r_path record) peer))) ?Q"
    if won: "W (fr_collection request, fr_path request) = Some record"
      and named: "\<exists>row. om_get K (fr_collection request) = Some row \<and> cs_local_path cs = row_local_path row" for cs
  proof (rule tripleI)
    from named obtain row where row: "om_get K (fr_collection request) = Some row" "cs_local_path cs = row_local_path row" by blast
    fix w r w' assume w: "?P w" and run: "catchS (apply_file_fixture E C J (cs_local_path cs) record content (cf_max_logs cfg)) (\<lambda>r. case r of
             Inl e \<Rightarrow>
               if is_apply_failure e
               then catchS (log_event E J cfg (FileApplyRejected (fr_collection request) (r_path record))) (\<lambda>_. returnS ())
               else returnS ()
           | Inr _ \<Rightarrow> log_event E J cfg (FileReceived (fr_collection request) (r_path record) peer)) w = (r, w')"
    obtain r1 w1 where 1: "apply_file_fixture E C J (cs_local_path cs) record content (cf_max_logs cfg) w = (r1, w1)" by fastforce
    have "preserves (same_tree (w_tree w1)) (case r1 of
             Inl e \<Rightarrow>
               if is_apply_failure e
               then catchS (log_event E J cfg (FileApplyRejected (fr_collection request) (r_path record))) (\<lambda>_. returnS ())
               else returnS ()
           | Inr _ \<Rightarrow> log_event E J cfg (FileReceived (fr_collection request) (r_path record) peer))"
      by (cases r1) (auto intro!: preserves_catchS same_tree_log preserves_pure)
    from preservesD [OF this, of w1 r w'] have "w_tree w' = w_tree w1"
      using run 1 by (simp add: catchS_def same_tree_def)
    moreover obtain r2 w2 where 2: "install_file_with_hook E C (cs_local_path cs) record content (\<lambda>_. returnS ()) w = (r2, w2)"
        "w_tree w1 = w_tree w2"
      using fixture_tree [OF 1] by blast
    moreover have "w_tree w = T" using w by (simp add: untouched_def)
    ultimately have "installed_under E (row_local_path row) record content T (w_tree w')"
      using install_file_tree [OF _ wf(2,3) kind content(1) 2(1)] wf(1) row(2) by simp
    then show "?Q r w'" using won row(1) kind content hash by (simp add: landed_def)
  qed
  show ?thesis
    unfolding apply_received_def Let_def
    by (intro kept_bind [OF io] kept_bind [OF untouched_simple(2)] returns_only_bind [OF look])
      (auto intro!: err returns_only_bind [OF named_collection] kept [OF untouched_log(2)] install split: option.split if_split)
qed

text \<open>
  C10. Receiving a file changes the disk only as asked and announced: the peer sent a file frame with the record of the
  request, which is this device's winner for that path, and directly after it bytes of the record's length and BLAKE3
  hash; then no file that was there is written to, what appears is a new file or directory, and no directory entry
  changes except the one at the record's path under the collection's directory, which may now be a file with
  exactly those bytes. The requested path does not name one of the installer's temporary files.
\<close>

theorem only_requested_files_land:
  assumes "records_ok C (w_state (se_world s))" and "tree_wf (w_tree (se_world s))" and "honest E"
    and "\<forall>record. as_str (r_path record) = fr_path request \<longrightarrow> no_temporary E record"
    and "receive_file E C J N cfg peer request s = (r, s')"
  shows "w_tree (se_world s') = w_tree (se_world s)
    \<or> (\<exists>record header content later. se_in s = (tag_byte FrameTag.File # sized header) @ content @ later
         \<and> decode_file_header header = Inr record
         \<and> landed E C (w_tree (se_world s)) (t_collections (w_state (se_world s))) (winner C (w_state (se_world s)))
             request record content (w_tree (se_world s')))"
proof -
  define T where "T = w_tree (se_world s)"
  define K where "K = t_collections (w_state (se_world s))"
  define W where "W = winner C (w_state (se_world s))"
  define bs where "bs = se_in s"
  define L where "L T' \<longleftrightarrow> (\<exists>record header content later. bs = (tag_byte FrameTag.File # sized header) @ content @ later
    \<and> decode_file_header header = Inr record \<and> landed E C T K W request record content T')" for T'
  let ?Q = "\<lambda>(r :: SyncError + unit) s. w_tree (se_world s) = T \<or> L (w_tree (se_world s))"
  have err: "?Q r s" if "untouched_in C T K W s" for r s using that by (simp add: untouched_def)
  have err': "?Q r s" if "at_input C T K W left s" for r s left using that by (simp add: at_input_def untouched_def)
  have kept: "triple (untouched_in C T K W) (on_local m) ?Q" if "preserves (untouched C T K W) m" for m
    by (rule triple_weaken [OF untouched_local [OF that [unfolded triple_preserves]]]) (simp_all add: untouched_def)
  have kept': "triple (at_input C T K W left) (on_local m) ?Q" if "preserves (untouched C T K W) m" for m left
    by (rule triple_weaken [OF kept [OF that]]) (simp_all add: at_input_def)
  have pure: "triple (at_input C T K W left) (throwS e) ?Q" for left e
    by (rule triple_pure) (rule err')
  have count: "preserves (at_input C T K W left) (\<lambda>s. case add_received (se_received s) len of
      Inl e \<Rightarrow> (Inl (Protocol e), s) | Inr received \<Rightarrow> (Inr (), s\<lparr>se_received := received\<rparr>))" for len left
    by (auto simp: preserves_def at_input_def split: sum.split)
  have land: "triple (at_input C T K W left) (catchS (receive_raw_file E C N (unat len) h) (\<lambda>result. case result of
        Inl e \<Rightarrow> bindS (on_local open_store_file) (\<lambda>_. bindS (on_local (log_event E J cfg
            (TransferRejected (fr_collection request) (r_path record) peer))) (\<lambda>_. throwS e))
      | Inr content \<Rightarrow> on_local (apply_received E C J cfg peer request record content))) ?Q"
    if announced: "\<exists>header. bs = (tag_byte FrameTag.File # sized header) @ left \<and> decode_file_header header = Inr record"
      and same: "as_str (r_path record) = fr_path request" "record_canonical_hash (c_blake3 C) record = fr_record_hash request"
        "r_kind record = RecordKind.File len h"
    for left "record" len h
  proof (rule triple_catchS)
    from announced obtain header where got: "bs = (tag_byte FrameTag.File # sized header) @ left"
      "decode_file_header header = Inr record" by blast
    show "triple (at_input C T K W left) (receive_raw_file E C N (unat len) h) (\<lambda>r s. untouched_in C T K W s
        \<and> (\<forall>a. r = Inr a \<longrightarrow> (\<exists>got. left = got @ se_in s \<and> a = got \<and> length got = unat len \<and> c_blake3 C got = h)))"
      using takes_raw_file unfolding takes_def by blast
    fix result
    show "triple (\<lambda>s. untouched_in C T K W s
        \<and> (\<forall>a. result = Inr a \<longrightarrow> (\<exists>got. left = got @ se_in s \<and> a = got \<and> length got = unat len \<and> c_blake3 C got = h)))
      (case result of
        Inl e \<Rightarrow> bindS (on_local open_store_file) (\<lambda>_. bindS (on_local (log_event E J cfg
            (TransferRejected (fr_collection request) (r_path record) peer))) (\<lambda>_. throwS e))
      | Inr content \<Rightarrow> on_local (apply_received E C J cfg peer request record content)) ?Q"
    proof (cases result)
      case (Inl e)
      have "triple (untouched_in C T K W) (bindS (on_local open_store_file) (\<lambda>_. bindS (on_local (log_event E J cfg
            (TransferRejected (fr_collection request) (r_path record) peer))) (\<lambda>_. throwS e))) ?Q"
        by (intro kept_bind triple_pure untouched_in_local preserves_intros err)
      with Inl show ?thesis by simp
    next
      case (Inr content)
      show ?thesis
      proof (cases "\<exists>later. left = content @ later \<and> length content = unat len \<and> c_blake3 C content = h")
        case True
        then obtain later where c: "left = content @ later" "length content = unat len" "c_blake3 C content = h" by blast
        have "triple (untouched_in C T K W) (on_local (apply_received E C J cfg peer request record content))
            (\<lambda>r s. w_tree (se_world s) = T \<or> landed E C T K W request record content (w_tree (se_world s)))"
          by (rule untouched_local, rule apply_received_lands [OF _ assms(3) _ same(3) c(2,3) same(2)])
            (use assms(2,4) same(1) in \<open>simp_all add: T_def\<close>)
        then show ?thesis unfolding Inr sum.case
          by (rule triple_weaken) (use got c(1) in \<open>auto simp: L_def\<close>)
      next
        case False
        with Inr show ?thesis by (auto simp: triple_def)
      qed
    qed
  qed
  have "triple (at_input C T K W bs) (receive_file E C J N cfg peer request) ?Q"
    unfolding receive_file_def
    by (rule takes_bind [OF takes_read_frame], erule err)
      (auto intro!: pure kept' [OF untouched_log(3)] kept_bind [OF count] kept_bind [OF noop_kept] decoded_bind
        land split: prod.split RecordKind.split, (erule at_input_tree | blast)+)
  moreover have "at_input C T K W bs s"
    using assms(1) by (simp add: at_input_def untouched_def unmoved_def T_def W_def K_def bs_def)
  ultimately have "w_tree (se_world s') = T \<or> L (w_tree (se_world s'))" using assms(5) by (rule tripleD)
  then show ?thesis by (simp only: T_def W_def K_def L_def bs_def)
qed

end
