(* ===== verification/Sync_Limits.thy ===== *)
theory Sync_Limits
  imports Sync_Requests
begin

text \<open>Whom the manifests go to, and the file that no session can announce.\<close>

section \<open>Membership\<close>

lemma hint_roster: "replace_peer_hint endpoint hint s = (r, s') \<Longrightarrow> roster_revisions s' = roster_revisions s"
  by (auto simp: replace_peer_hint_def bindS_def transactionS_def replace_peer_hint_in_Inr bindE_eq_Inr split: sum.splits prod.splits)

lemma accepted_members:
  assumes "accept_remote_roster_and_hint C N revisions g me peer encoded w = (Inr changed, w')"
  shows "\<exists>chain. selected_roster_chain C (w_state w') = Inr chain \<and> chain \<noteq> [] \<and> is_member (last chain) peer \<and> is_member (last chain) me"
proof -
  from assms obtain w1 w2 where
      merge: "merge_and_authorize_remote_roster C N revisions me peer w = (Inr changed, w1)"
    and w2: "open_store_file w1 = (Inr (), w2)" and hint: "wdb (replace_peer_hint peer encoded) w2 = (Inr (), w')"
    by (auto simp: accept_remote_roster_and_hint_def bindS_eq_Inr Let_def split: if_splits option.splits list.splits)
  from merge obtain chain w0 where chain: "wquery (selected_roster_chain C) w0 = (Inr chain, w1)"
      and member: "chain \<noteq> []" "is_member (last chain) peer" "is_member (last chain) me"
    by (auto simp: merge_and_authorize_remote_roster_def bindS_eq_Inr Let_def tip_of_def wquery_Inr split: if_splits)
  have "selected_roster_chain C (w_state w1) = Inr chain" using chain by (simp add: wquery_Inr)
  moreover have "selected_roster_chain C (w_state w') = selected_roster_chain C (w_state w2)"
    using hint by (auto simp: wdb_Inr dest!: hint_roster intro!: selected_chain_cong)
  ultimately show ?thesis using open_store_run [OF w2] member by auto
qed

text \<open>
  C8. Manifests, requests and files go only to members: when the greeting succeeds, the roster selected after the peer's
  revisions were merged and this device's own changes reapplied lists both devices.
\<close>

theorem members_only:
  assumes "exchange_rosters C N cfg peer s = (Inr (changed, shared), s')"
  shows "\<exists>chain. selected_roster_chain C (w_state (se_world s')) = Inr chain \<and> chain \<noteq> []
    \<and> is_member (last chain) peer \<and> is_member (last chain) (cf_local_endpoint cfg)"
proof -
  from assms obtain revisions g encoded s1 where
    "on_local (accept_remote_roster_and_hint C N revisions g (cf_local_endpoint cfg) peer encoded) s1 = (Inr changed, s')"
    by (auto simp: exchange_rosters_def bindS_eq_Inr split: if_splits prod.splits)
  then show ?thesis using accepted_members by (auto simp: on_local_Inr)
qed

section \<open>Large files\<close>

lemma oversized_refused:
  assumes "(c, m) \<in> set (mb_manifests b)" and "r \<in> set (m_records m)" and "r_kind r = RecordKind.File len h" and "MAX_FILE_BYTES < len"
  shows "\<exists>e. manifest_bundle_encode b = Inl e"
proof (cases "manifest_bundle_encode b")
  case (Inr bs)
  then have "entry_valid (c, m)" using assms(1) by (auto simp: manifest_bundle_encode_Inr manifest_bundle_fits_def entries_fit_def)
  then have "validate_record r c = Inr ()" using assms(2) by (auto simp: entry_valid_def for_each_eq_Inr)
  then show ?thesis using assms(3,4) by (auto simp: validate_record_def bindE_eq_Inr split: if_splits)
qed simp

text \<open>
  C12. One file above 64 MiB stops a shared collection from synchronizing: while the winner of any path of the shared
  collections is such a file, the manifest exchange fails before anything is sent or read, with every peer that has
  the collection, and no winner of any other path or collection reaches it either.
\<close>

theorem large_file_stops_session:
  assumes "records_ok C (w_state (se_world s))" and "collection \<in> set shared"
    and "winner C (w_state (se_world s)) (collection, path) = Some r" and "r_kind r = RecordKind.File len h" and "MAX_FILE_BYTES < len"
  shows "\<exists>e s'. exchange_manifests E C J N cfg peer shared s = (Inl e, s') \<and> se_out s' = se_out s \<and> se_in s' = se_in s
    \<and> winner C (w_state (se_world s')) = winner C (w_state (se_world s))"
proof -
  obtain res w where build: "build_manifests C shared (se_world s) = (res, w)" by fastforce
  have "still C (se_world s) w"
    by (rule still_run [OF in_world_build [OF winners.open_file_kept] build])
  then have same: "winner C (w_state w) = winner C (w_state (se_world s))" using assms(1) by (simp add: still_def)
  show ?thesis
  proof (cases res)
    case (Inl e)
    then show ?thesis using build same by (simp add: exchange_manifests_def bindS_def on_local_def)
  next
    case (Inr b)
    note built = build_manifests_run(2) [OF assms(1) build [unfolded Inr], of r]
    have key: "rec_key r = (collection, path)" using load_record_ok(2) [OF assms(1,3)] by blast
    then have "r \<in> set (bundle_records (mb_manifests b))" using built assms(2,3) by (simp add: rec_key_def)
    then obtain c m where "(c, m) \<in> set (mb_manifests b)" "r \<in> set (m_records m)" by (auto simp: bundle_records_def)
    from oversized_refused [OF this assms(4,5)] obtain e where "manifest_bundle_encode b = Inl e" ..
    then show ?thesis using build Inr same by (simp add: exchange_manifests_def bindS_def on_local_def)
  qed
qed

end
