(* ===== verification/Sync_Instances.thy ===== *)
theory Sync_Instances
  imports Sync_Limits Scanner_Claims
begin

text \<open>
  A complete session on concrete data: a device of a one-member group holds a file, and its peer answers with the same
  greeting, roster and manifest and asks for nothing.
\<close>

section \<open>Exchanges that succeed\<close>

abbreviation wire_frame :: "FrameTag \<Rightarrow> byte list \<Rightarrow> byte list" where
  "wire_frame tag payload \<equiv> tag_byte tag # sized payload"

lemma exchange_ok:
  assumes "pe_fault N = (\<lambda>_. None)" and "length p \<le> payload_limit tag" and "length q \<le> payload_limit tag"
    and "se_in s = wire_frame tag q @ left" and "unat (se_received s) + 5 + length q \<le> 256 * 1024 * 1024"
  obtains s' where "exchange_frame N tag p s = (Inr q, s')" "se_in s' = left" "se_world s' = se_world s"
    "unat (se_received s') = unat (se_received s) + 5 + length q"
proof -
  let ?n = "5 + of_nat (length q) :: u64"
  have n: "unat ?n = 5 + length q" using assms(5) by (simp add: unat_word_ariths unat_of_nat take_bit_nat_eq_self)
  have "decode_frame (se_in s) = Inr ((tag, q), left)" using assms(3,4) by (simp add: decode_frame_Inr)
  moreover have "add_received (se_received s) ?n = Inr (se_received s + ?n)" using assms(5) n by (simp add: add_received_Inr)
  ultimately have read: "read_frame_async (se_received s) (se_in s) = Inr ((tag, q), se_received s + ?n, left)"
    unfolding read_frame_async_Inr by blast
  have "encode_frame tag p = Inr (wire_frame tag p)" using assms(2) by (simp add: encode_frame_Inr)
  then have "exchange_frame N tag p s = (Inr q, s\<lparr>se_out := se_out s @ wire_frame tag p, se_net := Suc (Suc (se_net s)), se_in := left,
      se_received := se_received s + ?n\<rparr>)"
    using read assms(1)
    by (simp add: exchange_frame_def write_frame_async_def net_write_def net_call_def read_expected_def read_frame_def
        expect_frame_tag_def bindS_def Let_def)
  moreover have "unat (se_received s + ?n) = unat (se_received s) + (5 + length q)"
    using assms(5) n by (simp add: unat_word_ariths)
  ultimately show ?thesis using that by simp
qed

section \<open>The devices\<close>

definition member_store :: StateStore where
  "member_store = stocked_store\<lparr>roster_revisions := roster_revisions sample_store\<rparr>"

definition sample_peer :: peer_env where
  "sample_peer = \<lparr>pe_fault = \<lambda>_. None, pe_addr_to_string = \<lambda>_. Some ''x'', pe_addr_from_str = \<lambda>_. Some \<lparr>ea_id = 5, ea_addrs = []\<rparr>,
     pe_identity = \<lambda>_. None\<rparr>"

definition sample_hello :: Hello where
  "sample_hello = \<lparr>h_collections = [''c''], h_endpoint_addr_json = ''x''\<rparr>"

definition sample_roster :: RosterBundle where
  "sample_roster = \<lparr>rb_revisions = [sample_genesis]\<rparr>"

definition sample_manifests :: ManifestBundle where
  "sample_manifests = \<lparr>mb_manifests = [(''c'', \<lparr>m_records = [sample_file]\<rparr>)]\<rparr>"

definition no_requests :: RequestBundle where
  "no_requests = \<lparr>rq_requests = []\<rparr>"

definition mirror_input :: "byte list" where
  "mirror_input = wire_frame Hello (hello_bytes sample_hello) @ wire_frame FrameTag.Roster (roster_bundle_bytes sample_roster)
     @ wire_frame Manifests (manifest_bundle_bytes sample_manifests) @ wire_frame Requests (request_bundle_bytes no_requests)
     @ wire_frame Done []"

definition session_at :: "StateStore \<Rightarrow> byte list \<Rightarrow> session" where
  "session_at s bs = \<lparr>se_world = peer_world s, se_in = bs, se_out = [], se_received = 0, se_net = 0\<rparr>"

section \<open>What they send\<close>

lemma sample_hello_wire:
  "hello_encode sample_hello = Inr (hello_bytes sample_hello)" "hello_decode (hello_bytes sample_hello) = Inr sample_hello"
  "length (hello_bytes sample_hello) = 14"
proof -
  show enc: "hello_encode sample_hello = Inr (hello_bytes sample_hello)"
    by (simp add: hello_encode_Inr sample_hello_def validate_collections_Inr wire_limits)
  show len: "length (hello_bytes sample_hello) = 14" by (simp add: sample_hello_def hello_bytes_def)
  have "hello_texts sample_hello" by (simp add: hello_texts_def sample_hello_def is_str_ascii)
  then show "hello_decode (hello_bytes sample_hello) = Inr sample_hello"
    using enc len by (simp add: hello_decode_Inr hello_encode_Inr)
qed

lemma sample_roster_wire:
  "roster_bundle_encode sample_roster = Inr (roster_bundle_bytes sample_roster)"
  "roster_bundle_decode sample_crypto (roster_bundle_bytes sample_roster) = Inr sample_roster"
  "length (roster_bundle_bytes sample_roster) \<le> 1000"
proof -
  have len: "length (roster_canonical_bytes sample_genesis) = 236"
    by (simp add: roster_canonical_bytes_eq sample_genesis_wf unsigned_body_def ROSTER_DOMAIN_def)
       (simp add: sample_genesis_def parent_bytes_def member_bytes_def change_bytes_def)
  then have fits: "roster_bundle_fits sample_roster"
    by (simp add: roster_bundle_fits_def wire_limits roster_bundle_bytes_def sample_roster_def) (simp add: sample_genesis_def)
  then show "roster_bundle_encode sample_roster = Inr (roster_bundle_bytes sample_roster)"
    "roster_bundle_decode sample_crypto (roster_bundle_bytes sample_roster) = Inr sample_roster"
    using sample_genesis_wf sample_chain_valid
    by (simp_all add: roster_bundle_encode_Inr roster_bundle_decode_Inr) (simp add: sample_roster_def)
  show "length (roster_bundle_bytes sample_roster) \<le> 1000" using len by (simp add: roster_bundle_bytes_def sample_roster_def)
qed

lemma sample_manifests_wire:
  "manifest_bundle_encode sample_manifests = Inr (manifest_bundle_bytes sample_manifests)"
  "manifest_bundle_decode (manifest_bundle_bytes sample_manifests) = Inr sample_manifests"
  "length (manifest_bundle_bytes sample_manifests) \<le> 1000"
proof -
  show enc: "manifest_bundle_encode sample_manifests = Inr (manifest_bundle_bytes sample_manifests)"
    unfolding sample_manifests_def by (rule sample_encodes)
  have ok: "manifest_ok \<lparr>m_records = [sample_file]\<rparr>" by (simp add: manifest_ok_def sample_file_wf sample_lengths)
  then have "entries_wf (mb_manifests sample_manifests)"
    by (simp add: entries_wf_def sample_manifests_def is_str_ascii)
  then show "manifest_bundle_decode (manifest_bundle_bytes sample_manifests) = Inr sample_manifests"
    using enc by (simp add: manifest_bundle_decode_Inr manifest_bundle_encode_Inr)
  show "length (manifest_bundle_bytes sample_manifests) \<le> 1000"
    by (simp add: manifest_bundle_bytes_def entry_bytes_def manifest_canonical_bytes_eq [OF ok] manifest_body_def MANIFEST_DOMAIN_def
        sample_lengths sample_manifests_def)
qed

lemma no_requests_wire:
  "request_bundle_encode no_requests = Inr (request_bundle_bytes no_requests)"
  "request_bundle_decode (request_bundle_bytes no_requests) = Inr no_requests"
  "length (request_bundle_bytes no_requests) = 4"
proof -
  show enc: "request_bundle_encode no_requests = Inr (request_bundle_bytes no_requests)"
    by (simp add: request_bundle_encode_Inr request_bundle_fits_def no_requests_def requests_valid_def)
  show len: "length (request_bundle_bytes no_requests) = 4" by (simp add: request_bundle_bytes_def no_requests_def)
  show "request_bundle_decode (request_bundle_bytes no_requests) = Inr no_requests"
    using enc len by (simp add: request_bundle_decode_Inr request_bundle_encode_Inr) (simp add: request_texts_def no_requests_def)
qed

section \<open>The device's side\<close>

lemma member_chain: "roster_revisions s = roster_revisions member_store \<Longrightarrow> selected_roster_chain sample_crypto s = Inr [sample_genesis]"
  using selected_chain_cong [of s sample_store sample_crypto] sample_store_chain by (simp add: member_store_def)

lemma member_migrates: "migrate member_store = (Inr (), opened member_store)"
  by (rule migrate_new) (simp_all add: member_store_def stocked_store_def sample_records_store_def fresh_database_def)

lemma opened_again: "open_store_file (w\<lparr>w_state := opened s\<rparr>) = (Inr (), w\<lparr>w_state := opened s\<rparr>)"
  by (simp add: open_store_file_def wdb_def mapErrS_def db_def migrate_opened)

definition greeted_store :: StateStore where
  "greeted_store = member_store\<lparr>peer_hints := [(to_be_bytes (5 :: EndpointId), ''x'')]\<rparr>"

lemma member_authorizes:
  "authorize_local_roster sample_crypto 5 5 (peer_world member_store) = (Inr (), peer_world (opened member_store))"
  using member_chain [of "opened member_store"] member_migrates
  by (simp add: authorize_local_roster_def bindS_def open_store_file_def wdb_def mapErrS_def db_def wquery_def tip_of_def
      is_member_def sample_genesis_def om_contains_def peer_world_def opened_same)

lemma member_collections:
  "collections (opened member_store) = Inr [sample_collection]" "collection_named ''c'' (opened greeted_store) = Inr (Some sample_collection)"
  by (simp_all add: collections_def collection_named_def opened_def greeted_store_def member_store_def stocked_store_def
      sample_records_store_def sample_collection_def decode_collection_def scan_status_from_str_def
      watch_status_from_str_def om_get_def)

lemma member_state:
  "local_session_state sample_crypto (peer_world (opened member_store))
     = (Inr ([sample_genesis], [''c'']), peer_world (opened member_store))"
  using member_chain [of "opened member_store"] opened_again [of member_store sample_world] member_collections(1)
  by (simp add: local_session_state_def bindS_def wquery_def wdb_def mapErrS_def db_def peer_world_def opened_same sample_collection_def)

lemma member_accepts:
  "accept_remote_roster_and_hint sample_crypto sample_peer [sample_genesis] (roster_canonical_hash sample_crypto sample_genesis) 5 5 ''x''
     (peer_world (opened member_store)) = (Inr False, peer_world (opened greeted_store))"
proof -
  let ?s = "opened member_store"
  have chain: "selected_roster_chain sample_crypto ?s = Inr [sample_genesis]" by (rule member_chain) (simp add: opened_same)
  have merge: "merge_selected_roster_chain sample_crypto [sample_genesis] ?s = (Inr (), ?s)"
    using chain sample_genesis_valid by (simp add: merge_selected_roster_chain_def bindS_def)
  have member: "is_member sample_genesis 5" by (simp add: is_member_def sample_genesis_def om_contains_def)
  have auth: "merge_and_authorize_remote_roster sample_crypto sample_peer [sample_genesis] 5 5 (peer_world ?s) = (Inr False, peer_world ?s)"
    using chain merge member opened_again [of member_store sample_world]
    by (simp add: merge_and_authorize_remote_roster_def bindS_def wquery_def wdb_def mapErrS_def db_def peer_world_def tip_of_def)
  have "validate_peer_hint ''x'' = Inr ()" by (simp add: validate_peer_hint_Inr)
  then have "replace_peer_hint 5 ''x'' ?s = (Inr (), opened greeted_store)"
    by (simp add: replace_peer_hint_def bindS_def transactionS_def replace_peer_hint_in_def sql_upsert_def check_peer_hint_def
        opened_def greeted_store_def member_store_def stocked_store_def sample_records_store_def fresh_database_def)
  then show ?thesis
    using auth opened_again [of member_store sample_world]
    by (simp add: accept_remote_roster_and_hint_def sample_peer_def MAX_ADDRESS_HINT_BYTES_def MAX_ENDPOINT_ADDRS_def bindS_def wdb_def
        mapErrS_def db_def peer_world_def)
qed

lemma greeted_records:
  "records_ok sample_crypto (opened greeted_store)"
  "winner sample_crypto (opened greeted_store) k = (if k = rec_key sample_file then Some sample_file else None)"
  "lookup_record sample_crypto ''c'' ''a/b'' (opened greeted_store) = Inr (Some sample_file)"
proof -
  have same: "path_records greeted_store = path_records stocked_store" "t_collections greeted_store = t_collections stocked_store"
    by (simp_all add: greeted_store_def member_store_def)
  then show ok: "records_ok sample_crypto (opened greeted_store)"
    using records_ok_cong [of greeted_store stocked_store sample_crypto] stocked_data by (simp add: opened_same data_ok_def)
  show w: "winner sample_crypto (opened greeted_store) k = (if k = rec_key sample_file then Some sample_file else None)" for k
    using winner_cong [OF same(1), of sample_crypto k] by (simp add: opened_same stocked_winner)
  show "lookup_record sample_crypto ''c'' ''a/b'' (opened greeted_store) = Inr (Some sample_file)"
    using load_record_ok(1) [OF ok, of "(''c'', ''a/b'')"] w [of "(''c'', ''a/b'')"]
    by (simp add: lookup_record_def rec_key_def sample_file_def)
qed

lemma greeted_states:
  "\<exists>v. record_states sample_crypto ''c'' (opened greeted_store) = Inr [v] \<and> ps_materialized v"
proof -
  have "row_for sample_crypto sample_file (row_of_record sample_crypto sample_file True)" using sample_file_wf by (rule row_of_record_for)
  then have "decode_indexed_record sample_crypto (row_record_hash (row_of_record sample_crypto sample_file True),
      row_canonical (row_of_record sample_crypto sample_file True)) ''c'' ''a/b'' = Inr sample_file"
    using decode_row [OF sample_file_wf] by (simp add: sample_file_def)
  moreover have "rows_of ''c'' (opened greeted_store) = [(''a/b'', row_of_record sample_crypto sample_file True)]"
    by (simp add: rows_of_def opened_same greeted_store_def member_store_def stocked_store_def sample_records_store_def
        fresh_database_def rec_key_def sample_file_def)
  ultimately show ?thesis
    by (simp add: record_states_def decode_path_record_state_def row_of_record_def decode_materialized_fingerprint_def sample_file_def)
qed

lemma member_builds:
  "build_manifests sample_crypto [''c''] (peer_world (opened greeted_store)) = (Inr sample_manifests, peer_world (opened greeted_store))"
proof -
  have "row_for sample_crypto sample_file (row_of_record sample_crypto sample_file True)" using sample_file_wf by (rule row_of_record_for)
  then have "records sample_crypto ''c'' (opened greeted_store) = Inr [sample_file]"
    using decode_row [OF sample_file_wf] unfolding opened_same
    by (simp add: records_def rows_of_def greeted_store_def member_store_def stocked_store_def sample_records_store_def
        fresh_database_def rec_key_def sample_file_def)
  moreover have "manifest_new [sample_file] = Inr \<lparr>m_records = [sample_file]\<rparr>" by (rule manifest_new_sorted) simp_all
  ultimately show ?thesis
    using opened_again [of greeted_store sample_world]
    by (simp add: build_manifests_def bindS_def peer_world_def sample_manifests_def)
qed

lemma member_merges:
  "merge_remote_manifests sample_env sample_crypto sample_json sample_config 5 [''c''] sample_manifests (peer_world (opened greeted_store))
     = (Inr [], (peer_world (opened greeted_store))\<lparr>w_tick := 1\<rparr>)"
proof -
  let ?s = "opened greeted_store"
  let ?limit = "i64_saturating_add (ev_clock sample_env (w_tick (peer_world ?s))) (duration_ns (cf_max_future_clock_skew sample_config))"
  let ?w = "(peer_world ?s)\<lparr>w_tick := 1\<rparr>"
  have past: "\<not> sint ?limit < sint (r_modified_ns sample_file)" using sample_past [of ?s] by simp
  have look: "wquery (lookup_record sample_crypto ''c'' ''a/b'') ?w = (Inr (Some sample_file), ?w)"
    using greeted_records(3) by (simp add: wquery_Inr peer_world_def)
  have named: "wquery (collection_named ''c'') ?w = (Inr (Some sample_collection), ?w)"
    using member_collections(2) by (simp add: wquery_Inr peer_world_def)
  have "merge_candidate sample_env sample_crypto sample_json sample_config 5 ?limit ''c'' p sample_file ?w = (Inr (), ?w)" for p
    using look past by (simp add: merge_candidate_def bindS_def Let_def sample_file_def)
  then have "merge_manifest sample_env sample_crypto sample_json sample_config 5 ?limit (''c'', \<lparr>m_records = [sample_file]\<rparr>) ?w = (Inr (), ?w)"
    using named by (simp add: merge_manifest_def bindS_def)
  moreover have "choose_requests sample_crypto ?limit sample_manifests ?s = Inr []"
  proof -
    obtain v where "record_states sample_crypto ''c'' ?s = Inr [v]" "ps_materialized v" using greeted_states by blast
    then have "missing_files sample_crypto ?limit ?s (''c'', \<lparr>m_records = [sample_file]\<rparr>) = Inr []"
      by (simp add: missing_files_def Let_def List.map_filter_def missing_file_def om_of_list_def om_get_def)
    then show ?thesis by (simp add: choose_requests_def sample_manifests_def)
  qed
  ultimately show ?thesis
    using opened_again [of greeted_store "sample_world\<lparr>w_tick := 1\<rparr>"]
    by (simp add: merge_remote_manifests_def bindS_def now_ns_def Let_def peer_world_def sample_manifests_def sample_world_def
        wquery_def wdb_def mapErrS_def db_def)
qed

section \<open>The session\<close>

lemma mirror_session:
  obtains s' s1 s4 where "exchange_rosters sample_crypto sample_peer sample_config 5 s1 = (Inr (False, [''c'']), s4)"
    "run_session_with_outcome sample_env sample_crypto sample_json sample_peer 5 Dialer sample_config
    (session_at member_store mirror_input) = (Inr \<lparr>so_remote_endpoint = 5, so_roster_changed = False\<rparr>, s')"
proof -
  note [simp] = payload_limit_def wire_limits
  have N: "pe_fault sample_peer = (\<lambda>_. None)" by (simp add: sample_peer_def)
  have net: "net_call sample_peer t f s = (Inr (), s\<lparr>se_net := Suc (se_net s)\<rparr>)" for t f s
    by (simp add: net_call_def N)
  note len = sample_hello_wire(3) sample_roster_wire(3) sample_manifests_wire(3) no_requests_wire(3)
  define s1 where "s1 = (session_at member_store mirror_input)\<lparr>se_world := peer_world (opened member_store), se_net := 1\<rparr>"
  have s1: "se_in s1 = mirror_input" "se_world s1 = peer_world (opened member_store)" "unat (se_received s1) = 0"
    by (simp_all add: s1_def session_at_def)
  obtain s2 where s2: "exchange_frame sample_peer Hello (hello_bytes sample_hello) s1 = (Inr (hello_bytes sample_hello), s2)"
      "se_in s2 = wire_frame FrameTag.Roster (roster_bundle_bytes sample_roster)
        @ wire_frame Manifests (manifest_bundle_bytes sample_manifests) @ wire_frame Requests (request_bundle_bytes no_requests)
        @ wire_frame Done []" "se_world s2 = se_world s1" "unat (se_received s2) = unat (se_received s1) + 5 + 14"
    by (rule exchange_ok [OF N, of "hello_bytes sample_hello" Hello "hello_bytes sample_hello" s1])
      (use len s1 in \<open>simp_all add: mirror_input_def\<close>)
  obtain s3 where s3: "exchange_frame sample_peer FrameTag.Roster (roster_bundle_bytes sample_roster) s2
        = (Inr (roster_bundle_bytes sample_roster), s3)"
      "se_in s3 = wire_frame Manifests (manifest_bundle_bytes sample_manifests) @ wire_frame Requests (request_bundle_bytes no_requests)
        @ wire_frame Done []" "se_world s3 = se_world s2" "unat (se_received s3) \<le> 2000"
    by (rule exchange_ok [OF N, of "roster_bundle_bytes sample_roster" FrameTag.Roster "roster_bundle_bytes sample_roster" s2])
      (use len s1 s2 in simp_all)
  define s4 where "s4 = s3\<lparr>se_world := peer_world (opened greeted_store)\<rparr>"
  obtain s5 where s5: "exchange_frame sample_peer Manifests (manifest_bundle_bytes sample_manifests) s4
        = (Inr (manifest_bundle_bytes sample_manifests), s5)"
      "se_in s5 = wire_frame Requests (request_bundle_bytes no_requests) @ wire_frame Done []"
      "se_world s5 = se_world s4" "unat (se_received s5) \<le> 4000"
    by (rule exchange_ok [OF N, of "manifest_bundle_bytes sample_manifests" Manifests "manifest_bundle_bytes sample_manifests" s4])
      (use len s3 in \<open>simp_all add: s4_def\<close>)
  define s6 where "s6 = s5\<lparr>se_world := (peer_world (opened greeted_store))\<lparr>w_tick := 1\<rparr>\<rparr>"
  obtain s7 where s7: "exchange_frame sample_peer Requests (request_bundle_bytes no_requests) s6
        = (Inr (request_bundle_bytes no_requests), s7)"
      "se_in s7 = wire_frame Done []" "se_world s7 = se_world s6" "unat (se_received s7) \<le> 4009"
    by (rule exchange_ok [OF N, of "request_bundle_bytes no_requests" Requests "request_bundle_bytes no_requests" s6])
      (use len s5 in \<open>simp_all add: s6_def\<close>)
  obtain s8 where s8: "exchange_frame sample_peer Done [] s7 = (Inr [], s8)" "se_in s8 = []"
    by (rule exchange_ok [OF N, of "[]" Done "[]" s7]) (use s7 in simp_all)
  have same: "s1\<lparr>se_world := peer_world (opened member_store)\<rparr> = s1" "s4\<lparr>se_world := peer_world (opened greeted_store)\<rparr> = s4"
    by (simp_all add: s1_def s4_def)
  have w4: "se_world s4 = peer_world (opened greeted_store)" by (simp add: s4_def)
  have roster: "exchange_rosters sample_crypto sample_peer sample_config 5 s1 = (Inr (False, [''c'']), s4)"
    using member_state member_accepts sample_hello_wire sample_roster_wire s1 s2 s3
    by (simp add: same(1) exchange_rosters_def bindS_def on_local_def sample_config_def sample_peer_def MAX_ENDPOINT_ADDRS_def
        sample_hello_def sample_roster_def shared_collections_def s4_def)
  have manifests: "exchange_manifests sample_env sample_crypto sample_json sample_peer sample_config 5 [''c''] s4 = (Inr ([], []), s7)"
    using member_builds member_merges sample_manifests_wire no_requests_wire s5 s7(1)
    by (simp add: same(2) w4 exchange_manifests_def bindS_def on_local_def s6_def no_requests_def)
  have start: "on_local (authorize_local_roster sample_crypto 5 5) (session_at member_store mirror_input)
      = (Inr (), (session_at member_store mirror_input)\<lparr>se_world := peer_world (opened member_store)\<rparr>)"
    using member_authorizes by (simp add: on_local_def session_at_def)
  have first: "net_call sample_peer t f ((session_at member_store mirror_input)\<lparr>se_world := peer_world (opened member_store)\<rparr>)
      = (Inr (), s1)" for t f :: SyncError
    by (simp add: net s1_def session_at_def)
  have closed: "close_session sample_peer s7 = (Inr (), s8\<lparr>se_net := se_net s8 + 3\<rparr>)"
    using s8 by (simp add: close_session_def bindS_def net)
  have "cf_local_endpoint sample_config = 5" by (simp add: sample_config_def)
  then have "run_session_with_outcome sample_env sample_crypto sample_json sample_peer 5 Dialer sample_config
      (session_at member_store mirror_input) = (Inr \<lparr>so_remote_endpoint = 5, so_roster_changed = False\<rparr>, s8\<lparr>se_net := se_net s8 + 3\<rparr>)"
    using start first roster manifests closed
    by (simp add: run_session_with_outcome_def bindS_def send_files_def validate_requested_collections_def receive_files_def)
  with roster show ?thesis by (rule that)
qed

section \<open>The properties at this session\<close>

lemma member_records: "winner sample_crypto member_store k = winner sample_crypto stocked_store k"
    "records_ok sample_crypto member_store" "data_ok sample_crypto member_store"
  using winner_cong [of member_store stocked_store sample_crypto k] stocked_data data_ok_roster [of sample_crypto _ stocked_store]
  by (simp_all add: member_store_def data_ok_def)

lemma session_world: "w_state (se_world (session_at s bs)) = s" "w_tree (se_world (session_at s bs)) = w_tree sample_world"
  by (simp_all add: session_at_def peer_world_def)

theorem session_effect_witness:
  "\<exists>outcome s' hello roster payload later bundle tick.
      run_session_with_outcome sample_env sample_crypto sample_json sample_peer 5 Dialer sample_config
        (session_at member_store mirror_input) = (Inr outcome, s')
    \<and> mirror_input = (tag_byte Hello # sized hello) @ (tag_byte FrameTag.Roster # sized roster)
        @ (tag_byte Manifests # sized payload) @ later
    \<and> manifest_bundle_decode payload = Inr bundle
    \<and> (\<forall>k. winner sample_crypto (w_state (se_world s')) k
        = merged_all sample_crypto
            (i64_saturating_add (ev_clock sample_env tick) (duration_ns (cf_max_future_clock_skew sample_config)))
            (mb_manifests bundle) (winner sample_crypto member_store) k)"
proof -
  obtain s' where run: "run_session_with_outcome sample_env sample_crypto sample_json sample_peer 5 Dialer sample_config
      (session_at member_store mirror_input) = (Inr \<lparr>so_remote_endpoint = 5, so_roster_changed = False\<rparr>, s')"
    by (rule mirror_session)
  have "records_ok sample_crypto (w_state (se_world (session_at member_store mirror_input)))"
    using member_records(2) by (simp add: session_world)
  moreover have "se_in (session_at member_store mirror_input) = mirror_input" by (simp add: session_at_def)
  ultimately show ?thesis using session_effect [OF _ run] run unfolding session_world by metis
qed


theorem session_only_advances_witness:
  "\<exists>r s' record. run_session_with_outcome sample_env sample_crypto sample_json sample_peer 5 Dialer sample_config
      (session_at member_store mirror_input) = (r, s')
    \<and> winner sample_crypto (w_state (se_world s')) (''c'', ''a/b'') = Some record
    \<and> (record = sample_file \<or> compare_winner (c_blake3 sample_crypto) record sample_file = Greater)"
proof -
  obtain r s' where run: "run_session_with_outcome sample_env sample_crypto sample_json sample_peer 5 Dialer sample_config
      (session_at member_store mirror_input) = (r, s')" by fastforce
  have "winner sample_crypto member_store (''c'', ''a/b'') = Some sample_file"
    by (simp add: member_records(1) stocked_winner rec_key_def sample_file_def)
  moreover have "records_ok sample_crypto (w_state (se_world (session_at member_store mirror_input)))"
    using member_records(2) by (simp add: session_world)
  ultimately have "winner sample_crypto (w_state (se_world s')) (''c'', ''a/b'') = Some sample_file
      \<or> (\<exists>record. winner sample_crypto (w_state (se_world s')) (''c'', ''a/b'') = Some record
            \<and> compare_winner (c_blake3 sample_crypto) record sample_file = Greater)"
    using spec [OF conjunct2 [OF session_only_advances [OF _ run]], of "(''c'', ''a/b'')"] by (simp add: session_world)
  then show ?thesis using run by blast
qed

theorem stranger_refused_witness:
  "\<exists>s'. run_session_with_outcome sample_env sample_crypto sample_json sample_peer 8 Dialer sample_config
      (session_at member_store mirror_input) = (Inl UnauthorizedPeer, s') \<and> se_out s' = []"
proof -
  have "selected_roster_chain sample_crypto (w_state (se_world (session_at member_store mirror_input))) = Inr [sample_genesis]"
    using member_chain [of member_store] by (simp add: session_world)
  moreover have "\<not> is_member (last [sample_genesis]) 8" by (simp add: is_member_def sample_genesis_def om_contains_def)
  ultimately obtain e s' where "run_session_with_outcome sample_env sample_crypto sample_json sample_peer 8 Dialer sample_config
        (session_at member_store mirror_input) = (Inl e, s')"
      "se_out s' = se_out (session_at member_store mirror_input)"
      "fst (migrate (w_state (se_world (session_at member_store mirror_input)))) = Inr () \<longrightarrow> e = UnauthorizedPeer"
    using stranger_refused [of sample_crypto "session_at member_store mirror_input" "[sample_genesis]" 8 sample_config sample_env
        sample_json sample_peer Dialer] by auto
  then show ?thesis using member_migrates by (simp add: session_world) (simp add: session_at_def)
qed

text \<open>A device that knows the file's record but does not hold its content asks for it.\<close>

definition wanting_store :: StateStore where
  "wanting_store = sample_records_store\<lparr>path_records :=
     om_insert (rec_key sample_file) (row_of_record sample_crypto sample_file False) (path_records sample_records_store)\<rparr>"

definition sample_request :: FileRequest where
  "sample_request = FileRequest ''c'' ''a/b'' (record_canonical_hash (c_blake3 sample_crypto) sample_file)"

lemma wanting_records:
  "records_ok sample_crypto wanting_store" "lookup_record sample_crypto ''c'' ''a/b'' wanting_store = Inr (Some sample_file)"
proof -
  show ok: "records_ok sample_crypto wanting_store" unfolding wanting_store_def
    by (rule upsert_records_ok [OF sample_records_ok sample_file_wf]) (simp add: sample_file_def sample_names)
  have "winner sample_crypto wanting_store (''c'', ''a/b'') = Some sample_file"
    unfolding wanting_store_def using winner_upsert [OF sample_records_ok sample_file_wf, of sample_crypto False "(''c'', ''a/b'')"]
    by (simp add: sample_file_def sample_names rec_key_def)
  then show "lookup_record sample_crypto ''c'' ''a/b'' wanting_store = Inr (Some sample_file)"
    using load_record_ok(1) [OF ok, of "(''c'', ''a/b'')"] by (simp add: lookup_record_def)
qed

lemma wanting_states:
  "\<exists>v. record_states sample_crypto ''c'' wanting_store = Inr [v] \<and> ps_record v = sample_file \<and> \<not> ps_materialized v"
proof -
  have "row_for sample_crypto sample_file (row_of_record sample_crypto sample_file False)" using sample_file_wf by (rule row_of_record_for)
  then have "decode_indexed_record sample_crypto (row_record_hash (row_of_record sample_crypto sample_file False),
      row_canonical (row_of_record sample_crypto sample_file False)) ''c'' ''a/b'' = Inr sample_file"
    using decode_row [OF sample_file_wf] by (simp add: sample_file_def)
  moreover have "rows_of ''c'' wanting_store = [(''a/b'', row_of_record sample_crypto sample_file False)]"
    by (simp add: rows_of_def wanting_store_def sample_records_store_def fresh_database_def rec_key_def sample_file_def)
  ultimately show ?thesis
    by (simp add: record_states_def decode_path_record_state_def row_of_record_def decode_materialized_fingerprint_def sample_file_def)
qed

theorem requests_chosen_witness:
  "\<exists>left. set ([sample_request] @ left) = needed sample_crypto 100 (mb_manifests sample_manifests) wanting_store"
proof -
  obtain v where v: "record_states sample_crypto ''c'' wanting_store = Inr [v]" "ps_record v = sample_file" "\<not> ps_materialized v"
    using wanting_states by blast
  have room: "r_kind sample_file = RecordKind.File 5 9" "u64_checked_add 0 5 = Some 5" "\<not> MAX_SESSION_FILE_BYTES < 5"
    by (simp_all add: sample_file_def u64_checked_add_def MAX_SESSION_FILE_BYTES_def)
  have "missing_file sample_crypto 100 ''c'' (om_of_list [(r_path sample_file, v)]) sample_file = Some sample_request"
    using v(2,3) by (simp add: missing_file_def om_of_list_get sample_request_def) (simp add: sample_file_def)
  then have "missing_files sample_crypto 100 wanting_store (''c'', \<lparr>m_records = [sample_file]\<rparr>) = Inr [sample_request]"
    using v(1,2) by (simp add: missing_files_def Let_def List.map_filter_def)
  then have "choose_requests sample_crypto 100 sample_manifests wanting_store = Inr [sample_request]"
    using wanting_records(2)
    by (simp add: choose_requests_def sample_manifests_def sample_request_def MAX_TRANSFERS_def room)
  from requests_chosen [OF wanting_records(1) this] show ?thesis by blast
qed

text \<open>
  The peer announces the requested record and sends its two bytes; the device has another file at the destination, which
  is replaced.
\<close>

definition landing_store :: StateStore where
  "landing_store = (let s = fresh_database\<lparr>t_collections := [(''c'', \<lparr>row_local_path = [47], row_resolved_root = None,
       row_scan_status = ''pending'', row_watch_status = ''pending''\<rparr>)]\<rparr> in
     s\<lparr>path_records := om_insert (rec_key sample_upload) (row_of_record sample_crypto sample_upload False) (path_records s)\<rparr>)"

definition upload_request :: FileRequest where
  "upload_request = FileRequest ''c'' ''a/b'' (record_canonical_hash (c_blake3 sample_crypto) sample_upload)"

definition landing :: session where
  "landing = \<lparr>se_world = occupied landing_store 0, se_in = wire_frame FrameTag.File (record_canonical_bytes sample_upload) @ [1, 2],
     se_out = [], se_received = 0, se_net = 0\<rparr>"

lemma sample_upload_wf: "record_wf sample_upload"
  using sample_file_wf by (simp add: record_wf_def sample_upload_def sample_file_def kind_wf_def)

lemma landing_records:
  "records_ok sample_crypto landing_store" "lookup_record sample_crypto ''c'' ''a/b'' (opened landing_store) = Inr (Some sample_upload)"
proof -
  let ?s = "fresh_database\<lparr>t_collections := [(''c'', \<lparr>row_local_path = [47], row_resolved_root = None,
       row_scan_status = ''pending'', row_watch_status = ''pending''\<rparr>)]\<rparr>"
  have ok: "records_ok sample_crypto ?s" by (simp add: records_ok_def fresh_database_def)
  have key: "om_contains (t_collections ?s) (r_collection sample_upload)" by (simp add: sample_upload_def om_contains_def)
  show store: "records_ok sample_crypto landing_store"
    unfolding landing_store_def Let_def by (rule upsert_records_ok [OF ok sample_upload_wf key])
  have "winner sample_crypto landing_store (''c'', ''a/b'') = Some sample_upload"
    unfolding landing_store_def Let_def using winner_upsert [OF ok sample_upload_wf key]
    by (simp add: sample_upload_def rec_key_def)
  then show "lookup_record sample_crypto ''c'' ''a/b'' (opened landing_store) = Inr (Some sample_upload)"
    using load_record_ok(1) [of sample_crypto "opened landing_store" "(''c'', ''a/b'')"] store
    by (simp add: lookup_record_def opened_same)
qed

lemma landing_header: "decode_file_header (record_canonical_bytes sample_upload) = Inr sample_upload"
proof -
  have "record_from_canonical (record_canonical_bytes sample_upload) = Inr sample_upload"
    using sample_upload_wf by (rule record_roundtrip)
  moreover have "validate_record sample_upload (r_collection sample_upload) = Inr ()" "check_file_kind sample_upload = Inr ()"
    by (simp_all add: validate_record_def check_file_kind_def sample_upload_def validate_collection_def validate_short_string_def MAX_COLLECTION_NAME_BYTES_def MAX_FILE_BYTES_def MAX_PATH_BYTES_def)
  ultimately show ?thesis by (simp add: decode_file_header_def)
qed

lemma landing_run:
  obtains r s' where "receive_file busy_env sample_crypto sample_json sample_peer sample_config 5 upload_request landing = (r, s')"
    "w_tree (se_world s') = w_tree (overwritten landing_store 0)"
proof -
  let ?hdr = "record_canonical_bytes sample_upload"
  have net: "net_call sample_peer t f s = (Inr (), s\<lparr>se_net := Suc (se_net s)\<rparr>)" for t f :: SyncError and s
    by (simp add: net_call_def sample_peer_def)
  have noop: "mapErrS g (io_noop busy_env) (occupied s n) = (Inr (), occupied s (Suc n))" for g s n
    by (simp add: file_calls occupied_def)
  have len: "length ?hdr = 113"
    using sample_upload_wf by (simp add: record_canonical_bytes_eq record_body_def length_RECORD_DOMAIN kind_bytes_def sample_upload_def)
  have frame: "read_frame_async 0 (wire_frame FrameTag.File ?hdr @ [1, 2]) = Inr ((FrameTag.File, ?hdr), 118, [1, 2])"
    using len by (simp add: read_frame_async_Inr decode_frame_Inr payload_limit_def wire_limits add_received_Inr)
  have count: "add_received 118 2 = Inr 120" by (simp add: add_received_Inr)
  have chunk: "receive_chunks busy_env sample_peer [] 2 s = (Inr [1, 2], s\<lparr>se_net := Suc (se_net s), se_in := [],
      se_world := occupied t (Suc n)\<rparr>)" if "se_in s = [1, 2]" "se_world s = occupied t n" for s t n
    using that
    by (simp add: receive_chunks.simps [of _ _ _ 2] receive_chunks.simps [of _ _ _ 0] bindS_def net_read_exact_def net on_local_def noop)
  have raw: "receive_raw_file busy_env sample_crypto sample_peer 2 2 s = (Inr [1, 2], s\<lparr>se_net := Suc (se_net s), se_in := [],
      se_world := occupied t (Suc (Suc n))\<rparr>)" if "se_in s = [1, 2]" "se_world s = occupied t n" for s t n
    using that by (simp add: receive_raw_file_def bindS_def chunk [OF that] on_local_def noop sample_crypto_def)
  have migrated: "migrate landing_store = (Inr (), opened landing_store)"
    by (rule migrate_new) (simp_all add: landing_store_def fresh_database_def)
  have opened: "open_store_file (occupied landing_store n) = (Inr (), occupied (opened landing_store) n)" for n
    using migrated by (simp add: open_store_file_def wdb_def mapErrS_def db_def occupied_def)
  have look: "wquery (lookup_record sample_crypto ''c'' ''a/b'') (occupied (opened landing_store) n)
      = (Inr (Some sample_upload), occupied (opened landing_store) n)" for n
    using landing_records(2) by (simp add: wquery_Inr occupied_def)
  have named: "wquery (collection_named ''c'') (occupied (opened landing_store) n)
      = (Inr (Some (sample_collection\<lparr>cs_local_path := [47]\<rparr>)), occupied (opened landing_store) n)" for n
    by (simp add: wquery_Inr occupied_def collection_named_def opened_def landing_store_def Let_def om_get_def decode_collection_def
        scan_status_from_str_def watch_status_from_str_def sample_collection_def)
  have upload: "r_collection sample_upload = ''c''" "as_str (r_path sample_upload) = ''a/b''" "r_kind sample_upload = RecordKind.File 2 2"
    "fr_collection upload_request = ''c''" "fr_path upload_request = ''a/b''"
    "fr_record_hash upload_request = record_canonical_hash (c_blake3 sample_crypto) sample_upload"
    by (simp_all add: sample_upload_def upload_request_def)
  obtain r1 w1 where fixture: "apply_file_fixture busy_env sample_crypto sample_json [47] sample_upload [1, 2] (cf_max_logs sample_config)
      (occupied (opened landing_store) 4) = (r1, w1)" by fastforce
  have tree: "w_tree w1 = w_tree (overwritten landing_store 0)"
    using fixture_tree [OF fixture] occupied_run [of "opened landing_store" 4] by (auto simp: install_file_def overwritten_def)
  define later where "later = (case r1 of
      Inl e \<Rightarrow> if is_apply_failure e
        then catchS (log_event busy_env sample_json sample_config (FileApplyRejected ''c'' (r_path sample_upload))) (\<lambda>_. returnS ())
        else returnS ()
    | Inr _ \<Rightarrow> log_event busy_env sample_json sample_config (FileReceived ''c'' (r_path sample_upload) 5))"
  have "preserves (same_tree (w_tree w1)) later"
    unfolding later_def by (cases r1) (auto intro!: preserves_catchS same_tree_log preserves_pure)
  then have last: "w_tree (snd (later w1)) = w_tree (overwritten landing_store 0)"
    using tree preservesD [of "same_tree (w_tree w1)" later w1 "fst (later w1)" "snd (later w1)"] by (simp add: same_tree_def)
  have applied: "apply_received busy_env sample_crypto sample_json sample_config 5 upload_request sample_upload [1, 2] (occupied landing_store 3)
      = later w1"
    using fixture
    by (simp add: apply_received_def Let_def bindS_def noop opened look named upload catchS_def later_def eval_nat_numeral)
  define s1 where "s1 = landing\<lparr>se_net := 1, se_in := [1, 2], se_received := 118\<rparr>"
  have read: "read_frame sample_peer landing = (Inr (FrameTag.File, ?hdr), s1)"
    using frame by (simp add: read_frame_def bindS_def net_call_def sample_peer_def landing_def s1_def)
  have s1: "se_received s1 = 118" "se_in s1 = [1, 2]" "se_world s1 = occupied landing_store 0" by (simp_all add: s1_def landing_def)
  define s2 where "s2 = s1\<lparr>se_received := 120, se_world := occupied landing_store 1\<rparr>"
  have s2: "se_in s2 = [1, 2]" "se_world s2 = occupied landing_store 1" by (simp_all add: s2_def s1)
  have wait: "on_local (mapErrS SyncError.Io (io_noop busy_env)) (s1\<lparr>se_received := 120\<rparr>) = (Inr (), s2)"
    by (simp add: on_local_def s1(3) noop s2_def)
  have "receive_file busy_env sample_crypto sample_json sample_peer sample_config 5 upload_request landing
      = on_local (apply_received busy_env sample_crypto sample_json sample_config 5 upload_request sample_upload [1, 2])
          (s2\<lparr>se_net := Suc (se_net s2), se_in := [], se_world := occupied landing_store 3\<rparr>)"
    using raw [OF s2]
    by (simp add: receive_file_def bindS_def read landing_header upload s1(1) count wait catchS_def numeral_3_eq_3)
  then have "w_tree (se_world (snd (receive_file busy_env sample_crypto sample_json sample_peer sample_config 5 upload_request landing)))
      = w_tree (overwritten landing_store 0)"
    using last by (simp add: on_local_def applied case_prod_beta)
  then show ?thesis using that by (metis prod.collapse)
qed

theorem only_requested_files_land_witness:
  "\<exists>r s' record header content later. receive_file busy_env sample_crypto sample_json sample_peer sample_config 5 upload_request landing = (r, s')
    \<and> w_tree (se_world s') \<noteq> w_tree (se_world landing)
    \<and> se_in landing = (tag_byte FrameTag.File # sized header) @ content @ later \<and> decode_file_header header = Inr record
    \<and> landed busy_env sample_crypto (w_tree (se_world landing)) (t_collections landing_store)
        (winner sample_crypto landing_store) upload_request record content (w_tree (se_world s'))"
proof -
  obtain r s' where run: "receive_file busy_env sample_crypto sample_json sample_peer sample_config 5 upload_request landing = (r, s')"
      and tree: "w_tree (se_world s') = w_tree (overwritten landing_store 0)"
    by (rule landing_run)
  have world: "w_state (se_world landing) = landing_store" "w_tree (se_world landing) = w_tree (occupied landing_store 0)"
    by (simp_all add: landing_def occupied_def)
  have "tree_wf (w_tree (se_world landing))" by (auto simp: world occupied_def tree_wf_def om_get_def)
  moreover have "\<forall>record. as_str (r_path record) = fr_path upload_request \<longrightarrow> no_temporary busy_env record"
    by (auto intro!: busy_env_name simp: upload_request_def file_name_def path_components_def)
  moreover have "records_ok sample_crypto (w_state (se_world landing))" by (simp add: world landing_records(1))
  moreover have "w_tree (se_world s') \<noteq> w_tree (se_world landing)"
    by (simp add: tree world occupied_def overwritten_def)
  ultimately show ?thesis
    using only_requested_files_land [OF _ _ busy_env_honest _ run] run unfolding world(1) by blast
qed

theorem members_only_witness:
  "\<exists>s s' chain. exchange_rosters sample_crypto sample_peer sample_config 5 s = (Inr (False, [''c'']), s')
    \<and> selected_roster_chain sample_crypto (w_state (se_world s')) = Inr chain \<and> is_member (last chain) 5"
proof -
  obtain s s' where run: "exchange_rosters sample_crypto sample_peer sample_config 5 s = (Inr (False, [''c'']), s')"
    by (rule mirror_session)
  with members_only [OF run] show ?thesis by blast
qed

definition large_file :: Record where
  "large_file = sample_file\<lparr>r_kind := RecordKind.File (64 * 1024 * 1024 + 1) 9\<rparr>"

theorem large_file_stops_session_witness:
  "\<exists>s e s'. winner sample_crypto (w_state (se_world s)) (''c'', ''a/b'') = Some large_file
    \<and> exchange_manifests sample_env sample_crypto sample_json sample_peer sample_config 5 [''c''] s = (Inl e, s') \<and> se_out s' = []"
proof -
  have wf: "record_wf large_file"
    using sample_file_wf by (simp add: record_wf_def large_file_def sample_file_def kind_wf_def)
  have key: "rec_key large_file = (''c'', ''a/b'')" "r_collection large_file = ''c''"
    by (simp_all add: rec_key_def large_file_def sample_file_def)
  define s where "s = sample_records_store\<lparr>path_records :=
     om_insert (rec_key large_file) (row_of_record sample_crypto large_file True) (path_records sample_records_store)\<rparr>"
  have ok: "records_ok sample_crypto s"
    unfolding s_def by (rule upsert_records_ok [OF sample_records_ok wf]) (simp add: key sample_names)
  have w: "winner sample_crypto s (''c'', ''a/b'') = Some large_file"
    unfolding s_def using winner_upsert [OF sample_records_ok wf, of sample_crypto True "(''c'', ''a/b'')"]
    by (simp add: key sample_names)
  have "r_kind large_file = RecordKind.File (64 * 1024 * 1024 + 1) 9" by (simp add: large_file_def)
  moreover have "MAX_FILE_BYTES < 64 * 1024 * 1024 + 1" by (simp add: MAX_FILE_BYTES_def)
  moreover have "records_ok sample_crypto (w_state (se_world (session_at s [])))"
    "winner sample_crypto (w_state (se_world (session_at s []))) (''c'', ''a/b'') = Some large_file"
    using ok w by (simp_all add: session_world)
  ultimately obtain e s' where "exchange_manifests sample_env sample_crypto sample_json sample_peer sample_config 5 [''c'']
      (session_at s []) = (Inl e, s')" "se_out s' = se_out (session_at s [])"
    using large_file_stops_session [of sample_crypto "session_at s []" "''c''" "[''c'']" "''a/b''" large_file] by (metis list.set_intros(1))
  then show ?thesis using w by (intro exI [of _ "session_at s []"]) (auto simp: session_world, simp add: session_at_def)
qed

end
