(* ===== verification/Join_Coordinator.thy ===== *)
theory Join_Coordinator
  imports Sync_Transfer
begin

text \<open>
  \<open>join.rs\<close>, the inviting side's coordinator: the one invitation that can be active, the one join request that can be
  pending, and the channel on which the person's decision reaches the connection that waits for it. Every operation
  takes the coordinator's mutex for its whole body, so it is one action on the state; none of them panics while it
  holds the mutex, so the poisoned case (\<open>JoinError::Coordinator\<close>) does not arise. The monotonic clock, read anew by
  every \<open>Instant::now()\<close>, and the random request ids of \<open>uuid\<close> are the parameter \<open>join_env\<close>; instants and durations
  are nanoseconds, and no sum of an instant and 900 seconds overflows an \<open>Instant\<close>.
\<close>

section \<open>Errors, limits and parameters\<close>

datatype JoinError =
    InvalidInvitationLifetime
  | InvitationBusy
  | InvitationUnavailable
  | Coordinator
  | UnknownJoinRequest
  | JoinerGone
  | InvalidTicket
  | InvalidDeviceName
  | WrongInviter
  | Rejected
  | InvalidRoster
  | InvalidAddress
  | InvalidFrame
  | FrameTooLarge
  | Timeout
  | Transport
  | Bind string
  | State StateError

definition JOIN_REQUEST_LIMIT :: nat where "JOIN_REQUEST_LIMIT = 32 * 1024"
definition JOIN_RESPONSE_LIMIT :: nat where "JOIN_RESPONSE_LIMIT = MAX_ROSTER_BYTES * 4 div 3 + 1 + 512 * 1024"
definition MAX_JOIN_HINT_TEXT_BYTES :: nat where "MAX_JOIN_HINT_TEXT_BYTES = 200 * 1024"
definition MAX_DEVICE_NAME_BYTES :: nat where "MAX_DEVICE_NAME_BYTES = 255"

definition secs :: "nat \<Rightarrow> nat" where
  "secs n = n * 1000000000"

definition MAX_INVITATION_LIFETIME :: nat where "MAX_INVITATION_LIFETIME = secs 900"

record join_env =
  je_now :: "nat \<Rightarrow> nat"
  je_uuid :: "nat \<Rightarrow> string"

section \<open>Nonces, device names and addresses\<close>

text \<open>\<open>SecretNonce::matches\<close>: every byte is compared, whatever the earlier ones were.\<close>

fun nonce_difference :: "byte list \<Rightarrow> byte list \<Rightarrow> byte \<Rightarrow> byte" where
  "nonce_difference (a # as) (b # bs) difference = nonce_difference as bs (difference OR (a XOR b))"
| "nonce_difference as bs difference = difference"

definition nonce_matches :: "bytes32 \<Rightarrow> bytes32 \<Rightarrow> bool" where
  "nonce_matches a b \<longleftrightarrow> nonce_difference (to_be_bytes a) (to_be_bytes b) 0 = 0"

text \<open>\<open>char::is_control\<close>: the code points of the general category Cc.\<close>

definition is_control :: "nat \<Rightarrow> bool" where
  "is_control c \<longleftrightarrow> c < 32 \<or> (127 \<le> c \<and> c < 160)"

definition terminal_unsafe_character :: "nat \<Rightarrow> bool" where
  "terminal_unsafe_character c \<longleftrightarrow> is_control c \<or> c = 0x61c \<or> c = 0x200e \<or> c = 0x200f \<or> c = 0x2028 \<or> c = 0x2029
     \<or> (0x202a \<le> c \<and> c \<le> 0x202e) \<or> (0x2066 \<le> c \<and> c \<le> 0x2069)"

definition validate_join_device_name :: "string \<Rightarrow> JoinError + unit" where
  "validate_join_device_name name =
    (if trim_is_empty name \<or> length name > MAX_DEVICE_NAME_BYTES \<or> list_ex terminal_unsafe_character (chars name)
     then Inl InvalidDeviceName else Inr ())"

text \<open>The format \<open>{:x}\<close> of an unsigned integer.\<close>

fun lower_hex :: "nat \<Rightarrow> string" where
  "lower_hex n = (if n < 16 then [hex_digit n] else lower_hex (n div 16) @ [hex_digit (n mod 16)])"

definition terminal_safe_device_name :: "string \<Rightarrow> string" where
  "terminal_safe_device_name name = concat (map (\<lambda>c.
     if terminal_unsafe_character c then CHR 0x5c # ''u{'' @ lower_hex c @ ''}''
     else map char_of_byte (encode_utf8_char c)) (chars name))"

definition validate_endpoint_addr :: "peer_env \<Rightarrow> string \<Rightarrow> EndpointId \<Rightarrow> JoinError + unit" where
  "validate_endpoint_addr N encoded endpoint =
    (if encoded = [] \<or> length encoded > 16 * 1024 then Inl InvalidAddress
     else bindE (ok_or InvalidAddress (pe_addr_from_str N encoded)) (\<lambda>addr.
       if ea_id addr \<noteq> endpoint \<or> length (ea_addrs addr) > MAX_ENDPOINT_ADDRS then Inl InvalidAddress
       else Inr ()))"

section \<open>The state\<close>

record PendingJoinInfo =
  ji_request_id :: string
  ji_endpoint_id :: EndpointId
  ji_device_name :: string

datatype JoinDecision =
    Rejected
  | Approved string "(string, string) omap"

text \<open>The channel of \<open>tokio::sync::oneshot\<close>, which either end can leave before the value is taken.\<close>

datatype oneshot = Waiting | Sent JoinDecision | SenderDropped | ReceiverGone

record ActiveInvitation =
  ai_nonce :: bytes32
  ai_deadline :: nat

text \<open>A sender is the number of its channel.\<close>

record PendingJoin =
  pj_info :: PendingJoinInfo
  pj_endpoint_addr_json :: string
  pj_decision :: nat
  pj_deadline :: nat

datatype JoinState = Idle | Active ActiveInvitation | Pending PendingJoin

record coordinator =
  co_state :: JoinState
  co_channels :: "oneshot list"
  co_ticks :: nat

type_synonym 'a join_action = "(coordinator, JoinError, 'a) action"

definition new_coordinator :: coordinator where
  "new_coordinator = \<lparr>co_state = Idle, co_channels = [], co_ticks = 0\<rparr>"

definition instant_now :: "join_env \<Rightarrow> nat join_action" where
  "instant_now V c = (Inr (je_now V (co_ticks c)), c\<lparr>co_ticks := Suc (co_ticks c)\<rparr>)"

definition get_state :: "JoinState join_action" where
  "get_state c = (Inr (co_state c), c)"

definition put_state :: "JoinState \<Rightarrow> unit join_action" where
  "put_state state c = (Inr (), c\<lparr>co_state := state\<rparr>)"

definition drop_sender :: "nat \<Rightarrow> oneshot list \<Rightarrow> oneshot list" where
  "drop_sender ch chs = (if chs ! ch = Waiting then chs[ch := SenderDropped] else chs)"

text \<open>\<open>*state = JoinState::Idle\<close>, which drops the sender of a pending request.\<close>

definition reset_state :: "unit join_action" where
  "reset_state c = (Inr (), c\<lparr>co_state := Idle,
     co_channels := (case co_state c of Pending p \<Rightarrow> drop_sender (pj_decision p) (co_channels c) | _ \<Rightarrow> co_channels c)\<rparr>)"

section \<open>Operations\<close>

definition expire_locked :: "join_env \<Rightarrow> unit join_action" where
  "expire_locked V =
    bindS get_state (\<lambda>state.
    bindS (case state of
        Idle \<Rightarrow> returnS False
      | Active invitation \<Rightarrow> bindS (instant_now V) (\<lambda>now. returnS (ai_deadline invitation \<le> now))
      | Pending p \<Rightarrow> bindS (instant_now V) (\<lambda>now. returnS (pj_deadline p \<le> now))) (\<lambda>expired.
    if expired then reset_state else returnS ()))"

definition activate :: "join_env \<Rightarrow> bytes32 \<Rightarrow> nat \<Rightarrow> unit join_action" where
  "activate V nonce lifetime =
    (if \<not> (secs 60 \<le> lifetime \<and> lifetime \<le> MAX_INVITATION_LIFETIME) then throwS InvalidInvitationLifetime
     else
       bindS (expire_locked V) (\<lambda>_.
       bindS get_state (\<lambda>state.
       if state \<noteq> Idle then throwS InvitationBusy
       else bindS (instant_now V) (\<lambda>now. put_state (Active \<lparr>ai_nonce = nonce, ai_deadline = now + lifetime\<rparr>)))))"

definition pending :: "join_env \<Rightarrow> PendingJoinInfo option join_action" where
  "pending V =
    bindS (expire_locked V) (\<lambda>_.
    bindS get_state (\<lambda>state.
    returnS (case state of Pending p \<Rightarrow> Some (pj_info p) | _ \<Rightarrow> None)))"

definition pending_addr :: "join_env \<Rightarrow> string \<Rightarrow> (PendingJoinInfo \<times> string) join_action" where
  "pending_addr V request_id =
    bindS (expire_locked V) (\<lambda>_.
    bindS get_state (\<lambda>state. case state of
        Pending p \<Rightarrow> if ji_request_id (pj_info p) \<noteq> request_id then throwS UnknownJoinRequest
          else returnS (pj_info p, pj_endpoint_addr_json p)
      | _ \<Rightarrow> throwS UnknownJoinRequest))"

text \<open>\<open>Sender::send\<close>\<close>

definition send_decision :: "nat \<Rightarrow> JoinDecision \<Rightarrow> unit join_action" where
  "send_decision ch decision c =
    (if co_channels c ! ch = ReceiverGone then (Inl JoinerGone, c)
     else (Inr (), c\<lparr>co_channels := (co_channels c)[ch := Sent decision]\<rparr>))"

definition decide :: "join_env \<Rightarrow> string \<Rightarrow> JoinDecision \<Rightarrow> unit join_action" where
  "decide V request_id decision =
    bindS (expire_locked V) (\<lambda>_.
    bindS get_state (\<lambda>state. case state of
        Pending p \<Rightarrow> if ji_request_id (pj_info p) \<noteq> request_id then throwS UnknownJoinRequest
          else bindS (put_state Idle) (\<lambda>_. send_decision (pj_decision p) decision)
      | _ \<Rightarrow> throwS UnknownJoinRequest))"

definition cancel :: "string \<Rightarrow> unit join_action" where
  "cancel request_id =
    bindS get_state (\<lambda>state. case state of
        Pending p \<Rightarrow> if ji_request_id (pj_info p) = request_id then reset_state else returnS ()
      | _ \<Rightarrow> returnS ())"

text \<open>\<open>oneshot::channel()\<close>: the result is the number of the new channel, which stands for both of its ends.\<close>

definition new_channel :: "nat join_action" where
  "new_channel c = (Inr (length (co_channels c)), c\<lparr>co_channels := co_channels c @ [Waiting]\<rparr>)"

text \<open>The result is the receiver, the time that remains and the request id.\<close>

definition claim ::
  "join_env \<Rightarrow> peer_env \<Rightarrow> bytes32 \<Rightarrow> EndpointId \<Rightarrow> string \<Rightarrow> string \<Rightarrow> (nat \<times> nat \<times> string) join_action" where
  "claim V N nonce remote_endpoint device_name endpoint_addr_json =
    bindS (liftS (validate_join_device_name device_name)) (\<lambda>_.
    bindS (liftS (validate_endpoint_addr N endpoint_addr_json remote_endpoint)) (\<lambda>_.
    bindS (expire_locked V) (\<lambda>_.
    bindS get_state (\<lambda>state. case state of
        Active invitation \<Rightarrow>
          if \<not> nonce_matches (ai_nonce invitation) nonce then throwS InvitationUnavailable
          else
            bindS (instant_now V) (\<lambda>now.
            let remaining = ai_deadline invitation - now in
            if remaining = 0 then throwS InvitationUnavailable
            else
              bindS new_channel (\<lambda>ch.
              let request_id = je_uuid V ch in
              bindS (put_state (Pending
                \<lparr>pj_info = \<lparr>ji_request_id = request_id, ji_endpoint_id = remote_endpoint, ji_device_name = device_name\<rparr>,
                 pj_endpoint_addr_json = endpoint_addr_json, pj_decision = ch, pj_deadline = ai_deadline invitation\<rparr>)) (\<lambda>_.
              returnS (ch, remaining, request_id))))
      | _ \<Rightarrow> throwS InvitationUnavailable))))"

end
