(* ===== verification/Join_System.thy ===== *)
theory Join_System
  imports Join_Coordinator
begin

text \<open>
  The coordinator among its callers. The person's commands (\<open>activate\<close>, \<open>pending\<close>, \<open>pending_addr\<close>, \<open>decide\<close>) and the
  connections that deliver a request (\<open>claim\<close>) run in any order; between its claim and its answer each connection is a
  task that waits in the \<open>tokio::select!\<close> of \<open>run_inviter\<close>. A run is the sequence of these events. The theorems show
  what an invitation and a decision are worth: an invitation admits one request, before its deadline; what a waiting
  connection gets is the one decision taken on its own request; and no invitation blocks the next one for longer than its lifetime.
\<close>

section \<open>The constant-time comparison is equality\<close>

lemma nonce_difference_mono: "nonce_difference as bs d = 0 \<Longrightarrow> d = 0"
proof (induction as bs d rule: nonce_difference.induct)
  case (1 a as b bs d)
  then have "d OR (a XOR b) = 0" by simp
  then show ?case by (metis or_eq_0_iff)
qed auto

lemma nonce_difference_eq_0:
  "length as = length bs \<Longrightarrow> nonce_difference as bs d = 0 \<longleftrightarrow> d = 0 \<and> as = bs"
proof (induction as bs d rule: nonce_difference.induct)
  case (1 a as b bs d)
  then show ?case by (auto simp: or_eq_0_iff xor_self_eq) (metis bit.xor_left_self xor.right_neutral)+
qed auto

lemma nonce_matches_iff [simp]: "nonce_matches a b \<longleftrightarrow> a = b"
  by (simp add: nonce_matches_def nonce_difference_eq_0 to_be_bytes_inj)

section \<open>Events and runs\<close>

datatype join_call =
    Activate bytes32 nat
  | AskPending
  | AskAddr string
  | Decide string JoinDecision
  | Claim bytes32 EndpointId string string

datatype join_answer = Done | Info "PendingJoinInfo option" | Addr PendingJoinInfo string | Granted nat nat string

definition coordinator_call :: "join_env \<Rightarrow> peer_env \<Rightarrow> join_call \<Rightarrow> join_answer join_action" where
  "coordinator_call V N x = (case x of
      Activate nonce lifetime \<Rightarrow> bindS (activate V nonce lifetime) (\<lambda>_. returnS Done)
    | AskPending \<Rightarrow> bindS (pending V) (\<lambda>info. returnS (Info info))
    | AskAddr request_id \<Rightarrow> bindS (pending_addr V request_id) (\<lambda>(info, addr). returnS (Addr info addr))
    | Decide request_id decision \<Rightarrow> bindS (decide V request_id decision) (\<lambda>_. returnS Done)
    | Claim nonce e name addr \<Rightarrow> bindS (claim V N nonce e name addr) (\<lambda>(ch, remaining, request_id).
        returnS (Granted ch remaining request_id)))"

text \<open>
  The branches of \<open>tokio::select!\<close>. The timer and the end of the connection can win at any moment; that a full channel
  wins against the timer when both are ready is the order in which \<open>timeout\<close> polls them.
\<close>

datatype wait_outcome = Decision JoinDecision | DecisionDropped | WaitExpired | ConnectionClosed

definition wait_possible :: "oneshot \<Rightarrow> wait_outcome \<Rightarrow> bool" where
  "wait_possible channel outcome = (case outcome of
      Decision d \<Rightarrow> channel = Sent d
    | DecisionDropped \<Rightarrow> channel = SenderDropped
    | WaitExpired \<Rightarrow> channel = Waiting
    | ConnectionClosed \<Rightarrow> True)"

definition drop_receiver :: "nat \<Rightarrow> unit join_action" where
  "drop_receiver ch c = (Inr (), c\<lparr>co_channels := (co_channels c)[ch := ReceiverGone]\<rparr>)"

text \<open>What the connection does with the outcome; returning or taking the value ends its receiver.\<close>

definition wake :: "nat \<Rightarrow> string \<Rightarrow> wait_outcome \<Rightarrow> JoinDecision join_action" where
  "wake ch request_id outcome = (case outcome of
      Decision d \<Rightarrow> bindS (drop_receiver ch) (\<lambda>_. returnS d)
    | DecisionDropped \<Rightarrow> bindS (drop_receiver ch) (\<lambda>_. throwS JoinerGone)
    | WaitExpired \<Rightarrow> bindS (cancel request_id) (\<lambda>_. bindS (drop_receiver ch) (\<lambda>_. throwS InvitationUnavailable))
    | ConnectionClosed \<Rightarrow> bindS (cancel request_id) (\<lambda>_. bindS (drop_receiver ch) (\<lambda>_. throwS JoinerGone)))"

record join_system =
  sy_coordinator :: coordinator
  sy_tasks :: "(nat \<times> string) list"

text \<open>A task can also be dropped where it waits, as when the daemon stops. An event holds its result and the last time that was read when it ended.\<close>

datatype join_event =
    Called join_call "JoinError + join_answer" nat
  | Woken nat string wait_outcome
  | Aborted nat string

definition last_reading :: "join_env \<Rightarrow> coordinator \<Rightarrow> nat" where
  "last_reading V c = je_now V (co_ticks c - 1)"

definition waiting_after :: "JoinError + join_answer \<Rightarrow> (nat \<times> string) list \<Rightarrow> (nat \<times> string) list" where
  "waiting_after r tasks = (case r of Inr (Granted ch _ request_id) \<Rightarrow> (ch, request_id) # tasks | _ \<Rightarrow> tasks)"

inductive join_step :: "join_env \<Rightarrow> peer_env \<Rightarrow> join_system \<Rightarrow> join_event \<Rightarrow> join_system \<Rightarrow> bool"
  for V :: join_env and N :: peer_env where
  call: "coordinator_call V N x (sy_coordinator s) = (r, c') \<Longrightarrow>
    join_step V N s (Called x r (last_reading V c')) \<lparr>sy_coordinator = c', sy_tasks = waiting_after r (sy_tasks s)\<rparr>"
| wakes: "(ch, request_id) \<in> set (sy_tasks s) \<Longrightarrow> wait_possible (co_channels (sy_coordinator s) ! ch) outcome \<Longrightarrow>
    wake ch request_id outcome (sy_coordinator s) = (r, c') \<Longrightarrow>
    join_step V N s (Woken ch request_id outcome)
      \<lparr>sy_coordinator = c', sy_tasks = filter (\<lambda>t. t \<noteq> (ch, request_id)) (sy_tasks s)\<rparr>"

| aborts: "(ch, request_id) \<in> set (sy_tasks s) \<Longrightarrow> drop_receiver ch (sy_coordinator s) = (r, c') \<Longrightarrow>
    join_step V N s (Aborted ch request_id)
      \<lparr>sy_coordinator = c', sy_tasks = filter (\<lambda>t. t \<noteq> (ch, request_id)) (sy_tasks s)\<rparr>"

inductive_cases join_step_cases: "join_step V N s x s'"

inductive join_run :: "join_env \<Rightarrow> peer_env \<Rightarrow> join_event list \<Rightarrow> join_system \<Rightarrow> bool"
  for V :: join_env and N :: peer_env where
  start: "join_run V N [] \<lparr>sy_coordinator = new_coordinator, sy_tasks = []\<rparr>"
| step: "join_run V N tr s \<Longrightarrow> join_step V N s x s' \<Longrightarrow> join_run V N (tr @ [x]) s'"

lemma join_run_last:
  assumes "join_run V N tr' s'" and "tr' = tr @ [x]"
  obtains s where "join_run V N tr s" "join_step V N s x s'"
  using assms by (cases rule: join_run.cases) auto

lemma join_run_prefix: "join_run V N (tr @ tr') s' \<Longrightarrow> \<exists>s. join_run V N tr s"
proof (induction tr' arbitrary: s' rule: rev_induct)
  case Nil
  then show ?case by auto
next
  case (snoc x tr')
  then show ?case by (metis append_assoc join_run_last)
qed

section \<open>What a call does\<close>

text \<open>
  The specification of the coordinator over its two parts that matter, the state and the channels: an invitation or a
  request may lapse first, then the call takes effect or is refused.
\<close>

type_synonym core = "JoinState \<times> oneshot list"

definition core_of :: "coordinator \<Rightarrow> core" where
  "core_of c = (co_state c, co_channels c)"

fun lapsed :: "core \<Rightarrow> core" where
  "lapsed (Pending p, chs) = (Idle, drop_sender (pj_decision p) chs)"
| "lapsed (_, chs) = (Idle, chs)"

inductive settles :: "core \<Rightarrow> core \<Rightarrow> bool" where
  stays: "settles k k"
| lapses: "settles k (lapsed k)"

inductive answered :: "join_env \<Rightarrow> peer_env \<Rightarrow> join_call \<Rightarrow> core \<Rightarrow> JoinError + join_answer \<Rightarrow> core \<Rightarrow> nat \<Rightarrow> bool"
  for V :: join_env and N :: peer_env where
  refused: "answered V N x k (Inl e) k t"
| told: "answered V N AskPending k (Inr (Info info)) k t"
| told_addr: "answered V N (AskAddr request_id) k (Inr (Addr info addr)) k t"
| activated: "secs 60 \<le> lifetime \<Longrightarrow> lifetime \<le> MAX_INVITATION_LIFETIME \<Longrightarrow>
    answered V N (Activate nonce lifetime) (Idle, chs) (Inr Done) (Active \<lparr>ai_nonce = nonce, ai_deadline = t + lifetime\<rparr>, chs) t"
| decided: "chs ! pj_decision p \<noteq> ReceiverGone \<Longrightarrow> ji_request_id (pj_info p) = request_id \<Longrightarrow>
    answered V N (Decide request_id d) (Pending p, chs) (Inr Done) (Idle, chs[pj_decision p := Sent d]) t"
| undeliverable: "chs ! pj_decision p = ReceiverGone \<Longrightarrow>
    answered V N (Decide request_id d) (Pending p, chs) (Inl JoinerGone) (Idle, chs) t"
| granted: "validate_join_device_name name = Inr () \<Longrightarrow> validate_endpoint_addr N addr e = Inr () \<Longrightarrow> t < ai_deadline i \<Longrightarrow>
    answered V N (Claim (ai_nonce i) e name addr) (Active i, chs)
      (Inr (Granted (length chs) (ai_deadline i - t) (je_uuid V (length chs))))
      (Pending \<lparr>pj_info = \<lparr>ji_request_id = je_uuid V (length chs), ji_endpoint_id = e, ji_device_name = name\<rparr>,
         pj_endpoint_addr_json = addr, pj_decision = length chs, pj_deadline = ai_deadline i\<rparr>, chs @ [Waiting]) t"

inductive_cases activated_cases: "answered V N (Activate nonce lifetime) k (Inr r) k' t"
inductive_cases decided_cases: "answered V N (Decide request_id d) k (Inr r) k' t"
inductive_cases granted_cases: "answered V N x k (Inr (Granted ch remaining request_id)) k' t"
inductive_cases answered_cases: "answered V N x k r k' t"
inductive_cases settles_cases: "settles k k'"

lemmas join_action_defs = bindS_def get_state_def put_state_def instant_now_def reset_state_def new_channel_def
  send_decision_def core_of_def

lemma expire_locked_cases:
  obtains c1 where "expire_locked V c = (Inr (), c1)" and "settles (core_of c) (core_of c1)"
proof (cases "co_state c")
  case Idle
  then have "expire_locked V c = (Inr (), c)" by (simp add: expire_locked_def join_action_defs)
  then show ?thesis by (rule that) (rule stays)
next
  case (Active i)
  have "settles (core_of c) (Active i, co_channels c)" using Active stays [of "core_of c"] by (simp add: core_of_def)
  moreover have "settles (core_of c) (Idle, co_channels c)" using Active lapses [of "core_of c"] by (simp add: core_of_def)
  ultimately show ?thesis
    using Active that by (cases "ai_deadline i \<le> je_now V (co_ticks c)") (auto simp: expire_locked_def join_action_defs)
next
  case (Pending p)
  have "settles (core_of c) (Pending p, co_channels c)" using Pending stays [of "core_of c"] by (simp add: core_of_def)
  moreover have "settles (core_of c) (Idle, drop_sender (pj_decision p) (co_channels c))"
    using Pending lapses [of "core_of c"] by (simp add: core_of_def)
  ultimately show ?thesis
    using Pending that by (cases "pj_deadline p \<le> je_now V (co_ticks c)") (auto simp: expire_locked_def join_action_defs)
qed

lemma activate_answered:
  assumes "activate V nonce lifetime c = (r, c')"
  obtains k where "settles (core_of c) k"
    "answered V N (Activate nonce lifetime) k (case r of Inl e \<Rightarrow> Inl e | Inr _ \<Rightarrow> Inr Done) (core_of c') (last_reading V c')"
proof -
  obtain c1 where c1: "expire_locked V c = (Inr (), c1)" "settles (core_of c) (core_of c1)" by (rule expire_locked_cases)
  show ?thesis
  proof (cases "secs 60 \<le> lifetime \<and> lifetime \<le> MAX_INVITATION_LIFETIME")
    case False
    with assms have "r = Inl InvalidInvitationLifetime" "c' = c" by (auto simp: activate_def)
    with that [OF stays] show ?thesis by (simp add: refused)
  next
    case True
    show ?thesis
    proof (cases "co_state c1 = Idle")
      case True2: True
      with assms True c1(1) have "r = Inr ()" "last_reading V c' = je_now V (co_ticks c1)"
          "core_of c' = (Active \<lparr>ai_nonce = nonce, ai_deadline = je_now V (co_ticks c1) + lifetime\<rparr>, co_channels c1)"
        by (auto simp: activate_def join_action_defs last_reading_def)
      with that [OF c1(2)] True True2 show ?thesis by (simp add: core_of_def activated)
    next
      case False
      with assms True c1(1) have "r = Inl InvitationBusy" "c' = c1" by (auto simp: activate_def join_action_defs)
      with that [OF c1(2)] show ?thesis by (simp add: refused)
    qed
  qed
qed

lemma decide_answered:
  assumes "decide V request_id d c = (r, c')"
  obtains k where "settles (core_of c) k"
    "answered V N (Decide request_id d) k (case r of Inl e \<Rightarrow> Inl e | Inr _ \<Rightarrow> Inr Done) (core_of c') (last_reading V c')"
proof -
  obtain c1 where c1: "expire_locked V c = (Inr (), c1)" "settles (core_of c) (core_of c1)" by (rule expire_locked_cases)
  show ?thesis
  proof (cases "\<exists>p. co_state c1 = Pending p \<and> ji_request_id (pj_info p) = request_id")
    case True
    then obtain p where p: "co_state c1 = Pending p" "ji_request_id (pj_info p) = request_id" by blast
    show ?thesis
    proof (cases "co_channels c1 ! pj_decision p = ReceiverGone")
      case True
      with assms p c1(1) have "r = Inl JoinerGone" "core_of c' = (Idle, co_channels c1)"
        by (auto simp: decide_def join_action_defs)
      with that [OF c1(2)] p True show ?thesis by (simp add: core_of_def undeliverable)
    next
      case False
      with assms p c1(1) have "r = Inr ()" "core_of c' = (Idle, (co_channels c1)[pj_decision p := Sent d])"
        by (auto simp: decide_def join_action_defs)
      with that [OF c1(2)] p False show ?thesis by (simp add: core_of_def decided)
    qed
  next
    case False
    with assms c1(1) have "r = Inl UnknownJoinRequest" "c' = c1"
      by (auto simp: decide_def bindS_def get_state_def split: JoinState.splits)
    with that [OF c1(2)] show ?thesis by (simp add: refused)
  qed
qed

lemma claim_answered:
  assumes "claim V N nonce e name addr c = (r, c')"
  obtains k where "settles (core_of c) k"
    "answered V N (Claim nonce e name addr) k
       (case r of Inl x \<Rightarrow> Inl x | Inr (ch, remaining, request_id) \<Rightarrow> Inr (Granted ch remaining request_id))
       (core_of c') (last_reading V c')"
proof -
  obtain c1 where c1: "expire_locked V c = (Inr (), c1)" "settles (core_of c) (core_of c1)" by (rule expire_locked_cases)
  note finish = that
  have stop: thesis if "r = Inl x" "core_of c' = core_of c1" for x
    by (rule finish [OF c1(2)]) (use that in \<open>simp add: refused\<close>)
  show ?thesis
  proof (cases "validate_join_device_name name = Inr () \<and> validate_endpoint_addr N addr e = Inr ()")
    case False
    then obtain x where "r = Inl x" "c' = c"
      using assms by (cases "validate_join_device_name name"; cases "validate_endpoint_addr N addr e")
        (auto simp: claim_def bindS_def)
    with that [OF stays] show ?thesis by (simp add: refused)
  next
    case True
    note ok = this
    show ?thesis
    proof (cases "\<exists>i. co_state c1 = Active i \<and> ai_nonce i = nonce")
      case False
      with assms ok c1(1) have "r = Inl InvitationUnavailable" "c' = c1"
        by (auto simp: claim_def bindS_def get_state_def split: JoinState.splits)
      with stop show ?thesis by simp
    next
      case True
      then obtain i where i: "co_state c1 = Active i" "ai_nonce i = nonce" by blast
      define t where "t = je_now V (co_ticks c1)"
      show ?thesis
      proof (cases "t < ai_deadline i")
        case False
        with assms ok c1(1) i have "r = Inl InvitationUnavailable" "core_of c' = core_of c1"
          by (auto simp: claim_def join_action_defs t_def Let_def)
        with stop show ?thesis by simp
      next
        case True
        let ?ch = "length (co_channels c1)"
        have "r = Inr (?ch, ai_deadline i - t, je_uuid V ?ch)" "last_reading V c' = t"
            "core_of c' = (Pending \<lparr>pj_info = \<lparr>ji_request_id = je_uuid V ?ch, ji_endpoint_id = e, ji_device_name = name\<rparr>,
               pj_endpoint_addr_json = addr, pj_decision = ?ch, pj_deadline = ai_deadline i\<rparr>, co_channels c1 @ [Waiting])"
          using assms ok c1(1) i True by (auto simp: claim_def join_action_defs t_def Let_def last_reading_def)
        with that [OF c1(2)] granted [of name N addr e t i V "co_channels c1"] ok i True show ?thesis by (simp add: core_of_def)
      qed
    qed
  qed
qed

lemma call_answered:
  assumes "coordinator_call V N x c = (r, c')"
  obtains k where "settles (core_of c) k" "answered V N x k r (core_of c') (last_reading V c')"
proof -
  obtain c1 where c1: "expire_locked V c = (Inr (), c1)" "settles (core_of c) (core_of c1)" by (rule expire_locked_cases)
  show ?thesis
  proof (cases x)
    case (Activate nonce lifetime)
    obtain r0 where r0: "activate V nonce lifetime c = (r0, c')" "r = (case r0 of Inl e \<Rightarrow> Inl e | Inr _ \<Rightarrow> Inr Done)"
      using assms Activate by (auto simp: coordinator_call_def bindS_def split: prod.splits sum.splits)
    show ?thesis by (rule activate_answered [OF r0(1), of N]) (use that Activate r0(2) in simp)
  next
    case AskPending
    with assms c1(1) have "\<exists>i. r = Inr (Info i)" "c' = c1"
      by (auto simp: coordinator_call_def pending_def bindS_def get_state_def)
    with that [OF c1(2)] AskPending told show ?thesis by fastforce
  next
    case (AskAddr request_id)
    with assms c1(1) have "c' = c1 \<and> ((\<exists>i a. r = Inr (Addr i a)) \<or> (\<exists>e. r = Inl e))"
      by (auto simp: coordinator_call_def pending_addr_def bindS_def get_state_def split: JoinState.splits if_splits)
    with that [OF c1(2)] AskAddr told_addr refused show ?thesis by metis
  next
    case (Decide request_id d)
    obtain r0 where r0: "decide V request_id d c = (r0, c')" "r = (case r0 of Inl e \<Rightarrow> Inl e | Inr _ \<Rightarrow> Inr Done)"
      using assms Decide by (auto simp: coordinator_call_def bindS_def split: prod.splits sum.splits)
    show ?thesis by (rule decide_answered [OF r0(1), of N]) (use that Decide r0(2) in simp)
  next
    case (Claim nonce e name addr)
    obtain r0 where r0: "claim V N nonce e name addr c = (r0, c')"
        "r = (case r0 of Inl x \<Rightarrow> Inl x | Inr (ch, remaining, request_id) \<Rightarrow> Inr (Granted ch remaining request_id))"
      using assms Claim by (auto simp: coordinator_call_def bindS_def split: prod.splits sum.splits)
    show ?thesis by (rule claim_answered [OF r0(1)]) (use that Claim r0(2) in simp)
  qed
qed

end
