(* ===== verification/Join_Props.thy ===== *)
theory Join_Props
  imports Join_System
begin

text \<open>
  The theorems about the runs of the join coordinator: what admits a request, what a waiting connection receives, and
  how long the coordinator can stay busy. Each rests on invariants of \<open>join_run\<close>, carried through the specification
  \<open>answered\<close> of a call.
\<close>

section \<open>Leaving a channel\<close>

lemma cancel_core: "\<exists>c1. cancel request_id c = (Inr (), c1) \<and> settles (core_of c) (core_of c1)"
proof (cases "\<exists>p. co_state c = Pending p \<and> ji_request_id (pj_info p) = request_id")
  case True
  then show ?thesis
    using lapses [of "core_of c"] by (auto simp: cancel_def join_action_defs)
next
  case False
  then have "cancel request_id c = (Inr (), c)"
    by (auto simp: cancel_def bindS_def get_state_def split: JoinState.splits)
  then show ?thesis using stays by blast
qed

lemma drop_receiver_core: "core_of (snd (drop_receiver ch c)) = (co_state c, (co_channels c)[ch := ReceiverGone])"
  by (simp add: drop_receiver_def core_of_def)

lemma wake_core:
  assumes "wake ch request_id outcome c = (r, c')"
  obtains st chs where "settles (core_of c) (st, chs)" and "core_of c' = (st, chs[ch := ReceiverGone])"
proof -
  obtain c1 where c1: "cancel request_id c = (Inr (), c1)" "settles (core_of c) (core_of c1)" using cancel_core by blast
  have "c' = snd (drop_receiver ch c) \<or> c' = snd (drop_receiver ch c1)"
    using assms c1(1) by (cases outcome) (auto simp: wake_def bindS_def drop_receiver_def)
  then show ?thesis
  proof
    assume "c' = snd (drop_receiver ch c)"
    with that [of "co_state c" "co_channels c"] show ?thesis
      by (simp add: drop_receiver_core) (simp add: core_of_def stays)
  next
    assume "c' = snd (drop_receiver ch c1)"
    with that [of "co_state c1" "co_channels c1"] c1(2) show ?thesis
      by (simp add: drop_receiver_core) (simp add: core_of_def)
  qed
qed

section \<open>A step over the specification\<close>

text \<open>Every step is an answered call or the end of one connection's wait.\<close>

lemma join_step_core:
  assumes "join_step V N s x s'"
  obtains (call) y r t k where "x = Called y r t" "settles (core_of (sy_coordinator s)) k"
      "answered V N y k r (core_of (sy_coordinator s')) t" "sy_tasks s' = waiting_after r (sy_tasks s)"
  | (leave) ch request_id st chs outcome where "\<forall>y r t. x \<noteq> Called y r t" "(ch, request_id) \<in> set (sy_tasks s)"
      "settles (core_of (sy_coordinator s)) (st, chs)" "core_of (sy_coordinator s') = (st, chs[ch := ReceiverGone])"
      "sy_tasks s' = filter (\<lambda>t. t \<noteq> (ch, request_id)) (sy_tasks s)"
      "\<forall>id d. x = Woken ch id (Decision d) \<longrightarrow> co_channels (sy_coordinator s) ! ch = Sent d"
      "x = Woken ch request_id outcome \<or> x = Aborted ch request_id"
  using assms
proof (cases rule: join_step.cases)
  case (call y r c')
  note c = this
  obtain k where "settles (core_of (sy_coordinator s)) k" "answered V N y k r (core_of c') (last_reading V c')"
    by (rule call_answered [OF c(3)])
  with that(1) c show ?thesis by simp
next
  case (wakes ch request_id outcome r c')
  obtain st chs where "settles (core_of (sy_coordinator s)) (st, chs)" "core_of c' = (st, chs[ch := ReceiverGone])"
    by (rule wake_core [OF wakes(5)])
  with that(2) [of ch request_id st chs outcome] wakes show ?thesis
    by (cases outcome) (auto simp: wait_possible_def)
next
  case (aborts ch request_id r c')
  have "core_of c' = (co_state (sy_coordinator s), (co_channels (sy_coordinator s))[ch := ReceiverGone])"
    using aborts(4) drop_receiver_core [of ch "sy_coordinator s"] by simp
  with that(2) [of ch request_id "co_state (sy_coordinator s)" "co_channels (sy_coordinator s)"] aborts stays
  show ?thesis by (simp add: core_of_def)
qed

section \<open>Invitations\<close>

definition opens_or_uses :: "join_event \<Rightarrow> bool" where
  "opens_or_uses x = (case x of Called (Activate _ _) (Inr _) _ \<Rightarrow> True | Called (Claim _ _ _ _) (Inr _) _ \<Rightarrow> True | _ \<Rightarrow> False)"

definition issued :: "join_event list \<Rightarrow> ActiveInvitation \<Rightarrow> bool" where
  "issued tr i \<longleftrightarrow> (\<exists>pre post lifetime since. tr = pre @ Called (Activate (ai_nonce i) lifetime) (Inr Done) since # post
     \<and> \<not> list_ex opens_or_uses post \<and> ai_deadline i = since + lifetime
     \<and> secs 60 \<le> lifetime \<and> lifetime \<le> MAX_INVITATION_LIFETIME)"

lemma issuedI:
  assumes "tr = pre @ Called (Activate (ai_nonce i) lifetime) (Inr Done) since # post" and "\<not> list_ex opens_or_uses post"
    and "ai_deadline i = since + lifetime" and "secs 60 \<le> lifetime" and "lifetime \<le> MAX_INVITATION_LIFETIME"
  shows "issued tr i"
  using assms unfolding issued_def by blast

lemma issued_snoc:
  assumes "issued tr i" and "\<not> opens_or_uses x"
  shows "issued (tr @ [x]) i"
proof -
  obtain pre post lifetime since where *: "tr = pre @ Called (Activate (ai_nonce i) lifetime) (Inr Done) since # post"
      "\<not> list_ex opens_or_uses post" "ai_deadline i = since + lifetime" "secs 60 \<le> lifetime" "lifetime \<le> MAX_INVITATION_LIFETIME"
    using assms(1) unfolding issued_def by blast
  show ?thesis by (rule issuedI [of _ pre i lifetime since "post @ [x]"]) (use * assms(2) in simp_all)
qed

lemma settles_active: "settles k (Active i, chs) \<Longrightarrow> k = (Active i, chs)"
  by (cases rule: settles_cases, assumption) (cases k rule: lapsed.cases; auto)+

lemma active_issued:
  assumes "join_run V N tr s" and "co_state (sy_coordinator s) = Active i"
  shows "issued tr i"
  using assms
proof (induction arbitrary: i rule: join_run.induct)
  case start
  then show ?case by (simp add: new_coordinator_def)
next
  case (step tr s x s')
  from step.hyps(2) show ?case
  proof (cases rule: join_step_core)
    case (call y r t k)
    obtain chs where now: "core_of (sy_coordinator s') = (Active i, chs)"
      using step.prems by (simp add: core_of_def)
    have kept: "issued (tr @ [x]) i" if "k = (Active i, chs)" "\<not> opens_or_uses x"
      using settles_active [of _ i chs] call(2) that step.IH issued_snoc by (auto simp: core_of_def)
    from call(3) show ?thesis
      unfolding now
      by (cases rule: answered_cases)
        (use call(1) kept in \<open>auto simp: opens_or_uses_def split: join_call.splits intro: issuedI [where pre = tr and post = "[]"]\<close>)
  next
    case (leave ch request_id st chs outcome)
    have "st = Active i" using leave(4) step.prems by (simp add: core_of_def)
    then have "co_state (sy_coordinator s) = Active i"
      using settles_active leave(3) by (fastforce simp: core_of_def)
    moreover have "\<not> opens_or_uses x" using leave(1) by (auto simp: opens_or_uses_def split: join_event.splits)
    ultimately show ?thesis using step.IH issued_snoc by blast
  qed
qed

text \<open>
  C13. An invitation admits one request, with its nonce, before its deadline: whatever is called in whatever order, a
  request that is granted is preceded by an activation with exactly the nonce it sent, with no other activation and no
  other granted request in between, and the time at which it is granted lies before that activation's time plus its
  lifetime, which is between 60 and 900 seconds; the device name passed validation and the address it sent names the
  endpoint it is connected as. A nonce thus never admits a second request unless the person activates it again.
\<close>

theorem invitation_admits_one:
  assumes "join_run V N (before @ Called (Claim nonce e name addr) (Inr (Granted ch remaining request_id)) at # later) s"
  shows "\<exists>pre post lifetime since. before = pre @ Called (Activate nonce lifetime) (Inr Done) since # post
    \<and> \<not> list_ex opens_or_uses post \<and> at < since + lifetime \<and> remaining = since + lifetime - at
    \<and> secs 60 \<le> lifetime \<and> lifetime \<le> MAX_INVITATION_LIFETIME
    \<and> validate_join_device_name name = Inr () \<and> validate_endpoint_addr N addr e = Inr ()"
proof -
  let ?x = "Called (Claim nonce e name addr) (Inr (Granted ch remaining request_id)) at"
  obtain s2 where "join_run V N (before @ [?x]) s2" using join_run_prefix [of V N "before @ [?x]" later] assms by auto
  then obtain s1 where s1: "join_run V N before s1" "join_step V N s1 ?x s2" by (rule join_run_last) simp
  from s1(2) obtain k where k: "settles (core_of (sy_coordinator s1)) k"
      "answered V N (Claim nonce e name addr) k (Inr (Granted ch remaining request_id)) (core_of (sy_coordinator s2)) at"
    by (cases rule: join_step_core) auto
  from k(2) obtain i chs where i: "k = (Active i, chs)" "ai_nonce i = nonce" "at < ai_deadline i"
      "remaining = ai_deadline i - at" "validate_join_device_name name = Inr ()" "validate_endpoint_addr N addr e = Inr ()"
    by (cases rule: granted_cases) auto
  then have "co_state (sy_coordinator s1) = Active i" using settles_active k(1) by (fastforce simp: core_of_def)
  from active_issued [OF s1(1) this] obtain pre post lifetime since where
      "before = pre @ Called (Activate (ai_nonce i) lifetime) (Inr Done) since # post" "\<not> list_ex opens_or_uses post"
      "ai_deadline i = since + lifetime" "secs 60 \<le> lifetime" "lifetime \<le> MAX_INVITATION_LIFETIME"
    unfolding issued_def by blast
  with i(2-6) show ?thesis by (intro exI [of _ pre] exI [of _ post] exI [of _ lifetime] exI [of _ since]) simp
qed

section \<open>Decisions\<close>

text \<open>
  The invariant of the coordinator, of the tasks that wait and of the log of events: a pending request waits on the
  channel its claim created, whose number determines its request id; a channel carries a decision only when it was
  taken; and a decision that was taken is on its channel until the task that waits for it leaves.
\<close>

fun pending_ok :: "join_env \<Rightarrow> core \<Rightarrow> bool" where
  "pending_ok V (Pending p, chs) \<longleftrightarrow> pj_decision p < length chs \<and> ji_request_id (pj_info p) = je_uuid V (pj_decision p)
     \<and> chs ! pj_decision p \<in> {Waiting, ReceiverGone}"
| "pending_ok V (_, chs) \<longleftrightarrow> True"

definition decided_event :: "string \<Rightarrow> JoinDecision \<Rightarrow> join_event \<Rightarrow> bool" where
  "decided_event request_id d x \<longleftrightarrow> (\<exists>t. x = Called (Decide request_id d) (Inr Done) t)"

definition granted_event :: "nat \<Rightarrow> string \<Rightarrow> join_event \<Rightarrow> bool" where
  "granted_event ch request_id x \<longleftrightarrow>
    (\<exists>nonce e name addr remaining t. x = Called (Claim nonce e name addr) (Inr (Granted ch remaining request_id)) t)"

definition not_pending :: "nat \<Rightarrow> core \<Rightarrow> bool" where
  "not_pending ch k \<longleftrightarrow> (\<forall>p. fst k = Pending p \<longrightarrow> pj_decision p \<noteq> ch)"

definition grants_logged :: "join_env \<Rightarrow> join_event list \<Rightarrow> core \<Rightarrow> bool" where
  "grants_logged V tr k \<longleftrightarrow> (\<forall>ch < length (snd k). list_ex (granted_event ch (je_uuid V ch)) tr)"

definition sends_logged :: "join_env \<Rightarrow> join_event list \<Rightarrow> core \<Rightarrow> bool" where
  "sends_logged V tr k \<longleftrightarrow> (\<forall>ch < length (snd k). \<forall>d. snd k ! ch = Sent d \<longrightarrow> list_ex (decided_event (je_uuid V ch) d) tr)"

definition decisions_kept :: "join_env \<Rightarrow> join_event list \<Rightarrow> core \<Rightarrow> bool" where
  "decisions_kept V tr k \<longleftrightarrow> (\<forall>request_id d. list_ex (decided_event request_id d) tr \<longrightarrow>
     (\<exists>ch < length (snd k). je_uuid V ch = request_id \<and> snd k ! ch \<in> {Sent d, ReceiverGone} \<and> not_pending ch k))"

definition tasks_ok :: "join_env \<Rightarrow> (nat \<times> string) list \<Rightarrow> core \<Rightarrow> bool" where
  "tasks_ok V tasks k \<longleftrightarrow> (\<forall>(ch, request_id) \<in> set tasks. ch < length (snd k) \<and> request_id = je_uuid V ch \<and> snd k ! ch \<noteq> ReceiverGone)"

definition join_log_ok :: "join_env \<Rightarrow> join_event list \<Rightarrow> (nat \<times> string) list \<Rightarrow> core \<Rightarrow> bool" where
  "join_log_ok V tr tasks k \<longleftrightarrow> pending_ok V k \<and> grants_logged V tr k \<and> sends_logged V tr k \<and> decisions_kept V tr k
     \<and> tasks_ok V tasks k"

lemmas log_defs = join_log_ok_def grants_logged_def sends_logged_def decisions_kept_def tasks_ok_def not_pending_def

lemma drop_sender_length [simp]: "length (drop_sender ch chs) = length chs"
  by (simp add: drop_sender_def)

lemma drop_sender_nth: "drop_sender ch chs ! i = (if i = ch \<and> chs ! ch = Waiting \<and> ch < length chs then SenderDropped else chs ! i)"
  by (cases "ch < length chs") (auto simp: drop_sender_def nth_list_update list_update_beyond)

lemma drop_sender_kept [simp]:
  "drop_sender ch chs ! i = Sent d \<longleftrightarrow> chs ! i = Sent d"
  "drop_sender ch chs ! i = ReceiverGone \<longleftrightarrow> chs ! i = ReceiverGone"
  by (auto simp: drop_sender_nth)

lemma decisions_kept_mono:
  assumes "decisions_kept V tr k" and "length (snd k) \<le> length (snd k')"
    and "\<And>ch d. ch < length (snd k) \<Longrightarrow> snd k ! ch \<in> {Sent d, ReceiverGone} \<Longrightarrow> not_pending ch k \<Longrightarrow>
      snd k' ! ch \<in> {Sent d, ReceiverGone} \<and> not_pending ch k'"
  shows "decisions_kept V tr k'"
  unfolding decisions_kept_def
proof (intro allI impI)
  fix request_id d assume "list_ex (decided_event request_id d) tr"
  then obtain ch where "ch < length (snd k)" "je_uuid V ch = request_id" "snd k ! ch \<in> {Sent d, ReceiverGone}" "not_pending ch k"
    using assms(1) unfolding decisions_kept_def by blast
  with assms(2) assms(3) [of ch d] show "\<exists>ch < length (snd k'). je_uuid V ch = request_id
      \<and> snd k' ! ch \<in> {Sent d, ReceiverGone} \<and> not_pending ch k'" by (intro exI [of _ ch]) simp
qed

lemma decisions_kept_lapsed: "decisions_kept V tr k \<Longrightarrow> decisions_kept V tr (lapsed k)"
  by (cases k rule: lapsed.cases; erule decisions_kept_mono) (auto simp: not_pending_def)

lemma join_log_ok_other_state:
  assumes "join_log_ok V tr tasks (st, chs)" and "\<And>p. st' \<noteq> Pending p"
  shows "join_log_ok V tr tasks (st', chs)"
proof -
  have "decisions_kept V tr (st', chs)"
    by (rule decisions_kept_mono [of V tr "(st, chs)"]) (use assms in \<open>auto simp: join_log_ok_def not_pending_def\<close>)
  then show ?thesis
    using assms by (cases st') (auto simp: join_log_ok_def grants_logged_def sends_logged_def tasks_ok_def)
qed

lemma join_log_ok_lapsed: "join_log_ok V tr tasks k \<Longrightarrow> join_log_ok V tr tasks (lapsed k)"
  unfolding join_log_ok_def
  by (cases k rule: lapsed.cases)
    (use decisions_kept_lapsed [of V tr k] in \<open>auto simp: grants_logged_def sends_logged_def tasks_ok_def\<close>)

lemma join_log_ok_settles: "settles k k' \<Longrightarrow> join_log_ok V tr tasks k \<Longrightarrow> join_log_ok V tr tasks k'"
  by (auto elim!: settles_cases intro: join_log_ok_lapsed)

lemma join_log_ok_other_event:
  assumes "join_log_ok V tr tasks k" and "\<And>request_id d. \<not> decided_event request_id d x"
  shows "join_log_ok V (tr @ [x]) tasks k"
  using assms by (auto simp: log_defs)

lemma join_log_ok_leave:
  assumes "join_log_ok V tr tasks (st, chs)" and "(ch, request_id) \<in> set tasks"
  shows "join_log_ok V tr (filter (\<lambda>t. t \<noteq> (ch, request_id)) tasks) (st, chs[ch := ReceiverGone])"
proof -
  have ch: "ch < length chs" "request_id = je_uuid V ch" using assms by (auto simp: log_defs)
  have "pending_ok V (st, chs[ch := ReceiverGone])"
    using assms(1) ch by (cases st) (auto simp: log_defs nth_list_update)
  moreover have "grants_logged V tr (st, chs[ch := ReceiverGone])" "sends_logged V tr (st, chs[ch := ReceiverGone])"
    using assms(1) ch by (auto simp: join_log_ok_def grants_logged_def sends_logged_def nth_list_update split: if_splits)
  moreover have "decisions_kept V tr (st, chs[ch := ReceiverGone])"
    by (rule decisions_kept_mono [of V tr "(st, chs)"])
      (use assms(1) ch in \<open>auto simp: join_log_ok_def not_pending_def nth_list_update\<close>)
  moreover have "tasks_ok V (filter (\<lambda>t. t \<noteq> (ch, request_id)) tasks) (st, chs[ch := ReceiverGone])"
    using assms(1) ch by (auto simp: log_defs nth_list_update)
  ultimately show ?thesis by (simp add: join_log_ok_def)
qed

lemma join_log_ok_decided:
  assumes ok: "join_log_ok V tr tasks (Pending p, chs)" and free: "chs ! pj_decision p \<noteq> ReceiverGone"
    and id: "ji_request_id (pj_info p) = request_id"
  shows "join_log_ok V (tr @ [Called (Decide request_id d) (Inr Done) t]) tasks (Idle, chs[pj_decision p := Sent d])"
proof -
  let ?x = "Called (Decide request_id d) (Inr Done) t" let ?chs = "chs[pj_decision p := Sent d]"
  have ch: "pj_decision p < length chs" "je_uuid V (pj_decision p) = request_id" using ok id by (auto simp: log_defs)
  have "grants_logged V (tr @ [?x]) (Idle, ?chs)" "sends_logged V (tr @ [?x]) (Idle, ?chs)"
    using ok ch by (auto simp: log_defs nth_list_update decided_event_def)
  moreover have "decisions_kept V (tr @ [?x]) (Idle, ?chs)"
  proof -
    have "decisions_kept V tr (Idle, ?chs)"
      by (rule decisions_kept_mono [of V tr "(Pending p, chs)"])
        (use ok ch in \<open>auto simp: join_log_ok_def not_pending_def nth_list_update\<close>)
    then show ?thesis
      using ch by (auto simp: decisions_kept_def not_pending_def decided_event_def)
  qed
  moreover have "tasks_ok V tasks (Idle, ?chs)"
    using ok ch(1) by (auto simp: join_log_ok_def tasks_ok_def nth_list_update split: if_splits)
  ultimately show ?thesis by (simp add: join_log_ok_def)
qed

lemma join_log_ok_granted:
  assumes ok: "join_log_ok V tr tasks (Active i, chs)" and "granted_event (length chs) (je_uuid V (length chs)) x"
    and "pj_decision p = length chs" and "ji_request_id (pj_info p) = je_uuid V (length chs)"
  shows "join_log_ok V (tr @ [x]) ((length chs, je_uuid V (length chs)) # tasks) (Pending p, chs @ [Waiting])"
proof -
  have "\<not> decided_event request_id d x" for request_id d using assms(2) by (auto simp: granted_event_def decided_event_def)
  with ok have ok': "join_log_ok V (tr @ [x]) tasks (Active i, chs)" by (intro join_log_ok_other_event)
  have "grants_logged V (tr @ [x]) (Pending p, chs @ [Waiting])" "sends_logged V (tr @ [x]) (Pending p, chs @ [Waiting])"
    using ok' assms(2) unfolding log_defs by (auto simp: less_Suc_eq nth_append)
  moreover have "decisions_kept V (tr @ [x]) (Pending p, chs @ [Waiting])"
    by (rule decisions_kept_mono [of V _ "(Active i, chs)"])
      (use ok' assms(3) in \<open>auto simp: join_log_ok_def not_pending_def nth_append\<close>)
  moreover have "tasks_ok V ((length chs, je_uuid V (length chs)) # tasks) (Pending p, chs @ [Waiting])"
    using ok' by (auto simp: log_defs nth_append)
  ultimately show ?thesis using assms(3,4) by (simp add: join_log_ok_def)
qed

lemma join_log_ok_answered:
  assumes "answered V N x k r k' t" and "join_log_ok V tr tasks k"
  shows "join_log_ok V (tr @ [Called x r t]) (waiting_after r tasks) k'"
  using assms(1)
proof cases
  case decided
  then show ?thesis using join_log_ok_decided assms(2) by (simp add: waiting_after_def)
next
  case granted
  then show ?thesis using join_log_ok_granted assms(2) by (simp add: waiting_after_def granted_event_def)
next
  case (undeliverable chs p request_id d)
  have "join_log_ok V tr tasks k'" using assms(2) undeliverable join_log_ok_other_state by auto
  then show ?thesis using undeliverable by (simp add: waiting_after_def join_log_ok_other_event decided_event_def)
next
  case (activated lifetime nonce chs)
  have "join_log_ok V tr tasks k'" using assms(2) activated join_log_ok_other_state by auto
  then show ?thesis using activated by (simp add: waiting_after_def join_log_ok_other_event decided_event_def)
qed (use assms(2) in \<open>auto simp: waiting_after_def decided_event_def intro: join_log_ok_other_event\<close>)

lemma join_run_log:
  assumes "join_run V N tr s"
  shows "join_log_ok V tr (sy_tasks s) (core_of (sy_coordinator s))"
  using assms
proof (induction rule: join_run.induct)
  case start
  then show ?case by (auto simp: log_defs core_of_def new_coordinator_def)
next
  case (step tr s x s')
  from step.hyps(2) show ?case
  proof (cases rule: join_step_core)
    case (call y r t k)
    then show ?thesis using join_log_ok_answered [OF call(3) join_log_ok_settles [OF call(2) step.IH]] by simp
  next
    case (leave ch request_id st chs outcome)
    have "join_log_ok V tr (sy_tasks s') (core_of (sy_coordinator s'))"
      using join_log_ok_leave [OF join_log_ok_settles [OF leave(3) step.IH] leave(2)] leave(4,5) by simp
    then show ?thesis using leave(1) by (intro join_log_ok_other_event) (auto simp: decided_event_def)
  qed
qed

lemma decided_step:
  assumes run: "join_run V N (tr @ [x]) s'" and x: "decided_event request_id d x"
  obtains ch where "list_ex (granted_event ch request_id) tr" and "je_uuid V ch = request_id"
    and "inj (je_uuid V) \<Longrightarrow> \<not> list_ex (decided_event request_id d') tr"
proof -
  obtain t where t: "x = Called (Decide request_id d) (Inr Done) t" using x by (auto simp: decided_event_def)
  obtain s where s: "join_run V N tr s" "join_step V N s x s'" using run by (rule join_run_last) simp
  from s(2) t obtain k where k: "settles (core_of (sy_coordinator s)) k"
      "answered V N (Decide request_id d) k (Inr Done) (core_of (sy_coordinator s')) t"
    by (cases rule: join_step_core) auto
  from k(2) obtain p chs where p: "k = (Pending p, chs)" "ji_request_id (pj_info p) = request_id"
    by (cases rule: decided_cases) auto
  have ok: "join_log_ok V tr (sy_tasks s) (Pending p, chs)" using join_log_ok_settles [OF k(1) join_run_log [OF s(1)]] p(1) by simp
  then have ch: "pj_decision p < length chs" "je_uuid V (pj_decision p) = request_id" using p(2) by (auto simp: join_log_ok_def)
  show ?thesis
  proof (rule that [OF _ ch(2)])
    show "list_ex (granted_event (pj_decision p) request_id) tr" using ok ch by (auto simp: join_log_ok_def grants_logged_def)
    show "\<not> list_ex (decided_event request_id d') tr" if "inj (je_uuid V)"
    proof
      assume "list_ex (decided_event request_id d') tr"
      then obtain ch' where "je_uuid V ch' = request_id" "not_pending ch' (Pending p, chs)"
        using ok unfolding join_log_ok_def decisions_kept_def by blast
      with ch(2) injD [OF that, of ch' "pj_decision p"] show False by (simp add: not_pending_def)
    qed
  qed
qed

lemma one_decision:
  assumes "inj (je_uuid V)" and "join_run V N (pre @ y # post) s" and "decided_event request_id d y"
  shows "filter (\<lambda>z. \<exists>d. decided_event request_id d z) (pre @ y # post) = [y]"
proof -
  let ?P = "\<lambda>z. \<exists>d. decided_event request_id d z"
  have alone: "\<not> list_ex (decided_event request_id d2) tr" if "join_run V N (tr @ [z]) s2" "decided_event request_id d1 z" for tr z s2 d1 d2
    using decided_step [OF that(1,2)] assms(1) by metis
  obtain s1 where "join_run V N (pre @ [y]) s1" using join_run_prefix [of V N "pre @ [y]" post] assms(2) by auto
  then have "filter ?P pre = []" using alone assms(3) by (fastforce simp: filter_empty_conv list_ex_iff)
  moreover have "filter ?P post = []"
  proof (rule ccontr)
    assume "filter ?P post \<noteq> []"
    then obtain z d1 where "z \<in> set post" "decided_event request_id d1 z" by (auto simp: filter_empty_conv)
    moreover then obtain b c where "post = b @ z # c" using split_list by fast
    ultimately have "\<exists>s2. join_run V N ((pre @ y # b) @ [z]) s2" using join_run_prefix [of V N "(pre @ y # b) @ [z]" c] assms(2) by auto
    then show False using alone [of "pre @ y # b" z] \<open>decided_event request_id d1 z\<close> assms(3) by fastforce
  qed
  ultimately show ?thesis using assms(3) by auto
qed

text \<open>
  C14. What a waiting connection is told is the decision on its own request: when a connection takes a decision from its
  channel, its request was granted before, and afterwards the person decided exactly this on the request id of that
  grant; and this is the only decision on the request in the whole run, so no request is approved after it was
  rejected, and no decision reaches another device than the one the person was shown. The hypothesis states that
  \<open>uuid\<close> never repeats an id.
\<close>

theorem decision_is_the_persons:
  assumes "inj (je_uuid V)" and "join_run V N (before @ Woken ch request_id (Decision d) # later) s"
  shows "\<exists>a x b y c. before = a @ x # b @ y # c \<and> granted_event ch request_id x \<and> decided_event request_id d y
    \<and> filter (\<lambda>z. \<exists>d. decided_event request_id d z) (before @ Woken ch request_id (Decision d) # later) = [y]"
proof -
  let ?w = "Woken ch request_id (Decision d)"
  obtain s2 where "join_run V N (before @ [?w]) s2" using join_run_prefix [of V N "before @ [?w]" later] assms(2) by auto
  then obtain s1 where s1: "join_run V N before s1" "join_step V N s1 ?w s2" by (rule join_run_last) simp
  from s1(2) have w: "(ch, request_id) \<in> set (sy_tasks s1)" "co_channels (sy_coordinator s1) ! ch = Sent d"
    by (cases rule: join_step_core; auto)+
  have ok: "join_log_ok V before (sy_tasks s1) (core_of (sy_coordinator s1))" by (rule join_run_log [OF s1(1)])
  have id: "request_id = je_uuid V ch" "ch < length (co_channels (sy_coordinator s1))"
    using ok w(1) by (auto simp: join_log_ok_def tasks_ok_def core_of_def)
  then have "list_ex (decided_event request_id d) before"
    using ok w(2) by (auto simp: join_log_ok_def sends_logged_def core_of_def)
  then obtain pre y c where y: "before = pre @ y # c" "decided_event request_id d y" by (auto simp: list_ex_iff dest: split_list)
  obtain s3 where s3: "join_run V N (pre @ [y]) s3" using join_run_prefix [of V N "pre @ [y]" c] s1(1) y(1) by auto
  obtain ch' where ch': "list_ex (granted_event ch' request_id) pre" "je_uuid V ch' = request_id"
    by (rule decided_step [OF s3 y(2)])
  then have "ch' = ch" using id(1) injD [OF assms(1), of ch' ch] by simp
  then obtain a x b where "pre = a @ x # b" "granted_event ch request_id x" using ch'(1) by (auto simp: list_ex_iff dest: split_list)
  moreover have "filter (\<lambda>z. \<exists>d. decided_event request_id d z) (before @ ?w # later) = [y]"
    using one_decision [OF assms(1), of N pre y "c @ ?w # later" s request_id d] assms(2) y by simp
  ultimately show ?thesis
    using y by (intro exI [of _ a] exI [of _ x] exI [of _ b] exI [of _ y] exI [of _ c]) simp
qed

section \<open>The coordinator is never busy for long\<close>

definition state_deadline :: "JoinState \<Rightarrow> nat option" where
  "state_deadline state = (case state of Idle \<Rightarrow> None | Active i \<Rightarrow> Some (ai_deadline i) | Pending p \<Rightarrow> Some (pj_deadline p))"

definition activation_within :: "nat \<Rightarrow> join_event \<Rightarrow> bool" where
  "activation_within deadline x \<longleftrightarrow>
    (\<exists>nonce lifetime since. x = Called (Activate nonce lifetime) (Inr Done) since \<and> deadline \<le> since + MAX_INVITATION_LIFETIME)"

lemma settles_deadline: "settles k k' \<Longrightarrow> state_deadline (fst k') = Some t \<Longrightarrow> state_deadline (fst k) = Some t"
  by (auto elim!: settles_cases) (cases k rule: lapsed.cases; auto simp: state_deadline_def)

lemma answered_deadline:
  assumes "answered V N x k r k' t" and "state_deadline (fst k') = Some deadline"
  shows "state_deadline (fst k) = Some deadline \<or> activation_within deadline (Called x r t)"
  using assms by (cases rule: answered_cases) (auto simp: state_deadline_def activation_within_def)

lemma deadline_logged:
  assumes "join_run V N tr s" and "state_deadline (co_state (sy_coordinator s)) = Some deadline"
  shows "list_ex (activation_within deadline) tr"
  using assms
proof (induction arbitrary: deadline rule: join_run.induct)
  case start
  then show ?case by (simp add: new_coordinator_def state_deadline_def)
next
  case (step tr s x s')
  have "state_deadline (fst (core_of (sy_coordinator s'))) = Some deadline" using step.prems by (simp add: core_of_def)
  from step.hyps(2) this have "state_deadline (fst (core_of (sy_coordinator s))) = Some deadline \<or> activation_within deadline x"
  proof (cases rule: join_step_core)
    case (call y r t k)
    then show ?thesis
      using answered_deadline [OF call(3)] settles_deadline [OF call(2)] \<open>state_deadline (fst (core_of (sy_coordinator s'))) = _\<close>
      by blast
  next
    case (leave ch request_id st chs outcome)
    then show ?thesis
      using settles_deadline [OF leave(3)] \<open>state_deadline (fst (core_of (sy_coordinator s'))) = _\<close> by simp
  qed
  then show ?case using step.IH by (auto simp: core_of_def)
qed

text \<open>
  C17. An invitation never blocks the next one: after any run, once 900 seconds have passed since every activation, a
  new invitation of an admissible lifetime is accepted and becomes the active one, whatever became of the requests and
  the connections before, even when one was aborted without a word.
\<close>

theorem coordinator_recovers:
  assumes "join_run V N tr s" and "secs 60 \<le> lifetime" and "lifetime \<le> MAX_INVITATION_LIFETIME"
    and "\<And>nonce' lifetime' since. Called (Activate nonce' lifetime') (Inr Done) since \<in> set tr \<Longrightarrow>
      since + MAX_INVITATION_LIFETIME \<le> je_now V (co_ticks (sy_coordinator s))"
  shows "\<exists>c' now. activate V nonce lifetime (sy_coordinator s) = (Inr (), c')
    \<and> co_state c' = Active \<lparr>ai_nonce = nonce, ai_deadline = now + lifetime\<rparr> \<and> now = last_reading V c'"
proof -
  let ?c = "sy_coordinator s"
  have late: "deadline \<le> je_now V (co_ticks ?c)" if "state_deadline (co_state ?c) = Some deadline" for deadline
  proof -
    from deadline_logged [OF assms(1) that] obtain x where "x \<in> set tr" "activation_within deadline x"
      by (auto simp: list_ex_iff)
    then show ?thesis using assms(4) by (fastforce simp: activation_within_def)
  qed
  obtain c1 where c1: "expire_locked V ?c = (Inr (), c1)" "co_state c1 = Idle"
  proof (cases "co_state ?c")
    case Idle
    then have "expire_locked V ?c = (Inr (), ?c)" by (simp add: expire_locked_def join_action_defs)
    then show ?thesis using that Idle by blast
  next
    case (Active i)
    then have "ai_deadline i \<le> je_now V (co_ticks ?c)" using late by (simp add: state_deadline_def)
    then show ?thesis using that Active by (simp add: expire_locked_def join_action_defs)
  next
    case (Pending p)
    then have "pj_deadline p \<le> je_now V (co_ticks ?c)" using late by (simp add: state_deadline_def)
    then show ?thesis using that Pending by (simp add: expire_locked_def join_action_defs)
  qed
  then show ?thesis using assms(2,3) by (simp add: activate_def join_action_defs last_reading_def)
qed

section \<open>One join as a run\<close>

definition join_sample_env :: join_env where
  "join_sample_env = \<lparr>je_now = (\<lambda>n. secs n), je_uuid = (\<lambda>n. replicate (Suc n) CHR ''r'')\<rparr>"

definition join_sample_peer :: peer_env where
  "join_sample_peer = \<lparr>pe_fault = (\<lambda>_. None), pe_addr_to_string = (\<lambda>a. Some ''addr''),
     pe_addr_from_str = (\<lambda>s. if s = ''addr'' then Some \<lparr>ea_id = 3, ea_addrs = []\<rparr> else None), pe_identity = (\<lambda>_. None)\<rparr>"

definition after_activation :: join_system where
  "after_activation = \<lparr>sy_coordinator = \<lparr>co_state = Active \<lparr>ai_nonce = 7, ai_deadline = secs 60\<rparr>, co_channels = [], co_ticks = 1\<rparr>,
     sy_tasks = []\<rparr>"

definition sample_pending :: PendingJoin where
  "sample_pending = \<lparr>pj_info = \<lparr>ji_request_id = ''r'', ji_endpoint_id = 3, ji_device_name = ''laptop''\<rparr>,
     pj_endpoint_addr_json = ''addr'', pj_decision = 0, pj_deadline = secs 60\<rparr>"

definition after_claim :: join_system where
  "after_claim = \<lparr>sy_coordinator = \<lparr>co_state = Pending sample_pending, co_channels = [Waiting], co_ticks = 3\<rparr>,
     sy_tasks = [(0, ''r'')]\<rparr>"

definition after_decision :: join_system where
  "after_decision = \<lparr>sy_coordinator = \<lparr>co_state = Idle, co_channels = [Sent JoinDecision.Rejected], co_ticks = 4\<rparr>,
     sy_tasks = [(0, ''r'')]\<rparr>"

definition sample_activation :: join_event where
  "sample_activation = Called (Activate 7 (secs 60)) (Inr Done) (secs 0)"

definition sample_claim :: join_event where
  "sample_claim = Called (Claim 7 3 ''laptop'' ''addr'') (Inr (Granted 0 (secs 60 - secs 2) ''r'')) (secs 2)"

definition sample_decision :: join_event where
  "sample_decision = Called (Decide ''r'' JoinDecision.Rejected) (Inr Done) (secs 3)"

lemma laptop_ok: "validate_join_device_name ''laptop'' = Inr ()"
  by code_simp

lemmas sample_join_defs = join_sample_env_def join_sample_peer_def coordinator_call_def join_action_defs expire_locked_def
  activate_def claim_def decide_def validate_endpoint_addr_def MAX_ENDPOINT_ADDRS_def secs_def MAX_INVITATION_LIFETIME_def
  Let_def numeral_3_eq_3

lemma sample_run_1: "join_run join_sample_env join_sample_peer [sample_activation] after_activation"
proof -
  have "coordinator_call join_sample_env join_sample_peer (Activate 7 (secs 60)) new_coordinator
      = (Inr Done, sy_coordinator after_activation)"
    by (simp add: sample_join_defs new_coordinator_def after_activation_def)
  from join_run.step [OF join_run.start join_step.call, of join_sample_env join_sample_peer, simplified, OF this]
  show ?thesis by (simp add: sample_activation_def after_activation_def waiting_after_def last_reading_def join_sample_env_def)
qed

lemma sample_run_2: "join_run join_sample_env join_sample_peer [sample_activation, sample_claim] after_claim"
proof -
  have "coordinator_call join_sample_env join_sample_peer (Claim 7 3 ''laptop'' ''addr'') (sy_coordinator after_activation)
      = (Inr (Granted 0 (secs 60 - secs 2) ''r''), sy_coordinator after_claim)"
    by (simp add: sample_join_defs laptop_ok after_activation_def after_claim_def sample_pending_def)
  from join_run.step [OF sample_run_1 join_step.call, OF this]
  show ?thesis
    by (simp add: sample_claim_def after_claim_def after_activation_def waiting_after_def last_reading_def join_sample_env_def)
qed

lemma sample_run_3: "join_run join_sample_env join_sample_peer [sample_activation, sample_claim, sample_decision] after_decision"
proof -
  have "coordinator_call join_sample_env join_sample_peer (Decide ''r'' JoinDecision.Rejected) (sy_coordinator after_claim)
      = (Inr Done, sy_coordinator after_decision)"
    by (simp add: sample_join_defs after_claim_def after_decision_def sample_pending_def)
  from join_run.step [OF sample_run_2 join_step.call, OF this]
  show ?thesis
    by (simp add: sample_decision_def after_claim_def after_decision_def waiting_after_def last_reading_def join_sample_env_def)
qed

lemma sample_run_4:
  "\<exists>s. join_run join_sample_env join_sample_peer
     [sample_activation, sample_claim, sample_decision, Woken 0 ''r'' (Decision JoinDecision.Rejected)] s"
proof -
  obtain r c' where "wake 0 ''r'' (Decision JoinDecision.Rejected) (sy_coordinator after_decision) = (r, c')" by fastforce
  from join_run.step [OF sample_run_3 join_step.wakes, OF _ _ this]
  show ?thesis by (auto simp: after_decision_def wait_possible_def)
qed

theorem invitation_admits_one_witness:
  "\<exists>pre post lifetime since. [sample_activation] = pre @ Called (Activate 7 lifetime) (Inr Done) since # post
    \<and> \<not> list_ex opens_or_uses post \<and> secs 2 < since + lifetime \<and> secs 60 - secs 2 = since + lifetime - secs 2
    \<and> secs 60 \<le> lifetime \<and> lifetime \<le> MAX_INVITATION_LIFETIME
    \<and> validate_join_device_name ''laptop'' = Inr () \<and> validate_endpoint_addr join_sample_peer ''addr'' 3 = Inr ()"
  by (rule invitation_admits_one [of join_sample_env join_sample_peer "[sample_activation]" 7 3 "''laptop''" "''addr''" 0
        "secs 60 - secs 2" "''r''" "secs 2" "[]" after_claim])
    (use sample_run_2 in \<open>simp add: sample_claim_def\<close>)

theorem decision_is_the_persons_witness:
  "\<exists>a x b y c. [sample_activation, sample_claim, sample_decision] = a @ x # b @ y # c \<and> granted_event 0 ''r'' x
    \<and> decided_event ''r'' JoinDecision.Rejected y
    \<and> filter (\<lambda>z. \<exists>d. decided_event ''r'' d z)
        ([sample_activation, sample_claim, sample_decision] @ Woken 0 ''r'' (Decision JoinDecision.Rejected) # []) = [y]"
proof -
  have "inj (je_uuid join_sample_env)" by (auto simp: join_sample_env_def intro!: injI dest: arg_cong [of _ _ size_list])
  moreover obtain s where "join_run join_sample_env join_sample_peer
      ([sample_activation, sample_claim, sample_decision] @ Woken 0 ''r'' (Decision JoinDecision.Rejected) # []) s"
    using sample_run_4 by auto
  ultimately show ?thesis by (rule decision_is_the_persons)
qed

definition slow_env :: join_env where
  "slow_env = \<lparr>je_now = (\<lambda>n. secs (n * 900)), je_uuid = (\<lambda>n. [])\<rparr>"

theorem coordinator_recovers_witness:
  "\<exists>c' now. activate slow_env 9 (secs 900) (sy_coordinator after_activation) = (Inr (), c')
    \<and> co_state c' = Active \<lparr>ai_nonce = 9, ai_deadline = now + secs 900\<rparr> \<and> now = last_reading slow_env c'"
proof (rule coordinator_recovers)
  have "coordinator_call slow_env join_sample_peer (Activate 7 (secs 60)) new_coordinator = (Inr Done, sy_coordinator after_activation)"
    by (simp add: sample_join_defs new_coordinator_def after_activation_def slow_env_def)
  from join_run.step [OF join_run.start join_step.call, of slow_env join_sample_peer, simplified, OF this]
  show "join_run slow_env join_sample_peer [sample_activation] after_activation"
    by (simp add: sample_activation_def after_activation_def waiting_after_def last_reading_def slow_env_def)
qed (simp_all add: sample_activation_def after_activation_def slow_env_def secs_def MAX_INVITATION_LIFETIME_def)

end
