(* ===== verification/Join_Exchange.thy ===== *)
theory Join_Exchange
  imports Join_System
begin

text \<open>
  \<open>join.rs\<close>, the conversation between the two devices: JSON messages behind a 32-bit length, the request of the joining
  device, the answer of the inviting one with the roster as base64 of its canonical bundle, and the acknowledgement.
  \<open>serde_json\<close>, \<open>base64\<close> and \<open>iroh\<close> are the parameter \<open>join_codec\<close>; the connection is that of the sync sessions.
\<close>

section \<open>Messages\<close>

record JoinRequest =
  jq_nonce :: bytes32
  jq_device_name :: string
  jq_endpoint_addr_json :: string

record JoinResponse =
  jr_approved :: bool
  jr_roster :: string
  jr_peer_hints :: "(string, string) omap"

record JoinAck =
  ja_accepted :: bool

text \<open>
  For each message the functions \<open>to_vec\<close> and \<open>from_slice\<close> of \<open>serde_json\<close>, the \<open>URL_SAFE_NO_PAD\<close> engine, the parser
  of tickets, the outcome of binding the endpoint (an error text) and the remote id of the connection made.
\<close>

record join_codec =
  jc_request :: "JoinRequest \<Rightarrow> byte list option"
  jc_request_of :: "byte list \<Rightarrow> JoinRequest option"
  jc_response :: "JoinResponse \<Rightarrow> byte list option"
  jc_response_of :: "byte list \<Rightarrow> JoinResponse option"
  jc_ack :: "JoinAck \<Rightarrow> byte list option"
  jc_ack_of :: "byte list \<Rightarrow> JoinAck option"
  jc_base64 :: "byte list \<Rightarrow> string"
  jc_unbase64 :: "string \<Rightarrow> byte list option"
  jc_ticket :: "string \<Rightarrow> EndpointAddr option"
  jc_bind :: "string + unit"
  jc_remote_id :: "EndpointAddr \<Rightarrow> EndpointId"

type_synonym 'a exchange = "(session, JoinError, 'a) action"

section \<open>Framing\<close>

abbreviation join_call_net :: "peer_env \<Rightarrow> unit exchange" where
  "join_call_net N \<equiv> net_call N JoinError.Timeout JoinError.Transport"

text \<open>\<open>for chunk in bytes.chunks(64 * 1024)\<close>\<close>

function write_chunks :: "peer_env \<Rightarrow> byte list \<Rightarrow> unit exchange" where
  "write_chunks N bytes =
    (if bytes = [] then returnS ()
     else bindS (net_write N JoinError.Timeout JoinError.Transport (take (64 * 1024) bytes)) (\<lambda>_.
       write_chunks N (drop (64 * 1024) bytes)))"
  by pat_completeness auto
termination by (relation "measure (\<lambda>(N, bytes). length bytes)") auto

declare write_chunks.simps [simp del]

definition write_json :: "peer_env \<Rightarrow> ('a \<Rightarrow> byte list option) \<Rightarrow> 'a \<Rightarrow> nat \<Rightarrow> unit exchange" where
  "write_json N json_of value limit =
    bindS (liftS (ok_or InvalidFrame (json_of value))) (\<lambda>bytes.
    if length bytes > limit then throwS FrameTooLarge
    else
      bindS (liftS (ok_or FrameTooLarge (u32_try_from (length bytes)))) (\<lambda>len.
      bindS (net_write N JoinError.Timeout JoinError.Transport (to_be_bytes len)) (\<lambda>_.
      write_chunks N bytes)))"

text \<open>\<open>stream.read_exact\<close>: a stream that ends before is a transport failure.\<close>

definition stream_read :: "peer_env \<Rightarrow> nat \<Rightarrow> byte list exchange" where
  "stream_read N n =
    bindS (join_call_net N) (\<lambda>_ s.
    if n \<le> length (se_in s) then (Inr (take n (se_in s)), s\<lparr>se_in := drop n (se_in s)\<rparr>)
    else (Inl JoinError.Transport, s))"

function fill_chunks :: "peer_env \<Rightarrow> byte list \<Rightarrow> nat \<Rightarrow> byte list exchange" where
  "fill_chunks N filled remaining =
    (if remaining = 0 then returnS filled
     else
       let wanted = min remaining (64 * 1024) in
       bindS (stream_read N wanted) (\<lambda>chunk. fill_chunks N (filled @ chunk) (remaining - wanted)))"
  by pat_completeness auto
termination by (relation "measure (\<lambda>(N, filled, remaining). remaining)") auto

declare fill_chunks.simps [simp del]

definition read_json_waiting :: "peer_env \<Rightarrow> (byte list \<Rightarrow> 'a option) \<Rightarrow> nat \<Rightarrow> 'a exchange" where
  "read_json_waiting N of_json limit =
    bindS (stream_read N 1) (\<lambda>first.
    bindS (stream_read N 3) (\<lambda>others.
    let len = unat (from_be_bytes (first @ others) :: u32) in
    if len > limit then throwS FrameTooLarge
    else
      bindS (fill_chunks N [] len) (\<lambda>bytes.
      liftS (ok_or InvalidFrame (of_json bytes)))))"

definition read_json :: "peer_env \<Rightarrow> (byte list \<Rightarrow> 'a option) \<Rightarrow> nat \<Rightarrow> 'a exchange" where
  "read_json N of_json limit = read_json_waiting N of_json limit"

definition expect_stream_end :: "peer_env \<Rightarrow> unit exchange" where
  "expect_stream_end N =
    bindS (join_call_net N) (\<lambda>_ s.
    if se_in s = [] then (Inr (), s) else (Inl InvalidFrame, s\<lparr>se_in := drop 1 (se_in s)\<rparr>))"

section \<open>Rosters and approval\<close>

definition encode_roster :: "join_codec \<Rightarrow> RosterRevision list \<Rightarrow> JoinError + string" where
  "encode_roster K revisions =
    bindE (mapErr (\<lambda>_. InvalidRoster) (roster_bundle_encode \<lparr>rb_revisions = revisions\<rparr>)) (\<lambda>canonical.
    Inr (jc_base64 K canonical))"

definition decode_roster :: "crypto \<Rightarrow> join_codec \<Rightarrow> string \<Rightarrow> JoinError + RosterRevision list" where
  "decode_roster C K encoded =
    (if encoded = [] then Inl InvalidRoster
     else
       bindE (ok_or InvalidRoster (jc_unbase64 K encoded)) (\<lambda>canonical.
       if length canonical > MAX_ROSTER_BYTES then Inl InvalidRoster
       else bindE (mapErr (\<lambda>_. InvalidRoster) (roster_bundle_decode C canonical)) (\<lambda>b. Inr (rb_revisions b))))"

text \<open>The loop over the hints, with the length of their texts.\<close>

fun hint_text_length :: "peer_env \<Rightarrow> RosterRevision \<Rightarrow> (string, string) omap \<Rightarrow> nat \<Rightarrow> JoinError + nat" where
  "hint_text_length N tip [] sum_len = Inr sum_len"
| "hint_text_length N tip ((endpoint, hint) # hints) sum_len =
    bindE (mapErr (\<lambda>_. InvalidAddress) (endpoint_from_str endpoint)) (\<lambda>e.
    if \<not> om_contains (rr_members tip) e then Inl InvalidAddress
    else
      bindE (ok_or FrameTooLarge (usize_checked_add sum_len (length endpoint))) (\<lambda>sum_len.
      bindE (validate_endpoint_addr N hint e) (\<lambda>_.
      bindE (ok_or FrameTooLarge (usize_checked_add sum_len (length hint))) (\<lambda>sum_len.
      hint_text_length N tip hints sum_len))))"

definition validate_approval_payload ::
  "peer_env \<Rightarrow> join_codec \<Rightarrow> RosterRevision list \<Rightarrow> string \<Rightarrow> (string, string) omap \<Rightarrow> JoinError + unit" where
  "validate_approval_payload N K roster encoded_roster offered_hints =
    bindE (ok_or InvalidRoster (tip_of roster)) (\<lambda>tip.
    bindE (hint_text_length N tip offered_hints 0) (\<lambda>hint_text_bytes.
    if hint_text_bytes > MAX_JOIN_HINT_TEXT_BYTES then Inl FrameTooLarge
    else
      bindE (ok_or InvalidFrame (jc_response K \<lparr>jr_approved = True, jr_roster = encoded_roster, jr_peer_hints = offered_hints\<rparr>)) (\<lambda>bytes.
      if length bytes > JOIN_RESPONSE_LIMIT then Inl FrameTooLarge else Inr ())))"

definition approved_decision ::
  "peer_env \<Rightarrow> join_codec \<Rightarrow> RosterRevision list \<Rightarrow> (string, string) omap \<Rightarrow> JoinError + JoinDecision" where
  "approved_decision N K roster offered_hints =
    bindE (encode_roster K roster) (\<lambda>encoded_roster.
    bindE (validate_approval_payload N K roster encoded_roster offered_hints) (\<lambda>_.
    Inr (Approved encoded_roster offered_hints)))"

section \<open>The inviting side\<close>

definition inviter_request :: "peer_env \<Rightarrow> join_codec \<Rightarrow> JoinRequest exchange" where
  "inviter_request N K = bindS (join_call_net N) (\<lambda>_. read_json N (jc_request_of K) JOIN_REQUEST_LIMIT)"

definition response_of :: "JoinDecision \<Rightarrow> JoinResponse" where
  "response_of decision = (case decision of
      Approved roster offered_hints \<Rightarrow> \<lparr>jr_approved = True, jr_roster = roster, jr_peer_hints = offered_hints\<rparr>
    | JoinDecision.Rejected \<Rightarrow> \<lparr>jr_approved = False, jr_roster = [], jr_peer_hints = []\<rparr>)"

definition read_ack :: "peer_env \<Rightarrow> join_codec \<Rightarrow> unit exchange" where
  "read_ack N K =
    bindS (read_json N (jc_ack_of K) JOIN_REQUEST_LIMIT) (\<lambda>ack.
    if \<not> ja_accepted ack then throwS InvalidFrame else expect_stream_end N)"

definition wait_for_stream_delivery :: "peer_env \<Rightarrow> unit exchange" where
  "wait_for_stream_delivery N = join_call_net N"

text \<open>\<open>let _ = m;\<close>\<close>

definition ignoring :: "('s, 'e, 'a) action \<Rightarrow> ('s, 'f, unit) action" where
  "ignoring m s = (Inr (), snd (m s))"

definition send_finish :: "peer_env \<Rightarrow> unit exchange" where
  "send_finish N = net_call N JoinError.Transport JoinError.Transport"

text \<open>What follows the decision; a failed acknowledgement resets the stream, which sends no byte.\<close>

definition inviter_answer :: "peer_env \<Rightarrow> join_codec \<Rightarrow> EndpointId \<Rightarrow> JoinDecision \<Rightarrow> EndpointId exchange" where
  "inviter_answer N K remote_endpoint decision =
    (let response = response_of decision in
     bindS (write_json N (jc_response K) response JOIN_RESPONSE_LIMIT) (\<lambda>_.
     if \<not> jr_approved response then bindS (send_finish N) (\<lambda>_. throwS JoinError.Rejected)
     else (\<lambda>s. case read_ack N K s of
         (Inl e, s') \<Rightarrow> (Inl e, s')
       | (Inr _, s') \<Rightarrow>
           bindS (send_finish N) (\<lambda>_.
           bindS (ignoring (wait_for_stream_delivery N)) (\<lambda>_. returnS remote_endpoint)) s')))"

record inviter =
  iv_coordinator :: coordinator
  iv_session :: session

definition on_coordinator :: "(coordinator, 'e, 'a) action \<Rightarrow> (inviter, 'e, 'a) action" where
  "on_coordinator m v = (case m (iv_coordinator v) of (r, c) \<Rightarrow> (r, v\<lparr>iv_coordinator := c\<rparr>))"

definition on_session :: "(session, 'e, 'a) action \<Rightarrow> (inviter, 'e, 'a) action" where
  "on_session m v = (case m (iv_session v) of (r, s) \<Rightarrow> (r, v\<lparr>iv_session := s\<rparr>))"

text \<open>
  The whole handler of a connection. What the others do to the coordinator while it waits, and the branch of
  \<open>tokio::select!\<close> that wins, are arguments.
\<close>

definition run_inviter ::
  "join_env \<Rightarrow> peer_env \<Rightarrow> join_codec \<Rightarrow> EndpointId \<Rightarrow> (coordinator \<Rightarrow> coordinator) \<Rightarrow> wait_outcome
     \<Rightarrow> (inviter, JoinError, EndpointId) action" where
  "run_inviter V N K remote_endpoint meanwhile outcome =
    bindS (on_session (inviter_request N K)) (\<lambda>request.
    bindS (on_coordinator (claim V N (jq_nonce request) remote_endpoint (jq_device_name request) (jq_endpoint_addr_json request)))
      (\<lambda>(ch, remaining, request_id).
    bindS (on_coordinator (\<lambda>c. (Inr (), meanwhile c))) (\<lambda>_.
    bindS (on_coordinator (wake ch request_id outcome)) (\<lambda>decision.
    on_session (inviter_answer N K remote_endpoint decision)))))"

section \<open>The joining side\<close>

fun validated_hints ::
  "peer_env \<Rightarrow> RosterRevision \<Rightarrow> EndpointId \<Rightarrow> (string, string) omap \<Rightarrow> JoinError + (EndpointId \<times> string) list" where
  "validated_hints N tip me [] = Inr []"
| "validated_hints N tip me ((endpoint, hint) # hints) =
    bindE (mapErr (\<lambda>_. InvalidAddress) (endpoint_from_str endpoint)) (\<lambda>e.
    if \<not> om_contains (rr_members tip) e \<or> e = me then Inl InvalidAddress
    else
      bindE (validate_endpoint_addr N hint e) (\<lambda>_.
      bindE (validated_hints N tip me hints) (\<lambda>checked. Inr ((e, hint) # checked))))"

definition check_response ::
  "crypto \<Rightarrow> peer_env \<Rightarrow> join_codec \<Rightarrow> EndpointId \<Rightarrow> EndpointId \<Rightarrow> string \<Rightarrow> JoinResponse
     \<Rightarrow> JoinError + (RosterRevision list \<times> (EndpointId \<times> string) list)" where
  "check_response C N K me inviter device_name response =
    bindE (decode_roster C K (jr_roster response)) (\<lambda>roster.
    bindE (ok_or InvalidRoster (tip_of roster)) (\<lambda>tip.
    if om_get (rr_members tip) me \<noteq> Some device_name \<or> \<not> om_contains (rr_members tip) inviter then Inl InvalidRoster
    else
      bindE (validated_hints N tip me (jr_peer_hints response)) (\<lambda>hints.
      if \<not> list_ex (\<lambda>(e, _). e = inviter) hints then Inl InvalidAddress else Inr (roster, hints))))"

definition install_join :: "crypto \<Rightarrow> EndpointId \<Rightarrow> string \<Rightarrow> RosterRevision list \<Rightarrow> (EndpointId \<times> string) list \<Rightarrow> unit exchange" where
  "install_join C me device_name roster hints =
    bindS (on_local (mapErrS JoinError.State (db migrate))) (\<lambda>_.
    on_local (mapErrS JoinError.State (db (install_or_resume_joined_state C roster me device_name hints))))"

definition run_joiner_on_endpoint ::
  "crypto \<Rightarrow> peer_env \<Rightarrow> join_codec \<Rightarrow> DeviceIdentity \<Rightarrow> EndpointAddr \<Rightarrow> EndpointAddr \<Rightarrow> EndpointId \<Rightarrow> bytes32 \<Rightarrow> string
     \<Rightarrow> EndpointId exchange" where
  "run_joiner_on_endpoint C N K identity own_addr target inviter nonce device_name =
    bindS (join_call_net N) (\<lambda>_.
    if jc_remote_id K target \<noteq> inviter then throwS WrongInviter
    else
      bindS (join_call_net N) (\<lambda>_.
      bindS (liftS (ok_or InvalidAddress (pe_addr_to_string N own_addr))) (\<lambda>addr.
      bindS (write_json N (jc_request K)
        \<lparr>jq_nonce = nonce, jq_device_name = device_name, jq_endpoint_addr_json = addr\<rparr> JOIN_REQUEST_LIMIT) (\<lambda>_.
      bindS (read_json_waiting N (jc_response_of K) JOIN_RESPONSE_LIMIT) (\<lambda>response.
      if \<not> jr_approved response then bindS (expect_stream_end N) (\<lambda>_. throwS JoinError.Rejected)
      else
        bindS (liftS (check_response C N K (endpoint_id identity) inviter device_name response)) (\<lambda>(roster, hints).
        bindS (install_join C (endpoint_id identity) device_name roster hints) (\<lambda>_.
        bindS (write_json N (jc_ack K) \<lparr>ja_accepted = True\<rparr> JOIN_REQUEST_LIMIT) (\<lambda>_.
        bindS (send_finish N) (\<lambda>_.
        bindS (expect_stream_end N) (\<lambda>_.
        returnS inviter))))))))))"

definition run_joiner ::
  "crypto \<Rightarrow> peer_env \<Rightarrow> join_codec \<Rightarrow> DeviceIdentity \<Rightarrow> EndpointAddr \<Rightarrow> string \<Rightarrow> bytes32 \<Rightarrow> string \<Rightarrow> EndpointId exchange" where
  "run_joiner C N K identity own_addr inviter_ticket nonce device_name =
    bindS (liftS (validate_join_device_name device_name)) (\<lambda>_.
    bindS (liftS (ok_or InvalidTicket (jc_ticket K inviter_ticket))) (\<lambda>target.
    bindS (liftS (mapErr Bind (jc_bind K))) (\<lambda>_.
    run_joiner_on_endpoint C N K identity own_addr target (ea_id target) nonce device_name)))"

end
