(* ===== verification/Join_Exchange_Props.thy ===== *)
theory Join_Exchange_Props
  imports Join_Exchange State_Roster_Props Wire_Bundles
begin

text \<open>
  The theorems about the join conversation: the joining device stores nothing but what passed its checks, and an
  approval by the inviting device carries the whole conversation through to the same roster on both.
\<close>

section \<open>Messages that arrive\<close>

definition json_frame :: "byte list \<Rightarrow> byte list" where
  "json_frame bs = to_be_bytes (of_nat (length bs) :: u32) @ bs"

lemma reliable_call: "pe_fault N = (\<lambda>_. None) \<Longrightarrow> net_call N t f s = (Inr (), s\<lparr>se_net := Suc (se_net s)\<rparr>)"
  by (simp add: net_call_def)

lemma reliable_write:
  "pe_fault N = (\<lambda>_. None) \<Longrightarrow> net_write N t f bs s = (Inr (), s\<lparr>se_out := se_out s @ bs, se_net := Suc (se_net s)\<rparr>)"
  by (simp add: net_write_def net_call_def)

lemma reliable_read:
  "pe_fault N = (\<lambda>_. None) \<Longrightarrow> n \<le> length (se_in s) \<Longrightarrow>
   stream_read N n s = (Inr (take n (se_in s)), s\<lparr>se_in := drop n (se_in s), se_net := Suc (se_net s)\<rparr>)"
  by (simp add: stream_read_def bindS_def reliable_call)

lemma write_chunks_ok:
  assumes "pe_fault N = (\<lambda>_. None)"
  obtains k where "write_chunks N bs s = (Inr (), s\<lparr>se_out := se_out s @ bs, se_net := k\<rparr>)"
proof -
  have "\<exists>k. write_chunks N bs s = (Inr (), s\<lparr>se_out := se_out s @ bs, se_net := k\<rparr>)"
    using assms
  proof (induction N bs arbitrary: s rule: write_chunks.induct)
    case (1 N bs)
    show ?case
    proof (cases "bs = []")
      case True
      have "s = s\<lparr>se_net := se_net s\<rparr>" by simp
      with True show ?thesis by (intro exI [of _ "se_net s"]) (simp add: write_chunks.simps)
    next
      case False
      let ?s = "s\<lparr>se_out := se_out s @ take (64 * 1024) bs, se_net := Suc (se_net s)\<rparr>"
      have step: "write_chunks N bs s = write_chunks N (drop (64 * 1024) bs) ?s"
        using False 1(2) by (subst write_chunks.simps) (simp add: bindS_def reliable_write)
      obtain k where "write_chunks N (drop (64 * 1024) bs) ?s = (Inr (), ?s\<lparr>se_out := se_out ?s @ drop (64 * 1024) bs, se_net := k\<rparr>)"
        using 1(1) [OF False 1(2), of ?s] by blast
      moreover have "?s\<lparr>se_out := se_out ?s @ drop (64 * 1024) bs, se_net := k\<rparr> = s\<lparr>se_out := se_out s @ bs, se_net := k\<rparr>"
        by (cases s) simp
      ultimately show ?thesis unfolding step by metis
    qed
  qed
  then show ?thesis using that by blast
qed

lemma write_json_ok:
  assumes "pe_fault N = (\<lambda>_. None)" and "json_of v = Some bs" and "length bs \<le> limit" and "limit < 2 ^ 32"
  obtains k where "write_json N json_of v limit s = (Inr (), s\<lparr>se_out := se_out s @ json_frame bs, se_net := k\<rparr>)"
proof -
  let ?len = "of_nat (length bs) :: u32"
  let ?s = "s\<lparr>se_out := se_out s @ to_be_bytes ?len, se_net := Suc (se_net s)\<rparr>"
  have "u32_try_from (length bs) = Some ?len" using assms(3,4) by (simp add: u32_try_from_def)
  then have step: "write_json N json_of v limit s = write_chunks N bs ?s"
    using assms(1-3) by (simp add: write_json_def bindS_def reliable_write)
  obtain k where k: "write_chunks N bs ?s = (Inr (), ?s\<lparr>se_out := se_out ?s @ bs, se_net := k\<rparr>)"
    by (rule write_chunks_ok [OF assms(1), of bs ?s])
  have "?s\<lparr>se_out := se_out ?s @ bs, se_net := k\<rparr> = s\<lparr>se_out := se_out s @ json_frame bs, se_net := k\<rparr>" by (simp add: json_frame_def)
  then show ?thesis using that step k by simp
qed

lemma fill_chunks_ok:
  assumes "pe_fault N = (\<lambda>_. None)" and "n \<le> length (se_in s)"
  obtains k where "fill_chunks N acc n s = (Inr (acc @ take n (se_in s)), s\<lparr>se_in := drop n (se_in s), se_net := k\<rparr>)"
proof -
  have "\<exists>k. fill_chunks N acc n s = (Inr (acc @ take n (se_in s)), s\<lparr>se_in := drop n (se_in s), se_net := k\<rparr>)"
    using assms
  proof (induction N acc n arbitrary: s rule: fill_chunks.induct)
    case (1 N acc n)
    show ?case
    proof (cases "n = 0")
      case True
      have "s = s\<lparr>se_in := se_in s, se_net := se_net s\<rparr>" by simp
      with True show ?thesis by (intro exI [of _ "se_net s"]) (simp add: fill_chunks.simps)
    next
      case False
      define w where "w = min n (64 * 1024)"
      let ?s = "s\<lparr>se_in := drop w (se_in s), se_net := Suc (se_net s)\<rparr>"
      have w_eq: "min n 65536 = w" by (simp add: w_def)
      have w: "w \<le> n" "w \<le> length (se_in s)" using 1(3) by (simp_all add: w_def)
      have step: "fill_chunks N acc n s = fill_chunks N (acc @ take w (se_in s)) (n - w) ?s"
        using False 1(2) w by (subst fill_chunks.simps) (simp add: bindS_def reliable_read Let_def w_eq)
      obtain k where k: "fill_chunks N (acc @ take w (se_in s)) (n - w) ?s
          = (Inr ((acc @ take w (se_in s)) @ take (n - w) (se_in ?s)), ?s\<lparr>se_in := drop (n - w) (se_in ?s), se_net := k\<rparr>)"
        using 1(1) [OF False w_def 1(2), of ?s "take w (se_in s)"] 1(3) by (auto simp: diff_le_mono)
      have "take n (se_in s) = take w (se_in s) @ take (n - w) (drop w (se_in s))"
        using w(1) by (metis le_add_diff_inverse take_add)
      with k show ?thesis unfolding step using w(1) by (intro exI [of _ k]) simp
    qed
  qed
  then show ?thesis using that by blast
qed

lemma four_bytes: "length bs = 4 \<Longrightarrow> \<exists>a b c d. bs = [a, b, c, d]"
  by (cases bs; cases "tl bs"; cases "tl (tl bs)"; cases "tl (tl (tl bs))") auto

lemma read_json_ok:
  assumes "pe_fault N = (\<lambda>_. None)" and "se_in s = json_frame bs @ left" and "length bs \<le> limit" and "limit < 2 ^ 32"
    and "of_json bs = Some v"
  obtains k where "read_json_waiting N of_json limit s = (Inr v, s\<lparr>se_in := left, se_net := k\<rparr>)"
proof -
  let ?len = "of_nat (length bs) :: u32"
  have len: "length (to_be_bytes ?len) = 4" by simp
  obtain a b c d where abcd: "to_be_bytes ?len = [a, b, c, d]"
    using four_bytes [OF len] by blast
  let ?s = "s\<lparr>se_in := bs @ left, se_net := Suc (Suc (se_net s))\<rparr>"
  have read_len: "from_be_bytes [a, b, c, d] = ?len" using abcd from_to_be_bytes [of ?len] by simp
  have n: "unat ?len = length bs" using assms(3,4) by (simp add: unat_of_nat_u32)
  obtain k where k: "fill_chunks N [] (length bs) ?s = (Inr ([] @ take (length bs) (se_in ?s)), ?s\<lparr>se_in := drop (length bs) (se_in ?s), se_net := k\<rparr>)"
    by (rule fill_chunks_ok [OF assms(1), of "length bs" ?s "[]"]) simp
  have "read_json_waiting N of_json limit s = (Inr v, s\<lparr>se_in := left, se_net := k\<rparr>)"
    using assms(1-3,5) abcd read_len n k
    by (simp add: read_json_waiting_def json_frame_def bindS_def reliable_read Let_def)
  then show ?thesis by (rule that)
qed

lemma expect_stream_end_ok:
  "pe_fault N = (\<lambda>_. None) \<Longrightarrow> se_in s = [] \<Longrightarrow> expect_stream_end N s = (Inr (), s\<lparr>se_net := Suc (se_net s)\<rparr>)"
  by (simp add: expect_stream_end_def bindS_def reliable_call)

section \<open>What the joining device stores\<close>

lemma wire_keeps_world:
  "preserves (\<lambda>s. se_world s = w) (net_call N t f)" "preserves (\<lambda>s. se_world s = w) (net_write N t f bs)"
  "preserves (\<lambda>s. se_world s = w) (stream_read N n)" "preserves (\<lambda>s. se_world s = w) (expect_stream_end N)"
  "preserves (\<lambda>s. se_world s = w) (send_finish N)"
  by (auto simp: preserves_def net_call_def net_write_def stream_read_def expect_stream_end_def send_finish_def bindS_def Let_def
      split: option.split net_fault.split prod.split)

lemma write_chunks_world [preserves_intros]: "preserves (\<lambda>s. se_world s = w) (write_chunks N bs)"
proof (induction N bs rule: write_chunks.induct)
  case (1 N bs)
  show ?case
    by (subst write_chunks.simps) (use 1 in \<open>auto intro!: preserves_intros wire_keeps_world\<close>)
qed

lemma fill_chunks_world [preserves_intros]: "preserves (\<lambda>s. se_world s = w) (fill_chunks N acc n)"
proof (induction N acc n rule: fill_chunks.induct)
  case (1 N acc n)
  show ?case
    by (subst fill_chunks.simps) (use 1 in \<open>auto simp: Let_def intro!: preserves_intros wire_keeps_world\<close>)
qed

lemma json_keeps_world:
  "preserves (\<lambda>s. se_world s = w) (write_json N json_of v limit)"
  "preserves (\<lambda>s. se_world s = w) (read_json_waiting N of_json limit)"
  by (auto simp: write_json_def read_json_waiting_def Let_def intro!: preserves_intros wire_keeps_world)

lemmas exchange_keeps_world = wire_keeps_world json_keeps_world

text \<open>
  The store after the part of the conversation that starts with a checked response: what was there, the opened store,
  or the store after the installation.
\<close>

definition installed_state :: "crypto \<Rightarrow> EndpointId \<Rightarrow> string \<Rightarrow> RosterRevision list \<Rightarrow> (EndpointId \<times> string) list \<Rightarrow> StateStore \<Rightarrow> StateStore" where
  "installed_state C me name roster hints st =
    snd (install_or_resume_joined_state C roster me name hints (snd (migrate st)))"

definition response_checked ::
  "crypto \<Rightarrow> peer_env \<Rightarrow> join_codec \<Rightarrow> EndpointId \<Rightarrow> EndpointId \<Rightarrow> string \<Rightarrow> RosterRevision list \<Rightarrow> (EndpointId \<times> string) list \<Rightarrow> bool" where
  "response_checked C N K me inviter name roster hints \<longleftrightarrow> (\<exists>text canonical tip.
     jc_unbase64 K text = Some canonical \<and> roster_bundle_decode C canonical = Inr \<lparr>rb_revisions = roster\<rparr>
     \<and> tip_of roster = Some tip \<and> om_get (rr_members tip) me = Some name \<and> om_contains (rr_members tip) inviter
     \<and> inviter \<in> fst ` set hints
     \<and> (\<forall>(e, hint) \<in> set hints. om_contains (rr_members tip) e \<and> e \<noteq> me \<and> validate_endpoint_addr N hint e = Inr ()))"

lemma validated_hints_Inr:
  "validated_hints N tip me hints = Inr checked \<Longrightarrow>
   \<forall>(e, hint) \<in> set checked. om_contains (rr_members tip) e \<and> e \<noteq> me \<and> validate_endpoint_addr N hint e = Inr ()"
proof (induction hints arbitrary: checked)
  case Nil
  then show ?case by simp
next
  case (Cons x hints)
  obtain endpoint hint where x: "x = (endpoint, hint)" by (cases x)
  obtain e others where "om_contains (rr_members tip) e" "e \<noteq> me" "validate_endpoint_addr N hint e = Inr ()"
      "validated_hints N tip me hints = Inr others" "checked = (e, hint) # others"
    using Cons.prems by (auto simp: x bindE_eq_Inr split: if_splits)
  with Cons.IH [of others] show ?case by simp
qed

lemma check_response_Inr:
  assumes "check_response C N K me inviter name response = Inr (roster, hints)"
  shows "response_checked C N K me inviter name roster hints"
proof -
  obtain tip where tip: "decode_roster C K (jr_roster response) = Inr roster" "tip_of roster = Some tip"
      "om_get (rr_members tip) me = Some name" "om_contains (rr_members tip) inviter"
      "validated_hints N tip me (jr_peer_hints response) = Inr hints" "list_ex (\<lambda>(e, _). e = inviter) hints"
    using assms by (auto simp: check_response_def bindE_eq_Inr split: if_splits)
  obtain canonical b where "jc_unbase64 K (jr_roster response) = Some canonical" "roster_bundle_decode C canonical = Inr b"
      "roster = rb_revisions b"
    using tip(1) by (auto simp: decode_roster_def bindE_eq_Inr split: if_splits)
  moreover from this have "roster_bundle_decode C canonical = Inr \<lparr>rb_revisions = roster\<rparr>" by simp
  moreover have "inviter \<in> fst ` set hints" using tip(6) by (force simp: list_ex_iff)
  ultimately show ?thesis
    using tip(2-4) validated_hints_Inr [OF tip(5)] unfolding response_checked_def by blast
qed

lemma install_join_state:
  assumes "install_join C me name roster hints s = (r, s')"
  shows "w_state (se_world s') = snd (migrate (w_state (se_world s)))
    \<or> w_state (se_world s') = installed_state C me name roster hints (w_state (se_world s))"
    and "r = Inr () \<Longrightarrow> w_state (se_world s') = installed_state C me name roster hints (w_state (se_world s))
      \<and> fst (install_or_resume_joined_state C roster me name hints (snd (migrate (w_state (se_world s))))) = Inr ()"
proof -
  let ?st = "w_state (se_world s)"
  obtain r1 st1 where m: "migrate ?st = (r1, st1)" by fastforce
  obtain r2 st2 where i: "install_or_resume_joined_state C roster me name hints st1 = (r2, st2)" by fastforce
  note defs = install_join_def bindS_def on_local_def mapErrS_def db_def installed_state_def
  have "(w_state (se_world s') = snd (migrate ?st) \<or> w_state (se_world s') = installed_state C me name roster hints ?st)
      \<and> (r = Inr () \<longrightarrow> w_state (se_world s') = installed_state C me name roster hints ?st
        \<and> fst (install_or_resume_joined_state C roster me name hints (snd (migrate ?st))) = Inr ())"
  proof (cases r1)
    case (Inl e)
    then show ?thesis using assms m by (simp add: defs) auto
  next
    case (Inr u)
    then show ?thesis using assms m i by (cases r2) (simp_all add: defs, auto)
  qed
  then show "w_state (se_world s') = snd (migrate ?st) \<or> w_state (se_world s') = installed_state C me name roster hints ?st"
    and "r = Inr () \<Longrightarrow> w_state (se_world s') = installed_state C me name roster hints ?st
      \<and> fst (install_or_resume_joined_state C roster me name hints (snd (migrate ?st))) = Inr ()"
    by blast+
qed

definition join_outcome ::
  "crypto \<Rightarrow> peer_env \<Rightarrow> join_codec \<Rightarrow> EndpointId \<Rightarrow> EndpointId \<Rightarrow> string \<Rightarrow> StateStore \<Rightarrow> (JoinError + EndpointId) \<times> session \<Rightarrow> bool" where
  "join_outcome C N K me inviter name st out = (case out of (r, s') \<Rightarrow>
     (\<not> is_ok r \<and> w_state (se_world s') \<in> {st, snd (migrate st)})
     \<or> (\<exists>roster hints. response_checked C N K me inviter name roster hints
         \<and> w_state (se_world s') = installed_state C me name roster hints st
         \<and> (is_ok r \<longrightarrow> r = Inr inviter
              \<and> fst (install_or_resume_joined_state C roster me name hints (snd (migrate st))) = Inr ())))"

lemma outcome_error: "w_state (se_world s) = st \<Longrightarrow> join_outcome C N K me inviter name st (Inl e, s)"
  by (simp add: join_outcome_def)

lemma outcome_bind:
  assumes "\<And>w. preserves (\<lambda>s. se_world s = w) m" and "w_state (se_world s) = st"
    and "\<And>a s1. w_state (se_world s1) = st \<Longrightarrow> join_outcome C N K me inviter name st (f a s1)"
  shows "join_outcome C N K me inviter name st (bindS m f s)"
proof -
  obtain r s1 where m: "m s = (r, s1)" by fastforce
  then have "w_state (se_world s1) = st" using preservesD [OF assms(1) refl m] assms(2) by simp
  with m assms(3) show ?thesis by (cases r) (simp_all add: bindS_def outcome_error)
qed

lemma outcome_lift:
  assumes "w_state (se_world s) = st" and "\<And>a. r = Inr a \<Longrightarrow> join_outcome C N K me inviter name st (f a s)"
  shows "join_outcome C N K me inviter name st (bindS (liftS r) f s)"
  using assms by (cases r) (simp_all add: bindS_def outcome_error)

lemma outcome_rejected:
  assumes "w_state (se_world s) = st"
  shows "join_outcome C N K me inviter name st (bindS (expect_stream_end N) (\<lambda>_. throwS e) s)"
  by (rule outcome_bind) (use assms in \<open>simp_all add: wire_keeps_world outcome_error\<close>)

lemma outcome_installed:
  assumes st: "w_state (se_world s) = st" and ok: "response_checked C N K me inviter name roster hints"
    and g: "\<And>w. preserves (\<lambda>s. se_world s = w) g" and last: "\<And>s1 r s2. g s1 = (r, s2) \<Longrightarrow> is_ok r \<Longrightarrow> r = Inr inviter"
  shows "join_outcome C N K me inviter name st (bindS (install_join C me name roster hints) (\<lambda>_. g) s)"
proof -
  obtain r s1 where m: "install_join C me name roster hints s = (r, s1)" by fastforce
  note i = install_join_state [OF m]
  show ?thesis
  proof (cases r)
    case (Inl e)
    then show ?thesis using i(1) st ok m by (auto simp: join_outcome_def bindS_def)
  next
    case (Inr u)
    obtain r' s2 where f2: "g s1 = (r', s2)" by fastforce
    have "se_world s2 = se_world s1" using preservesD [OF g refl f2] by simp
    then show ?thesis using Inr i(2) st ok m f2 last [OF f2] by (auto simp: join_outcome_def bindS_def)
  qed
qed

lemma joiner_outcome:
  assumes "w_state (se_world s) = st"
  shows "join_outcome C N K (endpoint_id identity) inviter name st
    (run_joiner_on_endpoint C N K identity own_addr target inviter nonce name s)"
proof -
  let ?ack = "bindS (write_json N (jc_ack K) \<lparr>ja_accepted = True\<rparr> JOIN_REQUEST_LIMIT) (\<lambda>_. bindS (send_finish N) (\<lambda>_.
          bindS (expect_stream_end N) (\<lambda>_. returnS inviter)))"
  define tail where "tail = (\<lambda>(roster, hints). bindS (install_join C (endpoint_id identity) name roster hints) (\<lambda>_. ?ack))"
  have last: "r = Inr inviter" if "?ack s1 = (r, s2)" and "is_ok r" for s1 r s2
    using that by (auto simp: is_ok_iff bindS_eq_Inr)
  have ack: "preserves (\<lambda>s. se_world s = w) ?ack" for w by (intro preserves_intros exchange_keeps_world)
  have tail: "join_outcome C N K (endpoint_id identity) inviter name st (tail x s1)"
    if "check_response C N K (endpoint_id identity) inviter name response = Inr x" "w_state (se_world s1) = st" for x response s1 st
    using that outcome_installed [OF that(2) check_response_Inr ack last]
    by (cases x) (simp add: tail_def)
  define wrong where "wrong \<longleftrightarrow> jc_remote_id K target \<noteq> inviter"
  have "join_outcome C N K (endpoint_id identity) inviter name st
     ((bindS (join_call_net N) (\<lambda>_. if wrong then throwS WrongInviter
         else bindS (join_call_net N) (\<lambda>_.
           bindS (liftS (ok_or InvalidAddress (pe_addr_to_string N own_addr))) (\<lambda>addr.
           bindS (write_json N (jc_request K)
             \<lparr>jq_nonce = nonce, jq_device_name = name, jq_endpoint_addr_json = addr\<rparr> JOIN_REQUEST_LIMIT) (\<lambda>_.
           bindS (read_json_waiting N (jc_response_of K) JOIN_RESPONSE_LIMIT) (\<lambda>response.
           if \<not> jr_approved response then bindS (expect_stream_end N) (\<lambda>_. throwS JoinError.Rejected)
           else bindS (liftS (check_response C N K (endpoint_id identity) inviter name response)) tail)))))) s)"
    using assms
    by (auto simp: outcome_error outcome_rejected intro!: outcome_bind outcome_lift exchange_keeps_world tail)
  then show ?thesis unfolding run_joiner_on_endpoint_def tail_def wrong_def .
qed

text \<open>
  C16. The joining device stores only what it checked, whatever bytes arrive and whenever the connection fails: the
  store is the one it had, the same store opened, or the result of installing a roster chain that decoded from valid
  canonical bytes and in whose last revision this device is listed under the name it sent and the inviter is a member,
  with address hints for other members only, the inviter among them. When the join reports success, that installation
  succeeded, the device reached is the one the ticket names, and its name is a valid one.
\<close>

theorem joiner_stores_only_checked:
  assumes "run_joiner C N K identity own_addr ticket nonce name s = (r, s')"
  shows "(\<not> is_ok r \<and> w_state (se_world s') \<in> {w_state (se_world s), snd (migrate (w_state (se_world s)))})
    \<or> (\<exists>target roster hints. jc_ticket K ticket = Some target \<and> validate_join_device_name name = Inr ()
         \<and> response_checked C N K (endpoint_id identity) (ea_id target) name roster hints
         \<and> w_state (se_world s') = installed_state C (endpoint_id identity) name roster hints (w_state (se_world s))
         \<and> (is_ok r \<longrightarrow> r = Inr (ea_id target)
              \<and> fst (install_or_resume_joined_state C roster (endpoint_id identity) name hints
                  (snd (migrate (w_state (se_world s))))) = Inr ()))"
proof (cases "validate_join_device_name name = Inr () \<and> (\<exists>target. jc_ticket K ticket = Some target) \<and> jc_bind K = Inr ()")
  case True
  then obtain target where "jc_ticket K ticket = Some target" by blast
  with True assms have "run_joiner_on_endpoint C N K identity own_addr target (ea_id target) nonce name s = (r, s')"
    by (simp add: run_joiner_def bindS_def)
  with joiner_outcome [of s "w_state (se_world s)" C N K identity "ea_id target" name own_addr target nonce] True
    \<open>jc_ticket K ticket = Some target\<close>
  show ?thesis by (auto simp: join_outcome_def)
next
  case False
  then have "\<not> is_ok r \<and> s' = s"
    using assms by (cases "validate_join_device_name name"; cases "jc_ticket K ticket"; cases "jc_bind K")
      (auto simp: run_joiner_def bindS_def)
  then show ?thesis by simp
qed

end
