(* ===== verification/Join_Completion.thy ===== *)
theory Join_Completion
  imports Join_Exchange_Props State_Joining
begin

text \<open>
  Both ends of a join together: what an inviting device approves the joining device accepts, and the bytes that each of
  them sends are those that the other one expects.
\<close>

section \<open>An approval is accepted\<close>

text \<open>What \<open>serde_json\<close> and \<open>base64\<close> are relied on for: what one writes the other reads back.\<close>

definition codec_ok :: "join_codec \<Rightarrow> bool" where
  "codec_ok K \<longleftrightarrow> (\<forall>q bs. jc_request K q = Some bs \<longrightarrow> jc_request_of K bs = Some q)
     \<and> (\<forall>r bs. jc_response K r = Some bs \<longrightarrow> jc_response_of K bs = Some r)
     \<and> (\<forall>a bs. jc_ack K a = Some bs \<longrightarrow> jc_ack_of K bs = Some a)
     \<and> (\<forall>bs. jc_unbase64 K (jc_base64 K bs) = Some bs) \<and> jc_base64 K [] = []"

definition parsed_hints :: "(string, string) omap \<Rightarrow> (EndpointId \<times> string) list" where
  "parsed_hints hints = map (\<lambda>(endpoint, hint). (expect (endpoint_from_str endpoint), hint)) hints"

definition hint_admissible :: "peer_env \<Rightarrow> RosterRevision \<Rightarrow> string \<times> string \<Rightarrow> bool" where
  "hint_admissible N tip h \<longleftrightarrow> (\<exists>e. endpoint_from_str (fst h) = Inr e \<and> om_contains (rr_members tip) e
     \<and> validate_endpoint_addr N (snd h) e = Inr ())"

lemma hint_text_length_Inr:
  "hint_text_length N tip hints n = Inr m \<Longrightarrow> list_all (hint_admissible N tip) hints"
proof (induction hints arbitrary: n)
  case Nil
  then show ?case by simp
next
  case (Cons h hints)
  obtain endpoint hint where h: "h = (endpoint, hint)" by (cases h)
  obtain e n' where "endpoint_from_str endpoint = Inr e" "om_contains (rr_members tip) e"
      "validate_endpoint_addr N hint e = Inr ()" "hint_text_length N tip hints n' = Inr m"
    using Cons.prems by (auto simp: h bindE_eq_Inr split: if_splits)
  with Cons.IH show ?case by (simp add: h hint_admissible_def)
qed

lemma validated_hints_ok:
  assumes "list_all (hint_admissible N tip) hints" and "list_all (\<lambda>h. endpoint_from_str (fst h) \<noteq> Inr me) hints"
  shows "validated_hints N tip me hints = Inr (parsed_hints hints)"
  using assms
proof (induction hints)
  case Nil
  then show ?case by (simp add: parsed_hints_def)
next
  case (Cons h hints)
  then show ?case by (cases h) (auto simp: hint_admissible_def parsed_hints_def)
qed

lemma approved_decisionE:
  assumes "approved_decision N K roster hints = Inr d"
  obtains enc tip bs where "d = Approved enc hints" "encode_roster K roster = Inr enc" "tip_of roster = Some tip"
    "list_all (hint_admissible N tip) hints" "jc_response K (response_of d) = Some bs" "length bs \<le> JOIN_RESPONSE_LIMIT"
proof -
  obtain enc where enc: "encode_roster K roster = Inr enc" "validate_approval_payload N K roster enc hints = Inr ()" "d = Approved enc hints"
    using assms by (auto simp: approved_decision_def bindE_eq_Inr)
  then obtain tip n bs where "tip_of roster = Some tip" "hint_text_length N tip hints 0 = Inr n"
      "jc_response K \<lparr>jr_approved = True, jr_roster = enc, jr_peer_hints = hints\<rparr> = Some bs" "length bs \<le> JOIN_RESPONSE_LIMIT"
    by (auto simp: validate_approval_payload_def bindE_eq_Inr split: if_splits)
  with enc that show ?thesis by (auto simp: response_of_def dest: hint_text_length_Inr)
qed

lemma roster_code_roundtrip:
  assumes "codec_ok K" and "encode_roster K roster = Inr enc" and "validate_roster_chain C roster = Inr ()"
    and "\<forall>r \<in> set roster. roster_wf r"
  shows "decode_roster C K enc = Inr roster"
proof -
  obtain bs where bs: "roster_bundle_encode \<lparr>rb_revisions = roster\<rparr> = Inr bs" "enc = jc_base64 K bs"
    using assms(2) by (auto simp: encode_roster_def bindE_eq_Inr)
  then have dec: "roster_bundle_decode C bs = Inr \<lparr>rb_revisions = roster\<rparr>"
    using assms(3,4) by (simp add: roster_bundle_decode_Inr roster_bundle_encode_Inr)
  have short: "length bs \<le> MAX_ROSTER_BYTES" using bs(1) by (auto simp: roster_bundle_encode_Inr roster_bundle_fits_def)
  have "length (count_bytes n) = 4" for n by (simp add: count_bytes_def)
  from this [of "length roster"] have "count_bytes (length roster) \<noteq> []" by (cases "count_bytes (length roster)") auto
  then have "bs \<noteq> []" using bs(1) by (auto simp: roster_bundle_encode_Inr roster_bundle_bytes_def)
  have un: "jc_unbase64 K (jc_base64 K bs) = Some bs" "jc_unbase64 K [] = Some []"
    using assms(1) unfolding codec_ok_def by metis+
  with \<open>bs \<noteq> []\<close> have "enc \<noteq> []" using bs(2) by (metis option.inject)
  with dec short un(1) bs(2) show ?thesis by (simp add: decode_roster_def)
qed

lemma approval_accepted:
  assumes K: "codec_ok K" and d: "approved_decision N K roster hints = Inr d"
    and chain: "validate_roster_chain C roster = Inr ()" "\<forall>r \<in> set roster. roster_wf r"
    and tip: "tip_of roster = Some tip" "om_get (rr_members tip) me = Some name" "om_contains (rr_members tip) inviter"
    and hints: "list_all (\<lambda>h. endpoint_from_str (fst h) \<noteq> Inr me) hints"
      "list_ex (\<lambda>h. endpoint_from_str (fst h) = Inr inviter) hints"
  shows "check_response C N K me inviter name (response_of d) = Inr (roster, parsed_hints hints)"
proof -
  obtain enc where enc: "d = Approved enc hints" "encode_roster K roster = Inr enc" "list_all (hint_admissible N tip) hints"
    by (rule approved_decisionE [OF d]) (use tip(1) in simp)
  have "list_ex (\<lambda>(e, _). e = inviter) (parsed_hints hints)"
  proof -
    obtain t h where "(t, h) \<in> set hints" "endpoint_from_str t = Inr inviter"
      using hints(2) by (auto simp: list_ex_iff)
    then have "(inviter, h) \<in> set (parsed_hints hints)" by (force simp: parsed_hints_def image_iff)
    then show ?thesis by (auto simp: list_ex_iff)
  qed
  then show ?thesis
    using enc tip validated_hints_ok [OF enc(3) hints(1)] roster_code_roundtrip [OF K enc(2) chain]
    by (simp add: check_response_def response_of_def)
qed

section \<open>The two conversations\<close>

lemma join_limits: "JOIN_REQUEST_LIMIT < 2 ^ 32" "JOIN_RESPONSE_LIMIT < 2 ^ 32"
  by (simp_all add: JOIN_REQUEST_LIMIT_def JOIN_RESPONSE_LIMIT_def MAX_ROSTER_BYTES_def)

lemma roster_bundle_links:
  assumes "validate_roster_chain C roster = Inr ()"
  obtains g rs where "roster = g # rs" "validate_genesis C g = Inr ()" "linked C g rs"
proof -
  have links: "roster_links C (g # rs) = Inr () \<longleftrightarrow> linked C g rs" for g rs
    by (induction rs arbitrary: g) (auto simp: bindE_eq_Inr)
  show ?thesis using assms that
    by (cases roster) (auto simp: validate_roster_chain_def bindE_eq_Inr links)
qed

lemma join_installed:
  assumes "encode_roster K roster = Inr enc" and "validate_roster_chain C roster = Inr ()" and "\<forall>r \<in> set roster. roster_wf r"
    and "inj_on (roster_canonical_hash C) (set roster)" and "tip_of roster = Some tip" and "om_get (rr_members tip) me = Some name"
    and "list_all (hint_admissible N tip) hints" and "roster_revisions st = []"
  obtains st' where "install_or_resume_joined_state C roster me name (parsed_hints hints) st = (Inr (), st')"
    "selected_roster_chain C st' = Inr roster"
proof -
  obtain g rs where g: "roster = g # rs" "validate_genesis C g = Inr ()" "linked C g rs" by (rule roster_bundle_links [OF assms(2)])
  have "roster_bundle_fits \<lparr>rb_revisions = roster\<rparr>"
    using assms(1) by (auto simp: encode_roster_def bindE_eq_Inr roster_bundle_encode_Inr)
  note short = roster_bundle_fits_revision [OF this]
  have "storable r" if "r \<in> set roster" for r
    using short [of r] assms(3) that by (simp add: storable_def MAX_ROSTER_BYTES_def)
  then have "\<forall>r \<in> set roster. storable r" by blast
  moreover have "validate_peer_hint (snd h) = Inr ()" if "h \<in> set (parsed_hints hints)" for h
    using that assms(7)
    by (auto simp: parsed_hints_def list_all_iff hint_admissible_def validate_endpoint_addr_def validate_peer_hint_def
        MAX_PEER_HINT_BYTES_def split: if_splits)
  moreover have "last (g # rs) = tip" using assms(5) g(1) by (auto simp: tip_of_def split: if_splits)
  ultimately have facts: "\<forall>r \<in> set (g # rs). storable r" "inj_on (roster_canonical_hash C) (set (g # rs))"
      "om_get (rr_members (last (g # rs))) me = Some name" "\<forall>h \<in> set (parsed_hints hints). validate_peer_hint (snd h) = Inr ()"
    using assms(4,6) g(1) by auto
  obtain st' where "install_or_resume_joined_state C (g # rs) me name (parsed_hints hints) st = (Inr (), st')"
      "selected_roster_chain C st' = Inr (g # rs)"
    by (rule install_fresh_join [OF assms(8) g(2,3) facts])
  with g(1) that show ?thesis by simp
qed

lemma joiner_conversation:
  assumes N: "pe_fault N = (\<lambda>_. None)" and K: "codec_ok K" and "jc_remote_id K target = inviter"
    and addr: "pe_addr_to_string N own_addr = Some addr"
    and q: "jc_request K \<lparr>jq_nonce = nonce, jq_device_name = name, jq_endpoint_addr_json = addr\<rparr> = Some qb" "length qb \<le> JOIN_REQUEST_LIMIT"
    and a: "jc_ack K \<lparr>ja_accepted = True\<rparr> = Some ab" "length ab \<le> JOIN_REQUEST_LIMIT"
    and r: "jc_response K response = Some rb" "length rb \<le> JOIN_RESPONSE_LIMIT" "jr_approved response"
    and check: "check_response C N K (endpoint_id identity) inviter name response = Inr (roster, hints)"
    and st: "migrate (w_state (se_world s)) = (Inr (), st)"
      "install_or_resume_joined_state C roster (endpoint_id identity) name hints st = (Inr (), st')"
    and s: "se_in s = json_frame rb" "se_out s = []"
  obtains s' where "run_joiner_on_endpoint C N K identity own_addr target inviter nonce name s = (Inr inviter, s')"
    "se_out s' = json_frame qb @ json_frame ab" "w_state (se_world s') = st'"
proof -
  define s1 where "s1 = s\<lparr>se_net := Suc (Suc (se_net s))\<rparr>"
  obtain k2 where k2: "write_json N (jc_request K) \<lparr>jq_nonce = nonce, jq_device_name = name, jq_endpoint_addr_json = addr\<rparr> JOIN_REQUEST_LIMIT s1
      = (Inr (), s1\<lparr>se_out := se_out s1 @ json_frame qb, se_net := k2\<rparr>)"
    by (rule write_json_ok [where json_of = "jc_request K", OF N q join_limits(1)])
  define s2 where "s2 = s1\<lparr>se_out := se_out s1 @ json_frame qb, se_net := k2\<rparr>"
  have in2: "se_in s2 = json_frame rb @ []" using s by (simp add: s2_def s1_def)
  have "jc_response_of K rb = Some response" using K r(1) by (simp add: codec_ok_def)
  then obtain k3 where k3: "read_json_waiting N (jc_response_of K) JOIN_RESPONSE_LIMIT s2 = (Inr response, s2\<lparr>se_in := [], se_net := k3\<rparr>)"
    by (rule read_json_ok [where of_json = "jc_response_of K", OF N in2 r(2) join_limits(2)])
  define s3 where "s3 = s2\<lparr>se_in := [], se_net := k3\<rparr>"
  define s4 where "s4 = s3\<lparr>se_world := (se_world s)\<lparr>w_state := st'\<rparr>\<rparr>"
  have w3: "se_world s3 = se_world s" by (simp add: s3_def s2_def s1_def)
  have i: "install_join C (endpoint_id identity) name roster hints s3 = (Inr (), s4)"
    using st by (simp add: install_join_def bindS_def on_local_def mapErrS_def db_def w3 s4_def)
  obtain k5 where k5: "write_json N (jc_ack K) \<lparr>ja_accepted = True\<rparr> JOIN_REQUEST_LIMIT s4
      = (Inr (), s4\<lparr>se_out := se_out s4 @ json_frame ab, se_net := k5\<rparr>)"
    by (rule write_json_ok [where json_of = "jc_ack K", OF N a join_limits(1)])
  define s5 where "s5 = s4\<lparr>se_out := se_out s4 @ json_frame ab, se_net := k5\<rparr>"
  have calls: "net_call N t f s = (Inr (), s\<lparr>se_net := Suc (se_net s)\<rparr>)"
      "net_call N t f (s\<lparr>se_net := Suc (se_net s)\<rparr>) = (Inr (), s1)" for t f :: JoinError
    by (simp_all add: reliable_call [OF N] s1_def)
  have in5: "se_in s5 = []" by (simp add: s5_def s4_def s3_def)
  have fin: "send_finish N s5 = (Inr (), s5\<lparr>se_net := Suc (se_net s5)\<rparr>)"
      "expect_stream_end N (s5\<lparr>se_net := Suc (se_net s5)\<rparr>) = (Inr (), s5\<lparr>se_net := Suc (Suc (se_net s5))\<rparr>)"
    using in5 by (simp_all add: send_finish_def reliable_call [OF N] expect_stream_end_ok [OF N])
  have "run_joiner_on_endpoint C N K identity own_addr target inviter nonce name s = (Inr inviter, s5\<lparr>se_net := Suc (Suc (se_net s5))\<rparr>)"
    unfolding run_joiner_on_endpoint_def
    using assms(3) addr r(3) check
    by (simp add: bindS_def calls k2 s2_def [symmetric] k3 s3_def [symmetric] i k5 s5_def [symmetric] fin)
  moreover have "se_out s5 = json_frame qb @ json_frame ab" using s by (simp add: s5_def s4_def s3_def s2_def s1_def)
  ultimately show ?thesis using that by (simp add: s5_def s4_def)
qed

lemma claim_granted:
  assumes "co_state c = Active i" and "je_now V (co_ticks c) < ai_deadline i" and "je_now V (Suc (co_ticks c)) < ai_deadline i"
    and "validate_join_device_name name = Inr ()" and "validate_endpoint_addr N addr e = Inr ()"
  obtains ch remaining request_id c' where "claim V N (ai_nonce i) e name addr c = (Inr (ch, remaining, request_id), c')"
proof -
  have "expire_locked V c = (Inr (), c\<lparr>co_ticks := Suc (co_ticks c)\<rparr>)"
    using assms(1,2) by (simp add: expire_locked_def join_action_defs)
  then show ?thesis using assms that by (simp add: claim_def join_action_defs Let_def)
qed

lemma inviter_conversation:
  assumes N: "pe_fault N = (\<lambda>_. None)" and K: "codec_ok K"
    and q: "jc_request K \<lparr>jq_nonce = nonce, jq_device_name = name, jq_endpoint_addr_json = addr\<rparr> = Some qb" "length qb \<le> JOIN_REQUEST_LIMIT"
    and a: "jc_ack K \<lparr>ja_accepted = True\<rparr> = Some ab" "length ab \<le> JOIN_REQUEST_LIMIT"
    and d: "jc_response K (response_of d) = Some rb" "length rb \<le> JOIN_RESPONSE_LIMIT" "jr_approved (response_of d)"
    and valid: "validate_join_device_name name = Inr ()" "validate_endpoint_addr N addr me = Inr ()"
    and c: "co_state c = Active i" "ai_nonce i = nonce"
      "je_now V (co_ticks c) < ai_deadline i" "je_now V (Suc (co_ticks c)) < ai_deadline i"
    and s: "se_in s = json_frame qb @ json_frame ab" "se_out s = []"
  obtains v' where "run_inviter V N K me meanwhile (Decision d) \<lparr>iv_coordinator = c, iv_session = s\<rparr> = (Inr me, v')"
    "se_out (iv_session v') = json_frame rb"
proof -
  obtain ch remaining request_id c1 where c1: "claim V N nonce me name addr c = (Inr (ch, remaining, request_id), c1)"
    using claim_granted [OF c(1,3,4) valid] c(2) by metis
  define s1 where "s1 = s\<lparr>se_net := Suc (se_net s)\<rparr>"
  have in1: "se_in s1 = json_frame qb @ json_frame ab" using s(1) by (simp add: s1_def)
  have "jc_request_of K qb = Some \<lparr>jq_nonce = nonce, jq_device_name = name, jq_endpoint_addr_json = addr\<rparr>"
    using K q(1) by (simp add: codec_ok_def)
  then obtain k2 where k2: "read_json_waiting N (jc_request_of K) JOIN_REQUEST_LIMIT s1
      = (Inr \<lparr>jq_nonce = nonce, jq_device_name = name, jq_endpoint_addr_json = addr\<rparr>, s1\<lparr>se_in := json_frame ab, se_net := k2\<rparr>)"
    by (rule read_json_ok [where of_json = "jc_request_of K", OF N in1 q(2) join_limits(1)])
  define s2 where "s2 = s1\<lparr>se_in := json_frame ab, se_net := k2\<rparr>"
  obtain k3 where k3: "write_json N (jc_response K) (response_of d) JOIN_RESPONSE_LIMIT s2
      = (Inr (), s2\<lparr>se_out := se_out s2 @ json_frame rb, se_net := k3\<rparr>)"
    by (rule write_json_ok [where json_of = "jc_response K", OF N d(1,2) join_limits(2)])
  define s3 where "s3 = s2\<lparr>se_out := se_out s2 @ json_frame rb, se_net := k3\<rparr>"
  have in3: "se_in s3 = json_frame ab @ []" by (simp add: s3_def s2_def)
  have "jc_ack_of K ab = Some \<lparr>ja_accepted = True\<rparr>" using K a(1) by (simp add: codec_ok_def)
  then obtain k4 where k4: "read_json_waiting N (jc_ack_of K) JOIN_REQUEST_LIMIT s3 = (Inr \<lparr>ja_accepted = True\<rparr>, s3\<lparr>se_in := [], se_net := k4\<rparr>)"
    by (rule read_json_ok [where of_json = "jc_ack_of K", OF N in3 a(2) join_limits(1)])
  define s4 where "s4 = s3\<lparr>se_in := [], se_net := k4\<rparr>"
  have "se_in s4 = []" by (simp add: s4_def)
  then have ack: "read_ack N K s3 = (Inr (), s4\<lparr>se_net := Suc (se_net s4)\<rparr>)"
    by (simp add: read_ack_def read_json_def bindS_def k4 s4_def [symmetric] expect_stream_end_ok [OF N])
  have answer: "inviter_answer N K me d s2 = (Inr me, s4\<lparr>se_net := Suc (Suc (Suc (se_net s4)))\<rparr>)"
    using d(3) by (simp add: inviter_answer_def bindS_def k3 s3_def [symmetric] ack send_finish_def ignoring_def
        wait_for_stream_delivery_def reliable_call [OF N])
  have request: "inviter_request N K s = (Inr \<lparr>jq_nonce = nonce, jq_device_name = name, jq_endpoint_addr_json = addr\<rparr>, s2)"
    by (simp add: inviter_request_def read_json_def bindS_def reliable_call [OF N] s1_def [symmetric] k2 s2_def [symmetric])
  have "run_inviter V N K me meanwhile (Decision d) \<lparr>iv_coordinator = c, iv_session = s\<rparr>
      = (Inr me, \<lparr>iv_coordinator = snd (drop_receiver ch (meanwhile c1)), iv_session = s4\<lparr>se_net := Suc (Suc (Suc (se_net s4)))\<rparr>\<rparr>)"
    by (simp add: run_inviter_def bindS_def on_session_def on_coordinator_def request c1 wake_def drop_receiver_def answer)
  moreover have "se_out s4 = json_frame rb" using s(2) by (simp add: s4_def s3_def s2_def s1_def)
  ultimately show ?thesis using that by simp
qed

text \<open>
  C15. An approved join completes on both devices: when the inviting device's invitation is active, in time and carries
  the nonce, and its person approves a valid roster chain that lists the joining device under its name and the inviter,
  with hints that name the inviter and not the joining device, then over a connection that does not fail the bytes each
  side sends are exactly those the other side reads: the joining device reports the inviter's endpoint, the inviting
  device reports the joining one's, and a joining device that belonged to no group selects the approved chain.
\<close>

theorem join_completes:
  assumes N: "pe_fault N = (\<lambda>_. None)" and K: "codec_ok K" and target: "jc_remote_id K target = inviter"
    and request: "pe_addr_to_string N own_addr = Some addr" "length qb \<le> JOIN_REQUEST_LIMIT"
      "jc_request K \<lparr>jq_nonce = nonce, jq_device_name = name, jq_endpoint_addr_json = addr\<rparr> = Some qb"
      "validate_join_device_name name = Inr ()" "validate_endpoint_addr N addr (endpoint_id identity) = Inr ()"
    and ack: "jc_ack K \<lparr>ja_accepted = True\<rparr> = Some ab" "length ab \<le> JOIN_REQUEST_LIMIT"
    and invitation: "co_state c = Active i" "ai_nonce i = nonce"
      "je_now V (co_ticks c) < ai_deadline i" "je_now V (Suc (co_ticks c)) < ai_deadline i"
    and approval: "approved_decision N K roster hints = Inr d" "validate_roster_chain C roster = Inr ()"
      "\<forall>r \<in> set roster. roster_wf r" "inj_on (roster_canonical_hash C) (set roster)"
    and tip: "tip_of roster = Some tip" "om_get (rr_members tip) (endpoint_id identity) = Some name" "om_contains (rr_members tip) inviter"
    and hints: "list_all (\<lambda>h. endpoint_from_str (fst h) \<noteq> Inr (endpoint_id identity)) hints"
      "list_ex (\<lambda>h. endpoint_from_str (fst h) = Inr inviter) hints"
    and joiner: "migrate (w_state (se_world sj)) = (Inr (), st)" "roster_revisions st = []"
  shows "\<exists>sent answer sj' v'.
    run_joiner_on_endpoint C N K identity own_addr target inviter nonce name (sj\<lparr>se_in := answer, se_out := []\<rparr>) = (Inr inviter, sj')
    \<and> se_out sj' = sent
    \<and> run_inviter V N K (endpoint_id identity) meanwhile (Decision d)
        \<lparr>iv_coordinator = c, iv_session = si\<lparr>se_in := sent, se_out := []\<rparr>\<rparr> = (Inr (endpoint_id identity), v')
    \<and> se_out (iv_session v') = answer
    \<and> selected_roster_chain C (w_state (se_world sj')) = Inr roster"
proof -
  obtain enc rb where d: "d = Approved enc hints" "encode_roster K roster = Inr enc" "list_all (hint_admissible N tip) hints"
      "jc_response K (response_of d) = Some rb" "length rb \<le> JOIN_RESPONSE_LIMIT"
    by (rule approved_decisionE [OF approval(1)]) (use tip(1) in simp)
  have approved: "jr_approved (response_of d)" by (simp add: d(1) response_of_def)
  note check = approval_accepted [OF K approval(1-3) tip hints]
  obtain st' where st': "install_or_resume_joined_state C roster (endpoint_id identity) name (parsed_hints hints) st = (Inr (), st')"
      "selected_roster_chain C st' = Inr roster"
    by (rule join_installed [OF d(2) approval(2-4) tip(1,2) d(3) joiner(2)])
  have st: "migrate (w_state (se_world (sj\<lparr>se_in := json_frame rb, se_out := []\<rparr>))) = (Inr (), st)" using joiner(1) by simp
  obtain sj' where "run_joiner_on_endpoint C N K identity own_addr target inviter nonce name (sj\<lparr>se_in := json_frame rb, se_out := []\<rparr>)
        = (Inr inviter, sj')" "se_out sj' = json_frame qb @ json_frame ab" "w_state (se_world sj') = st'"
    by (rule joiner_conversation [OF N K target request(1,3,2) ack d(4,5) approved check st st'(1)]) simp_all
  moreover obtain v' where "run_inviter V N K (endpoint_id identity) meanwhile (Decision d)
        \<lparr>iv_coordinator = c, iv_session = si\<lparr>se_in := json_frame qb @ json_frame ab, se_out := []\<rparr>\<rparr> = (Inr (endpoint_id identity), v')"
      "se_out (iv_session v') = json_frame rb"
    by (rule inviter_conversation [where s = "si\<lparr>se_in := json_frame qb @ json_frame ab, se_out := []\<rparr>" and meanwhile = meanwhile,
        OF N K request(3,2) ack d(4,5) approved request(4,5) invitation]) simp_all
  ultimately show ?thesis using st'(2) by blast
qed

end
