(* ===== verification/Join_Instances.thy ===== *)
theory Join_Instances
  imports Join_Props Join_Completion State_Props Sync_Claims
begin

text \<open>
  A join of two devices, 5 that invites and 3 that joins, at which the theorems about the conversation are instantiated.
\<close>

section \<open>The roster\<close>

definition sample_admission :: RosterRevision where
  "sample_admission = \<lparr>rr_group_id = 9, rr_number = 1, rr_parent_hash = Some (roster_canonical_hash sample_crypto sample_genesis),
     rr_members = [(3, ''b''), (5, ''a'')], rr_change = Admit \<lparr>mem_endpoint_id = 3, mem_device_name = ''b''\<rparr>,
     rr_author = 5, rr_signature = 5\<rparr>"

definition pair_roster :: "RosterRevision list" where
  "pair_roster = [sample_genesis, sample_admission]"

lemma name_ok_b: "name_ok ''b''"
proof -
  have "is_str ''b''" by (rule is_str_ascii) simp
  moreover have "\<not> trim_is_empty ''b''" by code_simp
  ultimately show ?thesis by (simp add: name_ok_def validate_device_name_Inr)
qed

lemma sample_admission_wf: "roster_wf sample_admission"
  by (simp add: roster_wf_def members_ok_def sample_admission_def name_ok_a name_ok_b change_ok_def)

lemma sample_admission_valid: "validate_child sample_crypto sample_admission sample_genesis = Inr ()"
  by (simp add: validate_child_Inr sample_admission_def sample_genesis_def om_contains_def apply_change_Inr u64_checked_add_def
      verify_signature_def sample_crypto_def is_initialize_def name_ok_b [unfolded name_ok_def])

lemma sample_admission_length:
  "length (roster_canonical_bytes sample_admission) < 1000"
  "length (roster_canonical_bytes sample_admission) \<noteq> length (roster_canonical_bytes sample_genesis)"
  by (simp_all add: roster_canonical_bytes_eq sample_genesis_wf sample_admission_wf unsigned_body_def ROSTER_DOMAIN_def)
    (simp_all add: sample_genesis_def sample_admission_def parent_bytes_def member_bytes_def change_bytes_def)

lemma sample_genesis_short: "length (roster_canonical_bytes sample_genesis) < 1000"
  by (simp add: roster_canonical_bytes_eq sample_genesis_wf unsigned_body_def ROSTER_DOMAIN_def)
    (simp add: sample_genesis_def parent_bytes_def member_bytes_def change_bytes_def)

lemma pair_roster_valid:
  "validate_roster_chain sample_crypto pair_roster = Inr ()" "\<forall>r \<in> set pair_roster. roster_wf r"
  by (simp_all add: pair_roster_def validate_roster_chain_def sample_genesis_valid sample_admission_valid sample_genesis_wf
      sample_admission_wf)

lemma pair_roster_hashes: "inj_on (roster_canonical_hash sample_crypto) (set pair_roster)"
proof -
  have "roster_canonical_hash sample_crypto sample_admission \<noteq> roster_canonical_hash sample_crypto sample_genesis"
  proof
    assume "roster_canonical_hash sample_crypto sample_admission = roster_canonical_hash sample_crypto sample_genesis"
    then have "(of_nat (length (roster_canonical_bytes sample_admission)) :: bytes32) = of_nat (length (roster_canonical_bytes sample_genesis))"
      by (simp add: roster_canonical_hash_def sample_crypto_def)
    from arg_cong [OF this, of unat] show False
      using sample_admission_length sample_genesis_short by (simp add: unat_of_nat take_bit_nat_eq_self)
  qed
  then show ?thesis by (auto simp: pair_roster_def)
qed

section \<open>The messages\<close>

definition pair_bytes :: "byte list" where
  "pair_bytes = roster_bundle_bytes \<lparr>rb_revisions = pair_roster\<rparr>"

definition pair_hints :: "(string, string) omap" where
  "pair_hints = [(endpoint_to_string 5, ''inv'')]"

definition pair_decision :: JoinDecision where
  "pair_decision = Approved (map char_of_byte pair_bytes) pair_hints"

definition pair_request :: JoinRequest where
  "pair_request = \<lparr>jq_nonce = 7, jq_device_name = ''b'', jq_endpoint_addr_json = ''addr''\<rparr>"

definition pair_codec :: join_codec where
  "pair_codec = \<lparr>jc_request = (\<lambda>q. if q = pair_request then Some [1] else None),
     jc_request_of = (\<lambda>bs. if bs = [1] then Some pair_request else None),
     jc_response = (\<lambda>r. if r = response_of pair_decision then Some [2] else None),
     jc_response_of = (\<lambda>bs. if bs = [2] then Some (response_of pair_decision) else None),
     jc_ack = (\<lambda>a. Some [if ja_accepted a then 1 else 0]), jc_ack_of = (\<lambda>bs. Some \<lparr>ja_accepted = (bs = [1])\<rparr>),
     jc_base64 = map char_of_byte, jc_unbase64 = (\<lambda>s. Some (as_bytes s)),
     jc_ticket = (\<lambda>_. Some \<lparr>ea_id = 5, ea_addrs = []\<rparr>), jc_bind = Inr (), jc_remote_id = ea_id\<rparr>"

definition pair_peer :: peer_env where
  "pair_peer = join_sample_peer\<lparr>pe_addr_from_str := (\<lambda>s. if s = ''addr'' then Some \<lparr>ea_id = 3, ea_addrs = []\<rparr>
     else if s = ''inv'' then Some \<lparr>ea_id = 5, ea_addrs = []\<rparr> else None)\<rparr>"

lemma pair_codec_ok: "codec_ok pair_codec"
  by (simp add: codec_ok_def pair_codec_def)

lemma pair_addresses:
  "validate_endpoint_addr pair_peer ''addr'' 3 = Inr ()" "validate_endpoint_addr pair_peer ''inv'' 5 = Inr ()"
  by (simp_all add: validate_endpoint_addr_def pair_peer_def MAX_ENDPOINT_ADDRS_def)

lemma pair_roster_encodes: "encode_roster pair_codec pair_roster = Inr (map char_of_byte pair_bytes)"
proof -
  have "roster_bundle_fits \<lparr>rb_revisions = pair_roster\<rparr>"
    using sample_genesis_short sample_admission_length
    by (simp add: roster_bundle_fits_def roster_bundle_bytes_def pair_roster_def wire_limits)
      (simp add: sample_genesis_def sample_admission_def)
  then have "roster_bundle_encode \<lparr>rb_revisions = pair_roster\<rparr> = Inr pair_bytes"
    by (simp add: roster_bundle_encode_Inr pair_bytes_def)
  then show ?thesis by (simp add: encode_roster_def pair_codec_def)
qed

lemma pair_tip: "tip_of pair_roster = Some sample_admission" "om_get (rr_members sample_admission) 3 = Some ''b''"
  "om_contains (rr_members sample_admission) 5"
  by (simp_all add: tip_of_def pair_roster_def) (simp_all add: sample_admission_def om_contains_def)

lemma endpoint_5: "endpoint_from_str (endpoint_to_string 5) = Inr 5"
  using endpoint_text_roundtrip [of 5] by simp

lemma pair_approved: "approved_decision pair_peer pair_codec pair_roster pair_hints = Inr pair_decision"
proof -
  have "hint_text_length pair_peer sample_admission pair_hints 0 = Inr 67"
    using endpoint_5 pair_tip(3) pair_addresses(2)
    by (simp add: pair_hints_def length_endpoint_to_string usize_checked_add_def)
  moreover have "jc_response pair_codec \<lparr>jr_approved = True, jr_roster = map char_of_byte pair_bytes, jr_peer_hints = pair_hints\<rparr> = Some [2]"
    by (simp add: pair_codec_def pair_decision_def response_of_def)
  ultimately show ?thesis
    using pair_roster_encodes pair_tip(1)
    by (simp add: approved_decision_def validate_approval_payload_def pair_decision_def MAX_JOIN_HINT_TEXT_BYTES_def
        JOIN_RESPONSE_LIMIT_def)
qed

section \<open>The properties at this join\<close>

definition joining_session :: session where
  "joining_session = \<lparr>se_world = peer_world fresh_database, se_in = [], se_out = [], se_received = 0, se_net = 0\<rparr>"

theorem join_completes_witness:
  "\<exists>sent answer sj' v'.
    run_joiner_on_endpoint sample_crypto pair_peer pair_codec \<lparr>signing_key = 3, endpoint_id = 3\<rparr> \<lparr>ea_id = 3, ea_addrs = []\<rparr>
        \<lparr>ea_id = 5, ea_addrs = []\<rparr> 5 7 ''b'' (joining_session\<lparr>se_in := answer, se_out := []\<rparr>) = (Inr 5, sj')
    \<and> se_out sj' = sent
    \<and> run_inviter join_sample_env pair_peer pair_codec 3 id (Decision pair_decision)
        \<lparr>iv_coordinator = sy_coordinator after_activation, iv_session = joining_session\<lparr>se_in := sent, se_out := []\<rparr>\<rparr> = (Inr 3, v')
    \<and> se_out (iv_session v') = answer
    \<and> selected_roster_chain sample_crypto (w_state (se_world sj')) = Inr pair_roster"
proof -
  obtain st where st: "migrate fresh_database = (Inr (), st)" "roster_revisions st = []"
    by (rule migrate_fresh) (simp add: fresh_database_def)
  have name: "validate_join_device_name ''b'' = Inr ()" by code_simp
  let ?me = "\<lparr>signing_key = 3, endpoint_id = 3\<rparr> :: DeviceIdentity"
  have id: "endpoint_id ?me = 3" by simp
  show ?thesis
    by (rule join_completes [where identity = ?me and addr = "''addr''" and qb = "[1]" and ab = "[1]" and roster = pair_roster
          and hints = pair_hints and tip = sample_admission and st = st and i = "\<lparr>ai_nonce = 7, ai_deadline = secs 60\<rparr>",
          unfolded id])
      (simp_all add: pair_codec_ok pair_addresses pair_approved pair_roster_valid pair_roster_hashes pair_tip name endpoint_5 st,
       simp_all add: pair_peer_def join_sample_peer_def pair_codec_def pair_request_def JOIN_REQUEST_LIMIT_def after_activation_def
        join_sample_env_def secs_def pair_hints_def endpoint_5 joining_session_def peer_world_def st)
qed

theorem joiner_stores_only_checked_witness:
  "\<exists>r s'. run_joiner sample_crypto pair_peer pair_codec \<lparr>signing_key = 3, endpoint_id = 3\<rparr> \<lparr>ea_id = 3, ea_addrs = []\<rparr> ''t'' 7 ''b''
      joining_session = (r, s') \<and> (is_ok r \<longrightarrow> r = Inr 5)"
proof -
  obtain r s' where run: "run_joiner sample_crypto pair_peer pair_codec \<lparr>signing_key = 3, endpoint_id = 3\<rparr>
      \<lparr>ea_id = 3, ea_addrs = []\<rparr> ''t'' 7 ''b'' joining_session = (r, s')" by fastforce
  with joiner_stores_only_checked [OF run] show ?thesis by (auto simp: pair_codec_def)
qed

end
