(* ===== verification/Identity_Store.thy ===== *)
theory Identity_Store
  imports Local_Files Roster_Encoding
begin

text \<open>
  \<open>identity.rs\<close>, the rest of it: where a device keeps its key. The data directory holds a reference, \<open>identity.ref\<close>, that
  says whether the secret lies in the operating system's keyring or in a file beside it. A call can fail at any moment,
  a write can stop in its middle, and the keyring can be unavailable; the parameter \<open>key_env\<close> decides. The theorem says
  that a device that once has an identity keeps it: no later call, whatever fails in it, returns another one.
\<close>

section \<open>The directory and the keyring\<close>

record key_file =
  kf_bytes :: "byte list"
  kf_mode :: nat

record key_world =
  kw_files :: "(string, key_file) omap"
  kw_keyring :: "(string, byte list) omap"
  kw_ticks :: nat

text \<open>
  For each call: whether a file operation fails, with how much a failing write has written; whether the keyring opens an
  entry; whether an operation on it fails; and what the random generator returns.
\<close>

record key_env =
  ke_io :: "nat \<Rightarrow> nat option"
  ke_entry :: "nat \<Rightarrow> bool"
  ke_keyring_fails :: "nat \<Rightarrow> bool"
  ke_random :: "nat \<Rightarrow> bytes32 option"
  ke_data_dir :: string

type_synonym 'a key_action = "(key_world, IdentityError, 'a) action"

definition key_tick :: "(nat \<Rightarrow> 'a) \<Rightarrow> 'a key_action" where
  "key_tick f w = (Inr (f (kw_ticks w)), w\<lparr>kw_ticks := Suc (kw_ticks w)\<rparr>)"

definition file_call :: "key_env \<Rightarrow> unit key_action" where
  "file_call V = bindS (key_tick (ke_io V)) (\<lambda>failure. if failure = None then returnS () else throwS IdentityError.Io)"

text \<open>\<open>Path::exists\<close> takes every error for absence.\<close>

definition path_exists :: "key_env \<Rightarrow> string \<Rightarrow> bool key_action" where
  "path_exists V name =
    bindS (key_tick (ke_io V)) (\<lambda>failure w. (Inr (failure = None \<and> om_contains (kw_files w) name), w))"

definition get_file :: "string \<Rightarrow> key_file key_action" where
  "get_file name w = (ok_or IdentityError.Io (om_get (kw_files w) name), w)"

definition put_file :: "string \<Rightarrow> key_file \<Rightarrow> unit key_action" where
  "put_file name f w = (Inr (), w\<lparr>kw_files := om_insert name f (kw_files w)\<rparr>)"

definition SECRET_LENGTH :: nat where "SECRET_LENGTH = 32"

text \<open>Created with mode 0600, which is 384, and \<open>create_new\<close>, so an existing file is an error; a failed write leaves its prefix.\<close>

definition write_owner_only :: "key_env \<Rightarrow> string \<Rightarrow> byte list \<Rightarrow> unit key_action" where
  "write_owner_only V name bytes =
    bindS (file_call V) (\<lambda>_.
    bindS (\<lambda>w. if om_contains (kw_files w) name then (Inl IdentityError.Io, w) else (Inr (), w)) (\<lambda>_.
    bindS (put_file name \<lparr>kf_bytes = [], kf_mode = 384\<rparr>) (\<lambda>_.
    bindS (key_tick (ke_io V)) (\<lambda>failure.
    bindS (put_file name \<lparr>kf_bytes = (case failure of None \<Rightarrow> bytes | Some n \<Rightarrow> take n bytes), kf_mode = 384\<rparr>) (\<lambda>_.
    if failure \<noteq> None then throwS IdentityError.Io else file_call V)))))"

definition read_owner_only :: "key_env \<Rightarrow> string \<Rightarrow> byte list key_action" where
  "read_owner_only V name =
    bindS (file_call V) (\<lambda>_.
    bindS (get_file name) (\<lambda>f.
    if kf_mode f mod 64 \<noteq> 0 then throwS UnsafePermissions
    else
      bindS (file_call V) (\<lambda>_.
      bindS (file_call V) (\<lambda>_. returnS (take (SECRET_LENGTH + 1) (kf_bytes f))))))"

text \<open>\<open>fs::read_to_string\<close>: text that is not UTF-8 is an error.\<close>

definition read_to_string :: "key_env \<Rightarrow> string \<Rightarrow> string key_action" where
  "read_to_string V name =
    bindS (file_call V) (\<lambda>_.
    bindS (get_file name) (\<lambda>f. liftS (ok_or IdentityError.Io (from_utf8 (kf_bytes f)))))"

section \<open>The keyring\<close>

datatype keyring_result = Secret "byte list" | NoEntry | KeyringFailure

definition keyring_entry :: "key_env \<Rightarrow> bool key_action" where
  "keyring_entry V = key_tick (ke_entry V)"

definition get_secret :: "key_env \<Rightarrow> string \<Rightarrow> keyring_result key_action" where
  "get_secret V account =
    bindS (key_tick (ke_keyring_fails V)) (\<lambda>fails w.
    (Inr (if fails then KeyringFailure else case om_get (kw_keyring w) account of None \<Rightarrow> NoEntry | Some s \<Rightarrow> Secret s), w))"

definition set_secret :: "key_env \<Rightarrow> string \<Rightarrow> byte list \<Rightarrow> bool key_action" where
  "set_secret V account secret =
    bindS (key_tick (ke_keyring_fails V)) (\<lambda>fails w.
    if fails then (Inr False, w) else (Inr True, w\<lparr>kw_keyring := om_insert account secret (kw_keyring w)\<rparr>))"

text \<open>The hexadecimal text of a BLAKE3 hash has the form of that of an EndpointID.\<close>

definition keyring_account :: "crypto \<Rightarrow> string \<Rightarrow> string" where
  "keyring_account C data_dir = endpoint_to_string (c_blake3 C (as_bytes data_dir))"

section \<open>References\<close>

text \<open>\<open>str::lines\<close>: a carriage return is dropped only before a line feed.\<close>

definition strip_cr :: "string \<Rightarrow> string" where
  "strip_cr s = (if s \<noteq> [] \<and> last s = CHR 0x0D then butlast s else s)"

definition rust_lines :: "string \<Rightarrow> string list" where
  "rust_lines s = (let parts = split_on CHR 0x0A s in
     map strip_cr (butlast parts) @ (if last parts = [] then [] else [last parts]))"

text \<open>\<open>Path::components\<close>: empty components and dots are skipped, except for a leading dot.\<close>

definition component_count :: "string \<Rightarrow> nat" where
  "component_count path = (case split_on CHR ''/'' path of
      [] \<Rightarrow> 0
    | first # others \<Rightarrow> (if first = [] then 0 else 1) + length (filter (\<lambda>c. c \<noteq> [] \<and> c \<noteq> ''.'') others))"

definition load_referenced :: "key_env \<Rightarrow> crypto \<Rightarrow> DeviceIdentity key_action" where
  "load_referenced V C =
    bindS (read_to_string V ''identity.ref'') (\<lambda>reference.
    case rust_lines reference of
      [kind, value_line] \<Rightarrow>
        if kind = ''keyring'' then
          bindS (keyring_entry V) (\<lambda>ok.
          if \<not> ok then throwS KeyringUnavailable
          else
            bindS (get_secret V value_line) (\<lambda>found. case found of
                Secret secret \<Rightarrow> liftS (identity_from_slice C secret)
              | _ \<Rightarrow> throwS KeyringUnavailable))
        else if kind = ''file'' then
          if starts_with value_line ''/'' \<or> component_count value_line \<noteq> 1 then throwS InvalidReference
          else bindS (read_owner_only V value_line) (\<lambda>secret. liftS (identity_from_slice C secret))
        else throwS InvalidReference
    | _ \<Rightarrow> throwS InvalidReference)"

definition FILE_REFERENCE :: string where
  "FILE_REFERENCE = ''file'' @ [CHR 0x0A] @ ''identity.key'' @ [CHR 0x0A]"

definition keyring_reference :: "string \<Rightarrow> string" where
  "keyring_reference account = ''keyring'' @ [CHR 0x0A] @ account @ [CHR 0x0A]"

definition identity_generate :: "key_env \<Rightarrow> crypto \<Rightarrow> DeviceIdentity key_action" where
  "identity_generate V C =
    bindS (key_tick (ke_random V)) (\<lambda>r. liftS (mapErr (\<lambda>_. IdentityError.Random) (bindE (ok_or () r) (\<lambda>secret.
      Inr (identity_from_secret C secret)))))"

definition secret_bytes :: "DeviceIdentity \<Rightarrow> byte list" where
  "secret_bytes d = to_be_bytes (signing_key d)"

definition persist_file_identity :: "key_env \<Rightarrow> DeviceIdentity \<Rightarrow> DeviceIdentity key_action" where
  "persist_file_identity V d =
    bindS (write_owner_only V ''identity.key'' (secret_bytes d)) (\<lambda>_.
    bindS (write_owner_only V ''identity.ref'' (as_bytes FILE_REFERENCE)) (\<lambda>_. returnS d))"

text \<open>What follows the look into the keyring; an entry that cannot be opened is a failure of it.\<close>

definition keyring_identity :: "key_env \<Rightarrow> crypto \<Rightarrow> string \<Rightarrow> keyring_result \<Rightarrow> DeviceIdentity key_action" where
  "keyring_identity V C account found = (case found of
       Secret secret \<Rightarrow>
         bindS (liftS (identity_from_slice C secret)) (\<lambda>d.
         bindS (write_owner_only V ''identity.ref'' (as_bytes (keyring_reference account))) (\<lambda>_. returnS d))
     | NoEntry \<Rightarrow>
         bindS (identity_generate V C) (\<lambda>d.
         bindS (set_secret V account (secret_bytes d)) (\<lambda>saved.
         if saved then
           bindS (write_owner_only V ''identity.ref'' (as_bytes (keyring_reference account))) (\<lambda>_. returnS d)
         else persist_file_identity V d))
     | KeyringFailure \<Rightarrow> bindS (identity_generate V C) (persist_file_identity V))"

definition load_or_create :: "key_env \<Rightarrow> crypto \<Rightarrow> DeviceIdentity key_action" where
  "load_or_create V C =
    (let account = keyring_account C (ke_data_dir V) in
     bindS (file_call V) (\<lambda>_.
     bindS (path_exists V ''identity.ref'') (\<lambda>referenced.
     if referenced then load_referenced V C
     else
       bindS (path_exists V ''identity.key'') (\<lambda>stored_key.
       if stored_key then
         bindS (read_owner_only V ''identity.key'') (\<lambda>secret.
         bindS (liftS (identity_from_slice C secret)) (\<lambda>d.
         bindS (write_owner_only V ''identity.ref'' (as_bytes FILE_REFERENCE)) (\<lambda>_. returnS d)))
       else
         bindS (keyring_entry V) (\<lambda>ok.
         bindS (if ok then get_secret V account else returnS KeyringFailure) (keyring_identity V C account))))))"

section \<open>What a call leaves alone\<close>

definition holds :: "(string, key_file) omap \<Rightarrow> (string, byte list) omap \<Rightarrow> key_world \<Rightarrow> bool" where
  "holds F R w \<longleftrightarrow> kw_files w = F \<and> kw_keyring w = R"

lemma key_reads [preserves_intros]:
  "preserves (holds F R) (key_tick f)" "preserves (holds F R) (file_call V)" "preserves (holds F R) (path_exists V name)"
  "preserves (holds F R) (get_file name)" "preserves (holds F R) (keyring_entry V)" "preserves (holds F R) (get_secret V account)"
  by (auto simp: preserves_def holds_def key_tick_def file_call_def path_exists_def get_file_def keyring_entry_def get_secret_def
      bindS_def split: prod.splits sum.splits)

lemma key_reads_more [preserves_intros]:
  "preserves (holds F R) (read_owner_only V name)" "preserves (holds F R) (read_to_string V name)"
  "preserves (holds F R) (identity_generate V C)"
  by (auto simp: read_owner_only_def read_to_string_def identity_generate_def intro!: preserves_intros)

lemma preserves_keyring_case [preserves_intros]:
  "(\<And>s. preserves I (f s)) \<Longrightarrow> preserves I g \<Longrightarrow> preserves I h \<Longrightarrow>
   preserves I (case x of Secret s \<Rightarrow> f s | NoEntry \<Rightarrow> g | KeyringFailure \<Rightarrow> h)"
  by (cases x) simp_all

lemma load_referenced_reads: "preserves (holds F R) (load_referenced V C)"
  unfolding load_referenced_def
proof (intro preserves_bindS key_reads_more)
  fix reference
  show "preserves (holds F R) (case rust_lines reference of
      [kind, value_line] \<Rightarrow>
        if kind = ''keyring'' then
          bindS (keyring_entry V) (\<lambda>ok.
          if \<not> ok then throwS KeyringUnavailable
          else
            bindS (get_secret V value_line) (\<lambda>found. case found of
                Secret secret \<Rightarrow> liftS (identity_from_slice C secret)
              | _ \<Rightarrow> throwS KeyringUnavailable))
        else if kind = ''file'' then
          if starts_with value_line ''/'' \<or> component_count value_line \<noteq> 1 then throwS InvalidReference
          else bindS (read_owner_only V value_line) (\<lambda>secret. liftS (identity_from_slice C secret))
        else throwS InvalidReference
    | _ \<Rightarrow> throwS InvalidReference)"
    by (cases "\<exists>k v. rust_lines reference = [k, v]")
      (auto intro!: preserves_intros split: list.split simp del: not_None_eq)
qed

text \<open>Nothing that is there is changed: files are created anew only, and a secret is set where there is none.\<close>

definition key_kept :: "key_world \<Rightarrow> key_world \<Rightarrow> bool" where
  "key_kept w0 w \<longleftrightarrow> om_wf (kw_files w) \<and> om_wf (kw_keyring w)
     \<and> (\<forall>n f. om_get (kw_files w0) n = Some f \<longrightarrow> om_get (kw_files w) n = Some f)
     \<and> (\<forall>a s. om_get (kw_keyring w0) a = Some s \<longrightarrow> om_get (kw_keyring w) a = Some s)"

lemma reads_kept: "(\<And>F R. preserves (holds F R) m) \<Longrightarrow> preserves (key_kept w0) m"
  by (force simp: preserves_def holds_def key_kept_def)

lemma kept_trans: "key_kept w0 w1 \<Longrightarrow> key_kept w1 w2 \<Longrightarrow> key_kept w0 w2"
  by (simp add: key_kept_def)

lemma write_result:
  assumes "write_owner_only V name bytes w = (r, w')" and "om_wf (kw_files w)"
  obtains "kw_files w' = kw_files w" "kw_keyring w' = kw_keyring w" "\<not> is_ok r"
  | f where "\<not> om_contains (kw_files w) name" "kw_files w' = om_insert name f (kw_files w)" "kw_keyring w' = kw_keyring w"
      "is_ok r \<Longrightarrow> f = \<lparr>kf_bytes = bytes, kf_mode = 384\<rparr>"
proof -
  have twice: "om_insert name f (om_insert name g m) = om_insert name f m" if "om_wf m" for f g :: key_file and m
    using that by (intro om_ext) (auto simp: om_wf_insert om_get_insert)
  show ?thesis
  proof (cases "om_contains (kw_files w) name")
    case True
    then have "kw_files w' = kw_files w \<and> kw_keyring w' = kw_keyring w \<and> \<not> is_ok r"
      using assms(1) by (auto simp: write_owner_only_def file_call_def key_tick_def bindS_def split: if_splits)
    then show ?thesis using that(1) by blast
  next
    case False
    then show ?thesis
      using assms that
      by (auto simp: write_owner_only_def file_call_def key_tick_def bindS_def put_file_def twice split: if_splits)
  qed
qed

lemma kept_write: "preserves (key_kept w0) (write_owner_only V name bytes)"
  unfolding preserves_def
proof (intro allI impI)
  fix w assume w: "key_kept w0 w"
  then have wf: "om_wf (kw_files w)" by (simp add: key_kept_def)
  obtain r w' where run: "write_owner_only V name bytes w = (r, w')" by fastforce
  from run wf have "key_kept w0 w'"
  proof (cases rule: write_result)
    case 1
    then show ?thesis using w by (simp add: key_kept_def)
  next
    case (2 f)
    then show ?thesis using w by (auto simp: key_kept_def om_wf_insert om_get_insert om_contains_def)
  qed
  then show "key_kept w0 (snd (write_owner_only V name bytes w))" by (simp add: run)
qed

section \<open>A settled identity\<close>

text \<open>The reference and the secret it points to, as \<open>load_referenced\<close> reads them when no call fails.\<close>

definition source_ok :: "crypto \<Rightarrow> DeviceIdentity \<Rightarrow> string \<Rightarrow> key_world \<Rightarrow> bool" where
  "source_ok C d reference w \<longleftrightarrow>
     (\<exists>account secret. rust_lines reference = [''keyring'', account] \<and> om_get (kw_keyring w) account = Some secret
        \<and> identity_from_slice C secret = Inr d)
     \<or> (\<exists>name g. rust_lines reference = [''file'', name] \<and> \<not> starts_with name ''/'' \<and> component_count name = 1
        \<and> om_get (kw_files w) name = Some g \<and> kf_mode g mod 64 = 0
        \<and> identity_from_slice C (take (SECRET_LENGTH + 1) (kf_bytes g)) = Inr d)"

definition settled :: "crypto \<Rightarrow> DeviceIdentity \<Rightarrow> key_world \<Rightarrow> bool" where
  "settled C d w \<longleftrightarrow> (\<exists>f reference. om_get (kw_files w) ''identity.ref'' = Some f \<and> from_utf8 (kf_bytes f) = Some reference
     \<and> source_ok C d reference w)"

lemma source_keyring:
  "rust_lines reference = [''keyring'', account] \<Longrightarrow> om_get (kw_keyring w) account = Some secret \<Longrightarrow>
   identity_from_slice C secret = Inr d \<Longrightarrow> source_ok C d reference w"
  unfolding source_ok_def by (intro disjI1 exI [of _ account] exI [of _ secret]) simp

lemma source_file:
  "rust_lines reference = [''file'', name] \<Longrightarrow> \<not> starts_with name ''/'' \<Longrightarrow> component_count name = 1 \<Longrightarrow>
   om_get (kw_files w) name = Some g \<Longrightarrow> kf_mode g mod 64 = 0 \<Longrightarrow>
   identity_from_slice C (take (SECRET_LENGTH + 1) (kf_bytes g)) = Inr d \<Longrightarrow> source_ok C d reference w"
  unfolding source_ok_def by (intro disjI2 exI [of _ name] exI [of _ g]) simp

lemma source_kept: "source_ok C d reference w \<Longrightarrow> key_kept w w' \<Longrightarrow> source_ok C d reference w'"
proof -
  assume source: "source_ok C d reference w" and kept: "key_kept w w'"
  have f: "om_get (kw_files w) n = Some x \<Longrightarrow> om_get (kw_files w') n = Some x" for n x using kept by (simp add: key_kept_def)
  have r: "om_get (kw_keyring w) a = Some s \<Longrightarrow> om_get (kw_keyring w') a = Some s" for a s using kept by (simp add: key_kept_def)
  from source show ?thesis
    unfolding source_ok_def [of C d reference w] using f r source_file source_keyring by (elim disjE exE conjE) metis+
qed

lemma settled_kept: "settled C d w \<Longrightarrow> key_kept w w' \<Longrightarrow> settled C d w'"
  unfolding settled_def using source_kept [of C d _ w w'] by (auto simp: key_kept_def)

lemma source_cong: "kw_files w' = kw_files w \<Longrightarrow> kw_keyring w' = kw_keyring w \<Longrightarrow> source_ok C d reference w' = source_ok C d reference w"
  by (simp add: source_ok_def)

lemma file_call_Inr: "file_call V w = (Inr u, w') \<Longrightarrow> kw_files w' = kw_files w \<and> kw_keyring w' = kw_keyring w"
  by (auto simp: file_call_def key_tick_def bindS_def split: if_splits)

lemma read_owner_only_Inr:
  "read_owner_only V name w = (Inr bytes, w') \<Longrightarrow> \<exists>g. om_get (kw_files w) name = Some g \<and> kf_mode g mod 64 = 0
     \<and> bytes = take (SECRET_LENGTH + 1) (kf_bytes g) \<and> kw_files w' = kw_files w \<and> kw_keyring w' = kw_keyring w"
proof -
  assume run: "read_owner_only V name w = (Inr bytes, w')"
  then obtain w1 g w3 where "file_call V w = (Inr (), w1)" and g: "om_get (kw_files w1) name = Some g" "kf_mode g mod 64 = 0"
      "bytes = take (SECRET_LENGTH + 1) (kf_bytes g)" and "file_call V w1 = (Inr (), w3)" "file_call V w3 = (Inr (), w')"
    by (auto simp: read_owner_only_def bindS_eq_Inr get_file_def split: if_splits)
  from this(1,5,6) [THEN file_call_Inr] g show ?thesis by simp
qed

lemma read_to_string_Inr:
  "read_to_string V name w = (Inr text, w') \<Longrightarrow> \<exists>f. om_get (kw_files w) name = Some f \<and> from_utf8 (kf_bytes f) = Some text
     \<and> kw_files w' = kw_files w \<and> kw_keyring w' = kw_keyring w"
  by (auto simp: read_to_string_def bindS_eq_Inr get_file_def dest!: file_call_Inr)

lemma get_secret_Inr:
  "get_secret V account w = (Inr found, w') \<Longrightarrow> kw_files w' = kw_files w \<and> kw_keyring w' = kw_keyring w
     \<and> (\<forall>s. found = Secret s \<longrightarrow> om_get (kw_keyring w) account = Some s)
     \<and> (found = NoEntry \<longrightarrow> om_get (kw_keyring w) account = None)"
  by (auto simp: get_secret_def key_tick_def bindS_def split: if_splits option.splits)

lemma load_referenced_settled:
  assumes run: "load_referenced V C w = (Inr d, w')"
  shows "settled C d w'"
proof -
  obtain reference w1 where r: "read_to_string V ''identity.ref'' w = (Inr reference, w1)"
    using run by (auto simp: load_referenced_def bindS_eq_Inr)
  from read_to_string_Inr [OF r] obtain f where f: "om_get (kw_files w) ''identity.ref'' = Some f"
      "from_utf8 (kf_bytes f) = Some reference" "kw_files w1 = kw_files w" "kw_keyring w1 = kw_keyring w" by blast
  have "preserves (holds (kw_files w) (kw_keyring w)) (load_referenced V C)" by (rule load_referenced_reads)
  then have w': "kw_files w' = kw_files w" "kw_keyring w' = kw_keyring w"
    using preservesD [OF load_referenced_reads _ run, of "kw_files w" "kw_keyring w"] by (auto simp: holds_def)
  obtain kind v where lines: "rust_lines reference = [kind, v]"
    using run r by (auto simp: load_referenced_def bindS_def split: list.splits)
  have body: "(if kind = ''keyring'' then
          bindS (keyring_entry V) (\<lambda>ok.
          if \<not> ok then throwS KeyringUnavailable
          else
            bindS (get_secret V v) (\<lambda>found. case found of
                Secret secret \<Rightarrow> liftS (identity_from_slice C secret)
              | _ \<Rightarrow> throwS KeyringUnavailable))
        else if kind = ''file'' then
          if starts_with v ''/'' \<or> component_count v \<noteq> 1 then throwS InvalidReference
          else bindS (read_owner_only V v) (\<lambda>secret. liftS (identity_from_slice C secret))
        else throwS InvalidReference) w1 = (Inr d, w')"
    using run r lines by (simp add: load_referenced_def bindS_def)
  show ?thesis
  proof (cases "kind = ''keyring''")
    case True
    with body obtain found w3 where found: "get_secret V v (w1\<lparr>kw_ticks := Suc (kw_ticks w1)\<rparr>) = (Inr found, w3)"
        "(case found of Secret secret \<Rightarrow> liftS (identity_from_slice C secret) | _ \<Rightarrow> throwS KeyringUnavailable) w3 = (Inr d, w')"
      by (auto simp: bindS_eq_Inr keyring_entry_def key_tick_def split: if_splits)
    then obtain secret where "found = Secret secret" "identity_from_slice C secret = Inr d" by (cases found) auto
    with get_secret_Inr [OF found(1)] have "om_get (kw_keyring w1) v = Some secret" by simp
    with True lines \<open>identity_from_slice C secret = Inr d\<close> have "source_ok C d reference w1" by (intro source_keyring) simp_all
    with f w' source_cong [of w1 w'] show ?thesis unfolding settled_def by auto
  next
    case False
    with body obtain secret where s: "kind = ''file''" "\<not> starts_with v ''/''" "component_count v = 1"
        "read_owner_only V v w1 = (Inr secret, w')" "identity_from_slice C secret = Inr d"
      by (auto simp: bindS_eq_Inr split: if_splits)
    from read_owner_only_Inr [OF s(4)] obtain g where "om_get (kw_files w1) v = Some g" "kf_mode g mod 64 = 0"
        "secret = take (SECRET_LENGTH + 1) (kf_bytes g)" by (elim exE conjE)
    with s lines have "source_ok C d reference w1" by (intro source_file) simp_all
    with f w' source_cong [of w1 w'] show ?thesis unfolding settled_def by auto
  qed
qed

text \<open>The two references that are written name what was stored.\<close>

lemma FILE_REFERENCE_lines: "rust_lines FILE_REFERENCE = [''file'', ''identity.key'']" "is_str FILE_REFERENCE"
  by (simp_all add: rust_lines_def FILE_REFERENCE_def strip_cr_def is_str_ascii)

lemma hex_text: "c \<in> set (endpoint_to_string e) \<Longrightarrow> of_char c < (128 :: nat) \<and> c \<noteq> CHR 0x0A \<and> c \<noteq> CHR 0x0D"
proof -
  have digit: "of_char (hex_digit n) < (128 :: nat) \<and> 32 < (of_char (hex_digit n) :: nat)" if "n < 16" for n
    using that by (simp add: hex_digit_def)
  assume "c \<in> set (endpoint_to_string e)"
  then obtain b :: byte where "c \<in> set (hex_byte b)" by (auto simp: endpoint_to_string_def)
  moreover have "unat b div 16 < 16" "unat b mod 16 < 16" using unat_byte_less [of b] by simp_all
  ultimately have "of_char c < (128 :: nat) \<and> 32 < (of_char c :: nat)" using digit by (auto simp: hex_byte_def)
  then show ?thesis by auto
qed

lemma keyring_reference_lines:
  assumes "account = endpoint_to_string e"
  shows "rust_lines (keyring_reference account) = [''keyring'', account]" "is_str (keyring_reference account)"
proof -
  have nl: "CHR 0x0A \<notin> set account" using hex_text [of _ e] assms by blast
  have len: "account \<noteq> []" using length_endpoint_to_string [of e] assms by auto
  then have cr: "last account \<noteq> CHR 0x0D" using hex_text [of "last account" e] assms last_in_set by blast
  have app: "split_on CHR 0x0A (a @ CHR 0x0A # r) = a # split_on CHR 0x0A r" if "CHR 0x0A \<notin> set a" for a r
    using that by (induction a) auto
  have "split_on CHR 0x0A (keyring_reference account) = [''keyring'', account, []]"
    using app [of "''keyring''" "account @ [CHR 0x0A]"] app [OF nl, of "[]"] by (simp add: keyring_reference_def)
  then show "rust_lines (keyring_reference account) = [''keyring'', account]"
    using len cr by (simp add: rust_lines_def strip_cr_def)
  show "is_str (keyring_reference account)"
    by (rule is_str_ascii) (use hex_text [of _ e] assms in \<open>auto simp: keyring_reference_def list_all_iff\<close>)
qed

text \<open>
  The three ways in which \<open>load_or_create\<close> returns an identity: the reference was read, or it was written last, after
  the secret that it names.
\<close>

lemma kept_same: "key_kept w0 w \<Longrightarrow> holds (kw_files w) (kw_keyring w) w' \<Longrightarrow> key_kept w0 w'"
  by (simp add: key_kept_def holds_def)

lemma holds_trans: "holds F R w \<Longrightarrow> holds (kw_files w) (kw_keyring w) w' \<Longrightarrow> holds F R w'"
  by (simp add: holds_def)

lemma reads_hold: "(\<And>F R. preserves (holds F R) m) \<Longrightarrow> m w = (r, w') \<Longrightarrow> holds (kw_files w) (kw_keyring w) w'"
  using preservesD [of "holds (kw_files w) (kw_keyring w)" m w r w'] by (simp add: holds_def)

lemma identity_generate_Inr: "identity_generate V C w = (Inr d, w') \<Longrightarrow> identity_from_slice C (secret_bytes d) = Inr d"
  by (auto simp: identity_generate_def key_tick_def bindS_def identity_from_slice_def identity_from_secret_def secret_bytes_def
      from_to_be_bytes bindE_eq_Inr split: sum.splits)

lemma written_key:
  assumes run: "write_owner_only V ''identity.key'' (secret_bytes d) w = (Inr (), w')" and wf: "om_wf (kw_files w)"
    and d: "identity_from_slice C (secret_bytes d) = Inr d"
  shows "source_ok C d FILE_REFERENCE w'"
  using run wf
proof (cases rule: write_result)
  case 1
  then show ?thesis by simp
next
  case (2 f)
  then have f: "om_get (kw_files w') ''identity.key'' = Some \<lparr>kf_bytes = secret_bytes d, kf_mode = 384\<rparr>"
    using wf by (simp add: om_get_insert)
  have "length (secret_bytes d) = 32" by (simp add: secret_bytes_def)
  then have "identity_from_slice C (take (SECRET_LENGTH + 1) (secret_bytes d)) = Inr d"
    using d by (simp add: SECRET_LENGTH_def)
  with f show ?thesis
    by (auto simp: source_ok_def FILE_REFERENCE_lines starts_with_def component_count_def)
qed

lemma set_secret_Inr:
  assumes "set_secret V account secret w = (Inr saved, w')"
  shows "kw_files w' = kw_files w" and "kw_keyring w' = (if saved then om_insert account secret (kw_keyring w) else kw_keyring w)"
  using assms by (auto simp: set_secret_def key_tick_def bindS_def split: if_splits)

lemma persisted:
  assumes "persist_file_identity V d w6 = (Inr d', w')" and kept: "key_kept w w6" and "identity_from_slice C (secret_bytes d) = Inr d"
  obtains w1 where "d' = d" "key_kept w w1" "source_ok C d FILE_REFERENCE w1"
    "write_owner_only V ''identity.ref'' (as_bytes FILE_REFERENCE) w1 = (Inr (), w')"
proof -
  obtain w7 where c7: "write_owner_only V ''identity.key'' (secret_bytes d) w6 = (Inr (), w7)" "d' = d"
      "write_owner_only V ''identity.ref'' (as_bytes FILE_REFERENCE) w7 = (Inr (), w')"
    using assms(1) by (auto simp: persist_file_identity_def bindS_eq_Inr)
  have "om_wf (kw_files w6)" using kept by (simp add: key_kept_def)
  then have "source_ok C d FILE_REFERENCE w7" using written_key [OF c7(1)] assms(3) by blast
  moreover have "key_kept w w7" by (rule preservesD [OF kept_write kept c7(1)])
  ultimately show ?thesis using c7(2,3) that by blast
qed

lemma load_or_create_cases:
  assumes run: "load_or_create V C w = (Inr d, w')" and wf: "key_kept w w"
  obtains (referenced) w1 where "holds (kw_files w) (kw_keyring w) w1" "load_referenced V C w1 = (Inr d, w')"
  | (written) w1 reference where "key_kept w w1" "is_str reference" "source_ok C d reference w1"
      "write_owner_only V ''identity.ref'' (as_bytes reference) w1 = (Inr (), w')"
proof -
  let ?account = "keyring_account C (ke_data_dir V)"
  note account = keyring_reference_lines [OF keyring_account_def]
  obtain w1 w2 here where c1: "file_call V w = (Inr (), w1)" and c2: "path_exists V ''identity.ref'' w1 = (Inr here, w2)"
    using run by (auto simp: load_or_create_def Let_def bindS_eq_Inr)
  have h2: "holds (kw_files w) (kw_keyring w) w2"
    by (rule holds_trans [OF reads_hold [OF key_reads(2) c1] reads_hold [OF key_reads(3) c2]])
  show ?thesis
  proof (cases here)
    case True
    with run c1 c2 have "load_referenced V C w2 = (Inr d, w')"
      by (simp add: load_or_create_def Let_def bindS_def)
    with h2 show ?thesis by (rule referenced)
  next
    case False
    obtain w3 key where c3: "path_exists V ''identity.key'' w2 = (Inr key, w3)"
      using run c1 c2 False by (auto simp: load_or_create_def Let_def bindS_def split: prod.splits sum.splits)
    have h3: "holds (kw_files w) (kw_keyring w) w3" by (rule holds_trans [OF h2 reads_hold [OF key_reads(3) c3]])
    show ?thesis
    proof (cases key)
      case True
      with run c1 c2 c3 False obtain secret w4 where c4: "read_owner_only V ''identity.key'' w3 = (Inr secret, w4)"
          "identity_from_slice C secret = Inr d" "write_owner_only V ''identity.ref'' (as_bytes FILE_REFERENCE) w4 = (Inr (), w')"
        by (auto simp: load_or_create_def Let_def bindS_def split: prod.splits sum.splits)
      have h4: "holds (kw_files w) (kw_keyring w) w4" by (rule holds_trans [OF h3 reads_hold [OF key_reads_more(1) c4(1)]])
      from read_owner_only_Inr [OF c4(1)] c4(2) have "source_ok C d FILE_REFERENCE w4"
        by (auto simp: source_ok_def FILE_REFERENCE_lines starts_with_def component_count_def)
      then show ?thesis using c4(3) kept_same [OF wf h4] FILE_REFERENCE_lines(2) by (intro written)
    next
      case False2: False
      obtain ok w4 found w5 where c4: "keyring_entry V w3 = (Inr ok, w4)"
          "(if ok then get_secret V ?account else returnS KeyringFailure) w4 = (Inr found, w5)"
        using run c1 c2 c3 False False2 by (auto simp: load_or_create_def Let_def bindS_def split: prod.splits sum.splits)
      have h4: "holds (kw_files w) (kw_keyring w) w4" by (rule holds_trans [OF h3 reads_hold [OF key_reads(5) c4(1)]])
      have h5: "holds (kw_files w) (kw_keyring w) w5"
        using c4(2) h4 get_secret_Inr [of V ?account w4 found w5] by (cases ok) (auto simp: holds_def)
      have body: "keyring_identity V C ?account found w5 = (Inr d, w')"
        using run c1 c2 c3 c4 False False2 by (simp add: load_or_create_def bindS_def Let_def)
      show ?thesis
      proof (cases found)
        case (Secret secret)
        then have "ok" "om_get (kw_keyring w4) ?account = Some secret"
          using c4(2) get_secret_Inr [of V ?account w4 found w5] by (auto split: if_splits)
        then have s: "om_get (kw_keyring w5) ?account = Some secret" using h4 h5 by (simp add: holds_def)
        with Secret body have "identity_from_slice C secret = Inr d"
            "write_owner_only V ''identity.ref'' (as_bytes (keyring_reference ?account)) w5 = (Inr (), w')"
          by (auto simp: keyring_identity_def bindS_eq_Inr)
        moreover from this s have "source_ok C d (keyring_reference ?account) w5" using account(1) by (auto simp: source_ok_def)
        ultimately show ?thesis using kept_same [OF wf h5] account(2) by (intro written)
      next
        case NoEntry
        with body obtain d0 w6 saved w7 where c6: "identity_generate V C w5 = (Inr d0, w6)"
            "set_secret V ?account (secret_bytes d0) w6 = (Inr saved, w7)"
            "(if saved then bindS (write_owner_only V ''identity.ref'' (as_bytes (keyring_reference ?account))) (\<lambda>_. returnS d0)
              else persist_file_identity V d0) w7 = (Inr d, w')"
          by (auto simp: keyring_identity_def bindS_eq_Inr)
        note from_d0 = identity_generate_Inr [OF c6(1)]
        have h6: "holds (kw_files w) (kw_keyring w) w6" by (rule holds_trans [OF h5 reads_hold [OF key_reads_more(3) c6(1)]])
        have "om_get (kw_keyring w4) ?account = None"
          using NoEntry c4(2) get_secret_Inr [of V ?account w4 found w5] by (auto split: if_splits)
        then have none: "om_get (kw_keyring w) ?account = None" using h4 by (simp add: holds_def)
        have wf_ring: "om_wf (kw_keyring w)" using wf by (simp add: key_kept_def)
        have kept: "key_kept w w7"
          using wf h6 set_secret_Inr [OF c6(2)] none by (auto simp: key_kept_def holds_def om_wf_insert om_get_insert)
        show ?thesis
        proof (cases saved)
          case True
          with c6(3) have d: "d0 = d" "write_owner_only V ''identity.ref'' (as_bytes (keyring_reference ?account)) w7 = (Inr (), w')"
            by (auto simp: bindS_eq_Inr)
          have "om_get (kw_keyring w7) ?account = Some (secret_bytes d)"
            using True set_secret_Inr(2) [OF c6(2)] h6 wf_ring d(1) by (simp add: holds_def om_get_insert)
          with from_d0 d(1) have "source_ok C d (keyring_reference ?account) w7" using account(1) by (auto simp: source_ok_def)
          then show ?thesis using d(2) kept account(2) by (intro written)
        next
          case False
          with c6(3) have "persist_file_identity V d0 w7 = (Inr d, w')" by simp
          from persisted [OF this kept from_d0] show ?thesis using FILE_REFERENCE_lines(2) written by metis
        qed
      next
        case KeyringFailure
        with body obtain w6 d2 where c6: "identity_generate V C w5 = (Inr d2, w6)" "persist_file_identity V d2 w6 = (Inr d, w')"
          by (auto simp: keyring_identity_def bindS_eq_Inr)
        have "key_kept w w6" using kept_same [OF wf holds_trans [OF h5 reads_hold [OF key_reads_more(3) c6(1)]]] .
        from persisted [OF c6(2) this identity_generate_Inr [OF c6(1)]] show ?thesis using FILE_REFERENCE_lines(2) written by metis
      qed
    qed
  qed
qed

section \<open>The identity is stable\<close>

lemma source_unique: "source_ok C d reference w \<Longrightarrow> source_ok C d' reference w \<Longrightarrow> d' = d"
  unfolding source_ok_def by (elim disjE exE conjE) simp_all

lemma settled_unique:
  assumes "settled C d w" and "settled C d' w"
  shows "d' = d"
proof -
  obtain f reference where f: "om_get (kw_files w) ''identity.ref'' = Some f" "from_utf8 (kf_bytes f) = Some reference"
      "source_ok C d reference w" using assms(1) unfolding settled_def by (elim exE conjE)
  obtain f' reference' where f': "om_get (kw_files w) ''identity.ref'' = Some f'" "from_utf8 (kf_bytes f') = Some reference'"
      "source_ok C d' reference' w" using assms(2) unfolding settled_def by (elim exE conjE)
  have "reference' = reference" using f(1,2) f'(1,2) by simp
  with f(3) f'(3) source_unique show ?thesis by simp
qed

lemma kept_set_secret:
  assumes "key_kept w0 w" and "om_get (kw_keyring w) account = None"
  shows "key_kept w0 (snd (set_secret V account secret w))"
proof -
  obtain r w' where run: "set_secret V account secret w = (r, w')" by fastforce
  then obtain saved where saved: "r = Inr saved" by (auto simp: set_secret_def key_tick_def bindS_def split: if_splits)
  note s = set_secret_Inr [OF run [unfolded saved]]
  have "om_get (kw_keyring w0) account = None" using assms unfolding key_kept_def by (metis option.exhaust)
  then show ?thesis using assms s run by (auto simp: key_kept_def om_wf_insert om_get_insert)
qed

lemma kept_persist: "preserves (key_kept w0) (persist_file_identity V d)"
  unfolding persist_file_identity_def by (intro preserves_intros kept_write)

lemma kept_keyring_identity:
  assumes "key_kept w0 w" and "found = NoEntry \<Longrightarrow> om_get (kw_keyring w) account = None"
  shows "key_kept w0 (snd (keyring_identity V C account found w))"
proof -
  have gen: "preserves (key_kept w0) (identity_generate V C)" by (intro reads_kept key_reads_more)
  show ?thesis
  proof (cases found)
    case (Secret secret)
    have "preserves (key_kept w0) (keyring_identity V C account (Secret secret))"
      unfolding keyring_identity_def keyring_result.case by (intro preserves_intros kept_write)
    with assms(1) Secret show ?thesis by (simp add: preserves_def)
  next
    case KeyringFailure
    have "preserves (key_kept w0) (keyring_identity V C account KeyringFailure)"
      unfolding keyring_identity_def keyring_result.case by (intro preserves_intros gen kept_persist)
    with assms(1) KeyringFailure show ?thesis by (simp add: preserves_def)
  next
    case NoEntry
    obtain r w1 where run: "identity_generate V C w = (r, w1)" by fastforce
    have w1: "key_kept w0 w1" "om_get (kw_keyring w1) account = None"
      using preservesD [OF gen assms(1) run] reads_hold [OF key_reads_more(3) run] assms(2) [OF NoEntry] by (simp_all add: holds_def)
    show ?thesis
    proof (cases r)
      case (Inl e)
      with run w1 NoEntry show ?thesis by (simp add: keyring_identity_def bindS_def)
    next
      case (Inr d)
      obtain r2 w2 where run2: "set_secret V account (secret_bytes d) w1 = (r2, w2)" by fastforce
      have w2: "key_kept w0 w2" using kept_set_secret [OF w1] run2 by (metis snd_conv)
      obtain saved where "r2 = Inr saved" using run2 by (auto simp: set_secret_def key_tick_def bindS_def split: if_splits)
      moreover have "preserves (key_kept w0) (if saved
          then bindS (write_owner_only V ''identity.ref'' (as_bytes (keyring_reference account))) (\<lambda>_. returnS d)
          else persist_file_identity V d)" for saved
        by (intro preserves_intros kept_write kept_persist)
      ultimately show ?thesis
        using run Inr run2 w2 NoEntry by (simp add: keyring_identity_def bindS_def preserves_def)
    qed
  qed
qed

lemma kept_keyring_block:
  "preserves (key_kept w0) (bindS (if ok then get_secret V account else returnS KeyringFailure) (keyring_identity V C account))"
  unfolding preserves_def
proof (intro allI impI)
  fix w assume w: "key_kept w0 w"
  let ?m = "if ok then get_secret V account else returnS KeyringFailure"
  have reads: "preserves (key_kept w0) ?m" by (intro preserves_intros reads_kept)
  obtain r w1 where run: "?m w = (r, w1)" by fastforce
  have w1: "key_kept w0 w1" by (rule preservesD [OF reads w run])
  have "\<exists>found. r = Inr found"
    using run by (simp add: get_secret_def key_tick_def bindS_def returnS_def split: if_splits) blast+
  then obtain found where found: "r = Inr found" by blast
  have none: "om_get (kw_keyring w1) account = None" if "found = NoEntry"
  proof (cases ok)
    case True
    with run found that show ?thesis using get_secret_Inr [of V account w found w1] by simp
  next
    case False
    with run found that show ?thesis by (simp add: returnS_def)
  qed
  show "key_kept w0 (snd (bindS ?m (keyring_identity V C account) w))"
    unfolding bindS_def run found by (simp add: kept_keyring_identity [OF w1] none)
qed

lemma kept_load: "preserves (key_kept w0) (load_or_create V C)"
  unfolding load_or_create_def Let_def
  by (intro preserves_intros reads_kept load_referenced_reads kept_write kept_keyring_block key_reads key_reads_more)

text \<open>The calls of \<open>load_or_create\<close> on one device, each in a world of its own faults.\<close>

inductive key_runs :: "crypto \<Rightarrow> key_world \<Rightarrow> key_world \<Rightarrow> bool" for C where
  none: "key_runs C w w"
| more: "key_runs C w w1 \<Longrightarrow> load_or_create V C w1 = (r, w2) \<Longrightarrow> key_runs C w w2"

definition faultless :: "key_env \<Rightarrow> bool" where
  "faultless V \<longleftrightarrow> (\<forall>n. ke_io V n = None) \<and> (\<forall>n. ke_entry V n) \<and> (\<forall>n. \<not> ke_keyring_fails V n)"

lemma load_settles:
  assumes "load_or_create V C w = (Inr d, w')" and "key_kept w w"
  shows "settled C d w'"
  using assms
proof (cases rule: load_or_create_cases)
  case (referenced w1)
  then show ?thesis using load_referenced_settled by blast
next
  case (written w1 reference)
  have wf: "om_wf (kw_files w1)" using written(1) by (simp add: key_kept_def)
  from written(4) wf show ?thesis
  proof (cases rule: write_result)
    case 1
    then show ?thesis by simp
  next
    case (2 f)
    then have f: "om_get (kw_files w') ''identity.ref'' = Some \<lparr>kf_bytes = as_bytes reference, kf_mode = 384\<rparr>"
      using wf by (simp add: om_get_insert)
    have "key_kept w1 w1" using written(1) by (simp add: key_kept_def)
    from preservesD [OF kept_write this written(4)] have "source_ok C d reference w'" by (rule source_kept [OF written(3)])
    with f written(2) show ?thesis unfolding settled_def
      by (intro exI [of _ "\<lparr>kf_bytes = as_bytes reference, kf_mode = 384\<rparr>"] exI [of _ reference]) simp
  qed
qed

lemma settled_result:
  assumes set: "settled C d w" and wf: "key_kept w w" and run: "load_or_create V C w = (Inr d', w')"
  shows "d' = d"
  using run wf
proof (cases rule: load_or_create_cases)
  case (referenced w1)
  have kept: "key_kept w w1" by (rule kept_same [OF wf referenced(1)])
  have reads: "preserves (key_kept w) (load_referenced V C)" by (intro reads_kept load_referenced_reads)
  have "key_kept w w'" by (rule preservesD [OF reads kept referenced(2)])
  then show ?thesis using settled_unique [OF settled_kept [OF set]] load_referenced_settled [OF referenced(2)] by blast
next
  case (written w1 reference)
  obtain f where "om_get (kw_files w) ''identity.ref'' = Some f" using set unfolding settled_def by (elim exE conjE)
  then have "om_contains (kw_files w1) ''identity.ref''" using written(1) by (auto simp: key_kept_def om_contains_def)
  moreover have "om_wf (kw_files w1)" using written(1) by (simp add: key_kept_def)
  ultimately show ?thesis using write_result [OF written(4)] by (metis is_ok_simps(2))
qed

lemma key_runs_kept: "key_runs C w w' \<Longrightarrow> key_kept w w \<Longrightarrow> key_kept w w'"
proof (induction rule: key_runs.induct)
  case (none w)
  then show ?case .
next
  case (more w w1 V r w2)
  from more.IH [OF more.prems] show ?case by (rule preservesD [OF kept_load _ more.hyps(2)])
qed

text \<open>When no call fails, a settled identity is read.\<close>

lemma faultless_io: "faultless V \<Longrightarrow> file_call V w = (Inr (), w\<lparr>kw_ticks := Suc (kw_ticks w)\<rparr>)"
  by (simp add: faultless_def file_call_def key_tick_def bindS_def returnS_def)

lemma faultless_reads:
  assumes "faultless V"
  shows "path_exists V name w = (Inr (om_contains (kw_files w) name), w\<lparr>kw_ticks := Suc (kw_ticks w)\<rparr>)"
    and "keyring_entry V w = (Inr True, w\<lparr>kw_ticks := Suc (kw_ticks w)\<rparr>)"
    and "om_get (kw_keyring w) account = Some s \<Longrightarrow> get_secret V account w = (Inr (Secret s), w\<lparr>kw_ticks := Suc (kw_ticks w)\<rparr>)"
  using assms by (simp_all add: faultless_def path_exists_def keyring_entry_def get_secret_def key_tick_def bindS_def)

lemma settled_loads:
  assumes settled: "settled C d w" and V: "faultless V"
  shows "fst (load_or_create V C w) = Inr d"
proof -
  obtain f reference where f: "om_get (kw_files w) ''identity.ref'' = Some f" "from_utf8 (kf_bytes f) = Some reference"
      "source_ok C d reference w" using settled unfolding settled_def by (elim exE conjE)
  note steps = load_or_create_def Let_def load_referenced_def read_to_string_def get_file_def bindS_def
    faultless_io [OF V] faultless_reads [OF V] om_contains_def f(1,2)
  from f(3) show ?thesis
    unfolding source_ok_def
  proof (elim disjE exE conjE)
    fix account secret
    assume "rust_lines reference = [''keyring'', account]" "om_get (kw_keyring w) account = Some secret"
      "identity_from_slice C secret = Inr d"
    then show ?thesis by (simp add: steps)
  next
    fix name g
    assume "rust_lines reference = [''file'', name]" "\<not> starts_with name ''/''" "component_count name = 1"
      "om_get (kw_files w) name = Some g" "kf_mode g mod 64 = 0"
      "identity_from_slice C (take (SECRET_LENGTH + 1) (kf_bytes g)) = Inr d"
    then show ?thesis by (simp add: steps read_owner_only_def returnS_def)
  qed
qed

text \<open>
  C18. A device that once was given its identity keeps it. Let \<open>load_or_create\<close> return an identity, and let any number of
  further calls follow, in each of which file operations, the keyring and the random generator fail at any moment. Then a
  call after them that returns an identity returns the same one, and it does return it when nothing fails in it.
\<close>

theorem identity_is_stable:
  assumes "om_wf (kw_files w)" and "om_wf (kw_keyring w)" and "load_or_create V C w = (Inr d, w1)" and "key_runs C w1 w2"
  shows "(\<forall>V' d' w3. load_or_create V' C w2 = (Inr d', w3) \<longrightarrow> d' = d) \<and> (\<forall>V'. faultless V' \<longrightarrow> fst (load_or_create V' C w2) = Inr d)"
proof -
  have w: "key_kept w w" using assms(1,2) by (simp add: key_kept_def)
  have "key_kept w w1" by (rule preservesD [OF kept_load w assms(3)])
  then have w1: "key_kept w1 w1" by (simp add: key_kept_def)
  have kept: "key_kept w1 w2" by (rule key_runs_kept [OF assms(4) w1])
  have settled: "settled C d w2" by (rule settled_kept [OF load_settles [OF assms(3) w] kept])
  have w2: "key_kept w2 w2" using kept by (simp add: key_kept_def)
  show ?thesis using settled_result [OF settled w2] settled_loads [OF settled] by blast
qed

definition sample_keys :: "(nat \<Rightarrow> nat option) \<Rightarrow> key_env" where
  "sample_keys faults = \<lparr>ke_io = faults, ke_entry = (\<lambda>_. True), ke_keyring_fails = (\<lambda>_. False), ke_random = (\<lambda>n. Some (of_nat n)),
     ke_data_dir = ''/d''\<rparr>"

lemma sample_created: "fst (load_or_create (sample_keys (\<lambda>_. None)) sample_crypto \<lparr>kw_files = [], kw_keyring = [], kw_ticks = 0\<rparr>)
    = Inr \<lparr>signing_key = 5, endpoint_id = 5\<rparr>"
  by (simp add: load_or_create_def Let_def bindS_def file_call_def path_exists_def keyring_entry_def get_secret_def set_secret_def
      key_tick_def keyring_identity_def identity_generate_def write_owner_only_def put_file_def sample_keys_def
      identity_from_secret_def sample_crypto_def om_contains_def returnS_def liftS_def ok_or_def bindE_def mapErr_def)

theorem identity_is_stable_witness:
  "\<exists>w1 w2 r.
     load_or_create (sample_keys (\<lambda>_. None)) sample_crypto \<lparr>kw_files = [], kw_keyring = [], kw_ticks = 0\<rparr>
       = (Inr \<lparr>signing_key = 5, endpoint_id = 5\<rparr>, w1)
     \<and> load_or_create (sample_keys (\<lambda>_. Some 0)) sample_crypto w1 = (r, w2)
     \<and> fst (load_or_create (sample_keys (\<lambda>_. None)) sample_crypto w2) = Inr \<lparr>signing_key = 5, endpoint_id = 5\<rparr>"
proof -
  let ?w = "\<lparr>kw_files = [], kw_keyring = [], kw_ticks = 0\<rparr> :: key_world"
  obtain w1 where w1: "load_or_create (sample_keys (\<lambda>_. None)) sample_crypto ?w = (Inr \<lparr>signing_key = 5, endpoint_id = 5\<rparr>, w1)"
    using sample_created by (metis prod.collapse)
  obtain r w2 where w2: "load_or_create (sample_keys (\<lambda>_. Some 0)) sample_crypto w1 = (r, w2)" by fastforce
  have runs: "key_runs sample_crypto w1 w2" by (rule key_runs.more [OF key_runs.none w2])
  have "om_wf (kw_files ?w)" "om_wf (kw_keyring ?w)" by simp_all
  from identity_is_stable [OF this w1 runs] have "fst (load_or_create (sample_keys (\<lambda>_. None)) sample_crypto w2)
      = Inr \<lparr>signing_key = 5, endpoint_id = 5\<rparr>"
    by (simp add: faultless_def sample_keys_def)
  with w1 w2 show ?thesis by blast
qed

end
