(* ===== verification/Device_Setup.thy ===== *)
theory Device_Setup
  imports Identity_Store Sync_Effects
begin

text \<open>
  \<open>config.rs\<close> and \<open>setup.rs\<close>: the configuration with its defaults and its validation, the directories of a device, and
  the first steps on it: its identity, the group it starts or expects to join, and its default collections. The parser
  of TOML, the environment variables, the file system calls and the clock are parameters. The theorems say that the
  setup can be repeated, and that no setup, whatever fails in it, touches the group a device belongs to.
\<close>

section \<open>Configuration\<close>

datatype ConfigError = MissingHome | UnsupportedPlatform | Io | Toml | Invalid string

record DeviceConfig =
  dc_name :: string

record JoiningConfig =
  jo_service_url :: string
  jo_invitation_ttl :: nat
  jo_headers :: "(string, string) omap"

datatype IrohPreset = N0 | Custom

record IrohConfig =
  ic_preset :: IrohPreset
  ic_relay_urls :: "string list"
  ic_address_lookup_urls :: "string list"

record SyncConfig =
  sy_interval :: nat
  sy_max_future_clock_skew :: nat
  sy_ignore :: "string list"

record LoggingConfig =
  lg_max_entries :: nat

record Config =
  cg_device :: DeviceConfig
  cg_joining :: JoiningConfig
  cg_iroh :: IrohConfig
  cg_sync :: SyncConfig
  cg_logging :: LoggingConfig

text \<open>A \<open>Duration\<close> is its number of nanoseconds.\<close>

definition from_secs :: "nat \<Rightarrow> nat" where
  "from_secs n = n * 1000000000"

definition as_secs :: "nat \<Rightarrow> nat" where
  "as_secs d = d div 1000000000"

definition DEFAULT_JOINING_SERVICE :: string where
  "DEFAULT_JOINING_SERVICE = ''https://skillsync.danthegoodman.com''"

definition default_device :: DeviceConfig where
  "default_device = \<lparr>dc_name = ''device''\<rparr>"

definition default_joining :: JoiningConfig where
  "default_joining = \<lparr>jo_service_url = DEFAULT_JOINING_SERVICE, jo_invitation_ttl = from_secs 600, jo_headers = []\<rparr>"

definition default_iroh :: IrohConfig where
  "default_iroh = \<lparr>ic_preset = N0, ic_relay_urls = [], ic_address_lookup_urls = []\<rparr>"

definition default_sync :: SyncConfig where
  "default_sync = \<lparr>sy_interval = from_secs (15 * 60), sy_max_future_clock_skew = from_secs (5 * 60),
     sy_ignore = [''**/.git/**'', ''**/.DS_Store'', ''**/*.swp'']\<rparr>"

definition default_logging :: LoggingConfig where
  "default_logging = \<lparr>lg_max_entries = 1000\<rparr>"

definition default_config :: Config where
  "default_config = \<lparr>cg_device = default_device, cg_joining = default_joining, cg_iroh = default_iroh,
     cg_sync = default_sync, cg_logging = default_logging\<rparr>"

definition config_validate :: "Config \<Rightarrow> ConfigError + unit" where
  "config_validate cfg =
    (if trim_is_empty (dc_name (cg_device cfg)) then Inl (Invalid ''device.name must not be empty'')
     else
       let ttl = as_secs (jo_invitation_ttl (cg_joining cfg)) in
       if \<not> (60 \<le> ttl \<and> ttl \<le> 900) then Inl (Invalid ''joining.invitation_ttl must be from 60s through 15m'')
       else
         bindE (case ic_preset (cg_iroh cfg) of
             N0 \<Rightarrow>
               if ic_relay_urls (cg_iroh cfg) \<noteq> [] \<or> ic_address_lookup_urls (cg_iroh cfg) \<noteq> []
               then Inl (Invalid ''custom iroh URLs require preset = custom'') else Inr ()
           | Custom \<Rightarrow>
               if ic_relay_urls (cg_iroh cfg) = [] \<or> ic_address_lookup_urls (cg_iroh cfg) = []
               then Inl (Invalid ''custom iroh preset requires relay_urls and address_lookup_urls'') else Inr ()) (\<lambda>_.
         if sy_interval (cg_sync cfg) = 0 then Inl (Invalid ''sync.interval must be positive'')
         else if lg_max_entries (cg_logging cfg) = 0 \<or> lg_max_entries (cg_logging cfg) > 100000
         then Inl (Invalid ''logging.max_entries must be from 1 through 100000'')
         else Inr ()))"

definition from_toml :: "(string \<Rightarrow> Config option) \<Rightarrow> string \<Rightarrow> ConfigError + Config" where
  "from_toml toml contents =
    bindE (ok_or Toml (toml contents)) (\<lambda>config. bindE (config_validate config) (\<lambda>_. Inr config))"

text \<open>\<open>Config::load\<close>, given what reading the file returned; a file that is not there stands for the defaults.\<close>

definition config_load :: "(string \<Rightarrow> Config option) \<Rightarrow> IoError + string \<Rightarrow> ConfigError + Config" where
  "config_load toml reading = (case reading of
      Inr contents \<Rightarrow> from_toml toml contents
    | Inl NotFound \<Rightarrow> Inr default_config
    | Inl _ \<Rightarrow> Inl Io)"

definition effective_config :: "(string \<Rightarrow> string option) \<Rightarrow> Config \<Rightarrow> Config" where
  "effective_config variable cfg = cfg\<lparr>cg_joining := (cg_joining cfg)\<lparr>jo_service_url :=
     (case variable ''SKILLSYNC_JOINING_SERVICE_URL'' of Some url \<Rightarrow> url | None \<Rightarrow> jo_service_url (cg_joining cfg))\<rparr>\<rparr>"

section \<open>Directories\<close>

record PlatformPaths =
  pp_config_file :: os_path
  pp_data_dir :: os_path
  pp_runtime_dir :: os_path

definition slash :: byte where "slash = 47"

text \<open>\<open>Path::join\<close>\<close>

definition path_join :: "os_path \<Rightarrow> os_path \<Rightarrow> os_path" where
  "path_join base path =
    (if path \<noteq> [] \<and> hd path = slash then path
     else if base = [] \<or> last base = slash then base @ path
     else base @ slash # path)"

definition for_macos_home :: "os_path \<Rightarrow> PlatformPaths" where
  "for_macos_home home =
    (let data_dir = path_join (path_join (path_join home (as_bytes ''Library'')) (as_bytes ''Application Support'')) (as_bytes ''skillsync'') in
     \<lparr>pp_config_file = path_join data_dir (as_bytes ''config.toml''), pp_data_dir = data_dir,
      pp_runtime_dir = path_join data_dir (as_bytes ''run'')\<rparr>)"

definition for_linux_home :: "(string \<Rightarrow> os_path option) \<Rightarrow> os_path \<Rightarrow> PlatformPaths" where
  "for_linux_home variable home =
    (let config_root = (case variable ''XDG_CONFIG_HOME'' of Some d \<Rightarrow> d | None \<Rightarrow> path_join home (as_bytes ''.config''));
         data_dir = path_join (case variable ''XDG_DATA_HOME'' of Some d \<Rightarrow> d | None \<Rightarrow> path_join home (as_bytes ''.local/share''))
           (as_bytes ''skillsync'');
         runtime_dir = (case variable ''XDG_RUNTIME_DIR'' of
             Some root \<Rightarrow> path_join root (as_bytes ''skillsync'') | None \<Rightarrow> path_join data_dir (as_bytes ''run''))
     in \<lparr>pp_config_file = path_join config_root (as_bytes ''skillsync/config.toml''), pp_data_dir = data_dir,
         pp_runtime_dir = runtime_dir\<rparr>)"

text \<open>The operating system is fixed when the program is compiled.\<close>

datatype target_os = MacOS | Linux | OtherOs

definition discover :: "target_os \<Rightarrow> (string \<Rightarrow> os_path option) \<Rightarrow> ConfigError + PlatformPaths" where
  "discover os variable =
    bindE (ok_or MissingHome (variable ''HOME'')) (\<lambda>home.
    bindE (case os of MacOS \<Rightarrow> Inr (for_macos_home home) | Linux \<Rightarrow> Inr (for_linux_home variable home)
        | OtherOs \<Rightarrow> Inl UnsupportedPlatform) (\<lambda>defaults.
    Inr \<lparr>pp_config_file = (case variable ''SKILLSYNC_CONFIG_DIR'' of
          Some directory \<Rightarrow> path_join directory (as_bytes ''config.toml'') | None \<Rightarrow> pp_config_file defaults),
        pp_data_dir = (case variable ''SKILLSYNC_DATA_DIR'' of Some d \<Rightarrow> d | None \<Rightarrow> pp_data_dir defaults),
        pp_runtime_dir = (case variable ''SKILLSYNC_RUNTIME_DIR'' of Some d \<Rightarrow> d | None \<Rightarrow> pp_runtime_dir defaults)\<rparr>))"

section \<open>Setup\<close>

datatype SetupError =
    MissingHome
  | Io
  | Config ConfigError
  | Identity IdentityError
  | Roster RosterError
  | State StateError
  | LocalDeviceRemoved

definition DEFAULT_COLLECTIONS :: "(string \<times> string) list" where
  "DEFAULT_COLLECTIONS = [(''.agents'', ''.agents/skills''), (''.claude'', ''.claude/skills''), (''.codex'', ''.codex/skills'')]"

record SetupResult =
  sr_device_name :: string
  sr_endpoint_id :: EndpointId
  sr_collections :: "(string \<times> os_path) list"
  sr_created :: bool

text \<open>
  For each call: whether a directory cannot be created; what a path resolves to; the bytes of a group identifier; and the
  clock, before the epoch (\<open>Inl\<close>) or after it, in nanoseconds.
\<close>

record setup_env =
  sv_keys :: key_env
  sv_home :: "os_path option"
  sv_io :: "nat \<Rightarrow> bool"
  sv_canonicalize :: "nat \<Rightarrow> os_path \<Rightarrow> os_path option"
  sv_group :: "nat \<Rightarrow> bytes32 option"
  sv_clock :: "nat \<Rightarrow> nat + nat"

record device =
  de_keys :: key_world
  de_store :: StateStore
  de_dirs :: "os_path list"
  de_ticks :: nat

type_synonym 'a setup_action = "(device, SetupError, 'a) action"

definition on_keys :: "'a key_action \<Rightarrow> 'a setup_action" where
  "on_keys m d = (case m (de_keys d) of (r, k) \<Rightarrow> (mapErr Identity r, d\<lparr>de_keys := k\<rparr>))"

definition on_store :: "(StateStore, StateError, 'a) action \<Rightarrow> 'a setup_action" where
  "on_store m d = (case m (de_store d) of (r, s) \<Rightarrow> (mapErr State r, d\<lparr>de_store := s\<rparr>))"

definition device_tick :: "(nat \<Rightarrow> 'a) \<Rightarrow> 'a setup_action" where
  "device_tick f d = (Inr (f (de_ticks d)), d\<lparr>de_ticks := Suc (de_ticks d)\<rparr>)"

definition create_dir_all :: "setup_env \<Rightarrow> os_path \<Rightarrow> unit setup_action" where
  "create_dir_all V path =
    bindS (device_tick (sv_io V)) (\<lambda>failed d.
    if failed then (Inl SetupError.Io, d) else (Inr (), d\<lparr>de_dirs := path # de_dirs d\<rparr>))"

definition canonicalize :: "setup_env \<Rightarrow> os_path \<Rightarrow> os_path setup_action" where
  "canonicalize V path =
    bindS (device_tick (\<lambda>n. sv_canonicalize V n path)) (\<lambda>found. liftS (ok_or SetupError.Io found))"

definition group_generate :: "setup_env \<Rightarrow> bytes32 setup_action" where
  "group_generate V = bindS (device_tick (sv_group V)) (\<lambda>bytes. liftS (ok_or (Identity IdentityError.Random) bytes))"

text \<open>\<open>now_ns\<close>\<close>

definition since_epoch_ns :: "nat + nat \<Rightarrow> i64" where
  "since_epoch_ns time = (case time of
      Inr nanos \<Rightarrow> if nanos < 2 ^ 63 then of_nat nanos else 2 ^ 63 - 1
    | Inl nanos \<Rightarrow> - (if nanos < 2 ^ 63 then of_nat nanos else 2 ^ 63 - 1))"

definition attach_new :: "setup_env \<Rightarrow> json \<Rightarrow> Config \<Rightarrow> string \<Rightarrow> os_path \<Rightarrow> os_path setup_action" where
  "attach_new V J cfg name local_path =
    bindS (create_dir_all V local_path) (\<lambda>_.
    bindS (canonicalize V local_path) (\<lambda>resolved.
    bindS (on_store (add_collection name local_path (Some resolved))) (\<lambda>_.
    bindS (device_tick (sv_clock V)) (\<lambda>time.
    bindS (on_store (append_log J (since_epoch_ns time) (CollectionAttached name) (lg_max_entries (cg_logging cfg)))) (\<lambda>_.
    returnS local_path)))))"

fun attach_collections ::
  "setup_env \<Rightarrow> json \<Rightarrow> Config \<Rightarrow> os_path \<Rightarrow> (string \<times> string) list \<Rightarrow> (string \<times> os_path) list setup_action" where
  "attach_collections V J cfg home [] = returnS []"
| "attach_collections V J cfg home ((name, relative) # defaults) =
    bindS (on_store (queryS (collection_named name))) (\<lambda>found.
    bindS (case found of
        Some existing \<Rightarrow> returnS (cs_local_path existing)
      | None \<Rightarrow> attach_new V J cfg name (path_join home (as_bytes relative))) (\<lambda>path.
    bindS (attach_collections V J cfg home defaults) (\<lambda>others.
    returnS ((name, path) # others))))"

definition attach_default_collections :: "setup_env \<Rightarrow> json \<Rightarrow> Config \<Rightarrow> (string \<times> os_path) list setup_action" where
  "attach_default_collections V J cfg =
    bindS (liftS (ok_or SetupError.MissingHome (sv_home V))) (\<lambda>home. attach_collections V J cfg home DEFAULT_COLLECTIONS)"

definition tip_name :: "EndpointId \<Rightarrow> RosterRevision list \<Rightarrow> string option" where
  "tip_name me chain = (case tip_of chain of None \<Rightarrow> None | Some tip \<Rightarrow> om_get (rr_members tip) me)"

definition start_group :: "setup_env \<Rightarrow> crypto \<Rightarrow> Config \<Rightarrow> DeviceIdentity \<Rightarrow> unit setup_action" where
  "start_group V C cfg identity =
    bindS (group_generate V) (\<lambda>group.
    bindS (liftS (mapErr Roster (genesis C group (dc_name (cg_device cfg)) identity))) (\<lambda>g.
    on_store (insert_roster_revision C g)))"

definition setup_device :: "setup_env \<Rightarrow> crypto \<Rightarrow> json \<Rightarrow> PlatformPaths \<Rightarrow> Config \<Rightarrow> SetupResult setup_action" where
  "setup_device V C J paths cfg =
    bindS (liftS (mapErr Config (config_validate cfg))) (\<lambda>_.
    bindS (create_dir_all V (pp_data_dir paths)) (\<lambda>_.
    bindS (create_dir_all V (pp_runtime_dir paths)) (\<lambda>_.
    bindS (on_keys (load_or_create (sv_keys V) C)) (\<lambda>identity.
    bindS (on_store migrate) (\<lambda>_.
    bindS (on_store (queryS (selected_roster_chain C))) (\<lambda>chain.
    let created = (chain = []) in
    bindS (if created then start_group V C cfg identity else returnS ()) (\<lambda>_.
    bindS (attach_default_collections V J cfg) (\<lambda>attached.
    bindS (on_store (queryS (selected_roster_chain C))) (\<lambda>chain.
    returnS \<lparr>sr_device_name = (case tip_name (endpoint_id identity) chain of Some name \<Rightarrow> name | None \<Rightarrow> dc_name (cg_device cfg)),
      sr_endpoint_id = endpoint_id identity, sr_collections = attached, sr_created = created\<rparr>)))))))))"

definition setup_joining_device :: "setup_env \<Rightarrow> crypto \<Rightarrow> json \<Rightarrow> PlatformPaths \<Rightarrow> Config \<Rightarrow> SetupResult setup_action" where
  "setup_joining_device V C J paths cfg =
    bindS (liftS (mapErr Config (config_validate cfg))) (\<lambda>_.
    bindS (create_dir_all V (pp_data_dir paths)) (\<lambda>_.
    bindS (create_dir_all V (pp_runtime_dir paths)) (\<lambda>_.
    bindS (on_keys (load_or_create (sv_keys V) C)) (\<lambda>identity.
    bindS (on_store migrate) (\<lambda>_.
    bindS (on_store (queryS (selected_roster_chain C))) (\<lambda>existing_roster.
    let existing_name = tip_name (endpoint_id identity) existing_roster in
    if existing_roster \<noteq> [] \<and> existing_name = None then throwS LocalDeviceRemoved
    else
      bindS (attach_default_collections V J cfg) (\<lambda>attached.
      returnS \<lparr>sr_device_name = (case existing_name of Some name \<Rightarrow> name | None \<Rightarrow> dc_name (cg_device cfg)),
        sr_endpoint_id = endpoint_id identity, sr_collections = attached, sr_created = (existing_name = None)\<rparr>)))))))"

end
