(* ===== verification/Setup_Props.thy ===== *)
theory Setup_Props
  imports Device_Setup Scanner_Claims
begin

text \<open>
  What a setup leaves behind, and that this is kept: \<open>set_up\<close> says of a device that its identity is settled, its store
  opens, it belongs to a group, and its default collections are attached. A setup establishes it, every later one
  keeps it and returns what the first one did.
\<close>

section \<open>What the collections of a setup change\<close>

definition schema_of :: "StateStore \<Rightarrow> int \<times> int \<times> (string, string list) omap" where
  "schema_of s = (user_version s, application_id s, sqlite_schema s)"

definition opens :: "StateStore \<Rightarrow> bool" where
  "opens s \<longleftrightarrow> migrate s = (Inr (), s)"

lemma opens_cong: "schema_of s' = schema_of s \<Longrightarrow> opens s' = opens s"
  by (cases s; cases s')
    (auto simp: opens_def schema_of_def migrate_def bindS_def transactionS_def create_tables_def bindE_def validate_current_schema_def
      SCHEMA_VERSION_def split: if_splits sum.splits)

lemma migrate_opens: "migrate s = (Inr (), s') \<Longrightarrow> opens s' \<and> t_collections s' = t_collections s \<and> roster_revisions s' = roster_revisions s"
  by (auto simp: opens_def migrate_def bindS_def transactionS_def create_tables_def bindE_def validate_current_schema_def
      SCHEMA_VERSION_def split: if_splits sum.splits)

definition beyond :: "key_world \<Rightarrow> StateStore \<Rightarrow> device \<Rightarrow> bool" where
  "beyond k s d \<longleftrightarrow> de_keys d = k \<and> roster_revisions (de_store d) = roster_revisions s \<and> schema_of (de_store d) = schema_of s
     \<and> om_wf (t_collections (de_store d))
     \<and> (\<forall>n c. om_get (t_collections s) n = Some c \<longrightarrow> om_get (t_collections (de_store d)) n = Some c)"

lemma beyond_calls [preserves_intros]:
  "preserves (beyond k s) (device_tick f)" "preserves (beyond k s) (create_dir_all V path)"
  "preserves (beyond k s) (canonicalize V path)" "preserves (beyond k s) (on_store (queryS q))"
  by (auto simp: preserves_def beyond_def device_tick_def create_dir_all_def canonicalize_def on_store_def bindS_def split: if_splits)

lemma beyond_add [preserves_intros]: "preserves (beyond k s) (on_store (add_collection name path root))"
  by (auto simp: preserves_def beyond_def on_store_def add_collection_def transactionS_def bindE_eq_Inr sql_insert_eq_Inr schema_of_def
      om_wf_insert om_get_insert split: sum.splits)

lemma beyond_log [preserves_intros]: "preserves (beyond k s) (on_store (append_log J t e n))"
  by (auto simp: preserves_def beyond_def on_store_def append_log_def transactionS_def bindE_eq_Inr schema_of_def insert_log_Inr
      split: sum.splits)

lemma preserves_option [preserves_intros]:
  "preserves I f \<Longrightarrow> (\<And>x. preserves I (g x)) \<Longrightarrow> preserves I (case v of None \<Rightarrow> f | Some x \<Rightarrow> g x)"
  by (cases v) simp_all

lemma attach_new_beyond [preserves_intros]: "preserves (beyond k s) (attach_new V J cfg name path)"
  unfolding attach_new_def by (intro preserves_intros)

lemma attach_beyond: "preserves (beyond k s) (attach_collections V J cfg home ds)"
proof (induction ds)
  case Nil
  then show ?case unfolding attach_collections.simps by (intro preserves_intros)
next
  case (Cons d ds)
  then show ?case by (cases d) (simp only: attach_collections.simps, intro preserves_intros)
qed

definition attached_at :: "StateStore \<Rightarrow> string \<times> string \<Rightarrow> string \<times> os_path \<Rightarrow> bool" where
  "attached_at s d p \<longleftrightarrow> fst p = fst d \<and> (\<exists>c. collection_named (fst d) s = Inr (Some c) \<and> cs_local_path c = snd p)"

lemma attach_present:
  "list_all2 (attached_at (de_store d)) ds ps \<Longrightarrow> attach_collections V J cfg home ds d = (Inr ps, d)"
proof (induction ps arbitrary: ds)
  case Nil
  then show ?case by simp
next
  case (Cons p ps)
  then obtain n rel ds' where ds: "ds = (n, rel) # ds'" "attached_at (de_store d) (n, rel) p" "list_all2 (attached_at (de_store d)) ds' ps"
    by (cases ds) auto
  then show ?case using Cons.IH [OF ds(3)]
    by (cases p; cases d) (auto simp: attached_at_def on_store_def bindS_def Let_def)
qed

lemma attached_beyond: "attached_at s d p \<Longrightarrow> beyond k s dev \<Longrightarrow> attached_at (de_store dev) d p"
  by (auto simp: attached_at_def beyond_def collection_named_def split: option.splits)

lemma setup_calls_Inr:
  "create_dir_all V path d = (Inr u, d') \<Longrightarrow> de_store d' = de_store d \<and> de_keys d' = de_keys d"
  "canonicalize V path d = (Inr p, d') \<Longrightarrow> de_store d' = de_store d \<and> de_keys d' = de_keys d"
  "device_tick f d = (Inr t, d') \<Longrightarrow> de_store d' = de_store d \<and> de_keys d' = de_keys d"
  "on_store m d = (Inr a, d') \<longleftrightarrow> (\<exists>s. m (de_store d) = (Inr a, s) \<and> d' = d\<lparr>de_store := s\<rparr>)"
  by (auto simp: create_dir_all_def canonicalize_def device_tick_def bindS_def on_store_def split: if_splits option.splits prod.splits)

definition new_row :: "os_path \<Rightarrow> os_path \<Rightarrow> collection_row" where
  "new_row path root = \<lparr>row_local_path = path, row_resolved_root = Some root, row_scan_status = ''pending'', row_watch_status = ''pending''\<rparr>"

lemma add_collection_Inr:
  "add_collection name path (Some root) s = (Inr u, s') \<longleftrightarrow> check_collection_row name (new_row path root)
     \<and> om_get (t_collections s) name = None \<and> s' = s\<lparr>t_collections := om_insert name (new_row path root) (t_collections s)\<rparr>"
  by (auto simp: add_collection_def transactionS_eq_Inr bindE_eq_Inr sql_insert_eq_Inr new_row_def)

lemma append_log_collections: "append_log J t e n s = (Inr u, s') \<Longrightarrow> t_collections s' = t_collections s"
  by (auto simp: append_log_def transactionS_eq_Inr bindE_eq_Inr dest: insert_log_frame)

lemma attach_new_row:
  assumes "attach_new V J cfg name path d = (Inr p, d')" and "om_wf (t_collections (de_store d))"
  shows "p = path" and "\<exists>root. om_get (t_collections (de_store d')) name = Some (new_row path root)" and "om_wf (t_collections (de_store d'))"
proof -
  obtain u1 d1 root d2 u3 d3 t d4 u5 where steps: "create_dir_all V path d = (Inr u1, d1)" "canonicalize V path d1 = (Inr root, d2)"
      "on_store (add_collection name path (Some root)) d2 = (Inr u3, d3)" "device_tick (sv_clock V) d3 = (Inr t, d4)"
      "on_store (append_log J (since_epoch_ns t) (CollectionAttached name) (lg_max_entries (cg_logging cfg))) d4 = (Inr u5, d')"
      "p = path"
    using assms(1) unfolding attach_new_def by (auto simp only: bindS_eq_Inr returnS_apply prod.inject sum.inject)
  have "t_collections (de_store d3) = om_insert name (new_row path root) (t_collections (de_store d))"
    using steps(3) setup_calls_Inr(1) [OF steps(1)] setup_calls_Inr(2) [OF steps(2)]
    by (auto simp: setup_calls_Inr(4) add_collection_Inr)
  moreover have "t_collections (de_store d') = t_collections (de_store d3)"
    using steps(5) setup_calls_Inr(3) [OF steps(4)] by (auto simp: setup_calls_Inr(4) dest: append_log_collections)
  ultimately show "\<exists>root. om_get (t_collections (de_store d')) name = Some (new_row path root)" "om_wf (t_collections (de_store d'))"
    using assms(2) by (auto simp: om_wf_insert om_get_insert)
  show "p = path" by (rule steps(6))
qed

lemma attach_attached:
  "attach_collections V J cfg home ds d = (Inr ps, d') \<Longrightarrow> om_wf (t_collections (de_store d)) \<Longrightarrow>
   list_all2 (attached_at (de_store d')) ds ps"
proof (induction ds arbitrary: d ps)
  case Nil
  then show ?case by simp
next
  case (Cons nr ds)
  obtain n rel where nr: "nr = (n, rel)" by (cases nr)
  obtain found path d2 ps' where step: "collection_named n (de_store d) = Inr found" "ps = (n, path) # ps'"
      "(case found of Some c \<Rightarrow> returnS (cs_local_path c) | None \<Rightarrow> attach_new V J cfg n (path_join home (as_bytes rel))) d = (Inr path, d2)"
      "attach_collections V J cfg home ds d2 = (Inr ps', d')"
    using Cons.prems(1) unfolding nr attach_collections.simps
    by (auto simp: bindS_eq_Inr setup_calls_Inr(4))
  have here: "om_wf (t_collections (de_store d2)) \<and> attached_at (de_store d2) (n, rel) (n, path)"
  proof (cases found)
    case (Some c)
    then show ?thesis using step(1,3) Cons.prems(2) by (auto simp: attached_at_def)
  next
    case None
    with step(3) have "attach_new V J cfg n (path_join home (as_bytes rel)) d = (Inr path, d2)" by simp
    note new = attach_new_row [OF this Cons.prems(2)]
    then show ?thesis
      by (auto simp: attached_at_def collection_named_def decode_collection_def scan_status_from_str_def watch_status_from_str_def new_row_def)
  qed
  then have "beyond (de_keys d2) (de_store d2) d2" by (simp add: beyond_def)
  from preservesD [OF attach_beyond this step(4)] have "attached_at (de_store d') (n, rel) (n, path)"
    by (rule attached_beyond [OF here [THEN conjunct2]])
  with Cons.IH [OF step(4)] here step(2) nr show ?case by simp
qed

section \<open>A device that is set up\<close>

definition set_up :: "crypto \<Rightarrow> DeviceIdentity \<Rightarrow> RosterRevision list \<Rightarrow> (string \<times> os_path) list \<Rightarrow> device \<Rightarrow> bool" where
  "set_up C identity chain ps d \<longleftrightarrow> settled C identity (de_keys d) \<and> key_kept (de_keys d) (de_keys d) \<and> opens (de_store d)
     \<and> selected_roster_chain C (de_store d) = Inr chain \<and> chain \<noteq> []
     \<and> list_all2 (attached_at (de_store d)) DEFAULT_COLLECTIONS ps"

definition setup_result :: "DeviceIdentity \<Rightarrow> RosterRevision list \<Rightarrow> (string \<times> os_path) list \<Rightarrow> Config \<Rightarrow> SetupResult" where
  "setup_result identity chain ps cfg = \<lparr>sr_device_name = (case tip_name (endpoint_id identity) chain of
       Some name \<Rightarrow> name | None \<Rightarrow> dc_name (cg_device cfg)),
     sr_endpoint_id = endpoint_id identity, sr_collections = ps, sr_created = False\<rparr>"

lemma set_up_calls:
  "preserves (\<lambda>d. set_up C identity chain ps d \<and> de_store d = s) (create_dir_all V path)"
  "preserves (\<lambda>d. set_up C identity chain ps d \<and> de_store d = s) (on_keys (load_or_create K C))"
  "preserves (\<lambda>d. set_up C identity chain ps d \<and> de_store d = s) (on_store migrate)"
  "preserves (\<lambda>d. set_up C identity chain ps d \<and> de_store d = s) (attach_default_collections V J cfg)"
  "preserves (\<lambda>d. set_up C identity chain ps d \<and> de_store d = s) (on_store (queryS q))"
proof -
  show "preserves (\<lambda>d. set_up C identity chain ps d \<and> de_store d = s) (create_dir_all V path)"
    by (auto simp: preserves_def set_up_def create_dir_all_def device_tick_def bindS_def)
  show "preserves (\<lambda>d. set_up C identity chain ps d \<and> de_store d = s) (on_keys (load_or_create K C))"
    unfolding preserves_def
  proof (intro allI impI)
    fix d assume d: "set_up C identity chain ps d \<and> de_store d = s"
    obtain r k where run: "load_or_create K C (de_keys d) = (r, k)" by fastforce
    have wf: "key_kept (de_keys d) (de_keys d)" using d by (simp add: set_up_def)
    have kept: "key_kept (de_keys d) k" by (rule preservesD [OF kept_load wf run])
    then have "key_kept k k" by (simp add: key_kept_def)
    moreover have "settled C identity k" using d settled_kept [OF _ kept] by (simp add: set_up_def)
    ultimately show "set_up C identity chain ps (snd (on_keys (load_or_create K C) d)) \<and> de_store (snd (on_keys (load_or_create K C) d)) = s"
      using d by (auto simp: set_up_def on_keys_def run)
  qed
  show "preserves (\<lambda>d. set_up C identity chain ps d \<and> de_store d = s) (on_store migrate)"
    by (auto simp: preserves_def set_up_def on_store_def opens_def)
  show "preserves (\<lambda>d. set_up C identity chain ps d \<and> de_store d = s) (attach_default_collections V J cfg)"
    by (auto simp: preserves_def attach_default_collections_def bindS_def ok_or_def set_up_def attach_present split: option.split)
  show "preserves (\<lambda>d. set_up C identity chain ps d \<and> de_store d = s) (on_store (queryS q))"
    by (auto simp: preserves_def set_up_def on_store_def)
qed

lemma preserves_known_query:
  assumes "\<And>d. I d \<Longrightarrow> q (de_store d) = Inr a" and "preserves I (f a)"
  shows "preserves I (bindS (on_store (queryS q)) f)"
  using assms by (auto simp: preserves_def bindS_def on_store_def)

lemma preserves_unless: "\<not> b \<Longrightarrow> preserves I n \<Longrightarrow> preserves I (if b then m else n)"
  by simp

lemma later_setup:
  assumes "set_up C identity chain ps d" and "setup_device V C J paths cfg d = (r, d')"
  shows "set_up C identity chain ps d' \<and> de_store d' = de_store d"
proof -
  have "preserves (\<lambda>x. set_up C identity chain ps x \<and> de_store x = de_store d) (setup_device V C J paths cfg)"
    unfolding setup_device_def Let_def
    by (intro preserves_bindS preserves_pure set_up_calls preserves_known_query [where a = chain] preserves_unless)
      (use assms(1) in \<open>auto simp: set_up_def\<close>)
  from preservesD [OF this _ assms(2)] assms(1) show ?thesis by simp
qed

lemma later_result:
  assumes d: "set_up C identity chain ps d" and run: "setup_device V C J paths cfg d = (Inr res, d')"
  shows "res = setup_result identity chain ps cfg"
proof -
  note wf = d [unfolded set_up_def]
  obtain d1 d2 me d3 d4 chain' where steps: "create_dir_all V (pp_data_dir paths) d = (Inr (), d1)"
      "create_dir_all V (pp_runtime_dir paths) d1 = (Inr (), d2)" "on_keys (load_or_create (sv_keys V) C) d2 = (Inr me, d3)"
      "on_store migrate d3 = (Inr (), d4)" "selected_roster_chain C (de_store d4) = Inr chain'"
      "bindS (if chain' = [] then start_group V C cfg me else returnS ()) (\<lambda>_.
         bindS (attach_default_collections V J cfg) (\<lambda>attached.
         bindS (on_store (queryS (selected_roster_chain C))) (\<lambda>chain.
         returnS \<lparr>sr_device_name = (case tip_name (endpoint_id me) chain of Some name \<Rightarrow> name | None \<Rightarrow> dc_name (cg_device cfg)),
           sr_endpoint_id = endpoint_id me, sr_collections = attached, sr_created = (chain' = [])\<rparr>))) d4 = (Inr res, d')"
    using run unfolding setup_device_def Let_def by (auto simp: bindS_eq_Inr setup_calls_Inr(4) simp del: split_paired_Ex)
  have early: "de_store d2 = de_store d" "de_keys d2 = de_keys d"
    using setup_calls_Inr(1) [OF steps(1)] setup_calls_Inr(1) [OF steps(2)] by simp_all
  obtain k where k: "load_or_create (sv_keys V) C (de_keys d) = (Inr me, k)" "d3 = d2\<lparr>de_keys := k\<rparr>"
    using steps(3) early(2) by (auto simp: on_keys_def split: prod.splits)
  have me: "me = identity" by (rule settled_result [OF _ _ k(1)]) (use wf in simp_all)
  have store: "de_store d4 = de_store d" using steps(4) k(2) early(1) wf by (auto simp: setup_calls_Inr(4) opens_def)
  then have chain: "chain' = chain" using steps(5) wf by simp
  have "list_all2 (attached_at (de_store d4)) DEFAULT_COLLECTIONS ps" using wf store by simp
  note attach = attach_present [OF this]
  show ?thesis
    using steps(6) chain me store wf
    by (auto simp: attach_default_collections_def bindS_eq_Inr setup_calls_Inr(4) attach setup_result_def)
qed

definition setup_faultless :: "setup_env \<Rightarrow> bool" where
  "setup_faultless V \<longleftrightarrow> faultless (sv_keys V) \<and> (\<forall>n. \<not> sv_io V n) \<and> sv_home V \<noteq> None"

lemma faultless_dirs:
  "setup_faultless V \<Longrightarrow> create_dir_all V path d = (Inr (), d\<lparr>de_dirs := path # de_dirs d, de_ticks := Suc (de_ticks d)\<rparr>)"
  by (simp add: setup_faultless_def create_dir_all_def device_tick_def bindS_def)

lemma later_returns:
  assumes d: "set_up C identity chain ps d" and V: "setup_faultless V" and cfg: "config_validate cfg = Inr ()"
  shows "\<exists>res d'. setup_device V C J paths cfg d = (Inr res, d')"
proof -
  note wf = d [unfolded set_up_def opens_def]
  have keys: "fst (load_or_create (sv_keys V) C (de_keys d)) = Inr identity"
    using settled_loads [of C identity "de_keys d" "sv_keys V"] wf V by (simp add: setup_faultless_def)
  then obtain k where k: "load_or_create (sv_keys V) C (de_keys d) = (Inr identity, k)" by (metis prod.collapse)
  obtain home where home: "sv_home V = Some home" using V by (auto simp: setup_faultless_def)
  have attach: "attach_collections V J cfg home DEFAULT_COLLECTIONS x = (Inr ps, x)" if "de_store x = de_store d" for x
    using attach_present wf that by simp
  show ?thesis
    using wf cfg by (simp add: setup_device_def bindS_def faultless_dirs [OF V] on_keys_def k on_store_def Let_def
        attach_default_collections_def home attach)
qed

lemma selected_chain_Nil: "selected_roster_chain C s = Inr [] \<Longrightarrow> roster_revisions s = []"
proof -
  have grows: "read_revisions C rows m = Inr [] \<Longrightarrow> m = [] \<and> rows = []" for rows m
  proof (induction rows arbitrary: m)
    case Nil
    then show ?case by simp
  next
    case (Cons row rows)
    then obtain h r where "read_revisions C rows (om_insert h r m) = Inr []"
      by (auto simp: bindE_eq_Inr split: if_splits)
    then have "om_insert h r m = []" using Cons.IH by blast
    then show ?case by (cases m) (auto split: if_splits)
  qed
  assume "selected_roster_chain C s = Inr []"
  then have "read_revisions C (roster_revisions s) [] = Inr []"
    by (auto simp: selected_roster_chain_def bindE_eq_Inr Let_def split: if_splits list.splits)
  then show ?thesis using grows by blast
qed

lemma insert_revision_frame:
  assumes "insert_roster_revision C g s = (Inr u, s')"
  shows "schema_of s' = schema_of s" and "t_collections s' = t_collections s" and "roster_revisions s' \<noteq> []"
proof -
  have "insert_roster_revision_row C g s = Inr s'"
    using assms by (auto simp: insert_roster_revision_def transactionS_eq_Inr bindE_eq_Inr)
  note row = insert_row_Inr [OF this]
  have "om_insert k v m \<noteq> []" for k v and m :: "(byte list, byte list) omap" by (cases m) (auto split: if_splits)
  with row show "schema_of s' = schema_of s" "t_collections s' = t_collections s" "roster_revisions s' \<noteq> []"
    by (simp_all add: schema_of_def)
qed

lemma first_setup:
  assumes run: "setup_device V C J paths cfg d = (Inr res, d')" and keys: "key_kept (de_keys d) (de_keys d)"
    and rows: "om_wf (t_collections (de_store d))"
  obtains identity chain where "set_up C identity chain (sr_collections res) d'"
    "res = (setup_result identity chain (sr_collections res) cfg)\<lparr>sr_created := sr_created res\<rparr>" "config_validate cfg = Inr ()"
proof -
  obtain d1 d2 me d3 d4 chain' d5 home ps chain where steps: "config_validate cfg = Inr ()" "create_dir_all V (pp_data_dir paths) d = (Inr (), d1)"
      "create_dir_all V (pp_runtime_dir paths) d1 = (Inr (), d2)" "on_keys (load_or_create (sv_keys V) C) d2 = (Inr me, d3)"
      "on_store migrate d3 = (Inr (), d4)" "selected_roster_chain C (de_store d4) = Inr chain'"
      "(if chain' = [] then start_group V C cfg me else returnS ()) d4 = (Inr (), d5)"
      "attach_collections V J cfg home DEFAULT_COLLECTIONS d5 = (Inr ps, d')" "selected_roster_chain C (de_store d') = Inr chain"
      "res = \<lparr>sr_device_name = (case tip_name (endpoint_id me) chain of Some name \<Rightarrow> name | None \<Rightarrow> dc_name (cg_device cfg)),
           sr_endpoint_id = endpoint_id me, sr_collections = ps, sr_created = (chain' = [])\<rparr>"
    using run unfolding setup_device_def Let_def attach_default_collections_def
    by (auto simp: bindS_eq_Inr setup_calls_Inr(4) simp del: split_paired_Ex)
  have early: "de_store d2 = de_store d" "de_keys d2 = de_keys d"
    using setup_calls_Inr(1) [OF steps(2)] setup_calls_Inr(1) [OF steps(3)] by simp_all
  obtain k where k: "load_or_create (sv_keys V) C (de_keys d) = (Inr me, k)" "d3 = d2\<lparr>de_keys := k\<rparr>"
    using steps(4) early(2) by (auto simp: on_keys_def split: prod.splits)
  have settled: "settled C me k" by (rule load_settles [OF k(1) keys])
  have kept: "key_kept k k" using preservesD [OF kept_load keys k(1)] by (simp add: key_kept_def)
  obtain s4 where s4: "migrate (de_store d) = (Inr (), s4)" "d4 = d3\<lparr>de_store := s4\<rparr>"
    using steps(5) k(2) early(1) by (auto simp: setup_calls_Inr(4))
  note s4o = migrate_opens [OF s4(1)]
  have d5: "de_keys d5 = k \<and> opens (de_store d5) \<and> t_collections (de_store d5) = t_collections (de_store d)
      \<and> roster_revisions (de_store d5) \<noteq> []"
  proof (cases "chain' = []")
    case True
    then have "start_group V C cfg me d4 = (Inr (), d5)" using steps(7) by simp
    then obtain g s5 where "insert_roster_revision C g s4 = (Inr (), s5)" "de_store d5 = s5" "de_keys d5 = k"
      using k(2) s4(2) by (auto simp: start_group_def bindS_eq_Inr group_generate_def device_tick_def setup_calls_Inr(4))
    moreover from this(1) have "schema_of s5 = schema_of s4" "t_collections s5 = t_collections s4" "roster_revisions s5 \<noteq> []"
      by (rule insert_revision_frame)+
    ultimately show ?thesis using s4o opens_cong [of s5 s4] by simp
  next
    case False
    then have "d5 = d4" using steps(7) by simp
    moreover have "roster_revisions s4 \<noteq> []" using False steps(6) selected_chain_empty [of s4 C] s4(2) by auto
    ultimately show ?thesis using s4 s4o k by simp
  qed
  have "beyond k (de_store d5) d5" using d5 rows by (simp add: beyond_def)
  from preservesD [OF attach_beyond this steps(8)] have d': "de_keys d' = k" "roster_revisions (de_store d') \<noteq> []" "opens (de_store d')"
    using d5 opens_cong [of "de_store d'" "de_store d5"] by (simp_all add: beyond_def)
  have "chain \<noteq> []" using selected_chain_Nil steps(9) d'(2) by blast
  moreover have "list_all2 (attached_at (de_store d')) DEFAULT_COLLECTIONS ps"
    by (rule attach_attached [OF steps(8)]) (use d5 rows in simp)
  ultimately have "set_up C me chain ps d'" using d' settled kept steps(9) by (simp add: set_up_def)
  then show ?thesis using that [of me chain] steps(1,10) by (simp add: setup_result_def)
qed

text \<open>The setups of a device, each with faults of its own.\<close>

inductive setup_runs :: "crypto \<Rightarrow> json \<Rightarrow> PlatformPaths \<Rightarrow> Config \<Rightarrow> device \<Rightarrow> device \<Rightarrow> bool" for C J paths cfg where
  none: "setup_runs C J paths cfg d d"
| more: "setup_runs C J paths cfg d d1 \<Longrightarrow> setup_device V C J paths cfg d1 = (r, d2) \<Longrightarrow> setup_runs C J paths cfg d d2"

lemma setup_runs_kept:
  "setup_runs C J paths cfg d d' \<Longrightarrow> set_up C identity chain ps d \<Longrightarrow> set_up C identity chain ps d' \<and> de_store d' = de_store d"
proof (induction rule: setup_runs.induct)
  case (none d)
  then show ?case by simp
next
  case (more d d1 V r d2)
  from more.IH [OF more.prems] have d1: "set_up C identity chain ps d1" "de_store d1 = de_store d" by simp_all
  from later_setup [OF d1(1) more.hyps(2)] d1(2) show ?case by simp
qed

text \<open>
  C19. A setup can be repeated. Once a setup of a device has succeeded, any number of further setups with the same
  configuration, whatever fails in them, leave its database as it is: the group, the collections and their paths, the log.
  Each of them that succeeds reports what the first one did, except that it created nothing, and one in which nothing fails
  does succeed.
\<close>

theorem setup_repeatable:
  assumes "om_wf (kw_files (de_keys d))" and "om_wf (kw_keyring (de_keys d))" and "om_wf (t_collections (de_store d))"
    and "setup_device V C J paths cfg d = (Inr res, d1)" and "setup_runs C J paths cfg d1 d2"
  shows "de_store d2 = de_store d1
    \<and> (\<forall>V' res' d3. setup_device V' C J paths cfg d2 = (Inr res', d3) \<longrightarrow> res' = res\<lparr>sr_created := False\<rparr>)
    \<and> (\<forall>V'. setup_faultless V' \<longrightarrow> fst (setup_device V' C J paths cfg d2) = Inr (res\<lparr>sr_created := False\<rparr>))"
proof -
  have keys: "key_kept (de_keys d) (de_keys d)" using assms(1,2) by (simp add: key_kept_def)
  obtain identity chain where first: "set_up C identity chain (sr_collections res) d1"
      "res = (setup_result identity chain (sr_collections res) cfg)\<lparr>sr_created := sr_created res\<rparr>" "config_validate cfg = Inr ()"
    by (rule first_setup [OF assms(4) keys assms(3)])
  have same: "setup_result identity chain (sr_collections res) cfg = res\<lparr>sr_created := False\<rparr>"
    using arg_cong [OF first(2), of "\<lambda>r. r\<lparr>sr_created := False\<rparr>"] by (simp add: setup_result_def)
  have d2: "set_up C identity chain (sr_collections res) d2" "de_store d2 = de_store d1"
    using setup_runs_kept [OF assms(5) first(1)] by simp_all
  moreover have "res' = res\<lparr>sr_created := False\<rparr>" if "setup_device V' C J paths cfg d2 = (Inr res', d3)" for V' res' d3
    using later_result [OF d2(1) that] same by simp
  moreover have "fst (setup_device V' C J paths cfg d2) = Inr (res\<lparr>sr_created := False\<rparr>)" if V': "setup_faultless V'" for V'
  proof -
    obtain res' d3 where "setup_device V' C J paths cfg d2 = (Inr res', d3)" using later_returns [OF d2(1) V' first(3)] by blast
    then show ?thesis using later_result [OF d2(1)] same by simp
  qed
  ultimately show ?thesis by blast
qed

section \<open>The group of a device\<close>

lemma attach_keeps_roster: "preserves (\<lambda>d. roster_revisions (de_store d) = R) (attach_collections V J cfg home ds)"
proof -
  have calls: "preserves (\<lambda>d. roster_revisions (de_store d) = R) (device_tick f)"
    "preserves (\<lambda>d. roster_revisions (de_store d) = R) (create_dir_all V path)"
    "preserves (\<lambda>d. roster_revisions (de_store d) = R) (canonicalize V path)"
    "preserves (\<lambda>d. roster_revisions (de_store d) = R) (on_store (queryS q))"
    "preserves (\<lambda>d. roster_revisions (de_store d) = R) (on_store (add_collection name path root))"
    "preserves (\<lambda>d. roster_revisions (de_store d) = R) (on_store (append_log J t e n))" for f :: "nat \<Rightarrow> 'b" and path q name root t e n
    by (auto simp: preserves_def device_tick_def create_dir_all_def canonicalize_def bindS_def on_store_def add_collection_def
        append_log_def transactionS_def bindE_eq_Inr dest: insert_log_frame split: if_splits sum.splits prod.splits)
  show ?thesis
  proof (induction ds)
    case Nil
    then show ?case unfolding attach_collections.simps by (intro preserves_intros)
  next
    case (Cons d ds)
    then show ?case
      by (cases d) (simp only: attach_collections.simps attach_new_def, intro preserves_intros calls)
  qed
qed

lemma preserves_query:
  assumes "\<And>d a. I d \<Longrightarrow> q (de_store d) = Inr a \<Longrightarrow> P a" and "\<And>a. P a \<Longrightarrow> preserves I (f a)"
  shows "preserves I (bindS (on_store (queryS q)) f)"
proof -
  have "I (snd (f a d))" if "I d" "q (de_store d) = Inr a" for a d
    using assms(2) [OF assms(1) [OF that]] that(1) by (simp add: preserves_def)
  then show ?thesis by (auto simp: preserves_def bindS_def on_store_def split: sum.splits)
qed

lemma keeps_roster_calls:
  "preserves (\<lambda>d. roster_revisions (de_store d) = R) (create_dir_all V path)"
  "preserves (\<lambda>d. roster_revisions (de_store d) = R) (on_keys m)"
  "preserves (\<lambda>d. roster_revisions (de_store d) = R) (on_store migrate)"
  "preserves (\<lambda>d. roster_revisions (de_store d) = R) (attach_default_collections V J cfg)"
  "preserves (\<lambda>d. roster_revisions (de_store d) = R) (on_store (queryS q))"
proof -
  show "preserves (\<lambda>d. roster_revisions (de_store d) = R) (create_dir_all V path)"
    by (auto simp: preserves_def create_dir_all_def device_tick_def bindS_def)
  show "preserves (\<lambda>d. roster_revisions (de_store d) = R) (on_keys m)"
    by (auto simp: preserves_def on_keys_def split: prod.splits)
  show "preserves (\<lambda>d. roster_revisions (de_store d) = R) (on_store migrate)"
    by (auto simp: preserves_def on_store_def dest: migrate_roster split: prod.splits)
  show "preserves (\<lambda>d. roster_revisions (de_store d) = R) (attach_default_collections V J cfg)"
    unfolding attach_default_collections_def by (intro preserves_intros attach_keeps_roster)
  show "preserves (\<lambda>d. roster_revisions (de_store d) = R) (on_store (queryS q))"
    by (auto simp: preserves_def on_store_def)
qed

text \<open>
  No setup changes the group of a device. However it ends, the setup of a device that knows a roster leaves every
  stored revision as it is and adds none, and the setup of a device that is about to join never stores one.
\<close>

theorem setup_keeps_group:
  "(roster_revisions (de_store d) \<noteq> [] \<longrightarrow>
      roster_revisions (de_store (snd (setup_device V C J paths cfg d))) = roster_revisions (de_store d))
   \<and> roster_revisions (de_store (snd (setup_joining_device V C J paths cfg d))) = roster_revisions (de_store d)"
proof -
  let ?I = "\<lambda>x. roster_revisions (de_store x) = roster_revisions (de_store d)"
  have "preserves ?I (setup_device V C J paths cfg)" if "roster_revisions (de_store d) \<noteq> []"
    unfolding setup_device_def Let_def
    by (intro preserves_bindS preserves_pure keeps_roster_calls preserves_query [where P = "\<lambda>chain. chain \<noteq> []"] preserves_unless)
      (use that selected_chain_Nil in \<open>auto dest!: selected_chain_Nil\<close>)
  moreover have "preserves ?I (setup_joining_device V C J paths cfg)"
    unfolding setup_joining_device_def Let_def by (intro preserves_bindS preserves_pure keeps_roster_calls preserves_if)
  ultimately show ?thesis by (simp add: preserves_def)
qed

section \<open>The first setup\<close>

lemma attach_new_succeeds:
  assumes V: "setup_faultless V" "\<And>n p. sv_canonicalize V n p \<noteq> None" and J: "loggable J (CollectionAttached name)"
    and name: "name \<noteq> []" "length name \<le> 255" "path \<noteq> []" and cfg: "lg_max_entries (cg_logging cfg) < 2 ^ 63"
    and s: "om_get (t_collections (de_store d)) name = None" "log_sequence (de_store d) < 2 ^ 63 - 1"
  obtains root d' where "attach_new V J cfg name path d = (Inr path, d')"
    "t_collections (de_store d') = om_insert name (new_row path root) (t_collections (de_store d))"
    "roster_revisions (de_store d') = roster_revisions (de_store d)" "log_sequence (de_store d') = log_sequence (de_store d) + 1"
proof -
  obtain root where root: "sv_canonicalize V (Suc (de_ticks d)) path = Some root" using V(2) by blast
  define s1 where "s1 = (de_store d)\<lparr>t_collections := om_insert name (new_row path root) (t_collections (de_store d))\<rparr>"
  have add: "add_collection name path (Some root) (de_store d) = (Inr (), s1)"
    using name s(1) by (simp add: add_collection_Inr s1_def check_collection_row_def new_row_def)
  obtain s2 where s2: "insert_log J (since_epoch_ns (sv_clock V (Suc (Suc (de_ticks d))))) (CollectionAttached name) (lg_max_entries (cg_logging cfg)) s1 = Inr s2"
    using J s(2) cfg by (auto simp: insert_log_Inr loggable_def s1_def)
  have "attach_new V J cfg name path d = (Inr path, (d\<lparr>de_dirs := path # de_dirs d, de_ticks := Suc (Suc (Suc (de_ticks d))), de_store := s2\<rparr>))"
    using V(1) by (simp add: attach_new_def bindS_def faultless_dirs canonicalize_def device_tick_def root on_store_def add
        append_log_def transactionS_def s2)
  moreover have "t_collections s2 = t_collections s1" "roster_revisions s2 = roster_revisions s1" "log_sequence s2 = log_sequence s1 + 1"
    using insert_log_frame [OF s2] s2 by (auto simp: insert_log_Inr)
  ultimately show ?thesis using that by (simp add: s1_def)
qed

lemma attach_succeeds:
  assumes "setup_faultless V" and "\<And>n p. sv_canonicalize V n p \<noteq> None" and "lg_max_entries (cg_logging cfg) < 2 ^ 63"
    and "\<forall>(name, relative) \<in> set ds. loggable J (CollectionAttached name) \<and> name \<noteq> [] \<and> length name \<le> 255 \<and> relative \<noteq> []
       \<and> om_get (t_collections (de_store d)) name = None"
    and "distinct (map fst ds)" and "om_wf (t_collections (de_store d))" and "log_sequence (de_store d) + int (length ds) < 2 ^ 63"
  shows "\<exists>ps d'. attach_collections V J cfg home ds d = (Inr ps, d') \<and> map fst ps = map fst ds
    \<and> roster_revisions (de_store d') = roster_revisions (de_store d)"
  using assms(4-7)
proof (induction ds arbitrary: d)
  case Nil
  then show ?case by simp
next
  case (Cons nr ds)
  obtain name relative where nr: "nr = (name, relative)" by (cases nr)
  have entry: "loggable J (CollectionAttached name)" "name \<noteq> []" "length name \<le> 255" "path_join home (as_bytes relative) \<noteq> []"
      "om_get (t_collections (de_store d)) name = None" "log_sequence (de_store d) < 2 ^ 63 - 1"
    using Cons.prems(1,4) by (auto simp: nr path_join_def as_bytes_def)
  obtain root d1 where d1: "attach_new V J cfg name (path_join home (as_bytes relative)) d = (Inr (path_join home (as_bytes relative)), d1)"
      "t_collections (de_store d1) = om_insert name (new_row (path_join home (as_bytes relative)) root) (t_collections (de_store d))"
      "roster_revisions (de_store d1) = roster_revisions (de_store d)" "log_sequence (de_store d1) = log_sequence (de_store d) + 1"
    by (rule attach_new_succeeds [OF assms(1,2) entry(1-4) assms(3) entry(5,6)])
  have "\<forall>(n, r) \<in> set ds. loggable J (CollectionAttached n) \<and> n \<noteq> [] \<and> length n \<le> 255 \<and> r \<noteq> []
      \<and> om_get (t_collections (de_store d1)) n = None"
    using Cons.prems(1-3) by (force simp: nr d1(2) om_get_insert image_iff)
  moreover have "distinct (map fst ds)" "om_wf (t_collections (de_store d1))" "log_sequence (de_store d1) + int (length ds) < 2 ^ 63"
    using Cons.prems(2-4) by (simp_all add: d1(2,4) om_wf_insert)
  ultimately obtain ps d' where d': "attach_collections V J cfg home ds d1 = (Inr ps, d')" "map fst ps = map fst ds"
      "roster_revisions (de_store d') = roster_revisions (de_store d1)"
    using Cons.IH by blast
  have "collection_named name (de_store d) = Inr None" using entry(5) by (simp add: collection_named_def)
  then show ?case using d1(1,3) d' by (simp add: nr bindS_def on_store_def)
qed

lemma genesis_group:
  assumes "sig_correct C" and "identity_ok C identity" and "\<not> trim_is_empty name" and "length name < 2 ^ 32" and "is_str name"
  obtains g where "genesis C gid name identity = Inr g" "rr_members g = [(endpoint_id identity, name)]" "storable g" "rr_number g = 0"
    "validate_genesis C g = Inr ()"
proof -
  have name: "validate_device_name name = Inr ()" using assms(3,4) by (simp add: validate_device_name_Inr)
  let ?u = "\<lparr>rr_group_id = gid, rr_number = 0, rr_parent_hash = None, rr_members = [(endpoint_id identity, name)],
      rr_change = Initialize \<lparr>mem_endpoint_id = endpoint_id identity, mem_device_name = name\<rparr>, rr_author = endpoint_id identity,
      rr_signature = 0\<rparr>"
  let ?g = "?u\<lparr>rr_signature := identity_sign C identity (unsigned_canonical_bytes ?u)\<rparr>"
  have unsigned: "unsigned_canonical_bytes ?g = unsigned_canonical_bytes ?u"
    by (simp add: unsigned_canonical_bytes_def unsigned_encode_def)
  have valid: "validate_genesis C ?g = Inr ()"
    using identity_signature_verifies [OF assms(1,2)] unsigned by (simp add: validate_genesis_Inr verify_signature_Inr)
  then have "genesis C gid name identity = Inr ?g" by (simp add: genesis_def roster_member_new_def name Let_def)
  moreover have wf: "roster_wf ?g"
    using name assms(5) by (simp add: roster_wf_def members_ok_def change_ok_def name_ok_def)
  then have "storable ?g"
    using wf assms(4) by (simp add: storable_def roster_canonical_bytes_eq unsigned_body_def ROSTER_DOMAIN_def parent_bytes_def
        member_bytes_def change_bytes_def)
  ultimately show ?thesis using that valid by simp
qed

lemma loaded_identity_ok: "settled C d w \<Longrightarrow> identity_ok C d"
  by (auto simp: settled_def source_ok_def identity_from_slice_def identity_from_secret_ok split: if_splits)

lemma default_names:
  "distinct (map fst DEFAULT_COLLECTIONS)" "length DEFAULT_COLLECTIONS = 3"
  "(name, relative) \<in> set DEFAULT_COLLECTIONS \<Longrightarrow> name \<noteq> [] \<and> length name \<le> 255 \<and> relative \<noteq> []"
  by (auto simp: DEFAULT_COLLECTIONS_def)

text \<open>
  On a new device the first setup starts a group: with a valid configuration and when no call fails, it creates an
  identity, stores a roster whose genesis lists this device alone, under the configured name, and attaches the three
  default collections.
\<close>

lemma setup_starts_group:
  assumes cfg: "config_validate cfg = Inr ()" and name: "is_str (dc_name (cg_device cfg))" "length (dc_name (cg_device cfg)) < 2 ^ 32"
    and V: "setup_faultless V" "\<And>n p. sv_canonicalize V n p \<noteq> None" "\<And>n. sv_group V n \<noteq> None"
    and C: "sig_correct C" and keys: "load_or_create (sv_keys V) C (de_keys d) = (Inr identity, k)" "key_kept (de_keys d) (de_keys d)"
    and s: "migrate (de_store d) = (Inr (), s)" "roster_revisions s = []" "t_collections s = []" "log_sequence s + 3 < 2 ^ 63"
    and J: "\<forall>(name, relative) \<in> set DEFAULT_COLLECTIONS. loggable J (CollectionAttached name)"
  shows "\<exists>g res d1. setup_device V C J paths cfg d = (Inr res, d1) \<and> selected_roster_chain C (de_store d1) = Inr [g]
    \<and> rr_members g = [(endpoint_id identity, dc_name (cg_device cfg))]
    \<and> sr_created res \<and> sr_endpoint_id res = endpoint_id identity \<and> sr_device_name res = dc_name (cg_device cfg)
    \<and> map fst (sr_collections res) = [''.agents'', ''.claude'', ''.codex'']"
proof -
  have me: "identity_ok C identity" using load_settles [OF keys] by (rule loaded_identity_ok)
  have trim: "\<not> trim_is_empty (dc_name (cg_device cfg))" and max: "lg_max_entries (cg_logging cfg) < 2 ^ 63"
    using cfg by (auto simp: config_validate_def bindE_eq_Inr Let_def split: if_splits)
  obtain home where home: "sv_home V = Some home" using V(1) by (auto simp: setup_faultless_def)
  define d4 where "d4 = d\<lparr>de_dirs := pp_runtime_dir paths # pp_data_dir paths # de_dirs d, de_ticks := Suc (Suc (de_ticks d)),
      de_keys := k, de_store := s\<rparr>"
  obtain gid where gid: "sv_group V (de_ticks d4) = Some gid" using V(3) by blast
  obtain g where g: "genesis C gid (dc_name (cg_device cfg)) identity = Inr g"
      "rr_members g = [(endpoint_id identity, dc_name (cg_device cfg))]" "storable g" "rr_number g = 0" "validate_genesis C g = Inr ()"
    by (rule genesis_group [OF C me trim name(2,1)])
  obtain s5 where s5: "insert_roster_revision_row C g s = Inr s5"
    by (rule insert_row_ok [of C s g]) (use s(2) g(3) in simp_all)
  note s5_facts = insert_genesis_ok [OF s(2) g(3,5) s5] insert_row_Inr [OF s5]
  define d5 where "d5 = d4\<lparr>de_store := s5, de_ticks := Suc (de_ticks d4)\<rparr>"
  have started: "start_group V C cfg identity d4 = (Inr (), d5)"
    using g(4,5) s(2) s5 by (simp add: start_group_def group_generate_def device_tick_def bindS_def gid g(1) on_store_def
        insert_roster_revision_def transactionS_def d5_def) (simp add: d4_def)
  have "\<forall>(name, relative) \<in> set DEFAULT_COLLECTIONS. loggable J (CollectionAttached name) \<and> name \<noteq> [] \<and> length name \<le> 255
      \<and> relative \<noteq> [] \<and> om_get (t_collections (de_store d5)) name = None"
    using J default_names(3) s(3) s5_facts(2) by (fastforce simp: d5_def)
  moreover have "om_wf (t_collections (de_store d5))" "log_sequence (de_store d5) + int (length DEFAULT_COLLECTIONS) < 2 ^ 63"
    using s(3,4) s5_facts(2) by (simp_all add: d5_def default_names)
  ultimately obtain ps d6 where d6: "attach_collections V J cfg home DEFAULT_COLLECTIONS d5 = (Inr ps, d6)"
      "map fst ps = map fst DEFAULT_COLLECTIONS" "roster_revisions (de_store d6) = roster_revisions (de_store d5)"
    using attach_succeeds [OF V(1,2) max _ default_names(1)] by blast
  have chain: "selected_roster_chain C (de_store d6) = Inr [g]"
  proof -
    have "selected_roster_chain C (de_store d6) = selected_roster_chain C s5"
      using d6(3) by (intro selected_chain_cong) (simp add: d5_def)
    moreover have "selected_roster_chain C s5 = Inr [g]"
    proof -
      have only: "stored C s5 r \<Longrightarrow> r = g" for r
        using s5_facts(2) s(2) by (auto simp: stored_def hash_bytes_inj split: if_splits dest: storable_bytes_inj [OF _ g(3)])
      obtain cs where cs: "selected_roster_chain C s5 = Inr (g # select_chain_from C g cs)" "set cs = {r. stored C s5 r} - {g}"
        by (rule selected_chain_ok [of C s5 g]) (use s5_facts(1) in \<open>auto simp: roster_ok_def\<close>)
      have "cs = []" using cs(2) only by (cases cs) auto
      moreover have "select_chain_from C g [] = []" by (intro select_chain_from_Nil) (simp add: select_child_None)
      moreover note cs(1)
      ultimately show ?thesis by simp
    qed
    ultimately show ?thesis by simp
  qed
  have "selected_roster_chain C (de_store d4) = Inr []" using s(2) selected_chain_empty [of s C] by (simp add: d4_def)
  then have "setup_device V C J paths cfg d = (Inr \<lparr>sr_device_name = dc_name (cg_device cfg), sr_endpoint_id = endpoint_id identity,
      sr_collections = ps, sr_created = True\<rparr>, d6)"
    using cfg keys(1) s(1) chain g(2)
    by (simp add: setup_device_def bindS_def faultless_dirs [OF V(1)] on_keys_def on_store_def Let_def d4_def [symmetric] started
        attach_default_collections_def home d6(1) tip_name_def tip_of_def)
  with chain g(2) d6(2) show ?thesis by (simp add: DEFAULT_COLLECTIONS_def)
qed

section \<open>A sample device\<close>

definition sample_setup :: setup_env where
  "sample_setup = \<lparr>sv_keys = sample_keys (\<lambda>_. None), sv_home = Some (as_bytes ''/h''), sv_io = (\<lambda>_. False),
     sv_canonicalize = (\<lambda>_ p. Some p), sv_group = (\<lambda>_. Some 9), sv_clock = (\<lambda>_. Inr 0)\<rparr>"

definition sample_device :: device where
  "sample_device = \<lparr>de_keys = \<lparr>kw_files = [], kw_keyring = [], kw_ticks = 0\<rparr>, de_store = fresh_database, de_dirs = [], de_ticks = 0\<rparr>"

definition sample_paths :: PlatformPaths where
  "sample_paths = \<lparr>pp_config_file = as_bytes ''/h/c'', pp_data_dir = as_bytes ''/h/d'', pp_runtime_dir = as_bytes ''/h/r''\<rparr>"

lemma sample_setup_faultless: "setup_faultless sample_setup"
  by (simp add: setup_faultless_def sample_setup_def faultless_def sample_keys_def)

lemma default_config_valid: "config_validate default_config = Inr ()"
proof -
  have "\<not> trim_is_empty ''device''" by code_simp
  then show ?thesis
    by (simp add: config_validate_def default_config_def default_device_def default_joining_def default_iroh_def default_sync_def
        default_logging_def as_secs_def from_secs_def Let_def)
qed

lemma sample_started:
  "\<exists>g res d1. setup_device sample_setup sample_crypto sample_json sample_paths default_config sample_device = (Inr res, d1)
    \<and> selected_roster_chain sample_crypto (de_store d1) = Inr [g] \<and> rr_members g = [(5, ''device'')] \<and> sr_created res"
proof -
  obtain k where k: "load_or_create (sv_keys sample_setup) sample_crypto (de_keys sample_device)
      = (Inr \<lparr>signing_key = 5, endpoint_id = 5\<rparr>, k)"
    using sample_created by (metis prod.collapse sample_setup_def sample_device_def setup_env.select_convs(1) device.select_convs(1))
  obtain s where s: "migrate fresh_database = (Inr (), s)" "user_version s = 1"
      "s = fresh_database\<lparr>user_version := 1, application_id := SCHEMA_APPLICATION_ID, sqlite_schema := SCHEMA_TABLES\<rparr>"
    by (rule migrate_fresh)
  have name: "dc_name (cg_device default_config) = ''device''" by (simp add: default_config_def default_device_def)
  have "is_str ''device''" by (rule is_str_ascii) simp
  moreover have "\<forall>(name, relative) \<in> set DEFAULT_COLLECTIONS. loggable sample_json (CollectionAttached name)"
    by (simp add: loggable_def sample_json_def DEFAULT_COLLECTIONS_def check_log_row_def validate_operational_event_def event_subject_def)
  ultimately show ?thesis
    using setup_starts_group [OF default_config_valid _ _ sample_setup_faultless _ _ sample_sig_correct k, of s sample_json sample_paths]
      s by (auto simp: name sample_setup_def sample_device_def key_kept_def fresh_database_def)
qed

theorem setup_repeatable_witness:
  "\<exists>res d1. setup_device sample_setup sample_crypto sample_json sample_paths default_config sample_device = (Inr res, d1)
    \<and> fst (setup_device sample_setup sample_crypto sample_json sample_paths default_config d1) = Inr (res\<lparr>sr_created := False\<rparr>)"
proof -
  obtain res d1 where run: "setup_device sample_setup sample_crypto sample_json sample_paths default_config sample_device = (Inr res, d1)"
    using sample_started by blast
  have "om_wf (kw_files (de_keys sample_device))" "om_wf (kw_keyring (de_keys sample_device))"
      "om_wf (t_collections (de_store sample_device))"
    by (simp_all add: sample_device_def fresh_database_def)
  from setup_repeatable [OF this run setup_runs.none] sample_setup_faultless run show ?thesis by blast
qed

theorem setup_keeps_group_witness:
  "\<exists>res d1. setup_device sample_setup sample_crypto sample_json sample_paths default_config sample_device = (Inr res, d1)
    \<and> roster_revisions (de_store (snd (setup_device sample_setup sample_crypto sample_json sample_paths default_config d1)))
      = roster_revisions (de_store d1)"
proof -
  obtain res d1 g where run: "setup_device sample_setup sample_crypto sample_json sample_paths default_config sample_device = (Inr res, d1)"
      "selected_roster_chain sample_crypto (de_store d1) = Inr [g]"
    using sample_started by blast
  then have "roster_revisions (de_store d1) \<noteq> []" using selected_chain_empty [of "de_store d1" sample_crypto] by auto
  with setup_keeps_group [of d1] run(1) show ?thesis by blast
qed

end
