(* ===== verification/Network_Peers.thy ===== *)
theory Network_Peers
  imports Device_Setup Join_Completion
begin

text \<open>
  \<open>network.rs\<close>, what the network worker decides about peers: the approval of a join request, in which the roster is
  changed and the answer to the joining device is built; the removal of a peer; whom to dial and under which address;
  and what the outcome of a session leaves behind. The worker's command channel is the list of the commands in it.
\<close>

section \<open>Errors and state\<close>

datatype NetworkError =
    Runtime
  | StartupTimeout
  | Stopped
  | Busy
  | SyncTimeout
  | ThreadPanicked
  | IdentityMismatch
  | InvalidRelayUrl
  | InvalidAddressLookupUrl
  | Bind string
  | Connect string
  | ConnectTimeout
  | MissingRoster
  | CannotRemoveSelf
  | MemberNameMismatch
  | RemovedMember
  | State StateError
  | Sync SyncError
  | Json
  | Io
  | Join JoinError
  | Roster RosterError
  | Setup SetupError

text \<open>A waiter of \<open>Sync\<close> or \<open>Shutdown\<close> is the number of its channel.\<close>

datatype NetworkCommand = Trigger | SyncCommand nat | Shutdown nat

definition COMMAND_CAPACITY :: nat where "COMMAND_CAPACITY = 8"

record network =
  nw_keys :: key_world
  nw_store :: StateStore
  nw_joins :: coordinator
  nw_endpoint_addr :: "EndpointAddr option"
  nw_commands :: "NetworkCommand list"

text \<open>What the operations depend on besides the state.\<close>

record network_env =
  ne_keys :: key_env
  ne_joins :: join_env
  ne_peer :: peer_env
  ne_codec :: join_codec
  ne_crypto :: crypto

type_synonym 'a network_action = "(network, NetworkError, 'a) action"
type_synonym 'a peers_action = "(StateStore, NetworkError, 'a) action"

definition on_joins :: "'a join_action \<Rightarrow> 'a network_action" where
  "on_joins m w = (case m (nw_joins w) of (r, c) \<Rightarrow> (mapErr Join r, w\<lparr>nw_joins := c\<rparr>))"

definition on_peers :: "'a peers_action \<Rightarrow> 'a network_action" where
  "on_peers m w = (case m (nw_store w) of (r, s) \<Rightarrow> (r, w\<lparr>nw_store := s\<rparr>))"

definition network_identity :: "network_env \<Rightarrow> DeviceIdentity network_action" where
  "network_identity V w = (case load_or_create (ne_keys V) (ne_crypto V) (nw_keys w) of
     (r, k) \<Rightarrow> (mapErr (\<lambda>e. Setup (Identity e)) r, w\<lparr>nw_keys := k\<rparr>))"

definition pdb :: "(StateStore, StateError, 'a) action \<Rightarrow> 'a peers_action" where
  "pdb m = mapErrS NetworkError.State m"

definition pquery :: "(StateStore \<Rightarrow> StateError + 'a) \<Rightarrow> 'a peers_action" where
  "pquery q = pdb (queryS q)"

section \<open>Commands\<close>

definition trigger :: "unit network_action" where
  "trigger w = (Inr (), if length (nw_commands w) < COMMAND_CAPACITY then w\<lparr>nw_commands := nw_commands w @ [Trigger]\<rparr> else w)"

text \<open>The channel of the answer is the argument; a worker that stopped has no queue.\<close>

definition start_sync :: "bool \<Rightarrow> nat \<Rightarrow> unit network_action" where
  "start_sync stopped waiter w =
    (if stopped then (Inl Stopped, w)
     else if length (nw_commands w) < COMMAND_CAPACITY then (Inr (), w\<lparr>nw_commands := nw_commands w @ [SyncCommand waiter]\<rparr>)
     else (Inl Busy, w))"

definition endpoint_addr_json :: "network_env \<Rightarrow> string network_action" where
  "endpoint_addr_json V w =
    (bindE (ok_or Stopped (nw_endpoint_addr w)) (\<lambda>addr. ok_or Json (pe_addr_to_string (ne_peer V) addr)), w)"

definition activate_invitation :: "network_env \<Rightarrow> bytes32 \<Rightarrow> nat \<Rightarrow> unit network_action" where
  "activate_invitation V nonce lifetime = on_joins (activate (ne_joins V) nonce lifetime)"

definition pending_join :: "network_env \<Rightarrow> PendingJoinInfo option network_action" where
  "pending_join V = on_joins (pending (ne_joins V))"

section \<open>Peers and their addresses\<close>

definition decode_peer_hint :: "peer_env \<Rightarrow> string \<Rightarrow> EndpointId \<Rightarrow> EndpointAddr option" where
  "decode_peer_hint N encoded peer =
    (if encoded = [] \<or> length encoded > MAX_ADDRESS_HINT_BYTES then None
     else case pe_addr_from_str N encoded of
         None \<Rightarrow> None
       | Some addr \<Rightarrow> if ea_id addr \<noteq> peer \<or> length (ea_addrs addr) > MAX_ENDPOINT_ADDRS then None else Some addr)"

definition active_peers :: "crypto \<Rightarrow> EndpointId \<Rightarrow> EndpointId list peers_action" where
  "active_peers C local_endpoint =
    bindS (pdb migrate) (\<lambda>_.
    bindS (pquery (selected_roster_chain C)) (\<lambda>chain.
    bindS (liftS (ok_or MissingRoster (tip_of chain))) (\<lambda>tip.
    returnS (filter (\<lambda>peer. peer \<noteq> local_endpoint) (map fst (rr_members tip))))))"

definition peer_target :: "peer_env \<Rightarrow> EndpointId \<Rightarrow> EndpointAddr peers_action" where
  "peer_target N peer =
    bindS (pdb migrate) (\<lambda>_.
    bindS (pquery (peer_hint peer)) (\<lambda>hint.
    returnS (case (case hint of Some h \<Rightarrow> decode_peer_hint N h peer | None \<Rightarrow> None) of
        Some addr \<Rightarrow> addr
      | None \<Rightarrow> \<lparr>ea_id = peer, ea_addrs = []\<rparr>)))"

section \<open>The approval of a join request\<close>

primrec member_hints ::
  "peer_env \<Rightarrow> StateStore \<Rightarrow> EndpointId \<Rightarrow> EndpointId \<Rightarrow> string \<Rightarrow> EndpointId list \<Rightarrow> (string, string) omap
     \<Rightarrow> NetworkError + (string, string) omap" where
  "member_hints N s joiner me local_addr_json [] found = Inr found"
| "member_hints N s joiner me local_addr_json (endpoint # endpoints) found =
    (if endpoint = joiner then member_hints N s joiner me local_addr_json endpoints found
     else
       bindE (if endpoint = me then Inr (Some local_addr_json)
              else bindE (mapErr NetworkError.State (peer_hint endpoint s)) (\<lambda>hint.
                Inr (case hint of Some h \<Rightarrow> if decode_peer_hint N h endpoint \<noteq> None then Some h else None | None \<Rightarrow> None))) (\<lambda>hint.
       member_hints N s joiner me local_addr_json endpoints
         (case hint of Some h \<Rightarrow> om_insert (endpoint_to_string endpoint) h found | None \<Rightarrow> found)))"

definition approval_peer_hints ::
  "crypto \<Rightarrow> peer_env \<Rightarrow> StateStore \<Rightarrow> PendingJoinInfo \<Rightarrow> DeviceIdentity \<Rightarrow> string \<Rightarrow> NetworkError + (string, string) omap" where
  "approval_peer_hints C N s joining identity local_addr_json =
    bindE (mapErr NetworkError.State (selected_roster_chain C s)) (\<lambda>roster.
    bindE (ok_or MissingRoster (tip_of roster)) (\<lambda>tip.
    member_hints N s (ji_endpoint_id joining) (endpoint_id identity) local_addr_json (map fst (rr_members tip)) []))"

text \<open>The admission of a device that is not a member; nothing is stored unless its answer would be accepted.\<close>

definition admit ::
  "crypto \<Rightarrow> peer_env \<Rightarrow> join_codec \<Rightarrow> DeviceIdentity \<Rightarrow> PendingJoinInfo \<Rightarrow> string \<Rightarrow> RosterRevision list \<Rightarrow> RosterRevision
     \<Rightarrow> (string, string) omap \<Rightarrow> unit peers_action" where
  "admit C N K identity joining joiner_addr roster tip offered_hints =
    bindS (liftS (mapErr NetworkError.Roster (roster_member_new (ji_endpoint_id joining) (ji_device_name joining)))) (\<lambda>member.
    bindS (liftS (mapErr NetworkError.Roster (child C tip (Admit member) identity))) (\<lambda>candidate.
    bindS (liftS (mapErr Join (approved_decision N K (roster @ [candidate]) offered_hints))) (\<lambda>_.
    bindS (pdb (apply_roster_change_with_peer_hint C identity (Admit member) (ji_endpoint_id joining) joiner_addr)) (\<lambda>_.
    returnS ()))))"

text \<open>The answer is built from what is stored after the change.\<close>

definition answer :: "crypto \<Rightarrow> peer_env \<Rightarrow> join_codec \<Rightarrow> DeviceIdentity \<Rightarrow> string \<Rightarrow> PendingJoinInfo \<Rightarrow> JoinDecision peers_action" where
  "answer C N K identity local_addr_json joining =
    bindS (pquery (selected_roster_chain C)) (\<lambda>roster.
    if (case tip_of roster of None \<Rightarrow> None | Some tip \<Rightarrow> om_get (rr_members tip) (ji_endpoint_id joining))
       \<noteq> Some (ji_device_name joining)
    then throwS MemberNameMismatch
    else
      bindS (\<lambda>s. (approval_peer_hints C N s joining identity local_addr_json, s)) (\<lambda>offered_hints.
      liftS (mapErr Join (approved_decision N K roster offered_hints))))"

definition approve ::
  "crypto \<Rightarrow> peer_env \<Rightarrow> join_codec \<Rightarrow> DeviceIdentity \<Rightarrow> string \<Rightarrow> PendingJoinInfo \<Rightarrow> string \<Rightarrow> JoinDecision peers_action" where
  "approve C N K identity local_addr_json joining joiner_addr =
    bindS (pdb migrate) (\<lambda>_.
    bindS (pquery (selected_roster_chain C)) (\<lambda>roster.
    bindS (liftS (ok_or MissingRoster (tip_of roster))) (\<lambda>tip.
    let active_name = om_get (rr_members tip) (ji_endpoint_id joining) in
    if (case active_name of Some name \<Rightarrow> name \<noteq> ji_device_name joining | None \<Rightarrow> False) then throwS MemberNameMismatch
    else if active_name = None \<and> list_ex (\<lambda>revision. om_contains (rr_members revision) (ji_endpoint_id joining)) roster
    then throwS RemovedMember
    else
      bindS (\<lambda>s. (approval_peer_hints C N s joining identity local_addr_json, s)) (\<lambda>offered_hints.
      bindS (if active_name = None then admit C N K identity joining joiner_addr roster tip offered_hints
             else pdb (replace_peer_hint (ji_endpoint_id joining) joiner_addr)) (\<lambda>_.
      answer C N K identity local_addr_json joining)))))"

definition build_join_approval_in :: "network_env \<Rightarrow> string \<Rightarrow> PendingJoinInfo \<Rightarrow> string \<Rightarrow> JoinDecision network_action" where
  "build_join_approval_in V local_addr_json joining joiner_addr =
    bindS (network_identity V) (\<lambda>identity.
    on_peers (approve (ne_crypto V) (ne_peer V) (ne_codec V) identity local_addr_json joining joiner_addr))"

definition build_join_approval :: "network_env \<Rightarrow> string \<Rightarrow> JoinDecision network_action" where
  "build_join_approval V request_id =
    bindS (on_joins (pending_addr (ne_joins V) request_id)) (\<lambda>(joining, joiner_addr).
    bindS (endpoint_addr_json V) (\<lambda>local_addr_json.
    build_join_approval_in V local_addr_json joining joiner_addr))"

definition decide_join :: "network_env \<Rightarrow> string \<Rightarrow> bool \<Rightarrow> unit network_action" where
  "decide_join V request_id approved =
    (if \<not> approved then on_joins (decide (ne_joins V) request_id JoinDecision.Rejected)
     else (\<lambda>w. case build_join_approval V request_id w of
         (Inl e, w') \<Rightarrow> (Inl e, snd (on_joins (decide (ne_joins V) request_id JoinDecision.Rejected) w'))
       | (Inr decision, w') \<Rightarrow>
           bindS (on_joins (decide (ne_joins V) request_id decision)) (\<lambda>_. trigger) w'))"

section \<open>The removal of a peer\<close>

definition remove_member :: "crypto \<Rightarrow> DeviceIdentity \<Rightarrow> EndpointId \<Rightarrow> bool peers_action" where
  "remove_member C identity peer =
    bindS (pdb migrate) (\<lambda>_.
    bindS (pquery (selected_roster_chain C)) (\<lambda>chain.
    bindS (liftS (ok_or MissingRoster (tip_of chain))) (\<lambda>tip.
    if \<not> om_contains (rr_members tip) peer then returnS False
    else bindS (pdb (apply_roster_change C identity (Remove peer))) (\<lambda>_. returnS True))))"

definition remove_peer :: "network_env \<Rightarrow> EndpointId \<Rightarrow> bool network_action" where
  "remove_peer V peer =
    bindS (network_identity V) (\<lambda>identity.
    if peer = endpoint_id identity then throwS CannotRemoveSelf
    else
      bindS (on_peers (remove_member (ne_crypto V) identity peer)) (\<lambda>removed.
      if \<not> removed then returnS False else bindS trigger (\<lambda>_. returnS True)))"

section \<open>Outcomes of sessions\<close>

datatype TaskDirection = Incoming | Outgoing

datatype TaskOutcome = Synchronized bool | Unreachable | Rejected bool | LocalFailure

record TaskResult =
  tr_peer :: "EndpointId option"
  tr_direction :: TaskDirection
  tr_outcome :: TaskOutcome

definition from_sync :: "SyncError + bool \<Rightarrow> TaskOutcome" where
  "from_sync result = (case result of
      Inr again \<Rightarrow> Synchronized again
    | Inl RosterChangedAndUnauthorizedPeer \<Rightarrow> Rejected True
    | Inl e \<Rightarrow> if is_local_failure e then LocalFailure
        else if \<not> is_connectivity_failure e then Rejected False else Unreachable)"

definition succeeded :: "TaskOutcome \<Rightarrow> bool" where
  "succeeded outcome = (case outcome of Synchronized _ \<Rightarrow> True | _ \<Rightarrow> False)"

definition reconcile_again :: "TaskOutcome \<Rightarrow> bool" where
  "reconcile_again outcome \<longleftrightarrow> outcome = Synchronized True \<or> outcome = Rejected True"

definition outcome_event :: "TaskOutcome \<Rightarrow> EndpointId \<Rightarrow> OperationalEvent" where
  "outcome_event outcome peer = (case outcome of
      Synchronized _ \<Rightarrow> PeerSynchronized peer
    | Unreachable \<Rightarrow> PeerUnreachable peer
    | Rejected _ \<Rightarrow> PeerRejected peer
    | LocalFailure \<Rightarrow> PeerSessionFailed peer)"

text \<open>Errors are ignored; the state is what the transactions have committed by then.\<close>

definition record_attempt :: "json \<Rightarrow> i64 \<Rightarrow> Config \<Rightarrow> EndpointId \<Rightarrow> StateStore \<Rightarrow> StateStore" where
  "record_attempt J now cfg peer s =
    snd (bindS migrate (\<lambda>_. append_log J now (PeerAttempted peer) (lg_max_entries (cg_logging cfg))) s)"

definition record_result :: "crypto \<Rightarrow> json \<Rightarrow> i64 \<Rightarrow> Config \<Rightarrow> EndpointId option \<Rightarrow> TaskOutcome \<Rightarrow> StateStore \<Rightarrow> StateStore" where
  "record_result C J now cfg peer outcome s = (case peer of None \<Rightarrow> s | Some peer \<Rightarrow>
     (case migrate s of (Inl e, s') \<Rightarrow> s' | (Inr _, s') \<Rightarrow>
       let event = outcome_event outcome peer;
           active = (case selected_roster_chain C s' of Inl e \<Rightarrow> False | Inr chain \<Rightarrow>
             (case tip_of chain of None \<Rightarrow> False | Some tip \<Rightarrow> om_contains (rr_members tip) peer))
       in if active then snd (record_peer_health J peer (succeeded outcome) now event (lg_max_entries (cg_logging cfg)) s')
          else if (case outcome of Rejected _ \<Rightarrow> True | _ \<Rightarrow> False)
          then snd (append_log J now event (lg_max_entries (cg_logging cfg)) s')
          else s'))"

end
