(* ===== verification/Network_Props.thy ===== *)
theory Network_Props
  imports Network_Peers Join_Instances
begin

text \<open>
  What the approval of a join request guarantees, and that a removal is final: an answer that is sent is one the joining
  device accepts, a request that is refused has changed no membership, and a removed device is not approved again.
\<close>

section \<open>The selected chain and the hints\<close>

lemma selected_roster_valid:
  assumes "roster_ok C s" and "selected_roster_chain C s = Inr chain" and "chain \<noteq> []"
  shows "validate_roster_chain C chain = Inr ()" and "\<forall>r \<in> set chain. roster_wf r"
proof -
  obtain g cs where g: "rooted C s g" "chain = g # select_chain_from C g cs" by (rule selected_chain_cases [OF assms])
  have links: "roster_links C (p # rs) = Inr () \<longleftrightarrow> linked C p rs" for p rs
    by (induction rs arbitrary: p) (auto simp: bindE_eq_Inr)
  show "validate_roster_chain C chain = Inr ()"
    using g select_chain_from_spec [of C g cs] by (simp add: validate_roster_chain_def links rooted_def)
  show "\<forall>r \<in> set chain. roster_wf r"
    using selected_chain_stored [OF assms(1,2)] by (auto simp: stored_def storable_def)
qed

lemma endpoint_text_inj: "endpoint_to_string e = endpoint_to_string e' \<longleftrightarrow> e = e'"
  using endpoint_text_roundtrip [of e] endpoint_text_roundtrip [of e'] by (metis sum.inject(2))

lemma member_hints_keys:
  "member_hints N s joiner me json es found = Inr m \<Longrightarrow> om_wf found \<Longrightarrow>
   om_wf m \<and> (\<forall>t h. om_get m t = Some h \<longrightarrow> om_get found t = Some h \<or> (\<exists>e \<in> set es. e \<noteq> joiner \<and> t = endpoint_to_string e))
     \<and> (me \<noteq> joiner \<longrightarrow> me \<in> set es \<or> om_contains found (endpoint_to_string me) \<longrightarrow> om_contains m (endpoint_to_string me))"
proof (induction es arbitrary: found)
  case Nil
  then show ?case by auto
next
  case (Cons e es)
  show ?case
  proof (cases "e = joiner")
    case True
    then show ?thesis using Cons.IH [of found] Cons.prems by auto
  next
    case False
    then obtain hint where hint: "member_hints N s joiner me json es
        (case hint of Some h \<Rightarrow> om_insert (endpoint_to_string e) h found | None \<Rightarrow> found) = Inr m" "e = me \<Longrightarrow> hint = Some json"
      using Cons.prems(1) by (auto simp: bindE_eq_Inr split: if_splits)
    show ?thesis
    proof (cases hint)
      case None
      then show ?thesis using Cons.IH [of found] Cons.prems(2) hint False by auto
    next
      case (Some h)
      have "om_wf (om_insert (endpoint_to_string e) h found)" using Cons.prems(2) by (rule om_wf_insert)
      from Cons.IH [OF _ this] hint(1) Some Cons.prems(2) False show ?thesis
        by (fastforce simp: om_get_insert om_contains_def split: if_splits)
    qed
  qed
qed

lemma member_hints_cong:
  assumes "\<And>e. e \<in> set es \<Longrightarrow> e \<noteq> joiner \<Longrightarrow> om_get (peer_hints s') (to_be_bytes e) = om_get (peer_hints s) (to_be_bytes e)"
  shows "member_hints N s' joiner me json es found = member_hints N s joiner me json es found"
  using assms
proof (induction es arbitrary: found)
  case Nil
  then show ?case by simp
next
  case (Cons e es)
  have "peer_hint e s' = peer_hint e s" if "e \<noteq> joiner" using Cons.prems [of e] that by (simp add: peer_hint_def)
  with Cons show ?case by simp
qed

lemma member_hints_skip:
  "member_hints N s joiner me json (filter (\<lambda>e. e \<noteq> joiner) es) found = member_hints N s joiner me json es found"
  by (induction es arbitrary: found) simp_all

lemma other_members: "filter (\<lambda>x. x \<noteq> e) (map fst (om_insert e v m)) = filter (\<lambda>x. x \<noteq> e) (map fst m)"
  by (induction m) auto

section \<open>Admission\<close>

lemma apply_once_hints:
  assumes "apply_roster_change_once C identity change (Some (e, hint)) s = (Inr (Some r), s')" and "om_wf (peer_hints s)"
    and "x \<noteq> to_be_bytes e"
  shows "om_get (peer_hints s') x = om_get (peer_hints s) x"
proof -
  have hints: "store_peer_hint (Some (e, hint)) a = Inr b \<Longrightarrow> peer_hints b = om_insert (to_be_bytes e) hint (peer_hints a)" for a b
    by (auto simp: store_peer_hint_def replace_peer_hint_in_Inr)
  have "peer_hints s' = om_insert (to_be_bytes e) hint (peer_hints s)"
    using assms(1) by (auto simp: apply_roster_change_once_def bindS_eq_Inr transactionS_eq_Inr bindE_eq_Inr Let_def
        dest!: hints insert_row_Inr split: if_splits)
  then show ?thesis using assms(2,3) by (simp add: om_get_insert)
qed

definition hints_kept :: "EndpointId \<Rightarrow> StateStore \<Rightarrow> StateStore \<Rightarrow> bool" where
  "hints_kept joiner s s' \<longleftrightarrow> (\<forall>e. e \<noteq> joiner \<longrightarrow> om_get (peer_hints s') (to_be_bytes e) = om_get (peer_hints s) (to_be_bytes e))"

lemma admitted_revision:
  assumes "child C p (Admit m) identity = Inr r" and "om_wf (rr_members p)"
  shows "rr_members r = om_insert (mem_endpoint_id m) (mem_device_name m) (rr_members p)"
    and "om_contains (rr_members p) (endpoint_id identity)" and "roster_change_is_satisfied r (Admit m)"
  using child_valid [OF assms(1)] child_satisfies [OF assms(2), of C r "Admit m"] assms(1)
  by (auto simp: validate_child_Inr apply_change_Inr child_def split: if_splits)

lemma admit_cases:
  assumes ok: "roster_ok C s" "om_wf (peer_hints s)" and sel: "selected_roster_chain C s = Inr chain" "chain \<noteq> []"
    and name: "is_str (ji_device_name joining)" and new: "om_get (rr_members (last chain)) (ji_endpoint_id joining) = None"
    and nc: "\<forall>r. child C (last chain) (Admit \<lparr>mem_endpoint_id = ji_endpoint_id joining, mem_device_name = ji_device_name joining\<rparr>) identity
        = Inr r \<longrightarrow> collision_free C s {r}"
    and run: "admit C N K identity joining joiner_addr chain (last chain) hints s = (res, s')"
  obtains (refused) e where "res = Inl e" "s' = s"
  | (admitted) r d where "res = Inr ()" "selected_roster_chain C s' = Inr (chain @ [r])" "roster_ok C s'"
      "rr_members r = om_insert (ji_endpoint_id joining) (ji_device_name joining) (rr_members (last chain))"
      "om_contains (rr_members (last chain)) (endpoint_id identity)"
      "approved_decision N K (chain @ [r]) hints = Inr d" "hints_kept (ji_endpoint_id joining) s s'"
proof -
  let ?m = "\<lparr>mem_endpoint_id = ji_endpoint_id joining, mem_device_name = ji_device_name joining\<rparr>"
  have wf: "roster_wf (last chain)" using selected_roster_valid(2) [OF ok(1) sel] sel(2) by simp
  then have ms: "om_wf (rr_members (last chain))" by (simp add: roster_wf_def members_ok_def)
  show ?thesis
  proof (cases "roster_member_new (ji_endpoint_id joining) (ji_device_name joining)")
    case (Inl e)
    with run show ?thesis by (intro refused) (auto simp: admit_def bindS_def)
  next
    case m: (Inr m)
    then have m_eq: "m = ?m" and nameok: "validate_device_name (ji_device_name joining) = Inr ()"
      by (auto simp: roster_member_new_def bindE_eq_Inr)
    show ?thesis
    proof (cases "child C (last chain) (Admit m) identity")
      case (Inl e)
      with run m show ?thesis by (intro refused) (auto simp: admit_def bindS_def)
    next
      case r: (Inr r)
      note adm = admitted_revision [OF r ms]
      show ?thesis
      proof (cases "approved_decision N K (chain @ [r]) hints")
        case (Inl e)
        with run m r show ?thesis by (intro refused) (auto simp: admit_def bindS_def)
      next
        case d: (Inr d)
        show ?thesis
        proof (cases "validate_peer_hint joiner_addr")
          case (Inl e)
          with run m r d show ?thesis
            by (intro refused) (auto simp: admit_def bindS_def pdb_def mapErrS_def apply_roster_change_with_peer_hint_def)
        next
          case (Inr u)
          have "encode_roster K (chain @ [r]) \<noteq> Inl x" for x using d by (auto simp: approved_decision_def bindE_def)
          then obtain enc where "encode_roster K (chain @ [r]) = Inr enc" by (cases "encode_roster K (chain @ [r])") auto
          then have fits: "roster_bundle_fits \<lparr>rb_revisions = chain @ [r]\<rparr>"
            by (auto simp: encode_roster_def bindE_eq_Inr roster_bundle_encode_Inr)
          have "members_ok (rr_members r)"
            using wf adm(1) m_eq nameok name
            by (auto simp: roster_wf_def members_ok_def name_ok_def om_wf_insert set_om_insert)
          moreover have "length (rr_members r) < 2 ^ 32" using fits by (simp add: roster_bundle_fits_def MAX_ROSTER_MEMBERS_def)
          moreover have "change_ok (rr_change r)"
            using child_valid [OF r] m_eq nameok name by (simp add: change_ok_def name_ok_def)
          ultimately have st: "storable r"
            using roster_bundle_fits_revision [OF fits, of r] by (simp add: storable_def roster_wf_def MAX_ROSTER_BYTES_def)
          have unsat: "\<not> roster_change_is_satisfied (last chain) (Admit m)"
            using new m_eq by (simp add: roster_change_is_satisfied_def om_contains_def)
          have hv: "hint_valid (Some (ji_endpoint_id joining, joiner_addr))" using Inr by (simp add: hint_valid_def)
          obtain s2 where s2: "apply_roster_change_once C identity (Admit m) (Some (ji_endpoint_id joining, joiner_addr)) s = (Inr (Some r), s2)"
              "selected_roster_chain C s2 = Inr (chain @ [r])" "roster_ok C s2"
            using apply_once_new [OF ok(1) sel unsat r st nc [rule_format, OF r [unfolded m_eq]] hv] by metis
          have "apply_roster_change_with_peer_hint C identity (Admit m) (ji_endpoint_id joining) joiner_addr s = (Inr r, s2)"
            using apply_loop_Some [OF s2(1)] Inr by (simp add: apply_roster_change_with_peer_hint_def bindS_def)
          then have "res = Inr ()" "s' = s2"
            using run m r d by (simp_all add: admit_def bindS_def pdb_def mapErrS_def)
          moreover have "hints_kept (ji_endpoint_id joining) s s2"
            using apply_once_hints [OF s2(1) ok(2)] by (simp add: hints_kept_def hash_bytes_inj)
          ultimately show ?thesis using s2(2,3) adm m_eq d by (intro admitted) simp_all
        qed
      qed
    qed
  qed
qed

section \<open>Approval\<close>

lemma migrate_peers: "migrate s = (r, s') \<Longrightarrow> roster_revisions s' = roster_revisions s \<and> peer_hints s' = peer_hints s"
  by (auto simp: migrate_def bindS_def transactionS_def create_tables_def bindE_def split: if_splits sum.splits)

lemma same_roster:
  assumes "roster_revisions s' = roster_revisions s"
  shows "selected_roster_chain C s' = selected_roster_chain C s" "roster_ok C s' = roster_ok C s" "collision_free C s' R = collision_free C s R"
  using assms selected_chain_cong [of s' s C] roster_ok_cong [of s' s C] by (auto simp: collision_free_def stored_def)

lemma approval_hints_cong:
  assumes "selected_roster_chain C s = Inr chain" and "chain \<noteq> []"
    and "selected_roster_chain C s' = Inr (chain @ [r])"
    and "rr_members r = om_insert (ji_endpoint_id joining) name (rr_members (last chain))" and "hints_kept (ji_endpoint_id joining) s s'"
  shows "approval_peer_hints C N s' joining identity json = approval_peer_hints C N s joining identity json"
proof -
  let ?h = "\<lambda>s es. member_hints N s (ji_endpoint_id joining) (endpoint_id identity) json es []"
  have "?h s' (map fst (rr_members r)) = ?h s (map fst (rr_members r))"
    by (rule member_hints_cong) (use assms(5) in \<open>simp add: hints_kept_def\<close>)
  also have "\<dots> = ?h s (filter (\<lambda>x. x \<noteq> ji_endpoint_id joining) (map fst (rr_members r)))" by (simp only: member_hints_skip)
  also have "\<dots> = ?h s (map fst (rr_members (last chain)))" unfolding assms(4) other_members by (simp only: member_hints_skip)
  finally show ?thesis using assms(1-3) by (simp add: approval_peer_hints_def tip_of_def)
qed

definition approvable :: "crypto \<Rightarrow> DeviceIdentity \<Rightarrow> PendingJoinInfo \<Rightarrow> RosterRevision list \<Rightarrow> StateStore \<Rightarrow> bool" where
  "approvable C identity joining chain s \<longleftrightarrow> roster_ok C s \<and> om_wf (peer_hints s) \<and> selected_roster_chain C s = Inr chain
     \<and> is_str (ji_device_name joining)
     \<and> (\<forall>r. chain \<noteq> [] \<longrightarrow> child C (last chain) (Admit \<lparr>mem_endpoint_id = ji_endpoint_id joining,
           mem_device_name = ji_device_name joining\<rparr>) identity = Inr r \<longrightarrow> collision_free C s {r})"

lemma answer_reads: "snd (answer C N K identity json joining s) = s"
  by (auto simp: answer_def bindS_def pquery_def pdb_def mapErrS_def split: sum.splits)

lemma answer_Inr:
  "answer C N K identity json joining s = (Inr d, s') \<longleftrightarrow> s' = s \<and> (\<exists>roster hints. selected_roster_chain C s = Inr roster \<and> roster \<noteq> []
     \<and> om_get (rr_members (last roster)) (ji_endpoint_id joining) = Some (ji_device_name joining)
     \<and> approval_peer_hints C N s joining identity json = Inr hints \<and> approved_decision N K roster hints = Inr d)"
  by (auto simp: answer_def bindS_eq_Inr pquery_def pdb_def mapErrS_def tip_of_def split: if_splits)

lemma replace_hint_roster: "replace_peer_hint e hint s = (r, s') \<Longrightarrow> roster_revisions s' = roster_revisions s"
  by (auto simp: replace_peer_hint_def bindS_def transactionS_def replace_peer_hint_in_Inr bindE_eq_Inr split: sum.splits prod.splits)

lemma approve_cases:
  assumes s: "approvable C identity joining chain s" and run: "approve C N K identity json joining joiner_addr s = (res, s')"
  obtains (refused) e where "res = Inl e" "roster_revisions s' = roster_revisions s"
  | (approved) d where "res = Inr d" "answer C N K identity json joining s' = (Inr d, s')" "roster_ok C s'" "chain \<noteq> []"
      "om_contains (rr_members (last chain)) (endpoint_id identity) \<Longrightarrow>
         \<exists>roster. selected_roster_chain C s' = Inr roster \<and> om_contains (rr_members (last roster)) (endpoint_id identity)"
      "om_get (rr_members (last chain)) (ji_endpoint_id joining) = None \<Longrightarrow>
         \<not> list_ex (\<lambda>revision. om_contains (rr_members revision) (ji_endpoint_id joining)) chain"
proof -
  let ?e = "ji_endpoint_id joining" and ?name = "ji_device_name joining"
  let ?former = "list_ex (\<lambda>revision. om_contains (rr_members revision) ?e) chain"
  obtain m s1 where s1: "migrate s = (m, s1)" by fastforce
  note frame = migrate_peers [OF s1]
  have roster1: "roster_revisions s1 = roster_revisions s" using frame by simp
  have sel: "selected_roster_chain C s1 = Inr chain" and ok: "roster_ok C s1" "om_wf (peer_hints s1)"
    using s same_roster [OF roster1, of C] frame by (simp_all add: approvable_def)
  define change where "change h = (if om_get (rr_members (last chain)) ?e = None then admit C N K identity joining joiner_addr chain (last chain) h
      else pdb (replace_peer_hint ?e joiner_addr))" for h
  show ?thesis
  proof (cases "m = Inr () \<and> chain \<noteq> [] \<and> om_get (rr_members (last chain)) ?e \<in> {None, Some ?name}
      \<and> (om_get (rr_members (last chain)) ?e = None \<longrightarrow> \<not> ?former) \<and> is_ok (approval_peer_hints C N s1 joining identity json)")
    case False
    then have "\<exists>e. res = Inl e \<and> s' = s1"
      using run sel by (cases m) (auto simp: approve_def bindS_def pdb_def pquery_def mapErrS_def s1 tip_of_def is_ok_def Let_def
          split: if_splits option.splits sum.splits)
    with roster1 show ?thesis using refused by blast
  next
    case True
    then obtain h where h: "approval_peer_hints C N s1 joining identity json = Inr h" by (auto simp: is_ok_iff)
    have rest: "bindS (change h) (\<lambda>_. answer C N K identity json joining) s1 = (res, s')"
      using run sel True h by (auto simp: approve_def bindS_def pdb_def pquery_def mapErrS_def s1 tip_of_def change_def Let_def
          split: if_splits option.splits)
    show ?thesis
    proof (cases "om_get (rr_members (last chain)) ?e")
      case None
      obtain r2 s2 where s2: "admit C N K identity joining joiner_addr chain (last chain) h s1 = (r2, s2)" by fastforce
      have nc: "\<forall>r. child C (last chain) (Admit \<lparr>mem_endpoint_id = ?e, mem_device_name = ?name\<rparr>) identity = Inr r
          \<longrightarrow> collision_free C s1 {r}"
        using s True same_roster(3) [OF roster1] by (auto simp: approvable_def)
      have name: "is_str ?name" using s by (simp add: approvable_def)
      have ne: "chain \<noteq> []" using True by simp
      show ?thesis
      proof (cases rule: admit_cases [OF ok sel ne name None nc s2, case_names refused admitted])
        case (refused e)
        then show ?thesis using rest s2 None roster1 that(1) [of e] by (simp add: change_def bindS_def)
      next
        case (admitted r d)
        have "approval_peer_hints C N s2 joining identity json = Inr h"
          using approval_hints_cong [OF sel ne admitted(2,4,7)] h by simp
        then have answer: "answer C N K identity json joining s2 = (Inr d, s2)"
          using admitted(2,4,6) s True
          by (simp add: answer_Inr om_get_insert) (use selected_roster_valid(2) [OF ok(1) sel ne] ne in
            \<open>simp add: roster_wf_def members_ok_def om_get_insert\<close>)
        have wf: "om_wf (rr_members (last chain))"
          using selected_roster_valid(2) [OF ok(1) sel ne] ne by (simp add: roster_wf_def members_ok_def)
        have "om_contains (rr_members r) (endpoint_id identity)"
          using admitted(4,5) wf by (simp add: om_contains_def om_get_insert)
        moreover have "res = Inr d" "s' = s2" using rest s2 None admitted(1) answer by (simp_all add: change_def bindS_def)
        ultimately show ?thesis using that(2) [of d] answer admitted(2,3) ne True None by auto
      qed
    next
      case (Some name)
      obtain r2 s2 where s2: "replace_peer_hint ?e joiner_addr s1 = (r2, s2)" by fastforce
      have roster2: "roster_revisions s2 = roster_revisions s1" by (rule replace_hint_roster [OF s2])
      note same = same_roster [OF roster2, of C]
      show ?thesis
      proof (cases r2)
        case (Inl e)
        with rest s2 Some have "res = Inl (NetworkError.State e)" "s' = s2" by (simp_all add: change_def bindS_def pdb_def mapErrS_def)
        then show ?thesis using that(1) roster1 roster2 by simp
      next
        case (Inr u)
        with rest s2 Some have res: "answer C N K identity json joining s2 = (res, s')"
          by (simp add: change_def bindS_def pdb_def mapErrS_def)
        then have s': "s' = s2" using answer_reads [of C N K identity json joining s2] by simp
        show ?thesis
        proof (cases res)
          case (Inl e)
          then show ?thesis using that(1) roster1 roster2 s' by simp
        next
          case (Inr d)
          then show ?thesis using that(2) [of d] res s' same ok sel True Some by auto
        qed
      qed
    qed
  qed
qed

text \<open>
  A join request is approved completely or not at all. When the approval fails, whatever the reason, no membership has
  changed: the selected roster is the one before. When it succeeds, the roster that was stored lists the joining device
  under the name it asked for.
\<close>

theorem approval_all_or_nothing:
  assumes "approvable C identity joining chain s" and "approve C N K identity json joining joiner_addr s = (res, s')"
  shows "(\<forall>e. res = Inl e \<longrightarrow> selected_roster_chain C s' = Inr chain)
    \<and> (\<forall>d. res = Inr d \<longrightarrow> (\<exists>roster. selected_roster_chain C s' = Inr roster \<and> roster \<noteq> []
         \<and> om_get (rr_members (last roster)) (ji_endpoint_id joining) = Some (ji_device_name joining)))"
proof (cases rule: approve_cases [OF assms, case_names refused approved])
  case (refused e)
  then show ?thesis using same_roster(1) [of s' s C] assms(1) by (simp add: approvable_def)
next
  case (approved d)
  then show ?thesis by (auto simp: answer_Inr)
qed

text \<open>
  What the inviting device answers is what the joining device accepts. When a member approves the request of another
  device, the answer passes every check of that device: it decodes to the chain that the inviting device now selects, the
  chain is valid and lists the joining device under its name and the inviter, and the address hints are those of members
  and contain the inviter's own.
\<close>

theorem approval_is_acceptable:
  assumes "approvable C identity joining chain s" and "codec_ok K"
    and "approve C N K identity json joining joiner_addr s = (Inr d, s')"
    and "om_contains (rr_members (last chain)) (endpoint_id identity)" and "ji_endpoint_id joining \<noteq> endpoint_id identity"
  shows "\<exists>roster hints. selected_roster_chain C s' = Inr roster
    \<and> check_response C N K (ji_endpoint_id joining) (endpoint_id identity) (ji_device_name joining) (response_of d) = Inr (roster, hints)"
proof (cases rule: approve_cases [OF assms(1,3), case_names refused approved])
  case (refused e)
  then show ?thesis by simp
next
  case (approved d')
  then have d': "d' = d" by simp
  obtain roster hints where a: "selected_roster_chain C s' = Inr roster" "roster \<noteq> []"
      "om_get (rr_members (last roster)) (ji_endpoint_id joining) = Some (ji_device_name joining)"
      "approval_peer_hints C N s' joining identity json = Inr hints" "approved_decision N K roster hints = Inr d"
    using approved(2) d' by (auto simp: answer_Inr)
  note valid = selected_roster_valid [OF approved(3) a(1,2)]
  have tip: "tip_of roster = Some (last roster)" using a(2) by (simp add: tip_of_def)
  have inviter: "om_contains (rr_members (last roster)) (endpoint_id identity)" using approved(5) assms(4) a(1) by auto
  have "member_hints N s' (ji_endpoint_id joining) (endpoint_id identity) json (map fst (rr_members (last roster))) [] = Inr hints"
    using a(1,2,4) by (simp add: approval_peer_hints_def tip_of_def)
  from member_hints_keys [OF this] have keys: "om_wf hints"
      "\<forall>t h. om_get hints t = Some h \<longrightarrow> (\<exists>e. e \<noteq> ji_endpoint_id joining \<and> t = endpoint_to_string e)"
      "om_contains hints (endpoint_to_string (endpoint_id identity))"
    using assms(5) inviter by (auto simp: om_contains_iff)
  have "list_all (\<lambda>h. endpoint_from_str (fst h) \<noteq> Inr (ji_endpoint_id joining)) hints"
  proof -
    have "endpoint_from_str t \<noteq> Inr (ji_endpoint_id joining)" if "(t, h) \<in> set hints" for t h
    proof -
      have "om_get hints t = Some h" using that keys(1) by (simp add: om_get_Some_iff)
      then obtain e where "e \<noteq> ji_endpoint_id joining" "t = endpoint_to_string e" using keys(2) by blast
      then show ?thesis using endpoint_text_roundtrip [of e] by simp
    qed
    then show ?thesis by (auto simp: list_all_iff)
  qed
  moreover have "list_ex (\<lambda>h. endpoint_from_str (fst h) = Inr (endpoint_id identity)) hints"
    using keys(3) endpoint_text_roundtrip [of "endpoint_id identity"] by (force simp: om_contains_iff list_ex_iff)
  ultimately have "check_response C N K (ji_endpoint_id joining) (endpoint_id identity) (ji_device_name joining) (response_of d)
      = Inr (roster, parsed_hints hints)"
    by (rule approval_accepted [OF assms(2) a(5) valid tip a(3) inviter])
  with a(1) show ?thesis by blast
qed

section \<open>Removal\<close>

lemma removal_run:
  assumes ok: "roster_ok C s" and sel: "selected_roster_chain C s = Inr chain"
    and nc: "\<forall>r. chain \<noteq> [] \<longrightarrow> child C (last chain) (Remove peer) identity = Inr r \<longrightarrow> collision_free C s {r} \<and> storable r"
    and run: "remove_member C identity peer s = (Inr True, s')"
  obtains r where "chain \<noteq> []" "om_contains (rr_members (last chain)) peer" "selected_roster_chain C s' = Inr (chain @ [r])" "roster_ok C s'"
    "\<not> om_contains (rr_members r) peer"
proof -
  obtain m s1 where s1: "migrate s = (m, s1)" by fastforce
  have roster1: "roster_revisions s1 = roster_revisions s" using migrate_peers [OF s1] by simp
  note same = same_roster [OF roster1, of C]
  have m: "m = Inr ()" and ne: "chain \<noteq> []" and member: "om_contains (rr_members (last chain)) peer"
    and changed: "\<exists>r. apply_roster_change C identity (Remove peer) s1 = (Inr r, s')"
    using run sel same by (auto simp: remove_member_def bindS_eq_Inr pdb_def pquery_def mapErrS_def s1 tip_of_def
        split: if_splits prod.splits)
  have sel1: "selected_roster_chain C s1 = Inr chain" and ok1: "roster_ok C s1" using same sel ok by simp_all
  have unsat: "\<not> roster_change_is_satisfied (last chain) (Remove peer)"
    using member by (simp add: roster_change_is_satisfied_def)
  obtain q where q: "child C (last chain) (Remove peer) identity = Inr q"
  proof (cases "child C (last chain) (Remove peer) identity")
    case (Inl e)
    have "apply_roster_change_once C identity (Remove peer) None s1 = (Inl (StateError.Roster e), s1)"
      using sel1 ne unsat Inl by (simp add: apply_roster_change_once_def bindS_def Let_def)
    then have "apply_roster_change C identity (Remove peer) s1 = (Inl (StateError.Roster e), s1)"
      by (simp add: apply_roster_change_def apply_roster_change_inner_def bindS_def)
    with changed show ?thesis by simp
  next
    case (Inr q)
    with that show ?thesis by blast
  qed
  have nc1: "collision_free C s1 {q}" "storable q" using nc [rule_format, OF ne q] same(3) by simp_all
  have hint: "hint_valid None" by (simp add: hint_valid_def)
  obtain s2 where s2: "apply_roster_change_once C identity (Remove peer) None s1 = (Inr (Some q), s2)"
      "selected_roster_chain C s2 = Inr (chain @ [q])" "roster_ok C s2" "roster_change_is_satisfied q (Remove peer)"
    using apply_once_new [OF ok1 sel1 ne unsat q nc1(2,1) hint] by metis
  have "apply_roster_change C identity (Remove peer) s1 = (Inr q, s2)"
    unfolding apply_roster_change_def by (rule apply_loop_Some [OF s2(1)])
  then have "s' = s2" using changed by simp
  with that ne member s2 show ?thesis by (simp add: roster_change_is_satisfied_def)
qed

text \<open>
  The removal of a peer is final on the device that made it. Once \<open>remove_peer\<close> has reported a removal, the selected
  roster does not list the peer, nobody dials it, and no request of it to join again is approved, under any name and by any
  identity: it is refused before anything is stored. The removal does not look at the limits of the wire format: after one
  that makes the chain longer than \<open>MAX_ROSTER_REVISIONS\<close> the chain can no longer be encoded for a peer.
\<close>

theorem removal_is_final:
  assumes "roster_ok C s" and "selected_roster_chain C s = Inr chain"
    and "\<forall>r. chain \<noteq> [] \<longrightarrow> child C (last chain) (Remove peer) identity = Inr r \<longrightarrow> collision_free C s {r} \<and> storable r"
    and "remove_member C identity peer s = (Inr True, s')"
  shows "(\<forall>me peers s''. active_peers C me s' = (Inr peers, s'') \<longrightarrow> peer \<notin> set peers)
    \<and> (\<forall>N K joiner json addr name request_id. \<exists>e.
         approve C N K joiner json \<lparr>ji_request_id = request_id, ji_endpoint_id = peer, ji_device_name = name\<rparr> addr s'
           = (Inl e, snd (migrate s')))
    \<and> (MAX_ROSTER_REVISIONS \<le> length chain \<longrightarrow>
         (\<exists>roster. selected_roster_chain C s' = Inr roster \<and> roster_bundle_encode \<lparr>rb_revisions = roster\<rparr> = Inl RosterLimit))"
proof -
  obtain r where r: "chain \<noteq> []" "om_contains (rr_members (last chain)) peer" "selected_roster_chain C s' = Inr (chain @ [r])"
      "roster_ok C s'" "\<not> om_contains (rr_members r) peer"
    by (rule removal_run [OF assms])
  obtain m s1 where s1: "migrate s' = (m, s1)" by fastforce
  have sel: "selected_roster_chain C s1 = Inr (chain @ [r])"
    using same_roster(1) [of s1 s' C] migrate_peers [OF s1] r(3) by simp
  have former: "list_ex (\<lambda>revision. om_contains (rr_members revision) peer) chain"
    using r(1,2) by (auto simp: list_ex_iff intro: bexI [of _ "last chain"])
  have "\<exists>e. approve C N K joiner json \<lparr>ji_request_id = request_id, ji_endpoint_id = peer, ji_device_name = name\<rparr> addr s' = (Inl e, s1)"
    for N K joiner json addr name request_id
    using r(5) former
    by (cases m) (simp_all add: approve_def bindS_def pdb_def pquery_def mapErrS_def s1 sel tip_of_def om_contains_def)
  moreover have "peer \<notin> set peers" if "active_peers C me s' = (Inr peers, s'')" for me peers s''
    using that r(5) by (cases m) (auto simp: active_peers_def bindS_def pdb_def pquery_def mapErrS_def s1 sel tip_of_def om_contains_iff)
  moreover have "roster_bundle_encode \<lparr>rb_revisions = chain @ [r]\<rparr> = Inl RosterLimit" if "MAX_ROSTER_REVISIONS \<le> length chain"
    using that by (simp add: roster_bundle_encode_def)
  ultimately show ?thesis using r(3) s1 by auto
qed

section \<open>A sample request\<close>

definition sample_joining :: PendingJoinInfo where
  "sample_joining = \<lparr>ji_request_id = ''r'', ji_endpoint_id = 3, ji_device_name = ''b''\<rparr>"

lemma sample_admission_child:
  "child sample_crypto sample_genesis (Admit \<lparr>mem_endpoint_id = 3, mem_device_name = ''b''\<rparr>) sample_identity = Inr sample_admission"
proof -
  have "child sample_crypto sample_genesis (Admit \<lparr>mem_endpoint_id = 3, mem_device_name = ''b''\<rparr>) sample_identity
      = bindE (validate_child sample_crypto sample_admission sample_genesis) (\<lambda>_. Inr sample_admission)"
    using name_ok_b
    by (simp add: child_def sample_genesis_def sample_identity_def identity_from_secret_def sample_crypto_def om_contains_def
        is_initialize_def apply_change_def name_ok_def u64_checked_add_def Let_def identity_sign_def sample_admission_def)
  then show ?thesis by (simp add: sample_admission_valid)
qed

lemma sample_admission_free: "collision_free sample_crypto sample_store {sample_admission}"
  using pair_roster_hashes by (simp add: collision_free_def sample_store_stored pair_roster_def insert_commute)

lemma sample_approvable: "approvable sample_crypto sample_identity sample_joining [sample_genesis] sample_store"
  using sample_store_ok(1) sample_store_chain name_ok_b sample_admission_free sample_admission_child
  by (simp add: approvable_def sample_joining_def name_ok_def) (simp add: sample_store_def fresh_database_def)

lemma sample_store_opens: "migrate sample_store = (Inr (), opened sample_store)"
  by (rule migrate_new) (simp_all add: sample_store_def fresh_database_def)

lemma sample_approved:
  obtains s' where "approve sample_crypto pair_peer pair_codec sample_identity ''inv'' sample_joining ''addr'' sample_store = (Inr pair_decision, s')"
proof -
  let ?s = "opened sample_store"
  let ?m = "\<lparr>mem_endpoint_id = 3, mem_device_name = ''b''\<rparr>"
  have roster: "roster_revisions ?s = roster_revisions sample_store" by (simp add: opened_def)
  note same = same_roster [OF roster, of sample_crypto]
  have sel: "selected_roster_chain sample_crypto ?s = Inr [sample_genesis]" using same(1) sample_store_chain by simp
  have hints: "approval_peer_hints sample_crypto pair_peer ?s sample_joining sample_identity ''inv'' = Inr pair_hints"
    by (simp add: approval_peer_hints_def sel tip_of_def) (simp add: sample_genesis_def sample_joining_def sample_identity_def
        identity_from_secret_def sample_crypto_def pair_hints_def)
  have st: "storable sample_admission" using sample_admission_wf sample_admission_length(1) by (simp add: storable_def)
  have addr: "validate_peer_hint ''addr'' = Inr ()" by (simp add: validate_peer_hint_Inr)
  have unsat: "\<not> roster_change_is_satisfied (last [sample_genesis]) (Admit ?m)"
    by (simp add: roster_change_is_satisfied_def sample_genesis_def om_contains_def)
  have child: "child sample_crypto (last [sample_genesis]) (Admit ?m) sample_identity = Inr sample_admission"
    using sample_admission_child by simp
  have hv: "hint_valid (Some (3, ''addr''))" using addr by (simp add: hint_valid_def)
  have ok: "roster_ok sample_crypto ?s" "collision_free sample_crypto ?s {sample_admission}"
    using same sample_store_ok(1) sample_admission_free by simp_all
  obtain s2 where s2: "apply_roster_change_once sample_crypto sample_identity (Admit ?m) (Some (3, ''addr'')) ?s = (Inr (Some sample_admission), s2)"
      "selected_roster_chain sample_crypto s2 = Inr pair_roster" "roster_ok sample_crypto s2"
    using apply_once_new [OF ok(1) sel _ unsat child st ok(2) hv] by (auto simp: pair_roster_def)
  have "apply_roster_change_with_peer_hint sample_crypto sample_identity (Admit ?m) 3 ''addr'' ?s = (Inr sample_admission, s2)"
    using apply_loop_Some [OF s2(1)] addr by (simp add: apply_roster_change_with_peer_hint_def bindS_def)
  moreover have "roster_member_new 3 ''b'' = Inr ?m" using name_ok_b by (simp add: roster_member_new_def name_ok_def)
  ultimately have admit: "admit sample_crypto pair_peer pair_codec sample_identity sample_joining ''addr'' [sample_genesis] sample_genesis pair_hints ?s
      = (Inr (), s2)"
    using sample_admission_child pair_approved
    by (simp add: admit_def bindS_def pdb_def mapErrS_def sample_joining_def pair_roster_def)
  have "om_wf (peer_hints ?s)" by (simp add: opened_def sample_store_def fresh_database_def)
  from apply_once_hints [OF s2(1) this] have kept: "hints_kept 3 ?s s2" by (simp add: hints_kept_def hash_bytes_inj)
  have members: "rr_members sample_admission = om_insert (ji_endpoint_id sample_joining) ''b'' (rr_members (last [sample_genesis]))"
    by (simp add: sample_admission_def sample_genesis_def sample_joining_def)
  have "approval_peer_hints sample_crypto pair_peer s2 sample_joining sample_identity ''inv'' = Inr pair_hints"
    using approval_hints_cong [OF sel _ _ members, of s2] s2(2) kept hints by (simp add: pair_roster_def sample_joining_def)
  then have "answer sample_crypto pair_peer pair_codec sample_identity ''inv'' sample_joining s2 = (Inr pair_decision, s2)"
    using s2(2) pair_approved pair_tip(2) by (simp add: answer_Inr sample_joining_def) (simp add: pair_roster_def)
  moreover have "om_get (rr_members sample_genesis) (ji_endpoint_id sample_joining) = None"
      "\<not> om_contains (rr_members sample_genesis) (ji_endpoint_id sample_joining)"
    by (simp_all add: sample_genesis_def sample_joining_def om_contains_def)
  ultimately have "approve sample_crypto pair_peer pair_codec sample_identity ''inv'' sample_joining ''addr'' sample_store = (Inr pair_decision, s2)"
    using admit hints by (simp add: approve_def bindS_def pdb_def pquery_def mapErrS_def sample_store_opens sel tip_of_def)
  then show ?thesis by (rule that)
qed

theorem approval_all_or_nothing_witness:
  "\<exists>s' roster. approve sample_crypto pair_peer pair_codec sample_identity ''inv'' sample_joining ''addr'' sample_store = (Inr pair_decision, s')
    \<and> selected_roster_chain sample_crypto s' = Inr roster \<and> om_get (rr_members (last roster)) 3 = Some ''b''"
proof -
  obtain s' where run: "approve sample_crypto pair_peer pair_codec sample_identity ''inv'' sample_joining ''addr'' sample_store = (Inr pair_decision, s')"
    by (rule sample_approved)
  from approval_all_or_nothing [OF sample_approvable run] run show ?thesis by (auto simp: sample_joining_def)
qed

theorem approval_is_acceptable_witness:
  "\<exists>s' roster hints. approve sample_crypto pair_peer pair_codec sample_identity ''inv'' sample_joining ''addr'' sample_store = (Inr pair_decision, s')
    \<and> selected_roster_chain sample_crypto s' = Inr roster
    \<and> check_response sample_crypto pair_peer pair_codec 3 5 ''b'' (response_of pair_decision) = Inr (roster, hints)"
proof -
  obtain s' where run: "approve sample_crypto pair_peer pair_codec sample_identity ''inv'' sample_joining ''addr'' sample_store = (Inr pair_decision, s')"
    by (rule sample_approved)
  have ids: "endpoint_id sample_identity = 5" "ji_endpoint_id sample_joining = 3" "ji_device_name sample_joining = ''b''"
    by (simp_all add: sample_identity_def identity_from_secret_def sample_crypto_def sample_joining_def)
  have "om_contains (rr_members (last [sample_genesis])) (endpoint_id sample_identity)"
    by (simp add: ids) (simp add: sample_genesis_def om_contains_def)
  moreover have "ji_endpoint_id sample_joining \<noteq> endpoint_id sample_identity" by (simp add: ids)
  ultimately show ?thesis using approval_is_acceptable [OF sample_approvable pair_codec_ok run] run unfolding ids by blast
qed

theorem removal_is_final_witness:
  "\<exists>s'. remove_member sample_crypto sample_identity 5 sample_store = (Inr True, s')
    \<and> (\<exists>e. approve sample_crypto pair_peer pair_codec sample_identity ''inv'' \<lparr>ji_request_id = ''r'', ji_endpoint_id = 5, ji_device_name = ''a''\<rparr>
         ''addr'' s' = (Inl e, snd (migrate s')))"
proof -
  let ?s = "opened sample_store"
  have roster: "roster_revisions ?s = roster_revisions sample_store" by (simp add: opened_def)
  note same = same_roster [OF roster, of sample_crypto]
  obtain r where r: "child sample_crypto sample_genesis (Remove 5) sample_identity = Inr r"
      "validate_child sample_crypto r sample_genesis = Inr ()" "rr_change r = Remove 5"
    by (rule sample_removal)
  note st = sample_removal_storable [OF r(2,3)]
  have nc: "collision_free sample_crypto sample_store {r}"
    using st(2) by (auto simp: collision_free_def sample_store_stored)
  have unsat: "\<not> roster_change_is_satisfied (last [sample_genesis]) (Remove 5)"
    by (simp add: roster_change_is_satisfied_def sample_genesis_def om_contains_def)
  have ok: "roster_ok sample_crypto ?s" "selected_roster_chain sample_crypto ?s = Inr [sample_genesis]" "collision_free sample_crypto ?s {r}"
    using same sample_store_ok(1) sample_store_chain nc by simp_all
  have child: "child sample_crypto (last [sample_genesis]) (Remove 5) sample_identity = Inr r" using r(1) by simp
  have hint: "hint_valid None" by (simp add: hint_valid_def)
  obtain s2 where s2: "apply_roster_change_once sample_crypto sample_identity (Remove 5) None ?s = (Inr (Some r), s2)"
    using apply_once_new [OF ok(1,2) _ unsat child st(1) ok(3) hint] by auto
  have "apply_roster_change sample_crypto sample_identity (Remove 5) ?s = (Inr r, s2)"
    unfolding apply_roster_change_def by (rule apply_loop_Some [OF s2])
  moreover have "om_contains (rr_members sample_genesis) 5" by (simp add: sample_genesis_def om_contains_def)
  ultimately have run: "remove_member sample_crypto sample_identity 5 sample_store = (Inr True, s2)"
    using ok(2) by (simp add: remove_member_def bindS_def pdb_def pquery_def mapErrS_def sample_store_opens tip_of_def)
  have "\<forall>q. [sample_genesis] \<noteq> [] \<longrightarrow> child sample_crypto (last [sample_genesis]) (Remove 5) sample_identity = Inr q
      \<longrightarrow> collision_free sample_crypto sample_store {q} \<and> storable q"
    using r(1) nc st(1) by simp
  from removal_is_final [OF sample_store_ok(1) sample_store_chain this run] run show ?thesis by blast
qed

end
