(* ===== verification/Network_Loop.thy ===== *)
theory Network_Loop
  imports Network_Peers
begin

text \<open>
  \<open>network.rs\<close>, the loop of the network worker: it takes commands from the channel, dials every active peer that has no
  outgoing session yet, counts for those who wait for a synchronization, accepts connections while a permit is free, and
  takes the results of finished sessions. A session is a task of the runtime; when it gets its permit, how it ends and
  whether it panics is not up to the loop. The relation \<open>network_step\<close> interleaves the loop with its tasks.
\<close>

section \<open>State\<close>

definition MAX_CONCURRENT_SESSIONS :: nat where "MAX_CONCURRENT_SESSIONS = 4"

record SyncSummary =
  attempted :: nat
  succeeded_count :: nat

definition default_summary :: SyncSummary where
  "default_summary = \<lparr>attempted = 0, succeeded_count = 0\<rparr>"

definition usize_saturating_add :: "nat \<Rightarrow> nat \<Rightarrow> nat" where
  "usize_saturating_add a b = min (a + b) (2 ^ 64 - 1)"

text \<open>
  The loop's variables; the spawned tasks, those that wait for a permit (outgoing ones, by peer), those that hold one, and
  those that ended (\<open>None\<close> is a panic, which \<open>JoinSet::join_next\<close> reports without the task's value); and the answers sent.
\<close>

record worker =
  wk_commands :: "NetworkCommand list"
  wk_outgoing :: "EndpointId set"
  wk_waiters :: "nat list"
  wk_pending_trigger :: bool
  wk_deferred_trigger :: bool
  wk_summary :: SyncSummary
  wk_next_periodic :: nat
  wk_queued :: "EndpointId list"
  wk_active :: "(TaskDirection \<times> EndpointId option) list"
  wk_ended :: "TaskResult option list"
  wk_answers :: "(nat \<times> SyncSummary) list"
  wk_stopped :: "nat option"

definition new_worker :: "nat \<Rightarrow> worker" where
  "new_worker next_periodic = \<lparr>wk_commands = [], wk_outgoing = {}, wk_waiters = [], wk_pending_trigger = True,
     wk_deferred_trigger = False, wk_summary = default_summary, wk_next_periodic = next_periodic, wk_queued = [], wk_active = [],
     wk_ended = [], wk_answers = [], wk_stopped = None\<rparr>"

section \<open>One round of the loop\<close>

text \<open>The last \<open>Shutdown\<close> taken is the one that is answered.\<close>

definition take_command :: "NetworkCommand \<Rightarrow> worker \<times> nat option \<Rightarrow> worker \<times> nat option" where
  "take_command command st = (case st of (w, stopping) \<Rightarrow> (case command of
      Trigger \<Rightarrow>
        (if wk_waiters w = [] then w\<lparr>wk_pending_trigger := True\<rparr> else w\<lparr>wk_deferred_trigger := True\<rparr>, stopping)
    | SyncCommand waiter \<Rightarrow>
        (let w = (if wk_waiters w = []
             then w\<lparr>wk_summary := \<lparr>attempted = card (wk_outgoing w), succeeded_count = 0\<rparr>, wk_pending_trigger := True\<rparr> else w)
         in w\<lparr>wk_waiters := wk_waiters w @ [waiter]\<rparr>, stopping)
    | Shutdown waiter \<Rightarrow> (w, Some waiter)))"

definition take_commands :: "worker \<Rightarrow> worker \<times> nat option" where
  "take_commands w = fold take_command (wk_commands w) (w\<lparr>wk_commands := []\<rparr>, None)"

definition periodic :: "nat \<Rightarrow> nat \<Rightarrow> nat \<Rightarrow> worker \<Rightarrow> worker" where
  "periodic interval now now' w =
    (if now \<ge> wk_next_periodic w
     then (if wk_waiters w = [] then w\<lparr>wk_pending_trigger := True\<rparr> else w)\<lparr>wk_next_periodic := now' + interval\<rparr>
     else w)"

definition spawn_outgoing :: "EndpointId \<Rightarrow> worker \<Rightarrow> worker" where
  "spawn_outgoing peer w =
    (if peer \<in> wk_outgoing w then w
     else
       let w = w\<lparr>wk_outgoing := insert peer (wk_outgoing w)\<rparr>;
           w = (if wk_waiters w = [] then w
                else w\<lparr>wk_summary := (wk_summary w)\<lparr>attempted := usize_saturating_add (attempted (wk_summary w)) 1\<rparr>\<rparr>)
       in w\<lparr>wk_queued := wk_queued w @ [peer]\<rparr>)"

text \<open>The peers are those of \<open>active_peers\<close>, or none when it fails.\<close>

definition dial :: "EndpointId list option \<Rightarrow> worker \<Rightarrow> worker" where
  "dial peers w =
    (if wk_pending_trigger w
     then (case peers of Some ps \<Rightarrow> fold spawn_outgoing ps | None \<Rightarrow> id) (w\<lparr>wk_pending_trigger := False\<rparr>)
     else w)"

definition answer_waiters :: "worker \<Rightarrow> worker" where
  "answer_waiters w =
    (if wk_outgoing w = {} \<and> wk_waiters w \<noteq> []
     then
       let w = w\<lparr>wk_answers := wk_answers w @ map (\<lambda>waiter. (waiter, wk_summary w)) (wk_waiters w), wk_waiters := [],
             wk_summary := default_summary\<rparr>
       in (if wk_deferred_trigger w then w\<lparr>wk_pending_trigger := True, wk_deferred_trigger := False\<rparr> else w)
     else w)"

text \<open>What \<open>tokio::select!\<close> took: an incoming connection, the end of a task, or the next tick.\<close>

datatype loop_event = Accepted | Completed | Tick

definition spawn_incoming :: "worker \<Rightarrow> worker" where
  "spawn_incoming w =
    (if length (wk_active w) < MAX_CONCURRENT_SESSIONS then w\<lparr>wk_active := wk_active w @ [(Incoming, None)]\<rparr> else w)"

definition take_result :: "TaskResult \<Rightarrow> worker \<Rightarrow> worker" where
  "take_result result w =
    (let w = (case (tr_direction result, tr_peer result) of
          (Outgoing, Some peer) \<Rightarrow>
            (let w = w\<lparr>wk_outgoing := wk_outgoing w - {peer}\<rparr> in
             if succeeded (tr_outcome result) \<and> wk_waiters w \<noteq> []
             then w\<lparr>wk_summary := (wk_summary w)\<lparr>succeeded_count := usize_saturating_add (succeeded_count (wk_summary w)) 1\<rparr>\<rparr>
             else w)
        | _ \<Rightarrow> w)
     in if reconcile_again (tr_outcome result) then w\<lparr>wk_pending_trigger := True\<rparr> else w)"

definition take_event :: "loop_event \<Rightarrow> worker \<Rightarrow> worker" where
  "take_event event w = (case event of
      Accepted \<Rightarrow> spawn_incoming w
    | Completed \<Rightarrow>
        (case wk_ended w of
           [] \<Rightarrow> w
         | None # ended \<Rightarrow> w\<lparr>wk_ended := ended\<rparr>
         | Some result # ended \<Rightarrow> take_result result (w\<lparr>wk_ended := ended\<rparr>))
    | Tick \<Rightarrow> w)"

definition loop_round :: "nat \<Rightarrow> nat \<Rightarrow> nat \<Rightarrow> EndpointId list option \<Rightarrow> loop_event \<Rightarrow> worker \<Rightarrow> worker" where
  "loop_round interval now now' peers event w =
    (case take_commands w of
       (w, Some waiter) \<Rightarrow> w\<lparr>wk_queued := [], wk_active := [], wk_ended := [], wk_stopped := Some waiter\<rparr>
     | (w, None) \<Rightarrow> take_event event (answer_waiters (dial peers (periodic interval now now' w))))"

section \<open>The loop among its tasks\<close>

definition outgoing_outcome :: "NetworkError + bool \<Rightarrow> TaskOutcome" where
  "outgoing_outcome result = (case result of
      Inr again \<Rightarrow> from_sync (Inr again)
    | Inl (Sync e) \<Rightarrow> from_sync (Inl e)
    | Inl _ \<Rightarrow> Unreachable)"

definition remove_at :: "nat \<Rightarrow> 'a list \<Rightarrow> 'a list" where
  "remove_at i xs = take i xs @ drop (Suc i) xs"

text \<open>
  A task that ends drops its permit and reports the peer it was given, or, if it serves a connection, the peer it has
  learnt, if any. Whether a task can panic is the argument \<open>panics\<close>.
\<close>

inductive network_step :: "nat \<Rightarrow> bool \<Rightarrow> worker \<Rightarrow> worker \<Rightarrow> bool" for interval panics where
  command: "wk_stopped w = None \<Longrightarrow> length (wk_commands w) < COMMAND_CAPACITY \<Longrightarrow>
    network_step interval panics w (w\<lparr>wk_commands := wk_commands w @ [c]\<rparr>)"
| round: "wk_stopped w = None \<Longrightarrow> network_step interval panics w (loop_round interval now now' peers event w)"
| permit: "i < length (wk_queued w) \<Longrightarrow> length (wk_active w) < MAX_CONCURRENT_SESSIONS \<Longrightarrow>
    network_step interval panics w
      (w\<lparr>wk_queued := remove_at i (wk_queued w), wk_active := wk_active w @ [(Outgoing, Some (wk_queued w ! i))]\<rparr>)"
| ends_outgoing: "i < length (wk_active w) \<Longrightarrow> wk_active w ! i = (Outgoing, given) \<Longrightarrow>
    network_step interval panics w (w\<lparr>wk_active := remove_at i (wk_active w),
      wk_ended := wk_ended w @ [Some \<lparr>tr_peer = given, tr_direction = Outgoing, tr_outcome = outgoing_outcome result\<rparr>]\<rparr>)"
| ends_incoming: "i < length (wk_active w) \<Longrightarrow> wk_active w ! i = (Incoming, given) \<Longrightarrow>
    network_step interval panics w (w\<lparr>wk_active := remove_at i (wk_active w),
      wk_ended := wk_ended w @ [Some \<lparr>tr_peer = learnt, tr_direction = Incoming, tr_outcome = outcome\<rparr>]\<rparr>)"
| panic: "panics \<Longrightarrow> i < length (wk_active w) \<Longrightarrow>
    network_step interval panics w (w\<lparr>wk_active := remove_at i (wk_active w), wk_ended := wk_ended w @ [None]\<rparr>)"

inductive network_run :: "nat \<Rightarrow> bool \<Rightarrow> nat \<Rightarrow> worker \<Rightarrow> bool" for interval panics start where
  start: "network_run interval panics start (new_worker start)"
| step: "network_run interval panics start w \<Longrightarrow> network_step interval panics w w' \<Longrightarrow> network_run interval panics start w'"

inductive_cases network_stepE: "network_step interval panics w w'"

end
