(* ===== verification/Network_Loop_Props.thy ===== *)
theory Network_Loop_Props
  imports Network_Loop
begin

text \<open>
  What the loop of the network worker keeps, and whom it serves: no peer is dialled twice at a time, the summaries it
  answers are consistent, and whoever waits for a synchronization gets an answer once the sessions have ended, unless one
  of them panicked.
\<close>

section \<open>The outgoing sessions\<close>

text \<open>The peers of the outgoing sessions whose result the loop has not taken yet.\<close>

fun running :: "TaskDirection \<times> EndpointId option \<Rightarrow> EndpointId list" where
  "running (Outgoing, Some peer) = [peer]"
| "running _ = []"

definition reported :: "TaskResult option \<Rightarrow> EndpointId list" where
  "reported r = (case r of None \<Rightarrow> [] | Some result \<Rightarrow> running (tr_direction result, tr_peer result))"

definition sessions :: "worker \<Rightarrow> EndpointId list" where
  "sessions w = wk_queued w @ concat (map running (wk_active w)) @ concat (map reported (wk_ended w))"

lemma concat_remove_at:
  assumes "i < length xs"
  shows "mset (concat (map f xs)) = mset (f (xs ! i)) + mset (concat (map f (remove_at i xs)))"
proof -
  have "xs = take i xs @ xs ! i # drop (Suc i) xs" using assms by (rule id_take_nth_drop)
  then have "mset (concat (map f xs)) = mset (concat (map f (take i xs @ xs ! i # drop (Suc i) xs)))" by simp
  then show ?thesis by (simp add: remove_at_def)
qed

lemma mset_remove_at: "i < length xs \<Longrightarrow> mset xs = add_mset (xs ! i) (mset (remove_at i xs))"
  using concat_remove_at [of i xs "\<lambda>x. [x]"] by simp

lemma length_remove_at: "length xs \<le> n \<Longrightarrow> length (remove_at i xs) \<le> n"
  by (auto simp: remove_at_def)

lemma sessions_permit:
  assumes "i < length (wk_queued w)"
  shows "mset (sessions (w\<lparr>wk_queued := remove_at i (wk_queued w), wk_active := wk_active w @ [(Outgoing, Some (wk_queued w ! i))]\<rparr>))
    = mset (sessions w)"
  using mset_remove_at [OF assms] by (simp add: sessions_def)

lemma sessions_end:
  assumes "i < length (wk_active w)" and "reported r = running (wk_active w ! i)"
  shows "mset (sessions (w\<lparr>wk_active := remove_at i (wk_active w), wk_ended := wk_ended w @ [r]\<rparr>)) = mset (sessions w)"
  using concat_remove_at [OF assms(1), of running] assms(2) by (simp add: sessions_def)

lemma sessions_panic:
  assumes "i < length (wk_active w)"
  shows "mset (sessions w)
    = mset (running (wk_active w ! i)) + mset (sessions (w\<lparr>wk_active := remove_at i (wk_active w), wk_ended := wk_ended w @ [None]\<rparr>))"
  using concat_remove_at [OF assms, of running] by (simp add: sessions_def reported_def)

section \<open>The invariant\<close>

definition USIZE_MAX :: nat where "USIZE_MAX = 2 ^ 64 - 1"

definition counted :: "worker \<Rightarrow> bool" where
  "counted w \<longleftrightarrow> wk_waiters w \<noteq> [] \<longrightarrow> succeeded_count (wk_summary w) \<le> USIZE_MAX
     \<and> (succeeded_count (wk_summary w) + card (wk_outgoing w) \<le> attempted (wk_summary w) \<or> USIZE_MAX \<le> attempted (wk_summary w))"

definition consistent :: "SyncSummary \<Rightarrow> bool" where
  "consistent s \<longleftrightarrow> succeeded_count s \<le> attempted s"

definition sound :: "bool \<Rightarrow> worker \<Rightarrow> bool" where
  "sound panics w \<longleftrightarrow> finite (wk_outgoing w) \<and> distinct (sessions w) \<and> set (sessions w) \<subseteq> wk_outgoing w
     \<and> length (wk_active w) \<le> MAX_CONCURRENT_SESSIONS \<and> counted w \<and> list_all (consistent \<circ> snd) (wk_answers w)
     \<and> (\<not> panics \<longrightarrow> wk_stopped w = None \<longrightarrow> wk_outgoing w \<subseteq> set (sessions w))"

lemma sound_cong:
  assumes "sound panics w" and "mset (sessions w') = mset (sessions w)" and "length (wk_active w') \<le> MAX_CONCURRENT_SESSIONS"
    and "wk_outgoing w' = wk_outgoing w" and "counted w'" and "wk_answers w' = wk_answers w" and "wk_stopped w' = wk_stopped w"
  shows "sound panics w'"
  using assms mset_eq_setD [OF assms(2)] mset_eq_imp_distinct_iff [OF assms(2)] by (simp add: sound_def)

lemma sound_new: "sound panics (new_worker start)"
  by (simp add: sound_def new_worker_def sessions_def counted_def)

section \<open>The parts of a round\<close>

definition same_tasks :: "worker \<Rightarrow> worker \<Rightarrow> bool" where
  "same_tasks w w' \<longleftrightarrow> wk_outgoing w' = wk_outgoing w \<and> wk_queued w' = wk_queued w \<and> wk_active w' = wk_active w
     \<and> wk_ended w' = wk_ended w \<and> wk_answers w' = wk_answers w \<and> wk_stopped w' = wk_stopped w"

lemma same_tasks_sound: "sound panics w \<Longrightarrow> same_tasks w w' \<Longrightarrow> counted w' \<Longrightarrow> sound panics w'"
  by (rule sound_cong) (simp_all add: same_tasks_def sessions_def sound_def)

lemma take_command_keeps:
  "same_tasks w0 (fst st) \<Longrightarrow> counted (fst st) \<Longrightarrow> same_tasks w0 (fst (take_command c st)) \<and> counted (fst (take_command c st))"
  by (cases st) (simp add: take_command_def same_tasks_def counted_def Let_def split: NetworkCommand.split)

lemma take_commands_keeps:
  assumes "counted w"
  shows "same_tasks w (fst (take_commands w)) \<and> counted (fst (take_commands w))"
proof -
  have "same_tasks w (fst (fold take_command cs st)) \<and> counted (fst (fold take_command cs st))"
    if "same_tasks w (fst st)" and "counted (fst st)" for cs st
    using that by (induction cs arbitrary: st) (simp_all add: take_command_keeps)
  moreover have "same_tasks w (w\<lparr>wk_commands := []\<rparr>)" and "counted (w\<lparr>wk_commands := []\<rparr>)"
    using assms by (simp_all add: same_tasks_def counted_def)
  ultimately show ?thesis by (simp add: take_commands_def)
qed

lemma periodic_keeps: "counted w \<Longrightarrow> same_tasks w (periodic interval now now' w) \<and> counted (periodic interval now now' w)"
  by (simp add: periodic_def same_tasks_def counted_def)

lemma spawn_outgoing_sound:
  assumes "sound panics w"
  shows "sound panics (spawn_outgoing peer w)"
proof (cases "peer \<in> wk_outgoing w")
  case True
  with assms show ?thesis by (simp add: spawn_outgoing_def)
next
  case False
  have c: "counted (spawn_outgoing peer w)"
    using assms False
    by (auto simp: spawn_outgoing_def counted_def sound_def Let_def usize_saturating_add_def USIZE_MAX_def min_def)
  have s: "mset (sessions (spawn_outgoing peer w)) = add_mset peer (mset (sessions w))"
    using False by (simp add: spawn_outgoing_def sessions_def Let_def)
  then have "mset (sessions (spawn_outgoing peer w)) = mset (peer # sessions w)" by simp
  then have d: "distinct (sessions (spawn_outgoing peer w)) \<longleftrightarrow> distinct (peer # sessions w)"
      and e: "set (sessions (spawn_outgoing peer w)) = insert peer (set (sessions w))"
    by (rule mset_eq_imp_distinct_iff) (metis s set_mset_add_mset_insert set_mset_mset)
  have "wk_outgoing (spawn_outgoing peer w) = insert peer (wk_outgoing w)" "wk_active (spawn_outgoing peer w) = wk_active w"
      "wk_answers (spawn_outgoing peer w) = wk_answers w" "wk_stopped (spawn_outgoing peer w) = wk_stopped w"
    using False by (simp_all add: spawn_outgoing_def Let_def)
  with assms False c d e show ?thesis by (auto simp: sound_def)
qed

lemma dial_sound:
  assumes "sound panics w"
  shows "sound panics (dial peers w)"
proof -
  have fold: "sound panics (fold spawn_outgoing ps v)" if "sound panics v" for ps v
    using that by (induction ps arbitrary: v) (simp_all add: spawn_outgoing_sound)
  have "sound panics (w\<lparr>wk_pending_trigger := False\<rparr>)"
    by (rule same_tasks_sound [OF assms]) (use assms in \<open>simp_all add: same_tasks_def sound_def counted_def\<close>)
  with assms fold show ?thesis by (simp add: dial_def split: option.split)
qed

lemma answer_waiters_sound:
  assumes "sound panics w"
  shows "sound panics (answer_waiters w)"
proof (cases "wk_outgoing w = {} \<and> wk_waiters w \<noteq> []")
  case True
  then have "consistent (wk_summary w)" using assms by (auto simp: sound_def counted_def consistent_def)
  with assms True show ?thesis
    by (auto simp: answer_waiters_def sound_def counted_def sessions_def Let_def list_all_iff)
next
  case False
  then have "answer_waiters w = w" unfolding answer_waiters_def by (rule if_not_P)
  with assms show ?thesis by simp
qed

lemma running_Nil: "running (d, p) = [] \<longleftrightarrow> d = Incoming \<or> p = None"
  by (cases "(d, p)" rule: running.cases) auto

lemma take_result_other:
  assumes "running (tr_direction result, tr_peer result) = []"
  shows "take_result result w = (if reconcile_again (tr_outcome result) then w\<lparr>wk_pending_trigger := True\<rparr> else w)"
  using assms by (cases "tr_direction result"; cases "tr_peer result") (simp_all add: take_result_def)

lemma take_result_sound:
  assumes "sound panics w" and "wk_ended w = Some result # ended"
  shows "sound panics (take_result result (w\<lparr>wk_ended := ended\<rparr>))"
proof (cases "running (tr_direction result, tr_peer result)")
  case Nil
  then have s: "sessions w = sessions (w\<lparr>wk_ended := ended\<rparr>)" using assms(2) by (simp add: sessions_def reported_def)
  have "same_tasks (w\<lparr>wk_ended := ended\<rparr>) (take_result result (w\<lparr>wk_ended := ended\<rparr>))"
      "counted (take_result result (w\<lparr>wk_ended := ended\<rparr>))"
    using assms(1) by (simp_all add: take_result_other [OF Nil] same_tasks_def sound_def counted_def)
  moreover have "sound panics (w\<lparr>wk_ended := ended\<rparr>)"
    by (rule sound_cong [OF assms(1)]) (use assms s in \<open>simp_all add: sound_def counted_def\<close>)
  ultimately show ?thesis by (metis same_tasks_sound)
next
  case (Cons peer more)
  then have r: "tr_direction result = Outgoing" "tr_peer result = Some peer" "more = []"
    by (cases "(tr_direction result, tr_peer result)" rule: running.cases; simp)+
  let ?v = "w\<lparr>wk_ended := ended\<rparr>"
  have s: "mset (sessions w) = mset (peer # sessions ?v)"
    using assms(2) r by (simp add: sessions_def reported_def)
  have d: "peer \<notin> set (sessions ?v)" "distinct (sessions ?v)" "peer \<in> wk_outgoing w" "set (sessions w) = insert peer (set (sessions ?v))"
    using mset_eq_imp_distinct_iff [OF s] mset_eq_setD [OF s] assms(1) by (auto simp: sound_def)
  have fields: "wk_outgoing (take_result result ?v) = wk_outgoing w - {peer}" "wk_active (take_result result ?v) = wk_active w"
      "wk_answers (take_result result ?v) = wk_answers w" "wk_stopped (take_result result ?v) = wk_stopped w"
      "sessions (take_result result ?v) = sessions ?v" "wk_waiters (take_result result ?v) = wk_waiters w"
      "attempted (wk_summary (take_result result ?v)) = attempted (wk_summary w)"
    using r by (simp_all add: take_result_def Let_def sessions_def)
  have less: "card (wk_outgoing w - {peer}) + 1 = card (wk_outgoing w)"
    using card_Suc_Diff1 [of "wk_outgoing w" peer] d(3) by simp
  have "succeeded_count (wk_summary (take_result result ?v))
      = (if succeeded (tr_outcome result) \<and> wk_waiters w \<noteq> [] then usize_saturating_add (succeeded_count (wk_summary w)) 1
         else succeeded_count (wk_summary w))"
    using r by (simp add: take_result_def Let_def)
  then have "counted (take_result result ?v)"
    using assms(1) less fields by (auto simp: counted_def sound_def usize_saturating_add_def USIZE_MAX_def)
  with assms(1) fields d show ?thesis by (auto simp: sound_def)
qed

lemma take_event_sound:
  assumes "sound panics w"
  shows "sound panics (take_event event w)"
proof (cases event)
  case Accepted
  have "sound panics (spawn_incoming w)"
    by (rule sound_cong [OF assms]) (use assms in \<open>simp_all add: spawn_incoming_def sessions_def sound_def counted_def\<close>)
  with Accepted show ?thesis by (simp add: take_event_def)
next
  case Completed
  show ?thesis
  proof (cases "wk_ended w")
    case (Cons r ended)
    show ?thesis
    proof (cases r)
      case None
      have "sound panics (w\<lparr>wk_ended := ended\<rparr>)"
        by (rule sound_cong [OF assms]) (use assms None Cons in \<open>simp_all add: sessions_def reported_def sound_def counted_def\<close>)
      with Completed Cons None show ?thesis by (simp add: take_event_def)
    qed (use Completed Cons take_result_sound [OF assms] in \<open>simp add: take_event_def\<close>)
  qed (use assms Completed in \<open>simp add: take_event_def\<close>)
qed (use assms in \<open>simp add: take_event_def\<close>)

lemma loop_round_sound:
  assumes "sound panics w"
  shows "sound panics (loop_round interval now now' peers event w)"
proof -
  obtain v stopping where v: "take_commands w = (v, stopping)" by fastforce
  then have "sound panics v"
    using take_commands_keeps [of w] same_tasks_sound [OF assms, of v] assms by (simp add: sound_def)
  show ?thesis
  proof (cases stopping)
    case None
    have "sound panics (periodic interval now now' v)"
      using periodic_keeps [of v] same_tasks_sound [OF \<open>sound panics v\<close>] \<open>sound panics v\<close> by (simp add: sound_def)
    with v None show ?thesis
      by (simp add: loop_round_def take_event_sound answer_waiters_sound dial_sound)
  next
    case (Some waiter)
    with \<open>sound panics v\<close> v show ?thesis by (simp add: loop_round_def sound_def sessions_def counted_def)
  qed
qed

lemma network_step_sound:
  assumes "network_step interval panics w w'" and "sound panics w"
  shows "sound panics w'"
  using assms
proof (cases rule: network_step.cases)
  case (command c)
  show ?thesis
    unfolding command by (rule same_tasks_sound [OF assms(2)]) (use assms(2) in \<open>simp_all add: same_tasks_def sound_def counted_def\<close>)
next
  case (permit i)
  show ?thesis
    unfolding permit(1)
    by (rule sound_cong [OF assms(2) sessions_permit [OF permit(2)]]) (use assms(2) permit in \<open>simp_all add: sound_def counted_def\<close>)
next
  case (ends_outgoing i given result)
  have "reported (Some \<lparr>tr_peer = given, tr_direction = Outgoing, tr_outcome = outgoing_outcome result\<rparr>) = running (wk_active w ! i)"
    using ends_outgoing by (simp add: reported_def)
  then show ?thesis
    unfolding ends_outgoing(1)
    by (intro sound_cong [OF assms(2) sessions_end [OF ends_outgoing(2)]])
      (use assms(2) ends_outgoing in \<open>simp_all add: sound_def counted_def length_remove_at\<close>)
next
  case (ends_incoming i given learnt outcome)
  have "reported (Some \<lparr>tr_peer = learnt, tr_direction = Incoming, tr_outcome = outcome\<rparr>) = running (wk_active w ! i)"
    using ends_incoming by (simp add: reported_def)
  then show ?thesis
    unfolding ends_incoming(1)
    by (intro sound_cong [OF assms(2) sessions_end [OF ends_incoming(2)]])
      (use assms(2) ends_incoming in \<open>simp_all add: sound_def counted_def length_remove_at\<close>)
next
  case (panic i)
  have "mset (sessions w) = mset (running (wk_active w ! i) @ sessions w')"
    unfolding panic(1) using sessions_panic [OF panic(3)] by simp
  from mset_eq_imp_distinct_iff [OF this] mset_eq_setD [OF this]
  have "distinct (sessions w')" "set (sessions w') \<subseteq> set (sessions w)" using assms(2) by (auto simp: sound_def)
  moreover have "wk_outgoing w' = wk_outgoing w" "wk_answers w' = wk_answers w" "length (wk_active w') \<le> length (wk_active w)" "counted w'"
    using assms(2) panic by (simp_all add: sound_def counted_def length_remove_at)
  ultimately show ?thesis using assms(2) panic(2) by (auto simp: sound_def)
qed (simp add: loop_round_sound)

lemma network_run_sound: "network_run interval panics start w \<Longrightarrow> sound panics w"
  by (induction rule: network_run.induct) (simp_all add: sound_new network_step_sound)

text \<open>
  C24. The loop keeps its books. In every state it can reach at most four sessions run, no peer has two outgoing sessions
  at a time, waiting ones and unreported ones included, and no summary that was answered counts more successes than
  attempts, although sessions start and end while others wait for the answer.
\<close>

theorem worker_keeps_books:
  assumes "network_run interval panics start w"
  shows "length (wk_active w) \<le> MAX_CONCURRENT_SESSIONS \<and> distinct (sessions w)
    \<and> (\<forall>(waiter, summary) \<in> set (wk_answers w). succeeded_count summary \<le> attempted summary)"
  using network_run_sound [OF assms] by (auto simp: sound_def list_all_iff consistent_def)

section \<open>Answers\<close>

lemma spawn_outgoing_answers: "wk_answers (spawn_outgoing peer w) = wk_answers w"
  by (simp add: spawn_outgoing_def Let_def)

lemma dial_answers: "wk_answers (dial peers w) = wk_answers w"
proof -
  have "wk_answers (fold spawn_outgoing ps v) = wk_answers v" for ps v
    by (induction ps arbitrary: v) (simp_all add: spawn_outgoing_answers)
  then show ?thesis by (simp add: dial_def split: option.split)
qed

lemma take_event_answers: "wk_answers (take_event event w) = wk_answers w"
  by (auto simp: take_event_def spawn_incoming_def take_result_def Let_def
      split: loop_event.split list.split option.split TaskDirection.split)

lemma answer_waiters_answers: "set (wk_answers w) \<subseteq> set (wk_answers (answer_waiters w))"
  by (auto simp: answer_waiters_def Let_def)

lemma loop_round_answers:
  assumes "sound panics w"
  shows "set (wk_answers w) \<subseteq> set (wk_answers (loop_round interval now now' peers event w))"
proof -
  obtain v stopping where v: "take_commands w = (v, stopping)" by fastforce
  have c: "counted w" using assms by (simp add: sound_def)
  have same: "wk_answers v = wk_answers w" "counted v" using take_commands_keeps [OF c] v by (simp_all add: same_tasks_def)
  have "wk_answers (periodic interval now now' v) = wk_answers w"
    using periodic_keeps [OF same(2)] same(1) by (simp add: same_tasks_def)
  then have "set (wk_answers w) \<subseteq> set (wk_answers (answer_waiters (dial peers (periodic interval now now' v))))"
    using answer_waiters_answers [of "dial peers (periodic interval now now' v)"] by (simp add: dial_answers)
  then show ?thesis using v same(1) by (simp add: loop_round_def take_event_answers split: option.split)
qed

text \<open>All outgoing sessions have ended, and neither a command nor a result asks for another one.\<close>

definition all_ended :: "worker \<Rightarrow> bool" where
  "all_ended w \<longleftrightarrow> wk_stopped w = None \<and> wk_commands w = [] \<and> \<not> wk_pending_trigger w \<and> wk_queued w = []
     \<and> list_all (\<lambda>s. fst s = Incoming) (wk_active w)
     \<and> list_all (\<lambda>r. case r of Some result \<Rightarrow> \<not> reconcile_again (tr_outcome result) | None \<Rightarrow> True) (wk_ended w)"

text \<open>
  Consecutive rounds: the clock before and after, what \<open>active_peers\<close> would return, and what \<open>tokio::select!\<close> takes; and
  how many of them take the end of a task.
\<close>

definition rounds_from :: "nat \<Rightarrow> (nat \<times> nat \<times> EndpointId list option \<times> loop_event) list \<Rightarrow> worker \<Rightarrow> worker" where
  "rounds_from interval rounds w = fold (\<lambda>(now, now', peers, event). loop_round interval now now' peers event) rounds w"

definition completions :: "(nat \<times> nat \<times> EndpointId list option \<times> loop_event) list \<Rightarrow> nat" where
  "completions rounds = length (filter (\<lambda>(now, now', peers, event). event = Completed) rounds)"

definition was_answered :: "nat \<Rightarrow> worker \<Rightarrow> bool" where
  "was_answered waiter w \<longleftrightarrow> waiter \<in> fst ` set (wk_answers w)"

lemma ended_round:
  assumes "sound False w" and "all_ended w" and "waiter \<in> set (wk_waiters w)"
    and run: "w' = loop_round interval now now' peers event w"
  shows "was_answered waiter w' \<or> all_ended w' \<and> waiter \<in> set (wk_waiters w') \<and> wk_ended w \<noteq> []
    \<and> length (wk_ended w') = (if event = Completed then length (wk_ended w) - 1 else length (wk_ended w))"
proof -
  define v where "v = periodic interval now now' w"
  have "w\<lparr>wk_commands := []\<rparr> = w" using assms(2) by (simp add: all_ended_def)
  then have t: "take_commands w = (w, None)" using assms(2) by (simp add: take_commands_def all_ended_def)
  have v: "all_ended v" "wk_waiters v = wk_waiters w" "wk_outgoing v = wk_outgoing w" "wk_ended v = wk_ended w"
    using assms(2,3) by (auto simp: v_def periodic_def all_ended_def)
  have w': "w' = take_event event (answer_waiters v)"
    using t v(1) by (simp add: run loop_round_def v_def dial_def all_ended_def)
  show ?thesis
  proof (cases "wk_outgoing w = {}")
    case True
    then have "waiter \<in> fst ` set (wk_answers (answer_waiters v))"
      using v assms(3) by (auto simp: answer_waiters_def Let_def image_Un image_image)
    then show ?thesis by (simp add: w' take_event_answers was_answered_def)
  next
    case False
    then have unchanged: "answer_waiters v = v" by (simp add: answer_waiters_def v(3))
    have "wk_outgoing w \<subseteq> set (concat (map reported (wk_ended w)))"
    proof -
      have "running s = []" if "fst s = Incoming" for s using that by (cases s) (simp add: running_Nil)
      then have "concat (map running (wk_active w)) = []" using assms(2) by (simp add: all_ended_def list_all_iff)
      then have "sessions w = concat (map reported (wk_ended w))" using assms(2) by (simp add: all_ended_def sessions_def)
      with assms(1,2) show ?thesis by (simp add: sound_def all_ended_def)
    qed
    then obtain r ended where r: "wk_ended w = r # ended" using False by (cases "wk_ended w") auto
    show ?thesis
    proof (cases "event = Completed")
      case False
      then have "w' = v \<or> w' = spawn_incoming v" by (cases event) (simp_all add: w' unchanged take_event_def)
      with v r assms(3) False show ?thesis by (auto simp: spawn_incoming_def all_ended_def split: if_splits)
    next
      case completed: True
      show ?thesis
      proof (cases r)
        case None
        then have "w' = v\<lparr>wk_ended := ended\<rparr>" using r v(4) completed by (simp add: w' unchanged take_event_def)
        with v r assms(3) completed show ?thesis by (simp add: all_ended_def)
      next
        case (Some result)
        then have "w' = take_result result (v\<lparr>wk_ended := ended\<rparr>)"
          using r v(4) completed by (simp add: w' unchanged take_event_def)
        moreover have "\<not> reconcile_again (tr_outcome result)" using assms(2) r Some by (simp add: all_ended_def)
        ultimately have "wk_ended w' = ended" "wk_waiters w' = wk_waiters v" "all_ended w'"
          using v(1,4) r by (auto simp: take_result_def Let_def all_ended_def split: TaskDirection.split option.split)
        with v r assms(3) completed show ?thesis by simp
      qed
    qed
  qed
qed

lemma rounds_answers:
  "sound False w \<Longrightarrow> was_answered waiter w \<Longrightarrow> sound False (rounds_from interval rounds w) \<and> was_answered waiter (rounds_from interval rounds w)"
proof (induction rounds arbitrary: w)
  case (Cons r rounds)
  obtain now now' peers event where r: "r = (now, now', peers, event)" by (metis prod_cases4)
  have "was_answered waiter (loop_round interval now now' peers event w)"
    using Cons.prems(2) loop_round_answers [OF Cons.prems(1), of interval now now' peers event] by (auto simp: was_answered_def)
  then show ?case using Cons.IH [OF loop_round_sound [OF Cons.prems(1)]] by (simp add: rounds_from_def r)
qed (simp add: rounds_from_def)

lemma rounds_end_answered:
  "sound False w \<Longrightarrow> all_ended w \<Longrightarrow> waiter \<in> set (wk_waiters w) \<Longrightarrow> length (wk_ended w) \<le> completions rounds
     \<Longrightarrow> sound False (rounds_from interval (rounds @ [r]) w) \<and> was_answered waiter (rounds_from interval (rounds @ [r]) w)"
proof (induction rounds arbitrary: w)
  case Nil
  obtain now now' peers event where r: "r = (now, now', peers, event)" by (metis prod_cases4)
  show ?case
    using ended_round [OF Nil(1-3) refl, of interval now now' peers event] Nil(4) loop_round_sound [OF Nil(1)]
    by (auto simp: rounds_from_def completions_def r)
next
  case (Cons x rounds)
  obtain now now' peers event where x: "x = (now, now', peers, event)" by (metis prod_cases4)
  let ?w = "loop_round interval now now' peers event w"
  have step: "rounds_from interval ((x # rounds) @ [r]) w = rounds_from interval (rounds @ [r]) ?w" by (simp add: rounds_from_def x)
  have sound: "sound False ?w" using Cons.prems(1) by (rule loop_round_sound)
  from ended_round [OF Cons.prems(1-3) refl, of interval now now' peers event] show ?case
  proof
    assume "was_answered waiter ?w"
    then show ?thesis unfolding step by (rule rounds_answers [OF sound])
  next
    assume "all_ended ?w \<and> waiter \<in> set (wk_waiters ?w) \<and> wk_ended w \<noteq> []
      \<and> length (wk_ended ?w) = (if event = Completed then length (wk_ended w) - 1 else length (wk_ended w))"
    moreover from this have "length (wk_ended ?w) \<le> completions rounds"
      using Cons.prems(4) by (auto simp: completions_def x split: if_splits)
    ultimately show ?thesis unfolding step by (intro Cons.IH [OF sound]) simp_all
  qed
qed


section \<open>A session that panics\<close>

definition lost :: "EndpointId \<Rightarrow> (nat \<times> SyncSummary) list \<Rightarrow> worker \<Rightarrow> bool" where
  "lost peer answers w \<longleftrightarrow> peer \<in> wk_outgoing w \<and> peer \<notin> set (sessions w) \<and> wk_answers w = answers"

lemma lost_same_tasks: "lost peer A w \<Longrightarrow> same_tasks w w' \<Longrightarrow> lost peer A w'"
  by (simp add: lost_def same_tasks_def sessions_def)

lemma lost_spawn_outgoing: "lost peer A w \<Longrightarrow> lost peer A (spawn_outgoing p w)"
  by (auto simp: lost_def spawn_outgoing_def sessions_def Let_def)

lemma lost_dial:
  assumes "lost peer A w"
  shows "lost peer A (dial peers w)"
proof -
  have fold: "lost peer A (fold spawn_outgoing ps v)" if "lost peer A v" for ps v
    using that by (induction ps arbitrary: v) (simp_all add: lost_spawn_outgoing)
  have "lost peer A (w\<lparr>wk_pending_trigger := False\<rparr>)" by (rule lost_same_tasks [OF assms]) (simp add: same_tasks_def)
  with assms fold show ?thesis by (simp add: dial_def split: option.split)
qed

lemma lost_take_event:
  assumes "lost peer A w"
  shows "lost peer A (take_event event w)"
proof (cases "event = Completed \<and> wk_ended w \<noteq> []")
  case True
  then obtain r ended where r: "event = Completed" "wk_ended w = r # ended" by (cases "wk_ended w") auto
  show ?thesis
  proof (cases r)
    case (Some result)
    then show ?thesis
      using assms r
      by (cases "tr_direction result"; cases "tr_peer result")
        (auto simp: take_event_def take_result_def lost_def sessions_def reported_def Let_def)
  qed (use assms r in \<open>auto simp: take_event_def lost_def sessions_def reported_def\<close>)
next
  case False
  then show ?thesis
    using assms by (cases event) (auto simp: take_event_def spawn_incoming_def lost_def sessions_def)
qed

lemma lost_round:
  assumes "lost peer A w" and "sound panics w"
  shows "lost peer A (loop_round interval now now' peers event w)"
proof -
  obtain v stopping where v: "take_commands w = (v, stopping)" by fastforce
  have c: "counted w" using assms(2) by (simp add: sound_def)
  have lv: "lost peer A v" "counted v" using take_commands_keeps [OF c] v lost_same_tasks [OF assms(1)] by simp_all
  let ?d = "dial peers (periodic interval now now' v)"
  have "lost peer A ?d" using periodic_keeps [OF lv(2)] lost_same_tasks [OF lv(1)] by (simp add: lost_dial)
  moreover from this have "answer_waiters ?d = ?d" by (auto simp: answer_waiters_def lost_def)
  moreover have "lost peer A (v\<lparr>wk_queued := [], wk_active := [], wk_ended := [], wk_stopped := Some waiter\<rparr>)" for waiter
    using lv(1) by (simp add: lost_def sessions_def)
  ultimately show ?thesis using v by (simp add: loop_round_def lost_take_event split: option.split)
qed

lemma lost_step:
  assumes "network_step interval panics w w'" and "sound panics w" and "lost peer A w"
  shows "lost peer A w'"
  using assms(1)
proof (cases rule: network_step.cases)
  case (command c)
  show ?thesis unfolding command by (rule lost_same_tasks [OF assms(3)]) (simp add: same_tasks_def)
next
  case (permit i)
  show ?thesis using mset_eq_setD [OF sessions_permit [OF permit(2)]] assms(3) by (simp add: permit(1) lost_def)
next
  case (ends_outgoing i given result)
  have "reported (Some \<lparr>tr_peer = given, tr_direction = Outgoing, tr_outcome = outgoing_outcome result\<rparr>) = running (wk_active w ! i)"
    using ends_outgoing by (simp add: reported_def)
  from mset_eq_setD [OF sessions_end [OF ends_outgoing(2) this]] assms(3) show ?thesis by (simp add: ends_outgoing(1) lost_def)
next
  case (ends_incoming i given learnt outcome)
  have "reported (Some \<lparr>tr_peer = learnt, tr_direction = Incoming, tr_outcome = outcome\<rparr>) = running (wk_active w ! i)"
    using ends_incoming by (simp add: reported_def)
  from mset_eq_setD [OF sessions_end [OF ends_incoming(2) this]] assms(3) show ?thesis by (simp add: ends_incoming(1) lost_def)
next
  case (panic i)
  have "mset (sessions w) = mset (running (wk_active w ! i) @ sessions w')"
    unfolding panic(1) using sessions_panic [OF panic(3)] by simp
  from mset_eq_setD [OF this] assms(3) show ?thesis by (auto simp: panic(1) lost_def)
qed (use lost_round [OF assms(3,2)] in simp)

lemma lost_steps:
  assumes "(network_step interval panics)\<^sup>*\<^sup>* w w'" and "sound panics w" and "lost peer A w"
  shows "sound panics w' \<and> lost peer A w'"
  using assms by (induction rule: rtranclp_induct) (auto intro: network_step_sound lost_step)

text \<open>
  C25. A session that panics is never replaced. \<open>JoinSet::join_next\<close> reports a panic without the task's value, so the peer
  of an outgoing session that panicked stays among those that are being dialled: until the program ends it has no outgoing
  session again, and nobody who waits for a synchronization, then or later, is answered.
\<close>

theorem panicked_peer_blocks:
  assumes "network_run interval True start w" and "i < length (wk_active w)" and "wk_active w ! i = (Outgoing, Some peer)"
    and "(network_step interval True)\<^sup>*\<^sup>* (w\<lparr>wk_active := remove_at i (wk_active w), wk_ended := wk_ended w @ [None]\<rparr>) w'"
  shows "peer \<notin> set (sessions w') \<and> wk_answers w' = wk_answers w"
proof -
  let ?w = "w\<lparr>wk_active := remove_at i (wk_active w), wk_ended := wk_ended w @ [None]\<rparr>"
  have sound: "sound True w" using assms(1) by (rule network_run_sound)
  have step: "network_step interval True w ?w" using assms(2) by (rule network_step.panic [OF TrueI])
  have m: "mset (sessions w) = mset (peer # sessions ?w)" using sessions_panic [OF assms(2)] assms(3) by simp
  have "peer \<in> set (sessions w)" "peer \<notin> set (sessions ?w)"
    using mset_eq_setD [OF m] mset_eq_imp_distinct_iff [OF m] sound by (auto simp: sound_def)
  then have "lost peer (wk_answers w) ?w" using sound by (auto simp: lost_def sound_def)
  from lost_steps [OF assms(4) network_step_sound [OF step sound] this] show ?thesis by (simp add: lost_def)
qed

section \<open>A sample run\<close>

text \<open>Somebody waits for a synchronization with the one peer, 3.\<close>

definition sample_dialled :: worker where
  "sample_dialled = (new_worker 10)\<lparr>wk_outgoing := {3}, wk_waiters := [7], wk_pending_trigger := False,
     wk_summary := \<lparr>attempted = 1, succeeded_count = 0\<rparr>, wk_active := [(Outgoing, Some 3)]\<rparr>"

definition sample_reported :: worker where
  "sample_reported = sample_dialled\<lparr>wk_active := [],
     wk_ended := [Some \<lparr>tr_peer = Some 3, tr_direction = Outgoing, tr_outcome = Synchronized False\<rparr>]\<rparr>"

lemma sample_dialled_run: "network_run 10 panics 10 sample_dialled"
proof -
  let ?w1 = "(new_worker 10)\<lparr>wk_commands := wk_commands (new_worker 10) @ [SyncCommand 7]\<rparr>"
  let ?w2 = "loop_round 10 0 0 (Some [3]) Tick ?w1"
  have "network_run 10 panics 10 ?w1"
    by (rule network_run.step [OF network_run.start network_step.command]) (simp_all add: new_worker_def COMMAND_CAPACITY_def)
  then have "network_run 10 panics 10 ?w2"
    by (rule network_run.step [OF _ network_step.round]) (simp add: new_worker_def)
  moreover have w2: "?w2 = sample_dialled\<lparr>wk_active := [], wk_queued := [3]\<rparr>"
    by (simp add: loop_round_def take_commands_def take_command_def periodic_def dial_def spawn_outgoing_def answer_waiters_def
        take_event_def usize_saturating_add_def sample_dialled_def new_worker_def Let_def)
  moreover have "network_step 10 panics (sample_dialled\<lparr>wk_active := [], wk_queued := [3]\<rparr>) sample_dialled"
    using network_step.permit [of 0 "sample_dialled\<lparr>wk_active := [], wk_queued := [3]\<rparr>" 10 panics]
    by (simp add: sample_dialled_def new_worker_def remove_at_def MAX_CONCURRENT_SESSIONS_def)
  ultimately show ?thesis by (metis network_run.step)
qed

lemma sample_reported_run: "network_run 10 panics 10 sample_reported"
proof -
  have "network_step 10 panics sample_dialled sample_reported"
    using network_step.ends_outgoing [of 0 sample_dialled "Some 3" 10 panics "Inr False"]
    by (simp add: sample_reported_def sample_dialled_def new_worker_def remove_at_def outgoing_outcome_def from_sync_def)
  with sample_dialled_run show ?thesis by (rule network_run.step)
qed

theorem worker_keeps_books_witness: "sessions sample_reported = [3] \<and> distinct (sessions sample_reported)"
  using worker_keeps_books [OF sample_reported_run]
  by (simp add: sample_reported_def sample_dialled_def new_worker_def sessions_def reported_def)


theorem panicked_peer_blocks_witness:
  "3 \<notin> set (sessions (sample_dialled\<lparr>wk_active := [], wk_ended := [None]\<rparr>))
    \<and> wk_answers (sample_dialled\<lparr>wk_active := [], wk_ended := [None]\<rparr>) = []"
proof -
  have s: "0 < length (wk_active sample_dialled)" "wk_active sample_dialled ! 0 = (Outgoing, Some 3)" "wk_answers sample_dialled = []"
      "sample_dialled\<lparr>wk_active := remove_at 0 (wk_active sample_dialled), wk_ended := wk_ended sample_dialled @ [None]\<rparr>
        = sample_dialled\<lparr>wk_active := [], wk_ended := [None]\<rparr>"
    by (simp_all add: sample_dialled_def new_worker_def remove_at_def)
  from panicked_peer_blocks [OF sample_dialled_run s(1,2) rtranclp.rtrancl_refl] show ?thesis unfolding s(3,4) .
qed

end
