(* ===== verification/Spec2Isabelle.thy ===== *)
theory Spec2Isabelle
  imports State_Props Wire_Bundles Scanner_Claims Sync_Instances Join_Instances Setup_Props Network_Props Network_Loop_Props
begin

text \<open>
  Verification of skillsync, a daemon that keeps collections of files equal on the devices of one group, without a
  server (\<open>src/crates/skillsync/src\<close>).

  \<^bold>\<open>The program.\<close> Each device has a key pair, whose public half is its EndpointID (\<open>identity.rs\<close>). The members of
  the group are the members of the last revision of the \<^emph>\<open>roster\<close>, a chain of signed revisions that admit or remove one
  device each (\<open>roster.rs\<close>). A file of a collection is known by its \<^emph>\<open>record\<close>: its path, its author, the time of its
  modification, and its size and hash, or that it was deleted (\<open>record.rs\<close>, \<open>path.rs\<close>). Of two records of a path the one
  that \<open>compare_winner\<close> prefers wins on every device. The SQLite state of a device (\<open>state.rs\<close>) holds the winners, all
  known roster revisions, addresses of peers and a log. The scanner (\<open>filesystem.rs\<close>) walks a collection and turns what
  it finds into records; the installer (\<open>installer.rs\<close>, \<open>root.rs\<close>) puts a received file in its place. In a session
  (\<open>sync.rs\<close>) two devices exchange roster and manifests over the frames of \<open>protocol.rs\<close>, merge them, and send each
  other the files that one of them misses. A device joins the group with an invitation: \<open>join.rs\<close> has the coordinator of
  the inviting device and both ends of the conversation, and \<open>network.rs\<close> the approval, the removal of members, and what
  is dialled and recorded around the sessions. \<open>config.rs\<close> and \<open>setup.rs\<close> prepare a device.

  \<^bold>\<open>Conventions.\<close> A \<open>Result\<close> is a sum, \<open>Inl\<close> for the error; a method on \<open>&mut self\<close> that can fail is a function from
  the state to a result and the state after it, also after an error (\<open>Prelude\<close>). Machine integers are words, and the
  checked, saturating and wrapping operations of the code are written out. Text is a list of characters that stand for
  its UTF-8 bytes (\<open>Rust_Text\<close>), a \<open>BTreeMap\<close> or an SQL table an association list ordered by its keys (\<open>Ordered_Map\<close>,
  \<open>Sql_Table\<close>). Definitions bear the names of the code; a suffix, or a name of its own, marks a part of a function.

  \<^bold>\<open>Theories and sources.\<close>
  \<^item> \<open>canonical.rs\<close>: \<open>Byte_Cursor\<close> (a reader's position, and the contract \<open>field_codec\<close> of the writer and the reader of a
    field), \<open>Canonical\<close> (\<open>Encoder\<close>, \<open>Decoder\<close>).
  \<^item> \<open>path.rs\<close>: \<open>Rust_Text\<close> (the functions of strings), \<open>Protocol_Path\<close>.
  \<^item> \<open>identity.rs\<close>: \<open>Identity\<close> (ids and keys), \<open>Identity_Store\<close> (\<open>IdentityStore\<close> with its reference, key file and keyring).
  \<^item> \<open>record.rs\<close>: \<open>Records\<close>. \<open>roster.rs\<close>: \<open>Roster\<close> (data, validation, construction), \<open>Roster_Encoding\<close>,
    \<open>Roster_Selection\<close> (\<open>select_chain\<close>).
  \<^item> \<open>state.rs\<close>: \<open>State_Store\<close> (schema, collections, peers), \<open>State_Log\<close>, \<open>State_Records\<close>, \<open>State_Roster\<close>, \<open>State_Joining\<close>; the
    theorems are in \<open>State_Records_Props\<close>, \<open>Roster_Exchange\<close>, \<open>State_Roster_Props\<close>, \<open>State_Invariant\<close> and \<open>State_Props\<close>;
    \<open>Lww_Store\<close> is the contract of a store in which the last writer wins.
  \<^item> \<open>installer.rs\<close>, \<open>root.rs\<close>: \<open>Local_Files\<close> (directories and files by inode, the calls of the operating system),
    \<open>Installer\<close>, \<open>Installer_Props\<close>, \<open>Installer_Safety\<close>.
  \<^item> \<open>filesystem.rs\<close>: \<open>Scanner\<close>; its theorems are in \<open>Scanner_Walk\<close> (the walk), \<open>Scanner_Props\<close>, \<open>Scanner_Refinement\<close> (the
    specification of a reconciliation), \<open>Scanner_Liveness\<close>, \<open>Scanner_Completion\<close> and \<open>Scanner_Claims\<close>.
  \<^item> \<open>protocol.rs\<close>: \<open>Wire_Protocol\<close>, \<open>Wire_Props\<close> (frames), \<open>Wire_Bundles\<close> (the four bundles).
  \<^item> \<open>sync.rs\<close>: \<open>Sync_Session\<close> and \<open>Sync_Transfer\<close>; the theorems in \<open>Store_Frames\<close> and \<open>Sync_Invariant\<close> (what a session keeps),
    \<open>Sync_Merge\<close>, \<open>Sync_Completion\<close>, \<open>Sync_Claims\<close>, \<open>Sync_Effects\<close>, \<open>Sync_Requests\<close>, \<open>Sync_Limits\<close>; \<open>Sync_Instances\<close> runs a
    session on concrete data.
  \<^item> \<open>join.rs\<close>: \<open>Join_Coordinator\<close>, \<open>Join_System\<close> (the coordinator among its callers, a step relation), \<open>Join_Props\<close>;
    \<open>Join_Exchange\<close> (both ends of the conversation), \<open>Join_Exchange_Props\<close>, \<open>Join_Completion\<close>; \<open>Join_Instances\<close> is a
    concrete join.
  \<^item> \<open>config.rs\<close>, \<open>setup.rs\<close>: \<open>Device_Setup\<close>, \<open>Setup_Props\<close>. \<open>network.rs\<close>: \<open>Network_Peers\<close>, \<open>Network_Props\<close>, \<open>Network_Loop\<close> (the
    worker's loop and its tasks, a step relation), \<open>Network_Loop_Props\<close>.

  \<^bold>\<open>Interfaces.\<close> \<open>field_codec\<close> is interpreted for every field of the canonical encoding and of the bundles, so that the
  exactness of a whole encoding follows from its fields. \<open>keyed_table\<close> is interpreted by the ordered maps. \<open>lww_store\<close>
  is interpreted by \<open>merge_record\<close> on the state store. \<open>store_invariant\<close>, and its extensions \<open>roster_invariant\<close> and
  \<open>session_invariant\<close>, say what an invariant of the store owes to the installer and to a session; they are interpreted by
  the readability of the store, by the winners and by the set of collections.

  \<^bold>\<open>What is shown.\<close>
  \<^item> \<^emph>\<open>Agreement.\<close> The winners are a function of the set of records received, the selected roster one of the set of
    revisions known; two devices that merge each other's manifests hold the same winners; a session changes the winners
    exactly as its merge specifies and only ever forwards, and it completes its merge whatever the file system does.
  \<^item> \<^emph>\<open>Authority.\<close> A session sends nothing to a device that the roster does not list; a revision is accepted from active
    members only; a removal wins over a competing admission and is final.
  \<^item> \<^emph>\<open>Files.\<close> The walk terminates in spite of symbolic links; a reconciliation that completes leaves the winners of its
    specification, and it is shown exactly when it completes; an installation changes no file but its destination, and
    that one only to the declared content, whatever call fails.
  \<^item> \<^emph>\<open>Durability.\<close> No sequence of operations and failures leaves a store its own queries reject; a device keeps its
    identity and its group whatever fails.
  \<^item> \<^emph>\<open>Joining.\<close> An invitation admits one request in its time; a connection receives the decision the person took on its
    own request; an approved join completes on both devices, and the joining one stores only what it has checked.
  \<^item> \<^emph>\<open>Formats and limits.\<close> A byte string is accepted exactly when it is the canonical encoding of what it decodes to; the
    limits on frames, files, transfers and connections hold.

  \<^bold>\<open>Parameters.\<close> What the code takes from libraries and from the system is an argument: \<open>crypto\<close> (BLAKE3 and Ed25519),
  \<open>json\<close> and \<open>join_codec\<close> (\<open>serde_json\<close>, \<open>base64\<close>), \<open>unicode\<close> (normalization and case folding), \<open>env\<close> (which calls of the file
  system fail, the clock, random names, what other programs do to a collection in between), \<open>peer_env\<close> (addresses and
  time-outs of \<open>iroh\<close>), \<open>join_env\<close> (clock and request ids), \<open>key_env\<close> and \<open>setup_env\<close> (which calls fail, the keyring, the
  environment). A theorem that relies on one of them says so in its hypotheses: signatures verify under their key
  (\<open>sig_correct\<close>), the revisions at hand have different hashes (\<open>collision_free\<close>), what \<open>serde_json\<close> writes it reads back
  (\<open>codec_ok\<close>); each has a concrete instance in its witness.

  \<^bold>\<open>Bounds.\<close> The walk of the scanner recurs to a given depth; one more than the number of directories always suffices,
  and the walk is run with that. The loop of \<open>apply_roster_change\<close> has the retry bound of the code. All other loops are
  structural or have a termination proof.

  \<^bold>\<open>Not modelled.\<close> the endpoint of \<open>iroh\<close>, its relays and address lookup in \<open>network.rs\<close>; \<open>daemon.rs\<close> (control socket, watchers and timers around the operations above), \<open>main.rs\<close> (command line),
  \<open>joining_service.rs\<close> (a client of an HTTP service, whose answers reach the model as a nonce and a ticket),
  \<open>process_lock.rs\<close> (an advisory file lock), \<open>lib.rs\<close>; failures of SQLite itself (busy, disk), durability across a power
  failure, and the Debug, Display and serde glue.
\<close>

end
